(* ===== verification/Fwx_Prelude.thy ===== *)
theory Fwx_Prelude
  imports Main "HOL-Library.Word" "HOL-Library.Monad_Syntax"
begin

text \<open>
  What every component of the model shares: the machine integers of the C code, byte
  strings, C memory that is read through a pointer, the two-valued result of code that may
  leave a fixed-size buffer, and the bucket tables that the kernel module builds from
  arrays of \<^verbatim>\<open>hlist_head\<close>. The interfaces of the tables are locales; each component that
  keeps a table interprets them on its own operations.
\<close>

unbundle bit_operations_syntax

named_theorems bucket_simps \<open>equations of the bucket tables\<close>
named_theorems bucket_intros \<open>preservation of the bucket invariants\<close>

section \<open>Machine integers and byte strings\<close>

type_synonym u8 = "8 word"
type_synonym u16 = "16 word"
type_synonym u32 = "32 word"
type_synonym u64 = "64 word"

text \<open>A C string is the list of its bytes without the terminating NUL.\<close>

type_synonym bytes = "u8 list"

definition cstr :: "string \<Rightarrow> bytes" where
  "cstr s = map of_char s"

lemma cstr_simps [simp]:
  "cstr [] = []" "cstr (c # s) = of_char c # cstr s"
  by (simp_all add: cstr_def)

definition no_nul :: "bytes \<Rightarrow> bool" where
  "no_nul s \<longleftrightarrow> 0 \<notin> set s"

text \<open>\<^verbatim>\<open>strlen\<close> and the string read from a NUL-terminated array.\<close>

definition c_string :: "bytes \<Rightarrow> bytes" where
  "c_string buf = takeWhile (\<lambda>b. b \<noteq> 0) buf"

lemma c_string_no_nul: "no_nul (c_string buf)"
  by (auto simp: no_nul_def c_string_def dest: set_takeWhileD)

lemma c_string_id: "no_nul s \<Longrightarrow> c_string s = s"
  by (auto simp: no_nul_def c_string_def takeWhile_eq_all_conv)

lemma length_c_string: "length (c_string s) \<le> length s"
  by (simp add: c_string_def length_takeWhile_le)

definition is_digit :: "u8 \<Rightarrow> bool" where
  "is_digit c \<longleftrightarrow> 0x30 \<le> c \<and> c \<le> 0x39"

text \<open>
  The kernel's \<^verbatim>\<open>isspace\<close>: space, the control characters 9 to 13, and the no-break
  space of Latin-1.
\<close>

definition is_space :: "u8 \<Rightarrow> bool" where
  "is_space c \<longleftrightarrow> c = 0x20 \<or> (9 \<le> c \<and> c \<le> 13) \<or> c = 0xA0"

text \<open>The \<^verbatim>\<open>int\<close> that a 32-bit conversion leaves of an arbitrary integer.\<close>

definition to_int32 :: "int \<Rightarrow> int" where
  "to_int32 n = sint (word_of_int n :: u32)"

lemma to_int32_id: "- (2 ^ 31) \<le> n \<Longrightarrow> n < 2 ^ 31 \<Longrightarrow> to_int32 n = n"
  by (simp add: to_int32_def signed_of_int signed_take_bit_int_eq_self)

lemma to_int32_bounds: "- (2 ^ 31) \<le> to_int32 n \<and> to_int32 n < 2 ^ 31"
  using sint_range_size [of "word_of_int n :: u32"] by (simp add: to_int32_def word_size)

section \<open>Memory read through a pointer\<close>

text \<open>
  A packet's payload is read through a pointer with a length kept beside it. The memory
  is total: a read past the length is a read of whatever lies there, so that an operation
  that reads too far has a result that depends on it. Two memories agree below a length when no
  read inside the packet can tell them apart; an operation that gives equal results on them
  stays inside the packet.
\<close>

type_synonym mem = "int \<Rightarrow> u8"

definition agree_below :: "int \<Rightarrow> mem \<Rightarrow> mem \<Rightarrow> bool" where
  "agree_below n m m' \<longleftrightarrow> (\<forall>i. 0 \<le> i \<and> i < n \<longrightarrow> m i = m' i)"

lemma agree_belowD: "agree_below n m m' \<Longrightarrow> 0 \<le> i \<Longrightarrow> i < n \<Longrightarrow> m i = m' i"
  by (simp add: agree_below_def)

lemma agree_below_sym: "agree_below n m m' \<Longrightarrow> agree_below n m' m"
  by (simp add: agree_below_def)

lemma agree_below_mono: "agree_below n m m' \<Longrightarrow> k \<le> n \<Longrightarrow> agree_below k m m'"
  by (simp add: agree_below_def)

definition slice :: "mem \<Rightarrow> int \<Rightarrow> int \<Rightarrow> bytes" where
  "slice m pos len = map (\<lambda>i. m (pos + int i)) [0..<nat len]"

lemma length_slice [simp]: "length (slice m pos len) = nat len"
  by (simp add: slice_def)

lemma nth_slice [simp]: "i < nat len \<Longrightarrow> slice m pos len ! i = m (pos + int i)"
  by (simp add: slice_def)

lemma slice_agree:
  assumes "agree_below n m m'" and "0 \<le> pos" and "pos + len \<le> n"
  shows "slice m pos len = slice m' pos len"
proof (rule nth_equalityI)
  show "length (slice m pos len) = length (slice m' pos len)" by simp
next
  fix i assume "i < length (slice m pos len)"
  then have "i < nat len" and "0 \<le> pos + int i" and "pos + int i < n" using assms(2,3) by auto
  then show "slice m pos len ! i = slice m' pos len ! i"
    using agree_belowD [OF assms(1)] by simp
qed

text \<open>A packet given by its bytes; what follows it is zero.\<close>

definition mem_of :: "bytes \<Rightarrow> mem" where
  "mem_of xs = (\<lambda>i. if 0 \<le> i \<and> i < int (length xs) then xs ! nat i else 0)"

lemma slice_mem_of: "slice (mem_of xs) 0 (int (length xs)) = xs"
  by (rule nth_equalityI) (simp_all add: mem_of_def)

section \<open>Results of code that may leave a buffer\<close>

text \<open>
  Writing past an array is undefined behaviour in C. Where the code copies without a bound that
  fits, the model returns \<open>Inl\<close> and says which array was left. So does a signed counter that is
  increased past the largest \<^verbatim>\<open>int\<close>, a read past the end of a buffer, a NULL pointer that is
  followed, and a text with conversions that is used as a format.
\<close>

datatype ub = BufferOverflow string | SignedOverflow | OverRead string | NullDeref string | BadFormat

definition INT_MAX :: int where "INT_MAX = 2147483647"

type_synonym 'a ub_result = "ub + 'a"

definition ub_bind :: "'a ub_result \<Rightarrow> ('a \<Rightarrow> 'b ub_result) \<Rightarrow> 'b ub_result" where
  "ub_bind r f = (case r of Inl e \<Rightarrow> Inl e | Inr x \<Rightarrow> f x)"

lemma ub_bind_simps [simp]:
  "ub_bind (Inl e) f = Inl e" "ub_bind (Inr x) f = f x"
  by (simp_all add: ub_bind_def)

lemma ub_bind_Inr: "ub_bind r f = Inr y \<longleftrightarrow> (\<exists>x. r = Inr x \<and> f x = Inr y)"
  by (cases r) auto

text \<open>
  Copy of a piece of a string into an array of the given size that held zeros: the array
  must keep a terminating NUL for the string functions that read it next.
\<close>

definition copy_field :: "string \<Rightarrow> nat \<Rightarrow> bytes \<Rightarrow> bytes ub_result" where
  "copy_field name sz s = (if length s < sz then Inr s else Inl (BufferOverflow name))"

lemma copy_field_Inr: "copy_field name n s = Inr t \<longleftrightarrow> t = s \<and> length s < n"
  by (auto simp: copy_field_def)

section \<open>Lists as hlists\<close>

text \<open>\<^verbatim>\<open>hlist_del\<close> of, and a write through a pointer to, the first entry that satisfies a test.\<close>

fun remove_first :: "('e \<Rightarrow> bool) \<Rightarrow> 'e list \<Rightarrow> 'e list" where
  "remove_first P [] = []"
| "remove_first P (x # xs) = (if P x then xs else x # remove_first P xs)"

fun update_first :: "('e \<Rightarrow> bool) \<Rightarrow> ('e \<Rightarrow> 'e) \<Rightarrow> 'e list \<Rightarrow> 'e list" where
  "update_first P f [] = []"
| "update_first P f (x # xs) = (if P x then f x # xs else x # update_first P f xs)"

lemma set_remove_first: "set (remove_first P xs) \<subseteq> set xs"
  by (induction xs) auto

lemma remove_first_none: "\<forall>x\<in>set xs. \<not> P x \<Longrightarrow> remove_first P xs = xs"
  by (induction xs) auto

lemma length_remove_first:
  "length (remove_first P xs) = (if \<exists>x\<in>set xs. P x then length xs - 1 else length xs)"
  by (induction xs) (auto simp: Suc_diff_1 neq_Nil_conv intro: Suc_pred split: if_splits)

lemma find_remove_first_other:
  "(\<And>x. P x \<Longrightarrow> \<not> Q x) \<Longrightarrow> find Q (remove_first P xs) = find Q xs"
  by (induction xs) auto

lemma distinct_map_remove_first: "distinct (map k xs) \<Longrightarrow> distinct (map k (remove_first P xs))"
  by (induction xs) (auto dest: set_remove_first [THEN subsetD])

lemma find_remove_first_distinct:
  "distinct (map k xs) \<Longrightarrow> find (\<lambda>x. k x = v) (remove_first (\<lambda>x. k x = v) xs) = None"
  by (induction xs) (auto simp: find_None_iff image_iff)

lemma map_update_first: "(\<And>x. k (f x) = k x) \<Longrightarrow> map k (update_first P f xs) = map k xs"
  by (induction xs) auto

lemma map_update_first_on: "(\<And>x. P x \<Longrightarrow> k (f x) = k x) \<Longrightarrow> map k (update_first P f xs) = map k xs"
  by (induction xs) auto

lemma find_update_first_on:
  "(\<And>x. P x \<Longrightarrow> P (f x)) \<Longrightarrow> find P (update_first P f xs) = map_option f (find P xs)"
  by (induction xs) auto

lemma length_update_first [simp]: "length (update_first P f xs) = length xs"
  by (induction xs) auto

lemma find_update_first:
  assumes "\<And>x. P (f x) = P x"
  shows "find P (update_first P f xs) = map_option f (find P xs)"
  by (induction xs) (auto simp: assms)

lemma find_update_first_other:
  assumes "\<And>x. P x \<Longrightarrow> \<not> Q x" and "\<And>x. P x \<Longrightarrow> \<not> Q (f x)"
  shows "find Q (update_first P f xs) = find Q xs"
  by (induction xs) (auto simp: assms)

lemma set_update_first: "x \<in> set (update_first P f xs) \<Longrightarrow> x \<in> set xs \<or> (\<exists>y\<in>set xs. P y \<and> x = f y)"
  by (induction xs) (auto split: if_splits)

lemma find_key_Some: "find (\<lambda>e. k e = v) xs = Some e \<Longrightarrow> k e = v \<and> e \<in> set xs"
  by (auto simp: find_Some_iff)

end
