(* ===== verification/Fwx_Table.thy ===== *)
theory Fwx_Table
  imports Fwx_Prelude
begin

text \<open>
  Bucket tables: an array of lists, each entry in the bucket its key hashes to. The kernel
  module keeps five of them (MAC sets, application ids of a rule, connections, clients and
  the visit records of a client). This theory has the operations on the array, their
  invariant, and the interfaces (locales) under which the components use their tables.
\<close>

type_synonym 'e buckets = "'e list list"

definition bt_empty :: "nat \<Rightarrow> 'e buckets" where
  "bt_empty n = replicate n []"

text \<open>\<^verbatim>\<open>hlist_add_head\<close>: the newest entry is the first of its bucket.\<close>

definition bt_add :: "nat \<Rightarrow> 'e \<Rightarrow> 'e buckets \<Rightarrow> 'e buckets" where
  "bt_add h e t = t[h := e # t ! h]"

definition bt_find :: "nat \<Rightarrow> ('e \<Rightarrow> bool) \<Rightarrow> 'e buckets \<Rightarrow> 'e option" where
  "bt_find h P t = find P (t ! h)"

definition bt_del :: "nat \<Rightarrow> ('e \<Rightarrow> bool) \<Rightarrow> 'e buckets \<Rightarrow> 'e buckets" where
  "bt_del h P t = t[h := remove_first P (t ! h)]"

definition bt_update :: "nat \<Rightarrow> ('e \<Rightarrow> bool) \<Rightarrow> ('e \<Rightarrow> 'e) \<Rightarrow> 'e buckets \<Rightarrow> 'e buckets" where
  "bt_update h P f t = t[h := update_first P f (t ! h)]"

definition bt_size :: "'e buckets \<Rightarrow> nat" where
  "bt_size t = length (concat t)"

text \<open>The invariant: the array keeps its size, and every entry is where its key hashes.\<close>

definition bt_inv :: "('k \<Rightarrow> nat) \<Rightarrow> ('e \<Rightarrow> 'k) \<Rightarrow> nat \<Rightarrow> 'e buckets \<Rightarrow> bool" where
  "bt_inv hash key n t \<longleftrightarrow> length t = n \<and> (\<forall>i<n. \<forall>e\<in>set (t ! i). hash (key e) = i)"

definition bt_unique :: "('e \<Rightarrow> 'k) \<Rightarrow> 'e buckets \<Rightarrow> bool" where
  "bt_unique key t \<longleftrightarrow> (\<forall>b\<in>set t. distinct (map key b))"

section \<open>Equations\<close>

lemma bt_inv_length [bucket_simps]: "bt_inv hash key n t \<Longrightarrow> length t = n"
  by (simp add: bt_inv_def)

lemma length_bt_ops [bucket_simps]:
  "length (bt_empty n) = n" "length (bt_add h e t) = length t"
  "length (bt_del h P t) = length t" "length (bt_update h P f t) = length t"
  by (simp_all add: bt_empty_def bt_add_def bt_del_def bt_update_def)

lemma bt_find_empty [bucket_simps]: "h < n \<Longrightarrow> bt_find h P (bt_empty n) = None"
  by (simp add: bt_find_def bt_empty_def)

lemma bt_find_add [bucket_simps]:
  "h < length t \<Longrightarrow> bt_find h' P (bt_add h e t) =
     (if h' = h \<and> P e then Some e else bt_find h' P t)"
  by (auto simp: bt_find_def bt_add_def nth_list_update)

lemma bt_find_del_other [bucket_simps]:
  "h < length t \<Longrightarrow> (\<And>x. P x \<Longrightarrow> \<not> Q x) \<Longrightarrow> bt_find h' Q (bt_del h P t) = bt_find h' Q t"
  by (cases "h' = h") (simp_all add: bt_find_def bt_del_def find_remove_first_other)

lemma bt_del_add [bucket_simps]: "h < length t \<Longrightarrow> P e \<Longrightarrow> bt_del h P (bt_add h e t) = t"
  by (simp add: bt_del_def bt_add_def)

lemma bt_find_update [bucket_simps]:
  "h < length t \<Longrightarrow> (\<And>x. P (f x) = P x) \<Longrightarrow>
     bt_find h P (bt_update h P f t) = map_option f (bt_find h P t)"
  by (simp add: bt_find_def bt_update_def find_update_first)

lemma bt_find_update_other [bucket_simps]:
  "h < length t \<Longrightarrow> (\<And>x. P x \<Longrightarrow> \<not> Q x) \<Longrightarrow> (\<And>x. P x \<Longrightarrow> \<not> Q (f x)) \<Longrightarrow>
     bt_find h' Q (bt_update h P f t) = bt_find h' Q t"
  by (cases "h' = h") (simp_all add: bt_find_def bt_update_def find_update_first_other)

lemma bt_find_Some: "bt_find h (\<lambda>e. key e = k) t = Some e \<Longrightarrow> key e = k \<and> e \<in> set (t ! h)"
  by (auto simp: bt_find_def dest: find_key_Some)

lemma concat_list_update:
  "h < length t \<Longrightarrow> concat (t[h := b]) = concat (take h t) @ b @ concat (drop (Suc h) t)"
  by (simp add: upd_conv_take_nth_drop)

lemma bt_size_empty [bucket_simps]: "bt_size (bt_empty n) = 0"
  by (simp add: bt_size_def bt_empty_def)

lemma bt_size_nth:
  assumes "h < length t"
  shows "bt_size t = length (concat (take h t)) + length (t ! h) + length (concat (drop (Suc h) t))"
proof -
  have "concat t = concat (take h t) @ t ! h @ concat (drop (Suc h) t)"
    using concat_list_update [OF assms, of "t ! h"] by simp
  then show ?thesis by (simp add: bt_size_def)
qed

lemma bt_size_add [bucket_simps]: "h < length t \<Longrightarrow> bt_size (bt_add h e t) = Suc (bt_size t)"
  by (simp add: bt_size_nth [of h t]) (simp add: bt_size_def bt_add_def concat_list_update)

lemma bt_size_del [bucket_simps]:
  assumes "h < length t" and "bt_find h P t = Some e"
  shows "Suc (bt_size (bt_del h P t)) = bt_size t"
proof -
  from assms(2) have "\<exists>x\<in>set (t ! h). P x" by (auto simp: bt_find_def find_Some_iff)
  moreover from this have "t ! h \<noteq> []" by auto
  ultimately have "Suc (length (remove_first P (t ! h))) = length (t ! h)"
    by (auto simp: length_remove_first)
  then show ?thesis
    using assms(1) by (simp add: bt_size_nth [of h t])
      (simp add: bt_size_def bt_del_def concat_list_update)
qed

lemma bt_entry_iff: "e \<in> set (concat t) \<longleftrightarrow> (\<exists>i<length t. e \<in> set (t ! i))"
  by (auto simp: in_set_conv_nth [of _ t]) (metis nth_mem)

section \<open>The invariant\<close>

lemma bt_inv_empty [bucket_intros]: "bt_inv hash key n (bt_empty n)"
  by (simp add: bt_inv_def bt_empty_def)

lemma bt_inv_add [bucket_intros]:
  "bt_inv hash key n t \<Longrightarrow> h = hash (key e) \<Longrightarrow> bt_inv hash key n (bt_add h e t)"
  by (cases "h < length t")
     (auto simp: bt_inv_def bt_add_def nth_list_update list_update_beyond split: if_splits)

lemma bt_inv_del [bucket_intros]: "bt_inv hash key n t \<Longrightarrow> bt_inv hash key n (bt_del h P t)"
  by (cases "h < length t")
     (auto simp: bt_inv_def bt_del_def nth_list_update list_update_beyond
           dest: set_remove_first [THEN subsetD] split: if_splits)

lemma bt_inv_update [bucket_intros]:
  assumes "bt_inv hash key n t" and "\<And>x. key (f x) = key x"
  shows "bt_inv hash key n (bt_update h P f t)"
proof (cases "h < length t")
  case True
  then show ?thesis
    using assms by (auto simp: bt_inv_def bt_update_def nth_list_update dest!: set_update_first)
next
  case False
  then show ?thesis using assms(1) by (simp add: bt_update_def list_update_beyond)
qed

lemma bt_unique_empty [bucket_intros]: "bt_unique key (bt_empty n)"
  by (simp add: bt_unique_def bt_empty_def)

lemma bt_unique_nth: "bt_unique key t \<longleftrightarrow> (\<forall>i<length t. distinct (map key (t ! i)))"
  by (metis bt_unique_def in_set_conv_nth)

lemma bt_unique_add [bucket_intros]:
  "bt_unique key t \<Longrightarrow> bt_find h (\<lambda>x. key x = key e) t = None \<Longrightarrow> bt_unique key (bt_add h e t)"
  by (cases "h < length t")
     (auto simp: bt_unique_nth bt_add_def nth_list_update bt_find_def find_None_iff
        list_update_beyond)

lemma bt_unique_del [bucket_intros]: "bt_unique key t \<Longrightarrow> bt_unique key (bt_del h P t)"
  by (cases "h < length t")
     (auto simp: bt_unique_nth bt_del_def nth_list_update distinct_map_remove_first
        list_update_beyond)

lemma bt_unique_update [bucket_intros]:
  "bt_unique key t \<Longrightarrow> (\<And>x. key (f x) = key x) \<Longrightarrow> bt_unique key (bt_update h P f t)"
  by (cases "h < length t")
     (auto simp: bt_unique_nth bt_update_def nth_list_update map_update_first list_update_beyond)

lemma bt_find_del_same:
  "bt_unique key t \<Longrightarrow> h < length t \<Longrightarrow>
     bt_find h (\<lambda>x. key x = k) (bt_del h (\<lambda>x. key x = k) t) = None"
  by (simp add: bt_find_def bt_del_def bt_unique_nth find_remove_first_distinct)

text \<open>Unique buckets and the right places make the keys of the whole table unique.\<close>

lemma distinct_keys_concat:
  "\<forall>b\<in>set t. distinct (map key b) \<Longrightarrow>
     \<forall>i j. i < j \<and> j < length t \<longrightarrow> key ` set (t ! i) \<inter> key ` set (t ! j) = {} \<Longrightarrow>
     distinct (map key (concat t))"
proof (induction t)
  case (Cons b t)
  have "key ` set b \<inter> key ` set c = {}" if c: "c \<in> set t" for c
  proof -
    obtain j where "j < length t" "t ! j = c" using c by (auto simp: in_set_conv_nth)
    then show ?thesis using Cons.prems(2) [rule_format, of 0 "Suc j"] by simp
  qed
  moreover have "distinct (map key (concat t))"
  proof (rule Cons.IH)
    show "\<forall>b\<in>set t. distinct (map key b)" using Cons.prems(1) by simp
    show "\<forall>i j. i < j \<and> j < length t \<longrightarrow> key ` set (t ! i) \<inter> key ` set (t ! j) = {}"
      using Cons.prems(2) by (metis Suc_less_eq length_Cons nth_Cons_Suc)
  qed
  ultimately show ?case using Cons.prems(1) by auto
qed simp

lemma bt_distinct_keys:
  assumes "bt_inv hash key n t" and "bt_unique key t"
  shows "distinct (map key (concat t))"
proof (rule distinct_keys_concat)
  show "\<forall>b\<in>set t. distinct (map key b)" using assms(2) by (simp add: bt_unique_def)
  show "\<forall>i j. i < j \<and> j < length t \<longrightarrow> key ` set (t ! i) \<inter> key ` set (t ! j) = {}"
  proof (intro allI impI equals0I)
    fix i j k assume ij: "i < j \<and> j < length t" and "k \<in> key ` set (t ! i) \<inter> key ` set (t ! j)"
    moreover have "hash k = m" if "m < length t" "k \<in> key ` set (t ! m)" for m
      using assms(1) that by (auto simp: bt_inv_def)
    ultimately have "hash k = i" "hash k = j" using ij by auto
    then show False using ij by simp
  qed
qed

text \<open>Under the invariant an entry anywhere in the array is found by a look in its bucket.\<close>

lemma bt_find_iff_entry:
  assumes "bt_inv hash key n t" and "\<And>k. hash k < n"
  shows "bt_find (hash k) (\<lambda>e. key e = k) t \<noteq> None \<longleftrightarrow> k \<in> key ` set (concat t)"
proof
  assume "bt_find (hash k) (\<lambda>e. key e = k) t \<noteq> None"
  then obtain e where "bt_find (hash k) (\<lambda>e. key e = k) t = Some e" by blast
  then have "key e = k" and "e \<in> set (t ! hash k)" using bt_find_Some by metis+
  moreover have "hash k < length t" using assms by (simp add: bt_inv_def)
  ultimately have "e \<in> set (concat t)" unfolding bt_entry_iff by blast
  with \<open>key e = k\<close> show "k \<in> key ` set (concat t)" by blast
next
  assume "k \<in> key ` set (concat t)"
  then obtain e where e: "e \<in> set (concat t)" and k: "key e = k" by blast
  from e obtain i where i: "i < length t" "e \<in> set (t ! i)" unfolding bt_entry_iff by blast
  with assms(1) k have "hash k = i" unfolding bt_inv_def by blast
  with i k show "bt_find (hash k) (\<lambda>e. key e = k) t \<noteq> None"
    unfolding bt_find_def find_None_iff by blast
qed

section \<open>The interfaces\<close>

text \<open>A table that is filled and looked up: what a client of the table may rely on.\<close>

locale keyed_table =
  fixes empty :: "'t"
    and add :: "'e \<Rightarrow> 't \<Rightarrow> 't"
    and look :: "'k \<Rightarrow> 't \<Rightarrow> 'e option"
    and key :: "'e \<Rightarrow> 'k"
    and inv :: "'t \<Rightarrow> bool"
  assumes inv_empty: "inv empty"
    and inv_add: "inv t \<Longrightarrow> inv (add e t)"
    and look_empty: "look k empty = None"
    and look_add: "inv t \<Longrightarrow> look k (add e t) = (if k = key e then Some e else look k t)"
    and look_key: "look k t = Some e \<Longrightarrow> key e = k"
begin

lemma inv_fold_add: "inv t \<Longrightarrow> inv (fold add es t)"
  by (induction es arbitrary: t) (simp_all add: inv_add)

lemma present_fold_add:
  "inv t \<Longrightarrow> look k (fold add es t) \<noteq> None \<longleftrightarrow> look k t \<noteq> None \<or> k \<in> key ` set es"
proof (induction es arbitrary: t)
  case Nil
  then show ?case by simp
next
  case (Cons e es)
  then show ?case by (simp add: inv_add look_add)
qed

lemma present_filled: "look k (fold add es empty) \<noteq> None \<longleftrightarrow> k \<in> key ` set es"
  using present_fold_add [OF inv_empty, of k es] by (simp add: look_empty)

lemma add_monotone: "inv t \<Longrightarrow> look k t \<noteq> None \<Longrightarrow> look k (add e t) \<noteq> None"
  by (simp add: look_add)

end

text \<open>
  A table with deletion. Deleting takes out the newest entry of the key only, which is what
  the code's \<^verbatim>\<open>hlist_del\<close> of the entry found does: an entry added twice survives one deletion.
\<close>

locale keyed_table_del = keyed_table +
  fixes del :: "'k \<Rightarrow> 't \<Rightarrow> 't"
  assumes inv_del: "inv t \<Longrightarrow> inv (del k t)"
    and look_del_other: "inv t \<Longrightarrow> k' \<noteq> k \<Longrightarrow> look k' (del k t) = look k' t"
    and del_add: "inv t \<Longrightarrow> key e = k \<Longrightarrow> del k (add e t) = t"
begin

lemma look_del_add: "inv t \<Longrightarrow> key e = k \<Longrightarrow> look k (del k (add e t)) = look k t"
  by (simp add: del_add)

lemma doubled_entry_survives:
  assumes "inv t" and "key e = k" and "key e' = k"
  shows "look k (del k (add e' (add e t))) = Some e"
proof -
  have "del k (add e' (add e t)) = add e t"
    using assms by (intro del_add inv_add)
  then show ?thesis using assms by (simp add: look_add)
qed

end

text \<open>A table whose clients look an entry up and create it when it is missing.\<close>

locale lookup_or_create = keyed_table +
  fixes make :: "'k \<Rightarrow> 'e"
    and obtain_entry :: "'k \<Rightarrow> 't \<Rightarrow> 'e option \<times> 't"
  assumes key_make: "key (make k) = k"
    and obtain_found: "look k t = Some e \<Longrightarrow> obtain_entry k t = (Some e, t)"
    and obtain_new: "look k t = None \<Longrightarrow> obtain_entry k t = (Some (make k), add (make k) t)"
begin

lemma obtain_entry_key:
  "\<exists>e. fst (obtain_entry k t) = Some e \<and> key e = k"
  by (cases "look k t") (auto simp: obtain_found obtain_new key_make dest: look_key)

lemma inv_obtain: "inv t \<Longrightarrow> inv (snd (obtain_entry k t))"
  by (cases "look k t") (simp_all add: obtain_found obtain_new inv_add)

lemma look_obtain: "inv t \<Longrightarrow> look k (snd (obtain_entry k t)) = fst (obtain_entry k t)"
  by (cases "look k t") (simp_all add: obtain_found obtain_new look_add key_make)

lemma look_obtain_other:
  "inv t \<Longrightarrow> k' \<noteq> k \<Longrightarrow> look k' (snd (obtain_entry k t)) = look k' t"
  by (cases "look k t") (simp_all add: obtain_found obtain_new look_add key_make)

lemma obtain_twice:
  assumes "inv t" and "obtain_entry k t = (e, t')"
  shows "obtain_entry k t' = (e, t')"
proof -
  from assms have "look k t' = e" using look_obtain [OF assms(1), of k] by simp
  moreover obtain x where "e = Some x"
    using obtain_entry_key [of k t] assms(2) by auto
  ultimately show ?thesis by (simp add: obtain_found)
qed

end

end
