(* ===== verification/Fwx_Mac.thy ===== *)
theory Fwx_Mac
  imports Fwx_Table
begin

text \<open>
  MAC addresses and MAC sets (\<^verbatim>\<open>oaf/src/fwx_mac.c\<close>, \<^verbatim>\<open>mac_str_to_bin\<close> of
  \<^verbatim>\<open>oaf/src/fwx_utils.c\<close>). A MAC address is its six bytes; a MAC set is a table of 128
  buckets hashed by the sum of the bytes. The set interprets the table interfaces, and the
  parser is the inverse of the format that the module prints addresses in.
\<close>

type_synonym mac = bytes
type_synonym mac_config = "mac buckets"

definition ETH_ALEN :: nat where "ETH_ALEN = 6"
definition MAC_HASH_SIZE :: nat where "MAC_HASH_SIZE = 128"

definition valid_mac :: "mac \<Rightarrow> bool" where
  "valid_mac mac \<longleftrightarrow> length mac = ETH_ALEN"

section \<open>The table of addresses\<close>

definition mac_hash :: "mac \<Rightarrow> nat" where
  "mac_hash mac = sum_list (map unat mac) mod MAC_HASH_SIZE"

definition fwx_mac_config_init :: mac_config where
  "fwx_mac_config_init = bt_empty MAC_HASH_SIZE"

text \<open>
  \<open>ok\<close> says whether the allocation of the node succeeds. The code does not look for the
  address first, so an address may be in a bucket more than once.
\<close>

definition fwx_add_mac_node :: "bool \<Rightarrow> mac \<Rightarrow> mac_config \<Rightarrow> mac_config" where
  "fwx_add_mac_node ok mac config = (if ok then bt_add (mac_hash mac) mac config else config)"

definition fwx_find_mac_node :: "mac \<Rightarrow> mac_config \<Rightarrow> mac option" where
  "fwx_find_mac_node mac config = bt_find (mac_hash mac) (\<lambda>node. node = mac) config"

definition fwx_flush_mac_list :: "mac_config \<Rightarrow> mac_config" where
  "fwx_flush_mac_list config = map (\<lambda>_. []) config"

text \<open>\<^verbatim>\<open>hlist_del\<close> and \<^verbatim>\<open>kfree\<close> of the node that \<open>fwx_find_mac_node\<close> returned.\<close>

definition del_mac_node :: "mac \<Rightarrow> mac_config \<Rightarrow> mac_config" where
  "del_mac_node mac config = bt_del (mac_hash mac) (\<lambda>node. node = mac) config"

text \<open>The loop over the buckets that asks whether a set has no address at all.\<close>

definition mac_list_is_empty :: "mac_config \<Rightarrow> bool" where
  "mac_list_is_empty config \<longleftrightarrow> (\<forall>b\<in>set (take MAC_HASH_SIZE config). b = [])"

definition mac_inv :: "mac_config \<Rightarrow> bool" where
  "mac_inv = bt_inv mac_hash id MAC_HASH_SIZE"

lemma mac_hash_lt [simp]: "mac_hash mac < MAC_HASH_SIZE"
  by (simp add: mac_hash_def MAC_HASH_SIZE_def)

lemma mac_inv_length [simp]: "mac_inv config \<Longrightarrow> length config = MAC_HASH_SIZE"
  by (simp add: mac_inv_def bt_inv_length)

lemma mac_inv_init [bucket_intros]: "mac_inv fwx_mac_config_init"
  by (simp add: mac_inv_def fwx_mac_config_init_def bucket_intros)

lemma mac_inv_add [bucket_intros]: "mac_inv config \<Longrightarrow> mac_inv (fwx_add_mac_node ok mac config)"
  by (simp add: mac_inv_def fwx_add_mac_node_def bucket_intros)

lemma mac_inv_del [bucket_intros]: "mac_inv config \<Longrightarrow> mac_inv (del_mac_node mac config)"
  by (simp add: mac_inv_def del_mac_node_def bucket_intros)

lemma flush_is_init: "mac_inv config \<Longrightarrow> fwx_flush_mac_list config = fwx_mac_config_init"
  by (simp add: fwx_flush_mac_list_def fwx_mac_config_init_def bt_empty_def map_replicate_const)

lemma mac_inv_flush [bucket_intros]: "mac_inv config \<Longrightarrow> mac_inv (fwx_flush_mac_list config)"
  by (simp add: flush_is_init mac_inv_init)

interpretation mac_table: keyed_table_del fwx_mac_config_init "fwx_add_mac_node True"
  fwx_find_mac_node "id :: mac \<Rightarrow> mac" mac_inv del_mac_node
proof
  fix t :: mac_config and e k k' :: mac
  show "mac_inv fwx_mac_config_init" by (rule mac_inv_init)
  show "mac_inv t \<Longrightarrow> mac_inv (fwx_add_mac_node True e t)" by (rule mac_inv_add)
  show "mac_inv t \<Longrightarrow> mac_inv (del_mac_node k t)" by (rule mac_inv_del)
  show "fwx_find_mac_node k fwx_mac_config_init = None"
    by (simp add: fwx_find_mac_node_def fwx_mac_config_init_def bucket_simps)
  show "mac_inv t \<Longrightarrow> fwx_find_mac_node k (fwx_add_mac_node True e t) =
      (if k = id e then Some e else fwx_find_mac_node k t)"
    by (auto simp: fwx_find_mac_node_def fwx_add_mac_node_def bucket_simps)
  show "fwx_find_mac_node k t = Some e \<Longrightarrow> id e = k"
    by (auto simp: fwx_find_mac_node_def bt_find_def find_Some_iff)
  show "mac_inv t \<Longrightarrow> k' \<noteq> k \<Longrightarrow> fwx_find_mac_node k' (del_mac_node k t) = fwx_find_mac_node k' t"
    by (auto simp: fwx_find_mac_node_def del_mac_node_def intro!: bt_find_del_other)
  show "mac_inv t \<Longrightarrow> id e = k \<Longrightarrow> del_mac_node k (fwx_add_mac_node True e t) = t"
    by (simp add: del_mac_node_def fwx_add_mac_node_def bucket_simps)
qed

text \<open>A MAC set is empty in the sense of the loop exactly when no lookup finds anything.\<close>

definition mac_members :: "mac_config \<Rightarrow> mac set" where
  "mac_members config = {mac. fwx_find_mac_node mac config \<noteq> None}"

lemma mac_members_init [simp]: "mac_members fwx_mac_config_init = {}"
  by (simp add: mac_members_def mac_table.look_empty)

lemma mac_members_add [simp]:
  "mac_inv config \<Longrightarrow> mac_members (fwx_add_mac_node ok mac config) =
     (if ok then insert mac (mac_members config) else mac_members config)"
  by (cases ok) (auto simp: mac_members_def mac_table.look_add fwx_add_mac_node_def [of False])

lemma mac_members_entries:
  "mac_inv config \<Longrightarrow> mac_members config = set (concat config)"
  using bt_find_iff_entry [of mac_hash id MAC_HASH_SIZE config]
  by (auto simp: mac_members_def mac_inv_def fwx_find_mac_node_def)

lemma mac_list_is_empty_iff: "mac_inv config \<Longrightarrow> mac_list_is_empty config \<longleftrightarrow> mac_members config = {}"
  by (auto simp: mac_list_is_empty_def mac_members_entries)

section \<open>Text form of an address\<close>

definition is_xdigit :: "u8 \<Rightarrow> bool" where
  "is_xdigit c \<longleftrightarrow> (0x30 \<le> c \<and> c \<le> 0x39) \<or> (0x61 \<le> c \<and> c \<le> 0x66) \<or> (0x41 \<le> c \<and> c \<le> 0x46)"

definition xdigit_value :: "u8 \<Rightarrow> u8" where
  "xdigit_value c = (if c \<le> 0x39 then c - 0x30 else if c \<le> 0x46 then c - 0x37 else c - 0x57)"

text \<open>
  \<^verbatim>\<open>sscanf(p, "%2hhx", &byte)\<close> of the kernel: leading white space is skipped, then at
  most two hexadecimal digits are read; \<open>None\<close> when there is none.
\<close>

definition sscanf_2hhx :: "bytes \<Rightarrow> u8 option" where
  "sscanf_2hhx p = (case dropWhile is_space p of
      [] \<Rightarrow> None
    | c # cs \<Rightarrow> if \<not> is_xdigit c then None
        else (case cs of
            d # _ \<Rightarrow> Some (if is_xdigit d then 16 * xdigit_value c + xdigit_value d else xdigit_value c)
          | [] \<Rightarrow> Some (xdigit_value c)))"

text \<open>\<^verbatim>\<open>while (*p && *p != ':') p++; if (*p == ':') p++;\<close>\<close>

definition skip_to_colon :: "bytes \<Rightarrow> bytes" where
  "skip_to_colon p = (case dropWhile (\<lambda>c. c \<noteq> 0x3A) p of [] \<Rightarrow> [] | _ # cs \<Rightarrow> cs)"

function mac_str_to_bin_loop :: "bytes \<Rightarrow> bytes \<Rightarrow> bytes option" where
  "mac_str_to_bin_loop p mac_bin =
     (if p \<noteq> [] \<and> length mac_bin < 6 then
        (case sscanf_2hhx p of
           None \<Rightarrow> None
         | Some byte \<Rightarrow> mac_str_to_bin_loop (skip_to_colon p) (mac_bin @ [byte]))
      else if length mac_bin = 6 then Some mac_bin else None)"
  by pat_completeness auto
termination
  by (relation "measure (\<lambda>(p, mac_bin). 6 - length mac_bin)") auto

declare mac_str_to_bin_loop.simps [simp del]

text \<open>\<open>None\<close> for the return value 0; the argument is \<open>None\<close> for a NULL pointer.\<close>

definition mac_str_to_bin :: "bytes option \<Rightarrow> mac option" where
  "mac_str_to_bin mac_str = (case mac_str of None \<Rightarrow> None | Some s \<Rightarrow> mac_str_to_bin_loop s [])"

lemma mac_str_to_bin_loop_length:
  "mac_str_to_bin_loop p mac_bin = Some mac \<Longrightarrow> length mac = 6"
proof (induction p mac_bin rule: mac_str_to_bin_loop.induct)
  case (1 p mac_bin)
  then show ?case
    by (subst (asm) (2) mac_str_to_bin_loop.simps) (auto split: if_splits option.splits)
qed

lemma mac_str_to_bin_valid: "mac_str_to_bin s = Some mac \<Longrightarrow> valid_mac mac"
  by (auto simp: mac_str_to_bin_def valid_mac_def ETH_ALEN_def dest: mac_str_to_bin_loop_length
      split: option.splits)

text \<open>The text that \<^verbatim>\<open>MAC_FMT\<close> (\<^verbatim>\<open>"%02x:%02x:%02x:%02x:%02x:%02x"\<close>) makes of an address.\<close>

definition hex_digit :: "u8 \<Rightarrow> u8" where
  "hex_digit n = (if n < 10 then n + 0x30 else n + 0x57)"

definition fmt_02x :: "u8 \<Rightarrow> bytes" where
  "fmt_02x b = [hex_digit (b div 16), hex_digit (b mod 16)]"

fun mac_fmt :: "mac \<Rightarrow> bytes" where
  "mac_fmt [] = []"
| "mac_fmt [b] = fmt_02x b"
| "mac_fmt (b # b' # bs) = fmt_02x b @ 0x3A # mac_fmt (b' # bs)"

lemma hex_digit_facts:
  assumes "n < (16 :: u8)"
  shows "is_xdigit (hex_digit n)" "xdigit_value (hex_digit n) = n"
    "\<not> is_space (hex_digit n)" "hex_digit n \<noteq> 0x3A"
proof -
  define m where "m = unat n"
  then have n: "n = word_of_nat m" and "m < 16" using assms by (simp_all add: word_less_nat_alt)
  then have "m \<in> set [0..<16]" by simp
  moreover have "list_all (\<lambda>m. let n = word_of_nat m in is_xdigit (hex_digit n) \<and>
      xdigit_value (hex_digit n) = n \<and> \<not> is_space (hex_digit n) \<and> hex_digit n \<noteq> 0x3A) [0..<16]"
    by (simp add: upt_rec is_xdigit_def hex_digit_def xdigit_value_def is_space_def)
  ultimately have "is_xdigit (hex_digit n) \<and> xdigit_value (hex_digit n) = n \<and>
      \<not> is_space (hex_digit n) \<and> hex_digit n \<noteq> 0x3A"
    unfolding n list_all_iff Let_def by blast
  then show "is_xdigit (hex_digit n)" "xdigit_value (hex_digit n) = n"
    "\<not> is_space (hex_digit n)" "hex_digit n \<noteq> 0x3A" by blast+
qed

lemma byte_nibbles:
  "b div 16 < (16 :: u8)" "b mod 16 < (16 :: u8)" "16 * (b div 16) + b mod 16 = (b :: u8)"
proof -
  have "unat b < 256" using unsigned_less [of b, where ?'a = nat] by simp
  then show "b div 16 < 16" by (simp add: word_less_nat_alt unat_div)
  show "b mod 16 < 16" by (simp add: word_less_nat_alt unat_mod)
  show "16 * (b div 16) + b mod 16 = b" by (rule mult_div_mod_eq)
qed

lemma sscanf_fmt_02x: "sscanf_2hhx (fmt_02x b @ rest) = Some b"
  by (simp add: sscanf_2hhx_def fmt_02x_def hex_digit_facts byte_nibbles)

lemma skip_fmt_02x:
  "skip_to_colon (fmt_02x b @ 0x3A # rest) = rest" "skip_to_colon (fmt_02x b) = []"
  by (simp_all add: skip_to_colon_def fmt_02x_def hex_digit_facts byte_nibbles)

lemma fmt_02x_nonempty [simp]: "fmt_02x b \<noteq> []"
  by (simp add: fmt_02x_def)

lemma mac_loop_fmt:
  "bs \<noteq> [] \<Longrightarrow> length acc + length bs \<le> 6 \<Longrightarrow>
     mac_str_to_bin_loop (mac_fmt bs) acc =
       (if length acc + length bs = 6 then Some (acc @ bs) else None)"
proof (induction bs arbitrary: acc rule: mac_fmt.induct)
  case 1
  then show ?case by simp
next
  case (2 b)
  then have "mac_str_to_bin_loop (mac_fmt [b]) acc = mac_str_to_bin_loop [] (acc @ [b])"
    using sscanf_fmt_02x [of b "[]"] skip_fmt_02x(2) [of b]
    by (subst mac_str_to_bin_loop.simps) (simp add: fmt_02x_def)
  then show ?case by (simp add: mac_str_to_bin_loop.simps [of "[]"])
next
  case (3 b b' bs)
  have "mac_str_to_bin_loop (mac_fmt (b # b' # bs)) acc =
      mac_str_to_bin_loop (mac_fmt (b' # bs)) (acc @ [b])"
    using "3.prems" by (subst mac_str_to_bin_loop.simps)
      (simp add: sscanf_fmt_02x skip_fmt_02x)
  with "3.IH" [of "acc @ [b]"] "3.prems" show ?case by simp
qed

text \<open>
  the address parser inverts the module's own print format: every six-byte address
  printed with \<^verbatim>\<open>MAC_FMT\<close> is read back unchanged.
\<close>

theorem mac_str_to_bin_mac_fmt:
  assumes "valid_mac mac"
  shows "mac_str_to_bin (Some (mac_fmt mac)) = Some mac"
proof -
  from assms have "mac \<noteq> []" and "length mac = 6" by (auto simp: valid_mac_def ETH_ALEN_def)
  then show ?thesis by (simp add: mac_str_to_bin_def mac_loop_fmt)
qed

theorem mac_str_to_bin_mac_fmt_witness:
  "mac_str_to_bin (Some (mac_fmt [0x00, 0x1B, 0xFF, 0x0A, 0xA0, 0x09])) =
     Some [0x00, 0x1B, 0xFF, 0x0A, 0xA0, 0x09]"
  by (rule mac_str_to_bin_mac_fmt) (simp add: valid_mac_def ETH_ALEN_def)

end
