(* ===== verification/Fwx_Flow.thy ===== *)
theory Fwx_Flow
  imports Fwx_Prelude
begin

text \<open>
  The data of the classifier (\<^verbatim>\<open>oaf/src/fwx.h\<close>): a feature (one signature of an
  application), and a flow (what is known of the packet in hand). Strings in fixed arrays
  are byte lists without the NUL; pointers into the payload are offsets from
  \<^verbatim>\<open>l4_data\<close>, \<open>None\<close> for NULL; the \<^verbatim>\<open>u_int8_t\<close> flags that only hold 0 and 1 are
  booleans.
\<close>

definition MAX_APP_NAME_LEN :: nat where "MAX_APP_NAME_LEN = 64"
definition MAX_FEATURE_STR_LEN :: nat where "MAX_FEATURE_STR_LEN = 128"
definition MIN_FEATURE_STR_LEN :: nat where "MIN_FEATURE_STR_LEN = 8"
definition MAX_FEATURE_LINE_LEN :: nat where "MAX_FEATURE_LINE_LEN = 800"
definition MAX_HOST_URL_LEN :: nat where "MAX_HOST_URL_LEN = 128"
definition MAX_REQUEST_URL_LEN :: nat where "MAX_REQUEST_URL_LEN = 128"
definition MAX_SEARCH_STR_LEN :: nat where "MAX_SEARCH_STR_LEN = 32"
definition MAX_POS_INFO_PER_FEATURE :: nat where "MAX_POS_INFO_PER_FEATURE = 16"
definition MAX_URL_MATCH_LEN :: nat where "MAX_URL_MATCH_LEN = 64"
definition MAX_PORT_RANGE_NUM :: nat where "MAX_PORT_RANGE_NUM = 5"
definition MIN_HOST_LEN :: nat where "MIN_HOST_LEN = 4"
definition MAX_HOST_LEN :: nat where "MAX_HOST_LEN = 40"
definition MAX_DNS_QUERY_NUM :: nat where "MAX_DNS_QUERY_NUM = 16"
definition MAX_DNS_DOMAIN_LEN :: nat where "MAX_DNS_DOMAIN_LEN = 128"
definition DNS_HEADER_LEN :: int where "DNS_HEADER_LEN = 12"
definition DNS_TCP_PREFIX_LEN :: int where "DNS_TCP_PREFIX_LEN = 2"
definition FWX_QUIC_PROTO :: u32 where "FWX_QUIC_PROTO = 10"

definition IPPROTO_ICMP :: int where "IPPROTO_ICMP = 1"
definition IPPROTO_TCP :: int where "IPPROTO_TCP = 6"
definition IPPROTO_UDP :: int where "IPPROTO_UDP = 17"

section \<open>Features\<close>

record range_value =
  rv_not :: bool
  rv_start :: int
  rv_end :: int

text \<open>\<^verbatim>\<open>port_info_t\<close>: the list has the first \<^verbatim>\<open>num\<close> entries of \<^verbatim>\<open>range_list\<close>.\<close>

type_synonym port_info = "range_value list"

record pos_info =
  pi_pos :: int
  pi_value :: u8

record feature_node =
  fn_app_id :: u32
  fn_app_name :: bytes
  fn_feature :: bytes
  fn_proto :: u32
  fn_sport :: u32
  fn_dport_info :: port_info
  fn_host_url :: bytes
  fn_request_url :: bytes
  fn_search_str :: bytes
  fn_ignore :: int
  fn_pos_info :: "pos_info list"

section \<open>Flows\<close>

datatype http_method = HTTP_METHOD_NONE | HTTP_METHOD_GET | HTTP_METHOD_POST

record http_proto =
  http_match :: bool
  http_method :: http_method
  http_url_pos :: "int option"
  http_url_len :: int
  http_host_pos :: "int option"
  http_host_len :: int
  http_data_pos :: "int option"
  http_data_len :: int

record https_proto =
  https_match :: bool
  https_url_pos :: "int option"
  https_url_len :: int

text \<open>The arrays \<^verbatim>\<open>qtype\<close> and \<^verbatim>\<open>domain\<close> up to the last query that was parsed.\<close>

record dns_proto =
  dns_match :: bool
  dns_query_num :: int
  dns_qdcount :: int
  dns_qtype :: "u16 list"
  dns_domain :: "bytes list"

record flow_info =
  fl_src :: u32
  fl_dst :: u32
  fl_src6 :: "bytes option"
  fl_dst6 :: "bytes option"
  fl_l4_protocol :: int
  fl_sport :: u16
  fl_dport :: u16
  fl_l4_data :: mem
  fl_l4_len :: int
  fl_http :: http_proto
  fl_https :: https_proto
  fl_dns :: dns_proto
  fl_app_id :: u32
  fl_app_name :: bytes
  fl_drop :: bool
  fl_ignore :: bool
  fl_match_by_dns :: bool
  fl_client_hello :: bool
  fl_feature :: "feature_node option"

text \<open>The flow after \<^verbatim>\<open>memset((char *)&flow, 0x0, sizeof(flow_info_t))\<close>.\<close>

definition http_zero :: http_proto where
  "http_zero = \<lparr>http_match = False, http_method = HTTP_METHOD_NONE, http_url_pos = None,
     http_url_len = 0, http_host_pos = None, http_host_len = 0, http_data_pos = None,
     http_data_len = 0\<rparr>"

definition https_zero :: https_proto where
  "https_zero = \<lparr>https_match = False, https_url_pos = None, https_url_len = 0\<rparr>"

definition dns_zero :: dns_proto where
  "dns_zero = \<lparr>dns_match = False, dns_query_num = 0, dns_qdcount = 0, dns_qtype = [],
     dns_domain = []\<rparr>"

definition flow_zero :: flow_info where
  "flow_zero = \<lparr>fl_src = 0, fl_dst = 0, fl_src6 = None, fl_dst6 = None, fl_l4_protocol = 0,
     fl_sport = 0, fl_dport = 0, fl_l4_data = (\<lambda>_. 0), fl_l4_len = 0, fl_http = http_zero,
     fl_https = https_zero, fl_dns = dns_zero, fl_app_id = 0, fl_app_name = [], fl_drop = False,
     fl_ignore = False, fl_match_by_dns = False, fl_client_hello = False, fl_feature = None\<rparr>"

text \<open>The bytes at a pointer into the payload.\<close>

definition payload :: "flow_info \<Rightarrow> int \<Rightarrow> int \<Rightarrow> bytes" where
  "payload flow pos len = slice (fl_l4_data flow) pos len"

end
