(* ===== verification/Fwx_Port.thy ===== *)
theory Fwx_Port
  imports Fwx_Flow
begin

text \<open>
  Text fields and port lists of a feature (\<^verbatim>\<open>k_trim\<close>, \<^verbatim>\<open>k_atoi\<close> of
  \<^verbatim>\<open>oaf/src/fwx_utils.c\<close>; \<^verbatim>\<open>validate_range_value\<close>, \<^verbatim>\<open>parse_range_value\<close>,
  \<^verbatim>\<open>parse_port_info\<close>, \<^verbatim>\<open>af_match_port\<close> of \<^verbatim>\<open>oaf/src/fwx_main.c\<close>).
\<close>

section \<open>Text helpers\<close>

definition k_trim :: "bytes \<Rightarrow> bytes" where
  "k_trim s = rev (dropWhile is_space (rev (dropWhile is_space s)))"

fun k_atoi_loop :: "int \<Rightarrow> bytes \<Rightarrow> int" where
  "k_atoi_loop result [] = result"
| "k_atoi_loop result (c # cs) =
     (if is_digit c then k_atoi_loop (result * 10 + (uint c - 0x30)) cs else result)"

text \<open>Leading blanks and tabs are skipped; the number is kept in a 32-bit \<^verbatim>\<open>int\<close>.\<close>

definition k_atoi :: "bytes \<Rightarrow> int" where
  "k_atoi str = to_int32 (k_atoi_loop 0 (dropWhile (\<lambda>c. c = 0x20 \<or> c = 0x09) str))"

text \<open>The kernel's \<^verbatim>\<open>%d\<close>: white space, an optional minus, digits; the value and what follows it.\<close>

definition scan_d :: "bytes \<Rightarrow> (int \<times> bytes) option" where
  "scan_d s = (case dropWhile is_space s of
      [] \<Rightarrow> None
    | c # cs \<Rightarrow>
        let neg = (c = 0x2D); ds = (if neg then cs else c # cs)
        in if takeWhile is_digit ds = [] then None
           else let n = k_atoi_loop 0 (takeWhile is_digit ds)
                in Some (to_int32 (if neg then - n else n), dropWhile is_digit ds))"

text \<open>\<^verbatim>\<open>sscanf(s, "%d-%d", &start, &end) == 2\<close>.\<close>

definition sscanf_d_d :: "bytes \<Rightarrow> (int \<times> int) option" where
  "sscanf_d_d s = (case scan_d s of
      Some (start, c # rest) \<Rightarrow>
        if c = 0x2D then map_option (\<lambda>(end, _). (start, end)) (scan_d rest) else None
    | _ \<Rightarrow> None)"

text \<open>\<^verbatim>\<open>kstrtol(s, 10, &id)\<close>: an optional sign, digits to the end (a line feed may follow), no overflow.\<close>

definition kstrtol_10 :: "bytes \<Rightarrow> int option" where
  "kstrtol_10 s =
     (let neg = (case s of c # _ \<Rightarrow> c = 0x2D | [] \<Rightarrow> False);
          ds = (case s of c # cs \<Rightarrow> if c = 0x2D \<or> c = 0x2B then cs else s | [] \<Rightarrow> []);
          n = k_atoi_loop 0 (takeWhile is_digit ds); num = (if neg then - n else n)
      in if takeWhile is_digit ds = [] then None
         else if dropWhile is_digit ds \<noteq> [] \<and> dropWhile is_digit ds \<noteq> [0x0A] then None
         else if - (2 ^ 63) \<le> num \<and> num < 2 ^ 63 then Some num else None)"

text \<open>\<^verbatim>\<open>kstrtoint(s, 10, &n)\<close>.\<close>

definition kstrtoint_10 :: "bytes \<Rightarrow> int option" where
  "kstrtoint_10 s = (case kstrtol_10 s of
      None \<Rightarrow> None
    | Some n \<Rightarrow> if - (2 ^ 31) \<le> n \<and> n < 2 ^ 31 then Some n else None)"

text \<open>
  The loop \<^verbatim>\<open>while (*p++) { if (*p != sep) continue; ... begin = p + 1; }\<close> that cuts a
  string into fields: the fields that a separator ended, and the rest \<^verbatim>\<open>[begin, p)\<close>. The
  loop advances before it looks, so the first byte is never a separator.
\<close>

fun split_on :: "u8 \<Rightarrow> bytes \<Rightarrow> bytes list \<times> bytes" where
  "split_on sep [] = ([], [])"
| "split_on sep (c # cs) =
     (let (fs, r) = split_on sep cs in
      if c = sep then ([] # fs, r)
      else case fs of [] \<Rightarrow> ([], c # r) | f # fs' \<Rightarrow> ((c # f) # fs', r))"

definition scan_fields :: "u8 \<Rightarrow> bytes \<Rightarrow> bytes list \<times> bytes" where
  "scan_fields sep s = (case s of
      [] \<Rightarrow> ([], [])
    | c # cs \<Rightarrow> (case split_on sep cs of
          ([], r) \<Rightarrow> ([], c # r)
        | (f # fs, r) \<Rightarrow> ((c # f) # fs, r)))"

lemma split_on_none: "sep \<notin> set s \<Longrightarrow> split_on sep s = ([], s)"
  by (induction s) auto

lemma split_on_append:
  "sep \<notin> set s \<Longrightarrow> split_on sep (s @ sep # t) = (let (fs, r) = split_on sep t in (s # fs, r))"
  by (induction s) (auto split: prod.splits)

text \<open>Fields glued with separators are cut back into the same fields.\<close>

fun join_fields :: "u8 \<Rightarrow> bytes list \<Rightarrow> bytes \<Rightarrow> bytes" where
  "join_fields sep [] r = r"
| "join_fields sep (f # fs) r = f @ sep # join_fields sep fs r"

lemma split_on_join:
  "\<forall>f\<in>set fs. sep \<notin> set f \<Longrightarrow> sep \<notin> set r \<Longrightarrow> split_on sep (join_fields sep fs r) = (fs, r)"
  by (induction fs) (simp_all add: split_on_none split_on_append)

lemma scan_fields_join:
  assumes "\<forall>f\<in>set fs. sep \<notin> set f" and "sep \<notin> set r" and "fs = [] \<or> hd fs \<noteq> []"
    and "fs \<noteq> [] \<or> r \<noteq> []"
  shows "scan_fields sep (join_fields sep fs r) = (fs, r)"
proof (cases fs)
  case Nil
  with assms show ?thesis by (cases r) (simp_all add: scan_fields_def split_on_none)
next
  case (Cons f fs')
  with assms(3) obtain c cs where "f = c # cs" by (cases f) auto
  with Cons assms(1,2) have "split_on sep (cs @ sep # join_fields sep fs' r) = (cs # fs', r)"
    by (simp add: split_on_append split_on_join)
  with Cons \<open>f = c # cs\<close> show ?thesis by (simp add: scan_fields_def)
qed

section \<open>Port ranges\<close>

definition validate_range_value :: "bytes \<Rightarrow> bool" where
  "validate_range_value range_str \<longleftrightarrow>
     (\<forall>c\<in>set range_str. c = 0x20 \<or> c = 0x21 \<or> c = 0x2D \<or> is_digit c)"

text \<open>\<open>None\<close> for the return value -1; 0x21 is the exclamation mark, 0x2D the dash.\<close>

definition parse_range_value :: "bytes \<Rightarrow> range_value option" where
  "parse_range_value range_str =
     (if \<not> validate_range_value range_str then None
      else
        let range_str = k_trim range_str;
            neg = (case range_str of c # _ \<Rightarrow> c = 0x21 | [] \<Rightarrow> False);
            pure_range = k_trim (if neg then tl range_str else range_str)
        in if 0x2D \<in> set pure_range then
             map_option (\<lambda>(start, end). \<lparr>rv_not = neg, rv_start = start, rv_end = end\<rparr>)
               (sscanf_d_d pure_range)
           else
             map_option (\<lambda>(start, _). \<lparr>rv_not = neg, rv_start = start, rv_end = start\<rparr>)
               (scan_d pure_range))"

text \<open>
  The ranges go to \<^verbatim>\<open>info->range_list[info->num]\<close>, an array of five, with no check of
  \<^verbatim>\<open>num\<close>: a sixth one is written past the array (also when it does not parse, since
  \<^verbatim>\<open>parse_range_value\<close> writes its \<^verbatim>\<open>not\<close> field first, once the text is valid).
\<close>

fun parse_port_list :: "bytes list \<Rightarrow> port_info \<Rightarrow> port_info ub_result" where
  "parse_port_list [] info = Inr info"
| "parse_port_list (f # fs) info =
     (if validate_range_value f \<and> length info \<ge> MAX_PORT_RANGE_NUM
      then Inl (BufferOverflow ''range_list'')
      else case parse_range_value f of
          None \<Rightarrow> parse_port_list fs info
        | Some rng \<Rightarrow> parse_port_list fs (info @ [rng]))"

definition parse_port_info :: "bytes \<Rightarrow> port_info ub_result" where
  "parse_port_info port_str =
     (let port_str = k_trim port_str in
      if port_str = [] then Inr []
      else case scan_fields 0x7C port_str of (fs, r) \<Rightarrow> parse_port_list (fs @ [r]) [])"

text \<open>The two loops of \<^verbatim>\<open>af_match_port\<close>: is any range negated; then the scan of the ranges.\<close>

definition in_range :: "int \<Rightarrow> range_value \<Rightarrow> bool" where
  "in_range port r \<longleftrightarrow> port \<ge> rv_start r \<and> port \<le> rv_end r"

fun match_port_loop :: "bool \<Rightarrow> port_info \<Rightarrow> int \<Rightarrow> bool" where
  "match_port_loop with_not [] port = with_not"
| "match_port_loop with_not (r # rs) port =
     (if with_not then
        (if rv_not r \<and> in_range port r then False else match_port_loop with_not rs port)
      else if in_range port r then True else match_port_loop with_not rs port)"

definition af_match_port :: "port_info \<Rightarrow> int \<Rightarrow> bool" where
  "af_match_port info port =
     (if info = [] then True
      else match_port_loop (\<exists>r\<in>set info. rv_not r) info port)"

lemma match_port_loop_iff:
  "match_port_loop with_not info port \<longleftrightarrow>
     (if with_not then \<forall>r\<in>set info. rv_not r \<longrightarrow> \<not> in_range port r
      else \<exists>r\<in>set info. in_range port r)"
  by (induction info) auto

text \<open>
  what a destination-port list of a feature means. An empty list is every port; a list
  with a negated range is every port outside the negated ranges, and its other ranges have no
  effect; a list without one is the union of its ranges.
\<close>

theorem af_match_port_spec:
  "af_match_port info port \<longleftrightarrow>
     (if info = [] then True
      else if \<exists>r\<in>set info. rv_not r
      then port \<notin> (\<Union>r\<in>{r \<in> set info. rv_not r}. {rv_start r..rv_end r})
      else port \<in> (\<Union>r\<in>set info. {rv_start r..rv_end r}))"
  by (auto simp: af_match_port_def match_port_loop_iff in_range_def)

lemma parse_port_list_length:
  "parse_port_list fs info = Inr info' \<Longrightarrow> length info \<le> MAX_PORT_RANGE_NUM \<Longrightarrow>
     length info' \<le> MAX_PORT_RANGE_NUM"
proof (induction fs arbitrary: info)
  case Nil
  then show ?case by simp
next
  case (Cons f fs)
  have "parse_range_value f \<noteq> None \<Longrightarrow> validate_range_value f"
    by (auto simp: parse_range_value_def split: if_splits)
  with Cons show ?case by (auto split: if_splits option.splits)
qed

end
