(* ===== verification/Fwx_Json.thy ===== *)
theory Fwx_Json
  imports Fwx_Mac Fwx_Port
begin

text \<open>
  The requests of the daemon (\<^verbatim>\<open>oaf/src/k_json.c\<close>): the tree that the parser builds and the
  three functions that read it. A member of an object is found by its name without regard to
  case, and the first one wins. An item that is not a number or \<^verbatim>\<open>true\<close> has 0 in \<^verbatim>\<open>valueint\<close>,
  one that is not a string has NULL in \<^verbatim>\<open>valuestring\<close>, and only arrays and objects have
  children. The handlers are only called with an object as their data.
\<close>

datatype json = JFalse | JTrue | JNull | JNumber int | JString bytes
  | JArray "json list" | JObject "(bytes \<times> json) list"

definition valueint :: "json \<Rightarrow> int" where
  "valueint j = (case j of JNumber n \<Rightarrow> n | JTrue \<Rightarrow> 1 | _ \<Rightarrow> 0)"

definition valuestring :: "json \<Rightarrow> bytes option" where
  "valuestring j = (case j of JString s \<Rightarrow> Some s | _ \<Rightarrow> None)"

definition json_children :: "json \<Rightarrow> json list" where
  "json_children j = (case j of JArray js \<Rightarrow> js | JObject kvs \<Rightarrow> map snd kvs | _ \<Rightarrow> [])"

definition cJSON_GetArraySize :: "json \<Rightarrow> nat" where
  "cJSON_GetArraySize j = length (json_children j)"

definition cJSON_GetArrayItem :: "json \<Rightarrow> nat \<Rightarrow> json option" where
  "cJSON_GetArrayItem j n = (if n < length (json_children j) then Some (json_children j ! n) else None)"

definition tolower_ascii :: "u8 \<Rightarrow> u8" where
  "tolower_ascii c = (if 0x41 \<le> c \<and> c \<le> 0x5A then c + 0x20 else c)"

definition cJSON_GetObjectItem :: "json \<Rightarrow> bytes \<Rightarrow> json option" where
  "cJSON_GetObjectItem j name = (case j of
      JObject kvs \<Rightarrow>
        map_option snd (find (\<lambda>kv. map tolower_ascii (fst kv) = map tolower_ascii name) kvs)
    | _ \<Rightarrow> None)"

text \<open>The loop \<^verbatim>\<open>for (i = 0; i < GetArraySize(a); i++) { item = GetArrayItem(a, i); ... }\<close>.\<close>

definition json_items :: "json \<Rightarrow> json list" where
  "json_items j = List.map_filter (cJSON_GetArrayItem j) [0..<cJSON_GetArraySize j]"

lemma json_items_children: "json_items j = json_children j"
proof -
  have "List.map_filter (cJSON_GetArrayItem j) [0..<cJSON_GetArraySize j] =
      map (\<lambda>i. json_children j ! i) [0..<length (json_children j)]"
    by (auto simp: List.map_filter_def cJSON_GetArrayItem_def cJSON_GetArraySize_def
        intro!: map_cong filter_True)
  then show ?thesis by (simp add: json_items_def map_nth)
qed

text \<open>The addresses of a list, those that do not parse left out.\<close>

definition json_macs :: "json \<Rightarrow> mac list" where
  "json_macs j = List.map_filter (\<lambda>item. mac_str_to_bin (valuestring item)) (json_items j)"

lemma json_macs_valid: "mac \<in> set (json_macs j) \<Longrightarrow> valid_mac mac"
  by (auto simp: json_macs_def List.map_filter_def dest: mac_str_to_bin_valid)

text \<open>Filling a MAC set: \<open>kz\<close> says for which addresses there is memory.\<close>

definition add_macs :: "(mac \<Rightarrow> bool) \<Rightarrow> mac list \<Rightarrow> mac_config \<Rightarrow> mac_config" where
  "add_macs kz macs config = fold (\<lambda>mac. fwx_add_mac_node (kz mac) mac) macs config"

lemma add_macs_simps [simp]:
  "add_macs kz [] config = config"
  "add_macs kz (mac # macs) config = add_macs kz macs (fwx_add_mac_node (kz mac) mac config)"
  by (simp_all add: add_macs_def)

lemma mac_inv_add_macs: "mac_inv config \<Longrightarrow> mac_inv (add_macs kz macs config)"
  by (induction macs arbitrary: config) (simp_all add: mac_inv_add)

lemma mac_members_add_macs:
  "mac_inv config \<Longrightarrow>
     mac_members (add_macs kz macs config) = mac_members config \<union> {mac \<in> set macs. kz mac}"
  by (induction macs arbitrary: config) (auto simp: mac_inv_add)

text \<open>The change of the MAC set of a rule, application or MAC: replace, extend, add one, or clear.\<close>

definition mod_mac_list :: "(mac \<Rightarrow> bool) \<Rightarrow> json \<Rightarrow> mac_config \<Rightarrow> mac_config" where
  "mod_mac_list kzm data_obj config =
     (case cJSON_GetObjectItem data_obj (cstr ''mac_action'') of
        None \<Rightarrow> config
      | Some action \<Rightarrow>
          if valueint action = 1 \<or> valueint action = 2 then
            (case cJSON_GetObjectItem data_obj (cstr ''mac_list'') of
               None \<Rightarrow> config
             | Some macs \<Rightarrow> add_macs kzm (json_macs macs)
                 (if valueint action = 1 then fwx_flush_mac_list config else config))
          else if valueint action = 3 then
            (case cJSON_GetObjectItem data_obj (cstr ''mac'') of
               None \<Rightarrow> config
             | Some m \<Rightarrow> (case mac_str_to_bin (valuestring m) of
                   None \<Rightarrow> config | Some mac \<Rightarrow> fwx_add_mac_node (kzm mac) mac config))
          else fwx_flush_mac_list config)"

lemma mod_mac_list_inv: "mac_inv config \<Longrightarrow> mac_inv (mod_mac_list kzm data_obj config)"
  by (simp add: mod_mac_list_def mac_inv_add_macs mac_inv_add mac_inv_flush split: option.split)

lemma mod_mac_list_replace:
  assumes "mac_inv config" and "cJSON_GetObjectItem data_obj (cstr ''mac_action'') = Some (JNumber 1)"
    and "cJSON_GetObjectItem data_obj (cstr ''mac_list'') = Some macs"
  shows "mac_members (mod_mac_list kzm data_obj config) = {mac \<in> set (json_macs macs). kzm mac}"
  using assms by (simp add: mod_mac_list_def valueint_def mac_inv_flush mac_members_add_macs
      flush_is_init mac_inv_init)

end
