(* ===== verification/Fwx_Json_Text.thy ===== *)
theory Fwx_Json_Text
  imports Fwx_Json
begin

text \<open>
  The text of a JSON tree (\<^verbatim>\<open>oaf/src/k_json.c\<close>): the parser, the printer and the minifier. The
  parser works on the rest of its buffer, that is on everything from the pointer to the end of
  the allocation, the terminating NUL and what follows it included; a read past that end is an
  error of its own. Every node gets its memory. \<open>sc\<close> says whether plain \<^verbatim>\<open>char\<close> is signed, which
  differs between the processors of routers; \<open>hex\<close> is what \<^verbatim>\<open>sscanf(ptr, "%4x", &uc)\<close> leaves in \<open>uc\<close>.
\<close>

definition char_val :: "bool \<Rightarrow> u8 \<Rightarrow> int" where
  "char_val sc c = (if sc then sint c else uint c)"

section \<open>The parser\<close>

text \<open>
  A value and the rest of the buffer, NULL, undefined behaviour, or no answer within the fuel.
\<close>

datatype 'a presult = POk 'a bytes | PNull | PUb ub | PFuel

definition pbind :: "'a presult \<Rightarrow> ('a \<Rightarrow> bytes \<Rightarrow> 'b presult) \<Rightarrow> 'b presult" where
  "pbind r f = (case r of POk x rest \<Rightarrow> f x rest | PNull \<Rightarrow> PNull | PUb e \<Rightarrow> PUb e | PFuel \<Rightarrow> PFuel)"

definition over_read :: "'a presult" where
  "over_read = PUb (OverRead ''buf'')"

text \<open>\<^verbatim>\<open>skip\<close>, and the look at the byte it stops at. A NUL is skipped too.\<close>

definition skip :: "bool \<Rightarrow> bytes \<Rightarrow> bytes" where
  "skip sc s = dropWhile (\<lambda>c. char_val sc c \<le> 32) s"

definition pskip :: "bool \<Rightarrow> bytes \<Rightarrow> (u8 \<Rightarrow> bytes \<Rightarrow> 'a presult) \<Rightarrow> 'a presult" where
  "pskip sc s f = (case skip sc s of [] \<Rightarrow> over_read | c # cs \<Rightarrow> f c cs)"

text \<open>\<^verbatim>\<open>!strncmp(value, lit, strlen(lit))\<close>; \<open>None\<close> when the buffer ends inside the comparison.\<close>

fun starts :: "bytes \<Rightarrow> bytes \<Rightarrow> bool option" where
  "starts s [] = Some True"
| "starts [] (l # ls) = None"
| "starts (c # cs) (l # ls) = (if c = l then starts cs ls else Some False)"

text \<open>The sign is read and not used. The kernel is compiled with wrapping arithmetic.\<close>

fun number_digits :: "bytes \<Rightarrow> int \<Rightarrow> int presult" where
  "number_digits [] n = over_read"
| "number_digits (c # cs) n =
     (if is_digit c then number_digits cs (to_int32 (n * 10 + (uint c - 48))) else POk n (c # cs))"

definition parse_number :: "bytes \<Rightarrow> int presult" where
  "parse_number num =
     (let num = (if num \<noteq> [] \<and> hd num = 0x2D then tl num else num);
          num = (if num \<noteq> [] \<and> hd num = 0x30 then tl num else num) in
      case num of
        [] \<Rightarrow> over_read
      | c # cs \<Rightarrow> if 0x31 \<le> c \<and> c \<le> 0x39 then number_digits num 0 else POk 0 num)"

text \<open>The first loop of \<^verbatim>\<open>parse_string\<close>: how many bytes are allocated, less one.\<close>

fun string_len :: "bool \<Rightarrow> bytes \<Rightarrow> nat \<Rightarrow> nat option" where
  "string_len sc [] len = None"
| "string_len sc (c # cs) len =
     (if c = 0x22 \<or> \<not> char_val sc c > 31 then Some len
      else if c = 0x5C then (case cs of [] \<Rightarrow> None | d # ds \<Rightarrow> string_len sc ds (Suc len))
      else string_len sc cs (Suc len))"

text \<open>The bytes written for a \<^verbatim>\<open>\\u\<close> escape.\<close>

definition utf8 :: "u32 \<Rightarrow> bytes" where
  "utf8 uc =
     (if uc < 0x80 then [ucast uc]
      else if uc < 0x800 then [ucast (drop_bit 6 uc OR 0xC0), ucast ((uc OR 0x80) AND 0xBF)]
      else [ucast (drop_bit 12 uc OR 0xE0), ucast ((drop_bit 6 uc OR 0x80) AND 0xBF), ucast ((uc OR 0x80) AND 0xBF)])"

definition unescape :: "u8 \<Rightarrow> u8" where
  "unescape c = (if c = 0x62 then 8 else if c = 0x66 then 12 else if c = 0x6E then 10
     else if c = 0x72 then 13 else if c = 0x74 then 9 else c)"

text \<open>The second loop, with the bytes written so far.\<close>

function decode :: "bool \<Rightarrow> (bytes \<Rightarrow> u32) \<Rightarrow> bytes \<Rightarrow> bytes \<Rightarrow> bytes presult" where
  "decode sc hex out [] = over_read"
| "decode sc hex out (c # cs) =
     (if c = 0x22 then POk out cs
      else if \<not> char_val sc c > 31 then POk out (c # cs)
      else if c \<noteq> 0x5C then decode sc hex (out @ [c]) cs
      else (case cs of
          [] \<Rightarrow> over_read
        | d # ds \<Rightarrow>
            if d = 0x75 then
              if length ds < 4 then over_read else decode sc hex (out @ utf8 (hex ds)) (drop 4 ds)
            else decode sc hex (out @ [unescape d]) ds))"
  by pat_completeness auto
termination by (relation "measure (\<lambda>(sc, hex, out, s). length s)") auto

text \<open>What is written has to fit the bytes that the first loop counted.\<close>

definition parse_string :: "bool \<Rightarrow> (bytes \<Rightarrow> u32) \<Rightarrow> bytes \<Rightarrow> bytes presult" where
  "parse_string sc hex s = (case s of
      [] \<Rightarrow> over_read
    | c # cs \<Rightarrow>
        if c \<noteq> 0x22 then PNull
        else (case string_len sc cs 0 of
            None \<Rightarrow> over_read
          | Some len \<Rightarrow> pbind (decode sc hex [] cs) (\<lambda>out rest.
              if length out > len then PUb (BufferOverflow ''out'') else POk (c_string out) rest)))"

text \<open>
  The values. The fuel bounds the depth of the recursion plus the number of elements before the
  one in hand; \<open>parse_items\<close> and \<open>parse_members\<close> are the loops of \<^verbatim>\<open>parse_array\<close> and
  \<^verbatim>\<open>parse_object\<close> from their first element on.
\<close>

fun parse_value :: "bool \<Rightarrow> (bytes \<Rightarrow> u32) \<Rightarrow> nat \<Rightarrow> bytes \<Rightarrow> json presult"
  and parse_items :: "bool \<Rightarrow> (bytes \<Rightarrow> u32) \<Rightarrow> nat \<Rightarrow> bytes \<Rightarrow> json list presult"
  and parse_members :: "bool \<Rightarrow> (bytes \<Rightarrow> u32) \<Rightarrow> nat \<Rightarrow> bytes \<Rightarrow> (bytes \<times> json) list presult" where
  "parse_value sc hex 0 s = PFuel"
| "parse_value sc hex (Suc n) s = (case starts s (cstr ''null'') of
      None \<Rightarrow> over_read | Some True \<Rightarrow> POk JNull (drop 4 s)
    | Some False \<Rightarrow> (case starts s (cstr ''false'') of
      None \<Rightarrow> over_read | Some True \<Rightarrow> POk JFalse (drop 5 s)
    | Some False \<Rightarrow> (case starts s (cstr ''true'') of
      None \<Rightarrow> over_read | Some True \<Rightarrow> POk JTrue (drop 4 s)
    | Some False \<Rightarrow> (case s of
        [] \<Rightarrow> over_read
      | c # cs \<Rightarrow>
          if c = 0x22 then pbind (parse_string sc hex s) (\<lambda>v. POk (JString v))
          else if c = 0x2D \<or> is_digit c then pbind (parse_number s) (\<lambda>v. POk (JNumber v))
          else if c = 0x5B then pskip sc cs (\<lambda>d ds.
            if d = 0x5D then POk (JArray []) ds
            else pbind (parse_items sc hex n (d # ds)) (\<lambda>js. POk (JArray js)))
          else if c = 0x7B then pskip sc cs (\<lambda>d ds.
            if d = 0x7D then POk (JObject []) ds
            else pbind (parse_members sc hex n (d # ds)) (\<lambda>kvs. POk (JObject kvs)))
          else PNull))))"
| "parse_items sc hex 0 s = PFuel"
| "parse_items sc hex (Suc n) s = pbind (parse_value sc hex n s) (\<lambda>j r. pskip sc r (\<lambda>d ds.
      if d = 0x2C then pskip sc ds (\<lambda>e es. pbind (parse_items sc hex n (e # es)) (\<lambda>js. POk (j # js)))
      else if d = 0x5D then POk [j] ds
      else PNull))"
| "parse_members sc hex 0 s = PFuel"
| "parse_members sc hex (Suc n) s = pbind (parse_string sc hex s) (\<lambda>k r. pskip sc r (\<lambda>a as.
      if a \<noteq> 0x3A then PNull
      else pskip sc as (\<lambda>b bs. pbind (parse_value sc hex n (b # bs)) (\<lambda>j r. pskip sc r (\<lambda>d ds.
        if d = 0x2C then pskip sc ds (\<lambda>e es. pbind (parse_members sc hex n (e # es)) (\<lambda>kvs. POk ((k, j) # kvs)))
        else if d = 0x7D then POk [(k, j)] ds
        else PNull)))))"

text \<open>Twice the length of the buffer is enough fuel, as \<open>parse_enough_fuel\<close> shows.\<close>

definition cJSON_Parse :: "bool \<Rightarrow> (bytes \<Rightarrow> u32) \<Rightarrow> bytes \<Rightarrow> json presult" where
  "cJSON_Parse sc hex buf = pskip sc buf (\<lambda>c cs. parse_value sc hex (2 * length buf + 1) (c # cs))"

section \<open>The printer\<close>

definition digit :: "nat \<Rightarrow> u8" where
  "digit d = word_of_nat (48 + d)"

fun nat_dec :: "nat \<Rightarrow> bytes" where
  "nat_dec n = (if n < 10 then [digit n] else nat_dec (n div 10) @ [digit (n mod 10)])"

declare nat_dec.simps [simp del]

definition print_number :: "int \<Rightarrow> bytes" where
  "print_number n = (if n < 0 then 0x2D # nat_dec (nat (- n)) else nat_dec (nat n))"

definition escape :: "bool \<Rightarrow> u8 \<Rightarrow> bytes" where
  "escape sc c = (if char_val sc c > 31 \<and> c \<noteq> 0x22 \<and> c \<noteq> 0x5C then [c]
     else if c = 0x5C then [0x5C, 0x5C] else if c = 0x22 then [0x5C, 0x22]
     else if c = 8 then [0x5C, 0x62] else if c = 12 then [0x5C, 0x66] else if c = 10 then [0x5C, 0x6E]
     else if c = 13 then [0x5C, 0x72] else if c = 9 then [0x5C, 0x74] else [])"

definition print_string_ptr :: "bool \<Rightarrow> bytes \<Rightarrow> bytes" where
  "print_string_ptr sc s = 0x22 # concat (map (escape sc) s) @ [0x22]"

text \<open>\<^verbatim>\<open>sprintf(ptr, text)\<close>: the text is a format that has no arguments.\<close>

fun sprintf_text :: "bytes \<Rightarrow> bytes ub_result" where
  "sprintf_text [] = Inr []"
| "sprintf_text (c # cs) =
     (if c \<noteq> 0x25 then ub_bind (sprintf_text cs) (\<lambda>t. Inr (c # t))
      else (case cs of
          [] \<Rightarrow> Inl BadFormat
        | d # ds \<Rightarrow> if d = 0x25 then ub_bind (sprintf_text ds) (\<lambda>t. Inr (0x25 # t)) else Inl BadFormat))"

fun print_value :: "bool \<Rightarrow> nat \<Rightarrow> json \<Rightarrow> bytes ub_result"
  and print_items :: "bool \<Rightarrow> nat \<Rightarrow> json list \<Rightarrow> bytes ub_result"
  and print_members :: "bool \<Rightarrow> nat \<Rightarrow> (bytes \<times> json) list \<Rightarrow> bytes ub_result" where
  "print_value sc depth JNull = Inr (cstr ''null'')"
| "print_value sc depth JFalse = Inr (cstr ''false'')"
| "print_value sc depth JTrue = Inr (cstr ''true'')"
| "print_value sc depth (JNumber n) = Inr (print_number n)"
| "print_value sc depth (JString s) = Inr (print_string_ptr sc s)"
| "print_value sc depth (JArray js) =
     ub_bind (print_items sc (depth + 1) js) (\<lambda>t. Inr (0x5B # t @ [0x5D]))"
| "print_value sc depth (JObject kvs) =
     ub_bind (print_members sc (depth + 1) kvs) (\<lambda>t. Inr ([0x7B, 10] @ t @ replicate depth 9 @ [0x7D]))"
| "print_items sc depth [] = Inr []"
| "print_items sc depth (j # js) =
     ub_bind (print_value sc depth j) (\<lambda>ret. ub_bind (sprintf_text ret) (\<lambda>t.
     ub_bind (print_items sc depth js) (\<lambda>ts. Inr (t @ (if js \<noteq> [] then [0x2C, 0x20] else []) @ ts))))"
| "print_members sc depth [] = Inr []"
| "print_members sc depth (kv # kvs) =
     ub_bind (sprintf_text (print_string_ptr sc (fst kv))) (\<lambda>str.
     ub_bind (print_value sc depth (snd kv)) (\<lambda>ret. ub_bind (sprintf_text ret) (\<lambda>t.
     ub_bind (print_members sc depth kvs) (\<lambda>ts.
       Inr (replicate depth 9 @ str @ [0x3A, 9] @ t @ (if kvs \<noteq> [] then [0x2C] else []) @ [10] @ ts)))))"

definition cJSON_Print :: "bool \<Rightarrow> json \<Rightarrow> bytes ub_result" where
  "cJSON_Print sc item = print_value sc 0 item"

section \<open>The minifier\<close>

text \<open>On strings, that is up to the terminating NUL.\<close>

fun skip_oneline_comment :: "bytes \<Rightarrow> bytes" where
  "skip_oneline_comment [] = []"
| "skip_oneline_comment (c # cs) = (if c = 10 then cs else skip_oneline_comment cs)"

fun skip_multiline_comment :: "bytes \<Rightarrow> bytes" where
  "skip_multiline_comment [] = []"
| "skip_multiline_comment (c # cs) =
     (if c = 0x2A \<and> cs \<noteq> [] \<and> hd cs = 0x2F then tl cs else skip_multiline_comment cs)"

text \<open>After the opening quote: what is copied, and what is left.\<close>

fun minify_string :: "bytes \<Rightarrow> bytes \<times> bytes" where
  "minify_string [] = ([], [])"
| "minify_string (c # cs) =
     (if c = 0x22 then ([c], cs)
      else if c = 0x5C \<and> cs \<noteq> [] \<and> hd cs = 0x22
      then (case minify_string (tl cs) of (out, rest) \<Rightarrow> (c # 0x22 # out, rest))
      else (case minify_string cs of (out, rest) \<Rightarrow> (c # out, rest)))"

lemma length_skip_oneline [simp]: "length (skip_oneline_comment s) \<le> length s"
  by (induction s) simp_all

lemma length_skip_multiline [simp]: "length (skip_multiline_comment s) \<le> length s"
  by (induction s) auto

lemma length_minify_string [simp]: "length (snd (minify_string s)) \<le> length s"
proof (induction s rule: minify_string.induct)
  case (2 c cs)
  then show ?case by (cases cs) (auto simp: split_def split: if_splits)
qed simp

function cJSON_Minify :: "bytes \<Rightarrow> bytes" where
  "cJSON_Minify [] = []"
| "cJSON_Minify (c # cs) =
     (if c \<in> {0x20, 9, 13, 10} then cJSON_Minify cs
      else if c = 0x2F then
        if cs \<noteq> [] \<and> hd cs = 0x2F then cJSON_Minify (skip_oneline_comment (tl cs))
        else if cs \<noteq> [] \<and> hd cs = 0x2A then cJSON_Minify (skip_multiline_comment (tl cs))
        else cJSON_Minify cs
      else if c = 0x22 then c # fst (minify_string cs) @ cJSON_Minify (snd (minify_string cs))
      else c # cJSON_Minify cs)"
  by pat_completeness auto
termination
proof (relation "measure length")
  fix c and cs :: bytes
  show "(skip_oneline_comment (tl cs), c # cs) \<in> measure length"
    using length_skip_oneline [of "tl cs"] by (simp del: length_skip_oneline)
  show "(skip_multiline_comment (tl cs), c # cs) \<in> measure length"
    using length_skip_multiline [of "tl cs"] by (simp del: length_skip_multiline)
qed (simp_all add: less_Suc_eq_le)

end
