(* ===== verification/Fwx_Json_Correct.thy ===== *)
theory Fwx_Json_Correct
  imports Fwx_Json_Text
begin

text \<open>
  What the parser, the printer and the minifier of \<^verbatim>\<open>oaf/src/k_json.c\<close> do for each other. The
  parser ends on every buffer. \<open>renders\<close> is the grammar of the texts of a tree; the printer and
  the minifier produce such texts and the parser reads any of them back to the tree. Then the
  inputs on which the code goes wrong.
\<close>

section \<open>The parser ends\<close>

lemma pbind_POk: "pbind r f = POk x t \<longleftrightarrow> (\<exists>y u. r = POk y u \<and> f y u = POk x t)"
  by (cases r) (simp_all add: pbind_def)

lemma pbind_PFuel: "pbind r f = PFuel \<longleftrightarrow> r = PFuel \<or> (\<exists>y u. r = POk y u \<and> f y u = PFuel)"
  by (cases r) (simp_all add: pbind_def)

lemma over_read_neq [simp]: "over_read \<noteq> POk x t" "over_read \<noteq> PFuel"
  by (simp_all add: over_read_def)

lemma pskip_POk: "pskip sc s f = POk x t \<longleftrightarrow> (\<exists>c cs. skip sc s = c # cs \<and> f c cs = POk x t)"
  by (simp add: pskip_def split: list.split)

lemma pskip_PFuel: "pskip sc s f = PFuel \<longleftrightarrow> (\<exists>c cs. skip sc s = c # cs \<and> f c cs = PFuel)"
  by (simp add: pskip_def split: list.split)

lemmas presult_elims = pbind_POk pbind_PFuel pskip_POk pskip_PFuel

lemma skip_shorter: "skip sc s = c # cs \<Longrightarrow> length cs < length s"
  using length_dropWhile_le [of "\<lambda>c. char_val sc c \<le> 32" s] by (simp add: skip_def)

lemma number_digits_ends: "number_digits s n \<noteq> PFuel"
  by (induction s n rule: number_digits.induct) simp_all

lemma number_digits_shorter: "number_digits s n = POk k r \<Longrightarrow> length r \<le> length s"
  by (induction s n rule: number_digits.induct) (auto split: if_splits)

lemma parse_number_ends: "parse_number s \<noteq> PFuel"
  by (auto simp: parse_number_def Let_def number_digits_ends split: list.split)

lemma number_digits_less:
  "number_digits (c # cs) n = POk k r \<Longrightarrow> is_digit c \<Longrightarrow> length r < length (c # cs)"
  by (auto dest: number_digits_shorter)

lemma parse_number_shorter:
  assumes "parse_number (c # cs) = POk k r" and "c = 0x2D \<or> is_digit c"
  shows "length r < length (c # cs)"
proof -
  have digit: "is_digit d" if "0x31 \<le> d" "d \<le> 0x39" for d :: u8
    using that by (simp add: is_digit_def word_le_nat_alt)
  consider (signed) "c = 0x2D" | (zero) "c = 0x30" | (other) "c \<noteq> 0x2D" "c \<noteq> 0x30" "is_digit c"
    using assms(2) by blast
  then show ?thesis
  proof cases
    case signed
    then show ?thesis
      using assms(1) by (cases cs) (auto simp: parse_number_def Let_def digit split: list.splits if_splits
          dest!: number_digits_shorter)
  next
    case zero
    then show ?thesis
      using assms(1) by (cases cs) (auto simp: parse_number_def Let_def digit split: list.splits if_splits
          dest!: number_digits_shorter)
  next
    case other
    then have "0x31 \<le> c" "c \<le> 0x39"
      unfolding is_digit_def by (simp_all add: word_le_nat_alt unat_arith_simps)
    then show ?thesis
      using assms(1) other by (auto simp: parse_number_def Let_def dest!: number_digits_shorter)
  qed
qed

lemma decode_ends: "decode sc hex out s \<noteq> PFuel"
  by (induction sc hex out s rule: decode.induct) (simp_all split: list.split)

lemma decode_shorter: "decode sc hex out s = POk v r \<Longrightarrow> length r \<le> length s"
proof (induction sc hex out s rule: decode.induct)
  case (2 sc hex out c cs)
  then show ?case by (cases cs) (auto simp: not_less split: if_splits)
qed simp

lemma parse_string_ends: "parse_string sc hex s \<noteq> PFuel"
  by (auto simp: parse_string_def decode_ends pbind_PFuel split: list.split option.split if_splits)

lemma parse_string_shorter: "parse_string sc hex s = POk v r \<Longrightarrow> length r < length s"
  by (auto simp: parse_string_def pbind_POk split: list.splits option.splits if_splits
      dest!: decode_shorter)

lemma starts_take: "starts s l = Some True \<Longrightarrow> length l \<le> length s"
  by (induction s l rule: starts.induct) (auto split: if_splits)

lemma parse_shorter:
  "parse_value sc hex n s = POk j r \<Longrightarrow> length r < length s"
  "parse_items sc hex n s = POk js r \<Longrightarrow> length r < length s"
  "parse_members sc hex n s = POk kvs r \<Longrightarrow> length r < length s"
proof (induction n arbitrary: s j js kvs r)
  case (Suc n)
  {
    case 1
    then show ?case
      by (auto simp: presult_elims split: option.splits bool.splits list.splits if_splits
          dest!: starts_take skip_shorter parse_string_shorter parse_number_shorter Suc.IH(2,3))
  next
    case 2
    then show ?case
      by (fastforce simp: presult_elims split: if_splits dest!: skip_shorter Suc.IH(1,2))
  next
    case 3
    then show ?case
      by (fastforce simp: presult_elims split: if_splits
          dest!: skip_shorter parse_string_shorter Suc.IH(1,3))
  }
qed simp_all

lemma parse_value_PFuel:
  assumes "parse_value sc hex (Suc n) s = PFuel"
  shows "\<exists>c cs d ds. s = c # cs \<and> skip sc cs = d # ds \<and>
    (parse_items sc hex n (d # ds) = PFuel \<or> parse_members sc hex n (d # ds) = PFuel)"
  using assms by (auto simp: presult_elims parse_string_ends parse_number_ends
      split: option.splits bool.splits list.splits if_splits)

lemma parse_enough_fuel:
  "2 * length s < n \<Longrightarrow> parse_value sc hex n s \<noteq> PFuel"
  "2 * length s + 1 < n \<Longrightarrow> parse_items sc hex n s \<noteq> PFuel"
  "2 * length s + 1 < n \<Longrightarrow> parse_members sc hex n s \<noteq> PFuel"
proof (induction n arbitrary: s)
  case (Suc n)
  {
    case 1
    have "2 * length (d # ds) + 1 < n" if "s = c # cs" "skip sc cs = d # ds" for c cs d ds
      using that skip_shorter 1 by fastforce
    note fuel = Suc.IH(2) [OF this] Suc.IH(3) [OF this]
    then show ?case by (blast dest: parse_value_PFuel)
  next
    case 2
    have "2 * length (e # es) + 1 < n"
      if "parse_value sc hex n s = POk j r" "skip sc r = d # ds" "skip sc ds = e # es" for j r d ds e es
      using that parse_shorter(1) [of sc hex n s j r] skip_shorter [of sc r d ds] skip_shorter [of sc ds e es] 2
      by simp
    note fuel = Suc.IH(2) [OF this]
    show ?case
      using 2 by (auto simp: presult_elims Suc.IH(1) fuel)
  next
    case 3
    have "2 * length (b # bs) < n"
      if "parse_string sc hex s = POk k r" "skip sc r = a # ar" "skip sc ar = b # bs" for k r a ar b bs
      using that parse_string_shorter [of sc hex s k r] skip_shorter [of sc r a ar]
        skip_shorter [of sc ar b bs] 3 by simp
    note ends = Suc.IH(1) [OF this]
    have "2 * length (e # es) + 1 < n"
      if "parse_string sc hex s = POk k r" "skip sc r = a # ar" "skip sc ar = b # bs"
        "parse_value sc hex n (b # bs) = POk j r'" "skip sc r' = d # ds" "skip sc ds = e # es"
      for k r a ar b bs j r' d ds e es
      using that parse_string_shorter [of sc hex s k r] skip_shorter [of sc r a ar]
        skip_shorter [of sc ar b bs] parse_shorter(1) [of sc hex n "b # bs" j r']
        skip_shorter [of sc r' d ds] skip_shorter [of sc ds e es] 3
      by simp
    note fuel = Suc.IH(3) [OF this]
    show ?case
      by (auto simp: presult_elims parse_string_ends ends fuel)
  }
qed simp_all

text \<open>More fuel changes no result but that of running out of it.\<close>

definition fuel_le :: "'a presult \<Rightarrow> 'a presult \<Rightarrow> bool" where
  "fuel_le r r' \<longleftrightarrow> r = PFuel \<or> r' = r"

lemma fuel_le_refl [simp]: "fuel_le r r" "fuel_le PFuel r"
  by (simp_all add: fuel_le_def)

lemma pbind_le: "fuel_le r r' \<Longrightarrow> (\<And>v s. fuel_le (f v s) (f' v s)) \<Longrightarrow> fuel_le (pbind r f) (pbind r' f')"
  by (cases r) (auto simp: fuel_le_def pbind_def)

lemma pskip_le: "(\<And>c cs. fuel_le (f c cs) (f' c cs)) \<Longrightarrow> fuel_le (pskip sc s f) (pskip sc s f')"
  by (auto simp: pskip_def split: list.split)

lemma if_le: "fuel_le a a' \<Longrightarrow> fuel_le b b' \<Longrightarrow> fuel_le (if P then a else b) (if P then a' else b')"
  by simp

lemma starts_le:
  "(o1 = Some False \<Longrightarrow> fuel_le r r') \<Longrightarrow>
    fuel_le (case o1 of None \<Rightarrow> a | Some True \<Rightarrow> b | Some False \<Rightarrow> r) (case o1 of None \<Rightarrow> a | Some True \<Rightarrow> b | Some False \<Rightarrow> r')"
  by (auto split: option.split bool.split)

lemma list_le:
  "(\<And>c cs. fuel_le (f c cs) (f' c cs)) \<Longrightarrow> fuel_le (case s of [] \<Rightarrow> a | c # cs \<Rightarrow> f c cs) (case s of [] \<Rightarrow> a | c # cs \<Rightarrow> f' c cs)"
  by (cases s) simp_all

lemmas fuel_intros = pbind_le pskip_le if_le starts_le list_le fuel_le_refl

lemma parse_more_fuel:
  "fuel_le (parse_value sc hex n s) (parse_value sc hex (Suc n) s)"
  "fuel_le (parse_items sc hex n s) (parse_items sc hex (Suc n) s)"
  "fuel_le (parse_members sc hex n s) (parse_members sc hex (Suc n) s)"
proof (induction n arbitrary: s)
  case (Suc n)
  {
    case 1
    show ?case unfolding parse_value.simps(2) [of sc hex n s] parse_value.simps(2) [of sc hex "Suc n" s]
      by (intro fuel_intros Suc.IH)
  next
    case 2
    show ?case unfolding parse_items.simps(2) [of sc hex n s] parse_items.simps(2) [of sc hex "Suc n" s]
      by (intro fuel_intros Suc.IH)
  next
    case 3
    show ?case unfolding parse_members.simps(2) [of sc hex n s] parse_members.simps(2) [of sc hex "Suc n" s]
      by (intro fuel_intros Suc.IH)
  }
qed simp_all

lemma parse_any_fuel:
  assumes "parse_value sc hex n s \<noteq> PFuel" shows "parse_value sc hex (n + k) s = parse_value sc hex n s"
proof (induction k)
  case (Suc k)
  then show ?case
    using assms parse_more_fuel(1) [of sc hex "n + k" s] by (simp add: fuel_le_def del: parse_value.simps)
qed simp

text \<open>
  C32. The recursion of the parser ends on every buffer, NUL-terminated or not, whatever it holds and however
  deep its values nest: with any number of nested calls above twice the length of the buffer the result is the same, and it is never that the
  calls were used up. A tree comes with a rest of the buffer that is strictly shorter. The other results are NULL and, where the
  text is not closed or an escape runs into its quote, an access outside of the buffer or of a string's allocation, after which nothing is said.
\<close>

theorem cJSON_Parse_ends:
  "(2 * length buf < n \<longrightarrow> pskip sc buf (\<lambda>c cs. parse_value sc hex n (c # cs)) = cJSON_Parse sc hex buf) \<and>
    (case cJSON_Parse sc hex buf of
       POk j rest \<Rightarrow> length rest < length buf | PNull \<Rightarrow> True | PUb e \<Rightarrow> True | PFuel \<Rightarrow> False)"
proof (cases "skip sc buf")
  case Nil
  then show ?thesis by (simp add: cJSON_Parse_def pskip_def over_read_def)
next
  case (Cons c cs)
  then have less: "length (c # cs) \<le> length buf"
    using skip_shorter by fastforce
  have fuel: "parse_value sc hex (2 * length buf + 1) (c # cs) \<noteq> PFuel"
    by (rule parse_enough_fuel(1)) (use less in simp)
  have "parse_value sc hex n (c # cs) = parse_value sc hex (2 * length buf + 1) (c # cs)" if "2 * length buf < n"
    using parse_any_fuel [OF fuel, of "n - (2 * length buf + 1)"] that by simp
  with less fuel show ?thesis
    by (auto simp: cJSON_Parse_def pskip_def Cons dest: parse_shorter(1) simp del: parse_value.simps
        split: presult.split)
qed

theorem cJSON_Parse_ends_witness:
  "pskip False [0x5B, 0x31, 0x5D, 0] (\<lambda>c cs. parse_value False (\<lambda>_. 0) 1000 (c # cs)) = POk (JArray [JNumber 1]) [0]"
proof -
  have "cJSON_Parse False (\<lambda>_. 0) [0x5B, 0x31, 0x5D, 0] = POk (JArray [JNumber 1]) [0]" by code_simp
  then show ?thesis using cJSON_Parse_ends [of "[0x5B, 0x31, 0x5D, 0]" 1000 False "\<lambda>_. 0"] by (simp del: parse_value.simps)
qed

section \<open>The texts of a tree\<close>

text \<open>The bytes that a printed string keeps, and the trees whose strings have no other.\<close>

definition json_char :: "bool \<Rightarrow> u8 \<Rightarrow> bool" where
  "json_char sc c \<longleftrightarrow> char_val sc c > 31 \<or> c \<in> {8, 9, 10, 12, 13}"

definition json_string :: "bool \<Rightarrow> bytes \<Rightarrow> bytes \<Rightarrow> bool" where
  "json_string sc bad s \<longleftrightarrow> list_all (\<lambda>c. json_char sc c \<and> c \<notin> set bad) s"

fun json_ok :: "bool \<Rightarrow> bytes \<Rightarrow> json \<Rightarrow> bool" where
  "json_ok sc bad (JNumber n) \<longleftrightarrow> 0 \<le> n \<and> n < 2 ^ 31"
| "json_ok sc bad (JString s) \<longleftrightarrow> json_string sc bad s"
| "json_ok sc bad (JArray js) \<longleftrightarrow> list_all (json_ok sc bad) js"
| "json_ok sc bad (JObject kvs) \<longleftrightarrow> list_all (\<lambda>kv. json_string sc bad (fst kv) \<and> json_ok sc bad (snd kv)) kvs"
| "json_ok sc bad j \<longleftrightarrow> True"

text \<open>The grammar, with any white space between the tokens.\<close>

abbreviation blanks :: "bytes \<Rightarrow> bool" where
  "blanks w \<equiv> list_all (\<lambda>c. c \<le> 32) w"

inductive renders :: "bool \<Rightarrow> json \<Rightarrow> bytes \<Rightarrow> bool"
  and renders_items :: "bool \<Rightarrow> json list \<Rightarrow> bytes \<Rightarrow> bool"
  and renders_members :: "bool \<Rightarrow> (bytes \<times> json) list \<Rightarrow> bytes \<Rightarrow> bool" for sc where
  r_null: "renders sc JNull (cstr ''null'')"
| r_false: "renders sc JFalse (cstr ''false'')"
| r_true: "renders sc JTrue (cstr ''true'')"
| r_number: "0 \<le> n \<Longrightarrow> n < 2 ^ 31 \<Longrightarrow> renders sc (JNumber n) (nat_dec (nat n))"
| r_string: "json_string sc [] s \<Longrightarrow> renders sc (JString s) (print_string_ptr sc s)"
| r_empty_array: "blanks w \<Longrightarrow> renders sc (JArray []) (0x5B # w @ [0x5D])"
| r_array: "blanks w \<Longrightarrow> renders_items sc js t \<Longrightarrow> renders sc (JArray js) (0x5B # w @ t @ [0x5D])"
| r_empty_object: "blanks w \<Longrightarrow> renders sc (JObject []) (0x7B # w @ [0x7D])"
| r_object: "blanks w \<Longrightarrow> renders_members sc kvs t \<Longrightarrow> renders sc (JObject kvs) (0x7B # w @ t @ [0x7D])"
| r_item: "renders sc j t \<Longrightarrow> blanks w \<Longrightarrow> renders_items sc [j] (t @ w)"
| r_items: "renders sc j t \<Longrightarrow> blanks w \<Longrightarrow> blanks w' \<Longrightarrow> renders_items sc js ts \<Longrightarrow>
    renders_items sc (j # js) (t @ w @ 0x2C # w' @ ts)"
| r_member: "json_string sc [] k \<Longrightarrow> renders sc j t \<Longrightarrow> blanks w1 \<Longrightarrow> blanks w2 \<Longrightarrow> blanks w3 \<Longrightarrow>
    renders_members sc [(k, j)] (print_string_ptr sc k @ w1 @ 0x3A # w2 @ t @ w3)"
| r_members: "json_string sc [] k \<Longrightarrow> renders sc j t \<Longrightarrow> blanks w1 \<Longrightarrow> blanks w2 \<Longrightarrow> blanks w3 \<Longrightarrow>
    blanks w4 \<Longrightarrow> renders_members sc kvs ts \<Longrightarrow>
    renders_members sc ((k, j) # kvs) (print_string_ptr sc k @ w1 @ 0x3A # w2 @ t @ w3 @ 0x2C # w4 @ ts)"

section \<open>The parser reads every text of a tree\<close>

lemma char_val_ascii:
  assumes "c < 128"
  shows "char_val sc c = uint c"
proof -
  have "- (2 ^ 7) \<le> uint c" and "uint c < 2 ^ 7"
    using assms order_trans [OF _ uint_ge_0, of "- 128" c] by (simp_all add: word_less_def)
  then show ?thesis by (simp add: char_val_def sint_uint signed_take_bit_int_eq_self)
qed

lemma char_val_small: "c \<le> 32 \<Longrightarrow> char_val sc c \<le> 32"
  using char_val_ascii [of c sc] by (simp add: order_le_less_trans [of c 32 128]) (simp add: word_le_def)

lemma char_val_printable: "32 < c \<Longrightarrow> c < 128 \<Longrightarrow> 32 < char_val sc c"
  by (simp add: char_val_ascii) (simp add: word_less_def)

lemma skip_blanks:
  assumes "blanks w" and "32 < c" and "c < 128"
  shows "skip sc (w @ c # cs) = c # cs"
proof -
  have "\<forall>b\<in>set w. char_val sc b \<le> 32"
    using assms(1) by (auto simp: list_all_iff char_val_small)
  then show ?thesis
    using char_val_printable [OF assms(2,3), of sc] by (simp add: skip_def dropWhile_append2)
qed

lemma pskip_blanks: "blanks w \<Longrightarrow> 32 < c \<Longrightarrow> c < 128 \<Longrightarrow> pskip sc (w @ c # cs) f = f c cs"
  by (simp add: pskip_def skip_blanks)

subsection \<open>Strings\<close>

lemma escape_cases:
  assumes "json_char sc c"
  obtains (plain) "escape sc c = [c]" "char_val sc c > 31" "c \<noteq> 0x22" "c \<noteq> 0x5C"
    | (escaped) d where "escape sc c = [0x5C, d]" "d \<noteq> 0x75" "unescape d = c" "31 < char_val sc d"
        "d = 0x22 \<longrightarrow> c = 0x22" "d = 0x5C \<longrightarrow> c = 0x5C"
proof (cases "char_val sc c > 31 \<and> c \<noteq> 0x22 \<and> c \<noteq> 0x5C")
  case True
  then show ?thesis by (intro plain) (simp_all add: escape_def)
next
  case False
  then have "c \<in> {0x22, 0x5C, 8, 9, 10, 12, 13}"
    using assms by (auto simp: json_char_def)
  then show ?thesis
    by (elim insertE emptyE; intro escaped [of "hd (tl (escape sc c))"];
        simp add: escape_def unescape_def char_val_ascii)
qed

lemma json_string_Cons [simp]:
  "json_string sc bad (c # s) \<longleftrightarrow> json_char sc c \<and> c \<notin> set bad \<and> json_string sc bad s"
  by (auto simp: json_string_def)

lemma json_string_Nil [simp]: "json_string sc bad []"
  by (simp add: json_string_def)

lemma quote_vals [simp]: "char_val sc 0x22 = 0x22" "char_val sc 0x5C = 0x5C"
  by (simp_all add: char_val_ascii)

lemma string_len_escape:
  "json_string sc [] s \<Longrightarrow>
     string_len sc (concat (map (escape sc) s) @ 0x22 # rest) n = Some (n + length s)"
proof (induction s arbitrary: n)
  case (Cons c s)
  then have "json_char sc c" by simp
  then show ?case using Cons by (cases rule: escape_cases) simp_all
qed simp

lemma decode_escape:
  "json_string sc [] s \<Longrightarrow> decode sc hex out (concat (map (escape sc) s) @ 0x22 # rest) = POk (out @ s) rest"
proof (induction s arbitrary: out)
  case (Cons c s)
  then have "json_char sc c" by simp
  then show ?case using Cons by (cases rule: escape_cases) simp_all
qed simp

lemma json_string_c_string: "json_string sc bad s \<Longrightarrow> c_string s = s"
  by (induction s) (auto simp: c_string_def json_char_def char_val_ascii)

lemma parse_print_string:
  "json_string sc [] s \<Longrightarrow> parse_string sc hex (print_string_ptr sc s @ rest) = POk s rest"
  by (simp add: parse_string_def print_string_ptr_def string_len_escape decode_escape
      pbind_def json_string_c_string)

subsection \<open>Numbers\<close>

lemma nat_dec_neq_Nil [simp]: "nat_dec n \<noteq> []"
  by (subst nat_dec.simps) simp

lemma unat_digit: "d < 10 \<Longrightarrow> unat (digit d) = 48 + d"
  unfolding digit_def by (subst unat_of_nat) simp

lemma uint_digit [simp]: "d < 10 \<Longrightarrow> uint (digit d) = 48 + int d"
  using arg_cong [OF unat_digit, of d int] by simp

lemma is_digit_digit [simp]: "d < 10 \<Longrightarrow> is_digit (digit d)"
  by (simp add: is_digit_def word_le_nat_alt unat_digit)

lemma digit_pos: "0 < d \<Longrightarrow> d < 10 \<Longrightarrow> 0x31 \<le> digit d \<and> digit d \<le> 0x39"
  by (simp add: word_le_nat_alt unat_digit)

lemma nat_dec_digits: "list_all is_digit (nat_dec n)"
proof (induction n rule: nat_dec.induct)
  case (1 n)
  then show ?case by (subst nat_dec.simps) simp
qed

lemma nat_dec_hd: "0 < n \<Longrightarrow> 0x31 \<le> hd (nat_dec n) \<and> hd (nat_dec n) \<le> 0x39"
proof (induction n rule: nat_dec.induct)
  case (1 n)
  then show ?case by (subst (1 2) nat_dec.simps) (simp add: digit_pos hd_append)
qed

definition digit_step :: "int \<Rightarrow> u8 \<Rightarrow> int" where
  "digit_step n c = to_int32 (n * 10 + (uint c - 48))"

lemma number_digits_append:
  "list_all is_digit ds \<Longrightarrow> number_digits (ds @ rest) n = number_digits rest (foldl digit_step n ds)"
  by (induction ds arbitrary: n) (simp_all add: digit_step_def)

lemma foldl_nat_dec: "n < 2 ^ 31 \<Longrightarrow> foldl digit_step 0 (nat_dec n) = int n"
proof (induction n rule: nat_dec.induct)
  case (1 n)
  show ?case
  proof (cases "n < 10")
    case True
    then show ?thesis
      by (subst nat_dec.simps) (simp add: digit_step_def to_int32_id)
  next
    case False
    then have "foldl digit_step 0 (nat_dec (n div 10)) = int (n div 10)"
      using 1 by simp
    moreover have "int (n div 10) * 10 + int (n mod 10) = int n"
      by (simp add: zdiv_int zmod_int)
    ultimately show ?thesis
      using False 1(2) by (subst nat_dec.simps) (simp add: digit_step_def to_int32_id)
  qed
qed

lemma parse_nat_dec:
  assumes "n < 2 ^ 31" and "rest \<noteq> []" and "\<not> is_digit (hd rest)"
  shows "parse_number (nat_dec n @ rest) = POk (int n) rest"
proof -
  have ends: "number_digits rest k = POk k rest" for k
    using assms by (cases rest) simp_all
  show ?thesis
  proof (cases "n = 0")
    case True
    have "\<not> (0x31 \<le> c \<and> c \<le> 0x39)" if "\<not> is_digit c" for c :: u8
      using that by (auto simp: is_digit_def word_le_nat_alt)
    then show ?thesis
      using True assms(2,3) by (cases rest; subst nat_dec.simps) (auto simp: parse_number_def digit_def Let_def)
  next
    case False
    then obtain c cs where cs: "nat_dec n = c # cs" "0x31 \<le> c" "c \<le> 0x39"
      using nat_dec_hd [of n] by (cases "nat_dec n") auto
    then have "c \<noteq> 0x2D" "c \<noteq> 0x30"
      by (auto simp: word_le_nat_alt)
    moreover have "number_digits (nat_dec n @ rest) 0 = POk (int n) rest"
      by (simp add: number_digits_append nat_dec_digits foldl_nat_dec [OF assms(1)] ends)
    ultimately show ?thesis
      using cs by (simp add: parse_number_def Let_def)
  qed
qed

subsection \<open>Values\<close>

lemma renders_head:
  "renders sc j t \<Longrightarrow> \<exists>c cs. t = c # cs \<and> 32 < c \<and> c < 128 \<and> c \<noteq> 0x5D"
  "renders_items sc js t \<Longrightarrow> \<exists>c cs. t = c # cs \<and> 32 < c \<and> c < 128 \<and> c \<noteq> 0x5D"
  "renders_members sc kvs t \<Longrightarrow> \<exists>cs. t = 0x22 # cs"
proof (induction rule: renders_renders_items_renders_members.inducts)
  case (r_number n)
  have "is_digit c \<Longrightarrow> 32 < c \<and> c < 128 \<and> c \<noteq> 0x5D" for c :: u8
    by (auto simp: is_digit_def word_le_nat_alt word_less_nat_alt)
  then show ?case
    using nat_dec_digits [of "nat n"] by (cases "nat_dec (nat n)") auto
qed (auto simp: print_string_ptr_def)

lemma not_digit_after: "blanks w \<Longrightarrow> \<not> is_digit c \<Longrightarrow> w @ c # cs \<noteq> [] \<and> \<not> is_digit (hd (w @ c # cs))"
  by (cases w) (auto simp: is_digit_def word_le_nat_alt)

lemma parse_value_simps:
  "parse_value sc hex (Suc n) (0x22 # cs) = pbind (parse_string sc hex (0x22 # cs)) (\<lambda>v. POk (JString v))"
  "is_digit c \<Longrightarrow> parse_value sc hex (Suc n) (c # cs) = pbind (parse_number (c # cs)) (\<lambda>v. POk (JNumber v))"
  "parse_value sc hex (Suc n) (0x5B # cs) = pskip sc cs (\<lambda>d ds. if d = 0x5D then POk (JArray []) ds
     else pbind (parse_items sc hex n (d # ds)) (\<lambda>js. POk (JArray js)))"
  "parse_value sc hex (Suc n) (0x7B # cs) = pskip sc cs (\<lambda>d ds. if d = 0x7D then POk (JObject []) ds
     else pbind (parse_members sc hex n (d # ds)) (\<lambda>kvs. POk (JObject kvs)))"
proof -
  show "parse_value sc hex (Suc n) (c # cs) = pbind (parse_number (c # cs)) (\<lambda>v. POk (JNumber v))"
    if "is_digit c"
  proof -
    have "c \<noteq> 0x6E" "c \<noteq> 0x66" "c \<noteq> 0x74" "c \<noteq> 0x22"
      using that by (auto simp: is_digit_def word_le_nat_alt)
    then show ?thesis using that by simp
  qed
qed (simp_all add: is_digit_def)

lemma pbind_POk_eq [simp]: "pbind (POk x r) f = f x r"
  by (simp add: pbind_def)

lemma parse_renders:
  "renders sc j t \<Longrightarrow> 2 * length t < n \<Longrightarrow> rest \<noteq> [] \<Longrightarrow> \<not> is_digit (hd rest) \<Longrightarrow>
     parse_value sc hex n (t @ rest) = POk j rest"
  "renders_items sc js t \<Longrightarrow> 2 * length t + 1 < n \<Longrightarrow>
     parse_items sc hex n (t @ 0x5D # rest) = POk js rest"
  "renders_members sc kvs t \<Longrightarrow> 2 * length t + 1 < n \<Longrightarrow>
     parse_members sc hex n (t @ 0x7D # rest) = POk kvs rest"
proof (induction arbitrary: n rest and n rest and n rest rule: renders_renders_items_renders_members.inducts)
  case (r_number k)
  obtain c cs where cs: "nat_dec (nat k) = c # cs"
    by (cases "nat_dec (nat k)") auto
  moreover have "is_digit c"
    using nat_dec_digits [of "nat k"] cs by simp
  moreover have "parse_number (nat_dec (nat k) @ rest) = POk k rest"
    using r_number parse_nat_dec [of "nat k" rest] by (simp add: nat_less_iff)
  ultimately show ?case
    using r_number by (cases n) (simp_all add: parse_value_simps del: parse_value.simps)
next
  case (r_string s)
  then show ?case
    using parse_print_string [OF r_string(1), of hex rest]
    by (cases n) (simp_all add: parse_value_simps print_string_ptr_def del: parse_value.simps)
next
  case (r_empty_array w)
  then show ?case
    by (cases n) (simp_all add: parse_value_simps pskip_blanks del: parse_value.simps)
next
  case (r_empty_object w)
  then show ?case
    by (cases n) (simp_all add: parse_value_simps pskip_blanks del: parse_value.simps)
next
  case (r_array w js t)
  obtain c cs where cs: "t = c # cs" "32 < c" "c < 128" "c \<noteq> 0x5D"
    using renders_head(2) [OF \<open>renders_items sc js t\<close>] by blast
  have "parse_items sc hex (n - 1) (t @ 0x5D # rest) = POk js rest"
    using r_array by simp
  with cs show ?case
    using \<open>blanks w\<close> r_array.prems by (cases n) (simp_all add: parse_value_simps pskip_blanks del: parse_value.simps)
next
  case (r_object w kvs t)
  obtain cs where cs: "t = 0x22 # cs"
    using renders_head(3) [OF \<open>renders_members sc kvs t\<close>] by blast
  have "parse_members sc hex (n - 1) (t @ 0x7D # rest) = POk kvs rest"
    using r_object by simp
  with cs show ?case
    using \<open>blanks w\<close> r_object.prems by (cases n) (simp_all add: parse_value_simps pskip_blanks del: parse_value.simps)
next
  case (r_item j t w)
  have "parse_value sc hex (n - 1) (t @ w @ 0x5D # rest) = POk j (w @ 0x5D # rest)"
    using r_item not_digit_after [OF \<open>blanks w\<close>] by (simp add: is_digit_def)
  then show ?case
    using r_item by (cases n) (simp_all add: pskip_blanks)
next
  case (r_items j t w w' js ts)
  obtain c cs where cs: "ts = c # cs" "32 < c" "c < 128"
    using renders_head(2) [OF \<open>renders_items sc js ts\<close>] by blast
  have "parse_value sc hex (n - 1) (t @ w @ 0x2C # w' @ ts @ 0x5D # rest) =
      POk j (w @ 0x2C # w' @ ts @ 0x5D # rest)"
    using r_items not_digit_after [OF \<open>blanks w\<close>] by (simp add: is_digit_def)
  moreover have "parse_items sc hex (n - 1) (ts @ 0x5D # rest) = POk js rest"
    using r_items by simp
  ultimately show ?case
    using r_items cs by (cases n) (simp_all add: pskip_blanks)
next
  case (r_member k j t w1 w2 w3)
  obtain c cs where cs: "t = c # cs" "32 < c" "c < 128"
    using renders_head(1) [OF \<open>renders sc j t\<close>] by blast
  have "parse_value sc hex (n - 1) (t @ w3 @ 0x7D # rest) = POk j (w3 @ 0x7D # rest)"
    using r_member not_digit_after [OF \<open>blanks w3\<close>] by (simp add: is_digit_def)
  then show ?case
    using r_member cs by (cases n) (simp_all add: pskip_blanks parse_print_string)
next
  case (r_members k j t w1 w2 w3 w4 kvs ts)
  obtain c cs ds where cs: "t = c # cs" "32 < c" "c < 128" "ts = 0x22 # ds"
    using renders_head(1) [OF \<open>renders sc j t\<close>] renders_head(3) [OF \<open>renders_members sc kvs ts\<close>] by blast
  have "parse_value sc hex (n - 1) (t @ w3 @ 0x2C # w4 @ ts @ 0x7D # rest) =
      POk j (w3 @ 0x2C # w4 @ ts @ 0x7D # rest)"
    using r_members not_digit_after [OF \<open>blanks w3\<close>] by (simp add: is_digit_def)
  moreover have "parse_members sc hex (n - 1) (ts @ 0x7D # rest) = POk kvs rest"
    using r_members by simp
  ultimately show ?case
    using r_members cs by (cases n) (simp_all add: pskip_blanks parse_print_string)
qed (case_tac n; simp)+

section \<open>The printer writes a text of the tree\<close>

lemma renders_members_blanks:
  "renders sc j t \<Longrightarrow> True" "renders_items sc js t \<Longrightarrow> True"
  "renders_members sc kvs t \<Longrightarrow> blanks w \<Longrightarrow> renders_members sc kvs (t @ w)"
proof (induction rule: renders_renders_items_renders_members.inducts)
  case (r_member k j t w1 w2 w3)
  then show ?case using renders_renders_items_renders_members.r_member [of sc k j t w1 w2 "w3 @ w"] by simp
next
  case (r_members k j t w1 w2 w3 w4 kvs ts)
  then show ?case
    using renders_renders_items_renders_members.r_members [of sc k j t w1 w2 w3 w4 kvs "ts @ w"] by simp
qed simp_all

lemma sprintf_plain: "0x25 \<notin> set t \<Longrightarrow> sprintf_text t = Inr t"
  by (induction t rule: sprintf_text.induct) auto

lemma nat_dec_set: "c \<in> set (nat_dec n) \<Longrightarrow> 0x30 \<le> c \<and> c \<le> 0x39"
  using nat_dec_digits [of n] by (auto simp: list_all_iff is_digit_def)

lemma escape_set: "b \<in> set (escape sc c) \<Longrightarrow> b = c \<or> b \<in> {0x5C, 0x22, 0x62, 0x66, 0x6E, 0x72, 0x74}"
  by (auto simp: escape_def split: if_splits)

lemma print_string_set:
  "json_string sc bad s \<Longrightarrow> 0x25 \<in> set bad \<Longrightarrow> 0x25 \<notin> set (print_string_ptr sc s)"
  by (auto simp: print_string_ptr_def json_string_def list_all_iff dest!: escape_set)

lemma json_string_any: "json_string sc bad s \<Longrightarrow> json_string sc [] s"
  by (simp add: json_string_def list_all_iff)

lemma print_value_renders:
  "json_ok sc bad j \<Longrightarrow> 0x25 \<in> set bad \<Longrightarrow>
     \<exists>t. print_value sc d j = Inr t \<and> renders sc j t \<and> 0x25 \<notin> set t"
  "list_all (json_ok sc bad) js \<Longrightarrow> 0x25 \<in> set bad \<Longrightarrow>
     \<exists>t. print_items sc d js = Inr t \<and> (js \<noteq> [] \<longrightarrow> renders_items sc js t) \<and> (js = [] \<longrightarrow> t = []) \<and> 0x25 \<notin> set t"
  "json_ok sc bad (JObject kvs) \<Longrightarrow> 0x25 \<in> set bad \<Longrightarrow>
     \<exists>t. print_members sc d kvs = Inr (if kvs = [] then [] else replicate d 9 @ t) \<and>
       (kvs \<noteq> [] \<longrightarrow> renders_members sc kvs t) \<and> 0x25 \<notin> set t"
proof (induction sc d j and sc d js and sc d kvs rule: print_value_print_items_print_members.induct)
  case (4 sc d n)
  then show ?case using r_number [of n sc] nat_dec_set [of "0x25" "nat n"]
    by (auto simp: print_number_def)
next
  case (5 sc d s)
  then show ?case by (auto intro: r_string json_string_any dest: print_string_set)
next
  case (6 sc d js)
  then obtain t where t: "print_items sc (d + 1) js = Inr t" "js \<noteq> [] \<longrightarrow> renders_items sc js t"
      "js = [] \<longrightarrow> t = []" "0x25 \<notin> set t"
    by auto
  then show ?case
    using r_empty_array [of "[]" sc] r_array [of "[]" sc js t] by (cases "js = []") auto
next
  case (7 sc d kvs)
  then obtain t where t: "print_members sc (d + 1) kvs = Inr (if kvs = [] then [] else replicate (d + 1) 9 @ t)"
      "kvs \<noteq> [] \<longrightarrow> renders_members sc kvs t" "0x25 \<notin> set t"
    by auto
  show ?case
  proof (cases "kvs = []")
    case True
    then show ?thesis
      using t r_empty_object [of "10 # replicate d 9" sc] by (auto simp: list_all_iff)
  next
    case False
    then have "renders_members sc kvs (t @ replicate d 9)"
      using t renders_members_blanks(3) [of sc kvs t "replicate d 9"] by (simp add: list_all_iff)
    from r_object [OF _ this, of "10 # replicate (d + 1) 9"] show ?thesis
      using t False by (simp add: list_all_iff)
  qed
next
  case (9 sc d j js)
  then obtain t ts where t: "print_value sc d j = Inr t" "renders sc j t" "0x25 \<notin> set t"
      "print_items sc d js = Inr ts" "js \<noteq> [] \<longrightarrow> renders_items sc js ts" "js = [] \<longrightarrow> ts = []" "0x25 \<notin> set ts"
    by fastforce
  then show ?case
    using r_item [of sc j t "[]"] r_items [of sc j t "[]" "[0x20]" js ts]
    by (cases "js = []") (auto simp: sprintf_plain)
next
  case (11 sc d kv kvs)
  obtain k j where kv: "kv = (k, j)" by (cases kv)
  with 11 have k: "json_string sc bad k" by simp
  from 11 kv obtain t ts where t: "print_value sc d j = Inr t" "renders sc j t" "0x25 \<notin> set t"
      "print_members sc d kvs = Inr (if kvs = [] then [] else replicate d 9 @ ts)"
      "kvs \<noteq> [] \<longrightarrow> renders_members sc kvs ts" "0x25 \<notin> set ts"
    by fastforce
  show ?case
    using t kv print_string_set [OF k 11(4)] r_member [OF json_string_any [OF k] t(2), of "[]" "[9]" "[10]"]
      r_members [OF json_string_any [OF k] t(2), of "[]" "[9]" "[]" "10 # replicate d 9" kvs ts]
    by (cases "kvs = []") (auto simp: sprintf_plain list_all_iff)
qed (auto intro: r_null [simplified] r_false [simplified] r_true [simplified] exI [of _ "[]"])

section \<open>The minifier keeps a text of the tree\<close>

lemma minify_string_print:
  "json_string sc bad s \<Longrightarrow> 0x5C \<in> set bad \<Longrightarrow>
     minify_string (concat (map (escape sc) s) @ 0x22 # rest) = (concat (map (escape sc) s) @ [0x22], rest)"
proof (induction s)
  case (Cons c s)
  then have "json_char sc c" "c \<noteq> 0x5C" by auto
  then show ?case using Cons by (cases rule: escape_cases) auto
qed simp

lemma minify_print_string:
  "json_string sc bad s \<Longrightarrow> 0x5C \<in> set bad \<Longrightarrow>
     cJSON_Minify (print_string_ptr sc s @ rest) = print_string_ptr sc s @ cJSON_Minify rest"
  by (simp add: print_string_ptr_def minify_string_print)

lemma minify_plain:
  "list_all (\<lambda>c. c \<notin> {0x20, 9, 13, 10, 0x2F, 0x22}) t \<Longrightarrow> cJSON_Minify (t @ rest) = t @ cJSON_Minify rest"
  by (induction t) simp_all

lemma minify_blanks:
  "blanks w \<Longrightarrow> \<exists>w'. blanks w' \<and> (\<forall>rest. cJSON_Minify (w @ rest) = w' @ cJSON_Minify rest)"
proof (induction w)
  case (Cons c w)
  then obtain w' where w': "blanks w'" "\<And>rest. cJSON_Minify (w @ rest) = w' @ cJSON_Minify rest"
    by auto
  have "c \<noteq> 0x2F" "c \<noteq> 0x22" using Cons(2) by (auto simp: word_le_nat_alt)
  then show ?case
    using w' Cons(2) by (cases "c \<in> {0x20, 9, 13, 10}") (auto intro: exI [of _ w'] exI [of _ "c # w'"])
qed (auto intro: exI [of _ "[]"])

lemma minify_renders:
  "renders sc j t \<Longrightarrow> json_ok sc bad j \<Longrightarrow> 0x5C \<in> set bad \<Longrightarrow>
     \<exists>t'. renders sc j t' \<and> (\<forall>rest. cJSON_Minify (t @ rest) = t' @ cJSON_Minify rest)"
  "renders_items sc js t \<Longrightarrow> list_all (json_ok sc bad) js \<Longrightarrow> 0x5C \<in> set bad \<Longrightarrow>
     \<exists>t'. renders_items sc js t' \<and> (\<forall>rest. cJSON_Minify (t @ rest) = t' @ cJSON_Minify rest)"
  "renders_members sc kvs t \<Longrightarrow> json_ok sc bad (JObject kvs) \<Longrightarrow> 0x5C \<in> set bad \<Longrightarrow>
     \<exists>t'. renders_members sc kvs t' \<and> (\<forall>rest. cJSON_Minify (t @ rest) = t' @ cJSON_Minify rest)"
proof (induction rule: renders_renders_items_renders_members.inducts)
  case (r_number n)
  have "list_all (\<lambda>c. c \<notin> {0x20, 9, 13, 10, 0x2F, 0x22}) (nat_dec (nat n))"
    using nat_dec_set by (fastforce simp: list_all_iff word_le_nat_alt)
  then show ?case
    using renders_renders_items_renders_members.r_number [OF r_number(1,2)] minify_plain by blast
next
  case (r_string s)
  then show ?case
    using renders_renders_items_renders_members.r_string [OF r_string(1)] minify_print_string by auto
next
  case (r_empty_array w)
  then obtain w' where "blanks w'" "\<And>rest. cJSON_Minify (w @ rest) = w' @ cJSON_Minify rest"
    using minify_blanks by blast
  then show ?case
    by (intro exI [of _ "0x5B # w' @ [0x5D]"]) (simp add: renders_renders_items_renders_members.r_empty_array)
next
  case (r_empty_object w)
  then obtain w' where "blanks w'" "\<And>rest. cJSON_Minify (w @ rest) = w' @ cJSON_Minify rest"
    using minify_blanks by blast
  then show ?case
    by (intro exI [of _ "0x7B # w' @ [0x7D]"]) (simp add: renders_renders_items_renders_members.r_empty_object)
next
  case (r_array w js t)
  then obtain w' t' where "blanks w'" "\<And>rest. cJSON_Minify (w @ rest) = w' @ cJSON_Minify rest"
    "renders_items sc js t'" "\<And>rest. cJSON_Minify (t @ rest) = t' @ cJSON_Minify rest"
    using minify_blanks [OF \<open>blanks w\<close>] by auto
  then show ?case
    by (intro exI [of _ "0x5B # w' @ t' @ [0x5D]"]) (simp add: renders_renders_items_renders_members.r_array)
next
  case (r_object w kvs t)
  then obtain w' t' where "blanks w'" "\<And>rest. cJSON_Minify (w @ rest) = w' @ cJSON_Minify rest"
    "renders_members sc kvs t'" "\<And>rest. cJSON_Minify (t @ rest) = t' @ cJSON_Minify rest"
    using minify_blanks [OF \<open>blanks w\<close>] by auto
  then show ?case
    by (intro exI [of _ "0x7B # w' @ t' @ [0x7D]"]) (simp add: renders_renders_items_renders_members.r_object)
next
  case (r_item j t w)
  then obtain w' t' where "blanks w'" "\<And>rest. cJSON_Minify (w @ rest) = w' @ cJSON_Minify rest"
    "renders sc j t'" "\<And>rest. cJSON_Minify (t @ rest) = t' @ cJSON_Minify rest"
    using minify_blanks [OF \<open>blanks w\<close>] by auto
  then show ?case
    by (intro exI [of _ "t' @ w'"]) (simp add: renders_renders_items_renders_members.r_item)
next
  case (r_items j t w1 w2 js ts)
  then obtain t' ts' where t: "renders sc j t'" "\<And>rest. cJSON_Minify (t @ rest) = t' @ cJSON_Minify rest"
    "renders_items sc js ts'" "\<And>rest. cJSON_Minify (ts @ rest) = ts' @ cJSON_Minify rest"
    by auto
  obtain w1' w2' where "blanks w1'" "\<And>rest. cJSON_Minify (w1 @ rest) = w1' @ cJSON_Minify rest"
    "blanks w2'" "\<And>rest. cJSON_Minify (w2 @ rest) = w2' @ cJSON_Minify rest"
    using minify_blanks [OF \<open>blanks w1\<close>] minify_blanks [OF \<open>blanks w2\<close>] by blast
  with t show ?case
    by (intro exI [of _ "t' @ w1' @ 0x2C # w2' @ ts'"]) (simp add: renders_renders_items_renders_members.r_items)
next
  case (r_member k j t w1 w2 w3)
  then obtain t' where t: "renders sc j t'" "\<And>rest. cJSON_Minify (t @ rest) = t' @ cJSON_Minify rest"
    by auto
  have k: "json_string sc bad k" using r_member.prems by simp
  obtain w1' w2' w3' where "blanks w1'" "\<And>rest. cJSON_Minify (w1 @ rest) = w1' @ cJSON_Minify rest"
    "blanks w2'" "\<And>rest. cJSON_Minify (w2 @ rest) = w2' @ cJSON_Minify rest"
    "blanks w3'" "\<And>rest. cJSON_Minify (w3 @ rest) = w3' @ cJSON_Minify rest"
    using minify_blanks [OF \<open>blanks w1\<close>] minify_blanks [OF \<open>blanks w2\<close>] minify_blanks [OF \<open>blanks w3\<close>] by blast
  with t show ?case
    using json_string_any [OF k] r_member.prems(2)
    by (intro exI [of _ "print_string_ptr sc k @ w1' @ 0x3A # w2' @ t' @ w3'"])
      (simp add: renders_renders_items_renders_members.r_member minify_print_string [OF k])
next
  case (r_members k j t w1 w2 w3 w4 kvs ts)
  then obtain t' ts' where t: "renders sc j t'" "\<And>rest. cJSON_Minify (t @ rest) = t' @ cJSON_Minify rest"
    "renders_members sc kvs ts'" "\<And>rest. cJSON_Minify (ts @ rest) = ts' @ cJSON_Minify rest"
    by auto
  have k: "json_string sc bad k" using r_members.prems by simp
  obtain w1' w2' where w12: "blanks w1'" "\<And>rest. cJSON_Minify (w1 @ rest) = w1' @ cJSON_Minify rest"
    "blanks w2'" "\<And>rest. cJSON_Minify (w2 @ rest) = w2' @ cJSON_Minify rest"
    using minify_blanks [OF \<open>blanks w1\<close>] minify_blanks [OF \<open>blanks w2\<close>] by blast
  obtain w3' w4' where "blanks w3'" "\<And>rest. cJSON_Minify (w3 @ rest) = w3' @ cJSON_Minify rest"
    "blanks w4'" "\<And>rest. cJSON_Minify (w4 @ rest) = w4' @ cJSON_Minify rest"
    using minify_blanks [OF \<open>blanks w3\<close>] minify_blanks [OF \<open>blanks w4\<close>] by blast
  with t w12 show ?case
    using json_string_any [OF k] r_members.prems(2)
    by (intro exI [of _ "print_string_ptr sc k @ w1' @ 0x3A # w2' @ t' @ w3' @ 0x2C # w4' @ ts'"])
      (simp add: renders_renders_items_renders_members.r_members minify_print_string [OF k])
qed (auto intro: r_null [simplified] r_false [simplified] r_true [simplified])

section \<open>Whole texts\<close>

lemma cJSON_Parse_renders:
  assumes "renders sc j t" and "blanks w"
  shows "cJSON_Parse sc hex (w @ t @ 0 # after) = POk j (0 # after)"
proof -
  obtain c cs where c: "t = c # cs" "32 < c" "c < 128"
    using renders_head(1) [OF assms(1)] by blast
  have "parse_value sc hex (2 * length (w @ t @ 0 # after) + 1) (t @ 0 # after) = POk j (0 # after)"
    by (rule parse_renders(1) [OF assms(1)]) (simp_all add: is_digit_def)
  then show ?thesis
    using assms(2) c by (simp add: cJSON_Parse_def pskip_blanks del: parse_value.simps)
qed

text \<open>
  C17. Of the trees that \<open>json_ok\<close> admits, what the module prints it can read. Printing a tree whose numbers lie from 0 to 2147483647 and
  whose strings hold neither characters that the printer drops (control characters without an escape and, where char is
  signed, bytes from 128 on) nor a percent sign succeeds, and the
  parser reads the text, with anything after its NUL, back to the same tree; when moreover no string has a backslash, also after the
  minifier has taken the white space out of it. Outside of these trees it does not hold: -5 is read back as 5.
\<close>

theorem json_text_roundtrip:
  assumes "json_ok sc (cstr ''%'') j"
  shows "\<exists>t. cJSON_Print sc j = Inr t \<and> cJSON_Parse sc hex (t @ 0 # after) = POk j (0 # after) \<and>
    (json_ok sc [0x5C] j \<longrightarrow> cJSON_Parse sc hex (cJSON_Minify t @ 0 # after) = POk j (0 # after))"
proof -
  obtain t where t: "print_value sc 0 j = Inr t" "renders sc j t"
    using print_value_renders(1) [OF assms, of 0] by auto
  have "cJSON_Parse sc hex (cJSON_Minify t @ 0 # after) = POk j (0 # after)" if ok: "json_ok sc [0x5C] j"
  proof -
    obtain t' where "renders sc j t'" "\<And>rest. cJSON_Minify (t @ rest) = t' @ cJSON_Minify rest"
      using minify_renders(1) [OF t(2) ok] by auto
    from cJSON_Parse_renders [OF this(1), of "[]"] this(2) [of "[]"] show ?thesis by simp
  qed
  then show ?thesis
    using t cJSON_Parse_renders [OF t(2), of "[]" hex after] by (simp add: cJSON_Print_def)
qed

definition demo_request :: json where
  "demo_request = JObject [(cstr ''api'', JString (cstr ''del_app_filter_rule'')),
     (cstr ''data'', JObject [(cstr ''rule_id'', JNumber 3), (cstr ''list'', JArray [JNull, JTrue, JArray []])])]"

theorem json_text_roundtrip_witness:
  "\<exists>t. cJSON_Print False demo_request = Inr t \<and>
     cJSON_Parse False (\<lambda>_. 0) (t @ [0]) = POk demo_request [0] \<and>
     cJSON_Parse False (\<lambda>_. 0) (cJSON_Minify t @ [0]) = POk demo_request [0]"
proof -
  have "json_ok False (cstr ''%'') demo_request" "json_ok False [0x5C] demo_request"
    by (simp_all add: demo_request_def json_string_def json_char_def char_val_def)
  then show ?thesis using json_text_roundtrip [of False demo_request "\<lambda>_. 0" "[]"] by simp
qed

section \<open>Where the parser goes wrong\<close>

text \<open>The sign of a number is read and not used.\<close>

lemma negative_read_back: "cJSON_Parse False (\<lambda>_. 0) (print_number (-5) @ [0]) = POk (JNumber 5) [0]"
  by code_simp

text \<open>
  C40. A \<^verbatim>\<open>\u\<close> escape that runs into the closing quote lets a request overwrite kernel memory. The
  length of the buffer is taken at the quote, but the copy skips four characters and with them the
  quote, so that as many printable bytes as the request likes land behind the buffer, whatever
  \<^verbatim>\<open>sscanf\<close> makes of the escape.
\<close>

theorem json_escape_overflow:
  assumes "list_all (\<lambda>c. char_val sc c > 31 \<and> c \<noteq> 0x22 \<and> c \<noteq> 0x5C) xs" and "4 \<le> length xs"
  shows "cJSON_Parse sc hex ([0x22, 0x5C, 0x75, 0x38, 0x30, 0x30, 0x22] @ xs @ 0 # after) =
    PUb (BufferOverflow ''out'')"
proof -
  have "decode sc hex out (xs @ 0 # after) = POk (out @ xs) (0 # after)" for out
    using assms(1) by (induction xs arbitrary: out) (simp_all add: char_val_ascii)
  then have "decode sc hex [] ([0x5C, 0x75, 0x38, 0x30, 0x30, 0x22] @ xs @ 0 # after) =
      POk (utf8 (hex ([0x38, 0x30, 0x30, 0x22] @ xs @ 0 # after)) @ xs) (0 # after)"
    by (simp add: char_val_ascii)
  moreover have "string_len sc ([0x5C, 0x75, 0x38, 0x30, 0x30, 0x22] @ xs @ 0 # after) 0 = Some 4"
    by (simp add: char_val_ascii)
  moreover have "0 < length (utf8 uc)" for uc
    by (simp add: utf8_def)
  then have "4 < length (utf8 uc) + length xs" for uc
    using add_less_le_mono [OF _ assms(2), of 0] by simp
  ultimately have "parse_string sc hex (0x22 # [0x5C, 0x75, 0x38, 0x30, 0x30, 0x22] @ xs @ 0 # after) =
      PUb (BufferOverflow ''out'')"
    unfolding parse_string_def by (simp add: pbind_def del: string_len.simps decode.simps append.simps)
  then show ?thesis
    by (simp add: cJSON_Parse_def pskip_def skip_def pbind_def char_val_ascii)
qed

theorem json_escape_overflow_witness:
  "cJSON_Parse True (\<lambda>_. 0x800) ([0x22, 0x5C, 0x75, 0x38, 0x30, 0x30, 0x22] @ replicate 5000 0x41 @ [0]) =
     PUb (BufferOverflow ''out'')"
  by (rule json_escape_overflow) (simp_all add: list_all_iff char_val_ascii)

text \<open>
  A NUL does not end the text: it counts as white space. An array that is not closed makes the
  parser read past the end of its buffer, however many NULs follow the last item.
\<close>

theorem json_nul_is_blank:
  assumes "n < 2 ^ 31" and "0 < k"
  shows "cJSON_Parse sc hex (0x5B # nat_dec n @ replicate k 0) = PUb (OverRead ''buf'')"
proof -
  have rd: "renders sc (JNumber (int n)) (nat_dec n)"
    using r_number [of "int n" sc] assms(1) by simp
  obtain c cs where c: "nat_dec n = c # cs" "32 < c" "c < 128" "c \<noteq> 0x5D"
    using renders_head(1) [OF rd] by blast
  have "skip sc (replicate k 0) = []"
    by (simp add: skip_def char_val_ascii)
  moreover have "parse_value sc hex m (nat_dec n @ replicate k 0) = POk (JNumber (int n)) (replicate k 0)"
    if "2 * length (nat_dec n) < m" for m
    by (rule parse_renders(1) [OF rd that]) (use assms(2) in \<open>simp_all add: is_digit_def\<close>)
  ultimately have "parse_items sc hex (Suc m) (nat_dec n @ replicate k 0) = over_read"
    if "2 * length (nat_dec n) < m" for m
    using that by (simp add: pskip_def del: parse_value.simps)
  from this [of "2 * (length (nat_dec n) + k) + 1"] show ?thesis
    using c by (simp add: cJSON_Parse_def parse_value_simps over_read_def pbind_def
        pskip_blanks [where w = "[]", simplified] del: parse_value.simps parse_items.simps)
qed

theorem json_nul_is_blank_witness:
  "cJSON_Parse True (\<lambda>_. 0) (0x5B # nat_dec 17 @ replicate 9000 0) = PUb (OverRead ''buf'')"
  by (rule json_nul_is_blank) simp_all

end
