(* ===== verification/Fwxd_Text.thy ===== *)
theory Fwxd_Text
  imports Fwx_Json_Correct
begin

text \<open>
  The daemon (\<^verbatim>\<open>open-app-filter/src\<close>) and its text: the functions of the C library that it uses on
  text, in the C locale, each with the meaning that the C standard gives it; \<^verbatim>\<open>trim_space\<close> of
  \<^verbatim>\<open>fwx_config.c\<close> and \<^verbatim>\<open>fwx_custom_feature.c\<close>; the result of an operation that may fail with a
  message; and the lemmas by which a number that was printed is read back.
\<close>

section \<open>Results\<close>

text \<open>What \<^verbatim>\<open>set_error\<close> leaves in the error buffer; the second form has a line number.\<close>

datatype error = Error string | ErrorAt string nat

type_synonym 'a res = "error + 'a"

definition res_bind :: "'e + 'a \<Rightarrow> ('a \<Rightarrow> 'e + 'b) \<Rightarrow> 'e + 'b" where
  "res_bind r f = (case r of Inl e \<Rightarrow> Inl e | Inr x \<Rightarrow> f x)"

lemma res_bind_simps [simp]:
  "res_bind (Inl e) f = Inl e" "res_bind (Inr x) f = f x"
  by (simp_all add: res_bind_def)

lemma res_bind_Inr: "res_bind r f = Inr y \<longleftrightarrow> (\<exists>x. r = Inr x \<and> f x = Inr y)"
  by (cases r) auto

text \<open>An operation that returns -1 and leaves the message to its caller.\<close>

definition or_error :: "'a option \<Rightarrow> string \<Rightarrow> 'a res" where
  "or_error r msg = (case r of None \<Rightarrow> Inl (Error msg) | Some x \<Rightarrow> Inr x)"

lemma or_error_simps [simp]:
  "or_error None msg = Inl (Error msg)" "or_error (Some x) msg = Inr x"
  by (simp_all add: or_error_def)

lemma or_error_Inr: "or_error r msg = Inr x \<longleftrightarrow> r = Some x"
  by (cases r) auto

lemma if_Inl_Inr: "(if b then Inl e else r) = Inr x \<longleftrightarrow> \<not> b \<and> r = Inr x"
  by simp

lemmas res_elims = res_bind_Inr or_error_Inr if_Inl_Inr

section \<open>Characters and numbers\<close>

definition isspace_c :: "u8 \<Rightarrow> bool" where
  "isspace_c c \<longleftrightarrow> c = 0x20 \<or> (9 \<le> c \<and> c \<le> 13)"

definition isxdigit_c :: "u8 \<Rightarrow> bool" where
  "isxdigit_c c \<longleftrightarrow> is_digit c \<or> (0x41 \<le> c \<and> c \<le> 0x46) \<or> (0x61 \<le> c \<and> c \<le> 0x66)"

definition xdigit_value :: "u8 \<Rightarrow> int" where
  "xdigit_value c = (if is_digit c then uint c - 0x30 else if c \<le> 0x46 then uint c - 0x37
     else uint c - 0x57)"

definition trim_space :: "bytes \<Rightarrow> bytes" where
  "trim_space s = rev (dropWhile isspace_c (rev (dropWhile isspace_c s)))"

text \<open>
  \<^verbatim>\<open>strtol(s, &end, 10)\<close> with a \<^verbatim>\<open>long\<close> of 64 bits: the number, which saturates, what \<^verbatim>\<open>end\<close> points to,
  and whether \<^verbatim>\<open>errno\<close> is set. With no digits \<^verbatim>\<open>end\<close> is \<^verbatim>\<open>s\<close>.
\<close>

definition strtol_10 :: "bytes \<Rightarrow> int \<times> bytes \<times> bool" where
  "strtol_10 s =
     (let t = dropWhile isspace_c s;
          neg = (case t of c # _ \<Rightarrow> c = 0x2D | [] \<Rightarrow> False);
          ds = (case t of c # cs \<Rightarrow> if c = 0x2D \<or> c = 0x2B then cs else t | [] \<Rightarrow> []);
          n = k_atoi_loop 0 (takeWhile is_digit ds); num = (if neg then - n else n)
      in if takeWhile is_digit ds = [] then (0, s, False)
         else (max (- (2 ^ 63)) (min (2 ^ 63 - 1) num), dropWhile is_digit ds,
           num < - (2 ^ 63) \<or> 2 ^ 63 - 1 < num))"

text \<open>\<^verbatim>\<open>strtoul(s, &end, 16)\<close> of two hexadecimal digits (neither blank, sign nor prefix fits in them).\<close>

definition strtoul_xx :: "bytes \<Rightarrow> int" where
  "strtoul_xx s = foldl (\<lambda>n c. n * 16 + xdigit_value c) 0 s"

definition is_xx :: "bytes \<Rightarrow> bool" where
  "is_xx s \<longleftrightarrow> length s = 2 \<and> list_all isxdigit_c s"

text \<open>\<^verbatim>\<open>%02x\<close> of an \<^verbatim>\<open>unsigned int\<close>; \<^verbatim>\<open>%d\<close> is \<^const>\<open>print_number\<close> of the JSON printer.\<close>

definition xdigit :: "nat \<Rightarrow> u8" where
  "xdigit d = (if d < 10 then word_of_nat (0x30 + d) else word_of_nat (0x57 + d))"

fun nat_hex :: "nat \<Rightarrow> bytes" where
  "nat_hex n = (if n < 16 then [xdigit n] else nat_hex (n div 16) @ [xdigit (n mod 16)])"

declare nat_hex.simps [simp del]

definition print_02x :: "int \<Rightarrow> bytes" where
  "print_02x n = (if n < 16 then 0x30 # nat_hex (nat n) else nat_hex (nat n))"

text \<open>\<^verbatim>\<open>snprintf(buffer, size, ...)\<close> whose result is compared with the size.\<close>

definition snprintf_fits :: "nat \<Rightarrow> bytes \<Rightarrow> bytes option" where
  "snprintf_fits len s = (if length s < len then Some s else None)"

lemma snprintf_fits_Some: "snprintf_fits n s = Some t \<longleftrightarrow> t = s \<and> length s < n"
  by (auto simp: snprintf_fits_def)

section \<open>Numbers read back\<close>

lemma k_atoi_loop_append:
  "list_all is_digit ds \<Longrightarrow> k_atoi_loop n (ds @ rest) = k_atoi_loop (k_atoi_loop n ds) rest"
  by (induction ds arbitrary: n) simp_all

lemma k_atoi_nat_dec: "k_atoi_loop 0 (nat_dec n) = int n"
proof (induction n rule: nat_dec.induct)
  case (1 n)
  show ?case
  proof (cases "n < 10")
    case True
    then show ?thesis by (subst nat_dec.simps) simp
  next
    case False
    moreover have "int (n div 10) * 10 + int (n mod 10) = int n" by (simp add: zdiv_int zmod_int)
    ultimately show ?thesis
      using 1 by (subst nat_dec.simps) (simp add: k_atoi_loop_append nat_dec_digits)
  qed
qed

lemma takeWhile_nat_dec:
  assumes "rest = [] \<or> \<not> is_digit (hd rest)"
  shows "takeWhile is_digit (nat_dec n @ rest) = nat_dec n" "dropWhile is_digit (nat_dec n @ rest) = rest"
  using assms nat_dec_digits [of n] by (cases rest; auto simp: list_all_iff takeWhile_append dropWhile_append)+

lemma digit_not_blank:
  "is_digit c \<Longrightarrow> \<not> isspace_c c \<and> c \<noteq> 0x2D \<and> c \<noteq> 0x2B \<and> \<not> is_space c"
  by (auto simp: is_digit_def isspace_c_def is_space_def word_le_nat_alt)

lemma nat_dec_Cons: obtains c cs where "nat_dec n = c # cs" "is_digit c"
  using nat_dec_digits [of n] by (cases "nat_dec n") auto

lemma strtol_print_number:
  assumes "rest = [] \<or> \<not> is_digit (hd rest)" and "- (2 ^ 31) \<le> n" and "n < 2 ^ 31"
  shows "strtol_10 (print_number n @ rest) = (n, rest, False)"
proof -
  obtain c cs where c: "nat_dec (nat \<bar>n\<bar>) = c # cs" "is_digit c" by (rule nat_dec_Cons)
  note tw = takeWhile_nat_dec [OF assms(1), of "nat \<bar>n\<bar>"] and k = k_atoi_nat_dec [of "nat \<bar>n\<bar>"]
  have m: "\<not> isspace_c 0x2D" by (simp add: isspace_c_def)
  show ?thesis
    using assms(2,3) tw k c digit_not_blank [OF c(2)] m
    by (cases "n < 0") (simp_all add: strtol_10_def print_number_def Let_def)
qed

lemma xdigit_ok:
  assumes "d < 16"
  shows "isxdigit_c (xdigit d)" "xdigit_value (xdigit d) = int d"
proof -
  have "d \<in> set [0..<16]" using assms by simp
  then have "isxdigit_c (xdigit d) \<and> xdigit_value (xdigit d) = int d"
    by (rule list_all_iff [THEN iffD1, rule_format, rotated]) code_simp
  then show "isxdigit_c (xdigit d)" "xdigit_value (xdigit d) = int d" by simp_all
qed

lemma print_02x_two:
  assumes "0 \<le> n" and "n < 256"
  shows "print_02x n = [xdigit (nat n div 16), xdigit (nat n mod 16)]"
proof (cases "n < 16")
  case True
  then have "nat n < 16" using assms by simp
  with True show ?thesis by (simp add: print_02x_def nat_hex.simps [of "nat n"] xdigit_def)
next
  case False
  moreover have "nat n div 16 < 16" using assms by simp
  ultimately show ?thesis
    by (simp add: print_02x_def nat_hex.simps [of "nat n"] nat_hex.simps [of "nat n div 16"])
qed

lemma print_02x_ok:
  assumes "0 \<le> n" and "n < 256"
  shows "is_xx (print_02x n)" "strtoul_xx (print_02x n) = n" "length (print_02x n) = 2"
proof -
  have "nat n div 16 < 16" "nat n mod 16 < 16" using assms by simp_all
  then show "is_xx (print_02x n)" "strtoul_xx (print_02x n) = n" "length (print_02x n) = 2"
    using assms by (simp_all add: print_02x_two xdigit_ok is_xx_def strtoul_xx_def zdiv_int zmod_int)
qed

end
