(* ===== verification/Fwxd_Custom_Feature.thy ===== *)
theory Fwxd_Custom_Feature
  imports Fwxd_Text
begin

text \<open>
  Applications that the user defines (\<^verbatim>\<open>open-app-filter/src/fwx_custom_feature.c\<close>): the checks of a
  feature and of an application, the text of a feature and of an application's line, the allocation of
  ids, the request that sets all applications, and the file that keeps them. Requests are trees of
  the library json-c, whose accessors are parameters; strings in the model are C strings.
\<close>

section \<open>Data\<close>

definition CUSTOM_APP_MIN_SUFFIX :: int where "CUSTOM_APP_MIN_SUFFIX = 900"
definition CUSTOM_APP_MAX_SUFFIX :: int where "CUSTOM_APP_MAX_SUFFIX = 999"
definition CUSTOM_MAX_FEATURES :: nat where "CUSTOM_MAX_FEATURES = 16"
definition CUSTOM_MAX_PAYLOADS :: nat where "CUSTOM_MAX_PAYLOADS = 15"
definition CUSTOM_MAX_FEATURE_TEXT :: nat where "CUSTOM_MAX_FEATURE_TEXT = 127"
definition CUSTOM_MAX_APP_LINE :: nat where "CUSTOM_MAX_APP_LINE = 799"
definition MAX_SUPPORT_APP_NUM :: nat where "MAX_SUPPORT_APP_NUM = 1024"
definition MAX_APP_TYPE :: int where "MAX_APP_TYPE = 16"

lemmas custom_limits = CUSTOM_APP_MIN_SUFFIX_def CUSTOM_APP_MAX_SUFFIX_def CUSTOM_MAX_FEATURES_def
  CUSTOM_MAX_PAYLOADS_def CUSTOM_MAX_FEATURE_TEXT_def CUSTOM_MAX_APP_LINE_def MAX_SUPPORT_APP_NUM_def
  MAX_APP_TYPE_def

record custom_payload =
  cp_position :: int
  cp_value :: int

text \<open>The arrays with their counters are lists.\<close>

record custom_feature =
  cf_protocol :: bytes
  cf_dest_port :: bytes
  cf_domain :: bytes
  cf_uri :: bytes
  cf_payload :: "custom_payload list"

record custom_app =
  ca_appid :: int
  ca_class_id :: int
  ca_name :: bytes
  ca_features :: "custom_feature list"

record custom_config =
  cc_apps :: "custom_app list"
  cc_capacity :: nat

definition config_free :: custom_config where
  "config_free = \<lparr>cc_apps = [], cc_capacity = 0\<rparr>"

text \<open>\<open>ra\<close> says for which capacities \<^verbatim>\<open>realloc\<close> finds memory.\<close>

definition config_add_app :: "(nat \<Rightarrow> bool) \<Rightarrow> custom_config \<Rightarrow> custom_config option" where
  "config_add_app ra config =
     (let app = \<lparr>ca_appid = 0, ca_class_id = 0, ca_name = [], ca_features = []\<rparr> in
      if length (cc_apps config) \<ge> MAX_SUPPORT_APP_NUM then None
      else if length (cc_apps config) = cc_capacity config then
        (let capacity = min (if cc_capacity config \<noteq> 0 then cc_capacity config * 2 else 16) MAX_SUPPORT_APP_NUM
         in if ra capacity then Some (config\<lparr>cc_apps := cc_apps config @ [app], cc_capacity := capacity\<rparr>)
            else None)
      else Some (config\<lparr>cc_apps := cc_apps config @ [app]\<rparr>))"

section \<open>Classes, characters, ports\<close>

definition fallback_classes :: "(int \<times> bytes) list" where
  "fallback_classes = [(1, cstr ''Chat''), (2, cstr ''Game''), (3, cstr ''Video''), (4, cstr ''Shopping''),
     (5, cstr ''Music'')]"

text \<open>\<open>classes\<close> is \<^verbatim>\<open>CLASS_NAME_TABLE\<close>, 16 names, empty where there is no class.\<close>

definition has_builtin_classes :: "bytes list \<Rightarrow> bool" where
  "has_builtin_classes classes \<longleftrightarrow> list_ex (\<lambda>name. name \<noteq> []) classes"

definition class_is_available :: "bytes list \<Rightarrow> int \<Rightarrow> bool" where
  "class_is_available classes class_id =
     (if has_builtin_classes classes
      then class_id \<ge> 1 \<and> class_id \<le> MAX_APP_TYPE \<and> classes ! nat (class_id - 1) \<noteq> []
      else list_ex (\<lambda>c. fst c = class_id) fallback_classes)"

definition has_forbidden_text_char :: "bytes \<Rightarrow> bool \<Rightarrow> bool" where
  "has_forbidden_text_char text_in app_name \<longleftrightarrow>
     list_ex (\<lambda>c. (\<not> app_name \<and> isspace_c c) \<or>
       c \<in> set (if app_name then cstr '':~[];,'' else cstr '';,[]'')) text_in"

definition parse_integer :: "bytes \<Rightarrow> int \<Rightarrow> int \<Rightarrow> int option" where
  "parse_integer s minimum maximum =
     (if s = [] then None
      else case strtol_10 s of (number, rest, errno) \<Rightarrow>
        if errno \<or> rest \<noteq> [] \<or> number < minimum \<or> number > maximum then None else Some number)"

text \<open>A port, or two with a dash; the output has 16 bytes in every call.\<close>

definition normalize_dest_port :: "bytes \<Rightarrow> bytes option" where
  "normalize_dest_port s =
     (if s = [] then Some []
      else if length s \<ge> 16 then None
      else
        let front = takeWhile (\<lambda>c. c \<noteq> 0x2D) s; back = tl (dropWhile (\<lambda>c. c \<noteq> 0x2D) s)
        in if 0x2D \<notin> set s then
             (case parse_integer s 1 65535 of
                None \<Rightarrow> None | Some start \<Rightarrow> snprintf_fits 16 (print_number start))
           else if 0x2D \<in> set back then None
           else (case (parse_integer front 1 65535, parse_integer back 1 65535) of
               (Some start, Some end') \<Rightarrow>
                 if start > end' then None
                 else snprintf_fits 16 (print_number start @ 0x2D # print_number end')
             | _ \<Rightarrow> None))"

text \<open>Exactly \<open>n\<close> fields between the delimiters.\<close>

fun split_exact :: "bytes \<Rightarrow> u8 \<Rightarrow> nat \<Rightarrow> bytes list option" where
  "split_exact s delimiter 0 = None"
| "split_exact s delimiter (Suc 0) = (if delimiter \<in> set s then None else Some [s])"
| "split_exact s delimiter (Suc (Suc n)) =
     (if delimiter \<notin> set s then None
      else map_option (\<lambda>fields. takeWhile (\<lambda>c. c \<noteq> delimiter) s # fields)
        (split_exact (tl (dropWhile (\<lambda>c. c \<noteq> delimiter) s)) delimiter (Suc n)))"

section \<open>Features\<close>

text \<open>One item \<^verbatim>\<open>position:xx\<close>. An empty position is 0: \<^verbatim>\<open>strtol\<close> stops at its end.\<close>

definition parse_payload_item :: "bytes \<Rightarrow> custom_payload option" where
  "parse_payload_item item =
     (let front = takeWhile (\<lambda>c. c \<noteq> 0x3A) item; back = tl (dropWhile (\<lambda>c. c \<noteq> 0x3A) item) in
      if 0x3A \<notin> set item \<or> 0x3A \<in> set back then None
      else case strtol_10 front of (position, rest, errno) \<Rightarrow>
        if errno \<or> rest \<noteq> [] \<or> position < - (2 ^ 31) \<or> position \<ge> 2 ^ 31 then None
        else if \<not> is_xx back then None
        else Some \<lparr>cp_position = position, cp_value = strtoul_xx back\<rparr>)"

text \<open>The loop ends with the text: a bar that is followed by nothing leaves an empty rest.\<close>

function payload_items :: "bytes \<Rightarrow> custom_payload list \<Rightarrow> custom_payload list option" where
  "payload_items s acc =
     (if s = [] then Some acc
      else if length acc \<ge> CUSTOM_MAX_PAYLOADS then None
      else let item = takeWhile (\<lambda>c. c \<noteq> 0x7C) s in
        (case parse_payload_item item of
           None \<Rightarrow> None
         | Some p \<Rightarrow> payload_items (drop (Suc (length item)) s) (acc @ [p])))"
  by pat_completeness auto
termination by (relation "measure (length \<circ> fst)") auto

declare payload_items.simps [simp del]

definition parse_payload_text :: "bytes \<Rightarrow> custom_payload list option" where
  "parse_payload_text s = (if s \<noteq> [] \<and> last s = 0x7C then None else payload_items s [])"

definition validate_feature :: "custom_feature \<Rightarrow> custom_feature res" where
  "validate_feature feature =
     (if cf_protocol feature \<noteq> cstr ''tcp'' \<and> cf_protocol feature \<noteq> cstr ''udp''
      then Inl (Error ''protocol must be tcp or udp'')
      else res_bind (or_error (normalize_dest_port (cf_dest_port feature)) ''dest_port is invalid'') (\<lambda>port.
        if length (cf_domain feature) > 31 \<or> has_forbidden_text_char (cf_domain feature) False
        then Inl (Error ''domain is invalid'')
        else if length (cf_uri feature) > 63 \<or> has_forbidden_text_char (cf_uri feature) False
        then Inl (Error ''uri is invalid'')
        else if port = [] \<and> cf_domain feature = [] \<and> cf_uri feature = [] \<and> cf_payload feature = []
        then Inl (Error ''feature match fields are empty'')
        else Inr (feature\<lparr>cf_dest_port := port\<rparr>)))"

text \<open>\<^verbatim>\<open>tolower\<close> in the C locale is the one of the JSON names.\<close>

definition parse_feature_text :: "bytes \<Rightarrow> custom_feature res" where
  "parse_feature_text s =
     (if s = [] \<or> length s > CUSTOM_MAX_FEATURE_TEXT then Inl (Error ''feature text is too long'')
      else case split_exact s 0x3B 6 of
        Some [proto, blank, port, domain, uri, items] \<Rightarrow>
          if blank \<noteq> [] then Inl (Error ''feature field format is invalid'')
          else if length proto \<noteq> 3 then Inl (Error ''protocol is invalid'')
          else res_bind (or_error (normalize_dest_port port) ''dest_port is invalid'') (\<lambda>dest_port.
            if length domain \<ge> 32 \<or> length uri \<ge> 64 then Inl (Error ''domain or uri is too long'')
            else res_bind (or_error (parse_payload_text items) ''payload format is invalid'') (\<lambda>pls.
              validate_feature \<lparr>cf_protocol = map tolower_ascii proto, cf_dest_port = dest_port,
                cf_domain = domain, cf_uri = uri, cf_payload = pls\<rparr>))
      | _ \<Rightarrow> Inl (Error ''feature field format is invalid''))"

definition payload_text :: "custom_payload \<Rightarrow> bytes" where
  "payload_text p = print_number (cp_position p) @ 0x3A # print_02x (cp_value p)"

text \<open>The loop that appends to the \<open>buffer\<close> of \<open>len\<close> bytes; all texts but the first get \<open>sep\<close> before them.\<close>

fun append_texts :: "nat \<Rightarrow> bytes \<Rightarrow> bytes \<Rightarrow> nat \<Rightarrow> bytes list \<Rightarrow> bytes option" where
  "append_texts len sep buffer i [] = Some buffer"
| "append_texts len sep buffer i (t # ts) =
     Option.bind (snprintf_fits (len - length buffer) ((if i = 0 then [] else sep) @ t)) (\<lambda>written.
       append_texts len sep (buffer @ written) (Suc i) ts)"

definition feature_to_text :: "custom_feature \<Rightarrow> nat \<Rightarrow> bytes option" where
  "feature_to_text feature len =
     Option.bind (snprintf_fits len (cf_protocol feature @ cstr '';;'' @ cf_dest_port feature @ cstr '';'' @
         cf_domain feature @ cstr '';'' @ cf_uri feature @ cstr '';'')) (\<lambda>buffer.
       Option.bind (append_texts len (cstr ''|'') buffer 0 (map payload_text (cf_payload feature))) (\<lambda>buffer.
         if length buffer \<le> CUSTOM_MAX_FEATURE_TEXT then Some buffer else None))"

section \<open>Applications\<close>

fun feature_texts :: "custom_feature list \<Rightarrow> bytes list option" where
  "feature_texts [] = Some []"
| "feature_texts (f # fs) = Option.bind (feature_to_text f (CUSTOM_MAX_FEATURE_TEXT + 1)) (\<lambda>t.
     map_option (\<lambda>ts. t # ts) (feature_texts fs))"

definition app_to_line :: "custom_app \<Rightarrow> nat \<Rightarrow> bytes option" where
  "app_to_line app len =
     Option.bind (snprintf_fits len (print_number (ca_appid app) @ cstr ''~'' @ ca_name app @ cstr '':['')) (\<lambda>line.
       Option.bind (feature_texts (ca_features app)) (\<lambda>ts.
         Option.bind (append_texts len (cstr '','') line 0 ts) (\<lambda>line.
           if length line + 1 > CUSTOM_MAX_APP_LINE then None else Some (line @ cstr '']''))))"

text \<open>\<open>others\<close> are the applications before it.\<close>

definition validate_app_identity :: "bytes list \<Rightarrow> custom_app list \<Rightarrow> custom_app \<Rightarrow> unit res" where
  "validate_app_identity classes others app =
     (let suffix = ca_appid app - ca_class_id app * 1000 in
      if \<not> class_is_available classes (ca_class_id app) then Inl (Error ''class_id is invalid'')
      else if ca_name app = [] \<or> length (ca_name app) > 63 \<or> has_forbidden_text_char (ca_name app) True
      then Inl (Error ''application name is invalid'')
      else if ca_appid app \<noteq> 0 \<and> (suffix < CUSTOM_APP_MIN_SUFFIX \<or> suffix > CUSTOM_APP_MAX_SUFFIX)
      then Inl (Error ''appid is outside the custom range'')
      else if list_ex (\<lambda>o'. ca_name o' = ca_name app \<or> (ca_appid app \<noteq> 0 \<and> ca_appid o' = ca_appid app)) others
      then Inl (Error ''appid or application name is duplicated'')
      else Inr ())"

definition app_compare :: "custom_app \<Rightarrow> custom_app \<Rightarrow> int" where
  "app_compare a b = (if ca_class_id a \<noteq> ca_class_id b then ca_class_id a - ca_class_id b
     else ca_appid a - ca_appid b)"

text \<open>\<^verbatim>\<open>qsort(apps, count, sizeof(*apps), app_compare)\<close>, as an insertion sort.\<close>

fun insert_app :: "custom_app \<Rightarrow> custom_app list \<Rightarrow> custom_app list" where
  "insert_app a [] = [a]"
| "insert_app a (b # bs) = (if app_compare a b \<le> 0 then a # b # bs else b # insert_app a bs)"

definition qsort_apps :: "custom_app list \<Rightarrow> custom_app list" where
  "qsort_apps apps = foldr insert_app apps []"

text \<open>
  The two loops of \<^verbatim>\<open>allocate_appids\<close>. The table \<^verbatim>\<open>used[class_id][suffix - 900]\<close> is the list of its entries
  that are set, as pairs of class and suffix.
\<close>

fun mark_used :: "custom_app list \<Rightarrow> (int \<times> int) list \<Rightarrow> (int \<times> int) list res" where
  "mark_used [] used = Inr used"
| "mark_used (a # apps) used =
     (if ca_appid a = 0 then mark_used apps used
      else if (ca_class_id a, ca_appid a mod 1000) \<in> set used then Inl (Error ''appid is duplicated'')
      else mark_used apps ((ca_class_id a, ca_appid a mod 1000) # used))"

fun give_ids :: "custom_app list \<Rightarrow> (int \<times> int) list \<Rightarrow> custom_app list res" where
  "give_ids [] used = Inr []"
| "give_ids (a # apps) used =
     (if ca_appid a \<noteq> 0 then res_bind (give_ids apps used) (\<lambda>apps. Inr (a # apps))
      else case find (\<lambda>suffix. (ca_class_id a, suffix) \<notin> set used)
          [CUSTOM_APP_MIN_SUFFIX..CUSTOM_APP_MAX_SUFFIX] of
        None \<Rightarrow> Inl (Error ''custom appid range is full'')
      | Some suffix \<Rightarrow> res_bind (give_ids apps ((ca_class_id a, suffix) # used)) (\<lambda>apps.
          Inr (a\<lparr>ca_appid := ca_class_id a * 1000 + suffix\<rparr> # apps)))"

definition allocate_appids :: "custom_config \<Rightarrow> custom_config res" where
  "allocate_appids config = res_bind (mark_used (cc_apps config) []) (\<lambda>used.
     res_bind (give_ids (cc_apps config) used) (\<lambda>apps. Inr (config\<lparr>cc_apps := qsort_apps apps\<rparr>)))"

section \<open>The request\<close>

text \<open>
  The accessors of json-c that the code calls, on values of any type; \<^verbatim>\<open>NULL\<close>, which stands for the JSON
  value null, is a value of type \<open>Json_null\<close>. A string is given with its length, and the code takes what
  is before the first NUL.
\<close>

datatype json_type = Json_null | Json_boolean | Json_double | Json_int | Json_object | Json_array | Json_string

record 'j json_c =
  json_object_get_type :: "'j \<Rightarrow> json_type"
  json_object_object_get :: "'j \<Rightarrow> bytes \<Rightarrow> 'j option"
  json_object_array_length :: "'j \<Rightarrow> nat"
  json_object_array_get_idx :: "'j \<Rightarrow> nat \<Rightarrow> 'j"
  json_object_get_int64 :: "'j \<Rightarrow> int"
  json_object_get_int :: "'j \<Rightarrow> int"
  json_object_get_string :: "'j \<Rightarrow> bytes"

definition array_items :: "'j json_c \<Rightarrow> 'j \<Rightarrow> 'j list" where
  "array_items jc array = map (json_object_array_get_idx jc array) [0..<json_object_array_length jc array]"

text \<open>The member \<open>key\<close> when it is there and has the type.\<close>

definition get_typed :: "'j json_c \<Rightarrow> 'j \<Rightarrow> string \<Rightarrow> json_type \<Rightarrow> 'j option" where
  "get_typed jc object key ty = (case json_object_object_get jc object (cstr key) of
      None \<Rightarrow> None
    | Some v \<Rightarrow> if json_object_get_type jc v = ty then Some v else None)"

definition payload_json_item :: "'j json_c \<Rightarrow> 'j \<Rightarrow> custom_payload res" where
  "payload_json_item jc item =
     (if json_object_get_type jc item \<noteq> Json_object then Inl (Error ''payload item is invalid'')
      else res_bind (or_error (get_typed jc item ''position'' Json_int) ''payload item is invalid'') (\<lambda>position_obj.
        res_bind (or_error (get_typed jc item ''value'' Json_string) ''payload item is invalid'') (\<lambda>value_obj.
          let position = json_object_get_int64 jc position_obj;
              value_text = c_string (json_object_get_string jc value_obj)
          in if position < - (2 ^ 31) \<or> position \<ge> 2 ^ 31 \<or> \<not> is_xx value_text
             then Inl (Error ''payload position or value is invalid'')
             else Inr \<lparr>cp_position = position, cp_value = strtoul_xx value_text\<rparr>)))"

fun map_res :: "('a \<Rightarrow> 'b res) \<Rightarrow> 'a list \<Rightarrow> 'b list res" where
  "map_res f [] = Inr []"
| "map_res f (x # xs) = res_bind (f x) (\<lambda>y. res_bind (map_res f xs) (\<lambda>ys. Inr (y # ys)))"

definition parse_payload_json :: "'j json_c \<Rightarrow> 'j \<Rightarrow> custom_payload list res" where
  "parse_payload_json jc array =
     (if json_object_get_type jc array = Json_null then Inr []
      else if json_object_get_type jc array \<noteq> Json_array \<or>
          json_object_array_length jc array > CUSTOM_MAX_PAYLOADS then Inl (Error ''payload is invalid'')
      else map_res (payload_json_item jc) (array_items jc array))"

definition json_dest_port :: "'j json_c \<Rightarrow> 'j \<Rightarrow> bytes res" where
  "json_dest_port jc v =
     (if json_object_get_type jc v = Json_int then
        (let port = json_object_get_int64 jc v in
         if port < 0 \<or> port > 65535 \<or> (port > 0 \<and> snprintf_fits 16 (print_number port) = None)
         then Inl (Error ''dest_port is invalid'')
         else Inr (if port > 0 then print_number port else []))
      else if json_object_get_type jc v = Json_string then
        or_error (normalize_dest_port (c_string (json_object_get_string jc v))) ''dest_port is invalid''
      else Inl (Error ''dest_port is invalid''))"

text \<open>A text member, empty when it is not there; \<open>limit\<close> is compared with the length that has NULs in it.\<close>

definition json_text :: "'j json_c \<Rightarrow> 'j \<Rightarrow> string \<Rightarrow> nat \<Rightarrow> string \<Rightarrow> bytes res" where
  "json_text jc object key limit msg = (case json_object_object_get jc object (cstr key) of
      None \<Rightarrow> Inr []
    | Some v \<Rightarrow>
        if json_object_get_type jc v \<noteq> Json_string \<or> length (json_object_get_string jc v) > limit
        then Inl (Error msg) else Inr (c_string (json_object_get_string jc v)))"

definition parse_feature_json :: "'j json_c \<Rightarrow> 'j \<Rightarrow> custom_feature res" where
  "parse_feature_json jc object =
     (if json_object_get_type jc object \<noteq> Json_object then Inl (Error ''protocol is required'')
      else res_bind (or_error (get_typed jc object ''protocol'' Json_string) ''protocol is required'') (\<lambda>v.
        let proto = c_string (json_object_get_string jc v) in
        if length proto \<noteq> 3 then Inl (Error ''protocol is invalid'')
        else
          res_bind (case json_object_object_get jc object (cstr ''dest_port'') of
            None \<Rightarrow> Inr [] | Some v \<Rightarrow> json_dest_port jc v) (\<lambda>dest_port.
          res_bind (json_text jc object ''domain'' 31 ''domain is invalid'') (\<lambda>domain.
          res_bind (json_text jc object ''uri'' 63 ''uri is invalid'') (\<lambda>uri.
          res_bind (case json_object_object_get jc object (cstr ''payload'') of
            None \<Rightarrow> Inr [] | Some v \<Rightarrow> parse_payload_json jc v) (\<lambda>pls.
            validate_feature \<lparr>cf_protocol = map tolower_ascii proto, cf_dest_port = dest_port,
              cf_domain = domain, cf_uri = uri, cf_payload = pls\<rparr>))))))"

definition json_appid :: "'j json_c \<Rightarrow> 'j \<Rightarrow> int res" where
  "json_appid jc item = (case json_object_object_get jc item (cstr ''appid'') of
      None \<Rightarrow> Inr 0
    | Some v \<Rightarrow>
        if json_object_get_type jc v \<noteq> Json_int \<or> json_object_get_int64 jc v < 0 \<or>
          json_object_get_int64 jc v > INT_MAX then Inl (Error ''application item is invalid'')
        else Inr (json_object_get_int64 jc v))"

text \<open>One application of the request; \<open>others\<close> are those before it.\<close>

definition parse_app_json :: "'j json_c \<Rightarrow> bytes list \<Rightarrow> custom_app list \<Rightarrow> 'j \<Rightarrow> custom_app res" where
  "parse_app_json jc classes others item =
     (let invalid_app = ''application item is invalid''; invalid_features = ''features must contain 1 to 16 items'' in
      if json_object_get_type jc item \<noteq> Json_object then Inl (Error invalid_app)
      else res_bind (json_appid jc item) (\<lambda>appid.
        res_bind (or_error (get_typed jc item ''class_id'' Json_int) invalid_app) (\<lambda>class_v.
        res_bind (or_error (get_typed jc item ''name'' Json_string) invalid_app) (\<lambda>name_v.
        if length (json_object_get_string jc name_v) > 63 then Inl (Error invalid_app)
        else
          let app = \<lparr>ca_appid = appid, ca_class_id = json_object_get_int jc class_v,
                ca_name = trim_space (c_string (json_object_get_string jc name_v)), ca_features = []\<rparr> in
          res_bind (validate_app_identity classes others app) (\<lambda>_.
          res_bind (or_error (get_typed jc item ''features'' Json_array) invalid_features) (\<lambda>features.
          if json_object_array_length jc features < 1 \<or>
            json_object_array_length jc features > CUSTOM_MAX_FEATURES then Inl (Error invalid_features)
          else res_bind (map_res (parse_feature_json jc) (array_items jc features)) (\<lambda>fs.
            Inr (app\<lparr>ca_features := fs\<rparr>))))))))"

fun json_apps ::
  "(nat \<Rightarrow> bool) \<Rightarrow> 'j json_c \<Rightarrow> bytes list \<Rightarrow> 'j list \<Rightarrow> custom_config \<Rightarrow> custom_config res" where
  "json_apps ra jc classes [] config = Inr config"
| "json_apps ra jc classes (item # items) config =
     res_bind (or_error (config_add_app ra config) ''application item is invalid'') (\<lambda>added.
       res_bind (parse_app_json jc classes (cc_apps config) item) (\<lambda>app.
         json_apps ra jc classes items (added\<lparr>cc_apps := cc_apps config @ [app]\<rparr>)))"

text \<open>\<open>base\<close> is \<^verbatim>\<open>get_base_app_count()\<close>.\<close>

definition config_from_json ::
  "(nat \<Rightarrow> bool) \<Rightarrow> 'j json_c \<Rightarrow> bytes list \<Rightarrow> nat \<Rightarrow> 'j \<Rightarrow> custom_config res" where
  "config_from_json ra jc classes base request =
     (if json_object_get_type jc request \<noteq> Json_object then Inl (Error ''app_list is required'')
      else res_bind (or_error (get_typed jc request ''app_list'' Json_array) ''app_list is required'') (\<lambda>app_list.
        res_bind (json_apps ra jc classes (array_items jc app_list) config_free) (\<lambda>config.
        if base + length (cc_apps config) > MAX_SUPPORT_APP_NUM
        then Inl (Error ''application table capacity is exceeded'')
        else res_bind (allocate_appids config) (\<lambda>config.
          if list_ex (\<lambda>app. app_to_line app (CUSTOM_MAX_APP_LINE + 2) = None) (cc_apps config)
          then Inl (Error ''serialized application line is too long'') else Inr config))))"

section \<open>The file\<close>

text \<open>\<^verbatim>\<open>strstr(line, ":[")\<close>: what is before it and what is after it.\<close>

fun strstr_open :: "bytes \<Rightarrow> (bytes \<times> bytes) option" where
  "strstr_open [] = None"
| "strstr_open (c # cs) =
     (if c = 0x3A \<and> take 1 cs = [0x5B] then Some ([], drop 1 cs)
      else map_option (\<lambda>(front, back). (c # front, back)) (strstr_open cs))"

text \<open>The loop over the features of a line, with those parsed so far.\<close>

function feature_items :: "bytes \<Rightarrow> custom_feature list \<Rightarrow> custom_feature list res" where
  "feature_items s acc =
     (if s = [] then Inr acc
      else if length acc \<ge> CUSTOM_MAX_FEATURES then Inl (Error ''features must contain 1 to 16 items'')
      else let item = takeWhile (\<lambda>c. c \<noteq> 0x2C) s in
        res_bind (parse_feature_text item) (\<lambda>f. feature_items (drop (Suc (length item)) s) (acc @ [f])))"
  by pat_completeness auto
termination by (relation "measure (length \<circ> fst)") auto

declare feature_items.simps [simp del]

text \<open>The last closing bracket must end the line.\<close>

definition parse_app_line :: "(nat \<Rightarrow> bool) \<Rightarrow> bytes list \<Rightarrow> bytes \<Rightarrow> custom_config \<Rightarrow> custom_config res" where
  "parse_app_line ra classes line config =
     (let invalid = Inl (Error ''custom feature line is invalid'') in
      case strstr_open line of
        None \<Rightarrow> invalid
      | Some (header, rest) \<Rightarrow>
          if length line > CUSTOM_MAX_APP_LINE \<or> rest = [] \<or> last rest \<noteq> 0x5D then invalid
          else (case config_add_app ra config of
              None \<Rightarrow> invalid
            | Some added \<Rightarrow>
                if 0x7E \<notin> set header then invalid
                else
                  let id_text = trim_space (takeWhile (\<lambda>c. c \<noteq> 0x7E) header);
                      name_text = trim_space (tl (dropWhile (\<lambda>c. c \<noteq> 0x7E) header)) in
                  if id_text = [] \<or> name_text = [] then invalid
                  else (case strtol_10 id_text of (appid, endptr, _) \<Rightarrow>
                    if appid \<le> 0 \<or> appid > INT_MAX \<or> trim_space endptr \<noteq> [] \<or> length name_text \<ge> 64 then invalid
                    else
                      let app = \<lparr>ca_appid = appid, ca_class_id = appid div 1000, ca_name = name_text,
                            ca_features = []\<rparr>; body = butlast rest in
                      res_bind (validate_app_identity classes (cc_apps config) app) (\<lambda>_.
                      if body = [] \<or> last body = 0x2C then Inl (Error ''features must contain 1 to 16 items'')
                      else res_bind (feature_items body []) (\<lambda>fs.
                        if fs = [] then Inl (Error ''features must contain 1 to 16 items'')
                        else Inr (added\<lparr>cc_apps := cc_apps config @ [app\<lparr>ca_features := fs\<rparr>]\<rparr>))))))"

text \<open>
  The file of the applications: it is not there, cannot be opened, or has a content, after which
  \<^verbatim>\<open>ferror\<close> may hold.
\<close>

datatype custom_file = NoFile | NotOpened | Content bytes bool

definition strip_line_end :: "bytes \<Rightarrow> bytes" where
  "strip_line_end s = rev (dropWhile (\<lambda>c. c = 0x0A \<or> c = 0x0D) (rev s))"

text \<open>
  \<^verbatim>\<open>fgets(line, 1024, file)\<close> on the bytes that are left: the bytes it takes, and whether it met the end
  of the file.
\<close>

definition fgets_1024 :: "bytes \<Rightarrow> bytes \<times> bool" where
  "fgets_1024 rest =
     (let l = takeWhile (\<lambda>c. c \<noteq> 0x0A) rest in
      if length l \<ge> 1023 then (take 1023 rest, False)
      else if length l < length rest then (l @ [0x0A], False) else (l, True))"

function read_lines ::
  "(nat \<Rightarrow> bool) \<Rightarrow> bytes list \<Rightarrow> bytes \<Rightarrow> nat \<Rightarrow> custom_config \<Rightarrow> custom_config res" where
  "read_lines ra classes rest line_number config =
     (if rest = [] then Inr config
      else case fgets_1024 rest of (got, eof) \<Rightarrow>
        let line = c_string got; rest' = drop (length got) rest; stripped = strip_line_end line in
        if line \<noteq> [] \<and> last line \<noteq> 0x0A \<and> \<not> eof
        then Inl (ErrorAt ''invalid custom feature file at line'' (Suc line_number))
        else if stripped = [] \<or> take 7 stripped = cstr ''#class ''
        then read_lines ra classes rest' (Suc line_number) config
        else res_bind (parse_app_line ra classes stripped config)
          (read_lines ra classes rest' (Suc line_number)))"
  by pat_completeness auto
termination
proof (relation "measure (\<lambda>(_, _, rest, _, _). length rest)"; clarsimp)
qed (auto simp: fgets_1024_def Let_def split: if_splits)

declare read_lines.simps [simp del]

definition config_read_file ::
  "(nat \<Rightarrow> bool) \<Rightarrow> bytes list \<Rightarrow> nat \<Rightarrow> custom_file \<Rightarrow> custom_config \<Rightarrow> custom_config res" where
  "config_read_file ra classes base file_in config = (case file_in of
      NoFile \<Rightarrow> Inr config
    | NotOpened \<Rightarrow> Inl (Error ''failed to open custom feature file'')
    | Content bs ferror \<Rightarrow> res_bind (read_lines ra classes bs 0 config) (\<lambda>config.
        if ferror then Inl (Error ''failed to read custom feature file'')
        else if base + length (cc_apps config) > MAX_SUPPORT_APP_NUM
        then Inl (Error ''application table capacity is exceeded'')
        else Inr (config\<lparr>cc_apps := qsort_apps (cc_apps config)\<rparr>)))"

text \<open>Which calls on the temporary file succeed, \<open>io_print\<close> by the number of the line.\<close>

record file_io =
  io_open :: bool
  io_print :: "nat \<Rightarrow> bool"
  io_flush :: bool
  io_fsync :: bool
  io_close :: bool
  io_chmod :: bool
  io_rename :: bool

fun lines_written :: "(nat \<Rightarrow> bool) \<Rightarrow> nat \<Rightarrow> custom_app list \<Rightarrow> bytes option" where
  "lines_written ok i [] = Some []"
| "lines_written ok i (app # apps) =
     Option.bind (app_to_line app (CUSTOM_MAX_APP_LINE + 2)) (\<lambda>line.
       if ok i then map_option (\<lambda>ls. line @ 0x0A # ls) (lines_written ok (Suc i) apps) else None)"

text \<open>The second component is the file at its path afterwards, \<open>file_in\<close> before.\<close>

definition config_write_file ::
  "file_io \<Rightarrow> custom_config \<Rightarrow> custom_file \<Rightarrow> unit res \<times> custom_file" where
  "config_write_file io config file_in =
     (if \<not> io_open io then (Inl (Error ''failed to create temporary custom feature file''), file_in)
      else (case lines_written (io_print io) 0 (cc_apps config) of
          Some ls \<Rightarrow>
            if io_flush io \<and> io_fsync io \<and> io_close io \<and> io_chmod io \<and> io_rename io
            then (Inr (), Content ls False)
            else (Inl (Error ''failed to save custom feature file''), file_in)
        | None \<Rightarrow> (Inl (Error ''failed to save custom feature file''), file_in)))"

section \<open>Answers\<close>

text \<open>The trees that the code builds with json-c. \<open>icon\<close> is \<^verbatim>\<open>app_icon_exists_by_id\<close>.\<close>

definition feature_to_json :: "custom_feature \<Rightarrow> json" where
  "feature_to_json f = JObject
     [(cstr ''protocol'', JString (cf_protocol f)), (cstr ''dest_port'', JString (cf_dest_port f)),
      (cstr ''domain'', JString (cf_domain f)), (cstr ''uri'', JString (cf_uri f)),
      (cstr ''payload'', JArray (map (\<lambda>p. JObject
         [(cstr ''position'', JNumber (cp_position p)), (cstr ''value'', JString (take 2 (print_02x (cp_value p))))])
         (cf_payload f)))]"

definition config_to_data :: "(int \<Rightarrow> bool) \<Rightarrow> custom_config \<Rightarrow> json" where
  "config_to_data icon config = JObject [(cstr ''app_list'', JArray (map (\<lambda>app. JObject
     ([(cstr ''appid'', JNumber (ca_appid app))] @
      (if icon (ca_appid app) then [] else [(cstr ''icon'', JNumber 0)]) @
      [(cstr ''class_id'', JNumber (ca_class_id app)), (cstr ''name'', JString (ca_name app)),
       (cstr ''features'', JArray (map feature_to_json (ca_features app)))])) (cc_apps config)))]"

definition add_class_json :: "int \<times> bytes \<Rightarrow> json" where
  "add_class_json c = JObject [(cstr ''class_id'', JNumber (fst c)), (cstr ''class_name'', JString (snd c))]"

definition class_list_to_data :: "bytes list \<Rightarrow> json" where
  "class_list_to_data classes = JObject [(cstr ''class_list'', JArray (map add_class_json
     (if has_builtin_classes classes
      then filter (\<lambda>c. snd c \<noteq> []) (map (\<lambda>i. (int i + 1, classes ! i)) [0..<nat MAX_APP_TYPE])
      else fallback_classes)))]"

end
