(* ===== verification/Fwxd_Feature.thy ===== *)
theory Fwxd_Feature
  imports Fwxd_Text
begin

text \<open>
  The feature file of the daemon (\<^verbatim>\<open>open-app-filter/src/fwx_feature.c\<close>): a header of 24 bytes, then the
  features enciphered with XTEA in counter mode, with a CRC of the plain text in the header. The file
  is read at start; a candidate that was downloaded is checked and put in its place, after a
  backup. The results of the calls on files and of \<^verbatim>\<open>malloc\<close> are parameters.
\<close>

section \<open>Little-endian numbers\<close>

definition get_le16 :: "bytes \<Rightarrow> u16" where
  "get_le16 p = ucast (p ! 0) OR push_bit 8 (ucast (p ! 1))"

definition get_le32 :: "bytes \<Rightarrow> u32" where
  "get_le32 p = ucast (p ! 0) OR push_bit 8 (ucast (p ! 1)) OR push_bit 16 (ucast (p ! 2)) OR
     push_bit 24 (ucast (p ! 3))"

definition get_le64 :: "bytes \<Rightarrow> u64" where
  "get_le64 p = ucast (get_le32 p) OR push_bit 32 (ucast (get_le32 (drop 4 p)))"

definition put_le16 :: "u16 \<Rightarrow> bytes" where
  "put_le16 value_in = [ucast value_in, ucast (drop_bit 8 value_in)]"

definition put_le32 :: "u32 \<Rightarrow> bytes" where
  "put_le32 value_in = [ucast value_in, ucast (drop_bit 8 value_in), ucast (drop_bit 16 value_in),
     ucast (drop_bit 24 value_in)]"

definition put_le64 :: "u64 \<Rightarrow> bytes" where
  "put_le64 value_in = put_le32 (ucast value_in) @ put_le32 (ucast (drop_bit 32 value_in))"

section \<open>The check sum\<close>

definition crc_bit :: "u32 \<Rightarrow> u32" where
  "crc_bit crc = drop_bit 1 crc XOR (0xedb88320 AND (0 - (crc AND 1)))"

definition crc_byte :: "u32 \<Rightarrow> u8 \<Rightarrow> u32" where
  "crc_byte crc b = (crc_bit ^^ 8) (crc XOR ucast b)"

definition feature_crc32 :: "bytes \<Rightarrow> u32" where
  "feature_crc32 data = NOT (foldl crc_byte 0xffffffff data)"

section \<open>The cipher\<close>

definition feature_key :: "u32 list" where
  "feature_key = [0x8f4c29a1, 0x73b6d502, 0xc14e87f3, 0x2ad95b60]"

definition delta :: u32 where "delta = 0x9e3779b9"

definition xtea_mix :: "u32 \<Rightarrow> u32 \<Rightarrow> u32" where
  "xtea_mix v k = ((push_bit 4 v XOR drop_bit 5 v) + v) XOR k"

definition xtea_round :: "u32 \<times> u32 \<times> u32 \<Rightarrow> u32 \<times> u32 \<times> u32" where
  "xtea_round s = (case s of (v0, v1, sm) \<Rightarrow>
     let v0 = v0 + xtea_mix v1 (sm + feature_key ! unat (sm AND 3));
         sm = sm + delta;
         v1 = v1 + xtea_mix v0 (sm + feature_key ! unat (drop_bit 11 sm AND 3))
     in (v0, v1, sm))"

definition xtea_encrypt_block :: "u32 \<times> u32 \<Rightarrow> u32 \<times> u32" where
  "xtea_encrypt_block block =
     (case (xtea_round ^^ 32) (fst block, snd block, 0) of (v0, v1, _) \<Rightarrow> (v0, v1))"

definition key_stream :: "u64 \<Rightarrow> bytes" where
  "key_stream counter =
     (case xtea_encrypt_block (ucast counter, ucast (drop_bit 32 counter)) of (b0, b1) \<Rightarrow>
        put_le32 b0 @ put_le32 b1)"

function xtea_ctr_crypt :: "bytes \<Rightarrow> u64 \<Rightarrow> bytes" where
  "xtea_ctr_crypt data counter =
     (if data = [] then []
      else map2 (XOR) (take 8 data) (key_stream counter) @ xtea_ctr_crypt (drop 8 data) (counter + 1))"
  by pat_completeness auto
termination by (relation "measure (length \<circ> fst)") auto

declare xtea_ctr_crypt.simps [simp del]

section \<open>The file\<close>

definition FEATURE_HEADER_SIZE :: nat where "FEATURE_HEADER_SIZE = 24"
definition FEATURE_FORMAT_VERSION :: u8 where "FEATURE_FORMAT_VERSION = 1"
definition FEATURE_ALGORITHM_XTEA_CTR :: u8 where "FEATURE_ALGORITHM_XTEA_CTR = 1"
definition FWX_FEATURE_MAX_SIZE :: nat where "FWX_FEATURE_MAX_SIZE = 20 * 1024 * 1024"

definition feature_magic :: bytes where "feature_magic = cstr ''FWXB''"

text \<open>\<open>ok\<close>: opening, seeking, allocating and reading succeed; the file is not there for \<open>None\<close>.\<close>

definition read_file :: "bool \<Rightarrow> nat \<Rightarrow> bytes option \<Rightarrow> bytes option" where
  "read_file ok max_len content = (case content of
      None \<Rightarrow> None
    | Some bs \<Rightarrow> if ok \<and> 0 < length bs \<and> length bs \<le> max_len then Some bs else None)"

definition fwx_feature_decrypt_file :: "bool \<Rightarrow> bool \<Rightarrow> bytes option \<Rightarrow> bytes option" where
  "fwx_feature_decrypt_file ok malloc content =
     Option.bind (read_file ok (FEATURE_HEADER_SIZE + FWX_FEATURE_MAX_SIZE) content) (\<lambda>file_data.
       if length file_data < FEATURE_HEADER_SIZE \<or> take 4 file_data \<noteq> feature_magic \<or>
          file_data ! 4 \<noteq> FEATURE_FORMAT_VERSION \<or> file_data ! 5 \<noteq> FEATURE_ALGORITHM_XTEA_CTR \<or>
          unat (get_le16 (drop 6 file_data)) \<noteq> FEATURE_HEADER_SIZE then None
       else
         let plain_len = unat (get_le32 (drop 8 file_data));
             expected_crc = get_le32 (drop 12 file_data);
             nonce = get_le64 (drop 16 file_data)
         in if plain_len = 0 \<or> plain_len > FWX_FEATURE_MAX_SIZE \<or>
               length file_data \<noteq> FEATURE_HEADER_SIZE + plain_len then None
            else if \<not> malloc then None
            else let plain = xtea_ctr_crypt (drop FEATURE_HEADER_SIZE file_data) nonce in
              if feature_crc32 plain \<noteq> expected_crc then None else Some plain)"

text \<open>
  \<^verbatim>\<open>fwx_feature_next_line\<close>: the return value, the new offset and the text put into the buffer
  of \<open>line_size\<close> bytes (unchanged for 0). The text may have NULs.
\<close>

definition fwx_feature_next_line :: "bytes \<Rightarrow> nat \<Rightarrow> nat \<Rightarrow> int \<times> nat \<times> bytes" where
  "fwx_feature_next_line data offset line_size =
     (if line_size = 0 \<or> offset \<ge> length data then (0, offset, [])
      else
        let l = takeWhile (\<lambda>c. c \<noteq> 0x0A) (drop offset data);
            end_pos = offset + length l;
            offset' = (if end_pos < length data then end_pos + 1 else end_pos);
            l' = (if l \<noteq> [] \<and> last l = 0x0D then butlast l else l)
        in if length l' \<ge> line_size then (-1, offset', []) else (1, offset', l'))"

section \<open>Replacing the file\<close>

text \<open>The three files, \<open>None\<close> when they are not there.\<close>

record feature_files =
  ff_bin :: "bytes option"
  ff_backup :: "bytes option"
  ff_candidate :: "bytes option"

record copy_io =
  cp_read :: bool
  cp_write :: bool
  cp_close :: bool
  cp_chmod :: bool
  cp_rename :: bool

text \<open>\<open>cp_write\<close> is \<^verbatim>\<open>fopen\<close> to \<^verbatim>\<open>fsync\<close>. The result, and the target afterwards.\<close>

definition copy_file_atomic :: "copy_io \<Rightarrow> bytes option \<Rightarrow> bytes option \<Rightarrow> bool \<times> bytes option" where
  "copy_file_atomic io source target =
     (case read_file (cp_read io) (FEATURE_HEADER_SIZE + FWX_FEATURE_MAX_SIZE) source of
        None \<Rightarrow> (False, target)
      | Some data \<Rightarrow>
          if \<not> cp_write io then (False, target)
          else if \<not> cp_close io then (False, target)
          else if \<not> cp_chmod io \<or> \<not> cp_rename io then (False, target)
          else (True, Some data))"

text \<open>\<^verbatim>\<open>sscanf(line, "#version %63s", version)\<close> after the prefix: the old text when nothing is converted.\<close>

definition scan_word :: "nat \<Rightarrow> bytes \<Rightarrow> bytes \<Rightarrow> bytes" where
  "scan_word n s old = (let w = take n (takeWhile (\<lambda>c. \<not> isspace_c c) (dropWhile isspace_c s))
     in if w = [] then old else w)"

function candidate_info :: "bytes \<Rightarrow> nat \<Rightarrow> bytes \<Rightarrow> bytes \<Rightarrow> bytes \<times> bytes" where
  "candidate_info data offset version format =
     (case fwx_feature_next_line data offset 1024 of (ret, offset', l) \<Rightarrow>
        if ret = 0 then (version, format)
        else if ret < 0 then candidate_info data offset' version format
        else
          let line = c_string l;
              version' = (if take 9 line = cstr ''#version '' then scan_word 63 (drop 8 line) version else version);
              format' = (if take 9 line \<noteq> cstr ''#version '' \<and> take 8 line = cstr ''#format ''
                then scan_word 31 (drop 7 line) format else format)
          in if version' \<noteq> [] \<and> format' \<noteq> [] then (version', format')
             else candidate_info data offset' version' format')"
  by pat_completeness auto
termination
  by (relation "measure (\<lambda>(data, offset, _, _). length data - offset)")
    (auto simp: fwx_feature_next_line_def Let_def split: if_splits)

declare candidate_info.simps [simp del]

definition FWX_FEATURE_VALIDATE_DECRYPT_FAILED :: int where "FWX_FEATURE_VALIDATE_DECRYPT_FAILED = -1"
definition FWX_FEATURE_VALIDATE_INFO_INVALID :: int where "FWX_FEATURE_VALIDATE_INFO_INVALID = -2"
definition FWX_FEATURE_APPLY_BACKUP_FAILED :: int where "FWX_FEATURE_APPLY_BACKUP_FAILED = -1"
definition FWX_FEATURE_APPLY_TARGET_FAILED :: int where "FWX_FEATURE_APPLY_TARGET_FAILED = -2"
definition FWX_FEATURE_DATA_FORMAT :: bytes where "FWX_FEATURE_DATA_FORMAT = cstr ''v4.0''"

text \<open>The return value and the two texts, cut to the buffers of the caller.\<close>

definition fwx_feature_validate_candidate ::
  "bool \<Rightarrow> bool \<Rightarrow> nat \<Rightarrow> nat \<Rightarrow> bytes option \<Rightarrow> int \<times> bytes \<times> bytes" where
  "fwx_feature_validate_candidate ok malloc version_len format_len candidate =
     (if version_len = 0 \<or> format_len = 0 then (-1, [], [])
      else case fwx_feature_decrypt_file ok malloc candidate of
        None \<Rightarrow> (FWX_FEATURE_VALIDATE_DECRYPT_FAILED, [], [])
      | Some data \<Rightarrow> (case candidate_info data 0 [] [] of (version, format) \<Rightarrow>
          (if version \<noteq> [] \<and> format = FWX_FEATURE_DATA_FORMAT then 0 else FWX_FEATURE_VALIDATE_INFO_INVALID,
           take (version_len - 1) version, take (format_len - 1) format)))"

definition fwx_feature_apply_candidate :: "copy_io \<Rightarrow> copy_io \<Rightarrow> feature_files \<Rightarrow> int \<times> feature_files" where
  "fwx_feature_apply_candidate backup_io target_io files =
     (let (saved, backup) = (if ff_bin files \<noteq> None
            then copy_file_atomic backup_io (ff_bin files) (ff_backup files) else (True, ff_backup files));
          files = files\<lparr>ff_backup := backup\<rparr> in
      if \<not> saved then (FWX_FEATURE_APPLY_BACKUP_FAILED, files)
      else case copy_file_atomic target_io (ff_candidate files) (ff_bin files) of (copied', bin) \<Rightarrow>
        if \<not> copied' then (FWX_FEATURE_APPLY_TARGET_FAILED, files\<lparr>ff_bin := bin\<rparr>)
        else (0, files\<lparr>ff_bin := bin, ff_candidate := None\<rparr>))"

text \<open>The return value, the status code and the files afterwards.\<close>

definition fwx_feature_process_candidate ::
  "bool \<Rightarrow> bool \<Rightarrow> copy_io \<Rightarrow> copy_io \<Rightarrow> nat \<Rightarrow> nat \<Rightarrow> feature_files \<Rightarrow> int \<times> int \<times> feature_files" where
  "fwx_feature_process_candidate ok malloc backup_io target_io version_len format_len files =
     (case fwx_feature_validate_candidate ok malloc version_len format_len (ff_candidate files) of (ret, _, _) \<Rightarrow>
        if ret < 0 then (ret, 401, files\<lparr>ff_candidate := None\<rparr>)
        else (case fwx_feature_apply_candidate backup_io target_io files of (ret, files) \<Rightarrow>
            if ret < 0 then (ret, 400, files\<lparr>ff_candidate := None\<rparr>) else (0, 200, files)))"

definition fwx_feature_restore_backup :: "copy_io \<Rightarrow> feature_files \<Rightarrow> bool \<times> feature_files" where
  "fwx_feature_restore_backup io files =
     (case copy_file_atomic io (ff_backup files) (ff_bin files) of (ok, bin) \<Rightarrow> (ok, files\<lparr>ff_bin := bin\<rparr>))"

end
