(* ===== verification/Fwxd_Load.thy ===== *)
theory Fwxd_Load
  imports Fwxd_Custom_Feature Fwxd_Feature
begin

text \<open>
  The daemon loads features: the tables of names (\<^verbatim>\<open>open-app-filter/src/fwx_config.c\<close>), the messages to
  the kernel (\<^verbatim>\<open>fwx_netlink.c\<close>, \<^verbatim>\<open>main.c\<close>), \<^verbatim>\<open>reload_feature\<close>, and the requests for custom features
  (\<^verbatim>\<open>fwx_custom_feature.c\<close>). What calls on files and sockets return is in an environment.
\<close>

section \<open>State\<close>

text \<open>The netlink socket: whether it is open, the messages that got through, and how many were tried.\<close>

record nl_link =
  nl_open :: bool
  nl_sent :: "bytes list"
  nl_tried :: nat

record fwxd =
  fd_feature_data :: "bytes option"
  fd_classes :: "bytes list"
  fd_cur_class_num :: int
  fd_app_names :: "(int \<times> bytes) list"
  fd_base_count :: nat
  fd_custom :: custom_config
  fd_file :: custom_file
  fd_files :: feature_files
  fd_link :: nl_link

text \<open>
  \<open>ev_realloc\<close> by capacity, \<open>ev_decrypt\<close> the reading and the \<^verbatim>\<open>malloc\<close> of each decryption, \<open>ev_sendto\<close> the
  result of \<^verbatim>\<open>sendto\<close> by the number of the message, \<open>ev_icon\<close> the existence of the icon files.
\<close>

record fwxd_env =
  ev_realloc :: "nat \<Rightarrow> bool"
  ev_decrypt :: "nat \<Rightarrow> bool \<times> bool"
  ev_restore :: copy_io
  ev_sendto :: "nat \<Rightarrow> int"
  ev_save :: file_io
  ev_icon :: "int \<Rightarrow> bool"

section \<open>Names\<close>

definition parse_feature_app_header :: "bytes \<Rightarrow> nat \<Rightarrow> (int \<times> bytes) option" where
  "parse_feature_app_header line app_name_len =
     (let header = takeWhile (\<lambda>c. c \<noteq> 0x3A) line in
      if app_name_len = 0 \<or> 0x3A \<notin> set line \<or> header = [] \<or> length header \<ge> 128 \<or> 0x7E \<notin> set header then None
      else
        let id_text = trim_space (takeWhile (\<lambda>c. c \<noteq> 0x7E) header);
            name_text = trim_space (tl (dropWhile (\<lambda>c. c \<noteq> 0x7E) header)) in
        if id_text = [] \<or> name_text = [] then None
        else (case strtol_10 id_text of (n, endptr, _) \<Rightarrow>
            if n \<le> 0 \<or> trim_space endptr \<noteq> [] then None
            else Some (to_int32 n, take (app_name_len - 1) name_text)))"

definition get_app_name_by_id :: "(int \<times> bytes) list \<Rightarrow> int \<Rightarrow> bytes" where
  "get_app_name_by_id names i = (case find (\<lambda>e. fst e = i) names of
      Some e \<Rightarrow> snd e
    | None \<Rightarrow> if i > 0 then take 31 (cstr ''App'' @ print_number i) else [])"

definition add_app_name_to_table :: "int \<Rightarrow> bytes \<Rightarrow> (int \<times> bytes) list \<Rightarrow> (int \<times> bytes) list option" where
  "add_app_name_to_table i name names =
     (if name = [] \<or> length names \<ge> MAX_SUPPORT_APP_NUM then None else Some (names @ [(i, take 63 name)]))"

text \<open>The loops over the lines of the feature text; a line that is too long is read as empty.\<close>

function app_name_lines :: "bytes \<Rightarrow> nat \<Rightarrow> (int \<times> bytes) list \<Rightarrow> (int \<times> bytes) list" where
  "app_name_lines data offset names =
     (case fwx_feature_next_line data offset 2048 of (ret, offset', l) \<Rightarrow>
        if ret = 0 then names
        else
          let line = c_string l in
          if 0x23 \<in> set line \<or> length line < 10 then app_name_lines data offset' names
          else (case parse_feature_app_header line 64 of
              None \<Rightarrow> app_name_lines data offset' names
            | Some (i, name) \<Rightarrow>
                if length names \<ge> MAX_SUPPORT_APP_NUM then names
                else app_name_lines data offset' (names @ [(i, take 63 name)])))"
  by pat_completeness auto
termination
  by (relation "measure (\<lambda>(data, offset, _). length data - offset)")
    (auto simp: fwx_feature_next_line_def Let_def split: if_splits)

declare app_name_lines.simps [simp del]

definition init_app_name_table :: "fwxd \<Rightarrow> fwxd" where
  "init_app_name_table d = (case fd_feature_data d of
      None \<Rightarrow> d
    | Some data \<Rightarrow> (let names = app_name_lines data 0 [] in
        d\<lparr>fd_app_names := names, fd_base_count := length names\<rparr>))"

text \<open>
  \<^verbatim>\<open>sscanf(line, "#class %*s %d %31s", &id, name) == 2\<close> for a line with the prefix: a word is
  skipped, a number and a word of at most 31 bytes are read.
\<close>

definition scan_class :: "bytes \<Rightarrow> (int \<times> bytes) option" where
  "scan_class line =
     (let rest = dropWhile isspace_c (drop 7 line);
          after = dropWhile (\<lambda>c. \<not> isspace_c c) rest;
          nums = dropWhile isspace_c after in
      if rest = [] then None
      else case strtol_10 nums of (n, rest', _) \<Rightarrow>
        if length rest' = length nums then None
        else let name = scan_word 31 rest' [] in if name = [] then None else Some (to_int32 n, name))"

function class_lines :: "bytes \<Rightarrow> nat \<Rightarrow> bytes list \<Rightarrow> int \<Rightarrow> bytes list \<times> int" where
  "class_lines data offset classes cur =
     (case fwx_feature_next_line data offset 2048 of (ret, offset', l) \<Rightarrow>
        if ret = 0 then (classes, cur)
        else
          let line = c_string l in
          if take 7 line \<noteq> cstr ''#class '' then class_lines data offset' classes cur
          else (case scan_class line of
              None \<Rightarrow> class_lines data offset' classes cur
            | Some (i, name) \<Rightarrow>
                if i < 1 \<or> i > MAX_APP_TYPE then class_lines data offset' classes cur
                else class_lines data offset' (classes[nat (i - 1) := name]) (max cur i)))"
  by pat_completeness auto
termination
  by (relation "measure (\<lambda>(data, offset, _, _). length data - offset)")
    (auto simp: fwx_feature_next_line_def Let_def split: if_splits)

declare class_lines.simps [simp del]

definition init_app_class_name_table :: "fwxd \<Rightarrow> fwxd" where
  "init_app_class_name_table d = (case fd_feature_data d of
      None \<Rightarrow> d
    | Some data \<Rightarrow> (case class_lines data 0 (replicate (nat MAX_APP_TYPE) []) 0 of (classes, cur) \<Rightarrow>
        d\<lparr>fd_classes := classes, fd_cur_class_num := cur\<rparr>))"

section \<open>Messages\<close>

text \<open>
  Only a result 0 of \<^verbatim>\<open>sendto\<close> is taken for a failure; it is -1 when the message could not be sent.
\<close>

definition fwx_nl_send_msg_to_kernel :: "(nat \<Rightarrow> int) \<Rightarrow> bytes \<Rightarrow> nl_link \<Rightarrow> int \<times> nl_link" where
  "fwx_nl_send_msg_to_kernel sendto msg link =
     (let ret = sendto (nl_tried link);
          umsg = put_le32 0xa0b0c0d0 @ put_le32 (of_nat (length msg)) @ msg;
          link = link\<lparr>nl_tried := Suc (nl_tried link),
            nl_sent := (if ret > 0 then nl_sent link @ [umsg] else nl_sent link)\<rparr>
      in (if ret = 0 then -1 else 0, link))"

definition fwx_nl_clean_feature :: "(nat \<Rightarrow> int) \<Rightarrow> nl_link \<Rightarrow> int \<times> nl_link" where
  "fwx_nl_clean_feature sendto link =
     (if \<not> nl_open link then (-1, link) else fwx_nl_send_msg_to_kernel sendto (put_le32 2) link)"

definition fwx_nl_add_feature :: "(nat \<Rightarrow> int) \<Rightarrow> bytes \<Rightarrow> nl_link \<Rightarrow> int \<times> nl_link" where
  "fwx_nl_add_feature sendto feature link =
     (if \<not> nl_open link then (-1, link)
      else fwx_nl_send_msg_to_kernel sendto (put_le32 1 @ feature @ [0]) link)"

definition fwx_nl_feature_load_done :: "(nat \<Rightarrow> int) \<Rightarrow> nl_link \<Rightarrow> int \<times> nl_link" where
  "fwx_nl_feature_load_done sendto link =
     (if \<not> nl_open link then (-1, link) else fwx_nl_send_msg_to_kernel sendto (put_le32 3) link)"

fun send_lines :: "(nat \<Rightarrow> int) \<Rightarrow> bytes list \<Rightarrow> nl_link \<Rightarrow> bool \<times> nl_link" where
  "send_lines sendto [] link = (True, link)"
| "send_lines sendto (line # lines) link = (case fwx_nl_add_feature sendto line link of (ret, link) \<Rightarrow>
     if ret < 0 then (False, link) else send_lines sendto lines link)"

text \<open>The custom features: an application that has no line ends the loop.\<close>

fun fwx_custom_feature_send_to_kernel :: "(nat \<Rightarrow> int) \<Rightarrow> custom_app list \<Rightarrow> nl_link \<Rightarrow> bool \<times> nl_link" where
  "fwx_custom_feature_send_to_kernel sendto [] link = (True, link)"
| "fwx_custom_feature_send_to_kernel sendto (app # apps) link =
     (case app_to_line app (CUSTOM_MAX_APP_LINE + 2) of
        None \<Rightarrow> (False, link)
      | Some line \<Rightarrow> (case fwx_nl_add_feature sendto line link of (ret, link) \<Rightarrow>
          if ret < 0 then (False, link) else fwx_custom_feature_send_to_kernel sendto apps link))"

definition FWXD_MAX_FEATURE_LINE_LEN :: nat where "FWXD_MAX_FEATURE_LINE_LEN = 800"

text \<open>The lines of the feature text that are sent, each trimmed.\<close>

function feature_lines :: "bytes \<Rightarrow> nat \<Rightarrow> bytes list" where
  "feature_lines data offset =
     (if offset \<ge> length data then []
      else case fwx_feature_next_line data offset FWXD_MAX_FEATURE_LINE_LEN of (ret, offset', l) \<Rightarrow>
        if ret < 0 then feature_lines data offset'
        else if ret = 0 then []
        else
          let line = trim_space (c_string l) in
          if length line < 8 \<or> 0x23 \<in> set line \<or> length line \<ge> FWXD_MAX_FEATURE_LINE_LEN - 1
          then feature_lines data offset' else line # feature_lines data offset')"
  by pat_completeness auto
termination
  by (relation "measure (\<lambda>(data, offset). length data - offset)")
    (auto simp: fwx_feature_next_line_def Let_def split: if_splits)

declare feature_lines.simps [simp del]

definition fwx_load_feature_to_kernel :: "(nat \<Rightarrow> int) \<Rightarrow> fwxd \<Rightarrow> int \<times> fwxd" where
  "fwx_load_feature_to_kernel sendto d =
     (let put = (\<lambda>link. d\<lparr>fd_link := link\<rparr>) in
      case fd_feature_data d of
        None \<Rightarrow> (-1, d)
      | Some data \<Rightarrow>
          if data = [] then (-1, d)
          else (case fwx_nl_clean_feature sendto (fd_link d) of (ret, link) \<Rightarrow>
            if ret < 0 then (-1, put link)
            else (case send_lines sendto (feature_lines data 0) link of (ok, link) \<Rightarrow>
              if \<not> ok then (-1, put link)
              else (case fwx_custom_feature_send_to_kernel sendto (cc_apps (fd_custom d)) link of (ok, link) \<Rightarrow>
                if \<not> ok then (-1, put link)
                else (case fwx_nl_feature_load_done sendto link of (ret, link) \<Rightarrow>
                  (if ret < 0 then -1 else 0, put link))))))"

section \<open>Loading\<close>

definition fwx_custom_feature_reload :: "(nat \<Rightarrow> bool) \<Rightarrow> fwxd \<Rightarrow> int \<times> fwxd" where
  "fwx_custom_feature_reload ra d =
     (case config_read_file ra (fd_classes d) (fd_base_count d) (fd_file d) config_free of
        Inl _ \<Rightarrow> (-1, d)
      | Inr loaded \<Rightarrow> (0, d\<lparr>fd_custom := loaded\<rparr>))"

fun add_app_names :: "custom_app list \<Rightarrow> (int \<times> bytes) list \<Rightarrow> bool \<times> (int \<times> bytes) list" where
  "add_app_names [] names = (True, names)"
| "add_app_names (app # apps) names = (case add_app_name_to_table (ca_appid app) (ca_name app) names of
     None \<Rightarrow> (False, names) | Some names \<Rightarrow> add_app_names apps names)"

definition fwx_custom_feature_add_app_names :: "fwxd \<Rightarrow> int \<times> fwxd" where
  "fwx_custom_feature_add_app_names d =
     (if fd_base_count d + length (cc_apps (fd_custom d)) > MAX_SUPPORT_APP_NUM then (-1, d)
      else case add_app_names (cc_apps (fd_custom d)) (fd_app_names d) of (ok, names) \<Rightarrow>
        (if ok then 0 else -1, d\<lparr>fd_app_names := names\<rparr>))"

text \<open>The tables, the custom features and the kernel, once the text is in memory.\<close>

definition load_tables :: "fwxd_env \<Rightarrow> fwxd \<Rightarrow> int \<times> fwxd" where
  "load_tables env d =
     (case fwx_custom_feature_reload (ev_realloc env) (init_app_class_name_table (init_app_name_table d)) of (ret, d) \<Rightarrow>
        if ret < 0 then (-1, d)
        else (case fwx_custom_feature_add_app_names d of (ret, d) \<Rightarrow>
          if ret < 0 then (-1, d)
          else (case fwx_load_feature_to_kernel (ev_sendto env) d of (ret, d) \<Rightarrow>
            (if ret < 0 then -1 else 0, d))))"

text \<open>\<^verbatim>\<open>write_feature_info_file\<close> only writes a file; its result is not used.\<close>

definition reload_feature :: "fwxd_env \<Rightarrow> fwxd \<Rightarrow> int \<times> fwxd" where
  "reload_feature env d =
     (let decrypt = (\<lambda>n d. fwx_feature_decrypt_file (fst (ev_decrypt env n)) (snd (ev_decrypt env n)) (ff_bin (fd_files d))) in
      case decrypt 0 d of
        Some data \<Rightarrow> load_tables env (d\<lparr>fd_feature_data := Some data\<rparr>)
      | None \<Rightarrow> (case fwx_feature_restore_backup (ev_restore env) (fd_files d) of (ok, files) \<Rightarrow>
          let d = d\<lparr>fd_files := files\<rparr> in
          if \<not> ok then (-1, d)
          else (case decrypt 1 d of
              None \<Rightarrow> (-1, d)
            | Some data \<Rightarrow> load_tables env (d\<lparr>fd_feature_data := Some data\<rparr>))))"

section \<open>Requests\<close>

definition API_CODE_SUCCESS :: int where "API_CODE_SUCCESS = 2000"
definition API_CODE_ERROR :: int where "API_CODE_ERROR = 4000"

definition fwx_gen_api_response_data :: "int \<Rightarrow> json option \<Rightarrow> json" where
  "fwx_gen_api_response_data code data_obj = JObject ((cstr ''code'', JNumber code) #
     (case data_obj of None \<Rightarrow> [] | Some d \<Rightarrow> [(cstr ''data'', d)]))"

definition error_text :: "error \<Rightarrow> bytes" where
  "error_text e = (case e of Error s \<Rightarrow> cstr s | ErrorAt s n \<Rightarrow> cstr s @ 0x20 # print_number (int n))"

definition error_response :: "bytes \<Rightarrow> bool \<Rightarrow> json" where
  "error_response error saved = fwx_gen_api_response_data API_CODE_ERROR (Some (JObject
     ((if error \<noteq> [] then [(cstr ''error'', JString error)] else []) @
      (if saved then [(cstr ''saved'', JNumber 1), (cstr ''reloaded'', JNumber 0)] else []))))"

definition fwx_api_get_custom_feature :: "fwxd_env \<Rightarrow> fwxd \<Rightarrow> json" where
  "fwx_api_get_custom_feature env d =
     (case config_read_file (ev_realloc env) (fd_classes d) (fd_base_count d) (fd_file d) config_free of
        Inl e \<Rightarrow> error_response (error_text e) False
      | Inr loaded \<Rightarrow> fwx_gen_api_response_data API_CODE_SUCCESS (Some (config_to_data (ev_icon env) loaded)))"

definition fwx_api_get_custom_feature_class_list :: "fwxd \<Rightarrow> json" where
  "fwx_api_get_custom_feature_class_list d =
     fwx_gen_api_response_data API_CODE_SUCCESS (Some (class_list_to_data (fd_classes d)))"

definition fwx_api_set_custom_feature :: "fwxd_env \<Rightarrow> 'j json_c \<Rightarrow> 'j \<Rightarrow> fwxd \<Rightarrow> json \<times> fwxd" where
  "fwx_api_set_custom_feature env jc req_obj d =
     (case config_from_json (ev_realloc env) jc (fd_classes d) (fd_base_count d) req_obj of
        Inl e \<Rightarrow> (error_response (error_text e) False, d)
      | Inr submitted \<Rightarrow> (case config_write_file (ev_save env) submitted (fd_file d) of (written, file_out) \<Rightarrow>
          let d = d\<lparr>fd_file := file_out\<rparr> in
          (case written of
             Inl e \<Rightarrow> (error_response (error_text e) False, d)
           | Inr _ \<Rightarrow> (case reload_feature env d of (ret, d) \<Rightarrow>
               if ret < 0 then (error_response (cstr ''custom feature file was saved but reload failed'') True, d)
               else (fwx_gen_api_response_data API_CODE_SUCCESS (Some (config_to_data (ev_icon env) submitted)), d)))))"

text \<open>
  The lists of applications by class that the interface shows; \<open>class_map\<close> has a list where the class
  has an object with an \<^verbatim>\<open>app_list\<close>.
\<close>

definition class_app_text :: "(int \<Rightarrow> bool) \<Rightarrow> custom_app \<Rightarrow> bytes" where
  "class_app_text icon app = take 255 (print_number (ca_appid app) @ cstr '','' @ ca_name app @
     (if icon (ca_appid app) then [] else cstr '',0''))"

definition fwx_custom_feature_append_class_apps ::
  "(int \<Rightarrow> bool) \<Rightarrow> custom_app list \<Rightarrow> bytes list option list \<Rightarrow> bytes list option list" where
  "fwx_custom_feature_append_class_apps icon apps class_map =
     fold (\<lambda>app class_map. let c = ca_class_id app in
       if c < 0 \<or> nat c \<ge> length class_map then class_map
       else case class_map ! nat c of
         None \<Rightarrow> class_map
       | Some app_list \<Rightarrow> class_map[nat c := Some (app_list @ [class_app_text icon app])]) apps class_map"

end
