(* ===== verification/Fwx_Url_AC.thy ===== *)
theory Fwx_Url_AC
  imports Fwx_Port
begin

text \<open>
  The URL automaton (\<^verbatim>\<open>oaf/src/fwx_main.c\<close>): an Aho-Corasick automaton over the literal
  host patterns of the features, built when the features are loaded and walked for every
  host name seen on the wire. A node is its position in \<^verbatim>\<open>g_url_ac.node_list\<close>; an edge list
  has its newest edge first, an output list its oldest output first. Each loop that follows
  pointers is a partial function whose value is \<open>None\<close> when the loop does not end (or
  follows a NULL pointer, or the queue array is left); that this never happens is proved in
  \<open>Fwx_Url_AC_Correct\<close>.
\<close>

record ac_node =
  an_edges :: "(u8 \<times> nat) list"
  an_output :: "feature_node list"
  an_fail :: "nat option"

text \<open>
  \<^verbatim>\<open>g_url_ac\<close> and \<^verbatim>\<open>g_url_ac_dirty\<close>. \<open>ac_allocs\<close> counts the allocations asked for so far;
  an oracle \<open>kz\<close> says for each whether \<^verbatim>\<open>kzalloc\<close> gives memory. The three 32-bit counters
  of things in memory are natural numbers: four thousand million nodes do not fit in memory.
\<close>

record url_ac =
  ac_root :: "nat option"
  ac_nodes :: "ac_node list"
  ac_node_count :: nat
  ac_edge_count :: nat
  ac_output_count :: nat
  ac_ready :: bool
  ac_dirty :: bool
  ac_allocs :: nat

record match_stat =
  ac_state_steps :: u32
  ac_fail_jumps :: u32
  ac_candidate_checks :: u32
  ac_match_count :: u32
  fallback_checks :: u32

definition stat_zero :: match_stat where
  "stat_zero = \<lparr>ac_state_steps = 0, ac_fail_jumps = 0, ac_candidate_checks = 0,
     ac_match_count = 0, fallback_checks = 0\<rparr>"

section \<open>Conditions on a feature\<close>

definition af_match_basic_cond :: "flow_info \<Rightarrow> feature_node \<Rightarrow> bool" where
  "af_match_basic_cond flow node =
     (if fn_proto node > 0 \<and> word_of_int (fl_l4_protocol flow) \<noteq> fn_proto node then False
      else if fn_sport node \<noteq> 0 \<and> ucast (fl_sport flow) \<noteq> fn_sport node then False
      else af_match_port (fn_dport_info node) (uint (fl_dport flow)))"

text \<open>A caret first, and a star and a dollar sign somewhere.\<close>

definition af_is_regex_host_pattern :: "bytes \<Rightarrow> bool" where
  "af_is_regex_host_pattern host_url \<longleftrightarrow>
     host_url \<noteq> [] \<and> hd host_url = 0x5E \<and> 0x2A \<in> set host_url \<and> 0x24 \<in> set host_url"

section \<open>Building the trie\<close>

definition new_node :: ac_node where
  "new_node = \<lparr>an_edges = [], an_output = [], an_fail = None\<rparr>"

definition set_node :: "nat \<Rightarrow> ac_node \<Rightarrow> url_ac \<Rightarrow> url_ac" where
  "set_node n node ac = ac\<lparr>ac_nodes := (ac_nodes ac)[n := node]\<rparr>"

definition af_ac_alloc_node :: "(nat \<Rightarrow> bool) \<Rightarrow> url_ac \<Rightarrow> nat option \<times> url_ac" where
  "af_ac_alloc_node kz ac =
     (if kz (ac_allocs ac)
      then (Some (length (ac_nodes ac)),
            ac\<lparr>ac_nodes := ac_nodes ac @ [new_node], ac_node_count := ac_node_count ac + 1,
               ac_allocs := Suc (ac_allocs ac)\<rparr>)
      else (None, ac\<lparr>ac_allocs := Suc (ac_allocs ac)\<rparr>))"

definition af_ac_find_next :: "url_ac \<Rightarrow> nat option \<Rightarrow> u8 \<Rightarrow> nat option" where
  "af_ac_find_next ac node ch = (case node of
      None \<Rightarrow> None
    | Some n \<Rightarrow> map_option snd (find (\<lambda>edge. fst edge = ch) (an_edges (ac_nodes ac ! n))))"

text \<open>When there is no memory for the edge, the child is taken off the list and freed.\<close>

definition af_ac_get_or_create_next ::
  "(nat \<Rightarrow> bool) \<Rightarrow> nat \<Rightarrow> u8 \<Rightarrow> url_ac \<Rightarrow> nat option \<times> url_ac" where
  "af_ac_get_or_create_next kz n ch ac = (case af_ac_find_next ac (Some n) ch of
      Some child \<Rightarrow> (Some child, ac)
    | None \<Rightarrow> (case af_ac_alloc_node kz ac of
          (None, ac1) \<Rightarrow> (None, ac1)
        | (Some child, ac1) \<Rightarrow>
            if \<not> kz (ac_allocs ac1)
            then (None, ac1\<lparr>ac_nodes := butlast (ac_nodes ac1),
                            ac_node_count := ac_node_count ac1 - 1,
                            ac_allocs := Suc (ac_allocs ac1)\<rparr>)
            else let node = ac_nodes ac1 ! n;
                     ac2 = set_node n (node\<lparr>an_edges := (ch, child) # an_edges node\<rparr>) ac1
                 in (Some child, ac2\<lparr>ac_edge_count := ac_edge_count ac2 + 1,
                                     ac_allocs := Suc (ac_allocs ac2)\<rparr>)))"

text \<open>The truth value says whether the return value is 0.\<close>

definition af_ac_add_output ::
  "(nat \<Rightarrow> bool) \<Rightarrow> nat \<Rightarrow> feature_node \<Rightarrow> url_ac \<Rightarrow> bool \<times> url_ac" where
  "af_ac_add_output kz n feature ac =
     (if \<not> kz (ac_allocs ac) then (False, ac\<lparr>ac_allocs := Suc (ac_allocs ac)\<rparr>)
      else let node = ac_nodes ac ! n;
               ac1 = set_node n (node\<lparr>an_output := an_output node @ [feature]\<rparr>) ac
           in (True, ac1\<lparr>ac_output_count := ac_output_count ac1 + 1,
                         ac_allocs := Suc (ac_allocs ac1)\<rparr>))"

definition af_ac_reset_locked :: "url_ac \<Rightarrow> url_ac" where
  "af_ac_reset_locked ac = ac\<lparr>ac_nodes := [], ac_root := None, ac_node_count := 0,
     ac_edge_count := 0, ac_output_count := 0, ac_ready := False\<rparr>"

fun insert_path :: "(nat \<Rightarrow> bool) \<Rightarrow> nat \<Rightarrow> bytes \<Rightarrow> url_ac \<Rightarrow> nat option \<times> url_ac" where
  "insert_path kz cur [] ac = (Some cur, ac)"
| "insert_path kz cur (c # cs) ac = (case af_ac_get_or_create_next kz cur c ac of
      (None, ac') \<Rightarrow> (None, ac')
    | (Some child, ac') \<Rightarrow> insert_path kz child cs ac')"

definition af_ac_insert_pattern ::
  "(nat \<Rightarrow> bool) \<Rightarrow> feature_node \<Rightarrow> url_ac \<Rightarrow> bool \<times> url_ac" where
  "af_ac_insert_pattern kz feature ac = (case ac_root ac of
      None \<Rightarrow> (False, ac)
    | Some root \<Rightarrow>
        if fn_host_url feature = [] then (True, ac)
        else (case insert_path kz root (fn_host_url feature) ac of
            (None, ac') \<Rightarrow> (False, ac')
          | (Some cur, ac') \<Rightarrow> af_ac_add_output kz cur feature ac'))"

section \<open>Fail links\<close>

definition set_fail :: "nat \<Rightarrow> nat \<Rightarrow> url_ac \<Rightarrow> url_ac" where
  "set_fail n f ac = set_node n ((ac_nodes ac ! n)\<lparr>an_fail := Some f\<rparr>) ac"

text \<open>\<^verbatim>\<open>while (fail != root) { fallback = find_next(fail, ch); if (fallback) break; fail = fail->fail; }\<close>\<close>

partial_function (option) fail_search :: "url_ac \<Rightarrow> nat \<Rightarrow> u8 \<Rightarrow> nat \<Rightarrow> nat option option" where
  "fail_search ac root ch fail =
     (if fail = root then Some None
      else case af_ac_find_next ac (Some fail) ch of
          Some fallback \<Rightarrow> Some (Some fallback)
        | None \<Rightarrow> (case an_fail (ac_nodes ac ! fail) of
              None \<Rightarrow> None
            | Some f \<Rightarrow> fail_search ac root ch f))"

text \<open>The children of one node: each gets its fail link and goes to the end of the queue.\<close>

fun link_children :: "nat \<Rightarrow> nat \<Rightarrow> (u8 \<times> nat) list \<Rightarrow> url_ac \<Rightarrow> (url_ac \<times> nat list) option" where
  "link_children root cur [] ac = Some (ac, [])"
| "link_children root cur ((ch, child) # edges) ac =
     do { fail \<leftarrow> an_fail (ac_nodes ac ! cur);
          searched \<leftarrow> fail_search ac root ch fail;
          let fallback = (case searched of
              Some f \<Rightarrow> Some f | None \<Rightarrow> af_ac_find_next ac (Some root) ch);
          (ac', queued) \<leftarrow> link_children root cur edges
             (set_fail child (case fallback of Some f \<Rightarrow> f | None \<Rightarrow> root) ac);
          Some (ac', child # queued) }"

text \<open>
  The breadth-first loop. \<open>tail\<close> is the number of entries written to the queue array so far;
  the array has \<^verbatim>\<open>node_count\<close> entries.
\<close>

partial_function (option) link_queue :: "nat \<Rightarrow> nat list \<Rightarrow> nat \<Rightarrow> url_ac \<Rightarrow> url_ac option" where
  "link_queue root queue tail ac =
     (if tail > length (ac_nodes ac) then None
      else case queue of
        [] \<Rightarrow> Some ac
      | cur # rest \<Rightarrow>
          Option.bind (link_children root cur (an_edges (ac_nodes ac ! cur)) ac)
            (\<lambda>(ac', queued). link_queue root (rest @ queued) (tail + length queued) ac'))"

text \<open>\<open>Some (False, _)\<close> for the return value -1 (no memory for the queue).\<close>

definition af_ac_build_fail_links_locked :: "(nat \<Rightarrow> bool) \<Rightarrow> url_ac \<Rightarrow> (bool \<times> url_ac) option" where
  "af_ac_build_fail_links_locked kz ac = (case ac_root ac of
      None \<Rightarrow> Some (True, ac)
    | Some root \<Rightarrow>
        if ac_node_count ac = 0 then Some (True, ac)
        else let ac = ac\<lparr>ac_allocs := Suc (ac_allocs ac)\<rparr>
          in if \<not> kz (ac_allocs ac - 1) then Some (False, ac)
             else
               let ac1 = set_fail root root ac;
                   first = map snd (an_edges (ac_nodes ac1 ! root));
                   ac2 = fold (\<lambda>n. set_fail n root) first ac1
               in map_option (Pair True) (link_queue root first (length first) ac2))"

text \<open>The features whose pattern goes into the automaton, in the order of the list.\<close>

definition ac_eligible :: "feature_node \<Rightarrow> bool" where
  "ac_eligible node \<longleftrightarrow> fn_host_url node \<noteq> [] \<and> \<not> af_is_regex_host_pattern (fn_host_url node)"

text \<open>A pattern that cannot be inserted is logged, and the loop goes on.\<close>

fun insert_features :: "(nat \<Rightarrow> bool) \<Rightarrow> feature_node list \<Rightarrow> url_ac \<Rightarrow> url_ac" where
  "insert_features kz [] ac = ac"
| "insert_features kz (node # features) ac =
     insert_features kz features
       (if ac_eligible node then snd (af_ac_insert_pattern kz node ac) else ac)"

definition af_rebuild_url_ac_locked ::
  "(nat \<Rightarrow> bool) \<Rightarrow> feature_node list \<Rightarrow> url_ac \<Rightarrow> (bool \<times> url_ac) option" where
  "af_rebuild_url_ac_locked kz features ac =
     (case af_ac_alloc_node kz (af_ac_reset_locked ac) of
        (None, ac1) \<Rightarrow> Some (False, ac1\<lparr>ac_root := None, ac_ready := False, ac_dirty := True\<rparr>)
      | (Some root, ac1) \<Rightarrow>
          do { (ok, ac2) \<leftarrow> af_ac_build_fail_links_locked kz
                 (insert_features kz features (ac1\<lparr>ac_root := Some root\<rparr>));
               if ok then Some (True, ac2\<lparr>ac_ready := True, ac_dirty := False\<rparr>)
               else Some (False, ac2\<lparr>ac_ready := False, ac_dirty := True\<rparr>) })"

section \<open>Walking the automaton\<close>

text \<open>\<^verbatim>\<open>while (!next && state != root) { state = state->fail; next = find_next(state, ch); }\<close> and the step.\<close>

partial_function (option) goto_state ::
  "url_ac \<Rightarrow> nat \<Rightarrow> u8 \<Rightarrow> nat \<Rightarrow> match_stat \<Rightarrow> (nat \<times> match_stat) option" where
  "goto_state ac root ch state stat =
     (case af_ac_find_next ac (Some state) ch of
        Some next \<Rightarrow> Some (next, stat)
      | None \<Rightarrow>
          if state = root then Some (root, stat)
          else (case an_fail (ac_nodes ac ! state) of
              None \<Rightarrow> None
            | Some f \<Rightarrow> goto_state ac root ch f (stat\<lparr>ac_fail_jumps := ac_fail_jumps stat + 1\<rparr>)))"

fun scan_outputs ::
  "flow_info \<Rightarrow> bool \<Rightarrow> feature_node list \<Rightarrow> match_stat \<Rightarrow> feature_node option \<times> match_stat" where
  "scan_outputs flow check_basic_cond [] stat = (None, stat)"
| "scan_outputs flow check_basic_cond (feature # items) stat =
     (let stat = stat\<lparr>ac_candidate_checks := ac_candidate_checks stat + 1\<rparr>
      in if check_basic_cond \<and> \<not> af_match_basic_cond flow feature
         then scan_outputs flow check_basic_cond items stat
         else (Some feature, stat\<lparr>ac_match_count := ac_match_count stat + 1\<rparr>))"

text \<open>The outputs of the state and of the states along its fail links, down to the root.\<close>

partial_function (option) scan_states ::
  "url_ac \<Rightarrow> nat \<Rightarrow> flow_info \<Rightarrow> bool \<Rightarrow> nat option \<Rightarrow> match_stat \<Rightarrow>
     (feature_node option \<times> match_stat) option" where
  "scan_states ac root flow check_basic_cond iter stat = (case iter of
      None \<Rightarrow> Some (None, stat)
    | Some n \<Rightarrow>
        if n = root then Some (None, stat)
        else (case scan_outputs flow check_basic_cond (an_output (ac_nodes ac ! n)) stat of
            (Some feature, stat') \<Rightarrow> Some (Some feature, stat')
          | (None, stat') \<Rightarrow>
              scan_states ac root flow check_basic_cond (an_fail (ac_nodes ac ! n)) stat'))"

fun match_text ::
  "url_ac \<Rightarrow> nat \<Rightarrow> flow_info \<Rightarrow> bool \<Rightarrow> nat \<Rightarrow> bytes \<Rightarrow> match_stat \<Rightarrow>
     (feature_node option \<times> match_stat) option" where
  "match_text ac root flow check_basic_cond state [] stat = Some (None, stat)"
| "match_text ac root flow check_basic_cond state (ch # host) stat =
     do { (state', stat') \<leftarrow> goto_state ac root ch state
            (stat\<lparr>ac_state_steps := ac_state_steps stat + 1\<rparr>);
          (found, stat'') \<leftarrow> scan_states ac root flow check_basic_cond (Some state') stat';
          case found of
            Some feature \<Rightarrow> Some (Some feature, stat'')
          | None \<Rightarrow> match_text ac root flow check_basic_cond state' host stat'' }"

definition af_match_url_text_ac ::
  "url_ac \<Rightarrow> flow_info \<Rightarrow> match_stat \<Rightarrow> bytes \<Rightarrow> bool \<Rightarrow>
     (feature_node option \<times> match_stat) option" where
  "af_match_url_text_ac ac flow stat host_buf check_basic_cond =
     (case ac_root ac of
        None \<Rightarrow> Some (None, stat)
      | Some root \<Rightarrow>
          if host_buf = [] \<or> \<not> ac_ready ac then Some (None, stat)
          else match_text ac root flow check_basic_cond root host_buf stat)"

end
