(* ===== verification/Fwx_Url_AC_Correct.thy ===== *)
theory Fwx_Url_AC_Correct
  imports Fwx_Url_AC "HOL-Library.Sublist"
begin

text \<open>
  Correctness of the URL automaton. Every node has a label, the word read on the way to it.
  Building keeps the trie invariant and records which features were inserted, whatever
  allocations fail; the breadth-first pass gives every node the node of its longest proper
  suffix; and walking a text with these links finds what trying every pattern at every
  position finds, in the same order.
\<close>

abbreviation edges :: "url_ac \<Rightarrow> nat \<Rightarrow> (u8 \<times> nat) list" where
  "edges ac n \<equiv> an_edges (ac_nodes ac ! n)"

abbreviation size_ac :: "url_ac \<Rightarrow> nat" where
  "size_ac ac \<equiv> length (ac_nodes ac)"

definition labels :: "url_ac \<Rightarrow> (nat \<Rightarrow> bytes) \<Rightarrow> bytes set" where
  "labels ac lab = lab ` {..<size_ac ac}"

definition trie :: "url_ac \<Rightarrow> nat \<Rightarrow> (nat \<Rightarrow> bytes) \<Rightarrow> bool" where
  "trie ac root lab \<longleftrightarrow> root < size_ac ac \<and> lab root = [] \<and> inj_on lab {..<size_ac ac} \<and>
     (\<forall>n < size_ac ac. distinct (map snd (edges ac n)) \<and>
        (\<forall>e\<in>set (edges ac n). snd e < size_ac ac \<and> lab (snd e) = lab n @ [fst e])) \<and>
     (\<forall>m < size_ac ac. m \<noteq> root \<longrightarrow> (\<exists>n < size_ac ac. m \<in> snd ` set (edges ac n)))"

lemma trie_edge:
  "trie ac root lab \<Longrightarrow> n < size_ac ac \<Longrightarrow> (c, m) \<in> set (edges ac n) \<Longrightarrow>
     m < size_ac ac \<and> lab m = lab n @ [c]"
  by (fastforce simp: trie_def)

lemma trie_inj:
  "trie ac root lab \<Longrightarrow> n < size_ac ac \<Longrightarrow> m < size_ac ac \<Longrightarrow> lab n = lab m \<Longrightarrow> n = m"
  by (auto simp: trie_def dest: inj_onD)

lemma trie_root: "trie ac root lab \<Longrightarrow> lab root = []" "trie ac root lab \<Longrightarrow> root < size_ac ac"
  by (simp_all add: trie_def)

lemma trie_root_label: "trie ac root lab \<Longrightarrow> n < size_ac ac \<Longrightarrow> lab n = [] \<longleftrightarrow> n = root"
  using trie_inj trie_root by metis

lemma trie_parent:
  assumes "trie ac root lab" and "m < size_ac ac" and "lab m = w @ [c]"
  shows "\<exists>n < size_ac ac. lab n = w \<and> (c, m) \<in> set (edges ac n)"
proof -
  have "m \<noteq> root" using assms trie_root(1) [OF assms(1)] by auto
  then obtain n e where n: "n < size_ac ac" and e: "e \<in> set (edges ac n)" "m = snd e"
    using assms(1,2) by (auto simp: trie_def)
  then have "lab n @ [fst e] = w @ [c]" using assms(1,3) by (auto simp: trie_def)
  then have "lab n = w" and "(c, m) = e" using e(2) by (simp_all add: prod_eq_iff)
  with n e(1) show ?thesis by blast
qed

lemma find_edge: "find (\<lambda>e. fst e = c) es = Some e \<Longrightarrow> (c, snd e) \<in> set es"
  using find_key_Some [of fst c es e] by (cases e) auto

lemma find_next_iff:
  assumes "trie ac root lab" and "n < size_ac ac"
  shows "af_ac_find_next ac (Some n) c = Some m \<longleftrightarrow> m < size_ac ac \<and> lab m = lab n @ [c]"
proof
  assume "af_ac_find_next ac (Some n) c = Some m"
  then obtain e where "find (\<lambda>e. fst e = c) (edges ac n) = Some e" and "snd e = m"
    by (auto simp: af_ac_find_next_def)
  then have "(c, m) \<in> set (edges ac n)" using find_edge by metis
  then show "m < size_ac ac \<and> lab m = lab n @ [c]" using trie_edge assms by blast
next
  assume m: "m < size_ac ac \<and> lab m = lab n @ [c]"
  then obtain p where "p < size_ac ac" "lab p = lab n" "(c, m) \<in> set (edges ac p)"
    using trie_parent [OF assms(1)] by blast
  then have "(c, m) \<in> set (edges ac n)" using trie_inj [OF assms(1)] assms(2) by blast
  then obtain e where e: "find (\<lambda>e. fst e = c) (edges ac n) = Some e"
    by (cases "find (\<lambda>e. fst e = c) (edges ac n)") (auto simp: find_None_iff)
  then have "(c, snd e) \<in> set (edges ac n)" by (rule find_edge)
  then have "snd e < size_ac ac \<and> lab (snd e) = lab n @ [c]" using trie_edge assms by blast
  then have "snd e = m" using trie_inj [OF assms(1)] m by metis
  with e show "af_ac_find_next ac (Some n) c = Some m" by (simp add: af_ac_find_next_def)
qed

lemma labels_iff: "w \<in> labels ac lab \<longleftrightarrow> (\<exists>n < size_ac ac. lab n = w)"
  by (auto simp: labels_def)

lemma find_next_None_iff:
  assumes "trie ac root lab" and "n < size_ac ac"
  shows "af_ac_find_next ac (Some n) c = None \<longleftrightarrow> lab n @ [c] \<notin> labels ac lab"
  unfolding labels_iff using find_next_iff [OF assms, of c] by (metis not_None_eq)

lemma labels_prefix: "trie ac root lab \<Longrightarrow> w @ [c] \<in> labels ac lab \<Longrightarrow> w \<in> labels ac lab"
  unfolding labels_iff using trie_parent by blast

section \<open>Building\<close>

text \<open>
  The features inserted so far, in order: every node outputs those of its label.
\<close>

definition built :: "url_ac \<Rightarrow> nat \<Rightarrow> (nat \<Rightarrow> bytes) \<Rightarrow> feature_node list \<Rightarrow> bool" where
  "built ac root lab ins \<longleftrightarrow> trie ac root lab \<and> ac_root ac = Some root \<and>
     ac_node_count ac = size_ac ac \<and>
     (\<forall>n < size_ac ac. an_output (ac_nodes ac ! n) = filter (\<lambda>f. fn_host_url f = lab n) ins) \<and>
     (\<forall>f\<in>set ins. fn_host_url f \<in> labels ac lab \<and> fn_host_url f \<noteq> [])"

lemma built_allocs [simp]: "built (ac\<lparr>ac_allocs := k\<rparr>) root lab ins = built ac root lab ins"
  by (simp add: built_def trie_def labels_def)

lemma trie_new_child:
  assumes t: "trie ac root lab" and n: "n < size_ac ac"
    and nodes: "ac_nodes ac' = (ac_nodes ac @ [new_node])
       [n := (ac_nodes ac ! n)\<lparr>an_edges := (c, size_ac ac) # edges ac n\<rparr>]"
    and fresh: "lab n @ [c] \<notin> labels ac lab"
  shows "trie ac' root (lab(size_ac ac := lab n @ [c]))"
proof -
  let ?k = "size_ac ac" let ?lab = "lab(?k := lab n @ [c])"
  have len: "size_ac ac' = Suc ?k" by (simp add: nodes)
  have e: "edges ac' i = (if i = n then (c, ?k) # edges ac n else if i = ?k then [] else edges ac i)"
    if "i < Suc ?k" for i
    using that n by (auto simp: nodes nth_list_update nth_append new_node_def)
  have old: "m < ?k \<and> lab m = lab i @ [b]" if "i < ?k" "(b, m) \<in> set (edges ac i)" for i b m
    using trie_edge [OF t that] .
  have "inj_on ?lab {..<Suc ?k}"
    using t fresh unfolding labels_iff by (auto simp: trie_def inj_on_def less_Suc_eq)
  moreover have "distinct (map snd (edges ac' i)) \<and>
      (\<forall>e\<in>set (edges ac' i). snd e < Suc ?k \<and> ?lab (snd e) = ?lab i @ [fst e])"
    if i: "i < Suc ?k" for i
  proof -
    consider "i = ?k" | "i < ?k" using i by (auto simp: less_Suc_eq)
    then show ?thesis
    proof cases
      case 1
      then show ?thesis using e [OF i] n by simp
    next
      case 2
      have d: "distinct (map snd (edges ac i))" using t 2 by (simp add: trie_def)
      have o: "snd x < ?k \<and> lab (snd x) = lab i @ [fst x]" if "x \<in> set (edges ac i)" for x
        using old [OF 2, of "fst x" "snd x"] that by simp
      then have "?k \<notin> snd ` set (edges ac i)" by fastforce
      moreover have "snd x < Suc ?k \<and> ?lab (snd x) = ?lab i @ [fst x]" if "x \<in> set (edges ac i)" for x
        using o [OF that] 2 by simp
      ultimately show ?thesis using d e [OF i] 2 by (cases "i = n") simp_all
    qed
  qed
  moreover have "\<exists>i<Suc ?k. m \<in> snd ` set (edges ac' i)" if m: "m < Suc ?k" "m \<noteq> root" for m
  proof (cases "m = ?k")
    case True
    then show ?thesis using e [of n] n by (auto intro!: exI [of _ n])
  next
    case False
    then have "m < ?k" using m(1) by simp
    then obtain i where "i < ?k" "m \<in> snd ` set (edges ac i)"
      using m(2) t unfolding trie_def by blast
    then show ?thesis using e [of i] by (auto intro!: exI [of _ i])
  qed
  ultimately show ?thesis using t len by (simp add: trie_def)
qed

lemma get_or_create_built:
  assumes b: "built ac root lab ins" and n: "n < size_ac ac"
    and r: "af_ac_get_or_create_next kz n c ac = (r, ac')"
  shows "\<exists>lab'. built ac' root lab' ins \<and> size_ac ac \<le> size_ac ac' \<and> (\<forall>i < size_ac ac. lab' i = lab i) \<and>
     (\<forall>m. r = Some m \<longrightarrow> m < size_ac ac' \<and> lab' m = lab n @ [c]) \<and> (r = None \<longrightarrow> \<not> (\<forall>k. kz k))"
proof (cases "af_ac_find_next ac (Some n) c")
  case (Some m)
  then have "r = Some m" "ac' = ac" using r by (simp_all add: af_ac_get_or_create_next_def)
  moreover have "m < size_ac ac \<and> lab m = lab n @ [c]"
    using find_next_iff b n Some by (auto simp: built_def)
  ultimately show ?thesis using b by auto
next
  case None
  have t: "trie ac root lab" using b by (simp add: built_def)
  have fresh: "lab n @ [c] \<notin> labels ac lab" using find_next_None_iff [OF t n] None by simp
  show ?thesis
  proof (cases "kz (ac_allocs ac) \<and> kz (Suc (ac_allocs ac))")
    case False
    then have "r = None" "\<not> (\<forall>k. kz k)" "\<exists>k. ac' = ac\<lparr>ac_allocs := k\<rparr>"
      using r None by (auto simp: af_ac_get_or_create_next_def af_ac_alloc_node_def split: if_splits)
    then show ?thesis using b by (auto intro!: exI [of _ lab])
  next
    case True
    let ?k = "size_ac ac" let ?lab = "lab(?k := lab n @ [c])"
    have r': "r = Some ?k" and nodes: "ac_nodes ac' = (ac_nodes ac @ [new_node])
       [n := (ac_nodes ac ! n)\<lparr>an_edges := (c, ?k) # edges ac n\<rparr>]"
      and rest: "ac_root ac' = ac_root ac" "ac_node_count ac' = ac_node_count ac + 1"
      using r None True n
      by (auto simp: af_ac_get_or_create_next_def af_ac_alloc_node_def Let_def set_node_def nth_append)
    have t': "trie ac' root ?lab" by (rule trie_new_child [OF t n nodes fresh])
    have "an_output (ac_nodes ac' ! i) = filter (\<lambda>f. fn_host_url f = ?lab i) ins"
      if "i < Suc ?k" for i
    proof (cases "i = ?k")
      case True
      have "filter (\<lambda>f. fn_host_url f = lab n @ [c]) ins = []"
        using b fresh by (auto simp: built_def filter_empty_conv)
      then show ?thesis using True n by (simp add: nodes nth_append new_node_def)
    next
      case False
      then show ?thesis using b that n by (auto simp: built_def nodes nth_list_update nth_append)
    qed
    moreover have "labels ac lab \<subseteq> labels ac' ?lab" by (auto simp: labels_def nodes)
    ultimately have "built ac' root ?lab ins"
      using b t' rest by (auto simp: built_def nodes)
    then show ?thesis using r' by (auto simp: nodes intro!: exI [of _ ?lab])
  qed
qed

lemma insert_path_built:
  "built ac root lab ins \<Longrightarrow> cur < size_ac ac \<Longrightarrow> insert_path kz cur w ac = (r, ac') \<Longrightarrow>
     \<exists>lab'. built ac' root lab' ins \<and> (\<forall>m. r = Some m \<longrightarrow> m < size_ac ac' \<and> lab' m = lab cur @ w) \<and>
       (r = None \<longrightarrow> \<not> (\<forall>k. kz k))"
proof (induction kz cur w ac arbitrary: lab rule: insert_path.induct)
  case (1 kz cur ac)
  then show ?case by auto
next
  case (2 kz cur c cs ac)
  obtain x ac1 where x: "af_ac_get_or_create_next kz cur c ac = (x, ac1)" by fastforce
  from get_or_create_built [OF "2.prems"(1,2) x] obtain lab1 where
    b1: "built ac1 root lab1 ins" and m1: "\<forall>m. x = Some m \<longrightarrow> m < size_ac ac1 \<and> lab1 m = lab cur @ [c]"
    and none: "x = None \<longrightarrow> \<not> (\<forall>k. kz k)" by blast
  show ?case
  proof (cases x)
    case None
    then show ?thesis using x "2.prems"(3) b1 none by auto
  next
    case (Some child)
    then show ?thesis
      using "2.IH" [OF x [symmetric] Some b1] "2.prems"(3) x m1 by auto
  qed
qed

lemma add_output_built:
  assumes b: "built ac root lab ins" and n: "n < size_ac ac" "lab n = fn_host_url f"
    "fn_host_url f \<noteq> []" and r: "af_ac_add_output kz n f ac = (ok, ac')"
  shows "built ac' root lab (if ok then ins @ [f] else ins) \<and> (\<not> ok \<longrightarrow> \<not> (\<forall>k. kz k))"
proof (cases "kz (ac_allocs ac)")
  case False
  then show ?thesis using r b by (auto simp: af_ac_add_output_def)
next
  case True
  then have ok: ok and nodes: "ac_nodes ac' = (ac_nodes ac)
      [n := (ac_nodes ac ! n)\<lparr>an_output := an_output (ac_nodes ac ! n) @ [f]\<rparr>]"
    and rest: "ac_root ac' = ac_root ac" "ac_node_count ac' = ac_node_count ac"
    using r by (auto simp: af_ac_add_output_def Let_def set_node_def)
  have e: "edges ac' i = edges ac i" for i
    by (cases "i = n") (use n(1) in \<open>simp_all add: nodes\<close>)
  have t: "trie ac' root lab" using b by (simp add: built_def trie_def e) (simp add: nodes)
  have "an_output (ac_nodes ac' ! i) = filter (\<lambda>g. fn_host_url g = lab i) (ins @ [f])"
    if "i < size_ac ac" for i
  proof (cases "i = n")
    case True
    then show ?thesis using b n by (simp add: nodes built_def)
  next
    case False
    then have "fn_host_url f \<noteq> lab i"
      using trie_inj [of ac root lab i n] b that n by (auto simp: built_def)
    then show ?thesis using b that False by (simp add: nodes built_def)
  qed
  moreover have "labels ac' lab = labels ac lab" by (simp add: labels_def nodes)
  moreover have "fn_host_url f \<in> labels ac lab" using n unfolding labels_iff by blast
  ultimately show ?thesis using ok t rest b n(3) by (auto simp: built_def nodes)
qed

lemma insert_pattern_built:
  assumes b: "built ac root lab ins" and f: "fn_host_url f \<noteq> []"
    and r: "af_ac_insert_pattern kz f ac = (ok, ac')"
  shows "\<exists>lab'. built ac' root lab' (if ok then ins @ [f] else ins) \<and> (\<not> ok \<longrightarrow> \<not> (\<forall>k. kz k))"
proof -
  have root: "ac_root ac = Some root" "root < size_ac ac" "lab root = []"
    using b trie_root by (auto simp: built_def)
  obtain x ac1 where x: "insert_path kz root (fn_host_url f) ac = (x, ac1)" by fastforce
  from insert_path_built [OF b root(2) x] root(3) obtain lab1 where
    b1: "built ac1 root lab1 ins" and m1: "\<forall>m. x = Some m \<longrightarrow> m < size_ac ac1 \<and> lab1 m = fn_host_url f"
    and none: "x = None \<longrightarrow> \<not> (\<forall>k. kz k)" by auto
  show ?thesis
  proof (cases x)
    case None
    then show ?thesis using r root f x b1 none by (auto simp: af_ac_insert_pattern_def)
  next
    case (Some m)
    then have "af_ac_add_output kz m f ac1 = (ok, ac')"
      using r root f x by (simp add: af_ac_insert_pattern_def)
    then show ?thesis using add_output_built [OF b1 _ _ f] m1 Some by blast
  qed
qed

lemma insert_features_built:
  "built ac root lab ins \<Longrightarrow> \<exists>lab' new. built (insert_features kz fs ac) root lab' (ins @ new) \<and>
     subseq new (filter ac_eligible fs) \<and> ((\<forall>k. kz k) \<longrightarrow> new = filter ac_eligible fs)"
proof (induction fs arbitrary: ac lab ins)
  case Nil
  then show ?case by (intro exI [of _ lab] exI [of _ "[]"]) simp
next
  case (Cons f fs)
  show ?case
  proof (cases "ac_eligible f")
    case False
    then show ?thesis using Cons.IH [OF Cons.prems] by auto
  next
    case True
    obtain ok ac1 where x: "af_ac_insert_pattern kz f ac = (ok, ac1)" by fastforce
    from insert_pattern_built [OF Cons.prems _ x] True obtain lab1 where
      b1: "built ac1 root lab1 (if ok then ins @ [f] else ins)" and ok: "\<not> ok \<longrightarrow> \<not> (\<forall>k. kz k)"
      by (auto simp: ac_eligible_def)
    from Cons.IH [OF b1] obtain lab' new where
      b': "built (insert_features kz fs ac1) root lab' ((if ok then ins @ [f] else ins) @ new)"
      and new: "subseq new (filter ac_eligible fs)" "(\<forall>k. kz k) \<longrightarrow> new = filter ac_eligible fs"
      by blast
    have "insert_features kz (f # fs) ac = insert_features kz fs ac1" using True x by simp
    then show ?thesis
      using b' new ok True
      by (intro exI [of _ lab'] exI [of _ "if ok then f # new else new"]) auto
  qed
qed

section \<open>Fail links\<close>

text \<open>The longest proper suffix of a word that is a label.\<close>

definition is_fail :: "bytes set \<Rightarrow> bytes \<Rightarrow> bytes \<Rightarrow> bool" where
  "is_fail L w s \<longleftrightarrow> s \<in> L \<and> strict_suffix s w \<and> (\<forall>s'\<in>L. strict_suffix s' w \<longrightarrow> suffix s' s)"

definition fail_ok :: "url_ac \<Rightarrow> (nat \<Rightarrow> bytes) \<Rightarrow> nat \<Rightarrow> bool" where
  "fail_ok ac lab n \<longleftrightarrow> (\<exists>f < size_ac ac. an_fail (ac_nodes ac ! n) = Some f \<and>
     is_fail (labels ac lab) (lab n) (lab f))"

text \<open>What both searches along fail links look for: the longest suffix that a byte extends.\<close>

definition step_result ::
  "url_ac \<Rightarrow> (nat \<Rightarrow> bytes) \<Rightarrow> u8 \<Rightarrow> bytes \<Rightarrow> nat option \<Rightarrow> bool" where
  "step_result ac lab c s r = (case r of
      Some m \<Rightarrow> m < size_ac ac \<and> (\<exists>w. lab m = w @ [c] \<and> suffix w s \<and>
        (\<forall>w'. w' @ [c] \<in> labels ac lab \<and> suffix w' s \<longrightarrow> suffix w' w))
    | None \<Rightarrow> \<forall>w'. suffix w' s \<longrightarrow> w' @ [c] \<notin> labels ac lab)"

lemma step_result_next:
  assumes "trie ac root lab" and "s < size_ac ac" and "af_ac_find_next ac (Some s) c = Some m"
  shows "step_result ac lab c (lab s) (Some m)"
  using find_next_iff [OF assms(1,2), of c m] assms(3) by (auto simp: step_result_def)

lemma step_result_root:
  assumes "trie ac root lab" and "af_ac_find_next ac (Some root) c = None"
  shows "step_result ac lab c (lab root) None"
  using find_next_None_iff [OF assms(1) trie_root(2) [OF assms(1)], of c] assms(2)
  by (simp add: step_result_def trie_root(1) [OF assms(1)])

lemma step_result_descend:
  assumes t: "trie ac root lab" and s: "s < size_ac ac"
    and none: "af_ac_find_next ac (Some s) c = None"
    and f: "is_fail (labels ac lab) (lab s) (lab f)" and r: "step_result ac lab c (lab f) r"
  shows "step_result ac lab c (lab s) r"
proof -
  have "suffix (lab f) (lab s)" using f by (simp add: is_fail_def strict_suffix_def)
  moreover have "suffix w (lab f)" if "w @ [c] \<in> labels ac lab" "suffix w (lab s)" for w
  proof -
    have "w \<noteq> lab s" using that(1) none find_next_None_iff [OF t s] by auto
    then have "strict_suffix w (lab s)" using that(2) by (simp add: strict_suffix_def)
    then show ?thesis using f labels_prefix [OF t that(1)] by (simp add: is_fail_def)
  qed
  ultimately show ?thesis
    using r unfolding step_result_def
    by (cases r) (auto intro: suffix_order.trans)
qed

lemma fail_shorter: "is_fail L w s \<Longrightarrow> length s < length w"
  by (auto simp: is_fail_def strict_suffix_def suffix_def)

text \<open>The search ends when the links below the start are right, and finds the longest suffix.\<close>

lemma fail_search_ok:
  assumes t: "trie ac root lab"
  shows "s < size_ac ac \<Longrightarrow>
     (\<And>n. n < size_ac ac \<Longrightarrow> n \<noteq> root \<Longrightarrow> length (lab n) \<le> length (lab s) \<Longrightarrow> fail_ok ac lab n) \<Longrightarrow>
     \<exists>r. fail_search ac root c s = Some r \<and> step_result ac lab c (lab s)
        (case r of Some f \<Rightarrow> Some f | None \<Rightarrow> af_ac_find_next ac (Some root) c)"
proof (induction "length (lab s)" arbitrary: s rule: less_induct)
  case less
  show ?case
  proof (cases "s = root")
    case True
    then show ?thesis
      using step_result_next [OF t trie_root(2) [OF t], of c] step_result_root [OF t, of c]
      by (subst fail_search.simps) (cases "af_ac_find_next ac (Some root) c"; simp)
  next
    case False
    show ?thesis
    proof (cases "af_ac_find_next ac (Some s) c")
      case (Some m)
      then show ?thesis
        using False step_result_next [OF t less.prems(1)] by (subst fail_search.simps) simp
    next
      case None
      obtain f where f: "f < size_ac ac" "an_fail (ac_nodes ac ! s) = Some f"
        and isf: "is_fail (labels ac lab) (lab s) (lab f)"
        using less.prems(2) [OF less.prems(1) False] by (auto simp: fail_ok_def)
      have "length (lab f) < length (lab s)" using fail_shorter [OF isf] .
      then obtain r where "fail_search ac root c f = Some r" and "step_result ac lab c (lab f)
          (case r of Some f \<Rightarrow> Some f | None \<Rightarrow> af_ac_find_next ac (Some root) c)"
        using less.hyps [of f] f(1) less.prems(2) by fastforce
      then show ?thesis
        using False None f(2) step_result_descend [OF t less.prems(1) None isf]
        by (subst fail_search.simps) simp
    qed
  qed
qed

text \<open>The fail link that the pass stores is the right one.\<close>

lemma is_fail_child:
  assumes t: "trie ac root lab" and L: "lab cur @ [c] \<in> labels ac lab"
    and isf: "is_fail (labels ac lab) (lab cur) (lab f)"
    and r: "step_result ac lab c (lab f) r"
  shows "is_fail (labels ac lab) (lab cur @ [c]) (case r of Some m \<Rightarrow> lab m | None \<Rightarrow> [])"
proof -
  have strict: "strict_suffix (w @ [c]) (v @ [c]) \<longleftrightarrow> strict_suffix w v" for w v :: bytes
    by (simp add: strict_suffix_def)
  have cases: "s' = [] \<or> (\<exists>w. s' = w @ [c] \<and> suffix w (lab f))"
    if "s' \<in> labels ac lab" "strict_suffix s' (lab cur @ [c])" for s'
  proof (cases s' rule: rev_cases)
    case Nil
    then show ?thesis by simp
  next
    case (snoc w d)
    then have "d = c" and w: "strict_suffix w (lab cur)"
      using that(2) by (auto simp: strict_suffix_def suffix_def)
    then have "w \<in> labels ac lab" using labels_prefix [OF t] that(1) snoc by blast
    then show ?thesis using isf w snoc \<open>d = c\<close> by (auto simp: is_fail_def)
  qed
  show ?thesis
  proof (cases r)
    case None
    have "[] \<in> labels ac lab" using trie_root [OF t] unfolding labels_iff by blast
    moreover have "s' = []" if "s' \<in> labels ac lab" "strict_suffix s' (lab cur @ [c])" for s'
      using cases [OF that] r None that(1) by (auto simp: step_result_def)
    ultimately show ?thesis using None by (auto simp: is_fail_def strict_suffix_def)
  next
    case (Some m)
    then obtain w where m: "m < size_ac ac" "lab m = w @ [c]" "suffix w (lab f)"
      and best: "\<And>w'. w' @ [c] \<in> labels ac lab \<Longrightarrow> suffix w' (lab f) \<Longrightarrow> suffix w' w"
      using r by (auto simp: step_result_def)
    have "strict_suffix w (lab cur)"
      using m(3) isf by (auto simp: is_fail_def intro: suffix_order.le_less_trans)
    moreover have "lab m \<in> labels ac lab" using m(1) unfolding labels_iff by blast
    moreover have "suffix s' (lab m)" if "s' \<in> labels ac lab" "strict_suffix s' (lab cur @ [c])" for s'
      using cases [OF that] best that(1) m(2) by auto
    ultimately show ?thesis using Some m(2) strict by (auto simp: is_fail_def)
  qed
qed

end
