(* ===== verification/Fwx_Url_AC_Match.thy ===== *)
theory Fwx_Url_AC_Match
  imports Fwx_Url_AC_Search
begin

text \<open>
  The walk of a text: at every byte the state is the longest suffix of the text read that is
  a label, so the outputs along the fail links are the patterns that end here, the longest
  first. \<open>ref_search\<close> is the search this implements, without an automaton.
\<close>

section \<open>The reference search\<close>

text \<open>The features whose pattern is a suffix of a word, those with the longest pattern first.\<close>

fun url_candidates :: "feature_node list \<Rightarrow> bytes \<Rightarrow> feature_node list" where
  "url_candidates fs [] = []"
| "url_candidates fs (c # w) = filter (\<lambda>f. fn_host_url f = c # w) fs @ url_candidates fs w"

fun ref_search :: "(feature_node \<Rightarrow> bool) \<Rightarrow> feature_node list \<Rightarrow> bytes \<Rightarrow> bytes \<Rightarrow> feature_node option" where
  "ref_search P fs seen [] = None"
| "ref_search P fs seen (c # host) = (case find P (url_candidates fs (seen @ [c])) of
      Some f \<Rightarrow> Some f
    | None \<Rightarrow> ref_search P fs (seen @ [c]) host)"

lemma set_url_candidates:
  "f \<in> set (url_candidates fs w) \<longleftrightarrow> f \<in> set fs \<and> fn_host_url f \<noteq> [] \<and> suffix (fn_host_url f) w"
  by (induction w) (auto simp: suffix_Cons)

lemma find_append: "find P (xs @ ys) = (case find P xs of Some x \<Rightarrow> Some x | None \<Rightarrow> find P ys)"
  by (induction xs) auto

lemma ref_search_sound:
  "ref_search P fs seen host = Some f \<Longrightarrow>
     f \<in> set fs \<and> P f \<and> fn_host_url f \<noteq> [] \<and> sublist (fn_host_url f) (seen @ host)"
proof (induction host arbitrary: seen)
  case Nil
  then show ?case by simp
next
  case (Cons c host)
  show ?case
  proof (cases "find P (url_candidates fs (seen @ [c]))")
    case None
    then show ?thesis using Cons.IH [of "seen @ [c]"] Cons.prems by simp
  next
    case (Some g)
    then have g: "g = f" using Cons.prems by simp
    have "f \<in> set (url_candidates fs (seen @ [c]))" "P f"
      using Some g by (auto simp: find_Some_iff)
    then show ?thesis
      unfolding set_url_candidates
      by (auto simp: suffix_def sublist_def) (metis append_assoc append_Cons append_Nil)
  qed
qed

lemma ref_search_None:
  "ref_search P fs seen host = None \<Longrightarrow> f \<in> set fs \<Longrightarrow> P f \<Longrightarrow> fn_host_url f \<noteq> [] \<Longrightarrow>
     host = us @ vs \<Longrightarrow> us \<noteq> [] \<Longrightarrow> \<not> suffix (fn_host_url f) (seen @ us)"
proof (induction host arbitrary: seen us)
  case Nil
  then show ?case by simp
next
  case (Cons c host)
  then obtain us' where us: "us = c # us'" "host = us' @ vs" by (cases us) auto
  have none: "find P (url_candidates fs (seen @ [c])) = None"
    and rest: "ref_search P fs (seen @ [c]) host = None"
    using Cons.prems(1) by (auto split: option.splits)
  show ?case
  proof (cases "us' = []")
    case True
    then show ?thesis using none Cons.prems(2,3,4) us set_url_candidates by (auto simp: find_None_iff)
  next
    case False
    then show ?thesis using Cons.IH [OF rest Cons.prems(2-4) us(2) False] us(1) by simp
  qed
qed

lemma ref_search_iff:
  "(\<exists>f. ref_search P fs [] host = Some f) \<longleftrightarrow>
     (\<exists>f\<in>set fs. P f \<and> fn_host_url f \<noteq> [] \<and> sublist (fn_host_url f) host)"
proof
  assume "\<exists>f. ref_search P fs [] host = Some f"
  then show "\<exists>f\<in>set fs. P f \<and> fn_host_url f \<noteq> [] \<and> sublist (fn_host_url f) host"
    using ref_search_sound [of P fs "[]"] by fastforce
next
  assume "\<exists>f\<in>set fs. P f \<and> fn_host_url f \<noteq> [] \<and> sublist (fn_host_url f) host"
  then obtain f us vs where f: "f \<in> set fs" "P f" "fn_host_url f \<noteq> []"
    and host: "host = (us @ fn_host_url f) @ vs" by (auto simp: sublist_def)
  show "\<exists>f. ref_search P fs [] host = Some f"
  proof (rule ccontr)
    assume "\<nexists>f. ref_search P fs [] host = Some f"
    then have "ref_search P fs [] host = None" by simp
    from ref_search_None [OF this f host] f(3) show False by (simp add: suffixI)
  qed
qed

section \<open>The walk\<close>

definition is_longest :: "bytes set \<Rightarrow> bytes \<Rightarrow> bytes \<Rightarrow> bool" where
  "is_longest L w s \<longleftrightarrow> s \<in> L \<and> suffix s w \<and> (\<forall>s'\<in>L. suffix s' w \<longrightarrow> suffix s' s)"

lemma url_candidates_longest:
  "is_longest L w s \<Longrightarrow> (\<forall>f\<in>set fs. fn_host_url f \<in> L) \<Longrightarrow> url_candidates fs w = url_candidates fs s"
proof (induction w)
  case Nil
  then show ?case by (simp add: is_longest_def)
next
  case (Cons c w)
  show ?case
  proof (cases "s = c # w")
    case False
    then have "c # w \<notin> L" using Cons.prems(1) by (auto simp: is_longest_def suffix_order.antisym)
    then have "filter (\<lambda>f. fn_host_url f = c # w) fs = []"
      using Cons.prems(2) by (auto simp: filter_empty_conv)
    moreover have "is_longest L w s"
      using Cons.prems(1) False by (auto simp: is_longest_def suffix_Cons)
    ultimately show ?thesis using Cons.IH Cons.prems(2) by simp
  qed simp
qed

lemma strict_suffix_Cons: "strict_suffix s (c # t) \<longleftrightarrow> suffix s t"
proof -
  have "s \<noteq> c # t" if "suffix s t"
    using suffix_length_le [OF that] by auto
  then show ?thesis unfolding strict_suffix_def suffix_Cons by blast
qed

lemma url_candidates_fail:
  assumes "is_fail L w s" and "\<forall>f\<in>set fs. fn_host_url f \<in> L"
  shows "url_candidates fs w = filter (\<lambda>f. fn_host_url f = w) fs @ url_candidates fs s"
proof -
  obtain c t where w: "w = c # t" using assms(1) by (cases w) (auto simp: is_fail_def)
  have "is_longest L t s"
    using assms(1) strict_suffix_Cons [of _ c t] unfolding w is_fail_def is_longest_def by simp
  from url_candidates_longest [OF this assms(2)] show ?thesis by (simp add: w)
qed

lemma goto_state_step:
  assumes l: "linked ac root lab ins"
  shows "s < size_ac ac \<Longrightarrow> \<exists>r stat'. goto_state ac root c s stat = Some (case r of Some m \<Rightarrow> m | None \<Rightarrow> root, stat') \<and>
     step_result ac lab c (lab s) r"
proof (induction "length (lab s)" arbitrary: s stat rule: less_induct)
  case less
  have t: "trie ac root lab" using l by (simp add: linked_def built_def)
  show ?case
  proof (cases "af_ac_find_next ac (Some s) c")
    case (Some m)
    then have "goto_state ac root c s stat = Some (m, stat)" by (subst goto_state.simps) simp
    then show ?thesis using step_result_next [OF t less.prems Some] by (intro exI [of _ "Some m"]) simp
  next
    case None
    show ?thesis
    proof (cases "s = root")
      case True
      then have "goto_state ac root c s stat = Some (root, stat)"
        using None by (subst goto_state.simps) simp
      then show ?thesis using True None step_result_root [OF t, of c] by (intro exI [of _ None]) simp
    next
      case False
      then obtain f where f: "f < size_ac ac" "an_fail (ac_nodes ac ! s) = Some f"
        and isf: "is_fail (labels ac lab) (lab s) (lab f)"
        using l less.prems by (auto simp: linked_def fail_ok_def)
      let ?stat = "stat\<lparr>ac_fail_jumps := ac_fail_jumps stat + 1\<rparr>"
      have "goto_state ac root c s stat = goto_state ac root c f ?stat"
        using None False f(2) by (subst goto_state.simps) simp
      then show ?thesis
        using less.hyps [OF fail_shorter [OF isf] f(1), of ?stat]
          step_result_descend [OF t less.prems None isf] by metis
    qed
  qed
qed

lemma goto_state_longest:
  assumes l: "linked ac root lab ins" and s: "s < size_ac ac"
    and longest: "is_longest (labels ac lab) seen (lab s)"
  shows "\<exists>m stat'. goto_state ac root c s stat = Some (m, stat') \<and> m < size_ac ac \<and>
     is_longest (labels ac lab) (seen @ [c]) (lab m)"
proof -
  have t: "trie ac root lab" using l by (simp add: linked_def built_def)
  obtain r stat' where g: "goto_state ac root c s stat = Some (case r of Some m \<Rightarrow> m | None \<Rightarrow> root, stat')"
    and r: "step_result ac lab c (lab s) r" using goto_state_step [OF l s] by blast
  have cases: "u = [] \<or> (\<exists>w. u = w @ [c] \<and> suffix w (lab s))"
    if u: "u \<in> labels ac lab" "suffix u (seen @ [c])" for u
  proof (cases u rule: rev_cases)
    case (snoc w d)
    then have "d = c" "suffix w seen" using u(2) by (auto simp: suffix_def)
    moreover have "w \<in> labels ac lab" using u(1) snoc labels_prefix [OF t] by blast
    ultimately show ?thesis using longest snoc by (auto simp: is_longest_def)
  qed simp
  have "is_longest (labels ac lab) (seen @ [c]) (lab (case r of Some m \<Rightarrow> m | None \<Rightarrow> root))"
  proof (cases r)
    case None
    have "[] \<in> labels ac lab" using trie_root [OF t] unfolding labels_iff by blast
    then show ?thesis using None cases r trie_root(1) [OF t]
      by (auto simp: is_longest_def step_result_def)
  next
    case (Some m)
    then obtain w where m: "m < size_ac ac" "lab m = w @ [c]" "suffix w (lab s)"
      and best: "\<And>w'. w' @ [c] \<in> labels ac lab \<Longrightarrow> suffix w' (lab s) \<Longrightarrow> suffix w' w"
      using r by (auto simp: step_result_def)
    have "suffix u (lab m)" if "u \<in> labels ac lab" "suffix u (seen @ [c])" for u
      using cases [OF that] best that(1) m(2) by auto
    moreover have "suffix (lab m) (seen @ [c])"
      using m(2,3) longest by (auto simp: is_longest_def intro: suffix_order.trans)
    moreover have "lab m \<in> labels ac lab" using m(1) unfolding labels_iff by blast
    ultimately show ?thesis using Some by (auto simp: is_longest_def)
  qed
  moreover have "(case r of Some m \<Rightarrow> m | None \<Rightarrow> root) < size_ac ac"
    using r trie_root(2) [OF t] by (cases r) (auto simp: step_result_def)
  ultimately show ?thesis using g by blast
qed

definition passes :: "flow_info \<Rightarrow> bool \<Rightarrow> feature_node \<Rightarrow> bool" where
  "passes flow check_basic_cond f \<longleftrightarrow> (check_basic_cond \<longrightarrow> af_match_basic_cond flow f)"

lemma scan_outputs_find:
  "\<exists>stat'. scan_outputs flow cbc fs stat = (find (passes flow cbc) fs, stat')"
  by (induction fs arbitrary: stat) (auto simp: passes_def Let_def)

lemma scan_states_find:
  assumes l: "linked ac root lab ins"
  shows "s < size_ac ac \<Longrightarrow> \<exists>stat'. scan_states ac root flow cbc (Some s) stat =
     Some (find (passes flow cbc) (url_candidates ins (lab s)), stat')"
proof (induction "length (lab s)" arbitrary: s stat rule: less_induct)
  case less
  have b: "built ac root lab ins" and t: "trie ac root lab"
    using l by (simp_all add: linked_def built_def)
  show ?case
  proof (cases "s = root")
    case True
    then show ?thesis using trie_root(1) [OF t] by (subst scan_states.simps) simp
  next
    case False
    then obtain f where f: "f < size_ac ac" "an_fail (ac_nodes ac ! s) = Some f"
      and isf: "is_fail (labels ac lab) (lab s) (lab f)"
      using l less.prems by (auto simp: linked_def fail_ok_def)
    have hosts: "\<forall>f\<in>set ins. fn_host_url f \<in> labels ac lab" using b by (simp add: built_def)
    have out: "an_output (ac_nodes ac ! s) = filter (\<lambda>g. fn_host_url g = lab s) ins"
      using b less.prems by (simp add: built_def)
    obtain stat1 where 1: "scan_outputs flow cbc (an_output (ac_nodes ac ! s)) stat =
        (find (passes flow cbc) (an_output (ac_nodes ac ! s)), stat1)"
      using scan_outputs_find by blast
    obtain stat2 where 2: "scan_states ac root flow cbc (Some f) stat1 =
        Some (find (passes flow cbc) (url_candidates ins (lab f)), stat2)"
      using less.hyps [OF fail_shorter [OF isf] f(1)] by blast
    show ?thesis
      using False 1 2 f(2) out
      by (subst scan_states.simps)
        (auto simp: url_candidates_fail [OF isf hosts] find_append split: option.split)
  qed
qed

lemma match_text_ref:
  assumes l: "linked ac root lab ins"
  shows "s < size_ac ac \<Longrightarrow> is_longest (labels ac lab) seen (lab s) \<Longrightarrow>
     \<exists>stat'. match_text ac root flow cbc s host stat =
       Some (ref_search (passes flow cbc) ins seen host, stat')"
proof (induction host arbitrary: s seen stat)
  case Nil
  then show ?case by simp
next
  case (Cons c host)
  obtain m stat1 where g: "goto_state ac root c s (stat\<lparr>ac_state_steps := ac_state_steps stat + 1\<rparr>) = Some (m, stat1)"
    and m: "m < size_ac ac" "is_longest (labels ac lab) (seen @ [c]) (lab m)"
    using goto_state_longest [OF l Cons.prems] by blast
  obtain stat2 where 2: "scan_states ac root flow cbc (Some m) stat1 =
      Some (find (passes flow cbc) (url_candidates ins (lab m)), stat2)"
    using scan_states_find [OF l m(1)] by blast
  have "\<forall>f\<in>set ins. fn_host_url f \<in> labels ac lab" using l by (simp add: linked_def built_def)
  from url_candidates_longest [OF m(2) this]
  show ?case using g 2 Cons.IH [OF m, of stat2] by (auto split: option.splits)
qed

section \<open>Rebuilding and matching\<close>

lemma linked_cong:
  assumes "ac_nodes a = ac_nodes b" "ac_root a = ac_root b" "ac_node_count a = ac_node_count b"
  shows "linked a root lab ins = linked b root lab ins"
  unfolding linked_def built_def trie_def labels_def fail_ok_def assms ..

lemma rebuild_linked:
  "\<exists>ok ac'. af_rebuild_url_ac_locked kz features ac = Some (ok, ac') \<and>
     ((\<forall>k. kz k) \<longrightarrow> ok) \<and>
     (if ok then ac_ready ac' \<and> \<not> ac_dirty ac' \<and> (\<exists>root lab ins. linked ac' root lab ins \<and>
        subseq ins (filter ac_eligible features) \<and>
        ((\<forall>k. kz k) \<longrightarrow> ins = filter ac_eligible features))
      else \<not> ac_ready ac' \<and> ac_dirty ac')"
proof (cases "kz (ac_allocs ac)")
  case False
  then show ?thesis
    by (auto simp: af_rebuild_url_ac_locked_def af_ac_alloc_node_def af_ac_reset_locked_def)
next
  case True
  let ?ac1 = "(snd (af_ac_alloc_node kz (af_ac_reset_locked ac)))\<lparr>ac_root := Some 0\<rparr>"
  have alloc: "fst (af_ac_alloc_node kz (af_ac_reset_locked ac)) = Some 0"
    and n: "ac_nodes ?ac1 = [new_node]" "ac_node_count ?ac1 = 1"
    using True by (simp_all add: af_ac_alloc_node_def af_ac_reset_locked_def)
  have "built ?ac1 0 (\<lambda>_. []) []"
    unfolding built_def trie_def n by (simp add: new_node_def inj_on_def)
  from insert_features_built [OF this, of kz features] obtain lab new where
    b: "built (insert_features kz features ?ac1) 0 lab new"
    and new: "subseq new (filter ac_eligible features)" "(\<forall>k. kz k) \<longrightarrow> new = filter ac_eligible features"
    by auto
  obtain ok ac' where f: "af_ac_build_fail_links_locked kz (insert_features kz features ?ac1) = Some (ok, ac')"
    and l: "if ok then linked ac' 0 lab new else \<not> (\<forall>k. kz k)"
    using build_fail_links_linked [OF b] by blast
  obtain ac1 where ac1: "af_ac_alloc_node kz (af_ac_reset_locked ac) = (Some 0, ac1)"
    using alloc by (metis prod.collapse)
  have r: "af_rebuild_url_ac_locked kz features ac = Some (ok, if ok
      then ac'\<lparr>ac_ready := True, ac_dirty := False\<rparr> else ac'\<lparr>ac_ready := False, ac_dirty := True\<rparr>)"
    using f unfolding af_rebuild_url_ac_locked_def ac1 by simp
  show ?thesis
  proof (cases ok)
    case True
    let ?ac = "ac'\<lparr>ac_ready := True, ac_dirty := False\<rparr>"
    have "linked ?ac 0 lab new = linked ac' 0 lab new" by (rule linked_cong) simp_all
    then have "linked ?ac 0 lab new" using l True by simp
    moreover have "ac_ready ?ac \<and> \<not> ac_dirty ?ac" by simp
    ultimately show ?thesis using r True new by (intro exI [of _ True] exI [of _ ?ac]) (simp, blast)
  next
    case False
    then show ?thesis using r l by (intro exI [of _ False]) simp
  qed
qed

lemma linked_match:
  assumes l: "linked ac root lab ins" and ready: "ac_ready ac"
  shows "\<exists>stat'. af_match_url_text_ac ac flow stat host cbc =
     Some (ref_search (passes flow cbc) ins [] host, stat')"
proof -
  have r: "ac_root ac = Some root" and t: "trie ac root lab"
    using l by (simp_all add: linked_def built_def)
  have "is_longest (labels ac lab) [] (lab root)"
    using trie_root [OF t] labels_iff by (auto simp: is_longest_def)
  from match_text_ref [OF l trie_root(2) [OF t] this, of flow cbc host stat]
  show ?thesis using r ready
    by (cases "host = []") (simp add: af_match_url_text_ac_def, simp only: af_match_url_text_ac_def, simp)
qed

text \<open>
  C15. The automaton is equivalent to a naive search. When the rebuild gets its memory it ends
  with a ready automaton for every feature list, and walking it over any host text, with or
  without the check of the basic conditions, ends and returns exactly what trying every
  literal pattern at every end position returns: the earliest end, then the longest pattern,
  then the first feature of the list.
\<close>

theorem af_match_url_text_ac_ref_search:
  "\<exists>ac' stat'. af_rebuild_url_ac_locked (\<lambda>_. True) features ac = Some (True, ac') \<and>
     af_match_url_text_ac ac' flow stat host check_basic =
       Some (ref_search (passes flow check_basic) (filter ac_eligible features) [] host, stat')"
proof -
  obtain ac' root lab where r: "af_rebuild_url_ac_locked (\<lambda>_. True) features ac = Some (True, ac')"
    and "ac_ready ac'" "linked ac' root lab (filter ac_eligible features)"
    using rebuild_linked [of "\<lambda>_. True" features ac] by auto
  with linked_match show ?thesis by blast
qed

text \<open>
  What a match means: some feature is returned if and only if a feature whose pattern goes
  into the automaton (not empty, not a regular expression) passes the basic conditions and
  its pattern occurs somewhere in the host text.
\<close>

theorem af_match_url_text_ac_occurs:
  "\<exists>ac' r stat'. af_rebuild_url_ac_locked (\<lambda>_. True) features ac = Some (True, ac') \<and>
     af_match_url_text_ac ac' flow stat host check_basic = Some (r, stat') \<and>
     (r \<noteq> None \<longleftrightarrow> (\<exists>f\<in>set features. ac_eligible f \<and> passes flow check_basic f \<and>
        sublist (fn_host_url f) host))"
proof -
  obtain ac' root lab where r: "af_rebuild_url_ac_locked (\<lambda>_. True) features ac = Some (True, ac')"
    and "ac_ready ac'" "linked ac' root lab (filter ac_eligible features)"
    using rebuild_linked [of "\<lambda>_. True" features ac] by auto
  then obtain stat' where "af_match_url_text_ac ac' flow stat host check_basic =
      Some (ref_search (passes flow check_basic) (filter ac_eligible features) [] host, stat')"
    using linked_match by blast
  with r show ?thesis
    using ref_search_iff [of "passes flow check_basic" "filter ac_eligible features" host]
    by (auto simp: ac_eligible_def)
qed

text \<open>
  C28. Memory may run out anywhere. Whichever allocations fail, the rebuild ends without leaving
  its queue array or following a missing fail link, the ready flag says whether it succeeded
  and the dirty flag the opposite, and a walk of the result ends too: it finds nothing when
  the rebuild failed, and otherwise only a loaded feature whose conditions hold and whose
  pattern occurs in the text.
\<close>

theorem af_rebuild_url_ac_robust:
  "\<exists>ok ac' r stat'. af_rebuild_url_ac_locked kz features ac = Some (ok, ac') \<and>
     ac_ready ac' = ok \<and> ac_dirty ac' = (\<not> ok) \<and>
     af_match_url_text_ac ac' flow stat host check_basic = Some (r, stat') \<and>
     (case r of None \<Rightarrow> True | Some f \<Rightarrow> ok \<and> f \<in> set features \<and> ac_eligible f \<and>
        passes flow check_basic f \<and> sublist (fn_host_url f) host)"
proof -
  obtain ok ac' where r: "af_rebuild_url_ac_locked kz features ac = Some (ok, ac')"
    and spec: "if ok then ac_ready ac' \<and> \<not> ac_dirty ac' \<and> (\<exists>root lab ins. linked ac' root lab ins \<and>
        subseq ins (filter ac_eligible features) \<and>
        ((\<forall>k. kz k) \<longrightarrow> ins = filter ac_eligible features))
      else \<not> ac_ready ac' \<and> ac_dirty ac'"
    using rebuild_linked [of kz features ac] by blast
  show ?thesis
  proof (cases ok)
    case False
    then have "af_match_url_text_ac ac' flow stat host check_basic = Some (None, stat)"
      using spec by (simp add: af_match_url_text_ac_def split: option.split)
    then show ?thesis using r spec False by (intro exI [of _ False] exI) auto
  next
    case True
    then obtain root lab ins where l: "linked ac' root lab ins" "ac_ready ac'" "\<not> ac_dirty ac'"
      and sub: "subseq ins (filter ac_eligible features)" using spec by auto
    obtain stat' where m: "af_match_url_text_ac ac' flow stat host check_basic =
        Some (ref_search (passes flow check_basic) ins [] host, stat')"
      using linked_match [OF l(1,2)] by blast
    have "set ins \<subseteq> set features \<inter> Collect ac_eligible"
      using list_emb_set [OF sub] by auto
    then have "case ref_search (passes flow check_basic) ins [] host of None \<Rightarrow> True
      | Some f \<Rightarrow> f \<in> set features \<and> ac_eligible f \<and> passes flow check_basic f \<and> sublist (fn_host_url f) host"
      using ref_search_sound [of "passes flow check_basic" ins "[]" host] by (auto split: option.split)
    then show ?thesis using r m l True by (intro exI [of _ True] exI [of _ ac'] exI [of _ stat']
        exI [of _ "ref_search (passes flow check_basic) ins [] host"]) (simp split: option.split_asm)
  qed
qed

end
