(* ===== verification/Fwx_Regexp.thy ===== *)
theory Fwx_Regexp
  imports Fwx_Prelude "HOL-Library.Sublist"
begin

text \<open>
  The regular expressions of URL features (\<^verbatim>\<open>oaf/src/regexp.c\<close>): the compiler from text
  to a list of nodes, the backtracking matcher, and its meaning. Pattern and text are C
  strings. Plain \<^verbatim>\<open>char\<close> is unsigned, as the kernel is built (it matters for class ranges
  over bytes above 127 only). Allocation is taken to succeed: \<^verbatim>\<open>getmem\<close> reports a failure
  but \<^verbatim>\<open>compile\<close> uses its result at once.
\<close>

section \<open>The compiler\<close>

datatype re_type = RE_CHAR | RE_DOT | RE_BEGIN | RE_END | RE_STAR | RE_PLUS | RE_QUES | RE_LIST

record re =
  re_kind :: re_type
  re_ch :: int
  re_ccl :: bytes
  re_nccl :: bool

text \<open>
  Nodes come from \<^verbatim>\<open>kmalloc\<close>, so a field that a branch does not set holds whatever was
  there: \<open>junk\<close> is that value of \<^verbatim>\<open>ch\<close> for the node at a position.
\<close>

definition new_re :: "re_type \<Rightarrow> int \<Rightarrow> re" where
  "new_re k ch = \<lparr>re_kind = k, re_ch = ch, re_ccl = [], re_nccl = False\<rparr>"

text \<open>
  The loop over the inside of a class. \<open>prev\<close> is \<^verbatim>\<open>*(regexp - 1)\<close>. A range appends the
  bytes after \<open>prev\<close> up to its end; for a range that runs backwards the count is negative and
  the write position moves back, out of the buffer if it passes its start. \<open>Inr None\<close> is
  \<^verbatim>\<open>err_flag\<close>.
\<close>

definition range_bytes :: "u8 \<Rightarrow> u8 \<Rightarrow> bytes" where
  "range_bytes prev lst = map word_of_nat [unat prev + 1..<unat lst + 1]"

function compile_class :: "u8 \<Rightarrow> bytes \<Rightarrow> bytes \<Rightarrow> (bytes \<times> bytes) option ub_result" where
  "compile_class prev ccl regexp =
     (if length ccl > 256 then Inl (BufferOverflow ''ccl'')
      else case regexp of
        [] \<Rightarrow> Inr None
      | c # cs \<Rightarrow>
          if c = 0x5D then
            (if length ccl > 255 then Inl (BufferOverflow ''ccl'') else Inr (Some (ccl, cs)))
          else if c \<noteq> 0x2D then compile_class c (ccl @ [c]) cs
          else if ccl = [] \<or> (cs \<noteq> [] \<and> hd cs = 0x5D) then Inr None
          else
            let lst = (case cs of [] \<Rightarrow> 0 | d # _ \<Rightarrow> d);
                back = unat prev - unat lst
            in if back > length ccl then Inl (BufferOverflow ''ccl'')
               else compile_class lst (take (length ccl - back) ccl @ range_bytes prev lst) (tl cs))"
  by pat_completeness auto
termination
  by (relation "measure (\<lambda>(prev, ccl, regexp). length regexp)") auto

declare compile_class.simps [simp del]

lemma compile_class_shorter:
  "compile_class prev ccl regexp = Inr (Some (l, rest)) \<Longrightarrow> length rest < length regexp"
proof (induction prev ccl regexp rule: compile_class.induct)
  case (1 prev ccl regexp)
  from "1.prems" show ?case
    by (subst (asm) compile_class.simps)
       (auto split: if_splits list.splits simp: Let_def dest: "1.IH" intro: less_SucI)
qed

text \<open>
  One node per round. The escapes for a digit and a non-digit write index 11 of an array of
  eleven bytes; a backslash at the end makes a node for the NUL.
\<close>

definition re_cons :: "re \<Rightarrow> re list option ub_result \<Rightarrow> re list option ub_result" where
  "re_cons r res = ub_bind res (\<lambda>rs. Inr (map_option (\<lambda>rs. r # rs) rs))"

function compile_from :: "(nat \<Rightarrow> int) \<Rightarrow> nat \<Rightarrow> bytes \<Rightarrow> re list option ub_result" where
  "compile_from junk n [] = Inr (Some [])"
| "compile_from junk n (c # cs) =
     (if c = 0x5C then
        (case cs of
           [] \<Rightarrow> re_cons (new_re RE_CHAR 0) (compile_from junk (Suc n) [])
         | d # ds \<Rightarrow>
             if d = 0x64 \<or> d = 0x44 then Inl (BufferOverflow ''ccl'')
             else re_cons (new_re RE_CHAR (uint d)) (compile_from junk (Suc n) ds))
      else if c = 0x2E then re_cons (new_re RE_DOT (junk n)) (compile_from junk (Suc n) cs)
      else if c = 0x5E then re_cons (new_re RE_BEGIN 0x5E) (compile_from junk (Suc n) cs)
      else if c = 0x24 then re_cons (new_re RE_END 0x24) (compile_from junk (Suc n) cs)
      else if c = 0x2A then re_cons (new_re RE_STAR (junk n)) (compile_from junk (Suc n) cs)
      else if c = 0x2B then re_cons (new_re RE_PLUS (junk n)) (compile_from junk (Suc n) cs)
      else if c = 0x3F then re_cons (new_re RE_QUES (junk n)) (compile_from junk (Suc n) cs)
      else if c = 0x5B then
        (let nccl = (cs \<noteq> [] \<and> hd cs = 0x5E)
         in case compile_class 0 [] (if nccl then tl cs else cs) of
              Inl e \<Rightarrow> Inl e
            | Inr None \<Rightarrow> Inr None
            | Inr (Some (ccl, rest)) \<Rightarrow>
                re_cons ((new_re RE_LIST (junk n))\<lparr>re_ccl := ccl, re_nccl := nccl\<rparr>)
                  (compile_from junk (Suc n) rest))
      else re_cons (new_re RE_CHAR (uint c)) (compile_from junk (Suc n) cs))"
  by pat_completeness auto
termination
  by (relation "measure (\<lambda>(junk, n, regexp). length regexp)")
     (auto dest!: compile_class_shorter split: if_splits)

declare compile_from.simps [simp del]

text \<open>
  \<open>Inr None\<close> for NULL: the pattern was malformed (its nodes are freed), or it was empty and
  has no nodes.
\<close>

definition compile :: "(nat \<Rightarrow> int) \<Rightarrow> bytes \<Rightarrow> re list option ub_result" where
  "compile junk regexp = ub_bind (compile_from junk 0 regexp)
     (\<lambda>res. Inr (if res = Some [] then None else res))"

section \<open>The matcher\<close>

definition in_list :: "u8 \<Rightarrow> re \<Rightarrow> bool" where
  "in_list ch r = (if re_kind r \<noteq> RE_LIST then False
     else (ch \<in> set (c_string (re_ccl r))) \<noteq> re_nccl r)"

text \<open>\<^verbatim>\<open>MATCH_ONE\<close> and \<^verbatim>\<open>MATCH_ONE_P\<close>: the second also advances the text pointer.\<close>

definition match_one :: "re \<Rightarrow> u8 \<Rightarrow> bool" where
  "match_one r c \<longleftrightarrow> re_kind r = RE_DOT \<or> in_list c r \<or> uint c = re_ch r"

text \<open>
  The repetition loops; \<open>here\<close> is \<^verbatim>\<open>matchhere\<close> on the rest of the expression. The first of
  each pair tries short runs first, the second (\<^verbatim>\<open>_l\<close>) long ones first.
\<close>

fun matchstar :: "(bytes \<Rightarrow> bool) \<Rightarrow> re \<Rightarrow> bytes \<Rightarrow> bool" where
  "matchstar here cur [] = here []"
| "matchstar here cur (c # cs) = (here (c # cs) \<or> match_one cur c \<and> matchstar here cur cs)"

fun matchplus :: "(bytes \<Rightarrow> bool) \<Rightarrow> re \<Rightarrow> bytes \<Rightarrow> bool" where
  "matchplus here cur [] = False"
| "matchplus here cur (c # cs) = (match_one cur c \<and> (here cs \<or> matchplus here cur cs))"

fun matchques :: "(bytes \<Rightarrow> bool) \<Rightarrow> re \<Rightarrow> bytes \<Rightarrow> bool" where
  "matchques here cur [] = here []"
| "matchques here cur (c # cs) = (if match_one cur c then here cs \<or> here (c # cs) else here (c # cs))"

text \<open>\<^verbatim>\<open>do { ... } while (t-- > text)\<close>, from \<open>k\<close> bytes into the text down to its start.\<close>

fun try_back :: "(bytes \<Rightarrow> bool) \<Rightarrow> bytes \<Rightarrow> nat \<Rightarrow> bool" where
  "try_back here str 0 = here str"
| "try_back here str (Suc k) = (here (drop (Suc k) str) \<or> try_back here str k)"

definition matchstar_l :: "(bytes \<Rightarrow> bool) \<Rightarrow> re \<Rightarrow> bytes \<Rightarrow> bool" where
  "matchstar_l here cur str = try_back here str (length (takeWhile (match_one cur) str))"

text \<open>\<^verbatim>\<open>for (; t > text; t--)\<close>: the same without the start itself.\<close>

fun try_back_pos :: "(bytes \<Rightarrow> bool) \<Rightarrow> bytes \<Rightarrow> nat \<Rightarrow> bool" where
  "try_back_pos here str 0 = False"
| "try_back_pos here str (Suc k) = (here (drop (Suc k) str) \<or> try_back_pos here str k)"

definition matchplus_l :: "(bytes \<Rightarrow> bool) \<Rightarrow> re \<Rightarrow> bytes \<Rightarrow> bool" where
  "matchplus_l here cur str = try_back_pos here str (length (takeWhile (match_one cur) str))"

text \<open>The table \<^verbatim>\<open>matchfun[type][match_longest]\<close>.\<close>

fun matchfun :: "re_type \<Rightarrow> bool \<Rightarrow> ((bytes \<Rightarrow> bool) \<Rightarrow> re \<Rightarrow> bytes \<Rightarrow> bool) option" where
  "matchfun RE_STAR longest = Some (if longest then matchstar_l else matchstar)"
| "matchfun RE_PLUS longest = Some (if longest then matchplus_l else matchplus)"
| "matchfun RE_QUES longest = Some matchques"
| "matchfun _ longest = None"

fun matchhere :: "bool \<Rightarrow> re list \<Rightarrow> bytes \<Rightarrow> bool" where
  "matchhere longest [] str = True"
| "matchhere longest [r] str =
     (if re_kind r = RE_END then str = []
      else case str of [] \<Rightarrow> False | c # cs \<Rightarrow> match_one r c)"
| "matchhere longest (r # q # rs) str =
     (case matchfun (re_kind q) longest of
        Some m \<Rightarrow> m (matchhere longest rs) r str
      | None \<Rightarrow> (case str of
            [] \<Rightarrow> False
          | c # cs \<Rightarrow> match_one r c \<and> matchhere longest (q # rs) cs))"

text \<open>
  \<^verbatim>\<open>regexp_match\<close>: -1 when there is nothing compiled, else 1 or 0. Without a leading
  caret every suffix of the text is tried, the empty one included.
\<close>

fun match_anywhere :: "bool \<Rightarrow> re list \<Rightarrow> bytes \<Rightarrow> bool" where
  "match_anywhere longest regexp [] = matchhere longest regexp []"
| "match_anywhere longest regexp (c # cs) =
     (matchhere longest regexp (c # cs) \<or> match_anywhere longest regexp cs)"

definition run_regexp :: "bool \<Rightarrow> re list \<Rightarrow> bytes \<Rightarrow> bool" where
  "run_regexp longest regexp str =
     (if re_kind (hd regexp) = RE_BEGIN then matchhere longest (tl regexp) str
      else match_anywhere longest regexp str)"

definition regexp_match :: "(nat \<Rightarrow> int) \<Rightarrow> bytes \<Rightarrow> bytes \<Rightarrow> int ub_result" where
  "regexp_match junk reg str = ub_bind (compile junk reg) (\<lambda>res.
     Inr (case res of None \<Rightarrow> -1 | Some regexp \<Rightarrow> if run_regexp False regexp str then 1 else 0))"

section \<open>The order of the runs does not matter\<close>

lemma try_back_iff: "try_back here str k \<longleftrightarrow> (\<exists>i\<le>k. here (drop i str))"
  by (induction k) (auto simp: le_Suc_eq)

lemma try_back_pos_iff: "try_back_pos here str k \<longleftrightarrow> (\<exists>i\<le>k. 0 < i \<and> here (drop i str))"
  by (induction k) (auto simp: le_Suc_eq)

lemma ex_le_Suc: "(\<exists>i\<le>Suc k. P i) \<longleftrightarrow> P 0 \<or> (\<exists>i\<le>k. P (Suc i))"
proof -
  have "P i \<Longrightarrow> i \<le> Suc k \<Longrightarrow> P 0 \<or> (\<exists>i\<le>k. P (Suc i))" for i by (cases i) auto
  then show ?thesis by fastforce
qed

lemma matchstar_iff:
  "matchstar here cur str \<longleftrightarrow> (\<exists>i\<le>length (takeWhile (match_one cur) str). here (drop i str))"
  by (induction str) (auto simp: ex_le_Suc)

lemma ex_le_pos: "(\<exists>i\<le>(k :: nat). 0 < i \<and> P i) \<or> P 0 \<longleftrightarrow> (\<exists>i\<le>k. P i)"
  by (metis gr0I le0)

lemma matchplus_iff:
  "matchplus here cur str \<longleftrightarrow>
     (\<exists>i\<le>length (takeWhile (match_one cur) str). 0 < i \<and> here (drop i str))"
proof (induction str)
  case Nil
  then show ?case by simp
next
  case (Cons c cs)
  then show ?case
    using ex_le_pos [of "length (takeWhile (match_one cur) cs)" "\<lambda>i. here (drop i cs)"]
    by (cases "match_one cur c") (simp_all add: ex_le_Suc disj_commute)
qed

lemma matchfun_longest:
  "matchfun k longest = Some m \<Longrightarrow> \<exists>m'. matchfun k longest' = Some m' \<and> m here cur str = m' here cur str"
  by (cases k; cases longest; cases longest') (auto simp: matchstar_l_def matchplus_l_def try_back_iff try_back_pos_iff
      matchstar_iff matchplus_iff)

lemma matchfun_None: "matchfun k longest = None \<longleftrightarrow> matchfun k longest' = None"
  by (cases k) auto

text \<open>
  whether repetitions try short or long runs first (the global \<^verbatim>\<open>match_longest\<close>, and
  with it half of the table of functions) never changes what matches.
\<close>

theorem matchhere_longest: "matchhere True regexp str = matchhere False regexp str"
proof (induction regexp arbitrary: str rule: induct_list012)
  case 1
  then show ?case by simp
next
  case (2 r)
  then show ?case by simp
next
  case (3 r q rs)
  have eq: "matchhere True rs = matchhere False rs" using 3(1) by (rule ext)
  show ?case
  proof (cases "matchfun (re_kind q) True")
    case None
    then have "matchfun (re_kind q) False = None" using matchfun_None by blast
    with None show ?thesis using 3(2) by (simp split: list.split)
  next
    case (Some m)
    then obtain m' where "matchfun (re_kind q) False = Some m'"
      "m (matchhere False rs) r str = m' (matchhere False rs) r str"
      using matchfun_longest by blast
    with Some eq show ?thesis by simp
  qed
qed

section \<open>What an expression means\<close>

definition postfix_op :: "re_type \<Rightarrow> bool" where
  "postfix_op k \<longleftrightarrow> k = RE_STAR \<or> k = RE_PLUS \<or> k = RE_QUES"

text \<open>
  \<open>re_match re u v\<close>: the expression consumes \<open>u\<close> when \<open>v\<close> follows it. A node is repeated by
  the operator after it; an end mark that is the last node wants nothing to follow.
\<close>

inductive re_match :: "re list \<Rightarrow> bytes \<Rightarrow> bytes \<Rightarrow> bool" where
  nothing: "re_match [] [] v"
| at_end: "re_kind r = RE_END \<Longrightarrow> re_match [r] [] []"
| last_atom: "re_kind r \<noteq> RE_END \<Longrightarrow> match_one r c \<Longrightarrow> re_match [r] [c] v"
| atom: "\<not> postfix_op (re_kind q) \<Longrightarrow> match_one r c \<Longrightarrow> re_match (q # rs) u v \<Longrightarrow>
    re_match (r # q # rs) (c # u) v"
| star_zero: "re_kind q = RE_STAR \<Longrightarrow> re_match rs u v \<Longrightarrow> re_match (r # q # rs) u v"
| star_more: "re_kind q = RE_STAR \<Longrightarrow> match_one r c \<Longrightarrow> re_match (r # q # rs) u v \<Longrightarrow>
    re_match (r # q # rs) (c # u) v"
| plus_one: "re_kind q = RE_PLUS \<Longrightarrow> match_one r c \<Longrightarrow> re_match rs u v \<Longrightarrow>
    re_match (r # q # rs) (c # u) v"
| plus_more: "re_kind q = RE_PLUS \<Longrightarrow> match_one r c \<Longrightarrow> re_match (r # q # rs) u v \<Longrightarrow>
    re_match (r # q # rs) (c # u) v"
| ques_zero: "re_kind q = RE_QUES \<Longrightarrow> re_match rs u v \<Longrightarrow> re_match (r # q # rs) u v"
| ques_one: "re_kind q = RE_QUES \<Longrightarrow> match_one r c \<Longrightarrow> re_match rs u v \<Longrightarrow>
    re_match (r # q # rs) (c # u) v"

inductive_simps re_match_Nil [simp]: "re_match [] u v"

lemma matchfun_atom: "\<not> postfix_op k \<Longrightarrow> matchfun k longest = None"
  by (cases k) (simp_all add: postfix_op_def)

lemma matchstar_step: "match_one cur c \<Longrightarrow> matchstar here cur cs \<Longrightarrow> matchstar here cur (c # cs)"
  by simp

lemma matchques_here: "here str \<Longrightarrow> matchques here cur str"
  by (cases str) simp_all

lemma matchhere_complete: "re_match regexp u v \<Longrightarrow> matchhere False regexp (u @ v)"
proof (induction rule: re_match.induct)
  case (star_zero q rs u v r)
  then show ?case by (cases "u @ v") simp_all
qed (simp_all add: matchfun_atom matchques_here)

lemma matchstar_sound:
  assumes "\<And>t. here t \<Longrightarrow> \<exists>u v. t = u @ v \<and> re_match rs u v" and "re_kind q = RE_STAR"
  shows "matchstar here r t \<Longrightarrow> \<exists>u v. t = u @ v \<and> re_match (r # q # rs) u v"
proof (induction t)
  case Nil
  then show ?case using assms by (fastforce intro: star_zero)
next
  case (Cons c cs)
  show ?case
  proof (cases "here (c # cs)")
    case True
    then show ?thesis using assms by (blast intro: star_zero)
  next
    case False
    with Cons have "match_one r c" and "\<exists>u v. cs = u @ v \<and> re_match (r # q # rs) u v" by auto
    then obtain u v where "c # cs = (c # u) @ v" and "re_match (r # q # rs) (c # u) v"
      using assms(2) by (auto intro: star_more)
    then show ?thesis by blast
  qed
qed

lemma matchplus_sound:
  assumes "\<And>t. here t \<Longrightarrow> \<exists>u v. t = u @ v \<and> re_match rs u v" and "re_kind q = RE_PLUS"
  shows "matchplus here r t \<Longrightarrow> \<exists>u v. t = u @ v \<and> re_match (r # q # rs) u v"
proof (induction t)
  case Nil
  then show ?case by simp
next
  case (Cons c cs)
  from Cons.prems have one: "match_one r c" and "here cs \<or> matchplus here r cs" by simp_all
  then have "(\<exists>u v. cs = u @ v \<and> re_match rs u v) \<or> (\<exists>u v. cs = u @ v \<and> re_match (r # q # rs) u v)"
    using assms(1) Cons.IH by blast
  then obtain u v where "c # cs = (c # u) @ v" and "re_match (r # q # rs) (c # u) v"
    using one assms(2) by (auto intro: plus_one plus_more)
  then show ?case by blast
qed

lemma matchques_sound:
  assumes "\<And>t. here t \<Longrightarrow> \<exists>u v. t = u @ v \<and> re_match rs u v" and "re_kind q = RE_QUES"
    and "matchques here r t"
  shows "\<exists>u v. t = u @ v \<and> re_match (r # q # rs) u v"
proof (cases "here t")
  case True
  then show ?thesis using assms(1,2) by (blast intro: ques_zero)
next
  case False
  with assms(3) obtain c cs where t: "t = c # cs" and one: "match_one r c" and "here cs"
    by (cases t) (auto split: if_splits)
  then obtain u v where "cs = u @ v" and "re_match rs u v" using assms(1) by blast
  then have "t = (c # u) @ v" and "re_match (r # q # rs) (c # u) v"
    using t one assms(2) by (simp_all add: ques_one)
  then show ?thesis by blast
qed

lemma matchhere_sound: "matchhere False regexp t \<Longrightarrow> \<exists>u v. t = u @ v \<and> re_match regexp u v"
proof (induction regexp arbitrary: t rule: induct_list012)
  case 1
  then show ?case by simp
next
  case (2 r)
  show ?case
  proof (cases "re_kind r = RE_END")
    case True
    with 2 show ?thesis by (simp add: at_end)
  next
    case False
    with 2 obtain c cs where "t = [c] @ cs" and "match_one r c" by (auto split: list.splits)
    with False show ?thesis using last_atom by blast
  qed
next
  case (3 r q rs)
  show ?case
  proof (cases "postfix_op (re_kind q)")
    case True
    then show ?thesis
      using 3(3) matchstar_sound [OF 3(1)] matchplus_sound [OF 3(1)] matchques_sound [OF 3(1)]
      by (auto simp: postfix_op_def)
  next
    case False
    with 3(3) obtain c cs where t: "t = c # cs" and one: "match_one r c"
      and "matchhere False (q # rs) cs"
      by (auto simp: matchfun_atom split: list.splits)
    then obtain u v where "cs = u @ v" and "re_match (q # rs) u v" using 3(2) by blast
    then have "t = (c # u) @ v" and "re_match (r # q # rs) (c # u) v"
      using t one False by (simp_all add: atom)
    then show ?thesis by blast
  qed
qed

text \<open>
  the backtracking matcher decides exactly the meaning of the expression: it succeeds
  at the start of a text if and only if the text has a prefix that the expression consumes.
\<close>

theorem matchhere_iff:
  "matchhere False regexp t \<longleftrightarrow> (\<exists>u v. t = u @ v \<and> re_match regexp u v)"
  using matchhere_sound matchhere_complete by blast

lemma match_anywhere_iff:
  "match_anywhere longest regexp t \<longleftrightarrow> (\<exists>pre rest. t = pre @ rest \<and> matchhere longest regexp rest)"
proof (induction t)
  case Nil
  then show ?case by simp
next
  case (Cons c cs)
  have "(\<exists>pre rest. c # cs = pre @ rest \<and> P rest) \<longleftrightarrow>
      P (c # cs) \<or> (\<exists>pre rest. cs = pre @ rest \<and> P rest)" for P
    by (metis append_Cons append_Nil append_eq_Cons_conv)
  with Cons show ?case by simp
qed

section \<open>Patterns that are host names\<close>

text \<open>A pattern of letters, digits and dots: no byte of it is special but the dot.\<close>

definition host_pattern :: "bytes \<Rightarrow> bool" where
  "host_pattern s \<longleftrightarrow> set s \<inter> {0x5C, 0x5E, 0x24, 0x2A, 0x2B, 0x3F, 0x5B} = {}"

definition host_node :: "(nat \<Rightarrow> int) \<Rightarrow> nat \<Rightarrow> u8 \<Rightarrow> re" where
  "host_node junk n c = (if c = 0x2E then new_re RE_DOT (junk n) else new_re RE_CHAR (uint c))"

lemma compile_from_host:
  "host_pattern s \<Longrightarrow> \<exists>rs. compile_from junk n s = Inr (Some rs) \<and>
     list_all2 (\<lambda>c r. \<exists>k. r = host_node junk k c) s rs"
proof (induction s arbitrary: n)
  case Nil
  then show ?case by (simp add: compile_from.simps)
next
  case (Cons c cs)
  then obtain rs where "compile_from junk (Suc n) cs = Inr (Some rs)"
    and "list_all2 (\<lambda>c r. \<exists>k. r = host_node junk k c) cs rs"
    by (auto simp: host_pattern_def)
  moreover have "compile_from junk n (c # cs) = re_cons (host_node junk n c) (compile_from junk (Suc n) cs)"
    using Cons.prems by (auto simp: compile_from.simps(2) host_node_def host_pattern_def)
  ultimately show ?case by (auto simp: re_cons_def)
qed

lemma match_one_host: "match_one (host_node junk k p) c \<longleftrightarrow> p = 0x2E \<or> p = c"
  by (auto simp: match_one_def host_node_def new_re_def in_list_def word_uint_eq_iff)

lemma host_node_kind: "re_kind (host_node junk k p) \<in> {RE_DOT, RE_CHAR}"
  by (simp add: host_node_def new_re_def)

lemma matchhere_host:
  "list_all2 (\<lambda>c r. \<exists>k. r = host_node junk k c) s rs \<Longrightarrow>
     matchhere longest rs t \<longleftrightarrow>
       length s \<le> length t \<and> list_all2 (\<lambda>p c. p = 0x2E \<or> p = c) s (take (length s) t)"
proof (induction rs arbitrary: s t rule: induct_list012)
  case 1
  then show ?case by simp
next
  case (2 r)
  then obtain p k where "s = [p]" and "r = host_node junk k p"
    by (auto simp: list_all2_Cons2)
  then show ?case
    using host_node_kind [of junk k p] by (cases t) (auto simp: match_one_host)
next
  case (3 r q rs)
  obtain p s' k where s: "s = p # s'" and r: "r = host_node junk k p"
    and tl: "list_all2 (\<lambda>c r. \<exists>k. r = host_node junk k c) s' (q # rs)"
    using list_all2_Cons2 [THEN iffD1, OF 3(3)] by blast
  obtain p' k' where q: "q = host_node junk k' p'"
    using list_all2_Cons2 [THEN iffD1, OF tl] by blast
  have "matchfun (re_kind q) longest = None" by (simp add: q host_node_def new_re_def)
  then have "matchhere longest (r # q # rs) t =
      (case t of [] \<Rightarrow> False | c # cs \<Rightarrow> match_one r c \<and> matchhere longest (q # rs) cs)"
    by simp
  then show ?case using 3(2) [OF tl] by (cases t) (auto simp: s r match_one_host)
qed

definition dot_occurs :: "bytes \<Rightarrow> bytes \<Rightarrow> bool" where
  "dot_occurs s t \<longleftrightarrow> (\<exists>pre mid post. t = pre @ mid @ post \<and> list_all2 (\<lambda>p c. p = 0x2E \<or> p = c) s mid)"

lemma dot_prefix_iff:
  "length s \<le> length t \<and> list_all2 P s (take (length s) t) \<longleftrightarrow> (\<exists>mid post. t = mid @ post \<and> list_all2 P s mid)"
proof
  assume "length s \<le> length t \<and> list_all2 P s (take (length s) t)"
  then show "\<exists>mid post. t = mid @ post \<and> list_all2 P s mid"
    by (metis append_take_drop_id)
next
  assume "\<exists>mid post. t = mid @ post \<and> list_all2 P s mid"
  then obtain mid post where "t = mid @ post" and "list_all2 P s mid" by blast
  moreover from this have "length s = length mid" by (simp add: list_all2_lengthD)
  ultimately show "length s \<le> length t \<and> list_all2 P s (take (length s) t)" by simp
qed

lemma regexp_match_host:
  assumes "host_pattern reg" and "reg \<noteq> []"
  shows "regexp_match junk reg t = Inr (if dot_occurs reg t then 1 else 0)"
proof -
  obtain rs where c: "compile_from junk 0 reg = Inr (Some rs)"
    and rs: "list_all2 (\<lambda>c r. \<exists>k. r = host_node junk k c) reg rs"
    using compile_from_host [OF assms(1)] by blast
  from rs assms(2) obtain k p where "rs \<noteq> []" and "hd rs = host_node junk k p"
    by (cases rs; cases reg) auto
  then have "re_kind (hd rs) \<noteq> RE_BEGIN" and "compile junk reg = Inr (Some rs)"
    using c by (auto simp: host_node_def new_re_def compile_def)
  moreover have "match_anywhere False rs t \<longleftrightarrow> dot_occurs reg t"
    unfolding match_anywhere_iff matchhere_host [OF rs] dot_prefix_iff dot_occurs_def by blast
  ultimately show ?thesis by (simp add: regexp_match_def run_regexp_def)
qed

lemma sublist_dot_occurs: "sublist reg t \<Longrightarrow> dot_occurs reg t"
  unfolding sublist_def dot_occurs_def by (blast intro: list_all2_refl)

end
