(* ===== verification/Fwx_Dpi.thy ===== *)
theory Fwx_Dpi
  imports Fwx_Flow
begin

text \<open>
  Deep packet inspection (\<^verbatim>\<open>oaf/src/fwx_main.c\<close>): the IP and transport headers, the host
  name of a TLS ClientHello, the request and host of an HTTP request, the QUIC test and the
  address classes. A packet is the memory at its IP header; the payload is the memory from
  \<^verbatim>\<open>l4_data\<close> on. Addresses are kept as the code keeps them, in network byte order
  loaded by a little-endian host.
\<close>

definition be16 :: "mem \<Rightarrow> int \<Rightarrow> u16" where
  "be16 m i = push_bit 8 (ucast (m i)) OR ucast (m (i + 1))"

definition load_le32 :: "mem \<Rightarrow> int \<Rightarrow> u32" where
  "load_le32 m i = ucast (m i) OR push_bit 8 (ucast (m (i + 1))) OR
     push_bit 16 (ucast (m (i + 2))) OR push_bit 24 (ucast (m (i + 3)))"

definition ntohl :: "u32 \<Rightarrow> u32" where
  "ntohl x = push_bit 24 x OR push_bit 8 (x AND 0xFF00) OR
     (drop_bit 8 x AND 0xFF00) OR drop_bit 24 x"

lemma be16_agree: "agree_below n m m' \<Longrightarrow> 0 \<le> i \<Longrightarrow> i + 1 < n \<Longrightarrow> be16 m i = be16 m' i"
  by (simp add: be16_def agree_belowD [of n m m'])

section \<open>Headers\<close>

definition ETH_P_IP :: u16 where "ETH_P_IP = 0x0800"
definition ETH_P_IPV6 :: u16 where "ETH_P_IPV6 = 0x86DD"

text \<open>\<^verbatim>\<open>skb->protocol\<close> in host byte order, and the memory at the network header.\<close>

record sk_buff =
  skb_protocol :: u16
  skb_nh :: mem

definition parse_l4 :: "mem \<Rightarrow> int \<Rightarrow> flow_info \<Rightarrow> bool \<times> flow_info" where
  "parse_l4 ipp ipp_len flow =
     (if fl_l4_protocol flow = IPPROTO_TCP then
        let doff = uint (drop_bit 4 (ipp 12))
        in (True, flow\<lparr>fl_l4_len := ipp_len - doff * 4, fl_l4_data := (\<lambda>i. ipp (doff * 4 + i)),
                       fl_dport := be16 ipp 2, fl_sport := be16 ipp 0\<rparr>)
      else if fl_l4_protocol flow = IPPROTO_UDP then
        (True, flow\<lparr>fl_l4_len := uint (be16 ipp 4) - 8, fl_l4_data := (\<lambda>i. ipp (8 + i)),
                    fl_dport := be16 ipp 2, fl_sport := be16 ipp 0\<rparr>)
      else (False, flow))"

text \<open>The truth value says whether the return value is 0.\<close>

definition parse_flow_proto :: "sk_buff option \<Rightarrow> flow_info \<Rightarrow> bool \<times> flow_info" where
  "parse_flow_proto skb flow = (case skb of
      None \<Rightarrow> (False, flow)
    | Some skb \<Rightarrow>
        let h = skb_nh skb in
        if skb_protocol skb = ETH_P_IP then
          let ihl = uint (h 0 AND 0xF)
          in parse_l4 (\<lambda>i. h (ihl * 4 + i)) (uint (be16 h 2) - ihl * 4)
               (flow\<lparr>fl_src := load_le32 h 12, fl_dst := load_le32 h 16,
                     fl_l4_protocol := uint (h 9)\<rparr>)
        else if skb_protocol skb = ETH_P_IPV6 then
          parse_l4 (\<lambda>i. h (40 + i)) (uint (be16 h 4))
            (flow\<lparr>fl_src6 := Some (slice h 8 16), fl_dst6 := Some (slice h 24 16),
                  fl_l4_protocol := uint (h 6)\<rparr>)
        else (False, flow))"

section \<open>TLS\<close>

definition HTTPS_URL_OFFSET :: int where "HTTPS_URL_OFFSET = 9"
definition HTTPS_LEN_OFFSET :: int where "HTTPS_LEN_OFFSET = 7"

definition domain_char :: "u8 \<Rightarrow> bool" where
  "domain_char c \<longleftrightarrow> (0x61 \<le> c \<and> c \<le> 0x7A) \<or> (0x41 \<le> c \<and> c \<le> 0x5A) \<or> is_digit c \<or>
     c = 0x2E \<or> c = 0x2D \<or> c = 0x3A"

definition check_domain :: "mem \<Rightarrow> int \<Rightarrow> int \<Rightarrow> bool" where
  "check_domain m pos len = list_all domain_char (slice m pos len)"

datatype https_result = HTTPS_FOUND int int | HTTPS_MORE | HTTPS_NONE

text \<open>The loop of \<^verbatim>\<open>dpi_https_proto\<close>.\<close>

function https_scan :: "mem \<Rightarrow> int \<Rightarrow> int \<Rightarrow> https_result" where
  "https_scan p data_len i =
     (if i < data_len then
        if i + HTTPS_URL_OFFSET \<ge> data_len then HTTPS_MORE
        else if p i = 0 \<and> p (i + 1) = 0 \<and> p (i + 2) = 0 \<and> p (i + 3) \<noteq> 0 then
          let url_len = uint (be16 p (i + HTTPS_LEN_OFFSET)) in
          if url_len \<le> int MIN_HOST_LEN \<or> url_len > data_len \<or> url_len > int MAX_HOST_LEN
          then https_scan p data_len (i + 1)
          else if i + HTTPS_URL_OFFSET + url_len < data_len \<and>
              check_domain p (i + HTTPS_URL_OFFSET) url_len
          then HTTPS_FOUND (i + HTTPS_URL_OFFSET) url_len
          else https_scan p data_len (i + 1)
        else https_scan p data_len (i + 1)
      else HTTPS_NONE)"
  by auto
termination by (relation "measure (\<lambda>(p, data_len, i). nat (data_len - i))") auto

declare https_scan.simps [simp del]

definition dpi_https_proto :: "flow_info \<Rightarrow> bool \<times> flow_info" where
  "dpi_https_proto flow =
     (let p = fl_l4_data flow; data_len = fl_l4_len flow in
      if data_len < 16 then (False, flow)
      else if \<not> ((p 0 = 0x16 \<and> p 1 = 0x03 \<and> p 5 = 0x01) \<or> fl_client_hello flow) then (False, flow)
      else (case https_scan p data_len 0 of
          HTTPS_FOUND pos len \<Rightarrow>
            (True, flow\<lparr>fl_https := \<lparr>https_match = True, https_url_pos = Some pos,
                                      https_url_len = len\<rparr>, fl_client_hello := False\<rparr>)
        | HTTPS_MORE \<Rightarrow> (False, flow\<lparr>fl_client_hello := True\<rparr>)
        | HTTPS_NONE \<Rightarrow> (False, flow)))"

text \<open>An offset where the pattern of a server name begins, with the name inside the packet.\<close>

definition sni_at :: "mem \<Rightarrow> int \<Rightarrow> int \<Rightarrow> bool" where
  "sni_at p data_len i \<longleftrightarrow> i + HTTPS_URL_OFFSET < data_len \<and>
     p i = 0 \<and> p (i + 1) = 0 \<and> p (i + 2) = 0 \<and> p (i + 3) \<noteq> 0 \<and>
     (let url_len = uint (be16 p (i + HTTPS_LEN_OFFSET)) in
        int MIN_HOST_LEN < url_len \<and> url_len \<le> int MAX_HOST_LEN \<and>
        i + HTTPS_URL_OFFSET + url_len < data_len \<and>
        check_domain p (i + HTTPS_URL_OFFSET) url_len)"

lemma https_scan_step:
  "0 \<le> i \<Longrightarrow> https_scan p n i =
     (if i + HTTPS_URL_OFFSET < n then
        if sni_at p n i
        then HTTPS_FOUND (i + HTTPS_URL_OFFSET) (uint (be16 p (i + HTTPS_LEN_OFFSET)))
        else https_scan p n (i + 1)
      else if i < n then HTTPS_MORE else HTTPS_NONE)"
  by (subst https_scan.simps) (auto simp: sni_at_def Let_def HTTPS_URL_OFFSET_def)

lemma sni_at_bound: "sni_at p n k \<Longrightarrow> k + HTTPS_URL_OFFSET < n"
  by (simp add: sni_at_def)

text \<open>The scan stops at the first server name, and asks for more data when there is none.\<close>

lemma https_scan_spec:
  "0 \<le> i \<Longrightarrow> i < n \<Longrightarrow>
     (\<exists>k\<ge>i. sni_at p n k \<and> (\<forall>j. i \<le> j \<and> j < k \<longrightarrow> \<not> sni_at p n j) \<and> https_scan p n i =
        HTTPS_FOUND (k + HTTPS_URL_OFFSET) (uint (be16 p (k + HTTPS_LEN_OFFSET)))) \<or>
     ((\<forall>k\<ge>i. \<not> sni_at p n k) \<and> https_scan p n i = HTTPS_MORE)"
proof (induction "nat (n - i)" arbitrary: i rule: less_induct)
  case less
  show ?case
  proof (cases "sni_at p n i")
    case True
    then show ?thesis
      using less.prems sni_at_bound [OF True] by (subst (1 2) https_scan_step) auto
  next
    case no: False
    show ?thesis
    proof (cases "i + HTTPS_URL_OFFSET < n")
      case False
      then have "\<forall>k\<ge>i. \<not> sni_at p n k" using sni_at_bound [of p n] by fastforce
      then show ?thesis using False less.prems by (simp add: https_scan_step)
    next
      case True
      then have e: "https_scan p n i = https_scan p n (i + 1)"
        using no less.prems by (simp add: https_scan_step)
      have "nat (n - (i + 1)) < nat (n - i)" "0 \<le> i + 1" "i + 1 < n"
        using True less.prems by (auto simp: HTTPS_URL_OFFSET_def)
      from less.hyps [OF this] show ?thesis
      proof
        assume "\<exists>k\<ge>i + 1. sni_at p n k \<and> (\<forall>j. i + 1 \<le> j \<and> j < k \<longrightarrow> \<not> sni_at p n j) \<and> https_scan p n (i + 1) =
          HTTPS_FOUND (k + HTTPS_URL_OFFSET) (uint (be16 p (k + HTTPS_LEN_OFFSET)))"
        then obtain k where k: "k \<ge> i + 1" "sni_at p n k" "\<forall>j. i + 1 \<le> j \<and> j < k \<longrightarrow> \<not> sni_at p n j"
          "https_scan p n (i + 1) = HTTPS_FOUND (k + HTTPS_URL_OFFSET) (uint (be16 p (k + HTTPS_LEN_OFFSET)))"
          by blast
        have "\<not> sni_at p n j" if "i \<le> j" "j < k" for j
          using k(3) no that by (cases "j = i") auto
        then show ?thesis using k e by (intro disjI1 exI [of _ k]) auto
      next
        assume r: "(\<forall>k\<ge>i + 1. \<not> sni_at p n k) \<and> https_scan p n (i + 1) = HTTPS_MORE"
        have "\<not> sni_at p n k" if "k \<ge> i" for k using r no that by (cases "k = i") auto
        then show ?thesis using r e by simp
      qed
    qed
  qed
qed

lemma sni_at_agree:
  assumes "agree_below n p p'" and "0 \<le> i"
  shows "sni_at p n i = sni_at p' n i"
proof (cases "i + HTTPS_URL_OFFSET < n")
  case True
  have "p (i + d) = p' (i + d)" if "0 \<le> d" "d \<le> 8" for d
    using agree_belowD [OF assms(1)] assms(2) True that by (simp add: HTTPS_URL_OFFSET_def)
  from this [of 0] this [of 1] this [of 2] this [of 3]
  have b: "p i = p' i" "p (i + 1) = p' (i + 1)" "p (i + 2) = p' (i + 2)" "p (i + 3) = p' (i + 3)"
    by simp_all
  have l: "be16 p (i + HTTPS_LEN_OFFSET) = be16 p' (i + HTTPS_LEN_OFFSET)"
    using be16_agree [OF assms(1)] assms(2) True by (simp add: HTTPS_URL_OFFSET_def HTTPS_LEN_OFFSET_def)
  have "check_domain p (i + HTTPS_URL_OFFSET) len = check_domain p' (i + HTTPS_URL_OFFSET) len"
    if "i + HTTPS_URL_OFFSET + len < n" for len
    using slice_agree [OF assms(1), of "i + HTTPS_URL_OFFSET" len] assms(2) that
    by (simp add: check_domain_def HTTPS_URL_OFFSET_def)
  then show ?thesis unfolding sni_at_def Let_def b l by blast
qed (simp add: sni_at_def)

lemma https_scan_agree:
  "agree_below n p p' \<Longrightarrow> 0 \<le> i \<Longrightarrow> https_scan p n i = https_scan p' n i"
proof (induction "nat (n - i)" arbitrary: i rule: less_induct)
  case less
  have "be16 p (i + HTTPS_LEN_OFFSET) = be16 p' (i + HTTPS_LEN_OFFSET)" if "i + HTTPS_URL_OFFSET < n"
    using be16_agree [OF less.prems(1)] less.prems(2) that
    by (simp add: HTTPS_URL_OFFSET_def HTTPS_LEN_OFFSET_def)
  moreover have "https_scan p n (i + 1) = https_scan p' n (i + 1)" if "i + HTTPS_URL_OFFSET < n"
    using less.hyps [of "i + 1"] less.prems that by (simp add: HTTPS_URL_OFFSET_def)
  ultimately show ?case
    using less.prems sni_at_agree [OF less.prems] by (simp add: https_scan_step)
qed

definition is_client_hello :: "flow_info \<Rightarrow> bool" where
  "is_client_hello flow \<longleftrightarrow> (fl_l4_data flow 0 = 0x16 \<and> fl_l4_data flow 1 = 0x03 \<and>
     fl_l4_data flow 5 = 0x01) \<or> fl_client_hello flow"

text \<open>
  The server name of a TLS ClientHello. The inspection succeeds exactly when the payload
  (of 16 bytes or more) is a ClientHello, or continues one, and a server-name pattern with a
  plausible name that ends inside the payload begins somewhere in it.
\<close>

theorem dpi_https_proto_iff:
  "fst (dpi_https_proto flow) \<longleftrightarrow> 16 \<le> fl_l4_len flow \<and> is_client_hello flow \<and>
     (\<exists>k\<ge>0. sni_at (fl_l4_data flow) (fl_l4_len flow) k)"
proof (cases "16 \<le> fl_l4_len flow \<and> is_client_hello flow")
  case True
  from https_scan_spec [of 0 "fl_l4_len flow" "fl_l4_data flow"] True show ?thesis
    by (auto simp: dpi_https_proto_def is_client_hello_def Let_def)
qed (auto simp: dpi_https_proto_def is_client_hello_def Let_def)

text \<open>
  What is extracted lies inside the payload: the recorded name begins at least nine bytes
  into it and ends before its last byte, has 5 to 40 bytes, all of them characters of host
  names, and it is the first such name; nothing else of the flow changes but the flag that
  waits for more of the ClientHello, which is cleared.
\<close>

theorem dpi_https_proto_name:
  assumes "dpi_https_proto flow = (True, flow')"
  shows "\<exists>k len. 0 \<le> k \<and> 4 < len \<and> len \<le> 40 \<and> k + 9 + len < fl_l4_len flow \<and>
     list_all domain_char (payload flow (k + 9) len) \<and>
     flow' = flow\<lparr>fl_https := \<lparr>https_match = True, https_url_pos = Some (k + 9), https_url_len = len\<rparr>,
                  fl_client_hello := False\<rparr> \<and>
     (\<nexists>j. 0 \<le> j \<and> j < k \<and> sni_at (fl_l4_data flow) (fl_l4_len flow) j)"
proof -
  let ?p = "fl_l4_data flow" and ?n = "fl_l4_len flow"
  have n: "16 \<le> ?n" using assms by (auto simp: dpi_https_proto_def Let_def split: if_splits)
  obtain pos len where f: "https_scan ?p ?n 0 = HTTPS_FOUND pos len"
    and flow': "flow' = flow\<lparr>fl_https := \<lparr>https_match = True, https_url_pos = Some pos,
       https_url_len = len\<rparr>, fl_client_hello := False\<rparr>"
    using assms by (auto simp: dpi_https_proto_def Let_def split: if_splits https_result.splits)
  then obtain k where k: "k \<ge> 0" "sni_at ?p ?n k" "\<forall>j. 0 \<le> j \<and> j < k \<longrightarrow> \<not> sni_at ?p ?n j"
    and e: "pos = k + 9" "len = uint (be16 ?p (k + HTTPS_LEN_OFFSET))"
    using https_scan_spec [of 0 ?n ?p] n by (auto simp: HTTPS_URL_OFFSET_def)
  have "4 < len \<and> len \<le> 40 \<and> k + 9 + len < ?n \<and> list_all domain_char (payload flow (k + 9) len)"
    using k(2) unfolding e sni_at_def Let_def check_domain_def payload_def
      HTTPS_URL_OFFSET_def MIN_HOST_LEN_def MAX_HOST_LEN_def by simp
  then show ?thesis using k flow' e(1) by blast
qed

text \<open>
  No read outside the payload: memory that differs from the packet only past \<^verbatim>\<open>l4_len\<close>
  gives the same result and the same flow.
\<close>

theorem dpi_https_proto_inside:
  assumes "agree_below (fl_l4_len flow) (fl_l4_data flow) p'"
  shows "dpi_https_proto (flow\<lparr>fl_l4_data := p'\<rparr>) =
     map_prod id (\<lambda>f. f\<lparr>fl_l4_data := p'\<rparr>) (dpi_https_proto flow)"
proof (cases "16 \<le> fl_l4_len flow")
  case True
  then have "p' 0 = fl_l4_data flow 0" "p' 1 = fl_l4_data flow 1" "p' 5 = fl_l4_data flow 5"
    using agree_belowD [OF assms] by simp_all
  moreover have "https_scan p' (fl_l4_len flow) 0 = https_scan (fl_l4_data flow) (fl_l4_len flow) 0"
    using https_scan_agree [OF assms, of 0] by simp
  ultimately show ?thesis
    by (simp add: dpi_https_proto_def Let_def split: https_result.split)
qed (simp add: dpi_https_proto_def)

text \<open>A ClientHello with the server name \<^verbatim>\<open>a.ab.com\<close>, for the examples.\<close>

definition hello_flow :: flow_info where
  "hello_flow = flow_zero\<lparr>fl_l4_len := 24, fl_l4_data := mem_of ([0x16, 0x03, 0x01, 0x00, 0x40,
     0x01, 0, 0, 0, 0x0D, 0, 0x0B, 0, 0, 8] @ cstr ''a.ab.com'' @ [0xFF])\<rparr>"

lemma dpi_hello_flow: "fst (dpi_https_proto hello_flow)"
  by code_simp

theorem dpi_https_proto_name_witness:
  "\<exists>k len. 0 \<le> k \<and> 4 < len \<and> len \<le> 40 \<and> k + 9 + len < fl_l4_len hello_flow \<and>
     list_all domain_char (payload hello_flow (k + 9) len)"
  using dpi_https_proto_name [of hello_flow "snd (dpi_https_proto hello_flow)"] dpi_hello_flow
  by (metis prod.collapse)

theorem dpi_https_proto_inside_witness:
  "dpi_https_proto (hello_flow\<lparr>fl_l4_data := \<lambda>i. if i < 24 then fl_l4_data hello_flow i else 1\<rparr>) =
     map_prod id (\<lambda>f. f\<lparr>fl_l4_data := \<lambda>i. if i < 24 then fl_l4_data hello_flow i else 1\<rparr>)
       (dpi_https_proto hello_flow)"
  by (rule dpi_https_proto_inside) (simp add: agree_below_def hello_flow_def)

section \<open>HTTP\<close>

definition MIN_HTTP_DATA_LEN :: int where "MIN_HTTP_DATA_LEN = 16"

text \<open>\<^verbatim>\<open>memcmp\<close> of the payload with a constant.\<close>

definition mem_eq :: "mem \<Rightarrow> int \<Rightarrow> bytes \<Rightarrow> bool" where
  "mem_eq m pos s \<longleftrightarrow> slice m pos (int (length s)) = s"

text \<open>What \<^verbatim>\<open>dpi_http_proto\<close> does with the line from \<open>start\<close> to the CR LF at \<open>i\<close>.\<close>

definition http_line :: "mem \<Rightarrow> int \<Rightarrow> int \<Rightarrow> http_proto \<Rightarrow> http_proto" where
  "http_line data start i http =
     (if mem_eq data start (cstr ''POST '') then
        http\<lparr>http_match := True, http_method := HTTP_METHOD_POST,
             http_url_pos := Some (start + 5), http_url_len := i - start - 5\<rparr>
      else if mem_eq data start (cstr ''GET '') then
        http\<lparr>http_match := True, http_method := HTTP_METHOD_GET,
             http_url_pos := Some (start + 4), http_url_len := i - start - 4\<rparr>
      else if mem_eq data start (cstr ''Host:'') then
        http\<lparr>http_host_pos := Some (start + 6), http_host_len := i - start - 6\<rparr>
      else http)"

function http_scan :: "mem \<Rightarrow> int \<Rightarrow> int \<Rightarrow> int \<Rightarrow> http_proto \<Rightarrow> http_proto" where
  "http_scan data data_len i start http =
     (if i < data_len then
        if data i = 0x0D \<and> data (i + 1) = 0x0A then
          let http = http_line data start i http in
          if data (i + 2) = 0x0D \<and> data (i + 3) = 0x0A
          then http\<lparr>http_data_pos := Some (i + 4), http_data_len := data_len - i - 4\<rparr>
          else http_scan data data_len (i + 1) (i + 2) http
        else http_scan data data_len (i + 1) start http
      else http)"
  by auto
termination by (relation "measure (\<lambda>(data, data_len, i, start, http). nat (data_len - i))") auto

declare http_scan.simps [simp del]

definition dpi_http_proto :: "flow_info \<Rightarrow> flow_info" where
  "dpi_http_proto flow =
     (if fl_l4_protocol flow \<noteq> IPPROTO_TCP then flow
      else if fl_l4_len flow < MIN_HTTP_DATA_LEN then flow
      else flow\<lparr>fl_http := http_scan (fl_l4_data flow) (fl_l4_len flow) 0 0 (fl_http flow)\<rparr>)"

text \<open>The reference: the header lines of a request, each with its position.\<close>

definition request_line :: "int \<Rightarrow> bytes \<Rightarrow> http_proto \<Rightarrow> http_proto" where
  "request_line start l http =
     (if take 5 l = cstr ''POST '' then
        http\<lparr>http_match := True, http_method := HTTP_METHOD_POST,
             http_url_pos := Some (start + 5), http_url_len := int (length l) - 5\<rparr>
      else if take 4 l = cstr ''GET '' then
        http\<lparr>http_match := True, http_method := HTTP_METHOD_GET,
             http_url_pos := Some (start + 4), http_url_len := int (length l) - 4\<rparr>
      else if take 5 l = cstr ''Host:'' then
        http\<lparr>http_host_pos := Some (start + 6), http_host_len := int (length l) - 6\<rparr>
      else http)"

fun request_lines :: "int \<Rightarrow> bytes list \<Rightarrow> http_proto \<Rightarrow> http_proto" where
  "request_lines start [] http = http"
| "request_lines start (l # ls) http =
     request_lines (start + int (length l) + 2) ls (request_line start l http)"

definition crlf :: bytes where "crlf = [0x0D, 0x0A]"

definition http_request :: "bytes list \<Rightarrow> bytes \<Rightarrow> bytes" where
  "http_request ls body = concat (map (\<lambda>l. l @ crlf) ls) @ crlf @ body"

lemma http_scan_skip:
  "(\<And>j. i \<le> j \<Longrightarrow> j < k \<Longrightarrow> m j \<noteq> 0x0D) \<Longrightarrow> i \<le> k \<Longrightarrow> k \<le> n \<Longrightarrow>
     http_scan m n i start h = http_scan m n k start h"
proof (induction "nat (k - i)" arbitrary: i)
  case 0
  then show ?case by simp
next
  case (Suc d)
  have i: "i < k" using Suc.hyps(2) by simp
  then have "m i \<noteq> 0x0D" and "i < n" using Suc.prems by auto
  then have "http_scan m n i start h = http_scan m n (i + 1) start h"
    by (subst http_scan.simps) simp
  also have "\<dots> = http_scan m n k start h"
    using Suc.hyps(1) [of "i + 1"] Suc.hyps(2) Suc.prems i by simp
  finally show ?case .
qed

lemma take_before_CR:
  assumes "0x0D \<notin> set P"
  shows "take (length P) (l @ 0x0D # r) = P \<longleftrightarrow> take (length P) l = (P :: bytes)"
proof (cases "length P \<le> length l")
  case False
  then obtain d where d: "length P - length l = Suc d" by (cases "length P - length l") auto
  then have "0x0D \<in> set (take (length P) (l @ 0x0D # r))" using False by simp
  moreover have "length (take (length P) l) \<noteq> length P" using False by simp
  ultimately show ?thesis using assms by metis
qed simp

lemma mem_eq_line:
  assumes "slice m start (int (length r)) = r" and "r = l @ 0x0D # r'" and "length P \<le> length r"
    and "0x0D \<notin> set P" and "length P = k"
  shows "mem_eq m start P \<longleftrightarrow> take k l = P"
proof -
  have "slice m start (int (length P)) = take (length P) (slice m start (int (length r)))"
    using assms(3) by (intro nth_equalityI) auto
  then show ?thesis using assms(1,2,5) take_before_CR [OF assms(4)] by (simp add: mem_eq_def)
qed

lemma slice_tail:
  assumes "slice m start (int (length (a @ b))) = a @ b"
  shows "slice m (start + int (length a)) (int (length b)) = b"
proof (rule nth_equalityI)
  fix i assume "i < length (slice m (start + int (length a)) (int (length b)))"
  then have i: "i < length b" by simp
  have "slice m start (int (length (a @ b))) ! (length a + i) = b ! i" unfolding assms by simp
  then show "slice m (start + int (length a)) (int (length b)) ! i = b ! i"
    using i by (simp add: algebra_simps)
qed simp

lemma http_scan_request:
  "slice m start (int (length (http_request ls body))) = http_request ls body \<Longrightarrow> ls \<noteq> [] \<Longrightarrow>
     (\<forall>l\<in>set ls. l \<noteq> [] \<and> 0x0D \<notin> set l) \<Longrightarrow> n = start + int (length (http_request ls body)) \<Longrightarrow>
     http_scan m n start start h = (request_lines start ls h)
       \<lparr>http_data_pos := Some (n - int (length body)), http_data_len := int (length body)\<rparr>"
proof (induction ls arbitrary: start h)
  case Nil
  then show ?case by simp
next
  case (Cons l ls)
  let ?r = "http_request (l # ls) body" and ?r' = "http_request ls body"
  let ?k = "start + int (length l)"
  have r: "?r = l @ 0x0D # 0x0A # ?r'" by (simp add: http_request_def crlf_def)
  have r2: "2 \<le> length ?r'" by (simp add: http_request_def crlf_def)
  have at: "m (start + int j) = ?r ! j" if "j < length ?r" for j
    using arg_cong [OF Cons.prems(1), of "\<lambda>xs. xs ! j"] that by simp
  have l: "l \<noteq> []" "0x0D \<notin> set l" using Cons.prems(3) by auto
  have "m j \<noteq> 0x0D" if "start \<le> j" "j < ?k" for j
  proof -
    have d: "nat (j - start) < length l" using that by linarith
    then have "m (start + int (nat (j - start))) = l ! nat (j - start)"
      using at [of "nat (j - start)"] by (simp add: r nth_append del: int_nat_eq)
    then have "m j \<in> set l" using that d by simp
    then show ?thesis using l(2) by auto
  qed
  then have 1: "http_scan m n start start h = http_scan m n ?k start h"
    using Cons.prems(4) by (intro http_scan_skip) (auto simp: r)
  have k: "m ?k = 0x0D" "m (?k + 1) = 0x0A" "m (?k + 2) = ?r' ! 0" "m (?k + 3) = ?r' ! 1"
    using at [of "length l"] at [of "length l + 1"] at [of "length l + 2"] at [of "length l + 3"] r2
    by (auto simp: r nth_append algebra_simps numeral_eq_Suc simp flip: length_greater_0_conv)
  have "length ?r = length l + 2 + length ?r'" by (simp add: r)
  moreover have "0 < length l" using l(1) by simp
  ultimately have "5 \<le> length ?r" using r2 by linarith
  then have 2: "http_line m start ?k h = request_line start l h"
    using mem_eq_line [OF Cons.prems(1) r, of "cstr ''POST ''" 5]
      mem_eq_line [OF Cons.prems(1) r, of "cstr ''GET ''" 4]
      mem_eq_line [OF Cons.prems(1) r, of "cstr ''Host:''" 5]
    by (simp add: http_line_def request_line_def)
  have kn: "?k < n" using Cons.prems(4) by (simp add: r)
  show ?case
  proof (cases "ls = []")
    case True
    then have "m (?k + 2) = 0x0D" "m (?k + 3) = 0x0A" using k by (simp_all add: http_request_def crlf_def)
    then have "http_scan m n ?k start h = (request_line start l h)
        \<lparr>http_data_pos := Some (?k + 4), http_data_len := n - ?k - 4\<rparr>"
      using k(1,2) kn 2 by (subst http_scan.simps) (simp add: Let_def)
    then show ?thesis using 1 True Cons.prems(4) by (simp add: r http_request_def crlf_def)
  next
    case False
    then obtain l2 ls2 where ls: "ls = l2 # ls2" by (cases ls) auto
    have l2: "l2 \<noteq> []" "0x0D \<notin> set l2" using Cons.prems(3) ls by auto
    have "?r' ! 0 = hd l2" using l2(1) ls
      by (cases l2) (simp_all add: http_request_def)
    then have ne: "m (?k + 2) \<noteq> 0x0D" using k(3) l2 hd_in_set [OF l2(1)] by metis
    have "http_scan m n ?k start h = http_scan m n (?k + 1) (?k + 2) (request_line start l h)"
      using k(1,2) kn 2 ne by (subst http_scan.simps) (simp add: Let_def)
    also have "\<dots> = http_scan m n (?k + 2) (?k + 2) (request_line start l h)"
    proof (rule http_scan_skip)
      fix j assume "?k + 1 \<le> j" "j < ?k + 2"
      then have "j = ?k + 1" by simp
      then show "m j \<noteq> 0x0D" using k(2) by simp
    qed (use Cons.prems(4) r2 in \<open>simp_all add: r\<close>)
    finally show ?thesis using 1 Cons.IH [of "?k + 2" "request_line start l h"]
      slice_tail [of m start "l @ crlf" ?r'] Cons.prems False
      by (simp add: r crlf_def algebra_simps)
  qed
qed

lemma mem_eq_agree:
  assumes "agree_below n m m'" and "0 \<le> pos" and "pos + int (length P) \<le> n"
  shows "mem_eq m pos P = mem_eq m' pos P"
  using slice_agree [OF assms] by (simp add: mem_eq_def)

lemma http_line_agree:
  assumes "agree_below n m m'" and "0 \<le> start" and "start + 5 \<le> n"
  shows "http_line m start i h = http_line m' start i h"
  using mem_eq_agree [OF assms(1,2), of "cstr ''POST ''"] mem_eq_agree [OF assms(1,2), of "cstr ''GET ''"]
    mem_eq_agree [OF assms(1,2), of "cstr ''Host:''"] assms(3)
  by (simp add: http_line_def)

lemma http_scan_agree:
  "agree_below (n + 4) m m' \<Longrightarrow> 0 \<le> start \<Longrightarrow> start \<le> i + 1 \<Longrightarrow> 0 \<le> i \<Longrightarrow> start \<le> i \<or> m i \<noteq> 0x0D \<Longrightarrow>
     http_scan m n i start h = http_scan m' n i start h"
proof (induction "nat (n - i)" arbitrary: i start h rule: less_induct)
  case less
  show ?case
  proof (cases "i < n")
    case False
    then show ?thesis by (simp add: http_scan.simps)
  next
    case True
    have b: "m i = m' i" "m (i + 1) = m' (i + 1)" "m (i + 2) = m' (i + 2)" "m (i + 3) = m' (i + 3)"
      using agree_belowD [OF less.prems(1)] less.prems(4) True by simp_all
    have m: "nat (n - (i + 1)) < nat (n - i)" using True by simp
    show ?thesis
    proof (cases "m i = 0x0D \<and> m (i + 1) = 0x0A")
      case crlf: True
      then have "http_line m start i h = http_line m' start i h"
        using less.prems True by (intro http_line_agree [OF less.prems(1)]) auto
      moreover have "http_scan m n (i + 1) (i + 2) h' = http_scan m' n (i + 1) (i + 2) h'" for h'
        using less.hyps [OF m less.prems(1)] less.prems(4) crlf by simp
      ultimately show ?thesis
        using crlf b by (subst (1 2) http_scan.simps) (simp add: Let_def)
    next
      case False
      then have e: "http_scan m n i start h = http_scan m n (i + 1) start h"
        using True by (subst http_scan.simps) auto
      have e': "http_scan m' n i start h = http_scan m' n (i + 1) start h"
        using False b True by (subst http_scan.simps) auto
      have "start \<le> i + 1" using less.prems(3) .
      then show ?thesis
        unfolding e e' using less.hyps [OF m less.prems(1,2)] less.prems(4) by simp
    qed
  qed
qed

text \<open>
  HTTP requests are parsed as written. For a TCP payload made of header lines (none empty,
  none with a carriage return), a blank line and a body, the inspection records what reading the
  lines one after the other records: the method and the URL text of the request line, the
  text after \<^verbatim>\<open>Host: \<close>, and the position and length of exactly the body.
\<close>

theorem dpi_http_proto_request:
  assumes "fl_l4_protocol flow = IPPROTO_TCP" and "ls \<noteq> []"
    and "\<forall>l\<in>set ls. l \<noteq> [] \<and> 0x0D \<notin> set l"
    and "fl_l4_len flow = int (length (http_request ls body))" and "16 \<le> fl_l4_len flow"
    and "payload flow 0 (fl_l4_len flow) = http_request ls body"
  shows "dpi_http_proto flow = flow\<lparr>fl_http := (request_lines 0 ls (fl_http flow))
     \<lparr>http_data_pos := Some (fl_l4_len flow - int (length body)),
      http_data_len := int (length body)\<rparr>\<rparr>"
proof -
  have "slice (fl_l4_data flow) 0 (int (length (http_request ls body))) = http_request ls body"
    using assms(4,6) by (simp add: payload_def)
  from http_scan_request [OF this assms(2,3)] show ?thesis
    using assms(1,4,5) by (simp add: dpi_http_proto_def MIN_HTTP_DATA_LEN_def)
qed

theorem dpi_http_proto_request_witness:
  "dpi_http_proto (flow_zero\<lparr>fl_l4_protocol := 6, fl_l4_len := 26, fl_l4_data := mem_of
     (http_request [cstr ''GET / HTTP'', cstr ''Host: ab''] [7, 8])\<rparr>) =
   flow_zero\<lparr>fl_l4_protocol := 6, fl_l4_len := 26, fl_l4_data := mem_of
     (http_request [cstr ''GET / HTTP'', cstr ''Host: ab''] [7, 8]),
     fl_http := \<lparr>http_match = True, http_method = HTTP_METHOD_GET, http_url_pos = Some 4,
       http_url_len = 6, http_host_pos = Some 18, http_host_len = 2, http_data_pos = Some 24,
       http_data_len = 2\<rparr>\<rparr>"
proof -
  let ?ls = "[cstr ''GET / HTTP'', cstr ''Host: ab'']"
  let ?flow = "flow_zero\<lparr>fl_l4_protocol := 6, fl_l4_len := 26, fl_l4_data := mem_of (http_request ?ls [7, 8])\<rparr>"
  have "length (http_request ?ls [7, 8]) = 26" by code_simp
  moreover have "\<forall>l\<in>set ?ls. l \<noteq> [] \<and> 0x0D \<notin> set l" by code_simp
  moreover have "request_lines 0 ?ls http_zero = http_zero\<lparr>http_match := True,
     http_method := HTTP_METHOD_GET, http_url_pos := Some 4, http_url_len := 6,
     http_host_pos := Some 18, http_host_len := 2\<rparr>" by code_simp
  ultimately show ?thesis
    using dpi_http_proto_request [of ?flow ?ls "[7, 8]"]
      slice_mem_of [of "http_request ?ls [7, 8]"]
    by (simp add: payload_def flow_zero_def http_zero_def IPPROTO_TCP_def)
qed

text \<open>
  C34. How far the HTTP inspection reads. Nothing past four bytes after the payload can change
  the result (the two look-aheads and the comparison with a method name); the bound is not
  zero: with a carriage return as the last byte of the payload, the byte after it decides.
\<close>

theorem dpi_http_proto_reads:
  assumes "agree_below (fl_l4_len flow + 4) (fl_l4_data flow) p'"
  shows "fl_http (dpi_http_proto (flow\<lparr>fl_l4_data := p'\<rparr>)) = fl_http (dpi_http_proto flow)"
  using http_scan_agree [OF assms, of 0 0] by (simp add: dpi_http_proto_def)

definition overread_flow :: "u8 \<Rightarrow> flow_info" where
  "overread_flow b = flow_zero\<lparr>fl_l4_protocol := 6, fl_l4_len := 16,
     fl_l4_data := mem_of (cstr ''GET /abcdefghij'' @ [0x0D, b])\<rparr>"

theorem dpi_http_proto_reads_witness:
  "fl_http (dpi_http_proto ((overread_flow 0x0A)\<lparr>fl_l4_data := (fl_l4_data (overread_flow 0x0A))(100 := 1)\<rparr>)) =
     fl_http (dpi_http_proto (overread_flow 0x0A)) \<and>
   agree_below 16 (fl_l4_data (overread_flow 0x0A)) (fl_l4_data (overread_flow 0)) \<and>
   http_match (fl_http (dpi_http_proto (overread_flow 0x0A))) \<and>
   \<not> http_match (fl_http (dpi_http_proto (overread_flow 0)))"
proof -
  have "agree_below 16 (fl_l4_data (overread_flow 0x0A)) (fl_l4_data (overread_flow 0))"
    by (auto simp: agree_below_def overread_flow_def mem_of_def nth_append nth_Cons')
  moreover have "http_match (fl_http (dpi_http_proto (overread_flow 0x0A)))" by code_simp
  moreover have "\<not> http_match (fl_http (dpi_http_proto (overread_flow 0)))" by code_simp
  ultimately show ?thesis
    using dpi_http_proto_reads [of "overread_flow 0x0A" "(fl_l4_data (overread_flow 0x0A))(100 := 1)"]
    by (simp add: agree_below_def overread_flow_def)
qed

section \<open>QUIC\<close>

definition quic_version :: "mem \<Rightarrow> u32" where
  "quic_version data = push_bit 24 (ucast (data 1)) OR push_bit 16 (ucast (data 2)) OR
     push_bit 8 (ucast (data 3)) OR ucast (data 4)"

definition is_quic_flow :: "flow_info \<Rightarrow> bool" where
  "is_quic_flow flow =
     (if fl_l4_protocol flow \<noteq> IPPROTO_UDP then False
      else if fl_l4_len flow < 8 then False
      else let data = fl_l4_data flow in
        if data 0 AND 0x80 \<noteq> 0 then
          (let version = quic_version data
           in version = 1 \<or> version = 0 \<or> version = 0x6b3343cf \<or> 0xff000000 \<le> version \<or>
              fl_dport flow = 443)
        else False)"

section \<open>Searching the payload for a string\<close>

text \<open>
  \<^verbatim>\<open>k_memstr\<close>: the first offset in \<^verbatim>\<open>[data, data + size - len]\<close> where the string lies. Its length is
  kept in a \<^verbatim>\<open>char\<close>, which is exact below 128.
\<close>

definition k_memstr :: "mem \<Rightarrow> int \<Rightarrow> bytes \<Rightarrow> int \<Rightarrow> int option" where
  "k_memstr m data str sz =
     find (\<lambda>p. mem_eq m p str) (map (\<lambda>k. data + int k) [0..<nat (sz - int (length str) + 1)])"

section \<open>Address classes\<close>

definition is_ipv4_broadcast :: "u32 \<Rightarrow> bool" where
  "is_ipv4_broadcast ip \<longleftrightarrow> ip AND 0x00FFFFFF = 0x00FFFFFF"

definition is_ipv4_multicast :: "u32 \<Rightarrow> bool" where
  "is_ipv4_multicast ip \<longleftrightarrow> ip AND 0xF0000000 = 0xE0000000"

definition is_ipv4_private_lan :: "u32 \<Rightarrow> bool" where
  "is_ipv4_private_lan ip \<longleftrightarrow> ip AND 0xFF000000 = 0x0A000000 \<or> ip AND 0xFFF00000 = 0xAC100000 \<or>
     ip AND 0xFFFF0000 = 0xC0A80000"

definition ipv6_addr_loopback :: "bytes \<Rightarrow> bool" where
  "ipv6_addr_loopback addr \<longleftrightarrow> addr = replicate 15 0 @ [1]"

definition af_is_ipv6_private_lan :: "bytes \<Rightarrow> bool" where
  "af_is_ipv6_private_lan addr \<longleftrightarrow> ipv6_addr_loopback addr \<or> addr ! 0 AND 0xFE = 0xFC \<or>
     (addr ! 0 = 0xFE \<and> addr ! 1 AND 0xC0 = 0x80)"

definition af_match_private_lan_dst :: "flow_info \<Rightarrow> bool" where
  "af_match_private_lan_dst f \<longleftrightarrow> (fl_dst f \<noteq> 0 \<and> is_ipv4_private_lan (ntohl (fl_dst f))) \<or>
     (case fl_dst6 f of None \<Rightarrow> False | Some addr \<Rightarrow> af_is_ipv6_private_lan addr)"

definition af_check_bcast_ip :: "flow_info \<Rightarrow> bool" where
  "af_check_bcast_ip f \<longleftrightarrow> fl_src f = 0 \<or> fl_dst f = 0 \<or>
     is_ipv4_broadcast (ntohl (fl_src f)) \<or> is_ipv4_broadcast (ntohl (fl_dst f)) \<or>
     is_ipv4_multicast (ntohl (fl_src f)) \<or> is_ipv4_multicast (ntohl (fl_dst f))"

definition af_match_bcast_packet :: "flow_info \<Rightarrow> bool" where
  "af_match_bcast_packet f \<longleftrightarrow> fl_src f = 0 \<or> fl_dst f = 0 \<or> fl_dst f = 0xffffffff"

definition af_match_local_packet :: "flow_info \<Rightarrow> bool" where
  "af_match_local_packet f \<longleftrightarrow> fl_src f = 0x0100007f \<or> fl_dst f = 0x0100007f"

end
