(* ===== verification/Fwx_Dns.thy ===== *)
theory Fwx_Dns
  imports Fwx_Dpi
begin

text \<open>
  DNS inspection (\<^verbatim>\<open>af_parse_dns_query_name\<close> and \<^verbatim>\<open>dpi_dns_proto\<close> of
  \<^verbatim>\<open>oaf/src/fwx_main.c\<close>): the names of the queries of a message, in lower case, at most
  16 of them, each in an array of 128 bytes. The parser stays inside the message and its
  arrays whatever the bytes are, and parses encoded questions back.
\<close>

definition to_lower :: "u8 \<Rightarrow> u8" where
  "to_lower c = (if 0x41 \<le> c \<and> c \<le> 0x5A then c + 0x20 else c)"

text \<open>The inner loop: the bytes of a label, with the check before every write.\<close>

fun copy_label :: "nat \<Rightarrow> bytes \<Rightarrow> bytes \<Rightarrow> bytes option" where
  "copy_label domain_len out [] = Some out"
| "copy_label domain_len out (c # cs) =
     (if length out \<ge> domain_len - 1 then None
      else copy_label domain_len (out @ [to_lower c]) cs)"

text \<open>The outer loop: the name so far and the offset after it.\<close>

function dns_labels :: "mem \<Rightarrow> int \<Rightarrow> nat \<Rightarrow> int \<Rightarrow> bytes \<Rightarrow> (bytes \<times> int) option" where
  "dns_labels m dns_len domain_len offset out =
     (if offset < dns_len then
        let label_len = uint (m offset); offset1 = offset + 1 in
        if label_len = 0 then Some (out, offset1)
        else if m offset AND 0xC0 \<noteq> 0 then None
        else if label_len > 63 \<or> offset1 + label_len > dns_len then None
        else if out \<noteq> [] \<and> length out \<ge> domain_len - 1 then None
        else (case copy_label domain_len (if out \<noteq> [] then out @ [0x2E] else out)
                  (slice m offset1 label_len) of
            None \<Rightarrow> None
          | Some out' \<Rightarrow> dns_labels m dns_len domain_len (offset1 + label_len) out')
      else Some (out, offset))"
  by auto
termination by (relation "measure (\<lambda>(m, dns_len, domain_len, offset, out). nat (dns_len - offset))")
  (auto intro!: order.strict_trans2 [OF _ uint_ge_0])

declare dns_labels.simps [simp del]

definition af_parse_dns_query_name ::
  "mem \<Rightarrow> int \<Rightarrow> int \<Rightarrow> nat \<Rightarrow> (bytes \<times> u16 \<times> int) option" where
  "af_parse_dns_query_name m dns_len query_offset domain_len =
     (if domain_len \<le> 1 \<or> query_offset < DNS_HEADER_LEN then None
      else if dns_len \<le> DNS_HEADER_LEN \<or> query_offset \<ge> dns_len then None
      else (case dns_labels m dns_len domain_len query_offset [] of
          None \<Rightarrow> None
        | Some (out, offset) \<Rightarrow>
            if out = [] then None
            else if offset + 4 > dns_len then None
            else Some (out, be16 m offset, offset + 4)))"

text \<open>
  The loop over the queries. \<^verbatim>\<open>i\<close> and \<^verbatim>\<open>parsed_num\<close> go up together, so the number of rounds left
  is the smaller of the two differences.
\<close>

fun dns_queries :: "mem \<Rightarrow> int \<Rightarrow> int \<Rightarrow> nat \<Rightarrow> (bytes \<times> u16) list" where
  "dns_queries m dns_len query_offset 0 = []"
| "dns_queries m dns_len query_offset (Suc n) =
     (case af_parse_dns_query_name m dns_len query_offset MAX_DNS_DOMAIN_LEN of
        None \<Rightarrow> []
      | Some (domain, qtype, query_offset') \<Rightarrow>
          (domain, qtype) # dns_queries m dns_len query_offset' n)"

definition DNS_PORT :: u16 where "DNS_PORT = 53"

text \<open>The part after the ports and the transport are known: a message at \<open>m\<close>.\<close>

definition dns_message :: "mem \<Rightarrow> int \<Rightarrow> flow_info \<Rightarrow> bool \<times> flow_info" where
  "dns_message m dns_len flow =
     (let flags = be16 m 2; qdcount = be16 m 4 in
      if flags AND 0x8000 \<noteq> 0 \<or> qdcount = 0 then (False, flow)
      else
        let dns = (fl_dns flow)\<lparr>dns_qdcount := uint qdcount\<rparr>;
            queries = dns_queries m dns_len DNS_HEADER_LEN (min (unat qdcount) MAX_DNS_QUERY_NUM)
        in if queries \<noteq> []
           then (True, flow\<lparr>fl_dns := dns\<lparr>dns_match := True, dns_query_num := int (length queries),
                   dns_domain := map fst queries, dns_qtype := map snd queries\<rparr>\<rparr>)
           else (False, flow\<lparr>fl_dns := dns\<rparr>))"

definition dpi_dns_proto :: "flow_info \<Rightarrow> bool \<times> flow_info" where
  "dpi_dns_proto flow =
     (if fl_l4_len flow \<le> DNS_HEADER_LEN then (False, flow)
      else if fl_sport flow \<noteq> DNS_PORT \<and> fl_dport flow \<noteq> DNS_PORT then (False, flow)
      else if fl_l4_protocol flow = IPPROTO_TCP then
        if fl_l4_len flow \<le> DNS_TCP_PREFIX_LEN + DNS_HEADER_LEN then (False, flow)
        else let msg_len = uint (be16 (fl_l4_data flow) 0);
                 dns_len = fl_l4_len flow - DNS_TCP_PREFIX_LEN in
          if msg_len \<le> 0 \<or> msg_len > dns_len then (False, flow)
          else dns_message (\<lambda>i. fl_l4_data flow (DNS_TCP_PREFIX_LEN + i)) msg_len flow
      else if fl_l4_protocol flow \<noteq> IPPROTO_UDP then (False, flow)
      else dns_message (fl_l4_data flow) (fl_l4_len flow) flow)"

lemma dns_labels_step:
  "offset < dns_len \<Longrightarrow> uint (m offset) \<noteq> 0 \<Longrightarrow> m offset AND 0xC0 = 0 \<Longrightarrow>
     \<not> (uint (m offset) > 63 \<or> offset + 1 + uint (m offset) > dns_len) \<Longrightarrow>
     \<not> (out \<noteq> [] \<and> length out \<ge> n - 1) \<Longrightarrow>
     dns_labels m dns_len n offset out =
       Option.bind (copy_label n (if out \<noteq> [] then out @ [0x2E] else out)
           (slice m (offset + 1) (uint (m offset))))
         (dns_labels m dns_len n (offset + 1 + uint (m offset)))"
  by (subst dns_labels.simps) (auto simp: Let_def split: option.split)

lemma dns_labels_stop:
  "offset < dns_len \<Longrightarrow> uint (m offset) = 0 \<or> m offset AND 0xC0 \<noteq> 0 \<or> uint (m offset) > 63 \<or>
     offset + 1 + uint (m offset) > dns_len \<or> (out \<noteq> [] \<and> length out \<ge> n - 1) \<Longrightarrow>
     dns_labels m dns_len n offset out = (if uint (m offset) = 0 then Some (out, offset + 1) else None)"
  by (subst dns_labels.simps) (auto simp: Let_def)

section \<open>Bounds\<close>

lemma to_lower_not_upper: "\<not> (0x41 \<le> to_lower c \<and> to_lower c \<le> 0x5A)"
  by (simp add: to_lower_def word_le_nat_alt unat_word_ariths)

definition lower_name :: "nat \<Rightarrow> bytes \<Rightarrow> bool" where
  "lower_name n s \<longleftrightarrow> length s < n \<and> (\<forall>c\<in>set s. \<not> (0x41 \<le> c \<and> c \<le> 0x5A))"

lemma copy_label_bounds:
  "copy_label n out cs = Some out' \<Longrightarrow> 1 < n \<Longrightarrow> lower_name n out \<Longrightarrow>
     lower_name n out' \<and> length out' = length out + length cs"
proof (induction n out cs rule: copy_label.induct)
  case (2 n out c cs)
  then have "length out < n - 1" and r: "copy_label n (out @ [to_lower c]) cs = Some out'"
    by (auto split: if_splits)
  moreover from this(1) have "lower_name n (out @ [to_lower c])"
    using "2.prems"(3) to_lower_not_upper [of c] by (auto simp: lower_name_def)
  ultimately show ?case using "2.IH" "2.prems"(2) by simp
qed simp

lemma dns_labels_bounds:
  "dns_labels m dns_len n offset out = Some (out', offset') \<Longrightarrow> 1 < n \<Longrightarrow> lower_name n out \<Longrightarrow>
     lower_name n out' \<and> offset \<le> offset'"
proof (induction m dns_len n offset out rule: dns_labels.induct)
  case (1 m dns_len n offset out)
  let ?l = "uint (m offset)"
  show ?case
  proof (cases "offset < dns_len \<and> ?l \<noteq> 0")
    case False
    then show ?thesis using "1.prems" by (subst (asm) dns_labels.simps) (auto split: if_splits)
  next
    case True
    then obtain out1 where c: "copy_label n (if out \<noteq> [] then out @ [0x2E] else out)
        (slice m (offset + 1) ?l) = Some out1"
      and r: "dns_labels m dns_len n (offset + 1 + ?l) out1 = Some (out', offset')"
      and g: "m offset AND 0xC0 = 0" "\<not> (?l > 63 \<or> offset + 1 + ?l > dns_len)"
        "\<not> (out \<noteq> [] \<and> length out \<ge> n - 1)"
      using "1.prems"(1) by (subst (asm) dns_labels.simps) (auto simp: Let_def split: if_splits option.splits)
    have "lower_name n (if out \<noteq> [] then out @ [0x2E] else out)"
      using "1.prems"(3) g(3) by (auto simp: lower_name_def)
    then have "lower_name n out1" using copy_label_bounds [OF c "1.prems"(2)] by simp
    then have "lower_name n out' \<and> offset + 1 + ?l \<le> offset'"
      using "1.IH" [OF _ refl refl _ _ _ _ c r] True g "1.prems"(2) by (auto simp: g(3))
    moreover have "0 \<le> ?l" by simp
    ultimately show ?thesis by linarith
  qed
qed

lemma parse_name_bounds:
  assumes "af_parse_dns_query_name m dns_len off n = Some (out, qtype, off')" and "1 < n"
  shows "lower_name n out \<and> out \<noteq> [] \<and> off + 4 \<le> off' \<and> off' \<le> dns_len"
proof -
  obtain offset where "dns_labels m dns_len n off [] = Some (out, offset)"
    and "off' = offset + 4" "offset + 4 \<le> dns_len" "out \<noteq> []"
    using assms(1) by (auto simp: af_parse_dns_query_name_def split: if_splits option.splits)
  then show ?thesis using dns_labels_bounds [of m dns_len n off "[]"] assms(2)
    by (auto simp: lower_name_def)
qed

lemma dns_queries_bounds:
  "length (dns_queries m len off k) \<le> k \<and>
     (\<forall>(d, t)\<in>set (dns_queries m len off k). lower_name MAX_DNS_DOMAIN_LEN d \<and> d \<noteq> [])"
proof (induction k arbitrary: off)
  case (Suc k)
  show ?case
  proof (cases "af_parse_dns_query_name m len off MAX_DNS_DOMAIN_LEN")
    case (Some r)
    obtain d t off' where r: "r = (d, t, off')" by (cases r)
    then show ?thesis
      using Some Suc.IH [of off'] parse_name_bounds [of m len off MAX_DNS_DOMAIN_LEN d t off']
      by (auto simp: MAX_DNS_DOMAIN_LEN_def)
  qed simp
qed simp

section \<open>Reads\<close>

lemma dns_labels_agree:
  "agree_below dns_len m m' \<Longrightarrow> 0 \<le> offset \<Longrightarrow>
     dns_labels m dns_len n offset out = dns_labels m' dns_len n offset out"
proof (induction m dns_len n offset out rule: dns_labels.induct)
  case (1 m dns_len n offset out)
  let ?l = "uint (m offset)"
  show ?case
  proof (cases "offset < dns_len")
    case False
    then show ?thesis by (simp add: dns_labels.simps)
  next
    case True
    then have o: "m offset = m' offset" using agree_belowD [OF "1.prems"(1,2)] by simp
    show ?thesis
    proof (cases "?l = 0 \<or> m offset AND 0xC0 \<noteq> 0 \<or> ?l > 63 \<or> offset + 1 + ?l > dns_len \<or>
        (out \<noteq> [] \<and> length out \<ge> n - 1)")
      case stop: True
      then have "m' offset AND 0xC0 \<noteq> 0 \<or> uint (m' offset) = 0 \<or> uint (m' offset) > 63 \<or>
          offset + 1 + uint (m' offset) > dns_len \<or> (out \<noteq> [] \<and> length out \<ge> n - 1)" by (simp only: o) blast
      then show ?thesis using dns_labels_stop [OF True] stop o by metis
    next
      case False
      then have g: "?l \<noteq> 0" "m offset AND 0xC0 = 0" "\<not> (?l > 63 \<or> offset + 1 + ?l > dns_len)"
        "\<not> (out \<noteq> [] \<and> length out \<ge> n - 1)" by simp_all
      have s: "slice m (offset + 1) ?l = slice m' (offset + 1) ?l"
        using slice_agree [OF "1.prems"(1)] "1.prems"(2) g(3) by simp
      have r: "dns_labels m dns_len n (offset + 1 + ?l) out1 = dns_labels m' dns_len n (offset + 1 + ?l) out1"
        if "copy_label n (if out \<noteq> [] then out @ [0x2E] else out) (slice m (offset + 1) ?l) = Some out1"
        for out1
        using "1.IH" [OF True refl refl g(1) _ g(3) g(4) that] g(2) "1.prems" by simp
      have g': "uint (m' offset) \<noteq> 0" "m' offset AND 0xC0 = 0"
        "\<not> (uint (m' offset) > 63 \<or> offset + 1 + uint (m' offset) > dns_len)" using g o by simp_all
      show ?thesis
        using r s o dns_labels_step [of offset dns_len m out n, OF True g]
          dns_labels_step [of offset dns_len m' out n, OF True g' g(4)]
        by (auto split: option.split intro: Option.bind_cong)
    qed
  qed
qed

lemma parse_name_agree:
  assumes "agree_below dns_len m m'"
  shows "af_parse_dns_query_name m dns_len off n = af_parse_dns_query_name m' dns_len off n"
proof (cases "off < DNS_HEADER_LEN \<or> n \<le> 1")
  case False
  then have off: "0 \<le> off" by (simp add: DNS_HEADER_LEN_def)
  have l: "dns_labels m dns_len n off [] = dns_labels m' dns_len n off []"
    using dns_labels_agree [OF assms off] .
  have "be16 m offset = be16 m' offset"
    if "dns_labels m dns_len n off [] = Some (out, offset)" "offset + 4 \<le> dns_len" for out offset
    using be16_agree [OF assms, of offset] dns_labels_bounds [OF that(1)] False off that(2)
    by (auto simp: lower_name_def)
  then show ?thesis
    unfolding af_parse_dns_query_name_def l using l by (auto split: option.split)
qed (auto simp: af_parse_dns_query_name_def)

lemma dns_queries_agree:
  "agree_below dns_len m m' \<Longrightarrow> dns_queries m dns_len off k = dns_queries m' dns_len off k"
  by (induction k arbitrary: off) (auto simp: parse_name_agree split: option.split)

lemma dns_message_agree:
  assumes "agree_below dns_len m m'" and "\<And>i. 0 \<le> i \<Longrightarrow> i < 6 \<Longrightarrow> m i = m' i"
  shows "dns_message m dns_len flow = dns_message m' dns_len flow"
proof -
  have "be16 m 2 = be16 m' 2" "be16 m 4 = be16 m' 4" using assms(2) by (simp_all add: be16_def)
  then show ?thesis unfolding dns_message_def dns_queries_agree [OF assms(1)] by simp
qed

section \<open>Inspection of a message\<close>

text \<open>
  The DNS inspection cannot be led outside the packet or its arrays. For every payload,
  over UDP or TCP, only bytes below \<^verbatim>\<open>l4_len\<close> matter.
\<close>

theorem dpi_dns_proto_inside:
  assumes "agree_below (fl_l4_len flow) (fl_l4_data flow) p'"
  shows "dpi_dns_proto (flow\<lparr>fl_l4_data := p'\<rparr>) =
     map_prod id (\<lambda>f. f\<lparr>fl_l4_data := p'\<rparr>) (dpi_dns_proto flow)"
proof -
  let ?n = "fl_l4_len flow" and ?p = "fl_l4_data flow"
  have mem: "dns_message m len (flow\<lparr>fl_l4_data := p'\<rparr>) =
      map_prod id (\<lambda>f. f\<lparr>fl_l4_data := p'\<rparr>) (dns_message m len flow)" for m len
    by (simp add: dns_message_def Let_def)
  have at: "?p i = p' i" if "0 \<le> i" "i < ?n" for i using agree_belowD [OF assms that] .
  show ?thesis
  proof (cases "DNS_TCP_PREFIX_LEN + DNS_HEADER_LEN < ?n")
    case True
    then have n: "14 < ?n" by (simp add: DNS_TCP_PREFIX_LEN_def DNS_HEADER_LEN_def)
    have len: "be16 ?p 0 = be16 p' 0" using at n by (simp add: be16_def)
    have tcp: "dns_message (\<lambda>i. ?p (DNS_TCP_PREFIX_LEN + i)) l flow =
        dns_message (\<lambda>i. p' (DNS_TCP_PREFIX_LEN + i)) l flow" if "l \<le> ?n - DNS_TCP_PREFIX_LEN" for l
      using that n at by (intro dns_message_agree) (auto simp: agree_below_def DNS_TCP_PREFIX_LEN_def)
    have udp: "dns_message ?p ?n flow = dns_message p' ?n flow"
      using n at by (intro dns_message_agree assms) auto
    show ?thesis
      using tcp [of "uint (be16 p' 0)"] by (simp add: dpi_dns_proto_def Let_def mem len udp)
  next
    case False
    have udp: "dns_message ?p ?n flow = dns_message p' ?n flow" if "DNS_HEADER_LEN < ?n"
      using that at by (intro dns_message_agree assms) (auto simp: DNS_HEADER_LEN_def)
    show ?thesis using False udp by (simp add: dpi_dns_proto_def Let_def mem)
  qed
qed

text \<open>
  What the inspection records fits its arrays: after a successful inspection there are one
  to sixteen queries, no more than the header announced, each name has 1 to 127 bytes and no
  upper-case letter, and a failed one leaves everything but \<^verbatim>\<open>qdcount\<close> as it was.
\<close>

definition dns_bounds :: "dns_proto \<Rightarrow> bool" where
  "dns_bounds dns \<longleftrightarrow> dns_match dns \<and> 0 < dns_query_num dns \<and> dns_query_num dns \<le> int MAX_DNS_QUERY_NUM \<and>
     dns_query_num dns \<le> dns_qdcount dns \<and>
     length (dns_domain dns) = nat (dns_query_num dns) \<and> length (dns_qtype dns) = nat (dns_query_num dns) \<and>
     (\<forall>d\<in>set (dns_domain dns). d \<noteq> [] \<and> lower_name MAX_DNS_DOMAIN_LEN d)"

lemma dns_message_bounds:
  "case dns_message m len flow of (ok, flow') \<Rightarrow>
     if ok then dns_bounds (fl_dns flow') \<and> flow' = flow\<lparr>fl_dns := fl_dns flow'\<rparr>
     else \<exists>n. flow' = flow\<lparr>fl_dns := (fl_dns flow)\<lparr>dns_qdcount := n\<rparr>\<rparr>"
proof -
  let ?q = "dns_queries m len DNS_HEADER_LEN (min (unat (be16 m 4)) MAX_DNS_QUERY_NUM)"
  have "length ?q \<le> min (unat (be16 m 4)) MAX_DNS_QUERY_NUM"
    and d: "\<forall>(d, t)\<in>set ?q. lower_name MAX_DNS_DOMAIN_LEN d \<and> d \<noteq> []"
    using dns_queries_bounds by blast+
  then have l: "int (length ?q) \<le> uint (be16 m 4)" "int (length ?q) \<le> int MAX_DNS_QUERY_NUM"
    unfolding uint_nat by (simp_all only: of_nat_le_iff min.bounded_iff)
  have same: "\<exists>n. flow = flow\<lparr>fl_dns := (fl_dns flow)\<lparr>dns_qdcount := n\<rparr>\<rparr>"
    by (rule exI [of _ "dns_qdcount (fl_dns flow)"]) simp
  show ?thesis
    using l d same unfolding dns_message_def Let_def by (auto simp: dns_bounds_def)
qed

theorem dpi_dns_proto_bounds:
  "case dpi_dns_proto flow of (ok, flow') \<Rightarrow>
     if ok then dns_bounds (fl_dns flow') \<and> flow' = flow\<lparr>fl_dns := fl_dns flow'\<rparr>
     else \<exists>n. flow' = flow\<lparr>fl_dns := (fl_dns flow)\<lparr>dns_qdcount := n\<rparr>\<rparr>"
proof -
  have same: "\<exists>n. flow = flow\<lparr>fl_dns := (fl_dns flow)\<lparr>dns_qdcount := n\<rparr>\<rparr>"
    by (rule exI [of _ "dns_qdcount (fl_dns flow)"]) simp
  show ?thesis
    using same dns_message_bounds by (simp add: dpi_dns_proto_def Let_def)
qed

section \<open>Encoded questions are parsed back\<close>

definition encode_name :: "bytes list \<Rightarrow> bytes" where
  "encode_name ls = concat (map (\<lambda>l. word_of_nat (length l) # l) ls) @ [0]"

definition be_bytes :: "u16 \<Rightarrow> bytes" where
  "be_bytes t = [ucast (drop_bit 8 t), ucast t]"

definition encode_question :: "bytes list \<times> u16 \<times> u16 \<Rightarrow> bytes" where
  "encode_question q = (case q of (ls, qtype, qclass) \<Rightarrow>
     encode_name ls @ be_bytes qtype @ be_bytes qclass)"

text \<open>The dotted lower-case name of a list of labels, after what is there already.\<close>

fun dotted :: "bytes \<Rightarrow> bytes list \<Rightarrow> bytes" where
  "dotted out [] = out"
| "dotted out (l # ls) = dotted ((if out \<noteq> [] then out @ [0x2E] else out) @ map to_lower l) ls"

definition valid_labels :: "bytes list \<Rightarrow> bool" where
  "valid_labels ls \<longleftrightarrow> ls \<noteq> [] \<and> (\<forall>l\<in>set ls. 0 < length l \<and> length l \<le> 63) \<and>
     length (dotted [] ls) < MAX_DNS_DOMAIN_LEN"

lemma copy_label_fits:
  "length out + length cs \<le> n - 1 \<Longrightarrow> copy_label n out cs = Some (out @ map to_lower cs)"
  by (induction n out cs rule: copy_label.induct) auto

lemma length_dotted: "length out \<le> length (dotted out ls)"
  by (induction out ls rule: dotted.induct) (auto split: if_splits)

lemma label_len_word:
  assumes "k \<le> 63"
  shows "uint (word_of_nat k :: u8) = int k \<and> (word_of_nat k :: u8) AND 0xC0 = 0"
proof -
  have "\<forall>k\<in>set [0..<64]. uint (word_of_nat k :: u8) = int k \<and> (word_of_nat k :: u8) AND 0xC0 = 0"
    by code_simp
  then show ?thesis using assms by simp
qed

lemma encode_name_Cons:
  "encode_name (l # ls) = word_of_nat (length l) # l @ encode_name ls"
  by (simp add: encode_name_def)

lemma slice_hd:
  assumes "slice m off (int (length (a # b))) = a # b"
  shows "m off = a \<and> slice m (off + 1) (int (length b)) = b"
proof
  show "m off = a" using arg_cong [OF assms, of "\<lambda>xs. xs ! 0"] by simp
  show "slice m (off + 1) (int (length b)) = b" using slice_tail [of m off "[a]" b] assms by simp
qed

lemma slice_init:
  assumes "slice m off (int (length (a @ b))) = a @ b"
  shows "slice m off (int (length a)) = a"
proof (rule nth_equalityI)
  fix i assume "i < length (slice m off (int (length a)))"
  then have i: "i < length a" by simp
  have "slice m off (int (length (a @ b))) ! i = a ! i" unfolding assms using i by (simp add: nth_append)
  then show "slice m off (int (length a)) ! i = a ! i" using i by simp
qed simp

lemma dns_labels_encode:
  "slice m off (int (length (encode_name ls))) = encode_name ls \<Longrightarrow>
     off + int (length (encode_name ls)) \<le> dns_len \<Longrightarrow>
     \<forall>l\<in>set ls. 0 < length l \<and> length l \<le> 63 \<Longrightarrow> length (dotted out ls) \<le> n - 1 \<Longrightarrow>
     dns_labels m dns_len n off out = Some (dotted out ls, off + int (length (encode_name ls)))"
proof (induction out ls arbitrary: off rule: dotted.induct)
  case (1 out)
  then have "m off = 0" using slice_hd [of m off 0 "[]"] by (simp add: encode_name_def)
  then show ?case using "1.prems" by (subst dns_labels.simps) (simp add: encode_name_def)
next
  case (2 out l ls)
  let ?out = "if out \<noteq> [] then out @ [0x2E] else out" and ?w = "word_of_nat (length l) :: u8"
  have l: "0 < length l" "length l \<le> 63" using "2.prems"(3) by auto
  have hd: "m off = ?w" and tl: "slice m (off + 1) (int (length (l @ encode_name ls))) = l @ encode_name ls"
    using slice_hd [of m off ?w "l @ encode_name ls"] "2.prems"(1) by (simp_all add: encode_name_Cons)
  note w = label_len_word [OF l(2)]
  have lab: "slice m (off + 1) (int (length l)) = l" using slice_init [OF tl] .
  have next': "slice m (off + 1 + int (length l)) (int (length (encode_name ls))) = encode_name ls"
    using slice_tail [OF tl] .
  have total: "length (?out @ map to_lower l) \<le> n - 1"
    using length_dotted [of "?out @ map to_lower l" ls] "2.prems"(4) by simp
  have ends: "off + 1 + int (length l) + int (length (encode_name ls)) \<le> dns_len"
    using "2.prems"(2) by (simp add: encode_name_Cons)
  have g: "off < dns_len" "uint (m off) \<noteq> 0" "m off AND 0xC0 = 0"
    "\<not> (uint (m off) > 63 \<or> off + 1 + uint (m off) > dns_len)"
    using ends l w by (auto simp: hd)
  have room: "\<not> (out \<noteq> [] \<and> length out \<ge> n - 1)" using total l(1) by auto
  have copy: "copy_label n ?out (slice m (off + 1) (uint (m off))) = Some (?out @ map to_lower l)"
    using copy_label_fits [of ?out l n] total lab w by (simp add: hd)
  have "dns_labels m dns_len n off out = dns_labels m dns_len n (off + 1 + int (length l)) (?out @ map to_lower l)"
    using dns_labels_step [of off dns_len m out n, OF g room] copy w by (simp add: hd)
  also have "\<dots> = Some (dotted out (l # ls), off + 1 + int (length l) + int (length (encode_name ls)))"
    using "2.IH" [OF next' ends] "2.prems"(3,4) by simp
  finally show ?case by (simp add: encode_name_Cons algebra_simps)
qed

lemma be16_be_bytes:
  assumes "slice m off (int (length (be_bytes t @ r))) = be_bytes t @ r"
  shows "be16 m off = t"
proof -
  have "m off = ucast (drop_bit 8 t)" "m (off + 1) = ucast t"
    using slice_hd [of m off "ucast (drop_bit 8 t)" "ucast t # r"]
      slice_hd [of m "off + 1" "ucast t" r] assms by (simp_all add: be_bytes_def)
  then show ?thesis
    unfolding be16_def by (intro bit_word_eqI) (auto simp: bit_simps)
qed

lemma dotted_not_Nil:
  "valid_labels ls \<Longrightarrow> dotted [] ls \<noteq> []"
  using length_dotted [of "map to_lower (hd ls)" "tl ls"] by (cases ls) (auto simp: valid_labels_def)

lemma parse_name_encode:
  assumes "slice m off (int (length (encode_question (ls, t, c)))) = encode_question (ls, t, c)"
    and "off + int (length (encode_question (ls, t, c))) \<le> dns_len" and "valid_labels ls" and "12 \<le> off"
  shows "af_parse_dns_query_name m dns_len off MAX_DNS_DOMAIN_LEN =
     Some (dotted [] ls, t, off + int (length (encode_question (ls, t, c))))"
proof -
  let ?e = "encode_name ls" and ?r = "be_bytes t @ be_bytes c"
  have q: "encode_question (ls, t, c) = ?e @ ?r" by (simp add: encode_question_def)
  have r: "length ?r = 4" by (simp add: be_bytes_def)
  have ends: "off + int (length ?e) + 4 \<le> dns_len" using assms(2) r by (simp add: q)
  have e: "slice m off (int (length ?e)) = ?e" using slice_init [of m off ?e ?r] assms(1) q by simp
  have "slice m (off + int (length ?e)) (int (length ?r)) = ?r"
    using slice_tail [of m off ?e ?r] assms(1) q by simp
  then have t: "be16 m (off + int (length ?e)) = t" by (rule be16_be_bytes)
  have "dns_labels m dns_len MAX_DNS_DOMAIN_LEN off [] = Some (dotted [] ls, off + int (length ?e))"
    using dns_labels_encode [OF e] ends assms(3) by (auto simp: valid_labels_def MAX_DNS_DOMAIN_LEN_def)
  then show ?thesis
    using t ends r assms(4) dotted_not_Nil [OF assms(3)]
    by (simp add: af_parse_dns_query_name_def q MAX_DNS_DOMAIN_LEN_def DNS_HEADER_LEN_def)
qed

lemma dns_queries_encode:
  "slice m off (int (length (concat (map encode_question qs)))) = concat (map encode_question qs) \<Longrightarrow>
     off + int (length (concat (map encode_question qs))) \<le> dns_len \<Longrightarrow> 12 \<le> off \<Longrightarrow>
     \<forall>(ls, t, c)\<in>set qs. valid_labels ls \<Longrightarrow> k \<le> length qs \<Longrightarrow>
     dns_queries m dns_len off k = map (\<lambda>(ls, t, c). (dotted [] ls, t)) (take k qs)"
proof (induction qs arbitrary: off k)
  case Nil
  then show ?case by simp
next
  case (Cons q qs)
  obtain ls t c where q: "q = (ls, t, c)" by (cases q)
  show ?case
  proof (cases k)
    case (Suc j)
    let ?e = "encode_question q" and ?r = "concat (map encode_question qs)"
    have s: "slice m off (int (length (?e @ ?r))) = ?e @ ?r" using Cons.prems(1) by simp
    have p: "af_parse_dns_query_name m dns_len off MAX_DNS_DOMAIN_LEN = Some (dotted [] ls, t, off + int (length ?e))"
      unfolding q by (rule parse_name_encode) (use slice_init [OF s] Cons.prems q in auto)
    have "dns_queries m dns_len (off + int (length ?e)) j = map (\<lambda>(ls, t, c). (dotted [] ls, t)) (take j qs)"
      using Cons.IH [OF slice_tail [OF s], of j] Cons.prems Suc by auto
    then show ?thesis using p q Suc by simp
  qed simp
qed

text \<open>
  C31. Encoded questions are parsed back. For a query message over UDP whose header announces
  the questions that follow it (labels of 1 to 63 bytes, dotted names of at most 127), the
  inspection records the dotted names in lower case and the query types, all of them when
  there are no more than sixteen and the first sixteen otherwise.
\<close>

theorem dpi_dns_proto_roundtrip:
  assumes "fl_l4_protocol flow = IPPROTO_UDP" and "fl_dport flow = DNS_PORT"
    and "payload flow 12 (int (length (concat (map encode_question qs)))) = concat (map encode_question qs)"
    and "12 + int (length (concat (map encode_question qs))) \<le> fl_l4_len flow"
    and "be16 (fl_l4_data flow) 2 AND 0x8000 = 0" and "be16 (fl_l4_data flow) 4 = word_of_nat (length qs)"
    and "qs \<noteq> []" and "length qs < 2 ^ 16" and "\<forall>(ls, t, c)\<in>set qs. valid_labels ls"
  shows "dpi_dns_proto flow = (True, flow\<lparr>fl_dns := (fl_dns flow)\<lparr>dns_match := True,
     dns_query_num := int (min (length qs) 16), dns_qdcount := int (length qs),
     dns_domain := map (\<lambda>(ls, t, c). dotted [] ls) (take 16 qs),
     dns_qtype := map (\<lambda>(ls, t, c). t) (take 16 qs)\<rparr>\<rparr>)"
proof -
  let ?m = "fl_l4_data flow" and ?n = "fl_l4_len flow"
  have un: "unat (be16 ?m 4) = length qs"
    using assms(6,8) by (simp add: unat_of_nat take_bit_nat_eq_self)
  then have cnt: "be16 ?m 4 \<noteq> 0" "uint (be16 ?m 4) = int (length qs)"
    unfolding uint_nat using assms(7) by (auto simp only: unat_0 length_0_conv eq_commute [of 0])
  have "length (encode_question (hd qs)) > 0"
    by (simp add: encode_question_def encode_name_def split: prod.split)
  then have len: "12 < ?n" using assms(4,7) by (cases qs) (auto simp flip: length_greater_0_conv)
  have "dns_queries ?m ?n 12 (min (length qs) 16) =
      map (\<lambda>(ls, t, c). (dotted [] ls, t)) (take (min (length qs) 16) qs)"
    using assms(3,4,9) by (intro dns_queries_encode) (auto simp: payload_def)
  also have "take (min (length qs) 16) qs = take 16 qs" by (simp add: min_def)
  finally have q: "dns_queries ?m ?n 12 (min (length qs) 16) = map (\<lambda>(ls, t, c). (dotted [] ls, t)) (take 16 qs)" .
  show ?thesis
    using assms(1,2,5,7) len cnt un q
    by (simp add: dpi_dns_proto_def dns_message_def Let_def DNS_HEADER_LEN_def IPPROTO_UDP_def
        IPPROTO_TCP_def MAX_DNS_QUERY_NUM_def comp_def case_prod_unfold)
qed

definition dns_flow :: flow_info where
  "dns_flow = flow_zero\<lparr>fl_l4_protocol := 17, fl_dport := 53, fl_l4_len := 28, fl_l4_data := mem_of
     ([1, 2, 1, 0, 0, 1, 0, 0, 0, 0, 0, 0, 3] @ cstr ''WwW'' @ [3] @ cstr ''a-b'' @ [2] @ cstr ''De'' @
      [0, 0, 65, 0, 1])\<rparr>"

theorem dpi_dns_proto_roundtrip_witness:
  "dpi_dns_proto dns_flow = (True, dns_flow\<lparr>fl_dns := dns_zero\<lparr>dns_match := True,
     dns_query_num := 1, dns_qdcount := 1, dns_domain := [cstr ''www.a-b.de''], dns_qtype := [65]\<rparr>\<rparr>)"
proof -
  let ?ls = "[cstr ''WwW'', cstr ''a-b'', cstr ''De'']" let ?qs = "[(?ls, 65, 1)] :: (bytes list \<times> u16 \<times> u16) list"
  have e: "concat (map encode_question ?qs) = [3] @ cstr ''WwW'' @ [3] @ cstr ''a-b'' @ [2] @ cstr ''De'' @
      [0, 0, 65, 0, 1]" by code_simp
  have "payload dns_flow 12 16 = [3] @ cstr ''WwW'' @ [3] @ cstr ''a-b'' @ [2] @ cstr ''De'' @
      [0, 0, 65, 0, 1]" by code_simp
  moreover have "valid_labels ?ls \<and> dotted [] ?ls = cstr ''www.a-b.de''" by code_simp
  moreover have "be16 (fl_l4_data dns_flow) 2 AND 0x8000 = 0 \<and> be16 (fl_l4_data dns_flow) 4 = 1" by code_simp
  moreover have "fl_l4_protocol dns_flow = 17 \<and> fl_dport dns_flow = 53 \<and> fl_l4_len dns_flow = 28 \<and>
      fl_dns dns_flow = dns_zero" by (simp add: dns_flow_def flow_zero_def)
  ultimately show ?thesis
    using dpi_dns_proto_roundtrip [of dns_flow ?qs, unfolded e]
    by (simp add: IPPROTO_UDP_def DNS_PORT_def)
qed

theorem dpi_dns_proto_inside_witness:
  "dpi_dns_proto (dns_flow\<lparr>fl_l4_data := \<lambda>i. if i < 28 then fl_l4_data dns_flow i else 9\<rparr>) =
     map_prod id (\<lambda>f. f\<lparr>fl_l4_data := \<lambda>i. if i < 28 then fl_l4_data dns_flow i else 9\<rparr>)
       (dpi_dns_proto dns_flow)"
  by (rule dpi_dns_proto_inside) (simp add: agree_below_def dns_flow_def)

text \<open>\<^verbatim>\<open>dpi_main\<close>: the three inspections one after the other; their return values are not looked at.\<close>

definition dpi_main :: "flow_info \<Rightarrow> flow_info" where
  "dpi_main flow = snd (dpi_dns_proto (snd (dpi_https_proto (dpi_http_proto flow))))"

end
