(* ===== verification/Fwx_Match.thy ===== *)
theory Fwx_Match
  imports Fwx_Url_AC_Match Fwx_Regexp Fwx_Dns
begin

text \<open>
  Matching a flow with the features (\<^verbatim>\<open>fwx_match_feature\<close> of \<^verbatim>\<open>oaf/src/fwx_main.c\<close> and what it
  calls): QUIC first, then the literal host patterns in the automaton, then the regular
  expressions on DNS names, then everything else feature by feature. The kernel's
  \<^verbatim>\<open>in4_pton\<close> and \<^verbatim>\<open>in6_pton\<close> are parameters, as is what uninitialised memory holds in the
  regular-expression compiler; a result \<open>Inl\<close> says that this compiler left a buffer.
\<close>

section \<open>Host names\<close>

definition af_is_digit_str :: "bytes \<Rightarrow> bool" where
  "af_is_digit_str s \<longleftrightarrow> s \<noteq> [] \<and> list_all is_digit s"

definition af_is_ip_literal_host :: "(bytes \<Rightarrow> bool) \<Rightarrow> (bytes \<Rightarrow> bool) \<Rightarrow> bytes \<Rightarrow> bool" where
  "af_is_ip_literal_host in4_pton in6_pton host =
     (let ipv4 = (\<lambda>s. s \<noteq> [] \<and> in4_pton s); ipv6 = (\<lambda>s. s \<noteq> [] \<and> in6_pton s) in
      if host = [] then False
      else if hd host = 0x5B then
        if 0x5D \<in> set (tl host) then
          let literal = takeWhile (\<lambda>c. c \<noteq> 0x5D) (tl host)
          in if literal = [] \<or> length literal \<ge> MAX_URL_MATCH_LEN - 1 then False else ipv6 literal
        else False
      else if length (filter (\<lambda>c. c = 0x3A) host) > 1 then ipv6 host
      else if 0x3A \<in> set host \<and> af_is_digit_str (tl (dropWhile (\<lambda>c. c \<noteq> 0x3A) host)) then
        let literal = takeWhile (\<lambda>c. c \<noteq> 0x3A) host
        in if literal = [] \<or> length literal \<ge> MAX_URL_MATCH_LEN - 1 then False
           else ipv4 literal \<or> ipv6 literal
      else ipv4 host \<or> ipv6 host)"

text \<open>\<^verbatim>\<open>strncpy\<close> of \<open>n\<close> bytes: what follows a NUL is filled with NULs.\<close>

definition strncpy_bytes :: "bytes \<Rightarrow> bytes" where
  "strncpy_bytes buf = c_string buf @ replicate (length buf - length (c_string buf)) 0"

text \<open>
  \<open>Some\<close> of the first \<^verbatim>\<open>*host_len\<close> bytes of the buffer when the return value is 0. The buffers
  have \<^verbatim>\<open>MAX_URL_MATCH_LEN\<close> bytes.
\<close>

definition af_get_flow_host :: "(bytes \<Rightarrow> bool) \<Rightarrow> (bytes \<Rightarrow> bool) \<Rightarrow> flow_info \<Rightarrow> bytes option" where
  "af_get_flow_host in4_pton in6_pton flow =
     (let buf_len = int MAX_URL_MATCH_LEN;
          copy = (\<lambda>pos len. let host_buf = strncpy_bytes
                (payload flow pos (if len \<ge> buf_len - 1 then buf_len - 1 else len))
              in if af_is_ip_literal_host in4_pton in6_pton (c_string host_buf) then None
                 else Some host_buf) in
      case (if https_match (fl_https flow) \<and> https_url_len (fl_https flow) > 0
            then https_url_pos (fl_https flow) else None) of
        Some pos \<Rightarrow> copy pos (https_url_len (fl_https flow))
      | None \<Rightarrow> (case (if http_match (fl_http flow) \<and> http_host_len (fl_http flow) > 0
            then http_host_pos (fl_http flow) else None) of
          Some pos \<Rightarrow> copy pos (http_host_len (fl_http flow))
        | None \<Rightarrow> None))"

definition af_copy_dns_domain :: "flow_info \<Rightarrow> nat \<Rightarrow> bytes option" where
  "af_copy_dns_domain flow index =
     (if \<not> dns_match (fl_dns flow) \<or> int index \<ge> dns_query_num (fl_dns flow) \<or>
         index \<ge> MAX_DNS_QUERY_NUM then None
      else let domain = c_string (dns_domain (fl_dns flow) ! index) in
        if domain = [] then None else Some (take (MAX_URL_MATCH_LEN - 1) domain))"

text \<open>The indices that the loops over the DNS names go through.\<close>

definition dns_indices :: "flow_info \<Rightarrow> nat list" where
  "dns_indices flow = [0..<min (nat (dns_query_num (fl_dns flow))) MAX_DNS_QUERY_NUM]"

section \<open>The automaton on a flow\<close>

fun ac_on_domains ::
  "url_ac \<Rightarrow> flow_info \<Rightarrow> nat list \<Rightarrow> match_stat \<Rightarrow> (feature_node option \<times> match_stat) option" where
  "ac_on_domains ac flow [] stat = Some (None, stat)"
| "ac_on_domains ac flow (i # is) stat = (case af_copy_dns_domain flow i of
      None \<Rightarrow> ac_on_domains ac flow is stat
    | Some host_buf \<Rightarrow>
        do { (node, stat') \<leftarrow> af_match_url_text_ac ac flow stat host_buf False;
             case node of Some n \<Rightarrow> Some (Some n, stat')
               | None \<Rightarrow> ac_on_domains ac flow is stat' })"

definition af_match_url_feature_ac ::
  "(bytes \<Rightarrow> bool) \<Rightarrow> (bytes \<Rightarrow> bool) \<Rightarrow> url_ac \<Rightarrow> flow_info \<Rightarrow> match_stat \<Rightarrow>
     (feature_node option \<times> flow_info \<times> match_stat) option" where
  "af_match_url_feature_ac in4_pton in6_pton ac flow stat =
     (if \<not> ac_ready ac \<or> ac_root ac = None then Some (None, flow, stat)
      else do {
        (node, stat1) \<leftarrow> (case af_get_flow_host in4_pton in6_pton flow of
            Some host_buf \<Rightarrow> af_match_url_text_ac ac flow stat host_buf True
          | None \<Rightarrow> Some (None, stat));
        case node of
          Some n \<Rightarrow> Some (Some n, flow, stat1)
        | None \<Rightarrow>
            if \<not> dns_match (fl_dns flow) then Some (None, flow, stat1)
            else do {
              (node, stat2) \<leftarrow> ac_on_domains ac flow (dns_indices flow) stat1;
              case node of
                Some n \<Rightarrow> Some (Some n, flow\<lparr>fl_match_by_dns := True\<rparr>, stat2)
              | None \<Rightarrow> Some (None, flow, stat2) } })"

section \<open>Regular expressions on DNS names\<close>

text \<open>Any value but 0 counts as a match.\<close>

definition regexp_hit :: "(nat \<Rightarrow> int) \<Rightarrow> bytes \<Rightarrow> bytes \<Rightarrow> bool ub_result" where
  "regexp_hit junk pattern text0 = ub_bind (regexp_match junk pattern text0) (\<lambda>v. Inr (v \<noteq> 0))"

fun first_regex :: "(nat \<Rightarrow> int) \<Rightarrow> feature_node list \<Rightarrow> bytes \<Rightarrow> feature_node option ub_result" where
  "first_regex junk [] domain = Inr None"
| "first_regex junk (node # features) domain =
     (if fn_host_url node = [] \<or> \<not> af_is_regex_host_pattern (fn_host_url node)
      then first_regex junk features domain
      else ub_bind (regexp_hit junk (fn_host_url node) domain) (\<lambda>hit.
        if hit then Inr (Some node) else first_regex junk features domain))"

fun dns_regex_on :: "(nat \<Rightarrow> int) \<Rightarrow> feature_node list \<Rightarrow> flow_info \<Rightarrow> nat list \<Rightarrow> feature_node option ub_result" where
  "dns_regex_on junk features flow [] = Inr None"
| "dns_regex_on junk features flow (i # is) = (case af_copy_dns_domain flow i of
      None \<Rightarrow> dns_regex_on junk features flow is
    | Some domain \<Rightarrow> ub_bind (first_regex junk features domain) (\<lambda>node.
        case node of Some n \<Rightarrow> Inr (Some n) | None \<Rightarrow> dns_regex_on junk features flow is))"

definition af_match_dns_regex_feature ::
  "(nat \<Rightarrow> int) \<Rightarrow> feature_node list \<Rightarrow> flow_info \<Rightarrow> (feature_node option \<times> flow_info) ub_result" where
  "af_match_dns_regex_feature junk features flow =
     (if \<not> dns_match (fl_dns flow) \<or> features = [] then Inr (None, flow)
      else ub_bind (dns_regex_on junk features flow (dns_indices flow)) (\<lambda>node.
        Inr (node, if node \<noteq> None then flow\<lparr>fl_match_by_dns := True\<rparr> else flow)))"

section \<open>Feature by feature\<close>

text \<open>
  The positions are compared as unsigned numbers; a negative one counts from the end.
\<close>

definition pos_matches :: "flow_info \<Rightarrow> pos_info \<Rightarrow> bool" where
  "pos_matches flow pi =
     (let pos = (if pi_pos pi < 0 then word_of_int (fl_l4_len flow + pi_pos pi)
                 else word_of_int (pi_pos pi)) :: u32 in
      pos < word_of_int (fl_l4_len flow) \<and> fl_l4_data flow (uint pos) = pi_value pi)"

definition af_match_by_pos :: "flow_info \<Rightarrow> feature_node \<Rightarrow> bool" where
  "af_match_by_pos flow node =
     (if fn_pos_info node \<noteq> [] then
        if list_all (pos_matches flow) (take MAX_POS_INFO_PER_FEATURE (fn_pos_info node)) then
          if fn_search_str node \<noteq> []
          then k_memstr (fl_l4_data flow) 0 (fn_search_str node) (fl_l4_len flow) \<noteq> None
          else True
        else False
      else False)"

fun url_on_domains :: "(nat \<Rightarrow> int) \<Rightarrow> feature_node \<Rightarrow> flow_info \<Rightarrow> nat list \<Rightarrow> bool ub_result" where
  "url_on_domains junk node flow [] = Inr False"
| "url_on_domains junk node flow (i # is) = (case af_copy_dns_domain flow i of
      None \<Rightarrow> url_on_domains junk node flow is
    | Some domain \<Rightarrow> ub_bind (regexp_hit junk (fn_host_url node) domain) (\<lambda>hit.
        if hit then Inr True else url_on_domains junk node flow is))"

text \<open>The three tests of \<^verbatim>\<open>af_match_by_url\<close>: on the host, on the DNS names, on the request URL.\<close>

definition url_host_hit ::
  "(bytes \<Rightarrow> bool) \<Rightarrow> (bytes \<Rightarrow> bool) \<Rightarrow> (nat \<Rightarrow> int) \<Rightarrow> flow_info \<Rightarrow> feature_node \<Rightarrow> bool ub_result" where
  "url_host_hit in4_pton in6_pton junk flow node =
     (let host = (case af_get_flow_host in4_pton in6_pton flow of
            None \<Rightarrow> [] | Some buf \<Rightarrow> c_string buf) in
      if host \<noteq> [] \<and> fn_host_url node \<noteq> [] then regexp_hit junk (fn_host_url node) host
      else Inr False)"

definition url_dns_hit :: "(nat \<Rightarrow> int) \<Rightarrow> flow_info \<Rightarrow> feature_node \<Rightarrow> bool ub_result" where
  "url_dns_hit junk flow node =
     (if dns_match (fl_dns flow) \<and> fn_host_url node \<noteq> []
      then url_on_domains junk node flow (dns_indices flow) else Inr False)"

definition url_request_hit :: "(nat \<Rightarrow> int) \<Rightarrow> flow_info \<Rightarrow> feature_node \<Rightarrow> bool ub_result" where
  "url_request_hit junk flow node =
     (case (if http_match (fl_http flow) then http_url_pos (fl_http flow) else None) of
        None \<Rightarrow> Inr False
      | Some pos \<Rightarrow>
          let len = http_url_len (fl_http flow);
              url = c_string (payload flow pos
                (if len \<ge> int MAX_URL_MATCH_LEN then int MAX_URL_MATCH_LEN - 1 else len))
          in if url \<noteq> [] \<and> fn_request_url node \<noteq> []
             then regexp_hit junk (fn_request_url node) url else Inr False)"

definition af_match_by_url ::
  "(bytes \<Rightarrow> bool) \<Rightarrow> (bytes \<Rightarrow> bool) \<Rightarrow> (nat \<Rightarrow> int) \<Rightarrow> flow_info \<Rightarrow> feature_node \<Rightarrow>
     (bool \<times> flow_info) ub_result" where
  "af_match_by_url in4_pton in6_pton junk flow node =
     ub_bind (url_host_hit in4_pton in6_pton junk flow node) (\<lambda>by_host.
       if by_host then Inr (True, flow)
       else ub_bind (url_dns_hit junk flow node) (\<lambda>by_dns.
         if by_dns then Inr (True, flow\<lparr>fl_match_by_dns := True\<rparr>)
         else ub_bind (url_request_hit junk flow node) (\<lambda>hit. Inr (hit, flow))))"

definition af_match_one ::
  "(bytes \<Rightarrow> bool) \<Rightarrow> (bytes \<Rightarrow> bool) \<Rightarrow> (nat \<Rightarrow> int) \<Rightarrow> flow_info \<Rightarrow> feature_node \<Rightarrow>
     (bool \<times> flow_info) ub_result" where
  "af_match_one in4_pton in6_pton junk flow node =
     (if \<not> af_match_basic_cond flow node then Inr (False, flow)
      else if fn_request_url node \<noteq> [] \<or> fn_host_url node \<noteq> []
      then af_match_by_url in4_pton in6_pton junk flow node
      else if fn_pos_info node \<noteq> [] then Inr (af_match_by_pos flow node, flow)
      else Inr (True, flow))"

fun af_match_non_url_feature ::
  "(bytes \<Rightarrow> bool) \<Rightarrow> (bytes \<Rightarrow> bool) \<Rightarrow> (nat \<Rightarrow> int) \<Rightarrow> feature_node list \<Rightarrow> flow_info \<Rightarrow>
     (feature_node option \<times> flow_info) ub_result" where
  "af_match_non_url_feature in4_pton in6_pton junk [] flow = Inr (None, flow)"
| "af_match_non_url_feature in4_pton in6_pton junk (node # features) flow =
     (if fn_host_url node \<noteq> [] \<and> \<not> af_is_regex_host_pattern (fn_host_url node) \<and> fn_request_url node = []
      then af_match_non_url_feature in4_pton in6_pton junk features flow
      else ub_bind (af_match_one in4_pton in6_pton junk flow node) (\<lambda>(hit, flow').
        if hit then Inr (Some node, flow')
        else af_match_non_url_feature in4_pton in6_pton junk features flow'))"

section \<open>Classification\<close>

definition set_feature :: "feature_node \<Rightarrow> flow_info \<Rightarrow> flow_info" where
  "set_feature node flow = flow\<lparr>fl_app_id := fn_app_id node, fl_feature := Some node,
     fl_app_name := take (MAX_APP_NAME_LEN - 1) (fn_app_name node)\<rparr>"

text \<open>The part of \<^verbatim>\<open>fwx_match_feature\<close> after the automaton.\<close>

definition match_rest ::
  "(bytes \<Rightarrow> bool) \<Rightarrow> (bytes \<Rightarrow> bool) \<Rightarrow> (nat \<Rightarrow> int) \<Rightarrow> feature_node list \<Rightarrow> flow_info \<Rightarrow>
     (bool \<times> flow_info) ub_result" where
  "match_rest in4_pton in6_pton junk features flow =
     ub_bind (af_match_dns_regex_feature junk features flow) (\<lambda>(node, flow1).
       case node of
         Some n \<Rightarrow> Inr (True, set_feature n flow1)
       | None \<Rightarrow> ub_bind (af_match_non_url_feature in4_pton in6_pton junk features flow1) (\<lambda>(node, flow2).
           case node of
             Some n \<Rightarrow> Inr (True, set_feature n flow2)
           | None \<Rightarrow> Inr (False, flow2)))"

text \<open>The option is that of the automaton; the statistics only go to the log.\<close>

definition fwx_match_feature ::
  "(bytes \<Rightarrow> bool) \<Rightarrow> (bytes \<Rightarrow> bool) \<Rightarrow> (nat \<Rightarrow> int) \<Rightarrow> url_ac \<Rightarrow> feature_node list \<Rightarrow> flow_info \<Rightarrow>
     (bool \<times> flow_info) ub_result option" where
  "fwx_match_feature in4_pton in6_pton junk ac features flow0 =
     (let flow = flow0\<lparr>fl_match_by_dns := False\<rparr> in
      if is_quic_flow flow
      then Some (Inr (True, flow\<lparr>fl_app_id := FWX_QUIC_PROTO, fl_app_name := cstr ''QUIC''\<rparr>))
      else do {
        (node, flow1, stat) \<leftarrow> af_match_url_feature_ac in4_pton in6_pton ac flow stat_zero;
        Some (case node of
            Some n \<Rightarrow> Inr (True, set_feature n flow1)
          | None \<Rightarrow> match_rest in4_pton in6_pton junk features flow1) })"

section \<open>Correctness\<close>

text \<open>The classification without an automaton: every pattern is tried at every position.\<close>

fun ref_on_domains :: "feature_node list \<Rightarrow> flow_info \<Rightarrow> nat list \<Rightarrow> feature_node option" where
  "ref_on_domains features flow [] = None"
| "ref_on_domains features flow (i # is) = (case af_copy_dns_domain flow i of
      None \<Rightarrow> ref_on_domains features flow is
    | Some domain \<Rightarrow> (case ref_search (passes flow False) (filter ac_eligible features) [] domain of
          Some n \<Rightarrow> Some n | None \<Rightarrow> ref_on_domains features flow is))"

definition ref_by_host ::
  "(bytes \<Rightarrow> bool) \<Rightarrow> (bytes \<Rightarrow> bool) \<Rightarrow> feature_node list \<Rightarrow> flow_info \<Rightarrow> feature_node option" where
  "ref_by_host in4_pton in6_pton features flow =
     Option.bind (af_get_flow_host in4_pton in6_pton flow)
       (ref_search (passes flow True) (filter ac_eligible features) [])"

definition ref_match_feature ::
  "(bytes \<Rightarrow> bool) \<Rightarrow> (bytes \<Rightarrow> bool) \<Rightarrow> (nat \<Rightarrow> int) \<Rightarrow> feature_node list \<Rightarrow> flow_info \<Rightarrow>
     (bool \<times> flow_info) ub_result" where
  "ref_match_feature in4_pton in6_pton junk features flow0 =
     (let flow = flow0\<lparr>fl_match_by_dns := False\<rparr> in
      if is_quic_flow flow
      then Inr (True, flow\<lparr>fl_app_id := FWX_QUIC_PROTO, fl_app_name := cstr ''QUIC''\<rparr>)
      else (case ref_by_host in4_pton in6_pton features flow of
          Some n \<Rightarrow> Inr (True, set_feature n flow)
        | None \<Rightarrow> (case (if dns_match (fl_dns flow)
                then ref_on_domains features flow (dns_indices flow) else None) of
            Some n \<Rightarrow> Inr (True, set_feature n (flow\<lparr>fl_match_by_dns := True\<rparr>))
          | None \<Rightarrow> match_rest in4_pton in6_pton junk features flow)))"

lemma ac_on_domains_ref:
  assumes "linked ac root lab (filter ac_eligible features)" and "ac_ready ac"
  shows "\<exists>stat'. ac_on_domains ac flow is stat = Some (ref_on_domains features flow is, stat')"
proof (induction "is" arbitrary: stat)
  case (Cons i "is")
  show ?case
  proof (cases "af_copy_dns_domain flow i")
    case (Some domain)
    obtain stat1 where "af_match_url_text_ac ac flow stat domain False =
        Some (ref_search (passes flow False) (filter ac_eligible features) [] domain, stat1)"
      using linked_match [OF assms] by blast
    then show ?thesis using Some Cons.IH [of stat1] by (auto split: option.split)
  qed (use Cons.IH in simp)
qed simp

lemma af_match_url_feature_ac_ref:
  assumes "linked ac root lab (filter ac_eligible features)" and "ac_ready ac"
  shows "\<exists>stat'. af_match_url_feature_ac in4_pton in6_pton ac flow stat =
     Some (case ref_by_host in4_pton in6_pton features flow of
        Some n \<Rightarrow> (Some n, flow, stat')
      | None \<Rightarrow> (case (if dns_match (fl_dns flow)
              then ref_on_domains features flow (dns_indices flow) else None) of
          Some n \<Rightarrow> (Some n, flow\<lparr>fl_match_by_dns := True\<rparr>, stat')
        | None \<Rightarrow> (None, flow, stat')))"
proof -
  have root: "ac_root ac \<noteq> None" using assms(1) by (simp add: linked_def built_def)
  have host: "\<exists>stat1. (case af_get_flow_host in4_pton in6_pton flow of
      Some host_buf \<Rightarrow> af_match_url_text_ac ac flow stat host_buf True
    | None \<Rightarrow> Some (None, stat)) = Some (ref_by_host in4_pton in6_pton features flow, stat1)"
    using linked_match [OF assms, of flow stat _ True]
    by (cases "af_get_flow_host in4_pton in6_pton flow") (simp_all add: ref_by_host_def)
  then obtain stat1 where 1: "(case af_get_flow_host in4_pton in6_pton flow of
      Some host_buf \<Rightarrow> af_match_url_text_ac ac flow stat host_buf True
    | None \<Rightarrow> Some (None, stat)) = Some (ref_by_host in4_pton in6_pton features flow, stat1)" ..
  obtain stat2 where 2: "ac_on_domains ac flow (dns_indices flow) stat1 =
      Some (ref_on_domains features flow (dns_indices flow), stat2)"
    using ac_on_domains_ref [OF assms] by blast
  show ?thesis
  proof (cases "ref_by_host in4_pton in6_pton features flow")
    case None
    then show ?thesis unfolding af_match_url_feature_ac_def 1
      using root assms(2) 2 by (auto split: option.split)
  next
    case (Some n)
    then show ?thesis unfolding af_match_url_feature_ac_def 1 using root assms(2) by auto
  qed
qed

lemma match_feature_linked:
  assumes l: "linked ac root lab (filter ac_eligible features)" "ac_ready ac"
  shows "fwx_match_feature in4_pton in6_pton junk ac features flow =
     Some (ref_match_feature in4_pton in6_pton junk features flow)"
proof -
  let ?flow = "flow\<lparr>fl_match_by_dns := False\<rparr>"
  obtain stat' where "af_match_url_feature_ac in4_pton in6_pton ac ?flow stat_zero =
     Some (case ref_by_host in4_pton in6_pton features ?flow of
        Some n \<Rightarrow> (Some n, ?flow, stat')
      | None \<Rightarrow> (case (if dns_match (fl_dns ?flow)
              then ref_on_domains features ?flow (dns_indices ?flow) else None) of
          Some n \<Rightarrow> (Some n, ?flow\<lparr>fl_match_by_dns := True\<rparr>, stat')
        | None \<Rightarrow> (None, ?flow, stat')))"
    using af_match_url_feature_ac_ref [OF l] by blast
  then show ?thesis
    unfolding fwx_match_feature_def ref_match_feature_def Let_def
    by (simp split: option.split)
qed

lemma match_feature_ref:
  "\<exists>ac'. af_rebuild_url_ac_locked (\<lambda>_. True) features ac = Some (True, ac') \<and>
     fwx_match_feature in4_pton in6_pton junk ac' features flow =
       Some (ref_match_feature in4_pton in6_pton junk features flow)"
  using rebuild_linked [of "\<lambda>_. True" features ac] match_feature_linked by fastforce

text \<open>
  C1. The whole classification is equivalent to its reference. With the automaton that the
  rebuild makes from the feature list, and with any other feature, flow and IP-literal
  parser, the classification ends and gives what trying in this order gives: QUIC, the literal
  patterns on the host by naive search, the literal patterns on the DNS names, the regular
  expressions on the DNS names, the other features one by one.
\<close>

theorem fwx_match_feature_ref:
  "\<exists>ac'. af_rebuild_url_ac_locked (\<lambda>_. True) features ac = Some (True, ac') \<and>
     fwx_match_feature in4_pton in6_pton junk ac' features flow =
       Some (ref_match_feature in4_pton in6_pton junk features flow)"
  by (rule match_feature_ref)

lemma first_regex_sound: "first_regex junk fs d = Inr (Some n) \<Longrightarrow> n \<in> set fs"
  by (induction fs) (auto simp: ub_bind_Inr split: if_splits)

lemma dns_regex_sound: "dns_regex_on junk fs flow is = Inr (Some n) \<Longrightarrow> n \<in> set fs"
  by (induction "is") (auto simp: ub_bind_Inr split: option.splits dest: first_regex_sound)

text \<open>The flow up to the flag that the match came from a DNS name.\<close>

definition same_but_dns :: "flow_info \<Rightarrow> flow_info \<Rightarrow> bool" where
  "same_but_dns flow flow' \<longleftrightarrow> (\<exists>b. flow' = flow\<lparr>fl_match_by_dns := b\<rparr>)"

lemma same_but_dns_simps [simp]:
  "same_but_dns flow flow" "same_but_dns flow (flow\<lparr>fl_match_by_dns := b\<rparr>)"
proof -
  have "flow = flow\<lparr>fl_match_by_dns := fl_match_by_dns flow\<rparr>" by simp
  then show "same_but_dns flow flow" unfolding same_but_dns_def by (rule exI)
qed (auto simp: same_but_dns_def)

lemma same_but_dns_trans: "same_but_dns a b \<Longrightarrow> same_but_dns b c \<Longrightarrow> same_but_dns a c"
  by (auto simp: same_but_dns_def)

lemma match_by_url_flow:
  "af_match_by_url in4_pton in6_pton junk flow node = Inr (hit, flow') \<Longrightarrow> same_but_dns flow flow'"
  by (cases "url_host_hit in4_pton in6_pton junk flow node"; cases "url_dns_hit junk flow node";
      cases "url_request_hit junk flow node") (auto simp: af_match_by_url_def split: if_splits)

lemma match_one_flow:
  "af_match_one in4_pton in6_pton junk flow node = Inr (hit, flow') \<Longrightarrow> same_but_dns flow flow'"
  by (auto simp: af_match_one_def split: if_splits dest: match_by_url_flow)

lemma match_non_url_sound:
  "af_match_non_url_feature in4_pton in6_pton junk fs flow = Inr (node, flow') \<Longrightarrow>
     same_but_dns flow flow' \<and> (case node of None \<Rightarrow> True | Some n \<Rightarrow> n \<in> set fs)"
proof (induction fs arbitrary: flow)
  case Nil
  then show ?case by simp
next
  case (Cons f fs)
  show ?case
  proof (cases "fn_host_url f \<noteq> [] \<and> \<not> af_is_regex_host_pattern (fn_host_url f) \<and> fn_request_url f = []")
    case True
    then show ?thesis using Cons.IH [of flow] Cons.prems by (auto split: option.splits)
  next
    case False
    then have "ub_bind (af_match_one in4_pton in6_pton junk flow f) (\<lambda>(hit, flow').
        if hit then Inr (Some f, flow')
        else af_match_non_url_feature in4_pton in6_pton junk fs flow') = Inr (node, flow')"
      using Cons.prems by auto
    then obtain hit flow1 where m: "af_match_one in4_pton in6_pton junk flow f = Inr (hit, flow1)"
      and r: "(if hit then Inr (Some f, flow1)
        else af_match_non_url_feature in4_pton in6_pton junk fs flow1) = Inr (node, flow')"
      unfolding ub_bind_Inr by auto
    show ?thesis
    proof (cases hit)
      case True
      then show ?thesis using r match_one_flow [OF m] by auto
    next
      case False
      then have "same_but_dns flow1 flow' \<and> (case node of None \<Rightarrow> True | Some n \<Rightarrow> n \<in> set fs)"
        using Cons.IH [of flow1] r by simp
      then show ?thesis using same_but_dns_trans [OF match_one_flow [OF m]] by (cases node) auto
    qed
  qed
qed

text \<open>What a flow looks like after the classification.\<close>

definition classified :: "feature_node list \<Rightarrow> flow_info \<Rightarrow> bool \<Rightarrow> flow_info \<Rightarrow> bool" where
  "classified features flow hit flow' \<longleftrightarrow>
     (if \<not> hit then same_but_dns flow flow'
      else if is_quic_flow flow
      then same_but_dns (flow\<lparr>fl_app_id := 10, fl_app_name := cstr ''QUIC''\<rparr>) flow'
      else \<exists>f\<in>set features. same_but_dns (set_feature f flow) flow')"

lemma same_but_dns_set_feature:
  "same_but_dns flow flow' \<Longrightarrow> same_but_dns (set_feature f flow) (set_feature f flow')"
  unfolding same_but_dns_def by (elim exE, rule exI, cases flow) (simp add: set_feature_def)

lemma match_dns_regex_sound:
  "af_match_dns_regex_feature junk features flow = Inr (node, flow') \<Longrightarrow>
     same_but_dns flow flow' \<and> (case node of None \<Rightarrow> True | Some n \<Rightarrow> n \<in> set features)"
  by (auto simp: af_match_dns_regex_feature_def ub_bind_Inr split: if_splits option.splits
      dest: dns_regex_sound)

lemma match_rest_classified:
  assumes m: "match_rest in4_pton in6_pton junk features flow0 = Inr (hit, flow')"
    and "same_but_dns flow flow0" and "\<not> is_quic_flow flow"
  shows "classified features flow hit flow'"
proof -
  obtain node flow1 where d: "af_match_dns_regex_feature junk features flow0 = Inr (node, flow1)"
    and r: "(case node of Some n \<Rightarrow> Inr (True, set_feature n flow1)
       | None \<Rightarrow> ub_bind (af_match_non_url_feature in4_pton in6_pton junk features flow1) (\<lambda>(node, flow2).
           case node of Some n \<Rightarrow> Inr (True, set_feature n flow2) | None \<Rightarrow> Inr (False, flow2))) = Inr (hit, flow')"
    using m unfolding match_rest_def ub_bind_Inr by auto
  note n1 = match_dns_regex_sound [OF d]
  then have s1: "same_but_dns flow flow1" using assms(2) same_but_dns_trans by blast
  show ?thesis
  proof (cases node)
    case (Some n)
    then have "hit" "flow' = set_feature n flow1" "n \<in> set features" using r n1 by auto
    then show ?thesis using assms(3) same_but_dns_set_feature [OF s1] by (auto simp: classified_def)
  next
    case None
    then have "ub_bind (af_match_non_url_feature in4_pton in6_pton junk features flow1) (\<lambda>(node, flow2).
           case node of Some n \<Rightarrow> Inr (True, set_feature n flow2) | None \<Rightarrow> Inr (False, flow2)) = Inr (hit, flow')"
      using r by simp
    then obtain node2 flow2 where u: "af_match_non_url_feature in4_pton in6_pton junk features flow1 = Inr (node2, flow2)"
      and r2: "(case node2 of Some n \<Rightarrow> Inr (True, set_feature n flow2) | None \<Rightarrow> Inr (False, flow2)) =
          (Inr (hit, flow') :: (bool \<times> flow_info) ub_result)"
      unfolding ub_bind_Inr by auto
    note n2 = match_non_url_sound [OF u]
    then have s2: "same_but_dns flow flow2" using s1 same_but_dns_trans by blast
    show ?thesis
    proof (cases node2)
      case None
      then show ?thesis using r2 s2 by (auto simp: classified_def)
    next
      case (Some n)
      then have "hit" "flow' = set_feature n flow2" "n \<in> set features" using r2 n2 by auto
      then show ?thesis using assms(3) same_but_dns_set_feature [OF s2] by (auto simp: classified_def)
    qed
  qed
qed

lemma ref_on_domains_sound: "ref_on_domains features flow is = Some n \<Longrightarrow> n \<in> set features"
  by (induction "is") (auto split: option.splits dest: ref_search_sound)

lemma ref_by_host_sound: "ref_by_host in4_pton in6_pton features flow = Some n \<Longrightarrow> n \<in> set features"
  by (auto simp: ref_by_host_def bind_eq_Some_conv dest: ref_search_sound)

lemma ref_match_feature_classified:
  assumes "ref_match_feature in4_pton in6_pton junk features flow = Inr (hit, flow')"
  shows "classified features flow hit flow'"
proof -
  let ?flow = "flow\<lparr>fl_match_by_dns := False\<rparr>"
  have q: "is_quic_flow ?flow = is_quic_flow flow" by (simp add: is_quic_flow_def)
  show ?thesis
  proof (cases "is_quic_flow flow")
    case True
    then have "hit" "flow' = flow\<lparr>fl_app_id := 10, fl_app_name := cstr ''QUIC''\<rparr>\<lparr>fl_match_by_dns := False\<rparr>"
      using assms q by (simp_all add: ref_match_feature_def Let_def FWX_QUIC_PROTO_def) (cases flow; simp)
    then show ?thesis using True by (simp add: classified_def del: cstr_simps)
  next
    case False
    note F = False
    show ?thesis
    proof (cases "ref_by_host in4_pton in6_pton features ?flow")
      case (Some n)
      then have "hit" "flow' = set_feature n ?flow" using assms q F by (auto simp: ref_match_feature_def Let_def)
      then show ?thesis using ref_by_host_sound [OF Some] F same_but_dns_set_feature [of flow ?flow n]
        by (auto simp: classified_def)
    next
      case None
      show ?thesis
      proof (cases "if dns_match (fl_dns ?flow) then ref_on_domains features ?flow (dns_indices ?flow) else None")
        case None': None
        then have "match_rest in4_pton in6_pton junk features ?flow = Inr (hit, flow')"
          using assms q F None by (simp add: ref_match_feature_def Let_def)
        then show ?thesis by (rule match_rest_classified) (simp_all add: F)
      next
        case (Some n)
        then have "hit" "flow' = set_feature n (?flow\<lparr>fl_match_by_dns := True\<rparr>)"
          using assms q F None by (simp_all add: ref_match_feature_def Let_def)
        moreover have "n \<in> set features"
          using Some ref_on_domains_sound by (auto split: if_splits)
        ultimately show ?thesis using F same_but_dns_set_feature [of flow "flow\<lparr>fl_match_by_dns := True\<rparr>" n]
          by (auto simp: classified_def)
      qed
    qed
  qed
qed

text \<open>
  A classification names a loaded feature. When it succeeds on a flow that is not QUIC, the
  application, its name and the feature recorded are those of one feature of the list; on a
  QUIC flow they are the reserved ones; when it finds nothing, nothing is recorded; and in no
  case is anything else of the flow changed but the flag for matches by a DNS name.
\<close>

theorem fwx_match_feature_classified:
  assumes "af_rebuild_url_ac_locked (\<lambda>_. True) features ac = Some (True, ac')"
    and "fwx_match_feature in4_pton in6_pton junk ac' features flow = Some (Inr (hit, flow'))"
  shows "classified features flow hit flow'"
proof -
  obtain ac1 where "af_rebuild_url_ac_locked (\<lambda>_. True) features ac = Some (True, ac1)"
    and r: "fwx_match_feature in4_pton in6_pton junk ac1 features flow =
       Some (ref_match_feature in4_pton in6_pton junk features flow)"
    using match_feature_ref by blast
  then have "ac1 = ac'" using assms(1) by simp
  then have "ref_match_feature in4_pton in6_pton junk features flow = Inr (hit, flow')" using r assms(2) by simp
  then show ?thesis by (rule ref_match_feature_classified)
qed

definition video_feature :: feature_node where
  "video_feature = \<lparr>fn_app_id = 8001, fn_app_name = cstr ''video'', fn_feature = [], fn_proto = 0,
     fn_sport = 0, fn_dport_info = [], fn_host_url = cstr ''ab.c'', fn_request_url = [],
     fn_search_str = [], fn_ignore = 0, fn_pos_info = []\<rparr>"

definition video_flow :: flow_info where
  "video_flow = dpi_main hello_flow"

definition no_memory_used :: url_ac where
  "no_memory_used = \<lparr>ac_root = None, ac_nodes = [], ac_node_count = 0, ac_edge_count = 0,
     ac_output_count = 0, ac_ready = False, ac_dirty = False, ac_allocs = 0\<rparr>"

theorem fwx_match_feature_classified_witness:
  "\<exists>ac' flow'. fwx_match_feature (\<lambda>_. False) (\<lambda>_. False) (\<lambda>_. 0) ac' [video_feature] video_flow =
       Some (Inr (True, flow')) \<and> classified [video_feature] video_flow True flow' \<and> fl_app_id flow' = 8001"
proof -
  let ?F = "\<lambda>_ :: bytes. False"
  have "case ref_match_feature ?F ?F (\<lambda>_. 0) [video_feature] video_flow of
      Inl _ \<Rightarrow> False | Inr (hit, flow') \<Rightarrow> hit \<and> fl_app_id flow' = 8001" by code_simp
  then obtain flow' where f: "ref_match_feature ?F ?F (\<lambda>_. 0) [video_feature] video_flow = Inr (True, flow')"
    and id: "fl_app_id flow' = 8001" by (auto split: sum.splits)
  obtain ac' where "af_rebuild_url_ac_locked (\<lambda>_. True) [video_feature] no_memory_used = Some (True, ac')"
    and m: "fwx_match_feature ?F ?F (\<lambda>_. 0) ac' [video_feature] video_flow = Some (Inr (True, flow'))"
    using match_feature_ref [of "[video_feature]" no_memory_used ?F ?F "\<lambda>_. 0" video_flow] f by auto
  then show ?thesis using fwx_match_feature_classified id by blast
qed

text \<open>
  A malformed pattern matches everything. The caller takes any value but zero for a match,
  and \<^verbatim>\<open>regexp_match\<close> returns -1 for a pattern that does not compile: a feature whose pattern
  has an unclosed class claims every DNS name, whatever the name is.
\<close>

theorem malformed_regex_matches_all:
  "dns_regex_on junk [video_feature\<lparr>fn_host_url := cstr ''^a*$[b''\<rparr>]
     (flow_zero\<lparr>fl_dns := \<lparr>dns_match = True, dns_query_num = 1, dns_qdcount = 1, dns_qtype = [1],
        dns_domain = [c # d]\<rparr>\<rparr>) [0] =
   (if c = 0 then Inr None else Inr (Some (video_feature\<lparr>fn_host_url := cstr ''^a*$[b''\<rparr>)))"
proof -
  have e: "compile junk (cstr ''^a*$[b'') = Inr None"
    by (simp add: compile_def compile_from.simps compile_class.simps re_cons_def)
  have "regexp_hit junk (cstr ''^a*$[b'') t = Inr True" for t
    by (simp add: regexp_hit_def regexp_match_def e del: cstr_simps)
  then show ?thesis
    by (simp add: af_copy_dns_domain_def c_string_def MAX_DNS_QUERY_NUM_def af_is_regex_host_pattern_def)
qed

end
