(* ===== verification/Fwx_Feature.thy ===== *)
theory Fwx_Feature
  imports Fwx_Match
begin

text \<open>
  Loading features (\<^verbatim>\<open>oaf/src/fwx_main.c\<close>): a line \<^verbatim>\<open>id~name:[feature,feature,...]\<close> comes from
  user space, each feature is eight fields separated by semicolons, and a loaded feature goes to
  the front of the list. The local buffers have fixed sizes and most copies into them have no
  bound: those that do not fit are \<open>Inl\<close>.
\<close>

section \<open>Numbers\<close>

definition is_hex_digit :: "u8 \<Rightarrow> bool" where
  "is_hex_digit c \<longleftrightarrow> is_digit c \<or> (0x41 \<le> c \<and> c \<le> 0x46) \<or> (0x61 \<le> c \<and> c \<le> 0x66)"

definition hex_value :: "u8 \<Rightarrow> int" where
  "hex_value c = (if is_digit c then uint c - 0x30 else if c \<le> 0x46 then uint c - 0x37
     else uint c - 0x57)"

definition skip_spaces :: "bytes \<Rightarrow> bytes" where
  "skip_spaces = dropWhile (\<lambda>c. is_space c \<and> c \<noteq> 0xA0)"

text \<open>\<^verbatim>\<open>simple_strtoul\<close> in base 16, cut to an \<^verbatim>\<open>int\<close>; a prefix \<^verbatim>\<open>0x\<close> is skipped.\<close>

definition strtoul_16 :: "bytes \<Rightarrow> int" where
  "strtoul_16 s =
     (let ds = (case s of c # x # ds \<Rightarrow> if c = 0x30 \<and> x OR 0x20 = 0x78 then ds else s | _ \<Rightarrow> s)
      in to_int32 (foldl (\<lambda>n c. n * 16 + hex_value c) 0 (takeWhile is_hex_digit ds)))"

text \<open>
  \<^verbatim>\<open>k_sscanf(pos, "%d:%x", &index, &value)\<close>: the number of conversions, and the two
  variables, which keep their old value when their conversion is not reached.
\<close>

definition sscanf_d_x :: "bytes \<Rightarrow> int \<times> int \<Rightarrow> nat \<times> int \<times> int" where
  "sscanf_d_x s old =
     (case skip_spaces s of
        [] \<Rightarrow> (0, old)
      | c # cs \<Rightarrow>
          let neg = (c = 0x2D); ds = (if neg then cs else c # cs);
              n = k_atoi_loop 0 (takeWhile is_digit ds);
              index = to_int32 (if neg then - n else n)
          in if takeWhile is_digit ds = [] then (0, old)
             else (case dropWhile is_digit ds of
                 [] \<Rightarrow> (1, index, snd old)
               | d # rest \<Rightarrow>
                   if d \<noteq> 0x3A then (1, index, snd old)
                   else (case skip_spaces rest of
                       [] \<Rightarrow> (1, index, snd old)
                     | x # xs \<Rightarrow> if is_hex_digit x then (2, index, strtoul_16 (x # xs))
                               else (1, index, snd old))))"

section \<open>Adding a feature\<close>

text \<open>\<^verbatim>\<open>af_feature_head\<close>, the automaton with its dirty flag, \<^verbatim>\<open>g_feature_count\<close>, and the allocations so far.\<close>

record feature_state =
  fs_features :: "feature_node list"
  fs_ac :: url_ac
  fs_count :: u32
  fs_allocs :: nat

text \<open>
  The loop over the dictionary entries that a bar ended. The result of the scan is not looked
  at. After the fifteenth entry the loop is left with \<^verbatim>\<open>begin\<close> one past \<^verbatim>\<open>p\<close>, so the copy that
  follows has length \<^verbatim>\<open>(size_t)-1\<close> and fills memory with zeros from \<^verbatim>\<open>pos\<close> on.
\<close>

fun dict_loop :: "bytes list \<Rightarrow> int \<times> int \<Rightarrow> pos_info list \<Rightarrow> ((int \<times> int) \<times> pos_info list) ub_result" where
  "dict_loop [] old acc = Inr (old, acc)"
| "dict_loop (f # fs) old acc = ub_bind (copy_field ''pos'' 64 f) (\<lambda>pos.
     case sscanf_d_x pos old of (_, index, value) \<Rightarrow>
       let acc' = acc @ [\<lparr>pi_pos = index, pi_value = word_of_int value\<rparr>]
       in if length acc' \<ge> MAX_POS_INFO_PER_FEATURE - 1 then Inl (BufferOverflow ''pos'')
          else dict_loop fs (index, value) acc')"

definition parse_dict :: "bytes \<Rightarrow> pos_info list ub_result" where
  "parse_dict dict = (case scan_fields 0x7C dict of (fs, r) \<Rightarrow>
     ub_bind (dict_loop fs (0, 0) []) (\<lambda>(old, acc).
       ub_bind (copy_field ''pos'' 64 r) (\<lambda>pos.
         case sscanf_d_x pos old of (ret, index, value) \<Rightarrow>
           Inr (if ret = 2 then acc @ [\<lparr>pi_pos = index, pi_value = word_of_int value\<rparr>] else acc))))"

text \<open>\<^verbatim>\<open>list_add\<close> puts the node at the front.\<close>

definition link_feature :: "feature_node \<Rightarrow> feature_state \<Rightarrow> feature_state" where
  "link_feature node st = st\<lparr>fs_features := node # fs_features st,
     fs_ac := (if ac_eligible node then (fs_ac st)\<lparr>ac_dirty := True\<rparr> else fs_ac st)\<rparr>"

definition add_app_feature_node ::
  "(nat \<Rightarrow> bool) \<Rightarrow> bytes \<Rightarrow> int \<Rightarrow> bytes \<Rightarrow> int \<Rightarrow> int \<Rightarrow> port_info \<Rightarrow> bytes \<Rightarrow> bytes \<Rightarrow> bytes \<Rightarrow> bytes \<Rightarrow>
     int \<Rightarrow> feature_state \<Rightarrow> feature_state ub_result" where
  "add_app_feature_node kz feature appid name proto src_port dport_info host_url request_url dict
       search_str ignore st0 =
     (let st = st0\<lparr>fs_allocs := Suc (fs_allocs st0)\<rparr> in
      if \<not> kz (fs_allocs st0) then Inr st
      else ub_bind (copy_field ''host_url'' MAX_HOST_URL_LEN host_url) (\<lambda>host_url.
        ub_bind (copy_field ''request_url'' MAX_REQUEST_URL_LEN request_url) (\<lambda>request_url.
        ub_bind (copy_field ''search_str'' MAX_SEARCH_STR_LEN search_str) (\<lambda>search_str.
        ub_bind (copy_field ''feature'' MAX_FEATURE_STR_LEN feature) (\<lambda>feature.
        ub_bind (parse_dict dict) (\<lambda>pos_list.
          Inr (link_feature \<lparr>fn_app_id = word_of_int appid,
             fn_app_name = take (MAX_APP_NAME_LEN - 1) name, fn_feature = feature,
             fn_proto = word_of_int proto, fn_sport = word_of_int src_port,
             fn_dport_info = dport_info, fn_host_url = host_url, fn_request_url = request_url,
             fn_search_str = search_str, fn_ignore = ignore, fn_pos_info = pos_list\<rparr> st)))))))"

text \<open>Field \<open>k\<close> when a semicolon ended it; the fields that are not there stay empty.\<close>

definition field :: "string \<Rightarrow> nat \<Rightarrow> bytes list \<Rightarrow> nat \<Rightarrow> bytes ub_result" where
  "field name sz fs k = (if k < length fs then copy_field name sz (fs ! k) else Inr [])"

definition add_app_feature ::
  "(nat \<Rightarrow> bool) \<Rightarrow> int \<Rightarrow> bytes \<Rightarrow> bytes \<Rightarrow> feature_state \<Rightarrow> feature_state ub_result" where
  "add_app_feature kz appid name feature st =
     (if length feature < MIN_FEATURE_STR_LEN then Inr st
      else case scan_fields 0x3B feature of (fs, r) \<Rightarrow>
        ub_bind (field ''proto_str'' 16 fs 0) (\<lambda>proto_str.
        ub_bind (field ''src_port_str'' 16 fs 1) (\<lambda>src_port_str.
        ub_bind (field ''dst_port_str'' 16 fs 2) (\<lambda>dst_port_str.
        ub_bind (field ''host_url'' 32 fs 3) (\<lambda>host_url.
        ub_bind (field ''request_url'' 128 fs 4) (\<lambda>request_url.
        ub_bind (if length fs = 5 then copy_field ''dict'' 128 r else field ''dict'' 128 fs 5) (\<lambda>dict.
        ub_bind (field ''search_str'' 128 fs 6) (\<lambda>search_str.
        ub_bind (if length fs = 7 then copy_field ''tmp_buf'' 128 r else field ''tmp_buf'' 128 fs 7) (\<lambda>tmp_buf.
          let ignore = (if length fs \<ge> 7 then k_atoi tmp_buf else 0);
              src_port = (case scan_d src_port_str of Some (n, _) \<Rightarrow> n | None \<Rightarrow> 0) in
          if proto_str \<noteq> cstr ''tcp'' \<and> proto_str \<noteq> cstr ''udp'' then Inr st
          else ub_bind (parse_port_info dst_port_str) (\<lambda>dport_info.
            add_app_feature_node kz feature appid name
              (if proto_str = cstr ''tcp'' then IPPROTO_TCP else IPPROTO_UDP) src_port dport_info
              host_url request_url dict search_str ignore st))))))))))"

section \<open>A line\<close>

definition af_trim_space :: "bytes \<Rightarrow> bytes" where
  "af_trim_space s = rev (dropWhile is_space (rev (dropWhile is_space s)))"

text \<open>The colon, the tilde and the sharp sign.\<close>

definition af_parse_feature_app_header :: "bytes \<Rightarrow> nat \<Rightarrow> (int \<times> bytes) option" where
  "af_parse_feature_app_header feature_str app_name_len =
     (let header = takeWhile (\<lambda>c. c \<noteq> 0x3A) feature_str in
      if 0x3A \<notin> set feature_str \<or> header = [] \<or> length header \<ge> 128 \<or> 0x7E \<notin> set header then None
      else
        let id_text = af_trim_space (takeWhile (\<lambda>c. c \<noteq> 0x7E) header);
            name_text = af_trim_space (tl (dropWhile (\<lambda>c. c \<noteq> 0x7E) header))
        in if id_text = [] \<or> name_text = [] then None
           else (case kstrtol_10 id_text of
               None \<Rightarrow> None
             | Some num \<Rightarrow>
                 if num \<le> 0 then None
                 else if af_trim_space (dropWhile (\<lambda>c. \<not> is_space c) id_text) \<noteq> [] then None
                 else Some (to_int32 num, take (app_name_len - 1) name_text)))"

text \<open>
  The search for the brackets: \<open>i\<close> is the index of \<^verbatim>\<open>p\<close>; the result is the index after the last
  opening bracket and the length set at the last closing bracket that had one before it.
\<close>

fun find_brackets :: "nat \<Rightarrow> bytes \<Rightarrow> nat option \<Rightarrow> nat \<Rightarrow> nat option \<times> nat" where
  "find_brackets i [] pos len = (pos, len)"
| "find_brackets i (c # cs) pos len =
     (if c = 0x5B then find_brackets (Suc i) cs (Some (Suc i)) len
      else (case pos of
          None \<Rightarrow> find_brackets (Suc i) cs pos len
        | Some k \<Rightarrow> find_brackets (Suc i) cs pos (if c = 0x5D then i - k else len)))"

text \<open>The fields that a comma ended. A field of 128 bytes is taken, and its NUL goes past the array.\<close>

fun add_features ::
  "(nat \<Rightarrow> bool) \<Rightarrow> int \<Rightarrow> bytes \<Rightarrow> bytes list \<Rightarrow> feature_state \<Rightarrow> (bool \<times> feature_state) ub_result" where
  "add_features kz app_id app_name [] st = Inr (True, st)"
| "add_features kz app_id app_name (f # fs) st =
     (if length f > MAX_FEATURE_STR_LEN then Inr (False, st)
      else if length f = MAX_FEATURE_STR_LEN then Inl (BufferOverflow ''feature'')
      else ub_bind (add_app_feature kz app_id app_name f st) (add_features kz app_id app_name fs))"

text \<open>For the last field \<^verbatim>\<open>p\<close> is one past the NUL, so its length counts one more.\<close>

definition add_last_feature ::
  "(nat \<Rightarrow> bool) \<Rightarrow> int \<Rightarrow> bytes \<Rightarrow> bytes \<Rightarrow> feature_state \<Rightarrow> feature_state ub_result" where
  "add_last_feature kz app_id app_name f st =
     (if length f + 1 > MAX_FEATURE_STR_LEN then Inr st
      else if length f + 1 = MAX_FEATURE_STR_LEN then Inl (BufferOverflow ''feature'')
      else add_app_feature kz app_id app_name f st)"

definition af_init_feature :: "(nat \<Rightarrow> bool) \<Rightarrow> bytes \<Rightarrow> feature_state \<Rightarrow> feature_state ub_result" where
  "af_init_feature kz feature_str st0 =
     (let st = st0\<lparr>fs_allocs := Suc (fs_allocs st0)\<rparr> in
      if \<not> kz (fs_allocs st0) then Inr st
      else if 0x23 \<in> set feature_str then Inr st
      else (case af_parse_feature_app_header feature_str 128 of
          None \<Rightarrow> Inr st
        | Some (app_id, app_name) \<Rightarrow>
            (case find_brackets 1 (tl feature_str) None 0 of (pos, len) \<Rightarrow>
               let buf = (case pos of None \<Rightarrow> [] | Some k \<Rightarrow> take len (drop k feature_str)) in
               (case scan_fields 0x2C buf of (fs, r) \<Rightarrow>
                  ub_bind (add_features kz app_id app_name fs st) (\<lambda>(all, st1).
                  ub_bind (if all then add_last_feature kz app_id app_name r st1 else Inr st1) (\<lambda>st2.
                    Inr (st2\<lparr>fs_count := fs_count st2 + 1\<rparr>)))))))"

section \<open>Messages\<close>

definition af_clean_feature_list :: "feature_state \<Rightarrow> feature_state" where
  "af_clean_feature_list st = st\<lparr>fs_features := [],
     fs_ac := (af_ac_reset_locked (fs_ac st))\<lparr>ac_dirty := True\<rparr>, fs_count := 0\<rparr>"

definition af_add_feature_msg_handle ::
  "(nat \<Rightarrow> bool) \<Rightarrow> bytes \<Rightarrow> int \<Rightarrow> feature_state \<Rightarrow> feature_state ub_result" where
  "af_add_feature_msg_handle kz data len st =
     (if len \<le> 0 \<or> len \<ge> int MAX_FEATURE_LINE_LEN then Inr st
      else af_init_feature kz (c_string (take (nat len) data)) st)"

text \<open>The return value of the rebuild is not looked at; \<open>kza\<close> is the oracle of the automaton's allocations.\<close>

definition af_feature_load_done_msg_handle :: "(nat \<Rightarrow> bool) \<Rightarrow> feature_state \<Rightarrow> feature_state option" where
  "af_feature_load_done_msg_handle kza st =
     (if ac_dirty (fs_ac st)
      then map_option (\<lambda>(_, ac). st\<lparr>fs_ac := ac\<rparr>) (af_rebuild_url_ac_locked kza (fs_features st) (fs_ac st))
      else Some st)"

section \<open>What loading can do\<close>

text \<open>The strings and lists of a feature fit the arrays of its node.\<close>

definition feature_fits :: "feature_node \<Rightarrow> bool" where
  "feature_fits node \<longleftrightarrow> length (fn_app_name node) < MAX_APP_NAME_LEN \<and>
     length (fn_feature node) < MAX_FEATURE_STR_LEN \<and> length (fn_host_url node) < MAX_HOST_URL_LEN \<and>
     length (fn_request_url node) < MAX_REQUEST_URL_LEN \<and>
     length (fn_search_str node) < MAX_SEARCH_STR_LEN \<and>
     length (fn_pos_info node) \<le> MAX_POS_INFO_PER_FEATURE \<and>
     length (fn_dport_info node) \<le> MAX_PORT_RANGE_NUM \<and> fn_proto node \<in> {6, 17}"

lemma dict_loop_length:
  "dict_loop fs old acc = Inr (old', acc') \<Longrightarrow> length acc < MAX_POS_INFO_PER_FEATURE - 1 \<Longrightarrow>
     length acc' < MAX_POS_INFO_PER_FEATURE - 1"
proof (induction fs old acc rule: dict_loop.induct)
  case (2 f fs old acc)
  obtain n i v where s: "sscanf_d_x f old = (n, i, v)" by (cases "sscanf_d_x f old")
  let ?acc = "acc @ [\<lparr>pi_pos = i, pi_value = word_of_int v\<rparr>]"
  have "copy_field ''pos'' 64 f = Inr f" "length ?acc < MAX_POS_INFO_PER_FEATURE - 1"
    "dict_loop fs (i, v) ?acc = Inr (old', acc')"
    using "2.prems"(1) s by (auto simp: ub_bind_Inr copy_field_Inr Let_def split: if_splits)
  then show ?case using "2.IH" [OF s [symmetric] refl] s by auto
qed simp

lemma parse_dict_length:
  assumes "parse_dict dict = Inr ps"
  shows "length ps < MAX_POS_INFO_PER_FEATURE"
proof -
  obtain fs r where f: "scan_fields 0x7C dict = (fs, r)" by fastforce
  then obtain old acc where d: "dict_loop fs (0, 0) [] = Inr (old, acc)"
    and r: "(case sscanf_d_x r old of (ret, index, value) \<Rightarrow>
       if ret = 2 then acc @ [\<lparr>pi_pos = index, pi_value = word_of_int value\<rparr>] else acc) = ps"
    using assms by (auto simp: parse_dict_def f ub_bind_Inr copy_field_Inr case_prod_unfold)
  have "length acc < 15" using dict_loop_length [OF d] by (simp add: MAX_POS_INFO_PER_FEATURE_def)
  moreover obtain ret i v where "sscanf_d_x r old = (ret, i, v)" by (cases "sscanf_d_x r old")
  ultimately show ?thesis using r by (auto simp: MAX_POS_INFO_PER_FEATURE_def split: if_splits)
qed

lemma parse_port_info_length: "parse_port_info s = Inr ps \<Longrightarrow> length ps \<le> MAX_PORT_RANGE_NUM"
  by (auto simp: parse_port_info_def Let_def split: if_splits prod.splits dest: parse_port_list_length)

definition loads :: "feature_state \<Rightarrow> feature_state \<Rightarrow> bool" where
  "loads st st' \<longleftrightarrow> (\<exists>nodes k c. (\<forall>n\<in>set nodes. feature_fits n) \<and>
     st' = (fold link_feature nodes st)\<lparr>fs_allocs := k, fs_count := c\<rparr>)"

lemma link_feature_upd:
  "link_feature n (st\<lparr>fs_allocs := k\<rparr>) = (link_feature n st)\<lparr>fs_allocs := k\<rparr>"
  "link_feature n (st\<lparr>fs_count := c\<rparr>) = (link_feature n st)\<lparr>fs_count := c\<rparr>"
  by (simp_all add: link_feature_def)

lemma fold_link_feature_upd:
  "fold link_feature ns (st\<lparr>fs_allocs := k\<rparr>) = (fold link_feature ns st)\<lparr>fs_allocs := k\<rparr>"
  "fold link_feature ns (st\<lparr>fs_count := c\<rparr>) = (fold link_feature ns st)\<lparr>fs_count := c\<rparr>"
  by (induction ns arbitrary: st) (simp_all add: link_feature_upd)

lemma loads_upd [simp]:
  "loads st (st\<lparr>fs_allocs := k\<rparr>)" "loads st (st\<lparr>fs_count := c\<rparr>)" "loads st st"
  unfolding loads_def
  by (rule exI [of _ "[]"], rule exI [of _ k], rule exI [of _ "fs_count st"], simp)
    (rule exI [of _ "[]"], rule exI [of _ "fs_allocs st"], rule exI [of _ c], simp,
     rule exI [of _ "[]"], rule exI [of _ "fs_allocs st"], rule exI [of _ "fs_count st"], simp)

lemma loads_link: "feature_fits n \<Longrightarrow> loads st (link_feature n st)"
  unfolding loads_def
  by (rule exI [of _ "[n]"], rule exI [of _ "fs_allocs (link_feature n st)"],
      rule exI [of _ "fs_count (link_feature n st)"]) simp

lemma loads_trans:
  assumes "loads a b" and "loads b c"
  shows "loads a c"
proof -
  obtain ns k x ms j y where "\<forall>n\<in>set ns. feature_fits n" "\<forall>n\<in>set ms. feature_fits n"
    "b = (fold link_feature ns a)\<lparr>fs_allocs := k, fs_count := x\<rparr>"
    "c = (fold link_feature ms b)\<lparr>fs_allocs := j, fs_count := y\<rparr>"
    using assms unfolding loads_def by auto
  then have "c = (fold link_feature (ns @ ms) a)\<lparr>fs_allocs := j, fs_count := y\<rparr>"
    by (simp add: fold_link_feature_upd)
  then show ?thesis unfolding loads_def
    using \<open>\<forall>n\<in>set ns. feature_fits n\<close> \<open>\<forall>n\<in>set ms. feature_fits n\<close>
    by (intro exI [of _ "ns @ ms"] exI [of _ j] exI [of _ y]) auto
qed

lemma add_app_feature_node_loads:
  assumes "add_app_feature_node kz feature appid name proto src_port ports host_url request_url dict
       search_str ignore st = Inr st'" and "proto \<in> {6, 17}" and "length ports \<le> MAX_PORT_RANGE_NUM"
  shows "loads st st'"
proof (cases "kz (fs_allocs st)")
  case False
  then show ?thesis using assms(1) by (auto simp: add_app_feature_node_def)
next
  case True
  let ?st = "st\<lparr>fs_allocs := Suc (fs_allocs st)\<rparr>"
  obtain ps where ps: "parse_dict dict = Inr ps"
    and len: "length host_url < MAX_HOST_URL_LEN" "length request_url < MAX_REQUEST_URL_LEN"
      "length search_str < MAX_SEARCH_STR_LEN" "length feature < MAX_FEATURE_STR_LEN"
    and st': "st' = link_feature \<lparr>fn_app_id = word_of_int appid,
       fn_app_name = take (MAX_APP_NAME_LEN - 1) name, fn_feature = feature,
       fn_proto = word_of_int proto, fn_sport = word_of_int src_port,
       fn_dport_info = ports, fn_host_url = host_url, fn_request_url = request_url,
       fn_search_str = search_str, fn_ignore = ignore, fn_pos_info = ps\<rparr> ?st"
    (is "_ = link_feature ?node ?st")
    using assms(1) True unfolding add_app_feature_node_def Let_def
    by (auto simp: ub_bind_Inr copy_field_Inr)
  have "feature_fits ?node"
    using len assms(2,3) parse_dict_length [OF ps] by (auto simp: feature_fits_def MAX_APP_NAME_LEN_def)
  then show ?thesis using loads_trans [OF loads_upd(1) loads_link] unfolding st' by blast
qed

lemma add_app_feature_loads: "add_app_feature kz appid name feature st = Inr st' \<Longrightarrow> loads st st'"
  unfolding add_app_feature_def
  by (auto simp: ub_bind_Inr IPPROTO_TCP_def IPPROTO_UDP_def Let_def split: if_splits prod.splits
      dest!: parse_port_info_length intro: add_app_feature_node_loads)

lemma add_features_loads:
  "add_features kz app_id app_name fs st = Inr (all, st') \<Longrightarrow> loads st st'"
  by (induction fs arbitrary: st)
    (auto simp: ub_bind_Inr split: if_splits intro: loads_trans dest!: add_app_feature_loads)

lemma af_init_feature_loads:
  assumes "af_init_feature kz s st = Inr st'"
  shows "loads st st'"
proof -
  let ?st = "st\<lparr>fs_allocs := Suc (fs_allocs st)\<rparr>"
  have last: "loads a b" if "add_last_feature kz i nm f a = Inr b" for i nm f a b
    using that by (auto simp: add_last_feature_def split: if_splits dest: add_app_feature_loads)
  consider "st' = ?st" | st1 st2 i nm fs r all where "add_features kz i nm fs ?st = Inr (all, st1)"
      "(if all then add_last_feature kz i nm r st1 else Inr st1) = Inr st2"
      "st' = st2\<lparr>fs_count := fs_count st2 + 1\<rparr>"
    using assms unfolding af_init_feature_def Let_def
    by (auto simp: ub_bind_Inr split: if_splits option.splits prod.splits)
  then show ?thesis
  proof cases
    case 2
    have "loads ?st st1" using add_features_loads [OF 2(1)] .
    moreover have "loads st1 st2" using 2(2) last by (auto split: if_splits)
    moreover have "loads st2 st'" using 2(3) by simp
    ultimately show ?thesis using loads_trans loads_upd(1) by meson
  qed simp
qed

section \<open>The automaton follows the list\<close>

text \<open>What a run of the module can do to the features: the three messages of the loader.\<close>

datatype feature_msg = MSG_ADD_FEATURE bytes int | MSG_CLEAN_FEATURE | MSG_LOAD_DONE

text \<open>The initial state of the globals.\<close>

definition feature_init :: feature_state where
  "feature_init = \<lparr>fs_features = [], fs_ac = no_memory_used\<lparr>ac_dirty := True\<rparr>, fs_count = 0,
     fs_allocs = 0\<rparr>"

inductive feature_reach :: "(nat \<Rightarrow> bool) \<Rightarrow> feature_state \<Rightarrow> bool" for kz where
  fr_init: "feature_reach kz feature_init"
| fr_add: "feature_reach kz st \<Longrightarrow> af_add_feature_msg_handle kz data len st = Inr st' \<Longrightarrow>
     feature_reach kz st'"
| fr_clean: "feature_reach kz st \<Longrightarrow> feature_reach kz (af_clean_feature_list st)"
| fr_done: "feature_reach kz st \<Longrightarrow>
     af_feature_load_done_msg_handle (\<lambda>_. True) st = Some st' \<Longrightarrow> feature_reach kz st'"

definition ac_fresh :: "feature_state \<Rightarrow> bool" where
  "ac_fresh st \<longleftrightarrow> ac_dirty (fs_ac st) \<or> (ac_ready (fs_ac st) \<and>
     (\<exists>root lab. linked (fs_ac st) root lab (filter ac_eligible (fs_features st))))"

lemma ac_fresh_link: "ac_fresh st \<Longrightarrow> ac_fresh (link_feature node st)"
  by (auto simp: ac_fresh_def link_feature_def)

lemma ac_fresh_loads: "loads st st' \<Longrightarrow> ac_fresh st \<Longrightarrow> ac_fresh st'"
proof -
  have "ac_fresh st \<Longrightarrow> ac_fresh (fold link_feature ns st)" for ns
    by (induction ns arbitrary: st) (simp_all add: ac_fresh_link)
  moreover have "ac_fresh (s\<lparr>fs_allocs := k, fs_count := c\<rparr>) = ac_fresh s" for s k c
    by (simp add: ac_fresh_def)
  ultimately show "loads st st' \<Longrightarrow> ac_fresh st \<Longrightarrow> ac_fresh st'"
    unfolding loads_def by (elim exE conjE) simp
qed

lemma feature_fits_loads:
  "loads st st' \<Longrightarrow> \<forall>n\<in>set (fs_features st). feature_fits n \<Longrightarrow> \<forall>n\<in>set (fs_features st'). feature_fits n"
proof -
  have "set (fs_features (fold link_feature ns st)) = set ns \<union> set (fs_features st)" for ns
    by (induction ns arbitrary: st) (auto simp: link_feature_def)
  then show "loads st st' \<Longrightarrow> \<forall>n\<in>set (fs_features st). feature_fits n \<Longrightarrow> \<forall>n\<in>set (fs_features st'). feature_fits n"
    by (auto simp: loads_def)
qed

lemma add_msg_loads: "af_add_feature_msg_handle kz data len st = Inr st' \<Longrightarrow> loads st st'"
  by (auto simp: af_add_feature_msg_handle_def split: if_splits dest: af_init_feature_loads)

lemma load_done_fresh:
  "\<exists>st'. af_feature_load_done_msg_handle (\<lambda>_. True) st = Some st' \<and> fs_features st' = fs_features st \<and>
     \<not> ac_dirty (fs_ac st') \<and> (ac_fresh st \<longrightarrow> ac_fresh st')"
proof (cases "ac_dirty (fs_ac st)")
  case True
  obtain ac' root lab where "af_rebuild_url_ac_locked (\<lambda>_. True) (fs_features st) (fs_ac st) = Some (True, ac')"
    "ac_ready ac'" "\<not> ac_dirty ac'" "linked ac' root lab (filter ac_eligible (fs_features st))"
    using rebuild_linked [of "\<lambda>_. True" "fs_features st" "fs_ac st"] by auto
  then show ?thesis using True by (auto simp: af_feature_load_done_msg_handle_def ac_fresh_def)
qed (simp add: af_feature_load_done_msg_handle_def)

lemma feature_reach_fresh: "feature_reach kz st \<Longrightarrow> ac_fresh st"
proof (induction rule: feature_reach.induct)
  case (fr_done st st')
  then show ?case using load_done_fresh [of st] by auto
next
  case (fr_add st data len st')
  then show ?case using add_msg_loads ac_fresh_loads by blast
qed (simp_all add: feature_init_def af_clean_feature_list_def ac_fresh_def)

text \<open>
  The automaton never lags behind the feature list unnoticed. In every state the loader can
  bring about with its three messages (whichever allocations of features fail, as long as the
  automaton gets its memory), either the dirty flag is set, or classifying with the automaton gives
  what the reference gives for the current features.
\<close>

theorem feature_reach_classifies:
  assumes "feature_reach kz st" and "\<not> ac_dirty (fs_ac st)"
  shows "fwx_match_feature in4_pton in6_pton junk (fs_ac st) (fs_features st) flow =
     Some (ref_match_feature in4_pton in6_pton junk (fs_features st) flow)"
proof -
  obtain root lab where "ac_ready (fs_ac st)" "linked (fs_ac st) root lab (filter ac_eligible (fs_features st))"
    using feature_reach_fresh [OF assms(1)] assms(2) by (auto simp: ac_fresh_def)
  then show ?thesis using match_feature_linked by blast
qed

text \<open>
  The end of a load always rebuilds: the handler returns, keeps the features, and leaves the
  dirty flag clear.
\<close>

theorem load_done_rebuilds:
  "\<exists>st'. af_feature_load_done_msg_handle (\<lambda>_. True) st = Some st' \<and>
     fs_features st' = fs_features st \<and> \<not> ac_dirty (fs_ac st')"
  using load_done_fresh by blast

text \<open>
  Every feature in memory fits its node: in every reachable state, the strings of each
  feature have room for their NUL, and it has at most 16 positions and 5 port ranges.
\<close>

theorem feature_reach_fits:
  assumes "feature_reach kz st" and "node \<in> set (fs_features st)"
  shows "feature_fits node"
proof -
  have "\<forall>n\<in>set (fs_features st). feature_fits n"
    using assms(1)
  proof (induction rule: feature_reach.induct)
    case (fr_done st st')
    then show ?case using load_done_fresh [of st] by auto
  next
    case (fr_add st data len st')
    then show ?case using add_msg_loads feature_fits_loads by blast
  qed (simp_all add: feature_init_def af_clean_feature_list_def)
  then show ?thesis using assms(2) by blast
qed

definition video_line :: bytes where
  "video_line = cstr ''8001~vid:[tcp;;;ab.c;;]''"

lemma video_line_added:
  "case af_add_feature_msg_handle (\<lambda>_. True) video_line 23 feature_init of
     Inl _ \<Rightarrow> False | Inr st \<Rightarrow> map fn_host_url (fs_features st) = [cstr ''ab.c''] \<and> ac_dirty (fs_ac st)"
  by code_simp

lemma video_reach:
  "\<exists>st n. feature_reach (\<lambda>_. True) st \<and> fs_features st = [n] \<and> fn_host_url n = cstr ''ab.c'' \<and>
     \<not> ac_dirty (fs_ac st)"
proof -
  obtain st where a: "af_add_feature_msg_handle (\<lambda>_. True) video_line 23 feature_init = Inr st"
    and m: "map fn_host_url (fs_features st) = [cstr ''ab.c'']"
    using video_line_added by (auto split: sum.splits)
  obtain st' where d: "af_feature_load_done_msg_handle (\<lambda>_. True) st = Some st'"
    and s: "fs_features st' = fs_features st" "\<not> ac_dirty (fs_ac st')" using load_done_fresh by blast
  have "feature_reach (\<lambda>_. True) st'" using fr_done [OF fr_add [OF fr_init a] d] .
  then show ?thesis using m s by (intro exI [of _ st'] exI [of _ "hd (fs_features st')"]) auto
qed

theorem feature_reach_classifies_witness:
  "\<exists>(st :: feature_state) n. fs_features st = [n] \<and> fn_host_url n = cstr ''ab.c'' \<and>
     fwx_match_feature (\<lambda>_. False) (\<lambda>_. False) (\<lambda>_. 0) (fs_ac st) [n] video_flow =
       Some (ref_match_feature (\<lambda>_. False) (\<lambda>_. False) (\<lambda>_. 0) [n] video_flow)"
proof -
  obtain st n where r: "feature_reach (\<lambda>_. True) st" "\<not> ac_dirty (fs_ac st)"
    and n: "fs_features st = [n]" "fn_host_url n = cstr ''ab.c''" using video_reach by blast
  from feature_reach_classifies [OF r, of "\<lambda>_. False" "\<lambda>_. False" "\<lambda>_. 0" video_flow, unfolded n(1)] n
  show ?thesis by blast
qed

theorem feature_reach_fits_witness:
  "\<exists>(st :: feature_state) n. fs_features st = [n] \<and> fn_host_url n = cstr ''ab.c'' \<and> feature_fits n"
proof -
  obtain st n where "feature_reach (\<lambda>_. True) st" "fs_features st = [n]"
    "fn_host_url n = cstr ''ab.c''" using video_reach by blast
  moreover from this have "feature_fits n" using feature_reach_fits [of "\<lambda>_. True" st n] by simp
  ultimately show ?thesis by blast
qed

section \<open>Texts of features\<close>

text \<open>
  A feature text that fits is parsed back. Eight fields without a semicolon, glued with
  semicolons into fewer than 128 bytes, with a protocol that is supported and a host and a
  search string below 32 bytes, a port list and a dictionary that parse: exactly one node is put at
  the front of the list, with the fields as given.
\<close>

theorem add_app_feature_roundtrip:
  assumes "\<forall>f\<in>{sport, dport, host, req, dict, search, ignore}. 0x3B \<notin> set f"
    and "proto = cstr ''tcp'' \<and> n = 6 \<or> proto = cstr ''udp'' \<and> n = 17"
    and "length (join_fields 0x3B [proto, sport, dport, host, req, dict, search] ignore) < 128"
    and "length sport < 16" and "length dport < 16" and "length host < 32" and "length search < 32"
    and "parse_port_info dport = Inr ports" and "parse_dict dict = Inr positions"
    and "kz (fs_allocs st)"
  shows "add_app_feature kz appid name
       (join_fields 0x3B [proto, sport, dport, host, req, dict, search] ignore) st =
     Inr (link_feature \<lparr>fn_app_id = word_of_int appid, fn_app_name = take 63 name,
       fn_feature = join_fields 0x3B [proto, sport, dport, host, req, dict, search] ignore,
       fn_proto = n, fn_sport = word_of_int (case scan_d sport of Some (k, _) \<Rightarrow> k | None \<Rightarrow> 0),
       fn_dport_info = ports, fn_host_url = host, fn_request_url = req, fn_search_str = search,
       fn_ignore = k_atoi ignore, fn_pos_info = positions\<rparr> (st\<lparr>fs_allocs := Suc (fs_allocs st)\<rparr>))"
proof -
  let ?fs = "[proto, sport, dport, host, req, dict, search]"
  have p: "proto \<noteq> []" "0x3B \<notin> set proto" "length proto = 3" using assms(2) by auto
  have scan: "scan_fields 0x3B (join_fields 0x3B ?fs ignore) = (?fs, ignore)"
    by (rule scan_fields_join) (use assms(1) p in auto)
  have tot: "length proto + length sport + length dport + length host + length req + length dict +
      length search + length ignore + 7 < 128" using assms(3) by simp
  have min: "\<not> length (join_fields 0x3B ?fs ignore) < MIN_FEATURE_STR_LEN"
    using p(3) by (simp add: MIN_FEATURE_STR_LEN_def)
  have cf: "copy_field nm sz s = Inr s" if "length s < sz" for nm sz s
    using that by (simp add: copy_field_def)
  have f: "field nm sz ?fs k = Inr (?fs ! k)" if "k < 7" "length (?fs ! k) < sz" for nm sz k
    using that by (simp add: field_def cf)
  have fields: "field ''proto_str'' 16 ?fs 0 = Inr proto" "field ''src_port_str'' 16 ?fs 1 = Inr sport"
    "field ''dst_port_str'' 16 ?fs 2 = Inr dport" "field ''host_url'' 32 ?fs 3 = Inr host"
    "field ''request_url'' 128 ?fs 4 = Inr req" "field ''dict'' 128 ?fs 5 = Inr dict"
    "field ''search_str'' 128 ?fs 6 = Inr search"
    using f [of 0 16] f [of 1 16] f [of 2 16] f [of 3 32] f [of 4 128] f [of 5 128] f [of 6 128]
      p(3) assms(4-7) tot by simp_all
  have node: "add_app_feature_node kz (join_fields 0x3B ?fs ignore) appid name proto_num src_port ports
      host req dict search ign st =
    Inr (link_feature \<lparr>fn_app_id = word_of_int appid, fn_app_name = take 63 name,
       fn_feature = join_fields 0x3B ?fs ignore, fn_proto = word_of_int proto_num,
       fn_sport = word_of_int src_port, fn_dport_info = ports, fn_host_url = host,
       fn_request_url = req, fn_search_str = search, fn_ignore = ign, fn_pos_info = positions\<rparr>
       (st\<lparr>fs_allocs := Suc (fs_allocs st)\<rparr>))" for proto_num src_port ign
    using assms(3,6,7,9,10) tot unfolding add_app_feature_node_def Let_def
    by (simp add: cf MAX_HOST_URL_LEN_def MAX_REQUEST_URL_LEN_def MAX_SEARCH_STR_LEN_def
        MAX_FEATURE_STR_LEN_def MAX_APP_NAME_LEN_def)
  have ign: "(if length ?fs = 7 then copy_field ''tmp_buf'' 128 ignore else field ''tmp_buf'' 128 ?fs 7) = Inr ignore"
    using tot by (simp add: cf)
  have udp: "cstr ''udp'' \<noteq> cstr ''tcp''" by simp
  show ?thesis
    using assms(2,8) min udp unfolding add_app_feature_def scan prod.case fields ub_bind_simps Let_def ign
    by (auto simp: fields node IPPROTO_TCP_def IPPROTO_UDP_def simp del: join_fields.simps cstr_simps)
qed

text \<open>
  Copies without a bound. Every host pattern of 32 bytes or more, in a feature text within
  the 128 bytes that the loader accepts, is copied past the 32 bytes of the local array
  although the node has room for 127.
\<close>

theorem add_app_feature_host_overflow:
  assumes "\<forall>f\<in>{proto, sport, dport, host}. 0x3B \<notin> set f" and "proto \<noteq> []" and "0x3B \<notin> set rest"
    and "length proto < 16" and "length sport < 16" and "length dport < 16" and "32 \<le> length host"
  shows "add_app_feature kz appid name (join_fields 0x3B [proto, sport, dport, host] rest) st =
     Inl (BufferOverflow ''host_url'')"
proof -
  let ?fs = "[proto, sport, dport, host]"
  have scan: "scan_fields 0x3B (join_fields 0x3B ?fs rest) = (?fs, rest)"
    by (rule scan_fields_join) (use assms(1-3) in auto)
  have min: "\<not> length (join_fields 0x3B ?fs rest) < MIN_FEATURE_STR_LEN"
    using assms(7) by (simp add: MIN_FEATURE_STR_LEN_def)
  have "field ''host_url'' 32 ?fs 3 = Inl (BufferOverflow ''host_url'')"
    using assms(7) by (simp add: field_def copy_field_def)
  moreover have "field ''proto_str'' 16 ?fs 0 = Inr proto" "field ''src_port_str'' 16 ?fs 1 = Inr sport"
    "field ''dst_port_str'' 16 ?fs 2 = Inr dport"
    using assms(4-6) by (simp_all add: field_def copy_field_def)
  ultimately show ?thesis unfolding add_app_feature_def scan prod.case using min by simp
qed

text \<open>
  Fifteen entries overflow. A dictionary whose first fifteen entries (none of 64 bytes or more) are
  ended by a bar always leads to the copy with length \<^verbatim>\<open>(size_t)-1\<close>, whatever the entries say.
\<close>

theorem parse_dict_overflow:
  assumes "\<forall>f\<in>set fs. 0x7C \<notin> set f \<and> length f < 64" and "0x7C \<notin> set r" and "15 \<le> length fs"
    and "hd fs \<noteq> []"
  shows "parse_dict (join_fields 0x7C fs r) = Inl (BufferOverflow ''pos'')"
proof -
  have "dict_loop fs old acc = Inl (BufferOverflow ''pos'')"
    if "\<forall>f\<in>set fs. length f < 64" "length acc < 15" "15 \<le> length acc + length fs" for fs old acc
    using that
  proof (induction fs old acc rule: dict_loop.induct)
    case (2 f fs old acc)
    obtain k i v where s: "sscanf_d_x f old = (k, i, v)" by (cases "sscanf_d_x f old")
    let ?acc = "acc @ [\<lparr>pi_pos = i, pi_value = word_of_int v\<rparr>]"
    have c: "copy_field ''pos'' 64 f = Inr f" using "2.prems"(1) by (simp add: copy_field_def)
    show ?case
    proof (cases "length ?acc < 15")
      case True
      then have "dict_loop fs (i, v) ?acc = Inl (BufferOverflow ''pos'')"
        using "2.IH" [OF s [symmetric] refl refl] "2.prems" by (simp add: MAX_POS_INFO_PER_FEATURE_def)
      then show ?thesis using True c s by (simp add: MAX_POS_INFO_PER_FEATURE_def)
    next
      case False
      then show ?thesis using c s by (simp add: MAX_POS_INFO_PER_FEATURE_def)
    qed
  qed simp
  moreover have "scan_fields 0x7C (join_fields 0x7C fs r) = (fs, r)"
    by (rule scan_fields_join) (use assms in auto)
  ultimately show ?thesis using assms by (simp add: parse_dict_def)
qed

theorem add_app_feature_roundtrip_witness:
  "add_app_feature (\<lambda>_. True) 9 (cstr ''n'') (cstr ''udp;53;80-90;a.b;;0:1f|-1:0x2;;1'') feature_init =
     Inr (link_feature \<lparr>fn_app_id = 9, fn_app_name = cstr ''n'',
       fn_feature = cstr ''udp;53;80-90;a.b;;0:1f|-1:0x2;;1'', fn_proto = 17, fn_sport = 53,
       fn_dport_info = [\<lparr>rv_not = False, rv_start = 80, rv_end = 90\<rparr>], fn_host_url = cstr ''a.b'',
       fn_request_url = [], fn_search_str = [], fn_ignore = 1,
       fn_pos_info = [\<lparr>pi_pos = 0, pi_value = 0x1F\<rparr>, \<lparr>pi_pos = -1, pi_value = 2\<rparr>]\<rparr>
       (feature_init\<lparr>fs_allocs := 1\<rparr>))"
proof -
  let ?sp = "cstr ''53''" and ?dp = "cstr ''80-90''" and ?h = "cstr ''a.b''" and ?d = "cstr ''0:1f|-1:0x2''"
  have j: "join_fields 0x3B [cstr ''udp'', ?sp, ?dp, ?h, [], ?d, []] (cstr ''1'') =
      cstr ''udp;53;80-90;a.b;;0:1f|-1:0x2;;1''" by code_simp
  have p: "parse_port_info ?dp = Inr [\<lparr>rv_not = False, rv_start = 80, rv_end = 90\<rparr>]" by code_simp
  have d: "parse_dict ?d = Inr [\<lparr>pi_pos = 0, pi_value = 0x1F\<rparr>, \<lparr>pi_pos = -1, pi_value = 2\<rparr>]" by code_simp
  have s: "(case scan_d ?sp of Some (k, _) \<Rightarrow> k | None \<Rightarrow> 0) = 53" by code_simp
  have i: "k_atoi (cstr ''1'') = 1" by code_simp
  have n: "\<forall>f\<in>{?sp, ?dp, ?h, [], ?d, [], cstr ''1''}. 0x3B \<notin> set f" by code_simp
  show ?thesis
    using add_app_feature_roundtrip [OF n, of "cstr ''udp''" 17 _ _ "\<lambda>_. True" feature_init 9 "cstr ''n''"]
      p d s i by (simp add: j feature_init_def)
qed

theorem add_app_feature_host_overflow_witness:
  "add_app_feature (\<lambda>_. True) 9 [] (join_fields 0x3B [cstr ''tcp'', [], [], replicate 32 0x61] []) feature_init =
     Inl (BufferOverflow ''host_url'')"
  by (rule add_app_feature_host_overflow) simp_all

theorem parse_dict_overflow_witness:
  "parse_dict (join_fields 0x7C (replicate 15 (cstr ''0:1'')) []) = Inl (BufferOverflow ''pos'')"
  by (rule parse_dict_overflow) simp_all

end
