(* ===== verification/Fwxd_Custom_Text.thy ===== *)
theory Fwxd_Custom_Text
  imports Fwxd_Custom_Feature Fwx_Feature
begin

text \<open>
  The text of the user's applications is read back. Ports are normalised once and for all; what
  \<^verbatim>\<open>feature_to_text\<close> writes \<^verbatim>\<open>parse_feature_text\<close> reads, and what \<^verbatim>\<open>app_to_line\<close> writes
  \<^verbatim>\<open>parse_app_line\<close> reads, for every feature and application that passed the checks.
\<close>

section \<open>Numbers and ports\<close>

lemma nat_dec_in: "c \<in> set (nat_dec n) \<Longrightarrow> is_digit c"
  using nat_dec_digits [of n] by (auto simp: list_all_iff)

lemma print_number_in: "c \<in> set (print_number n) \<Longrightarrow> is_digit c \<or> c = 0x2D"
  by (auto simp: print_number_def nat_dec_in split: if_splits)

lemma print_number_not_Nil [simp]: "print_number n \<noteq> []"
  by (simp add: print_number_def)

lemma length_nat_dec: "n < 10 ^ k \<Longrightarrow> 0 < k \<Longrightarrow> length (nat_dec n) \<le> k"
proof (induction k arbitrary: n)
  case (Suc k)
  show ?case
  proof (cases "n < 10")
    case False
    moreover from this Suc.prems have "0 < k" by (cases k) auto
    moreover have "n div 10 < 10 ^ k" using Suc.prems by simp
    ultimately show ?thesis using Suc.IH by (subst nat_dec.simps) simp
  qed (subst nat_dec.simps, simp)
qed simp

lemma strtol_print_plain: "- (2 ^ 31) \<le> n \<Longrightarrow> n < 2 ^ 31 \<Longrightarrow> strtol_10 (print_number n) = (n, [], False)"
  using strtol_print_number [of "[]" n] by simp

lemma parse_integer_print:
  "0 < lo \<Longrightarrow> lo \<le> n \<Longrightarrow> n \<le> hi \<Longrightarrow> hi < 2 ^ 31 \<Longrightarrow> parse_integer (print_number n) lo hi = Some n"
  by (simp add: parse_integer_def strtol_print_plain)

lemma parse_integer_Some: "parse_integer s lo hi = Some n \<Longrightarrow> lo \<le> n \<and> n \<le> hi"
  by (auto simp: parse_integer_def split: if_splits prod.splits)

lemma no_dash: "0 \<le> n \<Longrightarrow> 0x2D \<notin> set (print_number n)"
  by (auto simp: print_number_def dest!: nat_dec_in) (simp add: is_digit_def)

lemma length_port: "0 < n \<Longrightarrow> n \<le> 65535 \<Longrightarrow> length (print_number n) \<le> 5"
  using length_nat_dec [of "nat n" 5] by (simp add: print_number_def)

text \<open>The texts that normalisation leaves: nothing, a port, two ports in order.\<close>

definition port_text :: "bytes \<Rightarrow> bool" where
  "port_text s \<longleftrightarrow> s = [] \<or> (\<exists>a. 1 \<le> a \<and> a \<le> 65535 \<and> s = print_number a) \<or>
     (\<exists>a b. 1 \<le> a \<and> a \<le> b \<and> b \<le> 65535 \<and> s = print_number a @ 0x2D # print_number b)"

lemma normalize_is_port_text:
  assumes "normalize_dest_port s = Some t"
  shows "port_text t"
proof (cases "s = []")
  case True
  then show ?thesis using assms by (simp add: normalize_dest_port_def port_text_def)
next
  case False
  let ?front = "takeWhile (\<lambda>c. c \<noteq> 0x2D) s" and ?rear = "tl (dropWhile (\<lambda>c. c \<noteq> 0x2D) s)"
  show ?thesis
  proof (cases "0x2D \<in> set s")
    case True
    then obtain a b where "parse_integer ?front 1 65535 = Some a" "parse_integer ?rear 1 65535 = Some b"
      "a \<le> b" "t = print_number a @ 0x2D # print_number b"
      using assms False unfolding normalize_dest_port_def Let_def
      by (cases "parse_integer ?front 1 65535"; cases "parse_integer ?rear 1 65535")
        (simp_all add: snprintf_fits_Some split: if_splits)
    then show ?thesis unfolding port_text_def using parse_integer_Some by blast
  next
    case no: False
    then obtain a where "parse_integer s 1 65535 = Some a" "t = print_number a"
      using assms False unfolding normalize_dest_port_def Let_def
      by (cases "parse_integer s 1 65535") (simp_all add: snprintf_fits_Some split: if_splits)
    then show ?thesis unfolding port_text_def using parse_integer_Some by blast
  qed
qed

lemma cut_at:
  assumes "d \<notin> set a"
  shows "takeWhile (\<lambda>c. c \<noteq> d) (a @ d # b) = a" "dropWhile (\<lambda>c. c \<noteq> d) (a @ d # b) = d # b"
  using assms by (auto simp: takeWhile_append dropWhile_append)

lemma normalize_port_text:
  assumes "port_text s"
  shows "normalize_dest_port s = Some s"
proof -
  have single: "normalize_dest_port (print_number a) = Some (print_number a)" if "1 \<le> a" "a \<le> 65535" for a
    using that length_port [of a] no_dash [of a] parse_integer_print [of 1 a 65535]
    by (simp add: normalize_dest_port_def snprintf_fits_def)
  have double: "normalize_dest_port (print_number a @ 0x2D # print_number b) =
      Some (print_number a @ 0x2D # print_number b)" if "1 \<le> a" "a \<le> b" "b \<le> 65535" for a b
    using that length_port [of a] length_port [of b] no_dash [of a] no_dash [of b]
      parse_integer_print [of 1 a 65535] parse_integer_print [of 1 b 65535]
    by (simp add: normalize_dest_port_def snprintf_fits_def cut_at)
  show ?thesis using assms single double unfolding port_text_def
    by (auto simp: normalize_dest_port_def [of "[]"])
qed

lemma port_text_in: "port_text s \<Longrightarrow> c \<in> set s \<Longrightarrow> is_digit c \<or> c = 0x2D"
  by (auto simp: port_text_def dest: print_number_in)

lemma length_port_text: "port_text s \<Longrightarrow> length s < 16"
proof -
  have two: "length (print_number a @ 0x2D # print_number b) < 16" if "1 \<le> a" "a \<le> b" "b \<le> 65535" for a b
    using that length_port [of a] length_port [of b] by simp
  have one: "length (print_number a) < 16" if "1 \<le> a" "a \<le> 65535" for a
    using that length_port [of a] by simp
  assume "port_text s"
  then show ?thesis using one two unfolding port_text_def by auto
qed

section \<open>Features\<close>

definition payload_ok :: "custom_payload \<Rightarrow> bool" where
  "payload_ok p \<longleftrightarrow> - (2 ^ 31) \<le> cp_position p \<and> cp_position p < 2 ^ 31 \<and> 0 \<le> cp_value p \<and> cp_value p < 256"

definition text_ok :: "bytes \<Rightarrow> nat \<Rightarrow> bool" where
  "text_ok s n \<longleftrightarrow> length s \<le> n \<and> no_nul s \<and> \<not> has_forbidden_text_char s False"

text \<open>What a feature that passed the checks is.\<close>

definition feature_ok :: "custom_feature \<Rightarrow> bool" where
  "feature_ok f \<longleftrightarrow> cf_protocol f \<in> {cstr ''tcp'', cstr ''udp''} \<and> port_text (cf_dest_port f) \<and>
     text_ok (cf_domain f) 31 \<and> text_ok (cf_uri f) 63 \<and> length (cf_payload f) \<le> CUSTOM_MAX_PAYLOADS \<and>
     (\<forall>p\<in>set (cf_payload f). payload_ok p) \<and>
     \<not> (cf_dest_port f = [] \<and> cf_domain f = [] \<and> cf_uri f = [] \<and> cf_payload f = [])"

lemma text_okD:
  assumes "text_ok s n"
  shows "length s \<le> n" "no_nul s" "\<forall>c\<in>set s. \<not> isspace_c c \<and> c \<notin> {0x3B, 0x2C, 0x5B, 0x5D}"
  using assms by (auto simp: text_ok_def has_forbidden_text_char_def list_ex_iff)

lemma validate_feature_ok:
  assumes "feature_ok f"
  shows "validate_feature f = Inr f"
proof -
  have "length (cf_domain f) \<le> 31" "length (cf_uri f) \<le> 63"
    "\<not> has_forbidden_text_char (cf_domain f) False" "\<not> has_forbidden_text_char (cf_uri f) False"
    using assms by (auto simp: feature_ok_def text_ok_def)
  then show ?thesis
    using assms normalize_port_text [of "cf_dest_port f"] unfolding validate_feature_def feature_ok_def
    by (auto simp del: cstr_simps)
qed

fun sep_join :: "u8 \<Rightarrow> bytes list \<Rightarrow> bytes" where
  "sep_join d [] = []"
| "sep_join d (t # ts) = t @ concat (map (\<lambda>u. d # u) ts)"

lemma append_texts_Some:
  "append_texts len sep buffer i ts = Some b \<Longrightarrow>
     b = buffer @ (if i = 0 then (case ts of [] \<Rightarrow> [] | t # us \<Rightarrow> t @ concat (map (\<lambda>u. sep @ u) us))
       else concat (map (\<lambda>u. sep @ u) ts))"
  by (induction len sep buffer i ts rule: append_texts.induct)
    (auto simp: Option.bind_eq_Some_conv snprintf_fits_Some split: if_splits list.splits)

lemma append_texts_join: "append_texts len [d] buffer 0 ts = Some b \<Longrightarrow> b = buffer @ sep_join d ts"
proof -
  have "(@) [d] = (#) d" by (rule ext) simp
  then show "append_texts len [d] buffer 0 ts = Some b \<Longrightarrow> b = buffer @ sep_join d ts"
    using append_texts_Some [of len "[d]" buffer 0 ts b] by (cases ts) (simp_all del: append_texts.simps)
qed

lemma split_exact_join:
  "\<forall>f\<in>set fs. d \<notin> set f \<Longrightarrow> d \<notin> set r \<Longrightarrow>
     split_exact (join_fields d fs r) d (Suc (length fs)) = Some (fs @ [r])"
  by (induction fs) (simp_all add: cut_at)

lemma payload_text_in: "payload_ok p \<Longrightarrow> c \<in> set (payload_text p) \<Longrightarrow>
    is_digit c \<or> c = 0x2D \<or> c = 0x3A \<or> isxdigit_c c"
  using print_02x_ok(1) [of "cp_value p"]
  by (auto simp: payload_text_def payload_ok_def is_xx_def list_all_iff dest: print_number_in)

lemma payload_text_no:
  assumes "payload_ok p" and "c \<in> set (payload_text p)"
  shows "c \<noteq> 0x7C" "c \<noteq> 0x3B" "c \<noteq> 0x2C" "c \<noteq> 0x5B" "c \<noteq> 0x5D" "c \<noteq> 0" "c \<noteq> 0x0A" "c \<noteq> 0x23"
  using payload_text_in [OF assms] by (auto simp: is_digit_def isxdigit_c_def word_le_nat_alt)

lemma parse_payload_print:
  assumes "payload_ok p"
  shows "parse_payload_item (payload_text p) = Some p"
proof -
  let ?n = "print_number (cp_position p)" and ?x = "print_02x (cp_value p)"
  have b: "- (2 ^ 31) \<le> cp_position p" "cp_position p < 2 ^ 31" "0 \<le> cp_value p" "cp_value p < 256"
    using assms by (simp_all add: payload_ok_def)
  have n: "0x3A \<notin> set ?n" using print_number_in [of "0x3A" "cp_position p"] by (auto simp: is_digit_def)
  have x: "0x3A \<notin> set ?x"
    using print_02x_ok(1) [OF b(3,4)]
    by (auto simp: is_xx_def list_all_iff isxdigit_c_def is_digit_def dest!: bspec)
  show ?thesis
    using strtol_print_plain [OF b(1,2)] print_02x_ok [OF b(3,4)] n x b
    by (simp add: parse_payload_item_def payload_text_def cut_at)
qed

text \<open>The two loops over lists of texts.\<close>

lemma items_cut:
  "d \<notin> set t \<Longrightarrow> takeWhile (\<lambda>c. c \<noteq> d) (t @ concat (map (\<lambda>u. d # u) ts)) = t"
  "d \<notin> set t \<Longrightarrow> drop (Suc (length t)) (t @ concat (map (\<lambda>u. d # u) ts)) = sep_join d ts"
  by (cases ts; auto simp: takeWhile_append)+

lemma payload_items_join:
  assumes "length acc + length ps \<le> CUSTOM_MAX_PAYLOADS" and "\<forall>p\<in>set ps. payload_ok p"
  shows "payload_items (sep_join 0x7C (map payload_text ps)) acc = Some (acc @ ps)"
  using assms
proof (induction ps arbitrary: acc)
  case Nil
  then show ?case by (simp add: payload_items.simps)
next
  case (Cons p ps)
  have "payload_text p \<noteq> []" by (simp add: payload_text_def)
  moreover have "0x7C \<notin> set (payload_text p)" using payload_text_no(1) Cons.prems by auto
  ultimately show ?case
    using Cons.IH [of "acc @ [p]"] Cons.prems parse_payload_print [of p]
      items_cut [of "0x7C" "payload_text p" "map payload_text ps"]
    by (subst payload_items.simps) (simp add: o_def)
qed

lemma sep_join_last:
  "ts \<noteq> [] \<Longrightarrow> \<forall>t\<in>set ts. t \<noteq> [] \<Longrightarrow> last (sep_join d ts) = last (last ts)"
proof (induction ts)
  case (Cons t ts)
  show ?case
  proof (cases ts)
    case (Cons u us)
    have "last (concat (map (\<lambda>u. d # u) ts)) = last (last ts)" using Cons Cons.prems
      by (induction us rule: rev_induct) (auto simp: last_append)
    then show ?thesis using Cons by (simp add: last_append)
  qed simp
qed simp

lemma sep_join_in: "c \<in> set (sep_join d ts) \<Longrightarrow> c = d \<or> (\<exists>t\<in>set ts. c \<in> set t)"
  by (cases ts) (auto split: if_splits)

lemma parse_payload_join:
  assumes "length ps \<le> CUSTOM_MAX_PAYLOADS" and "\<forall>p\<in>set ps. payload_ok p"
  shows "parse_payload_text (sep_join 0x7C (map payload_text ps)) = Some ps"
proof -
  have "last (sep_join 0x7C (map payload_text ps)) \<noteq> 0x7C" if "ps \<noteq> []"
  proof -
    have "payload_text (last ps) \<noteq> []" by (simp add: payload_text_def)
    then have "last (payload_text (last ps)) \<in> set (payload_text (last ps))" by (rule last_in_set)
    then have "last (payload_text (last ps)) \<noteq> 0x7C" using payload_text_no(1) assms(2) last_in_set [OF that] by blast
    moreover have "last (sep_join 0x7C (map payload_text ps)) = last (payload_text (last ps))"
      using sep_join_last [of "map payload_text ps"] that by (auto simp: last_map payload_text_def)
    ultimately show ?thesis by simp
  qed
  then show ?thesis
    using payload_items_join [of "[]" ps] assms by (cases ps) (auto simp: parse_payload_text_def)
qed

definition feature_text :: "custom_feature \<Rightarrow> bytes" where
  "feature_text f = join_fields 0x3B [cf_protocol f, [], cf_dest_port f, cf_domain f, cf_uri f]
     (sep_join 0x7C (map payload_text (cf_payload f)))"

lemma feature_to_text_Some:
  assumes "feature_to_text f len = Some t"
  shows "t = feature_text f \<and> length t \<le> CUSTOM_MAX_FEATURE_TEXT"
  using assms unfolding feature_to_text_def feature_text_def
  by (auto simp: Option.bind_eq_Some_conv snprintf_fits_Some split: if_splits dest!: append_texts_join)

text \<open>The characters of a field: no separator of a line or of a feature.\<close>

definition field_char :: "u8 \<Rightarrow> bool" where
  "field_char c \<longleftrightarrow> c \<notin> {0x3B, 0x2C, 0x5B, 0x5D, 0, 0x0A}"

lemma feature_fields:
  assumes "feature_ok f"
    and "s \<in> {cf_protocol f, [], cf_dest_port f, cf_domain f, cf_uri f, sep_join 0x7C (map payload_text (cf_payload f))}"
    and "c \<in> set s"
  shows "field_char c"
proof -
  note ok = assms(1) [unfolded feature_ok_def]
  have texts: "field_char c" if t: "text_ok t n" "c \<in> set t" for t n
  proof -
    have "c \<noteq> 0" using text_okD(2) [OF t(1)] t(2) by (auto simp: no_nul_def)
    moreover have "isspace_c 0x0A" by (simp add: isspace_c_def)
    ultimately show ?thesis using bspec [OF text_okD(3) [OF t(1)] t(2)] by (auto simp: field_char_def)
  qed
  have port: "field_char c" if "c \<in> set (cf_dest_port f)"
    using port_text_in [OF _ that] ok by (auto simp: field_char_def is_digit_def)
  have proto: "field_char c" if "c \<in> set (cf_protocol f)"
    using ok that by (auto simp: field_char_def)
  have pays: "field_char c" if c: "c \<in> set (sep_join 0x7C (map payload_text (cf_payload f)))"
  proof -
    consider "c = 0x7C" | p where "p \<in> set (cf_payload f)" "c \<in> set (payload_text p)"
      using sep_join_in [OF c] by auto
    then show ?thesis
    proof cases
      case 2
      then have "payload_ok p" using ok by blast
      then show ?thesis using payload_text_no [OF _ 2(2)] by (simp add: field_char_def)
    qed (simp add: field_char_def)
  qed
  have d: "text_ok (cf_domain f) 31" "text_ok (cf_uri f) 63" using ok by blast+
  show ?thesis
    using assms(2,3) port proto pays texts [OF d(1)] texts [OF d(2)] by (elim insertE) simp_all
qed

lemma field_charD:
  "field_char c \<Longrightarrow> c \<noteq> 0x3B \<and> c \<noteq> 0x2C \<and> c \<noteq> 0x5B \<and> c \<noteq> 0x5D \<and> c \<noteq> 0 \<and> c \<noteq> 0x0A"
  by (simp add: field_char_def)

text \<open>
  A feature survives its text. Whatever feature passed the checks and has a text, the parser
  reads back from that text: protocol, ports, domain, path and every position with its byte.
\<close>

lemma feature_text_roundtrip:
  assumes "feature_ok f" and "feature_to_text f len = Some t"
  shows "parse_feature_text t = Inr f"
proof -
  let ?ps = "sep_join 0x7C (map payload_text (cf_payload f))"
  have t: "t = join_fields 0x3B [cf_protocol f, [], cf_dest_port f, cf_domain f, cf_uri f] ?ps"
    using feature_to_text_Some [OF assms(2)] unfolding feature_text_def by blast
  have len: "length t \<le> CUSTOM_MAX_FEATURE_TEXT" "t \<noteq> []"
    using feature_to_text_Some [OF assms(2)] by blast (simp add: t)
  have no: "\<forall>s\<in>set [cf_protocol f, [], cf_dest_port f, cf_domain f, cf_uri f]. 0x3B \<notin> set s" "0x3B \<notin> set ?ps"
    using field_charD feature_fields [OF assms(1)] unfolding list.set by blast+
  have split: "split_exact t 0x3B 6 = Some [cf_protocol f, [], cf_dest_port f, cf_domain f, cf_uri f, ?ps]"
    using split_exact_join [of "[cf_protocol f, [], cf_dest_port f, cf_domain f, cf_uri f]" "0x3B" ?ps]
      no unfolding t by (simp add: numeral_eq_Suc)
  have p: "length (cf_protocol f) = 3" "map tolower_ascii (cf_protocol f) = cf_protocol f"
    using assms(1) by (auto simp: feature_ok_def tolower_ascii_def)
  have d: "length (cf_domain f) < 32" "length (cf_uri f) < 64"
    using assms(1) by (auto simp: feature_ok_def text_ok_def)
  have surj: "\<lparr>cf_protocol = cf_protocol f, cf_dest_port = cf_dest_port f, cf_domain = cf_domain f,
      cf_uri = cf_uri f, cf_payload = cf_payload f\<rparr> = f" by (cases f) simp
  have valid: "validate_feature \<lparr>cf_protocol = cf_protocol f, cf_dest_port = cf_dest_port f,
      cf_domain = cf_domain f, cf_uri = cf_uri f, cf_payload = cf_payload f\<rparr> = Inr f"
    unfolding surj by (rule validate_feature_ok [OF assms(1)])
  have port: "normalize_dest_port (cf_dest_port f) = Some (cf_dest_port f)"
    and pay: "parse_payload_text ?ps = Some (cf_payload f)"
    using assms(1) normalize_port_text parse_payload_join by (auto simp: feature_ok_def)
  show ?thesis
    using len split p d port pay valid by (simp add: parse_feature_text_def)
qed

section \<open>Applications\<close>

text \<open>What an application that passed the checks and has its id is.\<close>

definition app_ok :: "bytes list \<Rightarrow> custom_app \<Rightarrow> bool" where
  "app_ok classes app \<longleftrightarrow> class_is_available classes (ca_class_id app) \<and>
     1 \<le> ca_class_id app \<and> ca_class_id app \<le> MAX_APP_TYPE \<and>
     CUSTOM_APP_MIN_SUFFIX \<le> ca_appid app - ca_class_id app * 1000 \<and>
     ca_appid app - ca_class_id app * 1000 \<le> CUSTOM_APP_MAX_SUFFIX \<and>
     ca_name app \<noteq> [] \<and> length (ca_name app) \<le> 63 \<and> \<not> has_forbidden_text_char (ca_name app) True \<and>
     trim_space (ca_name app) = ca_name app \<and> no_nul (ca_name app) \<and>
     1 \<le> length (ca_features app) \<and> length (ca_features app) \<le> CUSTOM_MAX_FEATURES \<and>
     (\<forall>f\<in>set (ca_features app). feature_ok f)"

definition app_text :: "custom_app \<Rightarrow> bytes" where
  "app_text app = print_number (ca_appid app) @ 0x7E # ca_name app @ 0x3A # 0x5B #
     sep_join 0x2C (map feature_text (ca_features app)) @ [0x5D]"

lemma feature_texts_Some:
  "feature_texts fs = Some ts \<Longrightarrow> ts = map feature_text fs \<and>
     (\<forall>f\<in>set fs. feature_to_text f (CUSTOM_MAX_FEATURE_TEXT + 1) = Some (feature_text f))"
  by (induction fs arbitrary: ts) (auto simp: Option.bind_eq_Some_conv dest: feature_to_text_Some)

lemma app_to_line_Some:
  assumes "app_to_line app len = Some line"
  shows "line = app_text app" "length line \<le> CUSTOM_MAX_APP_LINE"
    "\<forall>f\<in>set (ca_features app). feature_to_text f (CUSTOM_MAX_FEATURE_TEXT + 1) = Some (feature_text f)"
  using assms unfolding app_to_line_def app_text_def
  by (auto simp: Option.bind_eq_Some_conv snprintf_fits_Some split: if_splits
      dest!: append_texts_join feature_texts_Some)

lemma trim_space_id: "s \<noteq> [] \<Longrightarrow> \<not> isspace_c (hd s) \<Longrightarrow> \<not> isspace_c (last s) \<Longrightarrow> trim_space s = s"
proof -
  assume "s \<noteq> []" "\<not> isspace_c (hd s)" "\<not> isspace_c (last s)"
  moreover from this have "dropWhile isspace_c s = s" by (cases s) simp_all
  moreover from calculation have "dropWhile isspace_c (rev s) = rev s" by (cases s rule: rev_cases) simp_all
  ultimately show ?thesis by (simp add: trim_space_def)
qed

lemma trim_print_number: "0 \<le> n \<Longrightarrow> trim_space (print_number n) = print_number n"
  using nat_dec_in [OF hd_in_set] nat_dec_in [OF last_in_set] digit_not_blank
  by (intro trim_space_id) (auto simp: print_number_def)

lemma app_name_char:
  assumes "app_ok classes app" and "c \<in> set (ca_name app)"
  shows "c \<notin> {0x3A, 0x7E, 0x5B, 0x5D, 0x3B, 0x2C, 0}"
  using assms by (auto simp: app_ok_def has_forbidden_text_char_def list_ex_iff no_nul_def)

lemma strstr_open_cut: "0x3A \<notin> set h \<Longrightarrow> strstr_open (h @ 0x3A # 0x5B # r) = Some (h, r)"
  by (induction h) auto

lemma feature_text_not_Nil: "feature_text f \<noteq> []"
  by (simp add: feature_text_def)

lemma join_fields_in: "c \<in> set (join_fields d fs r) \<Longrightarrow> c = d \<or> (\<exists>f\<in>set fs. c \<in> set f) \<or> c \<in> set r"
  by (induction fs) auto

lemma feature_text_char:
  assumes "feature_ok f" and "c \<in> set (feature_text f)"
  shows "c \<noteq> 0x2C \<and> c \<noteq> 0x5B \<and> c \<noteq> 0x5D \<and> c \<noteq> 0 \<and> c \<noteq> 0x0A"
proof -
  have "c = 0x3B \<or> field_char c"
    using join_fields_in [OF assms(2) [unfolded feature_text_def]] feature_fields [OF assms(1), of _ c] by auto
  then show ?thesis by (auto dest: field_charD)
qed

lemma feature_items_join:
  assumes "length acc + length fs \<le> CUSTOM_MAX_FEATURES"
    and "\<forall>f\<in>set fs. feature_ok f \<and> feature_to_text f (CUSTOM_MAX_FEATURE_TEXT + 1) = Some (feature_text f)"
  shows "feature_items (sep_join 0x2C (map feature_text fs)) acc = Inr (acc @ fs)"
  using assms
proof (induction fs arbitrary: acc)
  case Nil
  then show ?case by (simp add: feature_items.simps)
next
  case (Cons f fs)
  have "0x2C \<notin> set (feature_text f)" using feature_text_char [of f "0x2C"] Cons.prems by auto
  moreover have "parse_feature_text (feature_text f) = Inr f" using Cons.prems feature_text_roundtrip by auto
  ultimately show ?case
    using Cons.IH [of "acc @ [f]"] Cons.prems feature_text_not_Nil [of f]
      items_cut [of "0x2C" "feature_text f" "map feature_text fs"]
    by (subst feature_items.simps) (simp add: o_def)
qed

text \<open>
  An application survives its line. The line written for an application that passed the checks
  is parsed back into the same application, id, class, name and all features, whatever applications
  are already there as long as none of them has its id or name.
\<close>

lemma app_line_roundtrip:
  assumes "app_ok classes app" and "app_to_line app len = Some line"
    and "config_add_app ra config = Some added"
    and "\<forall>other\<in>set (cc_apps config). ca_name other \<noteq> ca_name app \<and> ca_appid other \<noteq> ca_appid app"
  shows "parse_app_line ra classes line config = Inr (added\<lparr>cc_apps := cc_apps config @ [app]\<rparr>)"
proof -
  let ?id = "print_number (ca_appid app)" and ?body = "sep_join 0x2C (map feature_text (ca_features app))"
  note ok = assms(1) [unfolded app_ok_def custom_limits]
  have id: "0 < ca_appid app" "ca_appid app < 2 ^ 31" "ca_appid app div 1000 = ca_class_id app" using ok by auto
  have line: "line = (?id @ 0x7E # ca_name app) @ 0x3A # 0x5B # ?body @ [0x5D]" "length line \<le> CUSTOM_MAX_APP_LINE"
    using app_to_line_Some [OF assms(2)] by (simp_all add: app_text_def)
  have digits: "c \<noteq> 0x3A \<and> c \<noteq> 0x7E" if "c \<in> set ?id" for c
    using print_number_in [OF that] by (auto simp: is_digit_def)
  have header: "0x3A \<notin> set (?id @ 0x7E # ca_name app)" and tilde: "0x7E \<notin> set ?id"
    using digits app_name_char [OF assms(1)] by auto
  have ids: "trim_space ?id = ?id" "strtol_10 ?id = (ca_appid app, [], False)"
    using id trim_print_number strtol_print_plain by auto
  have feats: "feature_items ?body [] = Inr (ca_features app)"
    using feature_items_join [of "[]" "ca_features app"] app_to_line_Some(3) [OF assms(2)] ok
    by (auto simp: custom_limits)
  have nonempty: "ca_features app \<noteq> []" using ok by auto
  have lens: "map feature_text (ca_features app) \<noteq> []" using ok by auto
  then have "last ?body = last (feature_text (last (ca_features app)))"
    using sep_join_last [OF lens, of "0x2C"] feature_text_not_Nil by (auto simp: last_map)
  moreover have "last (feature_text (last (ca_features app))) \<noteq> 0x2C"
    using feature_text_char [OF _ last_in_set [OF feature_text_not_Nil]] ok lens by auto
  ultimately have body: "?body \<noteq> []" "last ?body \<noteq> 0x2C"
    using lens feature_text_not_Nil by (cases "ca_features app"; simp)+
  have identity: "validate_app_identity classes (cc_apps config)
      \<lparr>ca_appid = ca_appid app, ca_class_id = ca_class_id app, ca_name = ca_name app, ca_features = []\<rparr> = Inr ()"
    using ok assms(4) by (auto simp: validate_app_identity_def custom_limits list_ex_iff)
  have surj: "\<lparr>ca_appid = ca_appid app, ca_class_id = ca_class_id app, ca_name = ca_name app,
      ca_features = ca_features app\<rparr> = app" by (cases app) simp
  have cuts: "takeWhile (\<lambda>c. c \<noteq> 0x7E) (?id @ 0x7E # ca_name app) = ?id"
    "tl (dropWhile (\<lambda>c. c \<noteq> 0x7E) (?id @ 0x7E # ca_name app)) = ca_name app"
    using tilde by (simp_all add: cut_at)
  have open': "strstr_open line = Some (?id @ 0x7E # ca_name app, ?body @ [0x5D])"
    unfolding line(1) by (rule strstr_open_cut [OF header])
  have t0: "trim_space [] = []" by (simp add: trim_space_def)
  show ?thesis
    unfolding parse_app_line_def Let_def open' using line(2) assms(3) cuts ids id ok identity body feats surj t0
      nonempty by (simp add: INT_MAX_def butlast_append)
qed

end
