(* ===== verification/Fwxd_Custom_Ids.thy ===== *)
theory Fwxd_Custom_Ids
  imports Fwxd_Custom_Text "HOL-Library.Multiset"
begin

text \<open>
  Ids and order of the user's applications: \<^verbatim>\<open>qsort\<close> with \<^verbatim>\<open>app_compare\<close>, and \<^verbatim>\<open>allocate_appids\<close>, which
  gives every application without an id the smallest one that is free in its class, or fails.
\<close>

section \<open>Sorting\<close>

definition app_le :: "custom_app \<Rightarrow> custom_app \<Rightarrow> bool" where
  "app_le a b \<longleftrightarrow> app_compare a b \<le> 0"

lemma app_le_iff:
  "app_le a b \<longleftrightarrow> ca_class_id a < ca_class_id b \<or> ca_class_id a = ca_class_id b \<and> ca_appid a \<le> ca_appid b"
  by (auto simp: app_le_def app_compare_def)

lemma app_le_trans: "app_le a b \<Longrightarrow> app_le b c \<Longrightarrow> app_le a c"
  by (auto simp: app_le_iff)

lemma app_le_total: "\<not> app_le a b \<Longrightarrow> app_le b a"
  by (auto simp: app_le_iff)

lemma mset_insert_app: "mset (insert_app a bs) = add_mset a (mset bs)"
  by (induction bs) auto

lemma mset_qsort: "mset (qsort_apps apps) = mset apps"
  by (induction apps) (simp_all add: qsort_apps_def mset_insert_app)

lemma set_insert_app: "set (insert_app a bs) = insert a (set bs)"
  by (induction bs) auto

lemma sorted_insert_app: "sorted_wrt app_le bs \<Longrightarrow> sorted_wrt app_le (insert_app a bs)"
  by (induction bs) (auto simp: set_insert_app app_le_def [symmetric] dest: app_le_total app_le_trans)

lemma sorted_qsort: "sorted_wrt app_le (qsort_apps apps)"
  by (induction apps) (simp_all add: qsort_apps_def sorted_insert_app)

lemma qsort_sorted: "sorted_wrt app_le apps \<Longrightarrow> qsort_apps apps = apps"
proof (induction apps)
  case (Cons a apps)
  then show ?case by (cases apps) (simp_all add: qsort_apps_def app_le_def)
qed (simp add: qsort_apps_def)

lemma sorted_unique:
  "mset xs = mset ys \<Longrightarrow> sorted_wrt app_le xs \<Longrightarrow> sorted_wrt app_le ys \<Longrightarrow> distinct (map ca_appid xs) \<Longrightarrow> xs = ys"
proof (induction xs arbitrary: ys)
  case (Cons x xs)
  then obtain y ys' where ys: "ys = y # ys'" by (cases ys) simp_all
  have same: "a = b" if "app_le a b" "app_le b a" "a \<in> set (x # xs)" "b \<in> set (x # xs)" for a b
  proof -
    have "inj_on ca_appid (set (x # xs))" using Cons.prems(4) by (simp only: distinct_map)
    moreover have "ca_appid a = ca_appid b" using that(1,2) by (auto simp: app_le_iff)
    ultimately show ?thesis using that(3,4) by (rule inj_onD)
  qed
  have set_eq: "set (x # xs) = set (y # ys')" using Cons.prems(1) ys by (metis set_mset_mset)
  have refl: "app_le a a" for a by (simp add: app_le_iff)
  have "y \<in> set (x # xs)" "x \<in> set (y # ys')" using set_eq by auto
  then have "app_le x y" "app_le y x" using Cons.prems(2,3) refl unfolding ys by auto
  then have "x = y" using same set_eq by auto
  then show ?case using Cons ys by auto
qed simp

text \<open>
  The C library does not say how \<^verbatim>\<open>qsort\<close> sorts. Every rearrangement of applications with
  distinct ids that \<^verbatim>\<open>app_compare\<close> finds in order is the list of the model.
\<close>

theorem qsort_apps_unique:
  assumes "mset apps' = mset apps" and "\<forall>i j. i < j \<and> j < length apps' \<longrightarrow> app_compare (apps' ! i) (apps' ! j) \<le> 0"
    and "distinct (map ca_appid apps)"
  shows "apps' = qsort_apps apps"
proof (rule sorted_unique)
  show "mset apps' = mset (qsort_apps apps)" using assms(1) by (simp add: mset_qsort)
  show "sorted_wrt app_le apps'" using assms(2) by (simp add: sorted_wrt_iff_nth_less app_le_def)
  show "distinct (map ca_appid apps')" using assms(1,3)
    by (metis mset_map mset_eq_imp_distinct_iff)
qed (rule sorted_qsort)

section \<open>Allocation\<close>

text \<open>The application has a class, and no id or one of its class.\<close>

definition id_in_class :: "custom_app \<Rightarrow> bool" where
  "id_in_class a \<longleftrightarrow> CUSTOM_APP_MIN_SUFFIX \<le> ca_appid a - ca_class_id a * 1000 \<and>
     ca_appid a - ca_class_id a * 1000 \<le> CUSTOM_APP_MAX_SUFFIX"

definition id_or_none :: "custom_app \<Rightarrow> bool" where
  "id_or_none a \<longleftrightarrow> 1 \<le> ca_class_id a \<and> ca_class_id a \<le> MAX_APP_TYPE \<and> (ca_appid a = 0 \<or> id_in_class a)"

definition id_key :: "custom_app \<Rightarrow> int \<times> int" where
  "id_key a = (ca_class_id a, ca_appid a mod 1000)"

lemma id_key_id:
  assumes "id_in_class a"
  shows "ca_appid a = ca_class_id a * 1000 + snd (id_key a)" "snd (id_key a) \<in> {900..999}"
proof -
  define s where "s = ca_appid a - ca_class_id a * 1000"
  then have s: "ca_appid a = s + ca_class_id a * 1000" "900 \<le> s" "s \<le> 999"
    using assms by (simp_all add: id_in_class_def custom_limits)
  then have "snd (id_key a) = s" by (simp add: id_key_def)
  then show "ca_appid a = ca_class_id a * 1000 + snd (id_key a)" "snd (id_key a) \<in> {900..999}"
    using s by simp_all
qed

definition given :: "custom_app list \<Rightarrow> custom_app list" where
  "given apps = filter (\<lambda>a. ca_appid a \<noteq> 0) apps"

lemma mark_used_iff:
  "mark_used apps used = Inr u \<longleftrightarrow> distinct (map id_key (given apps)) \<and>
     set (map id_key (given apps)) \<inter> set used = {} \<and> u = rev (map id_key (given apps)) @ used"
  by (induction apps used rule: mark_used.induct) (auto simp: given_def id_key_def)

definition suffixes :: "(int \<times> int) list \<Rightarrow> int \<Rightarrow> int set" where
  "suffixes used c = {s \<in> {900..999}. (c, s) \<in> set used}"

lemma suffixes_subset: "suffixes used c \<subseteq> {900..999}"
  by (auto simp: suffixes_def)

lemma finite_suffixes [simp]: "finite (suffixes used c)"
  by (rule finite_subset [OF suffixes_subset]) simp

lemma card_suffixes: "card (suffixes used c) \<le> 100"
  using card_mono [OF _ suffixes_subset] by simp

lemma suffix_range: "set [CUSTOM_APP_MIN_SUFFIX..CUSTOM_APP_MAX_SUFFIX] = {900..999}"
  by (simp only: set_upto custom_limits)

lemma find_SomeD: "find P xs = Some x \<Longrightarrow> P x \<and> x \<in> set xs"
  by (auto simp: find_Some_iff)

lemma find_free:
  "find (\<lambda>s. (c, s) \<notin> set used) [CUSTOM_APP_MIN_SUFFIX..CUSTOM_APP_MAX_SUFFIX] = None \<longleftrightarrow>
     card (suffixes used c) = 100"
proof -
  have "suffixes used c = {900..999} \<longleftrightarrow> card (suffixes used c) = 100"
    using card_subset_eq [OF _ suffixes_subset, of used c] by auto
  moreover have "suffixes used c = {900..999} \<longleftrightarrow> (\<forall>s\<in>{900..999}. (c, s) \<in> set used)"
    by (auto simp: suffixes_def)
  ultimately show ?thesis unfolding find_None_iff suffix_range by auto
qed

lemma free_suffix:
  "find (\<lambda>s. (c, s) \<notin> set used) [CUSTOM_APP_MIN_SUFFIX..CUSTOM_APP_MAX_SUFFIX] = Some s \<Longrightarrow>
     s \<in> {900..999} \<and> (c, s) \<notin> set used"
  using find_SomeD [of _ "[CUSTOM_APP_MIN_SUFFIX..CUSTOM_APP_MAX_SUFFIX]" s] unfolding suffix_range by blast

lemma suffixes_Cons:
  assumes "s \<in> {900..999}" and "(c, s) \<notin> set used"
  shows "card (suffixes ((c, s) # used) d) = card (suffixes used d) + (if d = c then 1 else 0)"
proof -
  have "suffixes ((c, s) # used) d = (if d = c then insert s (suffixes used d) else suffixes used d)"
    using assms by (auto simp: suffixes_def)
  moreover have "s \<notin> suffixes used c" using assms by (simp add: suffixes_def)
  ultimately show ?thesis by simp
qed

definition wanting :: "int \<Rightarrow> custom_app list \<Rightarrow> nat" where
  "wanting c apps = length (filter (\<lambda>a. ca_appid a = 0 \<and> ca_class_id a = c) apps)"

lemma give_ids_iff:
  "(\<exists>r. give_ids apps used = Inr r) \<longleftrightarrow> (\<forall>c. wanting c apps + card (suffixes used c) \<le> 100)"
proof (induction apps used rule: give_ids.induct)
  case (1 used)
  then show ?case using card_suffixes by (simp add: wanting_def)
next
  case (2 a apps used)
  show ?case
  proof (cases "ca_appid a = 0")
    case False
    then show ?thesis using "2.IH"(1) by (auto simp: wanting_def res_bind_Inr)
  next
    case True
    let ?c = "ca_class_id a"
    have w: "wanting d (a # apps) = wanting d apps + (if d = ?c then 1 else 0)" for d
      using True by (simp add: wanting_def)
    show ?thesis
    proof (cases "find (\<lambda>s. (?c, s) \<notin> set used) [CUSTOM_APP_MIN_SUFFIX..CUSTOM_APP_MAX_SUFFIX]")
      case None
      then have "card (suffixes used ?c) = 100" using find_free by blast
      then have "\<not> wanting ?c (a # apps) + card (suffixes used ?c) \<le> 100" by (simp add: w)
      then show ?thesis using None True by auto
    next
      case (Some s)
      then have s: "s \<in> {900..999}" "(?c, s) \<notin> set used" using free_suffix [OF Some] by simp_all
      have "(\<exists>r. give_ids (a # apps) used = Inr r) \<longleftrightarrow> (\<exists>r. give_ids apps ((?c, s) # used) = Inr r)"
        using True Some by (auto simp: res_bind_Inr)
      also have "\<dots> \<longleftrightarrow> (\<forall>d. wanting d apps + card (suffixes ((?c, s) # used) d) \<le> 100)"
        using "2.IH"(2) True Some by blast
      also have "\<dots> \<longleftrightarrow> (\<forall>d. wanting d (a # apps) + card (suffixes used d) \<le> 100)"
        by (simp add: w suffixes_Cons [OF s] ac_simps)
      finally show ?thesis .
    qed
  qed
qed

text \<open>What became of an application.\<close>

definition with_id :: "custom_app \<Rightarrow> custom_app \<Rightarrow> bool" where
  "with_id a b \<longleftrightarrow> (if ca_appid a = 0 then id_in_class b \<and> b = a\<lparr>ca_appid := ca_appid b\<rparr> else b = a)"

lemma with_idD:
  assumes "with_id a b"
  shows "ca_class_id b = ca_class_id a" "ca_name b = ca_name a" "ca_features b = ca_features a"
    "ca_appid a = 0 \<Longrightarrow> id_in_class b" "ca_appid a \<noteq> 0 \<Longrightarrow> b = a"
proof -
  have "b = a \<or> b = a\<lparr>ca_appid := ca_appid b\<rparr>" using assms by (auto simp: with_id_def split: if_splits)
  then show "ca_class_id b = ca_class_id a" "ca_name b = ca_name a" "ca_features b = ca_features a"
    by (metis custom_app.select_convs(2-4) custom_app.surjective custom_app.update_convs(1))+
qed (use assms in \<open>simp_all add: with_id_def\<close>)

lemma give_ids_Cons:
  assumes "give_ids (a # apps) used = Inr r"
  obtains r' where "ca_appid a \<noteq> 0" "give_ids apps used = Inr r'" "r = a # r'"
  | s r' where "ca_appid a = 0" "s \<in> {900..999}" "(ca_class_id a, s) \<notin> set used"
      "give_ids apps ((ca_class_id a, s) # used) = Inr r'" "r = a\<lparr>ca_appid := ca_class_id a * 1000 + s\<rparr> # r'"
proof (cases "ca_appid a = 0")
  case True
  show ?thesis
  proof (cases "find (\<lambda>s. (ca_class_id a, s) \<notin> set used) [CUSTOM_APP_MIN_SUFFIX..CUSTOM_APP_MAX_SUFFIX]")
    case (Some s)
    then obtain r' where "give_ids apps ((ca_class_id a, s) # used) = Inr r'"
      "r = a\<lparr>ca_appid := ca_class_id a * 1000 + s\<rparr> # r'"
      using assms True by (auto simp: res_bind_Inr)
    then show ?thesis using that(2) True free_suffix [OF Some] by blast
  qed (use assms True in simp)
next
  case False
  then show ?thesis using assms that(1) by (auto simp: res_bind_Inr)
qed

lemma new_key: "s \<in> {900..999} \<Longrightarrow> id_key (a\<lparr>ca_appid := ca_class_id a * 1000 + s\<rparr>) = (ca_class_id a, s)"
  by (simp add: id_key_def)

lemma give_ids_with: "give_ids apps used = Inr r \<Longrightarrow> list_all2 with_id apps r"
proof (induction apps arbitrary: used r)
  case (Cons a apps)
  from Cons.prems show ?case
  proof (cases rule: give_ids_Cons)
    case (1 r')
    then show ?thesis using Cons.IH [OF 1(2)] by (simp add: with_id_def)
  next
    case (2 s r')
    then have "with_id a (a\<lparr>ca_appid := ca_class_id a * 1000 + s\<rparr>)"
      by (simp add: with_id_def id_in_class_def custom_limits)
    then show ?thesis using Cons.IH [OF 2(4)] 2(5) by simp
  qed
qed simp

lemma give_ids_old:
  "give_ids apps used = Inr r \<Longrightarrow> b \<in> set r \<Longrightarrow> id_key b \<in> set used \<Longrightarrow> b \<in> set (given apps)"
proof (induction apps arbitrary: used r)
  case (Cons a apps)
  from Cons.prems(1) show ?case
  proof (cases rule: give_ids_Cons)
    case (1 r')
    then show ?thesis using Cons.IH [OF 1(2)] Cons.prems by (auto simp: given_def)
  next
    case (2 s r')
    have "b \<noteq> a\<lparr>ca_appid := ca_class_id a * 1000 + s\<rparr>" using 2(3) Cons.prems(3) new_key [OF 2(2), of a] by auto
    then show ?thesis using Cons.IH [OF 2(4)] Cons.prems(2,3) 2 by (simp add: given_def)
  qed
qed simp

lemma give_ids_distinct:
  "give_ids apps used = Inr r \<Longrightarrow> set (map id_key (given apps)) \<subseteq> set used \<Longrightarrow>
     distinct (map id_key (given apps)) \<Longrightarrow> distinct (map id_key r)"
proof (induction apps arbitrary: used r)
  case (Cons a apps)
  from Cons.prems(1) show ?case
  proof (cases rule: give_ids_Cons)
    case (1 r')
    have g: "given (a # apps) = a # given apps" using 1(1) by (simp add: given_def)
    have "id_key a \<notin> set (map id_key r')"
    proof
      assume "id_key a \<in> set (map id_key r')"
      then obtain b where "b \<in> set r'" "id_key b = id_key a" by auto
      then have "b \<in> set (given apps)" using give_ids_old [OF 1(2)] Cons.prems(2) g by auto
      then show False using Cons.prems(3) g \<open>id_key b = id_key a\<close> by (metis distinct.simps(2) imageI list.set_map list.simps(9))
    qed
    then show ?thesis using Cons.IH [OF 1(2)] Cons.prems(2,3) g 1(3) by simp
  next
    case (2 s r')
    have g: "given (a # apps) = given apps" using 2(1) by (simp add: given_def)
    have "(ca_class_id a, s) \<notin> set (map id_key r')"
      using give_ids_old [OF 2(4)] Cons.prems(2) g 2(3) by fastforce
    then show ?thesis using Cons.IH [OF 2(4)] Cons.prems(2,3) g 2(5) new_key [OF 2(2), of a] by auto
  qed
qed simp

lemma distinct_keys_ids:
  assumes "\<forall>a\<in>set apps. 1 \<le> ca_class_id a \<and> id_in_class a"
  shows "distinct (map id_key apps) \<longleftrightarrow> distinct (map ca_appid apps)"
proof -
  have "id_key a = id_key b \<longleftrightarrow> ca_appid a = ca_appid b" if "a \<in> set apps" "b \<in> set apps" for a b
  proof -
    have ids: "id_in_class a" "id_in_class b" using that assms by blast+
    show ?thesis
    proof
      assume "id_key a = id_key b"
      moreover from this have "ca_class_id a = ca_class_id b" by (simp add: id_key_def)
      ultimately show "ca_appid a = ca_appid b" using id_key_id(1) [OF ids(1)] id_key_id(1) [OF ids(2)] by simp
    next
      assume same: "ca_appid a = ca_appid b"
      moreover from ids have "ca_class_id a = ca_class_id b"
        unfolding id_in_class_def custom_limits same by linarith
      ultimately show "id_key a = id_key b" by (simp add: id_key_def)
    qed
  qed
  then show ?thesis by (simp add: distinct_map inj_on_def)
qed

lemma given_key_count:
  assumes "\<forall>a\<in>set apps. id_or_none a" and "distinct (map id_key (given apps))"
  shows "wanting c apps + card (suffixes (rev (map id_key (given apps))) c) =
    length (filter (\<lambda>a. ca_class_id a = c) apps)"
proof -
  let ?g = "filter (\<lambda>a. ca_class_id a = c) (given apps)"
  have ok: "1 \<le> ca_class_id a \<and> id_in_class a" if "a \<in> set (given apps)" for a
    using that assms(1) by (auto simp: given_def id_or_none_def)
  have snd: "snd (id_key a) \<in> {900..999}" if "a \<in> set (given apps)" for a
    using id_key_id ok [OF that] by blast
  have "suffixes (rev (map id_key (given apps))) c = set (map (\<lambda>a. snd (id_key a)) ?g)"
    using snd by (force simp: suffixes_def id_key_def)
  moreover have "distinct (map (\<lambda>a. snd (id_key a)) ?g)"
    using assms(2) by (auto simp: distinct_map inj_on_def id_key_def)
  ultimately have "card (suffixes (rev (map id_key (given apps))) c) = length ?g"
    using distinct_card by fastforce
  moreover have "wanting c xs + length (filter (\<lambda>a. ca_class_id a = c) (given xs)) =
      length (filter (\<lambda>a. ca_class_id a = c) xs)" for xs
    by (induction xs) (auto simp: wanting_def given_def)
  ultimately show ?thesis by simp
qed

lemma mark_used_apps:
  "mark_used apps [] = Inr u \<longleftrightarrow> distinct (map id_key (given apps)) \<and> u = rev (map id_key (given apps))"
  by (simp add: mark_used_iff)

lemma given_ok: "\<forall>a\<in>set apps. id_or_none a \<Longrightarrow> \<forall>a\<in>set (given apps). 1 \<le> ca_class_id a \<and> id_in_class a"
  by (auto simp: given_def id_or_none_def)

lemma allocate_appids_ok:
  assumes "\<forall>a\<in>set (cc_apps config). id_or_none a" and "allocate_appids config = Inr c"
  obtains apps where "distinct (map ca_appid (cc_apps c))" and "\<forall>a\<in>set (cc_apps c). id_in_class a"
    and "sorted_wrt app_le (cc_apps c)" and "list_all2 with_id (cc_apps config) apps" and "mset (cc_apps c) = mset apps"
proof -
  let ?apps = "cc_apps config" and ?keys = "rev (map id_key (given (cc_apps config)))"
  obtain r where d: "distinct (map id_key (given ?apps))" and r: "give_ids ?apps ?keys = Inr r"
    and c: "cc_apps c = qsort_apps r"
  using assms(2) by (auto simp: allocate_appids_def res_bind_Inr mark_used_apps)
  have w: "list_all2 with_id ?apps r" using give_ids_with [OF r] .
  have one: "1 \<le> ca_class_id b \<and> id_in_class b" if "with_id a b" "id_or_none a" for a b
    using with_idD [OF that(1)] that(2) by (cases "ca_appid a = 0") (auto simp: id_or_none_def)
  have good: "\<forall>b\<in>set r. 1 \<le> ca_class_id b \<and> id_in_class b"
  proof
    fix b assume "b \<in> set r"
    then obtain i where "i < length r" "b = r ! i" by (auto simp: in_set_conv_nth)
    then have "?apps ! i \<in> set ?apps" "with_id (?apps ! i) b"
      using w by (auto simp: list_all2_conv_all_nth)
    then show "1 \<le> ca_class_id b \<and> id_in_class b" using one assms(1) by blast
  qed
  have "distinct (map id_key r)" using give_ids_distinct [OF r] d by simp
  then have dist: "distinct (map ca_appid r)" using distinct_keys_ids [OF good] by simp
  have m: "mset (cc_apps c) = mset r" unfolding c by (rule mset_qsort)
  then have "distinct (map ca_appid (cc_apps c))" using dist by (metis mset_map mset_eq_imp_distinct_iff)
  moreover have "\<forall>a\<in>set (cc_apps c). id_in_class a" using good m by (metis set_mset_mset)
  moreover have "sorted_wrt app_le (cc_apps c)" unfolding c by (rule sorted_qsort)
  ultimately show ?thesis using that w m by blast
qed

text \<open>
  C19. Ids are given out completely and correctly. For applications that have a class and
  no id or one of its class, the allocation succeeds exactly when the ids that are there are distinct
  and no class has more than 100 applications. Then there are the same applications, sorted, those
  with an id keep it, and all ids are distinct and belong to their class.
\<close>

theorem allocate_appids_iff:
  assumes "\<forall>a\<in>set (cc_apps config). id_or_none a"
  shows "((\<exists>c. allocate_appids config = Inr c) \<longleftrightarrow>
      distinct (map ca_appid (filter (\<lambda>a. ca_appid a \<noteq> 0) (cc_apps config))) \<and>
      (\<forall>class. length (filter (\<lambda>a. ca_class_id a = class) (cc_apps config)) \<le> 100)) \<and>
    (\<forall>c. allocate_appids config = Inr c \<longrightarrow>
      distinct (map ca_appid (cc_apps c)) \<and> (\<forall>a\<in>set (cc_apps c). id_in_class a) \<and>
      sorted_wrt app_le (cc_apps c) \<and>
      (\<exists>apps. list_all2 with_id (cc_apps config) apps \<and> mset (cc_apps c) = mset apps))"
proof (rule conjI)
  let ?apps = "cc_apps config" and ?keys = "rev (map id_key (given (cc_apps config)))"
  show "(\<exists>c. allocate_appids config = Inr c) \<longleftrightarrow>
      distinct (map ca_appid (filter (\<lambda>a. ca_appid a \<noteq> 0) ?apps)) \<and>
      (\<forall>class. length (filter (\<lambda>a. ca_class_id a = class) ?apps) \<le> 100)"
  proof -
    have "(\<exists>c. allocate_appids config = Inr c) \<longleftrightarrow>
        distinct (map id_key (given ?apps)) \<and> (\<exists>r. give_ids ?apps ?keys = Inr r)"
      by (auto simp: allocate_appids_def res_bind_Inr mark_used_apps)
    also have "\<dots> \<longleftrightarrow> distinct (map id_key (given ?apps)) \<and>
        (\<forall>class. length (filter (\<lambda>a. ca_class_id a = class) ?apps) \<le> 100)"
      using given_key_count [OF assms] by (auto simp: give_ids_iff)
    finally show ?thesis using distinct_keys_ids [OF given_ok [OF assms]] by (simp add: given_def)
  qed
  show "\<forall>c. allocate_appids config = Inr c \<longrightarrow>
      distinct (map ca_appid (cc_apps c)) \<and> (\<forall>a\<in>set (cc_apps c). id_in_class a) \<and>
      sorted_wrt app_le (cc_apps c) \<and>
      (\<exists>apps. list_all2 with_id ?apps apps \<and> mset (cc_apps c) = mset apps)"
    using allocate_appids_ok [OF assms] by metis
qed

section \<open>Witness\<close>

text \<open>Two applications of the class Chat: one has the first id of the class, the other asks for one.\<close>

theorem allocate_appids_iff_witness:
  "\<exists>c. allocate_appids \<lparr>cc_apps = [\<lparr>ca_appid = 1900, ca_class_id = 1, ca_name = cstr ''a'', ca_features = []\<rparr>,
     \<lparr>ca_appid = 0, ca_class_id = 1, ca_name = cstr ''b'', ca_features = []\<rparr>], cc_capacity = 16\<rparr> = Inr c"
proof -
  let ?c = "\<lparr>cc_apps = [\<lparr>ca_appid = 1900, ca_class_id = 1, ca_name = cstr ''a'', ca_features = []\<rparr>,
     \<lparr>ca_appid = 0, ca_class_id = 1, ca_name = cstr ''b'', ca_features = []\<rparr>], cc_capacity = 16\<rparr>"
  have "\<forall>a\<in>set (cc_apps ?c). id_or_none a" by (simp add: id_or_none_def id_in_class_def custom_limits)
  from allocate_appids_iff [OF this, THEN conjunct1] show ?thesis by simp
qed

end
