(* ===== verification/Fwxd_Custom_File.thy ===== *)
theory Fwxd_Custom_File
  imports Fwxd_Custom_Ids
begin

text \<open>
  Requests and the file. What a request that is accepted leaves behind (\<open>config_ok\<close>, a type for the
  applications of the daemon), that a saved file is read back as the same applications, and the
  names for which it is not.
\<close>

section \<open>What an accepted request is\<close>

definition config_ok :: "bytes list \<Rightarrow> nat \<Rightarrow> custom_config \<Rightarrow> bool" where
  "config_ok classes base config \<longleftrightarrow>
     (\<forall>app\<in>set (cc_apps config). app_ok classes app \<and> app_to_line app (CUSTOM_MAX_APP_LINE + 2) \<noteq> None) \<and>
     distinct (map ca_appid (cc_apps config)) \<and> distinct (map ca_name (cc_apps config)) \<and>
     sorted_wrt app_le (cc_apps config) \<and> base + length (cc_apps config) \<le> MAX_SUPPORT_APP_NUM"

lemma class_available_range:
  "class_is_available classes c \<Longrightarrow> 1 \<le> c \<and> c \<le> MAX_APP_TYPE"
  by (auto simp: class_is_available_def fallback_classes_def MAX_APP_TYPE_def split: if_splits)

text \<open>Before the ids are given out: everything but the ids of those that ask for one.\<close>

definition app_draft :: "bytes list \<Rightarrow> custom_app \<Rightarrow> bool" where
  "app_draft classes app \<longleftrightarrow> class_is_available classes (ca_class_id app) \<and> id_or_none app \<and>
     ca_name app \<noteq> [] \<and> length (ca_name app) \<le> 63 \<and> \<not> has_forbidden_text_char (ca_name app) True \<and>
     trim_space (ca_name app) = ca_name app \<and> no_nul (ca_name app) \<and>
     1 \<le> length (ca_features app) \<and> length (ca_features app) \<le> CUSTOM_MAX_FEATURES \<and>
     (\<forall>f\<in>set (ca_features app). feature_ok f)"

lemma app_draft_ok: "app_draft classes app \<Longrightarrow> id_in_class app \<Longrightarrow> app_ok classes app"
  using class_available_range by (auto simp: app_draft_def app_ok_def id_in_class_def)

lemma validate_feature_Inr:
  assumes "validate_feature f = Inr g" and "no_nul (cf_domain f)" and "no_nul (cf_uri f)"
    and "length (cf_payload f) \<le> CUSTOM_MAX_PAYLOADS" and "\<forall>p\<in>set (cf_payload f). payload_ok p"
  shows "feature_ok g"
proof -
  obtain port where port: "normalize_dest_port (cf_dest_port f) = Some port"
    and proto: "cf_protocol f = cstr ''tcp'' \<or> cf_protocol f = cstr ''udp''"
    and dom: "length (cf_domain f) \<le> 31" "\<not> has_forbidden_text_char (cf_domain f) False"
    and uri: "length (cf_uri f) \<le> 63" "\<not> has_forbidden_text_char (cf_uri f) False"
    and some: "\<not> (port = [] \<and> cf_domain f = [] \<and> cf_uri f = [] \<and> cf_payload f = [])"
    and g: "g = f\<lparr>cf_dest_port := port\<rparr>"
    using assms(1) unfolding validate_feature_def
    by (auto simp: res_bind_Inr or_error_Inr not_less simp del: cstr_simps split: if_splits)
  show ?thesis
    using normalize_is_port_text [OF port] proto dom uri some assms(2-)
    unfolding g feature_ok_def text_ok_def by (simp del: cstr_simps)
qed

lemma strtoul_xx_byte: "is_xx s \<Longrightarrow> 0 \<le> strtoul_xx s \<and> strtoul_xx s < 256"
proof -
  assume "is_xx s"
  then obtain a b where s: "s = [a, b]" "isxdigit_c a" "isxdigit_c b"
    by (cases s rule: remdups_adj.cases) (auto simp: is_xx_def length_Suc_conv numeral_2_eq_2)
  have "0 \<le> xdigit_value c \<and> xdigit_value c < 16" if "isxdigit_c c" for c
    using that by (auto simp: isxdigit_c_def xdigit_value_def is_digit_def word_le_def)
  from this [OF s(2)] this [OF s(3)] show ?thesis unfolding s by (simp add: strtoul_xx_def)
qed

lemma map_res_all:
  "map_res f xs = Inr ys \<Longrightarrow> (\<And>x y. f x = Inr y \<Longrightarrow> P y) \<Longrightarrow> (\<forall>y\<in>set ys. P y) \<and> length ys = length xs"
  by (induction xs arbitrary: ys) (auto simp: res_bind_Inr)

lemma payload_json_ok: "payload_json_item jc item = Inr p \<Longrightarrow> payload_ok p"
  using strtoul_xx_byte
  by (auto simp: payload_json_item_def payload_ok_def res_bind_Inr Let_def split: if_splits)

lemma parse_payload_json_ok:
  assumes "parse_payload_json jc v = Inr ps"
  shows "length ps \<le> CUSTOM_MAX_PAYLOADS \<and> (\<forall>p\<in>set ps. payload_ok p)"
proof (cases "json_object_get_type jc v = Json_null")
  case False
  then have r: "map_res (payload_json_item jc) (array_items jc v) = Inr ps"
    and n: "json_object_array_length jc v \<le> CUSTOM_MAX_PAYLOADS"
    using assms by (auto simp: parse_payload_json_def split: if_splits)
  have "(\<forall>p\<in>set ps. payload_ok p) \<and> length ps = length (array_items jc v)"
    by (rule map_res_all [OF r]) (rule payload_json_ok)
  with n show ?thesis by (simp add: array_items_def)
qed (use assms in \<open>simp add: parse_payload_json_def\<close>)

lemma json_text_no_nul: "json_text jc object key n msg = Inr s \<Longrightarrow> no_nul s"
  by (auto simp: json_text_def c_string_no_nul no_nul_def split: option.splits if_splits)
    (use c_string_no_nul in \<open>auto simp: no_nul_def\<close>)

lemma parse_feature_json_ok:
  assumes "parse_feature_json jc object = Inr f"
  shows "feature_ok f"
proof -
  obtain proto port domain uri ps where d: "json_text jc object ''domain'' 31 ''domain is invalid'' = Inr domain"
    and u: "json_text jc object ''uri'' 63 ''uri is invalid'' = Inr uri"
    and ps: "(case json_object_object_get jc object (cstr ''payload'') of
            None \<Rightarrow> Inr [] | Some v \<Rightarrow> parse_payload_json jc v) = Inr ps"
    and v: "validate_feature \<lparr>cf_protocol = proto, cf_dest_port = port,
              cf_domain = domain, cf_uri = uri, cf_payload = ps\<rparr> = Inr f"
    using assms unfolding parse_feature_json_def Let_def
    by (auto simp: res_bind_Inr simp del: cstr_simps split: if_splits)
  have "length ps \<le> CUSTOM_MAX_PAYLOADS \<and> (\<forall>p\<in>set ps. payload_ok p)"
    using ps by (auto dest: parse_payload_json_ok split: option.splits)
  then show ?thesis using validate_feature_Inr [OF v] json_text_no_nul [OF d] json_text_no_nul [OF u] by simp
qed

lemma set_trim_space: "set (trim_space s) \<subseteq> set s"
  by (auto simp: trim_space_def dest!: set_dropWhileD)

lemma trim_space_trim: "trim_space (trim_space s) = trim_space s"
proof (cases "trim_space s = []")
  case False
  let ?t = "dropWhile isspace_c s"
  have t: "rev (trim_space s) = dropWhile isspace_c (rev ?t)" by (simp add: trim_space_def)
  then have ne: "dropWhile isspace_c (rev ?t) \<noteq> []" using False by (metis rev_is_Nil_conv)
  then have "\<not> isspace_c (last (trim_space s))" using hd_dropWhile [OF ne] t by (metis hd_rev)
  moreover obtain u where "?t = trim_space s @ u"
    using takeWhile_dropWhile_id [of isspace_c "rev ?t"] by (metis trim_space_def rev_append rev_rev_ident)
  moreover have "?t \<noteq> []" using False by (metis trim_space_def dropWhile.simps(1) rev.simps(1))
  ultimately have "\<not> isspace_c (hd (trim_space s))"
    using hd_dropWhile [of isspace_c s] False by (metis hd_append2)
  with \<open>\<not> isspace_c (last (trim_space s))\<close> show ?thesis using trim_space_id False by blast
next
  case True
  moreover have "trim_space [] = []" by (simp add: trim_space_def)
  ultimately show ?thesis by simp
qed

lemma parse_app_json_draft:
  assumes "parse_app_json jc classes others item = Inr app"
  shows "app_draft classes app" "\<forall>other\<in>set others. ca_name other \<noteq> ca_name app \<and>
      (ca_appid app \<noteq> 0 \<longrightarrow> ca_appid other \<noteq> ca_appid app)"
proof -
  obtain appid class_v name_v features fs where "json_appid jc item = Inr appid"
    and v: "validate_app_identity classes others \<lparr>ca_appid = appid, ca_class_id = json_object_get_int jc class_v,
          ca_name = trim_space (c_string (json_object_get_string jc name_v)), ca_features = []\<rparr> = Inr ()"
    and n: "1 \<le> json_object_array_length jc features" "json_object_array_length jc features \<le> CUSTOM_MAX_FEATURES"
    and fs: "map_res (parse_feature_json jc) (array_items jc features) = Inr fs"
    and app: "app = \<lparr>ca_appid = appid, ca_class_id = json_object_get_int jc class_v,
          ca_name = trim_space (c_string (json_object_get_string jc name_v)), ca_features = fs\<rparr>"
    using assms unfolding parse_app_json_def Let_def
    by (simp only: res_elims not_less) (elim exE conjE, rule that, assumption+, auto)
  have f: "(\<forall>f\<in>set fs. feature_ok f) \<and> length fs = length (array_items jc features)"
    by (rule map_res_all [OF fs]) (rule parse_feature_json_ok)
  have "no_nul (ca_name app)"
    using c_string_no_nul set_trim_space unfolding app no_nul_def by fastforce
  moreover have "trim_space (ca_name app) = ca_name app" unfolding app by (simp add: trim_space_trim)
  ultimately show "app_draft classes app"
    using v n f class_available_range unfolding app
    by (auto simp: app_draft_def validate_app_identity_def id_or_none_def id_in_class_def array_items_def Let_def
        split: if_splits)
  show "\<forall>other\<in>set others. ca_name other \<noteq> ca_name app \<and> (ca_appid app \<noteq> 0 \<longrightarrow> ca_appid other \<noteq> ca_appid app)"
    using v unfolding app by (auto simp: validate_app_identity_def Let_def list_ex_iff split: if_splits)
qed

lemma json_apps_draft:
  assumes "json_apps ra jc classes items config = Inr config'"
    and "\<forall>app\<in>set (cc_apps config). app_draft classes app" and "distinct (map ca_name (cc_apps config))"
  shows "(\<forall>app\<in>set (cc_apps config'). app_draft classes app) \<and> distinct (map ca_name (cc_apps config'))"
  using assms
proof (induction ra jc classes items config rule: json_apps.induct)
  case (2 ra jc classes item items config)
  obtain added app where "config_add_app ra config = Some added"
    and app: "parse_app_json jc classes (cc_apps config) item = Inr app"
    and "json_apps ra jc classes items (added\<lparr>cc_apps := cc_apps config @ [app]\<rparr>) = Inr config'"
    using "2.prems"(1) by (auto simp: res_bind_Inr or_error_Inr)
  then show ?case using "2.IH" "2.prems"(2,3) parse_app_json_draft [OF app] by fastforce
qed simp

lemma accepted_config_ok:
  assumes "config_from_json ra jc classes base request = Inr config"
  shows "config_ok classes base config"
proof -
  obtain app_list draft where d: "json_apps ra jc classes (array_items jc app_list) config_free = Inr draft"
    and base: "base + length (cc_apps draft) \<le> MAX_SUPPORT_APP_NUM"
    and a: "allocate_appids draft = Inr config"
    and lines: "\<forall>app\<in>set (cc_apps config). app_to_line app (CUSTOM_MAX_APP_LINE + 2) \<noteq> None"
    using assms unfolding config_from_json_def
    by (auto simp: res_bind_Inr or_error_Inr not_less list_ex_iff simp del: cstr_simps split: if_splits)
  have ok: "(\<forall>app\<in>set (cc_apps draft). app_draft classes app) \<and> distinct (map ca_name (cc_apps draft))"
    using json_apps_draft [OF d] by (simp add: config_free_def)
  then have "\<forall>app\<in>set (cc_apps draft). id_or_none app" by (simp add: app_draft_def)
  then obtain apps where ids: "distinct (map ca_appid (cc_apps config))" "\<forall>a\<in>set (cc_apps config). id_in_class a"
    "sorted_wrt app_le (cc_apps config)"
    and w: "list_all2 with_id (cc_apps draft) apps" and m: "mset (cc_apps config) = mset apps"
    using allocate_appids_ok a by blast
  have names: "map ca_name apps = map ca_name (cc_apps draft)"
    using w by (induction rule: list_all2_induct) (simp_all add: with_idD)
  have "app_ok classes b" if b: "b \<in> set (cc_apps config)" for b
  proof -
    have "b \<in> set apps" using b m by (metis set_mset_mset)
    then obtain i where "i < length apps" "b = apps ! i" by (auto simp: in_set_conv_nth)
    then have a: "cc_apps draft ! i \<in> set (cc_apps draft)" "with_id (cc_apps draft ! i) b"
      using w by (auto simp: list_all2_conv_all_nth)
    then have "app_draft classes (cc_apps draft ! i)" "id_in_class b" using ok ids(2) b by blast+
    then show ?thesis
      using with_idD(1-3) [OF a(2)] class_available_range
      by (intro app_draft_ok) (simp_all add: app_draft_def id_or_none_def)
  qed
  moreover have "distinct (map ca_name (cc_apps config))"
    using ok m names by (metis mset_map mset_eq_imp_distinct_iff)
  moreover have "length (cc_apps config) = length (cc_apps draft)"
    using m w by (metis list_all2_lengthD size_mset)
  ultimately show ?thesis using ids lines base by (simp add: config_ok_def)
qed

text \<open>
  C18. Everything the daemon accepts is well-formed. Whatever JSON tree a request is, and however
  json-c reads its numbers: when the request is accepted, every application has a class that
  exists, a trimmed name without separators, an id of its class, one to sixteen checked features
  and a line within 799 bytes; names and ids are distinct, the list is sorted, and
  all fit the table of names.
\<close>

theorem config_from_json_ok:
  assumes "config_from_json ra jc classes base request = Inr config"
  shows "config_ok classes base config"
  by (rule accepted_config_ok [OF assms])

section \<open>The file is read back\<close>

lemma fgets_line:
  assumes "0x0A \<notin> set line" and "length line < 1023"
  shows "fgets_1024 (line @ 0x0A # rest) = (line @ [0x0A], False)"
  using assms by (simp add: fgets_1024_def cut_at)

lemma strip_line_end_newline: "strip_line_end (s @ [0x0A]) = strip_line_end s"
  by (simp add: strip_line_end_def)

lemma strip_line_end_id: "s \<noteq> [] \<Longrightarrow> last s \<noteq> 0x0A \<Longrightarrow> last s \<noteq> 0x0D \<Longrightarrow> strip_line_end s = s"
  by (cases s rule: rev_cases) (simp_all add: strip_line_end_def)

text \<open>One line of the file that the loop hands to the parser.\<close>

lemma read_line:
  assumes "no_nul line" and "0x0A \<notin> set line" and "length line < 1023" and "strip_line_end line = s"
    and "s \<noteq> []" and "take 7 s \<noteq> cstr ''#class ''"
  shows "read_lines ra classes (line @ 0x0A # rest) n config =
    res_bind (parse_app_line ra classes s config) (read_lines ra classes rest (Suc n))"
proof -
  have "c_string (line @ [0x0A]) = line @ [0x0A]"
    by (rule c_string_id) (use assms(1) in \<open>simp add: no_nul_def\<close>)
  then show ?thesis
    using fgets_line [OF assms(2,3), of rest] assms(4-6) strip_line_end_newline [of line]
    by (subst read_lines.simps) (simp add: Let_def del: cstr_simps)
qed

lemma app_text_char:
  assumes "app_ok classes app" and "c \<in> set (app_text app)"
  shows "c \<noteq> 0 \<and> (c = 0x0A \<longrightarrow> 0x0A \<in> set (ca_name app))"
proof -
  have feats: "d \<noteq> 0 \<and> d \<noteq> 0x0A" if d: "d \<in> set (sep_join 0x2C (map feature_text (ca_features app)))" for d
  proof -
    consider "d = 0x2C" | f where "f \<in> set (ca_features app)" "d \<in> set (feature_text f)"
      using sep_join_in [OF d] by auto
    then show ?thesis using feature_text_char assms(1) by cases (auto simp: app_ok_def)
  qed
  have digits: "d \<noteq> 0 \<and> d \<noteq> 0x0A" if "d \<in> set (print_number (ca_appid app))" for d
    using print_number_in [OF that] by (auto simp: is_digit_def)
  show ?thesis
    using assms(2) feats [of c] digits [of c] app_name_char [OF assms(1), of c]
    unfolding app_text_def by auto
qed

lemma app_ok_id: "app_ok classes app \<Longrightarrow> 0 \<le> ca_appid app \<and> ca_appid app < 2 ^ 31"
  by (auto simp: app_ok_def custom_limits)

lemma number_not_class: "0 \<le> n \<Longrightarrow> take 7 (print_number n @ s) \<noteq> cstr ''#class ''"
proof -
  assume "0 \<le> n"
  moreover obtain c cs where "nat_dec (nat n) = c # cs" "is_digit c" by (rule nat_dec_Cons)
  ultimately show ?thesis by (auto simp: print_number_def is_digit_def)
qed

text \<open>The line of an application whose name has no line feed goes to the parser as it is.\<close>

lemma read_app_line:
  assumes "app_ok classes app" and "app_to_line app len = Some line" and "0x0A \<notin> set (ca_name app)"
  shows "read_lines ra classes' (line @ 0x0A # rest) n config =
    res_bind (parse_app_line ra classes' line config) (read_lines ra classes' rest (Suc n))"
proof (rule read_line)
  have line: "line = app_text app" and len: "length line \<le> CUSTOM_MAX_APP_LINE"
    using app_to_line_Some [OF assms(2)] by simp_all
  show "no_nul line" "0x0A \<notin> set line" unfolding line no_nul_def using app_text_char [OF assms(1)] assms(3) by blast+
  show "length line < 1023" using len by (simp add: custom_limits)
  show ne: "line \<noteq> []" by (simp add: line app_text_def)
  show "strip_line_end line = line" by (rule strip_line_end_id [OF ne]) (simp_all add: line app_text_def)
  show "take 7 line \<noteq> cstr ''#class ''"
    unfolding line app_text_def by (rule number_not_class) (use app_ok_id [OF assms(1)] in blast)
qed

lemma config_add_app_ok:
  assumes "length (cc_apps config) < MAX_SUPPORT_APP_NUM"
  obtains added where "config_add_app (\<lambda>_. True) config = Some added"
  using assms that by (cases "length (cc_apps config) = cc_capacity config")
    (auto simp: config_add_app_def Let_def)

lemma read_lines_all:
  assumes "lines_written ok i apps = Some ls" and "\<forall>app\<in>set apps. app_ok classes app \<and> 0x0A \<notin> set (ca_name app)"
    and "distinct (map ca_appid (cc_apps config @ apps))" and "distinct (map ca_name (cc_apps config @ apps))"
    and "length (cc_apps config @ apps) \<le> MAX_SUPPORT_APP_NUM"
  shows "\<exists>config'. (\<forall>rest. read_lines (\<lambda>_. True) classes (ls @ rest) n config =
      read_lines (\<lambda>_. True) classes rest (n + length apps) config') \<and> cc_apps config' = cc_apps config @ apps"
  using assms
proof (induction apps arbitrary: i ls n config)
  case (Cons app apps)
  obtain line ls' where line: "app_to_line app (CUSTOM_MAX_APP_LINE + 2) = Some line"
    and ls': "lines_written ok (Suc i) apps = Some ls'" and ls: "ls = line @ 0x0A # ls'"
    using Cons.prems(1) by (auto simp: Option.bind_eq_Some_conv split: if_splits)
  obtain added where added: "config_add_app (\<lambda>_. True) config = Some added"
    using config_add_app_ok [of config] Cons.prems(5) by auto
  let ?next = "added\<lparr>cc_apps := cc_apps config @ [app]\<rparr>"
  have app: "app_ok classes app" "0x0A \<notin> set (ca_name app)" using Cons.prems(2) by simp_all
  have parsed: "parse_app_line (\<lambda>_. True) classes line config = Inr ?next"
    by (rule app_line_roundtrip [OF app(1) line added]) (use Cons.prems(3,4) in \<open>auto simp: image_iff eq_commute\<close>)
  obtain config' where "\<forall>rest. read_lines (\<lambda>_. True) classes (ls' @ rest) (Suc n) ?next =
      read_lines (\<lambda>_. True) classes rest (Suc n + length apps) config'" "cc_apps config' = cc_apps ?next @ apps"
    using Cons.IH [OF ls', of ?next "Suc n"] Cons.prems by auto
  then show ?case
    using read_app_line [OF app(1) line app(2)] parsed by (auto simp: ls intro!: exI [of _ config'])
qed auto

lemma saved_config_read_back:
  assumes "config_ok classes base config" and "config_write_file io config file_in = (Inr (), file_out)"
    and "\<forall>app\<in>set (cc_apps config). 0x0A \<notin> set (ca_name app)"
  shows "map_sum id cc_apps (config_read_file (\<lambda>_. True) classes base file_out config_free) = Inr (cc_apps config)"
proof -
  obtain ls where ls: "lines_written (io_print io) 0 (cc_apps config) = Some ls" and file_out: "file_out = Content ls False"
    using assms(2) by (auto simp: config_write_file_def split: if_splits option.splits)
  note ok = assms(1) [unfolded config_ok_def]
  obtain config' where r: "\<forall>rest. read_lines (\<lambda>_. True) classes (ls @ rest) 0 config_free =
      read_lines (\<lambda>_. True) classes rest (0 + length (cc_apps config)) config'"
    and apps: "cc_apps config' = cc_apps config"
    using read_lines_all [OF ls, of classes config_free 0] ok assms(3) by (auto simp: config_free_def)
  have "read_lines (\<lambda>_. True) classes ls 0 config_free = Inr config'"
    using r [THEN spec, of "[]"] by (simp add: read_lines.simps [of _ _ "[]"])
  then show ?thesis using ok apps by (simp add: file_out config_read_file_def qsort_sorted)
qed

text \<open>
  C20. Saved applications are the ones that are loaded. When the applications of the daemon are
  written to the file and no name has a line feed, reading the file (with memory for the
  table) succeeds and gives the same applications in the same order.
\<close>

theorem saved_config_reloads:
  assumes "config_ok classes base config" and "config_write_file io config file_in = (Inr (), file_out)"
    and "\<forall>app\<in>set (cc_apps config). 0x0A \<notin> set (ca_name app)"
  shows "map_sum id cc_apps (config_read_file (\<lambda>_. True) classes base file_out config_free) = Inr (cc_apps config)"
  by (rule saved_config_read_back [OF assms])

lemma parse_no_colon: "0x3A \<notin> set s \<Longrightarrow> parse_app_line ra classes s config = Inl (Error ''custom feature line is invalid'')"
proof -
  assume "0x3A \<notin> set s"
  then have "strstr_open s = None" by (induction s) auto
  then show ?thesis by (simp add: parse_app_line_def)
qed

lemma set_strip: "set (strip_line_end s) \<subseteq> set s"
  by (auto simp: strip_line_end_def dest!: set_dropWhileD)

lemma strip_line_end_prefix: "last s \<noteq> 0x0A \<Longrightarrow> last s \<noteq> 0x0D \<Longrightarrow> s \<noteq> [] \<Longrightarrow> \<exists>u. strip_line_end (s @ t) = s @ u"
proof -
  assume "last s \<noteq> 0x0A" "last s \<noteq> 0x0D" "s \<noteq> []"
  then have "strip_line_end s = s" by (rule strip_line_end_id [rotated])
  then have "dropWhile (\<lambda>c. c = 0x0A \<or> c = 0x0D) (rev s) = rev s"
    by (simp add: strip_line_end_def rev_swap)
  then have "strip_line_end (s @ t) = s @ strip_line_end t"
    by (simp add: strip_line_end_def dropWhile_append rev_swap)
  then show ?thesis by blast
qed

lemma read_before:
  assumes "lines_written ok i apps = Some ls" and "\<forall>app\<in>set apps. app_ok classes app \<and> 0x0A \<notin> set (ca_name app)"
  shows "(\<exists>e. \<forall>rest. read_lines ra classes' (ls @ rest) n config = Inl e) \<or>
    (\<exists>config'. \<forall>rest. read_lines ra classes' (ls @ rest) n config = read_lines ra classes' rest (n + length apps) config')"
  using assms
proof (induction apps arbitrary: i ls n config)
  case (Cons app apps)
  obtain line ls' where line: "app_to_line app (CUSTOM_MAX_APP_LINE + 2) = Some line"
    and ls': "lines_written ok (Suc i) apps = Some ls'" and ls: "ls = line @ 0x0A # ls'"
    using Cons.prems(1) by (auto simp: Option.bind_eq_Some_conv split: if_splits)
  have r: "read_lines ra classes' (ls @ rest) n config =
      res_bind (parse_app_line ra classes' line config) (read_lines ra classes' (ls' @ rest) (Suc n))" for rest
    using read_app_line [OF _ line, of classes] Cons.prems(2) by (simp add: ls)
  show ?case
  proof (cases "parse_app_line ra classes' line config")
    case (Inr config1)
    then show ?thesis using Cons.IH [OF ls', of "Suc n" config1] Cons.prems(2) by (simp add: r)
  qed (simp add: r)
qed auto

lemma lines_written_append:
  "lines_written f j (xs @ ys) = Some l \<Longrightarrow>
     \<exists>l1 l2. lines_written f j xs = Some l1 \<and> lines_written f (j + length xs) ys = Some l2 \<and> l = l1 @ l2"
  by (induction xs arbitrary: j l) (fastforce simp: Option.bind_eq_Some_conv split: if_splits)+

text \<open>
  A line feed in a name is accepted and saved, and locks the file. The checks allow it inside a name.
  As soon as one of the saved applications has such a name, the file can no longer be read
  at all, by this daemon or the next one, whatever classes it knows.
\<close>

lemma newline_unreadable:
  assumes "config_ok classes base config" and "config_write_file io config file_in = (Inr (), file_out)"
    and "\<exists>app\<in>set (cc_apps config). 0x0A \<in> set (ca_name app)"
  shows "\<exists>e. config_read_file ra classes' base' file_out start = Inl e"
proof -
  obtain ls where ls: "lines_written (io_print io) 0 (cc_apps config) = Some ls" and file_out: "file_out = Content ls False"
    using assms(2) by (auto simp: config_write_file_def split: if_splits option.splits)
  note ok = assms(1) [unfolded config_ok_def]
  obtain good app apps where split: "cc_apps config = good @ app # apps" "0x0A \<in> set (ca_name app)"
    and good: "\<forall>a\<in>set good. 0x0A \<notin> set (ca_name a)"
    using split_list_first_prop [OF assms(3)] by blast
  obtain l1 l2 where l1: "lines_written (io_print io) 0 good = Some l1"
    and l2: "lines_written (io_print io) (length good) (app # apps) = Some l2" and l: "ls = l1 @ l2"
    using lines_written_append [OF ls [unfolded split(1)]] by auto
  obtain line l3 where line: "app_to_line app (CUSTOM_MAX_APP_LINE + 2) = Some line" and l3: "l2 = line @ 0x0A # l3"
    using l2 by (auto simp: Option.bind_eq_Some_conv split: if_splits)
  have app: "app_ok classes app" using ok split(1) by simp
  obtain n1 n2 where name: "ca_name app = n1 @ 0x0A # n2" "0x0A \<notin> set n1" using split(2) by (auto dest: split_list_first)
  let ?s = "print_number (ca_appid app) @ [0x7E]"
  obtain rest where rest: "l2 = (?s @ n1) @ 0x0A # rest" and len: "length (?s @ n1) < 1023"
    using app_to_line_Some(1,2) [OF line] l3 name(1) by (auto simp: app_text_def custom_limits)
  have id: "0x0A \<notin> set ?s" "0x3A \<notin> set ?s" "0 \<notin> set ?s"
    by (auto simp: is_digit_def dest!: print_number_in)
  have n1: "0x3A \<notin> set n1" "0 \<notin> set n1" using app_name_char [OF app] name(1) by auto
  obtain u where u: "strip_line_end (?s @ n1) = ?s @ u" using strip_line_end_prefix [of ?s n1] by auto
  have l2_read: "read_lines ra classes' l2 n c =
      res_bind (parse_app_line ra classes' (?s @ u) c) (read_lines ra classes' rest (Suc n))" for n c
    unfolding rest
  proof (rule read_line [OF _ _ len u])
    show "no_nul (?s @ n1)" "0x0A \<notin> set (?s @ n1)" using id n1 name(2) by (auto simp: no_nul_def)
    show "take 7 (?s @ u) \<noteq> cstr ''#class ''"
      using number_not_class [of "ca_appid app" "0x7E # u"] app_ok_id [OF app] by simp
  qed simp
  moreover have "0x3A \<notin> set (?s @ u)" using set_strip [of "?s @ n1"] u id n1 by auto
  ultimately have bad: "\<exists>e. read_lines ra classes' l2 n c = Inl e" for n c
    using parse_no_colon [of "?s @ u" ra classes' c] by (simp del: cstr_simps)
  have "\<forall>a\<in>set good. app_ok classes a \<and> 0x0A \<notin> set (ca_name a)" using ok good split(1) by simp
  from read_before [OF l1 this, of ra classes' 0 start] show ?thesis
  proof
    assume "\<exists>e. \<forall>rest. read_lines ra classes' (l1 @ rest) 0 start = Inl e"
    then show ?thesis by (auto simp: file_out l config_read_file_def)
  next
    assume "\<exists>c. \<forall>rest. read_lines ra classes' (l1 @ rest) 0 start = read_lines ra classes' rest (0 + length good) c"
    then obtain c where "read_lines ra classes' ls 0 start = read_lines ra classes' l2 (length good) c" by (auto simp: l)
    moreover obtain e where "read_lines ra classes' l2 (length good) c = Inl e" using bad by blast
    ultimately show ?thesis by (simp add: file_out config_read_file_def)
  qed
qed

text \<open>
  The file is replaced or kept. Whichever calls on the temporary file fail, the file afterwards
  is either the old one, with an error, or exactly the lines of all applications.
\<close>

theorem config_write_atomic:
  "config_write_file io config file_in = (Inr (), Content (concat (map (\<lambda>app. app_text app @ [0x0A]) (cc_apps config))) False) \<or>
   (\<exists>msg. config_write_file io config file_in = (Inl (Error msg), file_in))"
proof -
  have "lines_written ok i apps = Some ls \<Longrightarrow> ls = concat (map (\<lambda>app. app_text app @ [0x0A]) apps)" for ok i apps ls
    by (induction apps arbitrary: i ls) (auto simp: Option.bind_eq_Some_conv dest: app_to_line_Some(1) split: if_splits)
  then show ?thesis by (auto simp: config_write_file_def split: option.splits)
qed

section \<open>Witnesses\<close>

text \<open>json-c on the trees of this development, and a request for one application.\<close>

definition json_tree :: "json json_c" where
  "json_tree = \<lparr>
     json_object_get_type = (\<lambda>v. case v of JNull \<Rightarrow> Json_null | JNumber _ \<Rightarrow> Json_int | JString _ \<Rightarrow> Json_string
       | JArray _ \<Rightarrow> Json_array | JObject _ \<Rightarrow> Json_object | _ \<Rightarrow> Json_boolean),
     json_object_object_get = (\<lambda>v key. case v of JObject ms \<Rightarrow> map_of ms key | _ \<Rightarrow> None),
     json_object_array_length = (\<lambda>v. case v of JArray vs \<Rightarrow> length vs | _ \<Rightarrow> 0),
     json_object_array_get_idx = (\<lambda>v i. case v of JArray vs \<Rightarrow> vs ! i | _ \<Rightarrow> v),
     json_object_get_int64 = (\<lambda>v. case v of JNumber n \<Rightarrow> n | _ \<Rightarrow> 0),
     json_object_get_int = (\<lambda>v. case v of JNumber n \<Rightarrow> n | _ \<Rightarrow> 0),
     json_object_get_string = (\<lambda>v. case v of JString s \<Rightarrow> s | _ \<Rightarrow> [])\<rparr>"

definition demo_request :: "bytes \<Rightarrow> json" where
  "demo_request name = JObject [(cstr ''app_list'', JArray [JObject [(cstr ''class_id'', JNumber 1),
     (cstr ''name'', JString name),
     (cstr ''features'', JArray [JObject [(cstr ''protocol'', JString (cstr ''tcp'')),
        (cstr ''dest_port'', JNumber 443), (cstr ''domain'', JString (cstr ''a.b''))]])]])]"

definition demo_app :: "bytes \<Rightarrow> custom_app" where
  "demo_app name = \<lparr>ca_appid = 1900, ca_class_id = 1, ca_name = name,
     ca_features = [\<lparr>cf_protocol = cstr ''tcp'', cf_dest_port = cstr ''443'', cf_domain = cstr ''a.b'',
       cf_uri = [], cf_payload = []\<rparr>]\<rparr>"

definition demo_config :: "bytes \<Rightarrow> custom_config" where
  "demo_config name = \<lparr>cc_apps = [demo_app name], cc_capacity = 16\<rparr>"

definition demo_io :: file_io where
  "demo_io = \<lparr>io_open = True, io_print = (\<lambda>_. True), io_flush = True, io_fsync = True, io_close = True, io_chmod = True, io_rename = True\<rparr>"

lemma demo_accepted:
  "config_from_json (\<lambda>_. True) json_tree (replicate 16 []) 1 (demo_request (cstr ''demo'')) = Inr (demo_config (cstr ''demo''))"
  by code_simp

lemma demo_ok: "config_ok (replicate 16 []) 1 (demo_config (cstr ''demo''))"
  by (rule accepted_config_ok [OF demo_accepted])

lemma demo_written:
  "config_write_file demo_io (demo_config (cstr ''demo'')) NoFile =
     (Inr (), Content (cstr ''1900~demo:[tcp;;443;a.b;;]'' @ [0x0A]) False)"
  by code_simp

lemma demo_no_newline: "\<forall>app\<in>set (cc_apps (demo_config (cstr ''demo''))). 0x0A \<notin> set (ca_name app)"
  by code_simp

theorem config_from_json_ok_witness: "config_ok (replicate 16 []) 1 (demo_config (cstr ''demo''))"
  by (rule config_from_json_ok [OF demo_accepted])

theorem saved_config_reloads_witness:
  "map_sum id cc_apps (config_read_file (\<lambda>_. True) (replicate 16 []) 1
     (Content (cstr ''1900~demo:[tcp;;443;a.b;;]'' @ [0x0A]) False) config_free) = Inr [demo_app (cstr ''demo'')]"
  using saved_config_reloads [OF demo_ok demo_written demo_no_newline] by (simp add: demo_config_def del: cstr_simps)

end
