(* ===== verification/Fwx_Mark.thy ===== *)
theory Fwx_Mark
  imports Fwx_Prelude
begin

text \<open>
  The mark of a connection in the kernel's conntrack, where gateway mode keeps its verdict
  (\<^verbatim>\<open>oaf/src/fwx_main.c\<close>): the application in the lower 16 bits, four flags in the upper four, and
  the twelve bits between left to others.
\<close>

definition FWX_CT_APPID_MASK :: u32 where "FWX_CT_APPID_MASK = 0x0000FFFF"
definition FWX_CT_DNS_MATCH_BIT :: u32 where "FWX_CT_DNS_MATCH_BIT = 0x10000000"
definition FWX_CT_IGNORE_BIT :: u32 where "FWX_CT_IGNORE_BIT = 0x20000000"
definition FWX_CT_CLIENT_HELLO_BIT :: u32 where "FWX_CT_CLIENT_HELLO_BIT = 0x40000000"
definition FWX_CT_DROP_BIT :: u32 where "FWX_CT_DROP_BIT = 0x80000000"

record nf_conn =
  ct_mark :: u32
  ct_confirmed :: bool
  ct_acct_packets :: "u64 option"

definition fwx_ct_mark_get :: "nf_conn \<Rightarrow> u32" where
  "fwx_ct_mark_get ct = ct_mark ct"

definition fwx_ct_mark_update :: "u32 \<Rightarrow> u32 \<Rightarrow> nf_conn \<Rightarrow> nf_conn" where
  "fwx_ct_mark_update bits value ct =
     ct\<lparr>ct_mark := (fwx_ct_mark_get ct AND NOT bits) OR (value AND bits)\<rparr>"

definition fwx_ct_get_appid :: "nf_conn \<Rightarrow> u32" where
  "fwx_ct_get_appid ct = fwx_ct_mark_get ct AND FWX_CT_APPID_MASK"

definition fwx_ct_is_valid_appid :: "u32 \<Rightarrow> bool" where
  "fwx_ct_is_valid_appid app_id \<longleftrightarrow> app_id > 0 \<and> app_id \<le> 32000"

definition fwx_ct_set_appid :: "u32 \<Rightarrow> nf_conn \<Rightarrow> nf_conn" where
  "fwx_ct_set_appid app_id ct = fwx_ct_mark_update FWX_CT_APPID_MASK app_id ct"

definition fwx_ct_test_bit :: "u32 \<Rightarrow> nf_conn \<Rightarrow> bool" where
  "fwx_ct_test_bit flag ct \<longleftrightarrow> fwx_ct_mark_get ct AND flag \<noteq> 0"

definition fwx_ct_set_bit :: "u32 \<Rightarrow> bool \<Rightarrow> nf_conn \<Rightarrow> nf_conn" where
  "fwx_ct_set_bit flag set_it ct = fwx_ct_mark_update flag (if set_it then flag else 0) ct"

definition fwx_ct_has_valid_drop_mark :: "nf_conn \<Rightarrow> bool" where
  "fwx_ct_has_valid_drop_mark ct \<longleftrightarrow> (let app_id = fwx_ct_get_appid ct in
     fwx_ct_test_bit FWX_CT_DROP_BIT ct \<and> (app_id = 0 \<or> fwx_ct_is_valid_appid app_id))"

section \<open>The fields are independent\<close>

lemma mark_masks:
  "FWX_CT_APPID_MASK = mask 16" "FWX_CT_DNS_MATCH_BIT = 2 ^ 28" "FWX_CT_IGNORE_BIT = 2 ^ 29"
  "FWX_CT_CLIENT_HELLO_BIT = 2 ^ 30" "FWX_CT_DROP_BIT = 2 ^ 31"
  by (simp_all add: FWX_CT_APPID_MASK_def FWX_CT_DNS_MATCH_BIT_def FWX_CT_IGNORE_BIT_def
      FWX_CT_CLIENT_HELLO_BIT_def FWX_CT_DROP_BIT_def mask_eq_exp_minus_1)

text \<open>The flags by the number of their bit.\<close>

lemma test_bit_iff: "n < 32 \<Longrightarrow> fwx_ct_test_bit (2 ^ n) ct \<longleftrightarrow> bit (ct_mark ct) n"
  by (simp add: fwx_ct_test_bit_def fwx_ct_mark_get_def and_exp_eq_0_iff_not_bit)

lemma set_bit_mark:
  "n < 32 \<Longrightarrow> bit (ct_mark (fwx_ct_set_bit (2 ^ n) b ct)) i = (if i = n then b else bit (ct_mark ct) i)"
  by (auto simp: fwx_ct_set_bit_def fwx_ct_mark_update_def fwx_ct_mark_get_def bit_or_iff bit_and_iff bit_not_iff
      bit_exp_iff dest: bit_imp_le_length)

lemma set_appid_mark:
  "bit (ct_mark (fwx_ct_set_appid a ct)) i = (if i < 16 then bit a i else bit (ct_mark ct) i)"
  by (auto simp: mark_masks fwx_ct_set_appid_def fwx_ct_mark_update_def fwx_ct_mark_get_def bit_or_iff bit_and_iff bit_not_iff
      bit_mask_iff dest: bit_imp_le_length)

lemma test_set_bit:
  "n < 32 \<Longrightarrow> m < 32 \<Longrightarrow> fwx_ct_test_bit (2 ^ m) (fwx_ct_set_bit (2 ^ n) b ct) =
     (if m = n then b else fwx_ct_test_bit (2 ^ m) ct)"
  by (simp add: test_bit_iff set_bit_mark)

lemma test_set_appid:
  "16 \<le> m \<Longrightarrow> m < 32 \<Longrightarrow> fwx_ct_test_bit (2 ^ m) (fwx_ct_set_appid a ct) = fwx_ct_test_bit (2 ^ m) ct"
  by (simp add: test_bit_iff set_appid_mark)

lemma get_set_appid [simp]: "fwx_ct_get_appid (fwx_ct_set_appid a ct) = take_bit 16 a"
  by (rule bit_word_eqI)
    (auto simp: mark_masks fwx_ct_get_appid_def fwx_ct_mark_get_def bit_and_iff set_appid_mark bit_mask_iff bit_take_bit_iff)

lemma get_set_bit:
  "16 \<le> n \<Longrightarrow> n < 32 \<Longrightarrow> fwx_ct_get_appid (fwx_ct_set_bit (2 ^ n) b ct) = fwx_ct_get_appid ct"
  by (rule bit_word_eqI)
    (auto simp: mark_masks fwx_ct_get_appid_def fwx_ct_mark_get_def bit_and_iff set_bit_mark bit_mask_iff)

text \<open>The same for the four flags by name.\<close>

lemma flag_simps [simp]:
  "fwx_ct_test_bit FWX_CT_DNS_MATCH_BIT (fwx_ct_set_bit FWX_CT_DNS_MATCH_BIT b ct) = b"
  "fwx_ct_test_bit FWX_CT_DNS_MATCH_BIT (fwx_ct_set_bit FWX_CT_IGNORE_BIT b ct) = fwx_ct_test_bit FWX_CT_DNS_MATCH_BIT ct"
  "fwx_ct_test_bit FWX_CT_DNS_MATCH_BIT (fwx_ct_set_bit FWX_CT_CLIENT_HELLO_BIT b ct) = fwx_ct_test_bit FWX_CT_DNS_MATCH_BIT ct"
  "fwx_ct_test_bit FWX_CT_DNS_MATCH_BIT (fwx_ct_set_bit FWX_CT_DROP_BIT b ct) = fwx_ct_test_bit FWX_CT_DNS_MATCH_BIT ct"
  "fwx_ct_test_bit FWX_CT_IGNORE_BIT (fwx_ct_set_bit FWX_CT_DNS_MATCH_BIT b ct) = fwx_ct_test_bit FWX_CT_IGNORE_BIT ct"
  "fwx_ct_test_bit FWX_CT_IGNORE_BIT (fwx_ct_set_bit FWX_CT_IGNORE_BIT b ct) = b"
  "fwx_ct_test_bit FWX_CT_IGNORE_BIT (fwx_ct_set_bit FWX_CT_CLIENT_HELLO_BIT b ct) = fwx_ct_test_bit FWX_CT_IGNORE_BIT ct"
  "fwx_ct_test_bit FWX_CT_IGNORE_BIT (fwx_ct_set_bit FWX_CT_DROP_BIT b ct) = fwx_ct_test_bit FWX_CT_IGNORE_BIT ct"
  "fwx_ct_test_bit FWX_CT_CLIENT_HELLO_BIT (fwx_ct_set_bit FWX_CT_DNS_MATCH_BIT b ct) = fwx_ct_test_bit FWX_CT_CLIENT_HELLO_BIT ct"
  "fwx_ct_test_bit FWX_CT_CLIENT_HELLO_BIT (fwx_ct_set_bit FWX_CT_IGNORE_BIT b ct) = fwx_ct_test_bit FWX_CT_CLIENT_HELLO_BIT ct"
  "fwx_ct_test_bit FWX_CT_CLIENT_HELLO_BIT (fwx_ct_set_bit FWX_CT_CLIENT_HELLO_BIT b ct) = b"
  "fwx_ct_test_bit FWX_CT_CLIENT_HELLO_BIT (fwx_ct_set_bit FWX_CT_DROP_BIT b ct) = fwx_ct_test_bit FWX_CT_CLIENT_HELLO_BIT ct"
  "fwx_ct_test_bit FWX_CT_DROP_BIT (fwx_ct_set_bit FWX_CT_DNS_MATCH_BIT b ct) = fwx_ct_test_bit FWX_CT_DROP_BIT ct"
  "fwx_ct_test_bit FWX_CT_DROP_BIT (fwx_ct_set_bit FWX_CT_IGNORE_BIT b ct) = fwx_ct_test_bit FWX_CT_DROP_BIT ct"
  "fwx_ct_test_bit FWX_CT_DROP_BIT (fwx_ct_set_bit FWX_CT_CLIENT_HELLO_BIT b ct) = fwx_ct_test_bit FWX_CT_DROP_BIT ct"
  "fwx_ct_test_bit FWX_CT_DROP_BIT (fwx_ct_set_bit FWX_CT_DROP_BIT b ct) = b"
  "fwx_ct_test_bit FWX_CT_DNS_MATCH_BIT (fwx_ct_set_appid a ct) = fwx_ct_test_bit FWX_CT_DNS_MATCH_BIT ct"
  "fwx_ct_test_bit FWX_CT_IGNORE_BIT (fwx_ct_set_appid a ct) = fwx_ct_test_bit FWX_CT_IGNORE_BIT ct"
  "fwx_ct_test_bit FWX_CT_CLIENT_HELLO_BIT (fwx_ct_set_appid a ct) = fwx_ct_test_bit FWX_CT_CLIENT_HELLO_BIT ct"
  "fwx_ct_test_bit FWX_CT_DROP_BIT (fwx_ct_set_appid a ct) = fwx_ct_test_bit FWX_CT_DROP_BIT ct"
  "fwx_ct_get_appid (fwx_ct_set_bit FWX_CT_DNS_MATCH_BIT b ct) = fwx_ct_get_appid ct"
  "fwx_ct_get_appid (fwx_ct_set_bit FWX_CT_IGNORE_BIT b ct) = fwx_ct_get_appid ct"
  "fwx_ct_get_appid (fwx_ct_set_bit FWX_CT_CLIENT_HELLO_BIT b ct) = fwx_ct_get_appid ct"
  "fwx_ct_get_appid (fwx_ct_set_bit FWX_CT_DROP_BIT b ct) = fwx_ct_get_appid ct"
  using test_set_bit [of _ _ b ct] test_set_appid [of _ a ct] get_set_bit [of _ b ct] by (simp_all only: mark_masks) simp_all

lemma ct_unchanged [simp]:
  "ct_confirmed (fwx_ct_set_appid a ct) = ct_confirmed ct" "ct_confirmed (fwx_ct_set_bit flag b ct) = ct_confirmed ct"
  "ct_acct_packets (fwx_ct_set_appid a ct) = ct_acct_packets ct"
  "ct_acct_packets (fwx_ct_set_bit flag b ct) = ct_acct_packets ct"
  by (simp_all add: fwx_ct_set_appid_def fwx_ct_set_bit_def fwx_ct_mark_update_def)

text \<open>
  The mark is four flags and an application. What is written is read back, the application
  cut to 16 bits, and no write touches another field nor the twelve bits that belong to others.
\<close>

theorem ct_mark_fields:
  "fwx_ct_get_appid (fwx_ct_set_appid a ct) = a AND 0xFFFF \<and>
   (\<forall>n. 16 \<le> n \<and> n < 32 \<longrightarrow>
      fwx_ct_test_bit (2 ^ n) (fwx_ct_set_appid a ct) = fwx_ct_test_bit (2 ^ n) ct \<and>
      fwx_ct_get_appid (fwx_ct_set_bit (2 ^ n) b ct) = fwx_ct_get_appid ct \<and>
      (\<forall>m<32. fwx_ct_test_bit (2 ^ m) (fwx_ct_set_bit (2 ^ n) b ct) =
        (if m = n then b else fwx_ct_test_bit (2 ^ m) ct)))"
proof -
  have "a AND 0xFFFF = take_bit 16 a" by (simp add: take_bit_eq_mask mask_eq_exp_minus_1)
  then show ?thesis by (simp add: test_set_bit test_set_appid get_set_bit)
qed

theorem ct_mark_fields_witness:
  "fwx_ct_get_appid (fwx_ct_set_appid 70000 \<lparr>ct_mark = 0, ct_confirmed = True, ct_acct_packets = None\<rparr>) = 4464 \<and>
   \<not> fwx_ct_test_bit (2 ^ 30) (fwx_ct_set_bit (2 ^ 31) True \<lparr>ct_mark = 0, ct_confirmed = True, ct_acct_packets = None\<rparr>)"
proof -
  let ?ct = "\<lparr>ct_mark = 0, ct_confirmed = True, ct_acct_packets = None\<rparr>"
  note fields = ct_mark_fields [of 70000 ?ct True]
  have "fwx_ct_get_appid (fwx_ct_set_appid 70000 ?ct) = 70000 AND 0xFFFF" using fields by blast
  moreover have "fwx_ct_test_bit (2 ^ 30) (fwx_ct_set_bit (2 ^ 31) True ?ct) = fwx_ct_test_bit (2 ^ 30) ?ct"
    using conjunct2 [OF fields, THEN spec [of _ 31]] by (elim impE conjE allE [of _ 30]) auto
  moreover have "\<not> fwx_ct_test_bit (2 ^ 30) ?ct" by (simp add: fwx_ct_test_bit_def fwx_ct_mark_get_def)
  ultimately show ?thesis by auto
qed

end
