(* ===== verification/Fwx_Rules.thy ===== *)
theory Fwx_Rules
  imports Fwx_Prelude
begin

text \<open>
  The contract of the two rule lists of the module (application rules and MAC rules): a list
  with a counter, a bound on the number of rules, one rule per id. A component states its
  operations on its own state; the locale has what follows from the laws they keep.
\<close>

locale rule_store =
  fixes rules :: "'s \<Rightarrow> 'r list"
    and number :: "'s \<Rightarrow> int"
    and rid :: "'r \<Rightarrow> int"
    and limit :: int
    and good :: "'r \<Rightarrow> bool"
    and search :: "int \<Rightarrow> 's \<Rightarrow> 'r option"
    and make :: "int \<Rightarrow> 'r"
    and add :: "bool \<Rightarrow> int \<Rightarrow> 's \<Rightarrow> bool \<times> 's"
    and del :: "int \<Rightarrow> 's \<Rightarrow> bool \<times> 's"
    and change :: "int \<Rightarrow> ('r \<Rightarrow> 'r) \<Rightarrow> 's \<Rightarrow> 's"
  assumes search: "search i s = find (\<lambda>r. rid r = i) (rules s)"
    and make: "rid (make i) = i" "good (make i)"
    and add_refused: "number s \<ge> limit \<or> search i s \<noteq> None \<or> \<not> ok \<Longrightarrow> add ok i s = (False, s)"
    and add_done: "number s < limit \<Longrightarrow> search i s = None \<Longrightarrow>
      fst (add True i s) \<and> rules (snd (add True i s)) = make i # rules s \<and>
      number (snd (add True i s)) = number s + 1"
    and del_refused: "search i s = None \<Longrightarrow> del i s = (False, s)"
    and del_done: "search i s \<noteq> None \<Longrightarrow>
      fst (del i s) \<and> rules (snd (del i s)) = remove_first (\<lambda>r. rid r = i) (rules s) \<and>
      number (snd (del i s)) = number s - 1"
    and change: "rules (change i f s) = update_first (\<lambda>r. rid r = i) f (rules s)"
      "number (change i f s) = number s"
begin

definition inv :: "'s \<Rightarrow> bool" where
  "inv s \<longleftrightarrow> distinct (map rid (rules s)) \<and> number s = int (length (rules s)) \<and>
     number s \<le> limit \<and> list_all good (rules s)"

lemma search_Some: "search i s = Some r \<Longrightarrow> rid r = i \<and> r \<in> set (rules s)"
  unfolding search by (rule find_key_Some)

lemma search_None: "search i s = None \<longleftrightarrow> i \<notin> rid ` set (rules s)"
  by (auto simp: search find_None_iff)

lemma search_good: "inv s \<Longrightarrow> search i s = Some r \<Longrightarrow> good r"
  using search_Some by (auto simp: inv_def list_all_iff)

lemma search_rule: "inv s \<Longrightarrow> r \<in> set (rules s) \<Longrightarrow> search (rid r) s = Some r"
  by (metis inv_def distinct_map inj_on_eq_iff not_None_eq search_None search_Some imageI)

lemma add_cases:
  "(number s \<ge> limit \<or> search i s \<noteq> None \<or> \<not> ok) \<and> add ok i s = (False, s) \<or>
   number s < limit \<and> search i s = None \<and> ok \<and> fst (add ok i s) \<and>
     rules (snd (add ok i s)) = make i # rules s \<and> number (snd (add ok i s)) = number s + 1"
  using add_done [of s i] add_refused [of s i ok]
  by (cases "number s \<ge> limit \<or> search i s \<noteq> None \<or> \<not> ok") auto

lemma inv_add: "inv s \<Longrightarrow> inv (snd (add ok i s))"
  using add_cases [of s i ok] search_None [of i s] by (auto simp: inv_def make)

lemma search_add:
  "search j (snd (add ok i s)) = (if fst (add ok i s) \<and> j = i then Some (make i) else search j s)"
  using add_cases [of s i ok] by (auto simp: search make)

lemma add_iff: "fst (add ok i s) \<longleftrightarrow> number s < limit \<and> search i s = None \<and> ok"
  using add_cases [of s i ok] by auto

lemma inv_del: "inv s \<Longrightarrow> inv (snd (del i s))"
proof (cases "search i s = None")
  case False
  assume s: "inv s"
  have ex: "\<exists>r\<in>set (rules s). rid r = i" using False search_None by auto
  then have "rules s \<noteq> []" by auto
  with ex have "Suc (length (remove_first (\<lambda>r. rid r = i) (rules s))) = length (rules s)"
    by (auto simp: length_remove_first)
  then show ?thesis
    using s del_done [OF False] set_remove_first [of "\<lambda>r. rid r = i" "rules s"]
    by (auto simp: inv_def list_all_iff distinct_map_remove_first)
qed (simp add: del_refused)

lemma search_del:
  assumes "inv s"
  shows "search j (snd (del i s)) = (if j = i then None else search j s)"
proof (cases "search i s = None")
  case True
  then show ?thesis by (simp add: del_refused)
next
  case False
  then show ?thesis
    using assms del_done [OF False] find_remove_first_distinct [of rid "rules s" i]
    by (auto simp: search inv_def intro!: find_remove_first_other)
qed

lemma inv_change:
  assumes "inv s" and "\<And>r. rid r = i \<Longrightarrow> rid (f r) = i"
    and "\<And>r. rid r = i \<Longrightarrow> good r \<Longrightarrow> good (f r)"
  shows "inv (change i f s)"
proof -
  have "good r" if "r \<in> set (update_first (\<lambda>r. rid r = i) f (rules s))" for r
    using set_update_first [OF that] assms(1,3) by (auto simp: inv_def list_all_iff)
  moreover have "map rid (update_first (\<lambda>r. rid r = i) f (rules s)) = map rid (rules s)"
    by (rule map_update_first_on) (use assms(2) in simp)
  ultimately show ?thesis using assms(1) by (simp add: inv_def change list_all_iff)
qed

lemma search_change:
  assumes "\<And>r. rid r = i \<Longrightarrow> rid (f r) = i"
  shows "search j (change i f s) = (if j = i then map_option f (search i s) else search j s)"
  using assms by (auto simp: search change find_update_first_on intro!: find_update_first_other)

lemma filled: "inv s \<Longrightarrow> int (length (rules s)) = number s \<and> number s \<le> limit"
  by (simp add: inv_def)

end

text \<open>The first rule of a list that applies, and the rules before it, which do not.\<close>

lemma find_first_iff:
  "find P xs = Some x \<longleftrightarrow> (\<exists>before after. xs = before @ x # after \<and> P x \<and> (\<forall>y\<in>set before. \<not> P y))"
proof
  assume "find P xs = Some x"
  then obtain i where i: "i < length xs" "P (xs ! i)" "x = xs ! i" "\<forall>j<i. \<not> P (xs ! j)"
    unfolding find_Some_iff by blast
  then have "xs = take i xs @ x # drop (Suc i) xs" using id_take_nth_drop by blast
  moreover have "\<forall>y\<in>set (take i xs). \<not> P y" using i by (auto simp: in_set_conv_nth)
  ultimately show "\<exists>before after. xs = before @ x # after \<and> P x \<and> (\<forall>y\<in>set before. \<not> P y)"
    using i by blast
next
  assume "\<exists>before after. xs = before @ x # after \<and> P x \<and> (\<forall>y\<in>set before. \<not> P y)"
  then obtain before after where xs: "xs = before @ x # after" "P x" "\<forall>y\<in>set before. \<not> P y" by blast
  have "\<forall>y\<in>set before. \<not> P y \<Longrightarrow> find P (before @ x # after) = Some x" using xs(2)
    by (induction before) auto
  then show "find P xs = Some x" using xs by blast
qed

end
