(* ===== verification/Fwx_Mac_Filter.thy ===== *)
theory Fwx_Mac_Filter
  imports Fwx_Json Fwx_Rules
begin

text \<open>
  The MAC filter (\<^verbatim>\<open>oaf/src/fwx_mac_filter.c\<close>): at most 64 rules, each for all users or for the
  users of its MAC set, and a whitelist. The truth value of an operation says whether it
  returns 0; \<open>ok\<close> and \<open>kzm\<close> say for what there is memory. The rule lists obey the contract of
  \<^verbatim>\<open>Fwx_Rules\<close>; the dump of the rules to the kernel log changes nothing and is not modelled.
\<close>

definition MAX_MAC_FILTER_RULE_NUM :: int where "MAX_MAC_FILTER_RULE_NUM = 64"
definition MAC_FILTER_MODE_ALL_USERS :: int where "MAC_FILTER_MODE_ALL_USERS = 1"
definition MAC_FILTER_MODE_SINGLE_USER :: int where "MAC_FILTER_MODE_SINGLE_USER = 2"

record mac_filter_rule =
  mr_rule_id :: int
  mr_mode :: int
  mr_mac_list :: mac_config

record mac_filter =
  mf_rules :: "mac_filter_rule list"
  mf_rule_count :: int
  mf_whitelist :: mac_config

definition fwx_mac_filter_init :: mac_filter where
  "fwx_mac_filter_init = \<lparr>mf_rules = [], mf_rule_count = 0, mf_whitelist = fwx_mac_config_init\<rparr>"

definition fwx_mac_filter_exit :: "mac_filter \<Rightarrow> mac_filter" where
  "fwx_mac_filter_exit mf =
     mf\<lparr>mf_rules := [], mf_rule_count := 0, mf_whitelist := fwx_flush_mac_list (mf_whitelist mf)\<rparr>"

definition fwx_find_mac_filter_rule :: "int \<Rightarrow> mac_filter \<Rightarrow> mac_filter_rule option" where
  "fwx_find_mac_filter_rule rule_id mf = find (\<lambda>rule. mr_rule_id rule = rule_id) (mf_rules mf)"

definition fwx_add_mac_filter_rule :: "bool \<Rightarrow> int \<Rightarrow> int \<Rightarrow> mac_filter \<Rightarrow> bool \<times> mac_filter" where
  "fwx_add_mac_filter_rule ok rule_id mode mf =
     (if mf_rule_count mf \<ge> MAX_MAC_FILTER_RULE_NUM then (False, mf)
      else if fwx_find_mac_filter_rule rule_id mf \<noteq> None then (False, mf)
      else if \<not> ok then (False, mf)
      else (True, mf\<lparr>mf_rules := \<lparr>mr_rule_id = rule_id,
          mr_mode = (if mode = MAC_FILTER_MODE_SINGLE_USER then MAC_FILTER_MODE_SINGLE_USER
                     else MAC_FILTER_MODE_ALL_USERS),
          mr_mac_list = fwx_mac_config_init\<rparr> # mf_rules mf,
          mf_rule_count := mf_rule_count mf + 1\<rparr>))"

definition fwx_del_mac_filter_rule :: "int \<Rightarrow> mac_filter \<Rightarrow> bool \<times> mac_filter" where
  "fwx_del_mac_filter_rule rule_id mf = (case fwx_find_mac_filter_rule rule_id mf of
      None \<Rightarrow> (False, mf)
    | Some rule \<Rightarrow> (True, mf\<lparr>mf_rules := remove_first (\<lambda>rule. mr_rule_id rule = rule_id) (mf_rules mf),
                             mf_rule_count := mf_rule_count mf - 1\<rparr>))"

text \<open>A write through the pointer to the rule of an id.\<close>

definition mac_rule_write :: "int \<Rightarrow> (mac_filter_rule \<Rightarrow> mac_filter_rule) \<Rightarrow> mac_filter \<Rightarrow> mac_filter" where
  "mac_rule_write rule_id f mf =
     mf\<lparr>mf_rules := update_first (\<lambda>rule. mr_rule_id rule = rule_id) f (mf_rules mf)\<rparr>"

definition fwx_add_mac_to_rule :: "bool \<Rightarrow> int \<Rightarrow> mac \<Rightarrow> mac_filter \<Rightarrow> bool \<times> mac_filter" where
  "fwx_add_mac_to_rule ok rule_id mac mf = (case fwx_find_mac_filter_rule rule_id mf of
      None \<Rightarrow> (False, mf)
    | Some rule \<Rightarrow> (True, mac_rule_write rule_id
        (\<lambda>rule. rule\<lparr>mr_mac_list := fwx_add_mac_node ok mac (mr_mac_list rule)\<rparr>) mf))"

definition fwx_del_mac_from_rule :: "int \<Rightarrow> mac \<Rightarrow> mac_filter \<Rightarrow> bool \<times> mac_filter" where
  "fwx_del_mac_from_rule rule_id mac mf = (case fwx_find_mac_filter_rule rule_id mf of
      None \<Rightarrow> (False, mf)
    | Some rule \<Rightarrow> (case fwx_find_mac_node mac (mr_mac_list rule) of
          None \<Rightarrow> (False, mf)
        | Some node \<Rightarrow> (True, mac_rule_write rule_id
            (\<lambda>rule. rule\<lparr>mr_mac_list := del_mac_node mac (mr_mac_list rule)\<rparr>) mf)))"

definition mac_rule_applies :: "mac \<Rightarrow> mac_filter_rule \<Rightarrow> bool" where
  "mac_rule_applies mac rule \<longleftrightarrow>
     mr_mode rule = MAC_FILTER_MODE_ALL_USERS \<or> fwx_find_mac_node mac (mr_mac_list rule) \<noteq> None"

definition fwx_match_mac_filter_rule :: "mac \<Rightarrow> mac_filter \<Rightarrow> mac_filter_rule option" where
  "fwx_match_mac_filter_rule mac mf = find (mac_rule_applies mac) (mf_rules mf)"

definition fwx_match_mac_filter_whitelist :: "mac \<Rightarrow> mac_filter \<Rightarrow> bool" where
  "fwx_match_mac_filter_whitelist mac mf \<longleftrightarrow> fwx_find_mac_node mac (mf_whitelist mf) \<noteq> None"

section \<open>Requests\<close>

definition request_mode :: "int \<Rightarrow> json option \<Rightarrow> int" where
  "request_mode old mode_obj = (case mode_obj of
      None \<Rightarrow> old
    | Some obj \<Rightarrow> if valueint obj \<noteq> MAC_FILTER_MODE_SINGLE_USER then MAC_FILTER_MODE_ALL_USERS
                  else valueint obj)"

definition fwx_api_add_mac_filter_rule :: "bool \<Rightarrow> json \<Rightarrow> mac_filter \<Rightarrow> bool \<times> mac_filter" where
  "fwx_api_add_mac_filter_rule ok data_obj mf =
     (case cJSON_GetObjectItem data_obj (cstr ''rule_id'') of
        None \<Rightarrow> (False, mf)
      | Some rule_id \<Rightarrow> fwx_add_mac_filter_rule ok (valueint rule_id)
          (request_mode MAC_FILTER_MODE_ALL_USERS (cJSON_GetObjectItem data_obj (cstr ''mode''))) mf)"

definition mod_mac_rule :: "(mac \<Rightarrow> bool) \<Rightarrow> json \<Rightarrow> mac_filter_rule \<Rightarrow> mac_filter_rule" where
  "mod_mac_rule kzm data_obj rule =
     rule\<lparr>mr_mode := request_mode (mr_mode rule) (cJSON_GetObjectItem data_obj (cstr ''mode'')),
          mr_mac_list := mod_mac_list kzm data_obj (mr_mac_list rule)\<rparr>"

definition fwx_api_mod_mac_filter_rule :: "(mac \<Rightarrow> bool) \<Rightarrow> json \<Rightarrow> mac_filter \<Rightarrow> bool \<times> mac_filter" where
  "fwx_api_mod_mac_filter_rule kzm data_obj mf =
     (case cJSON_GetObjectItem data_obj (cstr ''rule_id'') of
        None \<Rightarrow> (False, mf)
      | Some rule_id \<Rightarrow>
          if fwx_find_mac_filter_rule (valueint rule_id) mf = None then (False, mf)
          else (True, mac_rule_write (valueint rule_id) (mod_mac_rule kzm data_obj) mf))"

definition fwx_api_del_mac_filter_rule :: "json \<Rightarrow> mac_filter \<Rightarrow> bool \<times> mac_filter" where
  "fwx_api_del_mac_filter_rule data_obj mf =
     (case cJSON_GetObjectItem data_obj (cstr ''rule_id'') of
        None \<Rightarrow> (False, mf)
      | Some rule_id \<Rightarrow> (case cJSON_GetObjectItem data_obj (cstr ''mac'') of
            Some m \<Rightarrow> (case mac_str_to_bin (valuestring m) of
                Some mac \<Rightarrow> fwx_del_mac_from_rule (valueint rule_id) mac mf
              | None \<Rightarrow> (False, mf))
          | None \<Rightarrow> fwx_del_mac_filter_rule (valueint rule_id) mf))"

definition fwx_api_flush_mac_filter_rule :: "mac_filter \<Rightarrow> mac_filter" where
  "fwx_api_flush_mac_filter_rule mf = mf\<lparr>mf_rules := [], mf_rule_count := 0\<rparr>"

definition fwx_api_add_mac_filter_whitelist :: "(mac \<Rightarrow> bool) \<Rightarrow> json \<Rightarrow> mac_filter \<Rightarrow> bool \<times> mac_filter" where
  "fwx_api_add_mac_filter_whitelist kzm data_obj mf =
     (case cJSON_GetObjectItem data_obj (cstr ''mac_list'') of
        None \<Rightarrow> (False, mf)
      | Some macs \<Rightarrow> (True, mf\<lparr>mf_whitelist := add_macs kzm (json_macs macs) (mf_whitelist mf)\<rparr>))"

definition fwx_api_del_mac_filter_whitelist :: "json \<Rightarrow> mac_filter \<Rightarrow> bool \<times> mac_filter" where
  "fwx_api_del_mac_filter_whitelist data_obj mf =
     (case cJSON_GetObjectItem data_obj (cstr ''mac'') of
        None \<Rightarrow> (False, mf)
      | Some m \<Rightarrow> (case mac_str_to_bin (valuestring m) of
            None \<Rightarrow> (False, mf)
          | Some mac \<Rightarrow> (case fwx_find_mac_node mac (mf_whitelist mf) of
                None \<Rightarrow> (False, mf)
              | Some node \<Rightarrow> (True, mf\<lparr>mf_whitelist := del_mac_node mac (mf_whitelist mf)\<rparr>))))"

definition fwx_api_flush_mac_filter_whitelist :: "mac_filter \<Rightarrow> mac_filter" where
  "fwx_api_flush_mac_filter_whitelist mf = mf\<lparr>mf_whitelist := fwx_flush_mac_list (mf_whitelist mf)\<rparr>"

section \<open>The rules as a store\<close>

definition new_mac_rule :: "int \<Rightarrow> int \<Rightarrow> mac_filter_rule" where
  "new_mac_rule mode rule_id = \<lparr>mr_rule_id = rule_id,
     mr_mode = (if mode = MAC_FILTER_MODE_SINGLE_USER then MAC_FILTER_MODE_SINGLE_USER
                else MAC_FILTER_MODE_ALL_USERS),
     mr_mac_list = fwx_mac_config_init\<rparr>"

definition mac_rule_inv :: "mac_filter_rule \<Rightarrow> bool" where
  "mac_rule_inv rule \<longleftrightarrow> mac_inv (mr_mac_list rule) \<and>
     (mr_mode rule = MAC_FILTER_MODE_ALL_USERS \<or> mr_mode rule = MAC_FILTER_MODE_SINGLE_USER)"

interpretation mac_rules: rule_store mf_rules mf_rule_count mr_rule_id MAX_MAC_FILTER_RULE_NUM
  mac_rule_inv fwx_find_mac_filter_rule "new_mac_rule mode"
  "\<lambda>ok rule_id. fwx_add_mac_filter_rule ok rule_id mode" fwx_del_mac_filter_rule mac_rule_write
  for mode
  by unfold_locales (auto simp: fwx_find_mac_filter_rule_def fwx_add_mac_filter_rule_def
      fwx_del_mac_filter_rule_def mac_rule_write_def new_mac_rule_def mac_rule_inv_def mac_inv_init)

definition mac_filter_inv :: "mac_filter \<Rightarrow> bool" where
  "mac_filter_inv mf \<longleftrightarrow> distinct (map mr_rule_id (mf_rules mf)) \<and>
     mf_rule_count mf = int (length (mf_rules mf)) \<and> mf_rule_count mf \<le> MAX_MAC_FILTER_RULE_NUM \<and>
     list_all mac_rule_inv (mf_rules mf) \<and> mac_inv (mf_whitelist mf)"

lemma mac_filter_inv_store: "mac_filter_inv mf \<longleftrightarrow> mac_rules.inv mf \<and> mac_inv (mf_whitelist mf)"
  by (auto simp: mac_filter_inv_def mac_rules.inv_def)

lemma mac_filter_inv_init: "mac_filter_inv fwx_mac_filter_init"
  by (simp add: mac_filter_inv_def fwx_mac_filter_init_def mac_inv_init MAX_MAC_FILTER_RULE_NUM_def)

lemma whitelist_mac_ops [simp]:
  "mf_whitelist (snd (fwx_add_mac_filter_rule ok i mode mf)) = mf_whitelist mf"
  "mf_whitelist (snd (fwx_del_mac_filter_rule i mf)) = mf_whitelist mf"
  "mf_whitelist (mac_rule_write i f mf) = mf_whitelist mf"
  by (simp_all add: fwx_add_mac_filter_rule_def fwx_del_mac_filter_rule_def mac_rule_write_def split: option.split)

lemma mac_filter_inv_write:
  assumes "mac_filter_inv mf" and "\<And>r. mr_rule_id (f r) = mr_rule_id r"
    and "\<And>r. mac_rule_inv r \<Longrightarrow> mac_rule_inv (f r)"
  shows "mac_filter_inv (mac_rule_write i f mf)"
  using assms by (auto simp: mac_filter_inv_store intro!: mac_rules.inv_change)

lemma mac_filter_inv_add: "mac_filter_inv mf \<Longrightarrow> mac_filter_inv (snd (fwx_add_mac_filter_rule ok i mode mf))"
  by (simp add: mac_filter_inv_store mac_rules.inv_add)

lemma mac_filter_inv_del: "mac_filter_inv mf \<Longrightarrow> mac_filter_inv (snd (fwx_del_mac_filter_rule i mf))"
  by (simp add: mac_filter_inv_store mac_rules.inv_del)

lemma request_mode_cases:
  "old = MAC_FILTER_MODE_ALL_USERS \<or> old = MAC_FILTER_MODE_SINGLE_USER \<Longrightarrow>
   request_mode old obj = MAC_FILTER_MODE_ALL_USERS \<or> request_mode old obj = MAC_FILTER_MODE_SINGLE_USER"
  by (auto simp: request_mode_def split: option.split)

lemma mod_mac_rule_ok:
  "mr_rule_id (mod_mac_rule kzm data_obj r) = mr_rule_id r"
  "mac_rule_inv r \<Longrightarrow> mac_rule_inv (mod_mac_rule kzm data_obj r)"
  by (simp_all add: mod_mac_rule_def mac_rule_inv_def mod_mac_list_inv request_mode_cases)

lemma mac_filter_inv_del_mac:
  "mac_filter_inv mf \<Longrightarrow> mac_filter_inv (snd (fwx_del_mac_from_rule i mac mf))"
  by (auto simp: fwx_del_mac_from_rule_def mac_rule_inv_def mac_inv_del split: option.split
      intro!: mac_filter_inv_write)

lemma mac_filter_inv_api:
  assumes "mac_filter_inv mf"
  shows "mac_filter_inv (snd (fwx_api_add_mac_filter_rule ok data_obj mf))"
    and "mac_filter_inv (snd (fwx_api_mod_mac_filter_rule kzm data_obj mf))"
    and "mac_filter_inv (snd (fwx_api_del_mac_filter_rule data_obj mf))"
    and "mac_filter_inv (fwx_api_flush_mac_filter_rule mf)"
    and "mac_filter_inv (snd (fwx_api_add_mac_filter_whitelist kzm data_obj mf))"
    and "mac_filter_inv (snd (fwx_api_del_mac_filter_whitelist data_obj mf))"
    and "mac_filter_inv (fwx_api_flush_mac_filter_whitelist mf)"
proof -
  show "mac_filter_inv (snd (fwx_api_add_mac_filter_rule ok data_obj mf))"
    using assms by (auto simp: fwx_api_add_mac_filter_rule_def mac_filter_inv_add split: option.split)
  show "mac_filter_inv (snd (fwx_api_mod_mac_filter_rule kzm data_obj mf))"
    using assms by (auto simp: fwx_api_mod_mac_filter_rule_def mod_mac_rule_ok split: option.split
        intro!: mac_filter_inv_write)
  show "mac_filter_inv (snd (fwx_api_del_mac_filter_rule data_obj mf))"
    using assms by (auto simp: fwx_api_del_mac_filter_rule_def mac_filter_inv_del mac_filter_inv_del_mac
        split: option.split)
  show "mac_filter_inv (fwx_api_flush_mac_filter_rule mf)"
    using assms by (simp add: fwx_api_flush_mac_filter_rule_def mac_filter_inv_def MAX_MAC_FILTER_RULE_NUM_def)
  show "mac_filter_inv (snd (fwx_api_add_mac_filter_whitelist kzm data_obj mf))"
    using assms mac_inv_add_macs
    by (simp add: fwx_api_add_mac_filter_whitelist_def split: option.split) (simp add: mac_filter_inv_def)
  show "mac_filter_inv (snd (fwx_api_del_mac_filter_whitelist data_obj mf))"
    using assms mac_inv_del
    by (simp add: fwx_api_del_mac_filter_whitelist_def split: option.split) (simp add: mac_filter_inv_def)
  show "mac_filter_inv (fwx_api_flush_mac_filter_whitelist mf)"
    using assms by (simp add: fwx_api_flush_mac_filter_whitelist_def mac_filter_inv_def mac_inv_flush)
qed

section \<open>What the match means\<close>

lemma mac_rule_applies_iff:
  "mac_rule_inv rule \<Longrightarrow> mac_rule_applies mac rule \<longleftrightarrow>
     mr_mode rule = MAC_FILTER_MODE_ALL_USERS \<or> mac \<in> mac_members (mr_mac_list rule)"
  by (simp add: mac_rule_applies_def mac_members_def)

lemma match_mac_iff:
  assumes "mac_filter_inv mf"
  shows "fwx_match_mac_filter_rule mac mf \<noteq> None \<longleftrightarrow> (\<exists>i r. fwx_find_mac_filter_rule i mf = Some r \<and>
    (mr_mode r = MAC_FILTER_MODE_ALL_USERS \<or> mac \<in> mac_members (mr_mac_list r)))"
proof -
  have inv: "mac_rules.inv mf" using assms by (simp add: mac_filter_inv_store)
  have "mac_rule_inv r" if "r \<in> set (mf_rules mf)" for r
    using assms that by (simp add: mac_filter_inv_def list_all_iff)
  then have "fwx_match_mac_filter_rule mac mf \<noteq> None \<longleftrightarrow> (\<exists>r\<in>set (mf_rules mf).
      mr_mode r = MAC_FILTER_MODE_ALL_USERS \<or> mac \<in> mac_members (mr_mac_list r))"
    unfolding fwx_match_mac_filter_rule_def find_None_iff using mac_rule_applies_iff by blast
  moreover have "r \<in> set (mf_rules mf) \<longleftrightarrow> (\<exists>i. fwx_find_mac_filter_rule i mf = Some r)" for r
    using mac_rules.search_rule [OF inv] mac_rules.search_Some by blast
  ultimately show ?thesis by blast
qed

text \<open>
  after a request replaced the address list of a rule for single users, an address is
  filtered exactly when it is in the list of the request (and there was memory for it) or
  another rule concerns it.
\<close>

theorem fwx_match_mac_filter_rule_replaced:
  assumes "mac_filter_inv mf" and "fwx_find_mac_filter_rule i mf = Some rule"
    and "mr_mode rule = MAC_FILTER_MODE_SINGLE_USER"
    and "cJSON_GetObjectItem data_obj (cstr ''rule_id'') = Some (JNumber i)"
    and "cJSON_GetObjectItem data_obj (cstr ''mode'') = None"
    and "cJSON_GetObjectItem data_obj (cstr ''mac_action'') = Some (JNumber 1)"
    and "cJSON_GetObjectItem data_obj (cstr ''mac_list'') = Some macs"
  shows "fwx_match_mac_filter_rule mac (snd (fwx_api_mod_mac_filter_rule kzm data_obj mf)) \<noteq> None
    \<longleftrightarrow> mac \<in> set (json_macs macs) \<and> kzm mac \<or>
      (\<exists>j r. j \<noteq> i \<and> fwx_find_mac_filter_rule j mf = Some r \<and>
        (mr_mode r = MAC_FILTER_MODE_ALL_USERS \<or> mac \<in> mac_members (mr_mac_list r)))"
proof -
  let ?mf = "snd (fwx_api_mod_mac_filter_rule kzm data_obj mf)"
  have inv: "mac_inv (mr_mac_list rule)"
    using mac_rules.search_good assms(1,2) by (auto simp: mac_filter_inv_store mac_rule_inv_def)
  have "?mf = mac_rule_write i (mod_mac_rule kzm data_obj) mf"
    using assms(2,4) by (simp add: fwx_api_mod_mac_filter_rule_def valueint_def)
  then have f: "fwx_find_mac_filter_rule j ?mf =
      (if j = i then Some (mod_mac_rule kzm data_obj rule) else fwx_find_mac_filter_rule j mf)" for j
    using assms(2) by (simp add: mac_rules.search_change mod_mac_rule_ok)
  have "mr_mode (mod_mac_rule kzm data_obj rule) \<noteq> MAC_FILTER_MODE_ALL_USERS"
    "mac_members (mr_mac_list (mod_mac_rule kzm data_obj rule)) = {mac \<in> set (json_macs macs). kzm mac}"
    using mod_mac_list_replace [OF inv assms(6,7)] assms(3,5)
    by (simp_all add: mod_mac_rule_def request_mode_def MAC_FILTER_MODE_ALL_USERS_def
        MAC_FILTER_MODE_SINGLE_USER_def)
  then show ?thesis
    unfolding match_mac_iff [OF mac_filter_inv_api(2) [OF assms(1)]] f by auto
qed

definition kid_rule :: mac_filter where
  "kid_rule = snd (fwx_add_mac_filter_rule True 3 MAC_FILTER_MODE_SINGLE_USER fwx_mac_filter_init)"

definition kid_request :: json where
  "kid_request = JObject [(cstr ''rule_id'', JNumber 3), (cstr ''mac_action'', JNumber 1),
     (cstr ''mac_list'', JArray [JString (cstr ''00:11:22:33:44:55'')])]"

lemma kid_request_items:
  "cJSON_GetObjectItem kid_request (cstr ''rule_id'') = Some (JNumber 3)"
  "cJSON_GetObjectItem kid_request (cstr ''mode'') = None"
  "cJSON_GetObjectItem kid_request (cstr ''mac_action'') = Some (JNumber 1)"
  "cJSON_GetObjectItem kid_request (cstr ''mac_list'') = Some (JArray [JString (cstr ''00:11:22:33:44:55'')])"
  "json_macs (JArray [JString (cstr ''00:11:22:33:44:55'')]) = [[0x00, 0x11, 0x22, 0x33, 0x44, 0x55]]"
  by code_simp+

theorem fwx_match_mac_filter_rule_replaced_witness:
  "fwx_match_mac_filter_rule [0x00, 0x11, 0x22, 0x33, 0x44, 0x55]
     (snd (fwx_api_mod_mac_filter_rule (\<lambda>_. True) kid_request kid_rule)) \<noteq> None \<and>
   fwx_match_mac_filter_rule [0x00, 0x11, 0x22, 0x33, 0x44, 0x56]
     (snd (fwx_api_mod_mac_filter_rule (\<lambda>_. True) kid_request kid_rule)) = None"
proof -
  have inv: "mac_filter_inv kid_rule" by (simp add: kid_rule_def mac_filter_inv_add mac_filter_inv_init)
  have f: "fwx_find_mac_filter_rule j kid_rule =
      (if j = 3 then Some (new_mac_rule MAC_FILTER_MODE_SINGLE_USER 3) else None)" for j
    by (simp add: kid_rule_def fwx_find_mac_filter_rule_def fwx_add_mac_filter_rule_def
        fwx_mac_filter_init_def MAX_MAC_FILTER_RULE_NUM_def new_mac_rule_def)
  have m: "mr_mode (new_mac_rule MAC_FILTER_MODE_SINGLE_USER 3) = MAC_FILTER_MODE_SINGLE_USER"
    by (simp add: new_mac_rule_def)
  have f3: "fwx_find_mac_filter_rule 3 kid_rule = Some (new_mac_rule MAC_FILTER_MODE_SINGLE_USER 3)"
    by (simp add: f)
  note * = fwx_match_mac_filter_rule_replaced [OF inv f3 m kid_request_items(1-4), of _ "\<lambda>_. True",
    unfolded kid_request_items(5)]
  show ?thesis using * [of "[0x00, 0x11, 0x22, 0x33, 0x44, 0x55]"] * [of "[0x00, 0x11, 0x22, 0x33, 0x44, 0x56]"]
    unfolding f by (simp split: if_splits)
qed

text \<open>
  the whitelist does not notice an address that it has. An address that two requests put on
  it stays whitelisted after the request that deletes it, which reports success.
\<close>

theorem fwx_api_del_mac_filter_whitelist_doubled:
  assumes "mac_filter_inv mf" and "cJSON_GetObjectItem add_obj (cstr ''mac_list'') = Some macs"
    and "json_macs macs = [mac]" and "kzm mac"
    and "cJSON_GetObjectItem del_obj (cstr ''mac'') = Some m" and "mac_str_to_bin (valuestring m) = Some mac"
    and "mf' = snd (fwx_api_add_mac_filter_whitelist kzm add_obj
           (snd (fwx_api_add_mac_filter_whitelist kzm add_obj mf)))"
  shows "fst (fwx_api_del_mac_filter_whitelist del_obj mf') \<and>
    fwx_match_mac_filter_whitelist mac (snd (fwx_api_del_mac_filter_whitelist del_obj mf'))"
proof -
  let ?w = "fwx_add_mac_node True mac (fwx_add_mac_node True mac (mf_whitelist mf))"
  have inv: "mac_inv (mf_whitelist mf)" using assms(1) by (simp add: mac_filter_inv_def)
  have w: "mf_whitelist mf' = ?w"
    using assms(2-4,7) by (simp add: fwx_api_add_mac_filter_whitelist_def)
  have "fwx_find_mac_node mac ?w = Some mac" using inv by (simp add: mac_table.look_add mac_inv_add)
  moreover have "fwx_find_mac_node mac (del_mac_node mac ?w) = Some mac"
    using mac_table.doubled_entry_survives [OF inv, of mac mac mac] by simp
  ultimately show ?thesis
    using assms(5,6) w by (simp add: fwx_api_del_mac_filter_whitelist_def fwx_match_mac_filter_whitelist_def)
qed

definition white_request :: json where
  "white_request = JObject [(cstr ''mac_list'', JArray [JString (cstr ''00:11:22:33:44:55'')])]"

definition unwhite_request :: json where
  "unwhite_request = JObject [(cstr ''mac'', JString (cstr ''00:11:22:33:44:55''))]"

theorem fwx_api_del_mac_filter_whitelist_doubled_witness:
  "fwx_match_mac_filter_whitelist [0x00, 0x11, 0x22, 0x33, 0x44, 0x55]
     (snd (fwx_api_del_mac_filter_whitelist unwhite_request
       (snd (fwx_api_add_mac_filter_whitelist (\<lambda>_. True) white_request
         (snd (fwx_api_add_mac_filter_whitelist (\<lambda>_. True) white_request fwx_mac_filter_init))))))"
proof -
  have 1: "cJSON_GetObjectItem white_request (cstr ''mac_list'') = Some (JArray [JString (cstr ''00:11:22:33:44:55'')])"
    by code_simp
  have 2: "cJSON_GetObjectItem unwhite_request (cstr ''mac'') = Some (JString (cstr ''00:11:22:33:44:55''))"
    by code_simp
  have 3: "mac_str_to_bin (valuestring (JString (cstr ''00:11:22:33:44:55''))) =
      Some [0x00, 0x11, 0x22, 0x33, 0x44, 0x55]" by code_simp
  show ?thesis
    using fwx_api_del_mac_filter_whitelist_doubled [OF mac_filter_inv_init 1 kid_request_items(5) _ 2 3 refl, of "\<lambda>_. True"]
    by simp
qed

end
