(* ===== verification/Fwx_Client.thy ===== *)
theory Fwx_Client
  imports Fwx_Dpi Fwx_Mac_Filter
begin

text \<open>
  The clients of the router (\<^verbatim>\<open>oaf/src/fwx_client.c\<close>): a table of 64 buckets hashed by the last byte
  of the MAC address, in each client a table of 32 buckets with one record per application it
  used, the traffic counters, the activity status that a timer updates every two seconds, the
  report that the timer sends every minute, and the list of clients whose use is not recorded.
  The table of clients and the table of visits are two more lookup-or-create tables.
\<close>

definition MAX_AF_CLIENT_HASH_SIZE :: nat where "MAX_AF_CLIENT_HASH_SIZE = 64"
definition MAX_VISIT_INFO_HASH_SIZE :: nat where "MAX_VISIT_INFO_HASH_SIZE = 32"
definition MAX_CLIENT_ACTIVE_TIME :: u64 where "MAX_CLIENT_ACTIVE_TIME = 180"
definition VISIT_INFO_TIMEOUT_SEC :: u64 where "VISIT_INFO_TIMEOUT_SEC = 300"
definition MAX_EXPIRED_VISIT_INFO_COUNT :: nat where "MAX_EXPIRED_VISIT_INFO_COUNT = 10"
definition MAX_RECORD_APP_NUM :: nat where "MAX_RECORD_APP_NUM = 64"
definition MIN_REPORT_URL_LEN :: nat where "MIN_REPORT_URL_LEN = 4"
definition MAX_REPORT_URL_LEN :: nat where "MAX_REPORT_URL_LEN = 64"

record app_visit_info =
  vi_app_id :: u32
  vi_total_num :: u32
  vi_drop_num :: u32
  vi_latest_time :: u64
  vi_latest_action :: u32
  vi_conn_count :: u32
  vi_is_http :: bool

record flow_stat =
  up_bytes :: u64
  down_bytes :: u64
  up_pkts :: u64
  down_pkts :: u64

record flow_rate =
  up_rate :: u32
  down_rate :: u32
  pkt_up_rate :: u32
  pkt_down_rate :: u32

record visiting_info =
  visiting_app :: int
  app_time :: int
  visiting_url :: bytes
  url_time :: int

record af_client =
  cl_mac :: mac
  cl_ip :: u32
  cl_ipv6 :: bytes
  cl_create_jiffies :: u64
  cl_update_jiffies :: u64
  cl_flow :: flow_stat
  cl_last_flow :: flow_stat
  cl_period_flow :: flow_stat
  cl_rate :: flow_rate
  cl_visit_app_num :: u32
  cl_active_time :: int
  cl_inactive_time :: int
  cl_active :: bool
  cl_record_whitelist :: bool
  cl_visiting :: visiting_info
  cl_report_count :: int
  cl_timer_count :: u32
  cl_visit_info :: "app_visit_info buckets"

record clients =
  cli_table :: "af_client buckets"
  cli_whitelist :: mac_config
  cli_total :: u32

section \<open>The clients\<close>

definition flow_stat_zero :: flow_stat where
  "flow_stat_zero = \<lparr>up_bytes = 0, down_bytes = 0, up_pkts = 0, down_pkts = 0\<rparr>"

definition get_mac_hash_code :: "mac \<Rightarrow> nat" where
  "get_mac_hash_code mac = unat (mac ! 5 AND 63)"

definition nf_client_list_init :: clients where
  "nf_client_list_init = \<lparr>cli_table = bt_empty MAX_AF_CLIENT_HASH_SIZE,
     cli_whitelist = fwx_mac_config_init, cli_total = 0\<rparr>"

definition nf_client_list_clear :: "clients \<Rightarrow> clients" where
  "nf_client_list_clear s =
     s\<lparr>cli_table := map (\<lambda>_. []) (cli_table s), cli_whitelist := fwx_flush_mac_list (cli_whitelist s)\<rparr>"

definition fwx_match_record_whitelist :: "mac_config \<Rightarrow> mac \<Rightarrow> bool" where
  "fwx_match_record_whitelist whitelist mac \<longleftrightarrow> fwx_find_mac_node mac whitelist \<noteq> None"

definition find_af_client :: "mac \<Rightarrow> clients \<Rightarrow> af_client option" where
  "find_af_client mac s = bt_find (get_mac_hash_code mac) (\<lambda>node. cl_mac node = mac) (cli_table s)"

definition new_client :: "u64 \<Rightarrow> bool \<Rightarrow> mac \<Rightarrow> af_client" where
  "new_client jiffies whitelisted mac = \<lparr>cl_mac = mac, cl_ip = 0, cl_ipv6 = replicate 16 0,
     cl_create_jiffies = jiffies, cl_update_jiffies = jiffies, cl_flow = flow_stat_zero,
     cl_last_flow = flow_stat_zero, cl_period_flow = flow_stat_zero,
     cl_rate = \<lparr>up_rate = 0, down_rate = 0, pkt_up_rate = 0, pkt_down_rate = 0\<rparr>,
     cl_visit_app_num = 0, cl_active_time = 0, cl_inactive_time = 0, cl_active = False,
     cl_record_whitelist = whitelisted,
     cl_visiting = \<lparr>visiting_app = 0, app_time = 0, visiting_url = [], url_time = 0\<rparr>,
     cl_report_count = 0, cl_timer_count = 0, cl_visit_info = bt_empty MAX_VISIT_INFO_HASH_SIZE\<rparr>"

definition link_client :: "af_client \<Rightarrow> clients \<Rightarrow> clients" where
  "link_client node s = s\<lparr>cli_table := bt_add (get_mac_hash_code (cl_mac node)) node (cli_table s),
     cli_total := cli_total s + 1\<rparr>"

definition nf_client_add :: "bool \<Rightarrow> u64 \<Rightarrow> mac \<Rightarrow> clients \<Rightarrow> af_client option \<times> clients" where
  "nf_client_add ok jiffies mac s =
     (if \<not> ok then (None, s)
      else let node = new_client jiffies (fwx_match_record_whitelist (cli_whitelist s) mac) mac
           in (Some node, link_client node s))"

definition find_and_add_af_client :: "bool \<Rightarrow> u64 \<Rightarrow> mac \<Rightarrow> clients \<Rightarrow> af_client option \<times> clients" where
  "find_and_add_af_client ok jiffies mac s = (case find_af_client mac s of
      Some node \<Rightarrow> (Some node, s) | None \<Rightarrow> nf_client_add ok jiffies mac s)"

definition find_af_client_by_ip :: "u32 \<Rightarrow> clients \<Rightarrow> af_client option" where
  "find_af_client_by_ip ip s = find (\<lambda>node. cl_ip node = ip) (concat (cli_table s))"

definition find_af_client_by_ipv6 :: "bytes \<Rightarrow> clients \<Rightarrow> af_client option" where
  "find_af_client_by_ipv6 ipv6 s = find (\<lambda>node. cl_ipv6 node = ipv6) (concat (cli_table s))"

text \<open>A write through the pointer to the client of an address.\<close>

definition client_write :: "mac \<Rightarrow> (af_client \<Rightarrow> af_client) \<Rightarrow> clients \<Rightarrow> clients" where
  "client_write mac f s =
     s\<lparr>cli_table := bt_update (get_mac_hash_code mac) (\<lambda>node. cl_mac node = mac) f (cli_table s)\<rparr>"

definition all_clients :: "(af_client \<Rightarrow> af_client) \<Rightarrow> clients \<Rightarrow> clients" where
  "all_clients f s = s\<lparr>cli_table := map (map f) (cli_table s)\<rparr>"

definition af_client_list_reset_report_num :: "clients \<Rightarrow> clients" where
  "af_client_list_reset_report_num = all_clients (\<lambda>node. node\<lparr>cl_report_count := 0\<rparr>)"

text \<open>At most one client per call is taken out, the first one in the order of the table.\<close>

definition client_expired :: "u64 \<Rightarrow> u64 \<Rightarrow> af_client \<Rightarrow> bool" where
  "client_expired hz jiffies node \<longleftrightarrow> jiffies > cl_update_jiffies node + MAX_CLIENT_ACTIVE_TIME * hz"

fun remove_first_bucket :: "('e \<Rightarrow> bool) \<Rightarrow> 'e buckets \<Rightarrow> 'e buckets" where
  "remove_first_bucket P [] = []"
| "remove_first_bucket P (b # bs) =
     (if list_ex P b then remove_first P b # bs else b # remove_first_bucket P bs)"

definition check_client_expire :: "u64 \<Rightarrow> u64 \<Rightarrow> clients \<Rightarrow> clients" where
  "check_client_expire hz jiffies s =
     s\<lparr>cli_table := remove_first_bucket (client_expired hz jiffies) (cli_table s)\<rparr>"

section \<open>The clients that are not recorded\<close>

definition fwx_sync_record_whitelist_clients :: "clients \<Rightarrow> clients" where
  "fwx_sync_record_whitelist_clients s =
     all_clients (\<lambda>node. node\<lparr>cl_record_whitelist :=
       fwx_match_record_whitelist (cli_whitelist s) (cl_mac node)\<rparr>) s"

definition strim :: "bytes \<Rightarrow> bytes" where
  "strim s = rev (dropWhile is_space (rev (dropWhile is_space s)))"

definition strsep_tokens :: "u8 \<Rightarrow> bytes \<Rightarrow> bytes list" where
  "strsep_tokens sep s = (case split_on sep s of (fs, r) \<Rightarrow> fs @ [r])"

definition set_whitelist_token :: "(mac \<Rightarrow> bool) \<Rightarrow> bytes \<Rightarrow> mac_config \<Rightarrow> mac_config" where
  "set_whitelist_token kzm tok config =
     (if strim tok = [] then config
      else (case mac_str_to_bin (Some (strim tok)) of
          None \<Rightarrow> config
        | Some mac \<Rightarrow> if fwx_find_mac_node mac config \<noteq> None then config
                      else fwx_add_mac_node (kzm mac) mac config))"

text \<open>The text is copied into 1024 bytes with \<^verbatim>\<open>strcpy\<close>.\<close>

definition fwx_set_record_whitelist :: "(mac \<Rightarrow> bool) \<Rightarrow> bytes \<Rightarrow> clients \<Rightarrow> clients ub_result" where
  "fwx_set_record_whitelist kzm mac_list_str s =
     ub_bind (copy_field ''mac_buf'' 1024 mac_list_str) (\<lambda>mac_buf.
       Inr (fwx_sync_record_whitelist_clients
         (s\<lparr>cli_whitelist := fold (set_whitelist_token kzm) (strsep_tokens 0x2C mac_buf)
              (fwx_flush_mac_list (cli_whitelist s))\<rparr>)))"

definition fwx_api_add_record_whitelist :: "(mac \<Rightarrow> bool) \<Rightarrow> json \<Rightarrow> clients \<Rightarrow> bool \<times> clients" where
  "fwx_api_add_record_whitelist kzm data_obj s =
     (case cJSON_GetObjectItem data_obj (cstr ''mac_list'') of
        None \<Rightarrow> (False, s)
      | Some macs \<Rightarrow> (True, fwx_sync_record_whitelist_clients
          (s\<lparr>cli_whitelist := add_macs kzm (json_macs macs) (cli_whitelist s)\<rparr>)))"

definition fwx_api_del_record_whitelist :: "json \<Rightarrow> clients \<Rightarrow> bool \<times> clients" where
  "fwx_api_del_record_whitelist data_obj s =
     (case cJSON_GetObjectItem data_obj (cstr ''mac'') of
        None \<Rightarrow> (False, s)
      | Some m \<Rightarrow> (case mac_str_to_bin (valuestring m) of
            None \<Rightarrow> (False, s)
          | Some mac \<Rightarrow> (case fwx_find_mac_node mac (cli_whitelist s) of
                None \<Rightarrow> (False, s)
              | Some node \<Rightarrow> (True, fwx_sync_record_whitelist_clients
                  (s\<lparr>cli_whitelist := del_mac_node mac (cli_whitelist s)\<rparr>)))))"

definition fwx_api_flush_record_whitelist :: "clients \<Rightarrow> clients" where
  "fwx_api_flush_record_whitelist s = fwx_sync_record_whitelist_clients
     (s\<lparr>cli_whitelist := fwx_flush_mac_list (cli_whitelist s)\<rparr>)"

section \<open>The visits of a client\<close>

definition get_app_id_hash_code :: "u32 \<Rightarrow> nat" where
  "get_app_id_hash_code app_id = unat (app_id AND 31)"

definition find_visit_info :: "u32 \<Rightarrow> app_visit_info buckets \<Rightarrow> app_visit_info option" where
  "find_visit_info app_id t = bt_find (get_app_id_hash_code app_id) (\<lambda>info. vi_app_id info = app_id) t"

definition new_visit :: "u32 \<Rightarrow> app_visit_info" where
  "new_visit app_id = \<lparr>vi_app_id = app_id, vi_total_num = 0, vi_drop_num = 0, vi_latest_time = 0,
     vi_latest_action = 0, vi_conn_count = 0, vi_is_http = False\<rparr>"

definition get_or_create_visit_info ::
  "bool \<Rightarrow> u32 \<Rightarrow> app_visit_info buckets \<Rightarrow> app_visit_info option \<times> app_visit_info buckets" where
  "get_or_create_visit_info ok app_id t = (case find_visit_info app_id t of
      Some info \<Rightarrow> (Some info, t)
    | None \<Rightarrow> if \<not> ok then (None, t)
              else (Some (new_visit app_id), bt_add (get_app_id_hash_code app_id) (new_visit app_id) t))"

definition visit_write ::
  "u32 \<Rightarrow> (app_visit_info \<Rightarrow> app_visit_info) \<Rightarrow> app_visit_info buckets \<Rightarrow> app_visit_info buckets" where
  "visit_write app_id f t = bt_update (get_app_id_hash_code app_id) (\<lambda>info. vi_app_id info = app_id) f t"

text \<open>
  The ages are 64-bit differences of a 32-bit time and a 64-bit one: a record from the future is
  very old.
\<close>

definition visit_age :: "u32 \<Rightarrow> app_visit_info \<Rightarrow> u64" where
  "visit_age now info = ucast now - vi_latest_time info"

fun flush_visits :: "u32 \<Rightarrow> nat \<Rightarrow> app_visit_info list \<Rightarrow> app_visit_info list \<times> nat" where
  "flush_visits now count [] = ([], count)"
| "flush_visits now count (info # infos) =
     (if count \<ge> MAX_EXPIRED_VISIT_INFO_COUNT then (info # infos, count)
      else if visit_age now info > (if vi_total_num info > 3 then 180 else 60)
      then flush_visits now (Suc count) infos
      else (case flush_visits now count infos of (kept, count') \<Rightarrow> (info # kept, count')))"

fun flush_visit_buckets :: "u32 \<Rightarrow> nat \<Rightarrow> app_visit_info buckets \<Rightarrow> app_visit_info buckets" where
  "flush_visit_buckets now count [] = []"
| "flush_visit_buckets now count (b # bs) = (case flush_visits now count b of
      (b', count') \<Rightarrow> b' # flush_visit_buckets now count' bs)"

definition flush_expired_visit_info :: "u32 \<Rightarrow> af_client \<Rightarrow> af_client" where
  "flush_expired_visit_info now node = node\<lparr>cl_visit_info := flush_visit_buckets now 0 (cl_visit_info node)\<rparr>"

definition check_expired_visit_info :: "u32 \<Rightarrow> af_client \<Rightarrow> af_client" where
  "check_expired_visit_info now node = node\<lparr>cl_visit_info :=
     map (filter (\<lambda>info. \<not> visit_age now info > VISIT_INFO_TIMEOUT_SEC)) (cl_visit_info node)\<rparr>"

text \<open>The record of one packet; \<open>now\<close> is \<^verbatim>\<open>af_get_timestamp_sec()\<close>.\<close>

definition visit_update :: "u32 \<Rightarrow> bool \<Rightarrow> bool \<Rightarrow> bool \<Rightarrow> app_visit_info \<Rightarrow> app_visit_info" where
  "visit_update now drp from_conntrack is_http info =
     (let info = info\<lparr>vi_total_num := vi_total_num info + 1,
            vi_drop_num := (if drp then vi_drop_num info + 1 else vi_drop_num info),
            vi_latest_time := ucast now, vi_latest_action := of_bool drp\<rparr>
      in if \<not> from_conntrack
         then info\<lparr>vi_conn_count := vi_conn_count info + 1, vi_is_http := is_http\<rparr> else info)"

definition af_update_client_app_info ::
  "bool \<Rightarrow> u32 \<Rightarrow> int \<Rightarrow> bool \<Rightarrow> bool \<Rightarrow> bool \<Rightarrow> bool \<Rightarrow> af_client \<Rightarrow> bool \<times> af_client" where
  "af_update_client_app_info ok now app_id drp from_conntrack is_http update_visiting node =
     (if app_id \<le> 0 then (False, node)
      else let k = word_of_int app_id in
      (case get_or_create_visit_info ok k (cl_visit_info node) of
         (None, t) \<Rightarrow> (False, node\<lparr>cl_visit_info := t\<rparr>)
       | (Some info, t) \<Rightarrow>
           let info' = visit_update now drp from_conntrack is_http info;
               node = node\<lparr>cl_visit_info := visit_write k (visit_update now drp from_conntrack is_http) t\<rparr>
           in (True,
             if update_visiting \<and> (vi_is_http info' \<and> vi_conn_count info' \<ge> 3 \<or> \<not> vi_is_http info')
             then node\<lparr>cl_visiting := (cl_visiting node)\<lparr>app_time := sint now, visiting_app := app_id\<rparr>\<rparr>
             else node)))"

section \<open>The tables\<close>

definition visits_inv :: "app_visit_info buckets \<Rightarrow> bool" where
  "visits_inv t \<longleftrightarrow> bt_inv get_app_id_hash_code vi_app_id MAX_VISIT_INFO_HASH_SIZE t \<and> bt_unique vi_app_id t"

definition visits_placed :: "app_visit_info buckets \<Rightarrow> bool" where
  "visits_placed t \<longleftrightarrow> bt_inv get_app_id_hash_code vi_app_id MAX_VISIT_INFO_HASH_SIZE t"

definition clients_placed :: "clients \<Rightarrow> bool" where
  "clients_placed s \<longleftrightarrow> bt_inv get_mac_hash_code cl_mac MAX_AF_CLIENT_HASH_SIZE (cli_table s)"

lemma and_mask_lt: "unat (x AND 63 :: u8) < 64" "unat (y AND 31 :: u32) < 32"
proof -
  have "x AND 63 \<le> 63" "y AND 31 \<le> 31" by (rule word_and_le1)+
  then show "unat (x AND 63) < 64" "unat (y AND 31) < 32" by (simp_all add: word_le_nat_alt)
qed

lemma client_hash_lt [simp]:
  "get_mac_hash_code mac < MAX_AF_CLIENT_HASH_SIZE" "get_app_id_hash_code app_id < MAX_VISIT_INFO_HASH_SIZE"
  by (simp_all add: get_mac_hash_code_def get_app_id_hash_code_def MAX_AF_CLIENT_HASH_SIZE_def
      MAX_VISIT_INFO_HASH_SIZE_def and_mask_lt)

interpretation visit_table: lookup_or_create "bt_empty MAX_VISIT_INFO_HASH_SIZE"
    "\<lambda>info. bt_add (get_app_id_hash_code (vi_app_id info)) info" find_visit_info vi_app_id visits_placed
    new_visit "get_or_create_visit_info True"
proof
  fix t :: "app_visit_info buckets" and e :: app_visit_info and k :: u32
  show "visits_placed (bt_empty MAX_VISIT_INFO_HASH_SIZE)" by (simp add: visits_placed_def bucket_intros)
  show "visits_placed t \<Longrightarrow> visits_placed (bt_add (get_app_id_hash_code (vi_app_id e)) e t)"
    by (simp add: visits_placed_def bucket_intros)
  show "find_visit_info k (bt_empty MAX_VISIT_INFO_HASH_SIZE) = None"
    by (simp add: find_visit_info_def bucket_simps)
  show "visits_placed t \<Longrightarrow> find_visit_info k (bt_add (get_app_id_hash_code (vi_app_id e)) e t) =
      (if k = vi_app_id e then Some e else find_visit_info k t)"
    by (auto simp: find_visit_info_def visits_placed_def bucket_simps)
  show "find_visit_info k t = Some e \<Longrightarrow> vi_app_id e = k"
    unfolding find_visit_info_def by (drule bt_find_Some [where key = vi_app_id]) simp
  show "vi_app_id (new_visit k) = k" by (simp add: new_visit_def)
  show "find_visit_info k t = Some e \<Longrightarrow> get_or_create_visit_info True k t = (Some e, t)"
    by (simp add: get_or_create_visit_info_def)
  show "find_visit_info k t = None \<Longrightarrow> get_or_create_visit_info True k t =
      (Some (new_visit k), bt_add (get_app_id_hash_code (vi_app_id (new_visit k))) (new_visit k) t)"
    by (simp add: get_or_create_visit_info_def new_visit_def)
qed

text \<open>The new client depends on the whitelist, so the interface is for a whitelist at a time.\<close>

interpretation client_table: keyed_table nf_client_list_init link_client find_af_client cl_mac clients_placed
proof
  fix s :: clients and e :: af_client and k :: mac
  show "clients_placed nf_client_list_init"
    by (simp add: clients_placed_def nf_client_list_init_def bucket_intros)
  show "clients_placed s \<Longrightarrow> clients_placed (link_client e s)"
    by (simp add: clients_placed_def link_client_def bucket_intros)
  show "find_af_client k nf_client_list_init = None"
    by (simp add: find_af_client_def nf_client_list_init_def bucket_simps)
  show "clients_placed s \<Longrightarrow> find_af_client k (link_client e s) = (if k = cl_mac e then Some e else find_af_client k s)"
    by (auto simp: find_af_client_def clients_placed_def link_client_def bucket_simps)
  show "find_af_client k s = Some e \<Longrightarrow> cl_mac e = k"
    unfolding find_af_client_def by (drule bt_find_Some [where key = cl_mac]) simp
qed

text \<open>What holds of the table at all times.\<close>

definition client_inv :: "mac_config \<Rightarrow> af_client \<Rightarrow> bool" where
  "client_inv whitelist node \<longleftrightarrow> visits_inv (cl_visit_info node) \<and>
     (cl_record_whitelist node \<longleftrightarrow> cl_mac node \<in> mac_members whitelist)"

definition clients_inv :: "clients \<Rightarrow> bool" where
  "clients_inv s \<longleftrightarrow> clients_placed s \<and> bt_unique cl_mac (cli_table s) \<and> mac_inv (cli_whitelist s) \<and>
     (\<forall>node\<in>set (concat (cli_table s)). client_inv (cli_whitelist s) node)"

lemma visits_inv_ops:
  "visits_inv (bt_empty MAX_VISIT_INFO_HASH_SIZE)"
  "visits_inv t \<Longrightarrow> visits_inv (snd (get_or_create_visit_info ok k t))"
  "visits_inv t \<Longrightarrow> visits_inv (visit_write k (visit_update now drp conntrack http) t)"
  by (auto simp: visits_inv_def get_or_create_visit_info_def find_visit_info_def visit_write_def new_visit_def
      visit_update_def Let_def bucket_intros split: option.split)

lemma visits_inv_map:
  assumes "visits_inv t" and "\<And>b. set (map vi_app_id (f b)) \<subseteq> set (map vi_app_id b)"
    and "\<And>b. distinct (map vi_app_id b) \<Longrightarrow> distinct (map vi_app_id (f b))"
  shows "visits_inv (map f t)"
proof -
  have "get_app_id_hash_code (vi_app_id e) = i" if "i < MAX_VISIT_INFO_HASH_SIZE" "e \<in> set (f (t ! i))" for i e
    using assms(1) assms(2) [of "t ! i"] that unfolding visits_inv_def bt_inv_def by (force simp: image_subset_iff)
  then show ?thesis using assms(1,3) by (simp add: visits_inv_def bt_inv_def bt_unique_def)
qed

lemma visits_inv_filter: "visits_inv t \<Longrightarrow> visits_inv (map (filter P) t)"
  by (rule visits_inv_map) (auto simp: distinct_map_filter)

lemma set_bt_update:
  "e \<in> set (concat (bt_update h P f t)) \<Longrightarrow> e \<in> set (concat t) \<or> (\<exists>x\<in>set (concat t). P x \<and> e = f x)"
proof (cases "h < length t")
  case True
  assume "e \<in> set (concat (bt_update h P f t))"
  then obtain i where i: "i < length t" "e \<in> set (bt_update h P f t ! i)"
    unfolding bt_entry_iff by (auto simp: length_bt_ops)
  show ?thesis
  proof (cases "i = h")
    case True
    then have "e \<in> set (update_first P f (t ! h))" using i by (simp add: bt_update_def)
    from set_update_first [OF this] show ?thesis
      using True i(1) nth_mem [of h t] by auto
  next
    case False
    then have "e \<in> set (t ! i)" using i by (simp add: bt_update_def)
    then show ?thesis using i(1) nth_mem by fastforce
  qed
qed (simp add: bt_update_def list_update_beyond)

lemma set_bt_add: "h < length t \<Longrightarrow> set (concat (bt_add h e t)) = insert e (set (concat t))"
proof -
  assume h: "h < length t"
  have "concat t = concat (take h t) @ t ! h @ concat (drop (Suc h) t)"
    using concat_list_update [OF h, of "t ! h"] by simp
  then have "set (concat t) = set (concat (take h t)) \<union> set (t ! h) \<union> set (concat (drop (Suc h) t))"
    by (metis set_append Un_assoc)
  then show ?thesis by (auto simp: bt_add_def concat_list_update [OF h])
qed

lemma clients_inv_init: "clients_inv nf_client_list_init"
  using client_table.inv_empty bt_unique_empty [of cl_mac MAX_AF_CLIENT_HASH_SIZE]
  by (simp add: clients_inv_def nf_client_list_init_def mac_inv_init) (simp add: bt_empty_def)

lemma clients_inv_add:
  assumes "clients_inv s" and "find_af_client mac s = None"
  shows "clients_inv (snd (nf_client_add ok jiffies mac s))"
proof (cases ok)
  case True
  let ?n = "new_client jiffies (fwx_match_record_whitelist (cli_whitelist s) mac) mac"
  have len: "length (cli_table s) = MAX_AF_CLIENT_HASH_SIZE"
    using assms(1) bt_inv_length by (auto simp: clients_inv_def clients_placed_def)
  have mac: "cl_mac ?n = mac" by (simp add: new_client_def)
  have "client_inv (cli_whitelist s) ?n"
    by (simp add: client_inv_def new_client_def visits_inv_ops fwx_match_record_whitelist_def mac_members_def)
  moreover have "clients_placed (link_client ?n s)"
    using assms(1) client_table.inv_add by (simp add: clients_inv_def)
  moreover have "bt_unique cl_mac (bt_add (get_mac_hash_code mac) ?n (cli_table s))"
    using assms mac by (intro bt_unique_add) (simp_all add: clients_inv_def find_af_client_def)
  ultimately show ?thesis
    using True assms(1) len mac
    by (simp del: set_concat add: nf_client_add_def Let_def clients_inv_def link_client_def set_bt_add)
qed (use assms in \<open>simp add: nf_client_add_def\<close>)

lemma clients_inv_find_add: "clients_inv s \<Longrightarrow> clients_inv (snd (find_and_add_af_client ok jiffies mac s))"
  by (cases "find_af_client mac s") (simp_all add: find_and_add_af_client_def clients_inv_add)

lemma clients_inv_write:
  assumes "clients_inv s" and "\<And>node. cl_mac (f node) = cl_mac node"
    and "\<And>node. client_inv (cli_whitelist s) node \<Longrightarrow> client_inv (cli_whitelist s) (f node)"
  shows "clients_inv (client_write mac f s)"
proof -
  let ?t = "bt_update (get_mac_hash_code mac) (\<lambda>node. cl_mac node = mac) f (cli_table s)"
  have "client_inv (cli_whitelist s) node" if "node \<in> set (concat ?t)" for node
    using set_bt_update [OF that] assms(1,3) by (auto simp: clients_inv_def)
  moreover have "clients_placed (client_write mac f s)"
    using assms(1,2) by (simp add: clients_inv_def clients_placed_def client_write_def bucket_intros)
  moreover have "bt_unique cl_mac ?t" using assms(1,2) by (simp add: clients_inv_def bt_unique_update)
  ultimately show ?thesis using assms(1) unfolding clients_inv_def by (simp add: client_write_def)
qed

lemma update_first_cong: "(\<And>x. P x \<Longrightarrow> f x = g x) \<Longrightarrow> update_first P f xs = update_first P g xs"
  by (induction xs) auto

lemma clients_inv_write_on:
  assumes "clients_inv s" and "\<And>node. cl_mac node = mac \<Longrightarrow> cl_mac (f node) = mac"
    and "\<And>node. cl_mac node = mac \<Longrightarrow> client_inv (cli_whitelist s) node \<Longrightarrow> client_inv (cli_whitelist s) (f node)"
  shows "clients_inv (client_write mac f s)"
proof -
  let ?g = "\<lambda>node. if cl_mac node = mac then f node else node"
  have "client_write mac f s = client_write mac ?g s"
    unfolding client_write_def bt_update_def by (simp cong: update_first_cong)
  moreover have "clients_inv (client_write mac ?g s)"
    using assms by (intro clients_inv_write) auto
  ultimately show ?thesis by simp
qed

lemma clients_inv_all:
  assumes "clients_placed s" and "bt_unique cl_mac (cli_table s)" and "mac_inv (cli_whitelist s)"
    and "\<And>node. cl_mac (f node) = cl_mac node"
    and "\<And>node. node \<in> set (concat (cli_table s)) \<Longrightarrow> client_inv (cli_whitelist s) (f node)"
  shows "clients_inv (all_clients f s)"
proof -
  have "map cl_mac (map f b) = map cl_mac b" for b using assms(4) by simp
  then have "bt_unique cl_mac (map (map f) (cli_table s))" using assms(2) by (simp add: bt_unique_def o_def assms(4))
  moreover have "clients_placed (all_clients f s)"
    using assms(1,4) by (auto simp: clients_placed_def all_clients_def bt_inv_def)
  ultimately show ?thesis using assms(3,5) by (auto simp: clients_inv_def all_clients_def)
qed

lemma clients_inv_reset: "clients_inv s \<Longrightarrow> clients_inv (af_client_list_reset_report_num s)"
  unfolding af_client_list_reset_report_num_def
  by (rule clients_inv_all) (auto simp: clients_inv_def client_inv_def)

lemma clients_inv_sync:
  assumes "clients_inv s" and "mac_inv whitelist"
  shows "clients_inv (fwx_sync_record_whitelist_clients (s\<lparr>cli_whitelist := whitelist\<rparr>))"
  unfolding fwx_sync_record_whitelist_clients_def
  using assms by (intro clients_inv_all)
    (auto simp: clients_inv_def clients_placed_def client_inv_def fwx_match_record_whitelist_def mac_members_def)

lemma set_remove_first_bucket: "set (concat (remove_first_bucket P t)) \<subseteq> set (concat t)"
  by (induction t) (auto dest: set_remove_first [THEN subsetD])

lemma nth_remove_first_bucket:
  "length (remove_first_bucket P t) = length t \<and>
   (i < length t \<longrightarrow> remove_first_bucket P t ! i = t ! i \<or> remove_first_bucket P t ! i = remove_first P (t ! i))"
proof (induction t arbitrary: i)
  case (Cons b t)
  then show ?case by (cases i) auto
qed simp

lemma clients_inv_expire: "clients_inv s \<Longrightarrow> clients_inv (check_client_expire hz jiffies s)"
proof -
  assume s: "clients_inv s"
  let ?t = "remove_first_bucket (client_expired hz jiffies) (cli_table s)"
  have n: "length ?t = length (cli_table s)" "set (?t ! i) \<subseteq> set (cli_table s ! i)"
    "distinct (map cl_mac (cli_table s ! i)) \<longrightarrow> distinct (map cl_mac (?t ! i))"
    if "i < length (cli_table s)" for i
    using nth_remove_first_bucket [of "client_expired hz jiffies" "cli_table s" i] that
      set_remove_first [of "client_expired hz jiffies" "cli_table s ! i"]
    by (auto simp: distinct_map_remove_first)
  have len: "length ?t = length (cli_table s)" using nth_remove_first_bucket by blast
  have "clients_placed (check_client_expire hz jiffies s)"
    using s n len by (fastforce simp: clients_inv_def clients_placed_def check_client_expire_def bt_inv_def)
  moreover have "bt_unique cl_mac ?t" using s n len by (simp add: clients_inv_def bt_unique_nth)
  ultimately show ?thesis
    using s set_remove_first_bucket [of "client_expired hz jiffies" "cli_table s"]
    by (auto simp: clients_inv_def check_client_expire_def)
qed

lemma mac_inv_set_tokens: "mac_inv c \<Longrightarrow> mac_inv (fold (set_whitelist_token kzm) ts c)"
  by (induction ts arbitrary: c) (auto simp: set_whitelist_token_def mac_inv_add split: option.split)

lemma clients_inv_set:
  "clients_inv s \<Longrightarrow> fwx_set_record_whitelist kzm str s = Inr s' \<Longrightarrow> clients_inv s'"
  by (auto simp: fwx_set_record_whitelist_def ub_bind_Inr intro!: clients_inv_sync mac_inv_set_tokens mac_inv_flush)
     (simp add: clients_inv_def)

lemma clients_inv_api:
  assumes "clients_inv s"
  shows "clients_inv (snd (fwx_api_add_record_whitelist kzm data_obj s))"
    and "clients_inv (snd (fwx_api_del_record_whitelist data_obj s))"
    and "clients_inv (fwx_api_flush_record_whitelist s)"
proof -
  have "mac_inv (cli_whitelist s)" using assms by (simp add: clients_inv_def)
  then show "clients_inv (snd (fwx_api_add_record_whitelist kzm data_obj s))"
    "clients_inv (snd (fwx_api_del_record_whitelist data_obj s))"
    "clients_inv (fwx_api_flush_record_whitelist s)"
    using assms clients_inv_sync [OF assms]
    by (simp_all add: fwx_api_add_record_whitelist_def fwx_api_del_record_whitelist_def
        fwx_api_flush_record_whitelist_def mac_inv_add_macs mac_inv_del mac_inv_flush split: option.split)
qed

lemma client_inv_app_info:
  "client_inv w node \<Longrightarrow> client_inv w (snd (af_update_client_app_info ok now app_id drp conntrack http visiting node))"
  "cl_mac (snd (af_update_client_app_info ok now app_id drp conntrack http visiting node)) = cl_mac node"
proof -
  let ?r = "get_or_create_visit_info ok (word_of_int app_id) (cl_visit_info node)"
  show "client_inv w (snd (af_update_client_app_info ok now app_id drp conntrack http visiting node))"
    if "client_inv w node"
  proof -
    have "visits_inv (snd ?r)" using that visits_inv_ops(2) by (simp add: client_inv_def)
    moreover from this have "visits_inv (visit_write k (visit_update now drp conntrack http) (snd ?r))" for k
      by (rule visits_inv_ops(3))
    ultimately show ?thesis using that
      by (cases ?r) (auto simp: af_update_client_app_info_def Let_def client_inv_def split: option.split)
  qed
  show "cl_mac (snd (af_update_client_app_info ok now app_id drp conntrack http visiting node)) = cl_mac node"
    by (cases ?r) (auto simp: af_update_client_app_info_def Let_def split: option.split)
qed

end
