(* ===== verification/Fwx_Active.thy ===== *)
theory Fwx_Active
  imports Fwx_Match Fwx_Client
begin

text \<open>
  What the clients are doing now (\<^verbatim>\<open>oaf/src/fwx_main.c\<close>): the lists of the ten applications and
  the ten hosts used last, each a list that is searched from its head, whose entry moves to the
  front when it is used and whose last entry is given up when an eleventh comes; and the URL that a
  client visits. Both lists keep the same contract, the locale \<open>lru\<close>.
\<close>

definition MAX_ACTIVE_APP_LIST_SIZE :: nat where "MAX_ACTIVE_APP_LIST_SIZE = 10"
definition MAX_ACTIVE_HOST_LIST_SIZE :: nat where "MAX_ACTIVE_HOST_LIST_SIZE = 10"

record active_app_node =
  aa_app_id :: u32
  aa_mac :: mac
  aa_src_ip :: u32
  aa_dst_ip :: u32
  aa_src_ip6 :: bytes
  aa_dst_ip6 :: bytes
  aa_src_port :: u16
  aa_dst_port :: u16
  aa_l4_protocol :: u8
  aa_drop :: bool
  aa_proto_type :: nat
  aa_host :: bytes
  aa_uri :: bytes
  aa_update_time :: u32

record active_host_node =
  ah_host :: bytes
  ah_mac :: mac
  ah_src_ip :: u32
  ah_dst_ip :: u32
  ah_src_ip6 :: bytes
  ah_dst_ip6 :: bytes
  ah_src_port :: u16
  ah_dst_port :: u16
  ah_l4_protocol :: u8
  ah_drop :: bool
  ah_proto_type :: nat
  ah_update_time :: u32

section \<open>Lists of what was used last\<close>

text \<open>
  The shape of both functions: \<open>refresh\<close> is what is written into an entry that is found, \<open>created\<close>
  the new entry if there is memory for it.
\<close>

definition lru_touch :: "('e \<Rightarrow> bool) \<Rightarrow> ('e \<Rightarrow> 'e) \<Rightarrow> 'e option \<Rightarrow> nat \<Rightarrow> 'e list \<Rightarrow> 'e list" where
  "lru_touch P refresh created limit l = (case find P l of
      Some node \<Rightarrow> refresh node # remove_first P l
    | None \<Rightarrow>
        let l = (if length l \<ge> limit \<and> l \<noteq> [] then butlast l else l)
        in (case created of None \<Rightarrow> l | Some node \<Rightarrow> node # l))"

text \<open>The elements of a list in the order in which they occur first.\<close>

fun firsts :: "'k list \<Rightarrow> 'k list" where
  "firsts [] = []"
| "firsts (k # ks) = k # filter (\<lambda>x. x \<noteq> k) (firsts ks)"

lemma firsts_props: "distinct (firsts ks) \<and> set (firsts ks) = set ks"
  by (induction ks) auto

lemma take_filter_found:
  assumes "distinct fs" and "x \<in> set (take (Suc n) fs)"
  shows "take n (filter (\<lambda>y. y \<noteq> x) fs) = filter (\<lambda>y. y \<noteq> x) (take (Suc n) fs)"
proof -
  let ?a = "take (Suc n) fs" and ?b = "drop (Suc n) fs"
  have fs: "fs = ?a @ ?b" by simp
  have "distinct (?a @ ?b)" using assms(1) by simp
  then have "x \<notin> set ?b" using assms(2) unfolding distinct_append by blast
  then have b: "filter (\<lambda>y. y \<noteq> x) ?b = ?b" by (auto simp: filter_id_conv)
  have len: "Suc (length (filter (\<lambda>y. y \<noteq> x) ?a)) = length ?a"
  proof -
    have "distinct ?a" using assms(1) by simp
    then have "length (filter (\<lambda>y. y = x) ?a) = 1"
      using assms(2) by (induction "?a" rule: rev_induct) (auto simp: distinct_length_filter)
    then show ?thesis using sum_length_filter_compl [of "\<lambda>y. y = x" ?a] by simp
  qed
  have "filter (\<lambda>y. y \<noteq> x) fs = filter (\<lambda>y. y \<noteq> x) ?a @ ?b"
    by (subst fs) (simp only: filter_append b)
  then show ?thesis
    using len by (cases "length fs \<le> Suc n") (simp_all add: min_def)
qed

text \<open>
  The contract of a list of the last \<open>limit\<close> things used, in terms of the keys of its entries: a
  use puts the key to the front, at the expense of the last one if the list is full.
\<close>

locale lru =
  fixes key :: "'e \<Rightarrow> 'k" and limit :: nat
    and update :: "bool \<Rightarrow> 'x \<Rightarrow> 'e list \<Rightarrow> 'e list" and relevant :: "'x \<Rightarrow> bool" and ident :: "'x \<Rightarrow> 'k"
  assumes limit: "0 < limit"
    and irrelevant: "\<not> relevant x \<Longrightarrow> update ok x l = l"
    and hit: "relevant x \<Longrightarrow> ident x \<in> set (map key l) \<Longrightarrow>
      map key (update ok x l) = ident x # remove1 (ident x) (map key l)"
    and miss: "relevant x \<Longrightarrow> ident x \<notin> set (map key l) \<Longrightarrow>
      map key (update ok x l) = (if ok then [ident x] else []) @
        (if length l < limit then map key l else butlast (map key l))"
begin

lemma inv_update:
  assumes "distinct (map key l)" and "length l \<le> limit"
  shows "distinct (map key (update ok x l)) \<and> length (update ok x l) \<le> limit"
proof (cases "relevant x")
  case rel: True
  show ?thesis
  proof (cases "ident x \<in> set (map key l)")
    case True
    have m: "map key (update ok x l) = ident x # remove1 (ident x) (map key l)" using hit [OF rel True] .
    have "length (update ok x l) = length (map key (update ok x l))" by simp
    also have "\<dots> = Suc (length l - 1)" unfolding m using True by (simp add: length_remove1 del: set_map)
    also have "\<dots> = length l" using True by (cases l) simp_all
    finally show ?thesis using assms m by simp
  next
    case False
    note m = miss [OF rel False, of ok]
    have "length (update ok x l) = length (map key (update ok x l))" by simp
    also have "\<dots> \<le> limit" using assms(2) limit unfolding m by auto
    finally show ?thesis using assms(1) False m by (auto simp: distinct_butlast dest: in_set_butlastD)
  qed
qed (simp add: irrelevant assms)

lemma keys_step:
  assumes "map key l = take limit (firsts ks)" and "relevant x"
  shows "map key (update True x l) = take limit (firsts (ident x # ks))"
proof -
  obtain n where n: "limit = Suc n" using limit by (cases limit) auto
  have d: "distinct (firsts ks)" using firsts_props by blast
  have len: "length l = min limit (length (firsts ks))" using assms(1) by (metis length_map length_take min.commute)
  show ?thesis
  proof (cases "ident x \<in> set (map key l)")
    case True
    have "distinct (take limit (firsts ks))" using d by simp
    then have "remove1 (ident x) (take limit (firsts ks)) = filter (\<lambda>y. y \<noteq> ident x) (take limit (firsts ks))"
      by (simp add: distinct_remove1_removeAll removeAll_filter_not_eq) (auto intro: filter_cong)
    then show ?thesis
      using take_filter_found [OF d, of "ident x" n] True hit [OF assms(2) True, of True] assms(1) n by simp
  next
    case False
    show ?thesis
    proof (cases "length l < limit")
      case True
      then have "take limit (firsts ks) = firsts ks" using len by simp
      then have "filter (\<lambda>y. y \<noteq> ident x) (firsts ks) = firsts ks" and "length (firsts ks) \<le> n"
        using False assms(1) True len n by (auto simp: filter_id_conv)
      then show ?thesis using miss [OF assms(2) False, of True] True assms(1) n by simp
    next
      case full: False
      have a: "filter (\<lambda>y. y \<noteq> ident x) (take limit (firsts ks)) = take limit (firsts ks)"
        using False assms(1) by (auto simp: filter_id_conv)
      have "filter (\<lambda>y. y \<noteq> ident x) (firsts ks) =
          take limit (firsts ks) @ filter (\<lambda>y. y \<noteq> ident x) (drop limit (firsts ks))"
        by (subst append_take_drop_id [of limit "firsts ks", symmetric]) (simp only: filter_append a)
      then have "take n (filter (\<lambda>y. y \<noteq> ident x) (firsts ks)) = take n (take limit (firsts ks))"
        using full len n by simp
      moreover have "butlast (take limit (firsts ks)) = take n (firsts ks)"
        using full len n by (simp add: butlast_take)
      ultimately show ?thesis using miss [OF assms(2) False, of True] full assms(1) n by simp
    qed
  qed
qed

lemma keys_recent:
  "map key (fold (update True) xs []) = take limit (firsts (rev (map ident (filter relevant xs))))"
proof (induction xs rule: rev_induct)
  case (snoc x xs)
  then show ?case using keys_step [of "fold (update True) xs []"] irrelevant by simp
qed simp

lemma inv_run:
  "distinct (map key (fold (\<lambda>(ok, x). update ok x) xs [])) \<and> length (fold (\<lambda>(ok, x). update ok x) xs []) \<le> limit"
  by (induction xs rule: rev_induct) (auto simp: inv_update)

end

text \<open>A list that is kept with \<open>lru_touch\<close> keeps the contract.\<close>

lemma remove_first_key: "map key (remove_first (\<lambda>e. key e = k) l) = remove1 k (map key l)"
  by (induction l) auto

lemma lru_touch_keys:
  assumes "\<And>e. key (refresh e) = key e" and "key new = k" and "0 < limit"
  shows "k \<in> set (map key l) \<Longrightarrow>
      map key (lru_touch (\<lambda>e. key e = k) refresh (if ok then Some new else None) limit l) = k # remove1 k (map key l)"
    and "k \<notin> set (map key l) \<Longrightarrow>
      map key (lru_touch (\<lambda>e. key e = k) refresh (if ok then Some new else None) limit l) =
        (if ok then [k] else []) @ (if length l < limit then map key l else butlast (map key l))"
proof -
  show "map key (lru_touch (\<lambda>e. key e = k) refresh (if ok then Some new else None) limit l) = k # remove1 k (map key l)"
    if k: "k \<in> set (map key l)"
  proof -
    obtain e where e: "find (\<lambda>e. key e = k) l = Some e"
      using k by (cases "find (\<lambda>e. key e = k) l") (auto simp: find_None_iff)
    have "key e = k" using find_key_Some [OF e] by blast
    then show ?thesis by (simp add: lru_touch_def e assms(1) remove_first_key)
  qed
  show "map key (lru_touch (\<lambda>e. key e = k) refresh (if ok then Some new else None) limit l) =
        (if ok then [k] else []) @ (if length l < limit then map key l else butlast (map key l))"
    if "k \<notin> set (map key l)"
  proof -
    have "find (\<lambda>e. key e = k) l = None" using that by (auto simp: find_None_iff)
    moreover have "(length l \<ge> limit \<and> l \<noteq> []) = (\<not> length l < limit)" using assms(3) by (cases l) auto
    ultimately show ?thesis using assms(2) by (cases ok) (simp_all add: lru_touch_def Let_def map_butlast)
  qed
qed

section \<open>The applications\<close>

text \<open>The bytes of a host or URL that are copied, at most \<open>n\<close> of them.\<close>

definition copied :: "flow_info \<Rightarrow> int option \<Rightarrow> int \<Rightarrow> int \<Rightarrow> bytes" where
  "copied flow pos len n = (case pos of
      None \<Rightarrow> []
    | Some p \<Rightarrow> if len > 0 then c_string (payload flow p (if len > n then n else len)) else [])"

definition active_proto_type :: "flow_info \<Rightarrow> nat" where
  "active_proto_type flow = (if http_match (fl_http flow) then 1 else if https_match (fl_https flow) then 2 else 0)"

definition active_app_host :: "flow_info \<Rightarrow> bytes" where
  "active_app_host flow =
     (if http_match (fl_http flow) then copied flow (http_host_pos (fl_http flow)) (http_host_len (fl_http flow)) 31
      else if https_match (fl_https flow) then copied flow (https_url_pos (fl_https flow)) (https_url_len (fl_https flow)) 31
      else [])"

definition active_app_uri :: "flow_info \<Rightarrow> bytes" where
  "active_app_uri flow =
     (if http_match (fl_http flow) then copied flow (http_url_pos (fl_http flow)) (http_url_len (fl_http flow)) 31
      else [])"

text \<open>What is written into an entry, found or new.\<close>

definition set_active_app :: "mac \<Rightarrow> flow_info \<Rightarrow> u32 \<Rightarrow> active_app_node \<Rightarrow> active_app_node" where
  "set_active_app mac flow now node =
     node\<lparr>aa_mac := mac, aa_src_ip := fl_src flow, aa_dst_ip := fl_dst flow,
       aa_src_ip6 := (case fl_src6 flow of None \<Rightarrow> aa_src_ip6 node | Some a \<Rightarrow> a),
       aa_dst_ip6 := (case fl_dst6 flow of None \<Rightarrow> aa_dst_ip6 node | Some a \<Rightarrow> a),
       aa_src_port := fl_sport flow, aa_dst_port := fl_dport flow,
       aa_l4_protocol := word_of_int (fl_l4_protocol flow), aa_drop := fl_drop flow,
       aa_proto_type := active_proto_type flow, aa_host := active_app_host flow, aa_uri := active_app_uri flow,
       aa_update_time := now\<rparr>"

text \<open>The entry after \<^verbatim>\<open>kzalloc\<close>.\<close>

definition active_app_zero :: active_app_node where
  "active_app_zero = \<lparr>aa_app_id = 0, aa_mac = replicate 6 0, aa_src_ip = 0, aa_dst_ip = 0,
     aa_src_ip6 = replicate 16 0, aa_dst_ip6 = replicate 16 0, aa_src_port = 0, aa_dst_port = 0,
     aa_l4_protocol = 0, aa_drop = False, aa_proto_type = 0, aa_host = [], aa_uri = [], aa_update_time = 0\<rparr>"

definition af_update_active_app_list ::
  "bool \<Rightarrow> u32 \<Rightarrow> mac \<Rightarrow> flow_info \<Rightarrow> active_app_node list \<Rightarrow> active_app_node list" where
  "af_update_active_app_list ok now mac flow l =
     (if fl_app_id flow = 0 \<or> fl_match_by_dns flow then l
      else lru_touch (\<lambda>node. aa_app_id node = fl_app_id flow) (set_active_app mac flow now)
        (if ok then Some (set_active_app mac flow now (active_app_zero\<lparr>aa_app_id := fl_app_id flow\<rparr>)) else None)
        MAX_ACTIVE_APP_LIST_SIZE l)"

definition af_find_active_app :: "u32 \<Rightarrow> active_app_node list \<Rightarrow> active_app_node option" where
  "af_find_active_app app_id l = (if app_id = 0 then None else find (\<lambda>node. aa_app_id node = app_id) l)"

definition af_clear_active_app_list :: "active_app_node list \<Rightarrow> active_app_node list" where
  "af_clear_active_app_list l = []"

section \<open>The hosts\<close>

definition af_is_invalid_active_host :: "(bytes \<Rightarrow> bool) \<Rightarrow> (bytes \<Rightarrow> bool) \<Rightarrow> bytes \<Rightarrow> bool" where
  "af_is_invalid_active_host in4_pton in6_pton host =
     (if af_is_ip_literal_host in4_pton in6_pton host then True else 0x2E \<notin> set host)"

text \<open>The buffer \<^verbatim>\<open>host_buf\<close>, if it is filled.\<close>

definition active_host_buf :: "flow_info \<Rightarrow> bytes option" where
  "active_host_buf flow =
     (let http = fl_http flow; https = fl_https flow in
      if http_match http \<and> http_host_pos http \<noteq> None \<and> http_host_len http > 0
      then Some (copied flow (http_host_pos http) (http_host_len http) 63)
      else if https_match https \<and> https_url_pos https \<noteq> None \<and> https_url_len https > 0
      then Some (copied flow (https_url_pos https) (https_url_len https) 63)
      else None)"

definition set_active_host :: "mac \<Rightarrow> flow_info \<Rightarrow> u32 \<Rightarrow> active_host_node \<Rightarrow> active_host_node" where
  "set_active_host mac flow now node =
     node\<lparr>ah_mac := mac, ah_src_ip := fl_src flow, ah_dst_ip := fl_dst flow,
       ah_src_ip6 := (case fl_src6 flow of None \<Rightarrow> ah_src_ip6 node | Some a \<Rightarrow> a),
       ah_dst_ip6 := (case fl_dst6 flow of None \<Rightarrow> ah_dst_ip6 node | Some a \<Rightarrow> a),
       ah_src_port := fl_sport flow, ah_dst_port := fl_dport flow,
       ah_l4_protocol := word_of_int (fl_l4_protocol flow), ah_drop := fl_drop flow,
       ah_proto_type := active_proto_type flow, ah_update_time := now\<rparr>"

definition active_host_zero :: active_host_node where
  "active_host_zero = \<lparr>ah_host = [], ah_mac = replicate 6 0, ah_src_ip = 0, ah_dst_ip = 0,
     ah_src_ip6 = replicate 16 0, ah_dst_ip6 = replicate 16 0, ah_src_port = 0, ah_dst_port = 0,
     ah_l4_protocol = 0, ah_drop = False, ah_proto_type = 0, ah_update_time = 0\<rparr>"

definition af_update_active_host_list ::
  "(bytes \<Rightarrow> bool) \<Rightarrow> (bytes \<Rightarrow> bool) \<Rightarrow> bool \<Rightarrow> u32 \<Rightarrow> mac \<Rightarrow> flow_info \<Rightarrow> active_host_node list \<Rightarrow>
     active_host_node list" where
  "af_update_active_host_list in4_pton in6_pton ok now mac flow l =
     (if fl_match_by_dns flow then l
      else if \<not> http_match (fl_http flow) \<and> \<not> https_match (fl_https flow) then l
      else (case active_host_buf flow of
          None \<Rightarrow> l
        | Some host_buf \<Rightarrow>
            if af_is_invalid_active_host in4_pton in6_pton host_buf then l
            else lru_touch (\<lambda>node. ah_host node = host_buf) (set_active_host mac flow now)
              (if ok then Some (set_active_host mac flow now (active_host_zero\<lparr>ah_host := host_buf\<rparr>)) else None)
              MAX_ACTIVE_HOST_LIST_SIZE l))"

text \<open>\<open>Some []\<close> is the empty string, \<open>None\<close> is NULL.\<close>

definition af_find_active_host :: "bytes option \<Rightarrow> active_host_node list \<Rightarrow> active_host_node option" where
  "af_find_active_host host l = (case host of
      None \<Rightarrow> None
    | Some s \<Rightarrow> if s = [] then None else find (\<lambda>node. ah_host node = take 64 s) l)"

definition af_clear_active_host_list :: "active_host_node list \<Rightarrow> active_host_node list" where
  "af_clear_active_host_list l = []"

section \<open>The last ten\<close>

lemma set_active_keys [simp]:
  "aa_app_id (set_active_app mac flow now node) = aa_app_id node"
  "ah_host (set_active_host mac flow now hnode) = ah_host hnode"
  by (simp_all add: set_active_app_def set_active_host_def)

text \<open>The packets that count: which application, and which host, is used.\<close>

type_synonym active_event = "u32 \<times> mac \<times> flow_info"

definition app_event :: "active_event \<Rightarrow> bool" where
  "app_event e \<longleftrightarrow> fl_app_id (snd (snd e)) \<noteq> 0 \<and> \<not> fl_match_by_dns (snd (snd e))"

definition event_app :: "active_event \<Rightarrow> u32" where
  "event_app e = fl_app_id (snd (snd e))"

definition update_app :: "bool \<Rightarrow> active_event \<Rightarrow> active_app_node list \<Rightarrow> active_app_node list" where
  "update_app ok e = af_update_active_app_list ok (fst e) (fst (snd e)) (snd (snd e))"

lemma update_app_touch:
  assumes "app_event e"
  shows "update_app ok e l = lru_touch (\<lambda>node. aa_app_id node = event_app e)
    (set_active_app (fst (snd e)) (snd (snd e)) (fst e))
    (if ok then Some (set_active_app (fst (snd e)) (snd (snd e)) (fst e) (active_app_zero\<lparr>aa_app_id := event_app e\<rparr>))
     else None) MAX_ACTIVE_APP_LIST_SIZE l"
  using assms by (auto simp: app_event_def update_app_def event_app_def af_update_active_app_list_def)

lemma active_sizes: "0 < MAX_ACTIVE_APP_LIST_SIZE" "0 < MAX_ACTIVE_HOST_LIST_SIZE"
  by (simp_all add: MAX_ACTIVE_APP_LIST_SIZE_def MAX_ACTIVE_HOST_LIST_SIZE_def)

interpretation active_apps: lru aa_app_id MAX_ACTIVE_APP_LIST_SIZE update_app app_event event_app
proof
  fix x :: active_event and ok :: bool and l :: "active_app_node list"
  show "0 < MAX_ACTIVE_APP_LIST_SIZE" by (rule active_sizes)
  show "\<not> app_event x \<Longrightarrow> update_app ok x l = l"
    by (auto simp: app_event_def update_app_def af_update_active_app_list_def)
  show "app_event x \<Longrightarrow> event_app x \<in> set (map aa_app_id l) \<Longrightarrow>
      map aa_app_id (update_app ok x l) = event_app x # remove1 (event_app x) (map aa_app_id l)"
    unfolding update_app_touch by (rule lru_touch_keys(1)) (simp_all add: active_sizes)
  show "app_event x \<Longrightarrow> event_app x \<notin> set (map aa_app_id l) \<Longrightarrow>
      map aa_app_id (update_app ok x l) = (if ok then [event_app x] else []) @
        (if length l < MAX_ACTIVE_APP_LIST_SIZE then map aa_app_id l else butlast (map aa_app_id l))"
    unfolding update_app_touch by (rule lru_touch_keys(2)) (simp_all add: active_sizes)
qed

definition host_event :: "(bytes \<Rightarrow> bool) \<Rightarrow> (bytes \<Rightarrow> bool) \<Rightarrow> active_event \<Rightarrow> bool" where
  "host_event in4_pton in6_pton e \<longleftrightarrow> \<not> fl_match_by_dns (snd (snd e)) \<and> active_host_buf (snd (snd e)) \<noteq> None \<and>
     \<not> af_is_invalid_active_host in4_pton in6_pton (the (active_host_buf (snd (snd e))))"

definition event_host :: "active_event \<Rightarrow> bytes" where
  "event_host e = the (active_host_buf (snd (snd e)))"

definition update_host ::
  "(bytes \<Rightarrow> bool) \<Rightarrow> (bytes \<Rightarrow> bool) \<Rightarrow> bool \<Rightarrow> active_event \<Rightarrow> active_host_node list \<Rightarrow> active_host_node list" where
  "update_host in4_pton in6_pton ok e =
     af_update_active_host_list in4_pton in6_pton ok (fst e) (fst (snd e)) (snd (snd e))"

lemma active_host_buf_match:
  "active_host_buf flow \<noteq> None \<Longrightarrow> http_match (fl_http flow) \<or> https_match (fl_https flow)"
  by (auto simp: active_host_buf_def Let_def split: if_splits)

lemma update_host_touch:
  assumes "host_event in4_pton in6_pton e"
  shows "update_host in4_pton in6_pton ok e l = lru_touch (\<lambda>node. ah_host node = event_host e)
    (set_active_host (fst (snd e)) (snd (snd e)) (fst e))
    (if ok then Some (set_active_host (fst (snd e)) (snd (snd e)) (fst e) (active_host_zero\<lparr>ah_host := event_host e\<rparr>))
     else None) MAX_ACTIVE_HOST_LIST_SIZE l"
  using assms active_host_buf_match [of "snd (snd e)"]
  by (auto simp: host_event_def update_host_def event_host_def af_update_active_host_list_def)

interpretation active_hosts: lru ah_host MAX_ACTIVE_HOST_LIST_SIZE "update_host in4_pton in6_pton"
    "host_event in4_pton in6_pton" event_host for in4_pton in6_pton
proof
  fix x :: active_event and ok :: bool and l :: "active_host_node list"
  show "0 < MAX_ACTIVE_HOST_LIST_SIZE" by (rule active_sizes)
  show "\<not> host_event in4_pton in6_pton x \<Longrightarrow> update_host in4_pton in6_pton ok x l = l"
    by (auto simp: host_event_def update_host_def af_update_active_host_list_def split: option.split)
  show "host_event in4_pton in6_pton x \<Longrightarrow> event_host x \<in> set (map ah_host l) \<Longrightarrow>
      map ah_host (update_host in4_pton in6_pton ok x l) = event_host x # remove1 (event_host x) (map ah_host l)"
    unfolding update_host_touch by (rule lru_touch_keys(1)) (simp_all add: active_sizes)
  show "host_event in4_pton in6_pton x \<Longrightarrow> event_host x \<notin> set (map ah_host l) \<Longrightarrow>
      map ah_host (update_host in4_pton in6_pton ok x l) = (if ok then [event_host x] else []) @
        (if length l < MAX_ACTIVE_HOST_LIST_SIZE then map ah_host l else butlast (map ah_host l))"
    unfolding update_host_touch by (rule lru_touch_keys(2)) (simp_all add: active_sizes)
qed

text \<open>
  The lists hold the last ten. After any run of packets with memory for the entries, the
  applications of the one list and the hosts of the other are the ten used last, the newest first
  and none twice; an entry tells when and by whom it was last used.
\<close>

theorem active_lists_last_ten:
  "map aa_app_id (fold (update_app True) xs []) =
     take 10 (firsts (rev (map event_app (filter app_event xs)))) \<and>
   map ah_host (fold (update_host in4_pton in6_pton True) xs []) =
     take 10 (firsts (rev (map event_host (filter (host_event in4_pton in6_pton) xs))))"
  using active_apps.keys_recent [of xs] active_hosts.keys_recent [of in4_pton in6_pton xs]
  by (simp add: MAX_ACTIVE_APP_LIST_SIZE_def MAX_ACTIVE_HOST_LIST_SIZE_def)

text \<open>What holds of the lists at all times, with or without memory.\<close>

definition active_inv :: "active_app_node list \<Rightarrow> active_host_node list \<Rightarrow> bool" where
  "active_inv apps hosts \<longleftrightarrow> distinct (map aa_app_id apps) \<and> length apps \<le> MAX_ACTIVE_APP_LIST_SIZE \<and>
     distinct (map ah_host hosts) \<and> length hosts \<le> MAX_ACTIVE_HOST_LIST_SIZE"

lemma active_inv_empty: "active_inv [] []"
  by (simp add: active_inv_def)

lemma active_inv_update:
  assumes "active_inv apps hosts"
  shows "active_inv (af_update_active_app_list ok now mac flow apps) hosts"
    and "active_inv apps (af_update_active_host_list in4_pton in6_pton ok now mac flow hosts)"
  using assms active_apps.inv_update [of apps ok "(now, mac, flow)"]
    active_hosts.inv_update [of hosts in4_pton in6_pton ok "(now, mac, flow)"]
  by (simp_all add: active_inv_def update_app_def update_host_def)

lemma head_app:
  assumes "fl_app_id flow \<noteq> 0" "\<not> fl_match_by_dns flow"
  shows "\<exists>node rest. af_update_active_app_list True now mac flow l = node # rest \<and> aa_app_id node = fl_app_id flow \<and>
    aa_mac node = mac \<and> aa_update_time node = now \<and> aa_drop node = fl_drop flow"
proof (cases "find (\<lambda>node. aa_app_id node = fl_app_id flow) l")
  case (Some node)
  have "aa_app_id node = fl_app_id flow" using find_key_Some [OF Some] by blast
  then show ?thesis using assms Some
    by (simp add: af_update_active_app_list_def lru_touch_def set_active_app_def)
qed (use assms in \<open>simp add: af_update_active_app_list_def lru_touch_def set_active_app_def Let_def\<close>)

section \<open>The URL that is visited\<close>

definition update_url_visiting_info ::
  "(bytes \<Rightarrow> bool) \<Rightarrow> (bytes \<Rightarrow> bool) \<Rightarrow> int \<Rightarrow> flow_info \<Rightarrow> af_client \<Rightarrow> bool \<times> af_client" where
  "update_url_visiting_info in4_pton in6_pton now flow client =
     (if fl_match_by_dns flow then (False, client)
      else let (host, len) = (if https_match (fl_https flow) then (https_url_pos (fl_https flow), https_url_len (fl_https flow))
            else if http_match (fl_http flow) then (http_host_pos (fl_http flow), http_host_len (fl_http flow))
            else (None, 0));
          len = (word_of_int len :: u32) in
      (case host of
         None \<Rightarrow> (False, client)
       | Some pos \<Rightarrow>
           if unat len < MIN_REPORT_URL_LEN \<or> unat len \<ge> MAX_REPORT_URL_LEN then (False, client)
           else let host_buf = c_string (payload flow pos (uint len)) in
             if af_is_ip_literal_host in4_pton in6_pton host_buf then (False, client)
             else (True, client\<lparr>cl_visiting := (cl_visiting client)\<lparr>visiting_url := host_buf, url_time := now\<rparr>\<rparr>)))"

text \<open>The URL fits its array of 64 bytes with the NUL, whatever the lengths in the flow are.\<close>

lemma visiting_url_fits:
  assumes "length (visiting_url (cl_visiting client)) < MAX_REPORT_URL_LEN"
  shows "length (visiting_url (cl_visiting (snd (update_url_visiting_info in4_pton in6_pton now flow client)))) < MAX_REPORT_URL_LEN"
proof -
  have "length (c_string (payload flow pos (uint len))) < MAX_REPORT_URL_LEN" if "\<not> unat len \<ge> MAX_REPORT_URL_LEN"
    for pos and len :: u32
  proof -
    have "length (c_string (payload flow pos (uint len))) \<le> unat len"
      using length_c_string [of "payload flow pos (uint len)"] by (simp add: payload_def)
    then show ?thesis using that by linarith
  qed
  then show ?thesis using assms
    by (auto simp: update_url_visiting_info_def Let_def split: prod.split option.split)
qed

lemma visiting_client [simp]:
  "cl_mac (snd (update_url_visiting_info in4_pton in6_pton now flow client)) = cl_mac client"
  "cl_visit_info (snd (update_url_visiting_info in4_pton in6_pton now flow client)) = cl_visit_info client"
  "cl_record_whitelist (snd (update_url_visiting_info in4_pton in6_pton now flow client)) = cl_record_whitelist client"
  by (auto simp: update_url_visiting_info_def Let_def split: prod.split option.split)

end
