(* ===== verification/Fwx_Client_Timer.thy ===== *)
theory Fwx_Client_Timer
  imports Fwx_Client "HOL-Library.Multiset"
begin

text \<open>
  What happens to a client over time (\<^verbatim>\<open>oaf/src/fwx_client.c\<close>): the two forward hooks count its
  traffic, and its timer updates its status every two seconds and reports the applications it used
  every thirty rounds. The kernel's \<^verbatim>\<open>sort\<close> and its formatting of addresses are parameters; a
  report is the JSON tree that is printed and sent to the daemon.
\<close>

section \<open>The report\<close>

text \<open>
  \<^verbatim>\<open>sort\<close> gets the comparison function and the array. Every record that is put into the array has
  lost its count by then.
\<close>

definition compare_visit_info_count :: "app_visit_info \<Rightarrow> app_visit_info \<Rightarrow> int" where
  "compare_visit_info_count info_a info_b =
     (if vi_total_num info_a > vi_total_num info_b then -1
      else if vi_total_num info_a < vi_total_num info_b then 1 else 0)"

type_synonym sort_fun = "(app_visit_info \<Rightarrow> app_visit_info \<Rightarrow> int) \<Rightarrow> app_visit_info list \<Rightarrow> app_visit_info list"

definition reset_visit :: "app_visit_info \<Rightarrow> app_visit_info" where
  "reset_visit info = info\<lparr>vi_total_num := 0\<rparr>"

text \<open>\<open>g_min\<close> is \<^verbatim>\<open>g_min_http_match_count\<close>, compared as an unsigned number.\<close>

definition visit_reported :: "u32 \<Rightarrow> app_visit_info \<Rightarrow> bool" where
  "visit_reported g_min info \<longleftrightarrow>
     vi_total_num info \<noteq> 0 \<and> \<not> (vi_is_http info \<and> vi_conn_count info \<le> g_min)"

definition info_array :: "u32 \<Rightarrow> app_visit_info buckets \<Rightarrow> app_visit_info list" where
  "info_array g_min t = map reset_visit (filter (visit_reported g_min) (concat t))"

definition visit_obj :: "app_visit_info \<Rightarrow> json" where
  "visit_obj info = JObject [(cstr ''appid'', JNumber (to_int32 (uint (vi_app_id info)))),
     (cstr ''latest_action'', JNumber (to_int32 (uint (vi_latest_action info))))]"

definition report_obj :: "(u32 \<Rightarrow> bytes) \<Rightarrow> af_client \<Rightarrow> app_visit_info list \<Rightarrow> json" where
  "report_obj fmt_ip node infos = JObject [
     (cstr ''mac'', JString (mac_fmt (cl_mac node))),
     (cstr ''ip'', JString (fmt_ip (cl_ip node))),
     (cstr ''app_num'', JNumber (to_int32 (uint (cl_visit_app_num node)))),
     (cstr ''up_flow'', JNumber (sint (ucast (signed_drop_bit 10 (up_bytes (cl_period_flow node))) :: u32))),
     (cstr ''down_flow'', JNumber (sint (ucast (signed_drop_bit 10 (down_bytes (cl_period_flow node))) :: u32))),
     (cstr ''active'', JNumber (of_bool (cl_active node))),
     (cstr ''visit_info'', JArray (map visit_obj infos))]"

text \<open>
  \<open>ok_root\<close> and \<open>ok_out\<close> say whether there is memory for the tree and for its text; \<open>g_max\<close> is
  \<^verbatim>\<open>g_max_app_report_count\<close>. The array on the stack has 64 entries.
\<close>

definition af_visit_info_report ::
  "sort_fun \<Rightarrow> (u32 \<Rightarrow> bytes) \<Rightarrow> u32 \<Rightarrow> int \<Rightarrow> bool \<Rightarrow> bool \<Rightarrow> af_client \<Rightarrow>
     (af_client \<times> json option) ub_result" where
  "af_visit_info_report sort_by fmt_ip g_min g_max ok_root ok_out node =
     (if \<not> ok_root then Inr (node, None)
      else let infos = info_array g_min (cl_visit_info node); total_count = length infos in
      if total_count > MAX_RECORD_APP_NUM then Inl (BufferOverflow ''info_array'')
      else let sorted_infos = (if total_count > 0 then sort_by compare_visit_info_count infos else infos);
             report_count = (if int total_count > g_max then g_max else int total_count);
             node' = node\<lparr>cl_visit_info := map (map reset_visit) (cl_visit_info node)\<rparr>
           in if \<not> ok_out then Inr (node', None)
              else Inr (node'\<lparr>cl_report_count := cl_report_count node + 1, cl_period_flow := flow_stat_zero\<rparr>,
                   Some (report_obj fmt_ip node (take (nat report_count) sorted_infos))))"

section \<open>The status\<close>

definition is_client_mac_filter_blocked :: "bool \<Rightarrow> mac_filter \<Rightarrow> af_client \<Rightarrow> bool" where
  "is_client_mac_filter_blocked g_mac_filter_enable mf node =
     (if \<not> g_mac_filter_enable then False
      else if fwx_match_mac_filter_whitelist (cl_mac node) mf then False
      else fwx_match_mac_filter_rule (cl_mac node) mf \<noteq> None)"

text \<open>The differences are signed 64-bit numbers, halved and cut to 32 bits.\<close>

definition half_rate :: "u64 \<Rightarrow> u64 \<Rightarrow> u32" where
  "half_rate now before = ucast (signed_drop_bit 1 (now - before))"

definition update_rates :: "af_client \<Rightarrow> af_client" where
  "update_rates node = (let flow = cl_flow node; last_flow = cl_last_flow node; period = cl_period_flow node in
     node\<lparr>cl_period_flow := period\<lparr>
         down_bytes := (if 0 <s down_bytes last_flow
            then down_bytes period + (down_bytes flow - down_bytes last_flow) else down_bytes period),
         up_bytes := (if 0 <s up_bytes last_flow
            then up_bytes period + (up_bytes flow - up_bytes last_flow) else up_bytes period)\<rparr>,
       cl_rate := \<lparr>up_rate = half_rate (up_bytes flow) (up_bytes last_flow),
         down_rate = half_rate (down_bytes flow) (down_bytes last_flow),
         pkt_up_rate = half_rate (up_pkts flow) (up_pkts last_flow),
         pkt_down_rate = half_rate (down_pkts flow) (down_pkts last_flow)\<rparr>,
       cl_last_flow := flow\<rparr>)"

definition update_activity :: "bool \<Rightarrow> af_client \<Rightarrow> af_client" where
  "update_activity blocked node =
     (if blocked then node\<lparr>cl_active := False, cl_active_time := 0, cl_inactive_time := 0\<rparr>
      else if pkt_down_rate (cl_rate node) > 20 then
        node\<lparr>cl_active_time := cl_active_time node + 1, cl_inactive_time := 0, cl_active := True\<rparr>
      else node\<lparr>cl_inactive_time := cl_inactive_time node + 1, cl_active_time := 0,
             cl_active := (cl_active node \<and> \<not> cl_inactive_time node + 1 > 30)\<rparr>)"

definition af_update_client_status :: "bool \<Rightarrow> mac_filter \<Rightarrow> af_client \<Rightarrow> af_client" where
  "af_update_client_status g_mac_filter_enable mf node =
     update_activity (is_client_mac_filter_blocked g_mac_filter_enable mf node) (update_rates node)"

definition client_timer_handler ::
  "sort_fun \<Rightarrow> (u32 \<Rightarrow> bytes) \<Rightarrow> u32 \<Rightarrow> int \<Rightarrow> bool \<Rightarrow> bool \<Rightarrow> u32 \<Rightarrow> bool \<Rightarrow> mac_filter \<Rightarrow> af_client \<Rightarrow>
     (af_client \<times> json option) ub_result" where
  "client_timer_handler sort_by fmt_ip g_min g_max ok_root ok_out now g_mac_filter_enable mf node =
     ub_bind (if cl_timer_count node \<ge> 30 then
         ub_bind (af_visit_info_report sort_by fmt_ip g_min g_max ok_root ok_out node)
           (\<lambda>(node, out). Inr (node\<lparr>cl_timer_count := 0\<rparr>, out))
       else Inr (node, None))
     (\<lambda>(node, out).
       let node = af_update_client_status g_mac_filter_enable mf (check_expired_visit_info now node)
       in Inr (node\<lparr>cl_timer_count := cl_timer_count node + 1\<rparr>, out))"

section \<open>The hooks\<close>

datatype work_mode = AF_MODE_GATEWAY | AF_MODE_BYPASS | AF_MODE_BRIDGE

text \<open>\<^verbatim>\<open>strstr\<close>: whether the second string occurs in the first.\<close>

fun has_prefix :: "bytes \<Rightarrow> bytes \<Rightarrow> bool" where
  "has_prefix s [] = True"
| "has_prefix [] (p # ps) = False"
| "has_prefix (c # cs) (p # ps) = (c = p \<and> has_prefix cs ps)"

fun strstr :: "bytes \<Rightarrow> bytes \<Rightarrow> bool" where
  "strstr [] p = has_prefix [] p"
| "strstr (c # cs) p = (has_prefix (c # cs) p \<or> strstr cs p)"

text \<open>\<^verbatim>\<open>PKT_DIR_UP\<close>: the packet came in through the LAN interface.\<close>

definition packet_dir_up :: "bytes \<Rightarrow> bytes \<Rightarrow> bool" where
  "packet_dir_up g_lan_ifname name \<longleftrightarrow> strstr name g_lan_ifname"

text \<open>
  What the hooks look at in a packet: whether conntrack knows it, the device, the source MAC
  address, the packet itself and its length.
\<close>

record packet =
  pk_ct :: bool
  pk_dev :: "bytes option"
  pk_smac :: mac
  pk_skb :: sk_buff
  pk_len :: u32

definition count_up :: "u64 \<Rightarrow> packet \<Rightarrow> af_client \<Rightarrow> af_client" where
  "count_up jiffies pkt nfc =
     (let h = skb_nh (pk_skb pkt) in
      nfc\<lparr>cl_ip := (if skb_protocol (pk_skb pkt) = ETH_P_IP then load_le32 h 12 else cl_ip nfc),
        cl_ipv6 := (if skb_protocol (pk_skb pkt) = ETH_P_IPV6 then slice h 8 16 else cl_ipv6 nfc),
        cl_flow := (cl_flow nfc)\<lparr>up_bytes := up_bytes (cl_flow nfc) + ucast (pk_len pkt),
          up_pkts := up_pkts (cl_flow nfc) + 1\<rparr>,
        cl_update_jiffies := jiffies\<rparr>)"

definition af_client_hook ::
  "bool \<Rightarrow> u64 \<Rightarrow> work_mode \<Rightarrow> bytes \<Rightarrow> packet \<Rightarrow> clients \<Rightarrow> clients" where
  "af_client_hook ok jiffies af_work_mode g_lan_ifname pkt s =
     (if \<not> pk_ct pkt then s
      else if skb_protocol (pk_skb pkt) = ETH_P_IPV6 \<and> af_work_mode \<noteq> AF_MODE_GATEWAY then s
      else (case pk_dev pkt of
          None \<Rightarrow> s
        | Some dev \<Rightarrow>
            if \<not> packet_dir_up g_lan_ifname dev then s
            else (case find_and_add_af_client ok jiffies (pk_smac pkt) s of
                (None, s') \<Rightarrow> s'
              | (Some nfc, s') \<Rightarrow> client_write (cl_mac nfc) (count_up jiffies pkt) s')))"

definition count_down :: "u64 \<Rightarrow> packet \<Rightarrow> af_client \<Rightarrow> af_client" where
  "count_down jiffies pkt nfc =
     nfc\<lparr>cl_flow := (cl_flow nfc)\<lparr>down_bytes := down_bytes (cl_flow nfc) + ucast (pk_len pkt),
           down_pkts := down_pkts (cl_flow nfc) + 1\<rparr>,
         cl_update_jiffies := jiffies\<rparr>"

definition af_client_hook2 :: "u64 \<Rightarrow> bytes \<Rightarrow> packet \<Rightarrow> clients \<Rightarrow> clients" where
  "af_client_hook2 jiffies g_lan_ifname pkt s =
     (if \<not> pk_ct pkt then s
      else (case pk_dev pkt of
          None \<Rightarrow> s
        | Some dev \<Rightarrow>
            if packet_dir_up g_lan_ifname dev then s
            else let h = skb_nh (pk_skb pkt) in
            (case (if skb_protocol (pk_skb pkt) = ETH_P_IP then find_af_client_by_ip (load_le32 h 16) s
                   else if skb_protocol (pk_skb pkt) = ETH_P_IPV6 then find_af_client_by_ipv6 (slice h 24 16) s
                   else None) of
               None \<Rightarrow> s
             | Some nfc \<Rightarrow> client_write (cl_mac nfc) (count_down jiffies pkt) s)))"

section \<open>Everything that happens to the clients\<close>

inductive client_reach :: "clients \<Rightarrow> bool" where
  start: "client_reach nf_client_list_init"
| hook: "client_reach s \<Longrightarrow> client_reach (af_client_hook ok jiffies mode lan pkt s)"
| hook2: "client_reach s \<Longrightarrow> client_reach (af_client_hook2 jiffies lan pkt s)"
| lookup: "client_reach s \<Longrightarrow> client_reach (snd (find_and_add_af_client ok jiffies mac s))"
| used: "client_reach s \<Longrightarrow> client_reach (client_write mac
     (\<lambda>node. snd (af_update_client_app_info ok now app_id drp conntrack http visiting node)) s)"
| timer: "client_reach s \<Longrightarrow> find_af_client mac s = Some node \<Longrightarrow>
     client_timer_handler sort_by fmt_ip g_min g_max ok_root ok_out now g_enable mf node = Inr (node', out) \<Longrightarrow>
     client_reach (client_write mac (\<lambda>_. node') s)"
| expire: "client_reach s \<Longrightarrow> client_reach (check_client_expire hz jiffies s)"
| reset: "client_reach s \<Longrightarrow> client_reach (af_client_list_reset_report_num s)"
| add: "client_reach s \<Longrightarrow> client_reach (snd (fwx_api_add_record_whitelist kzm data_obj s))"
| del: "client_reach s \<Longrightarrow> client_reach (snd (fwx_api_del_record_whitelist data_obj s))"
| flush: "client_reach s \<Longrightarrow> client_reach (fwx_api_flush_record_whitelist s)"
| proc: "client_reach s \<Longrightarrow> fwx_set_record_whitelist kzm str s = Inr s' \<Longrightarrow> client_reach s'"

lemma visits_inv_reset: "visits_inv t \<Longrightarrow> visits_inv (map (map reset_visit) t)"
  by (rule visits_inv_map) (auto simp: reset_visit_def o_def image_iff)

lemma report_client:
  assumes "af_visit_info_report sort_by fmt_ip g_min g_max ok_root ok_out node = Inr (node', out)"
  shows "cl_mac node' = cl_mac node \<and> (client_inv w node \<longrightarrow> client_inv w node')"
  using assms by (auto simp: af_visit_info_report_def Let_def client_inv_def visits_inv_reset split: if_splits)

lemma status_client:
  "cl_mac (af_update_client_status g_enable mf node) = cl_mac node"
  "client_inv w node \<Longrightarrow> client_inv w (af_update_client_status g_enable mf node)"
  by (simp_all add: af_update_client_status_def update_activity_def update_rates_def Let_def client_inv_def)

lemma expired_client:
  "cl_mac (check_expired_visit_info now node) = cl_mac node"
  "client_inv w node \<Longrightarrow> client_inv w (check_expired_visit_info now node)"
  by (simp_all add: check_expired_visit_info_def client_inv_def visits_inv_filter)

lemma timer_client:
  assumes "client_timer_handler sort_by fmt_ip g_min g_max ok_root ok_out now g_enable mf node = Inr (node', out)"
    and "client_inv w node"
  shows "cl_mac node' = cl_mac node" "client_inv w node'"
proof -
  obtain n1 where n1: "cl_mac n1 = cl_mac node" "client_inv w n1"
    and n': "node' = (af_update_client_status g_enable mf (check_expired_visit_info now n1))
      \<lparr>cl_timer_count := cl_timer_count (af_update_client_status g_enable mf (check_expired_visit_info now n1)) + 1\<rparr>"
  proof (cases "cl_timer_count node \<ge> 30")
    case True
    then obtain n0 where n0: "af_visit_info_report sort_by fmt_ip g_min g_max ok_root ok_out node = Inr (n0, out)"
      and "node' = (af_update_client_status g_enable mf (check_expired_visit_info now (n0\<lparr>cl_timer_count := 0\<rparr>)))
        \<lparr>cl_timer_count := cl_timer_count (af_update_client_status g_enable mf
          (check_expired_visit_info now (n0\<lparr>cl_timer_count := 0\<rparr>))) + 1\<rparr>"
      using assms(1) by (auto simp: client_timer_handler_def ub_bind_Inr Let_def)
    moreover have "client_inv w (n0\<lparr>cl_timer_count := 0\<rparr>)"
      using report_client [OF n0] assms(2) by (simp add: client_inv_def)
    ultimately show ?thesis using that [of "n0\<lparr>cl_timer_count := 0\<rparr>"] report_client [OF n0] by simp
  next
    case False
    then show ?thesis using that [of node] assms by (simp add: client_timer_handler_def Let_def)
  qed
  show "cl_mac node' = cl_mac node" using n' n1 by (simp add: status_client expired_client)
  have "client_inv w (af_update_client_status g_enable mf (check_expired_visit_info now n1))"
    using n1 by (simp add: status_client expired_client)
  then show "client_inv w node'" unfolding n' by (simp add: client_inv_def)
qed

lemma clients_inv_hooks:
  assumes "clients_inv s"
  shows "clients_inv (af_client_hook ok jiffies mode lan pkt s)" "clients_inv (af_client_hook2 jiffies lan pkt s)"
proof -
  have up: "clients_inv (client_write mac (count_up jiffies pkt) s')" if "clients_inv s'" for mac s'
    using that by (rule clients_inv_write) (simp_all add: count_up_def Let_def client_inv_def)
  have down: "clients_inv (client_write mac (count_down jiffies pkt) s)" for mac
    using assms by (rule clients_inv_write) (simp_all add: count_down_def client_inv_def)
  have found: "clients_inv s'" if "find_and_add_af_client ok jiffies mac s = (nfc, s')" for mac nfc s'
    using clients_inv_find_add [OF assms, of ok jiffies mac] that by simp
  show "clients_inv (af_client_hook ok jiffies mode lan pkt s)"
    using assms up found by (auto simp: af_client_hook_def split: option.split prod.split)
  show "clients_inv (af_client_hook2 jiffies lan pkt s)"
    using assms down by (auto simp: af_client_hook2_def Let_def split: option.split)
qed

lemma clients_inv_timer:
  assumes "clients_inv s" and "find_af_client mac s = Some node"
    and "client_timer_handler sort_by fmt_ip g_min g_max ok_root ok_out now g_enable mf node = Inr (node', out)"
  shows "clients_inv (client_write mac (\<lambda>_. node') s)"
proof -
  have node: "cl_mac node = mac" using assms(2) by (rule client_table.look_key)
  have "node \<in> set (concat (cli_table s))"
  proof -
    have "node \<in> set (cli_table s ! get_mac_hash_code mac)"
      using assms(2) bt_find_Some [of _ cl_mac mac] by (auto simp: find_af_client_def)
    moreover have "get_mac_hash_code mac < length (cli_table s)"
      using assms(1) bt_inv_length client_hash_lt(1) by (fastforce simp: clients_inv_def clients_placed_def)
    ultimately show ?thesis unfolding bt_entry_iff by blast
  qed
  then have "client_inv (cli_whitelist s) node" using assms(1) by (simp add: clients_inv_def del: set_concat)
  then show ?thesis using timer_client [OF assms(3)] node assms(1) by (auto intro!: clients_inv_write_on)
qed

lemma client_reach_inv: "client_reach s \<Longrightarrow> clients_inv s"
proof (induction rule: client_reach.induct)
  case (used s mac ok now app_id drp conntrack http visiting)
  then show ?case by (intro clients_inv_write) (simp_all add: client_inv_app_info)
qed (auto simp: clients_inv_init clients_inv_hooks clients_inv_find_add clients_inv_expire clients_inv_reset
    clients_inv_api clients_inv_timer dest: clients_inv_set)

text \<open>
  C29. Recording follows the whitelist. In every state that packets, timers, requests and expiry
  bring about, each address has one client, a lookup finds it, its flag that stops the
  recording says exactly whether the address is on the whitelist now, and its table has no
  application twice.
\<close>

theorem client_reach_whitelist:
  assumes "client_reach s"
  shows "distinct (map cl_mac (concat (cli_table s))) \<and>
    (\<forall>node\<in>set (concat (cli_table s)).
       (cl_record_whitelist node \<longleftrightarrow> fwx_match_record_whitelist (cli_whitelist s) (cl_mac node)) \<and>
       find_af_client (cl_mac node) s \<noteq> None \<and> distinct (map vi_app_id (concat (cl_visit_info node))))"
proof -
  have inv: "clients_inv s" using assms by (rule client_reach_inv)
  then have placed: "bt_inv get_mac_hash_code cl_mac MAX_AF_CLIENT_HASH_SIZE (cli_table s)"
    and uniq: "bt_unique cl_mac (cli_table s)" by (simp_all add: clients_inv_def clients_placed_def)
  have "find_af_client (cl_mac node) s \<noteq> None" if "node \<in> set (concat (cli_table s))" for node
    using bt_find_iff_entry [OF placed, of "cl_mac node"] that by (auto simp: find_af_client_def)
  moreover have "distinct (map vi_app_id (concat (cl_visit_info node)))" if "node \<in> set (concat (cli_table s))" for node
  proof -
    have "visits_inv (cl_visit_info node)" using inv that by (simp add: clients_inv_def client_inv_def del: set_concat)
    then show ?thesis unfolding visits_inv_def by (auto intro: bt_distinct_keys)
  qed
  moreover have "cl_record_whitelist node \<longleftrightarrow> fwx_match_record_whitelist (cli_whitelist s) (cl_mac node)"
    if "node \<in> set (concat (cli_table s))" for node
    using inv that
    by (simp add: clients_inv_def client_inv_def fwx_match_record_whitelist_def mac_members_def del: set_concat)
  ultimately show ?thesis using bt_distinct_keys [OF placed uniq] by blast
qed

theorem client_reach_whitelist_witness:
  "list_all (\<lambda>node. \<not> cl_record_whitelist node \<and>
      find_af_client (cl_mac node) (snd (find_and_add_af_client True 7 [1, 2, 3, 4, 5, 6] nf_client_list_init)) \<noteq> None)
    (concat (cli_table (snd (find_and_add_af_client True 7 [1, 2, 3, 4, 5, 6] nf_client_list_init))))"
proof -
  let ?s = "snd (find_and_add_af_client True 7 [1, 2, 3, 4, 5, 6] nf_client_list_init)"
  have "client_reach ?s" by (rule client_reach.lookup, rule client_reach.start)
  note whitelist = client_reach_whitelist [OF this]
  have "\<not> fwx_match_record_whitelist (cli_whitelist ?s) mac" for mac
  proof -
    have "cli_whitelist ?s = fwx_mac_config_init"
      by (simp add: find_and_add_af_client_def find_af_client_def nf_client_add_def link_client_def Let_def
          nf_client_list_init_def bucket_simps)
    then show ?thesis by (simp add: fwx_match_record_whitelist_def fwx_find_mac_node_def fwx_mac_config_init_def bucket_simps)
  qed
  then show ?thesis using whitelist by (simp add: list_all_iff del: set_concat)
qed

section \<open>What the report says\<close>

lemma info_array_reset: "info_array g_min (map (map reset_visit) t) = []"
  by (auto simp: info_array_def filter_empty_conv visit_reported_def reset_visit_def)

lemma info_array_ids:
  "vi_app_id ` set (info_array g_min t) = vi_app_id ` {info \<in> set (concat t). visit_reported g_min info}"
  by (simp add: info_array_def image_image reset_visit_def del: set_concat)

text \<open>
  C33. The report is exact. With memory, with at most 64 applications to report and a sorting
  function that rearranges its array, the report names as many of the applications used since the last one as
  it may, all of them if they are no more than the limit, and no other; afterwards the traffic
  of the period is zero and so is the count of every application, reported or not, while nothing else of them has changed, so that
  the next report without traffic names none.
\<close>

theorem af_visit_info_report_exact:
  assumes perm: "\<And>infos. mset (sort_by compare_visit_info_count infos) = mset infos"
    and few: "length (info_array g_min (cl_visit_info node)) \<le> MAX_RECORD_APP_NUM"
  shows "\<exists>node' infos. af_visit_info_report sort_by fmt_ip g_min g_max True True node =
      Inr (node', Some (report_obj fmt_ip node infos)) \<and>
    length infos = min (nat g_max) (length (info_array g_min (cl_visit_info node))) \<and>
    vi_app_id ` set infos \<subseteq> vi_app_id ` {info \<in> set (concat (cl_visit_info node)). visit_reported g_min info} \<and>
    (int (length (info_array g_min (cl_visit_info node))) \<le> g_max \<longrightarrow>
      vi_app_id ` set infos = vi_app_id ` {info \<in> set (concat (cl_visit_info node)). visit_reported g_min info}) \<and>
    cl_period_flow node' = flow_stat_zero \<and> info_array g_min (cl_visit_info node') = [] \<and>
    concat (cl_visit_info node') = map (\<lambda>info. info\<lparr>vi_total_num := 0\<rparr>) (concat (cl_visit_info node))"
proof -
  let ?a = "info_array g_min (cl_visit_info node)"
  define sorted_infos where "sorted_infos = (if length ?a > 0 then sort_by compare_visit_info_count ?a else ?a)"
  define n where "n = nat (if int (length ?a) > g_max then g_max else int (length ?a))"
  define node' where "node' = node\<lparr>cl_visit_info := map (map reset_visit) (cl_visit_info node),
     cl_report_count := cl_report_count node + 1, cl_period_flow := flow_stat_zero\<rparr>"
  have m: "mset sorted_infos = mset ?a" using perm by (simp add: sorted_infos_def)
  then have len: "length sorted_infos = length ?a" and set: "set sorted_infos = set ?a"
    by (metis size_mset, metis set_mset_mset)
  have "n = min (nat g_max) (length ?a)" by (auto simp: n_def)
  moreover have "af_visit_info_report sort_by fmt_ip g_min g_max True True node =
      Inr (node', Some (report_obj fmt_ip node (take n sorted_infos)))"
    using few by (auto simp: af_visit_info_report_def Let_def sorted_infos_def n_def node'_def)
  moreover have "vi_app_id ` set (take n sorted_infos) \<subseteq> vi_app_id ` set ?a"
    using set set_take_subset by fastforce
  moreover have "take n sorted_infos = sorted_infos" if "int (length ?a) \<le> g_max"
    using that len by (simp add: n_def)
  moreover have "info_array g_min (cl_visit_info node') = []" by (simp add: node'_def info_array_reset)
  moreover have "concat (cl_visit_info node') = map (\<lambda>info. info\<lparr>vi_total_num := 0\<rparr>) (concat (cl_visit_info node))"
    by (simp add: node'_def reset_visit_def map_concat [symmetric])
  ultimately show ?thesis unfolding info_array_ids [symmetric]
    by (intro exI [of _ node'] exI [of _ "take n sorted_infos"]) (auto simp: len set node'_def)
qed

text \<open>
  The counts play no part in the report. They are set to zero before the array is sorted by
  them: whatever number of packets, but none, each application is given, the result is the same, so
  the applications named are not the most used ones.
\<close>

theorem af_visit_info_report_ignores_counts:
  assumes "\<And>info. h info \<noteq> 0"
  shows "af_visit_info_report sort_by fmt_ip g_min g_max True ok_out
      (node\<lparr>cl_visit_info := map (map (\<lambda>info. if vi_total_num info = 0 then info
         else info\<lparr>vi_total_num := h info\<rparr>)) (cl_visit_info node)\<rparr>) =
    af_visit_info_report sort_by fmt_ip g_min g_max True ok_out node"
proof -
  let ?f = "\<lambda>info. if vi_total_num info = 0 then info else info\<lparr>vi_total_num := h info\<rparr>"
  have reset: "reset_visit \<circ> ?f = reset_visit" by (auto simp: reset_visit_def)
  have rep: "visit_reported g_min (?f info) = visit_reported g_min info" for info
    using assms by (simp add: visit_reported_def)
  have "info_array g_min (map (map ?f) t) = info_array g_min t" for t
    by (simp add: info_array_def map_concat [symmetric] filter_map o_def rep)
      (simp add: reset_visit_def if_distrib cong: if_cong map_cong)
  moreover have "map (map reset_visit) (map (map ?f) t) = map (map reset_visit) t" for t
    by (simp add: o_def reset_visit_def if_distrib cong: if_cong map_cong)
  moreover have "report_obj fmt_ip (node\<lparr>cl_visit_info := t\<rparr>) infos = report_obj fmt_ip node infos" for t infos
    by (simp add: report_obj_def)
  ultimately show ?thesis by (simp add: af_visit_info_report_def Let_def)
qed

theorem af_visit_info_report_exact_witness:
  "\<exists>node' infos. af_visit_info_report (\<lambda>_ infos. rev infos) (\<lambda>_. []) 3 10 True True
      (snd (af_update_client_app_info True 5 7 False False False True (new_client 0 False [1, 2, 3, 4, 5, 6]))) =
      Inr (node', Some (report_obj (\<lambda>_. [])
        (snd (af_update_client_app_info True 5 7 False False False True (new_client 0 False [1, 2, 3, 4, 5, 6]))) infos)) \<and>
    vi_app_id ` set infos = {7} \<and> info_array 3 (cl_visit_info node') = []"
proof -
  let ?n = "snd (af_update_client_app_info True 5 7 False False False True (new_client 0 False [1, 2, 3, 4, 5, 6]))"
  have n: "cl_visit_info ?n = (replicate 32 [])[7 := [visit_update 5 False False False (new_visit 7)]]"
    by code_simp
  have a: "info_array 3 (cl_visit_info ?n) = [reset_visit (visit_update 5 False False False (new_visit 7))]"
    unfolding n by code_simp
  have "length (info_array 3 (cl_visit_info ?n)) \<le> MAX_RECORD_APP_NUM" by (simp add: a MAX_RECORD_APP_NUM_def)
  from af_visit_info_report_exact [of "\<lambda>_ infos. rev infos" 3 ?n "\<lambda>_. []" 10, OF _ this] obtain node' infos where
    r: "af_visit_info_report (\<lambda>_ infos. rev infos) (\<lambda>_. []) 3 10 True True ?n =
        Inr (node', Some (report_obj (\<lambda>_. []) ?n infos))"
    and ids: "vi_app_id ` set infos = vi_app_id ` {info \<in> set (concat (cl_visit_info ?n)). visit_reported 3 info}"
    and empty: "info_array 3 (cl_visit_info node') = []" using a by auto
  have "vi_app_id ` set infos = {7}"
    using ids [folded info_array_ids] a by (simp add: reset_visit_def visit_update_def new_visit_def Let_def)
  then show ?thesis using r empty by blast
qed

theorem af_visit_info_report_ignores_counts_witness:
  "af_visit_info_report (\<lambda>_ infos. rev infos) (\<lambda>_. []) 3 10 True True
      (new_client 0 False [1, 2, 3, 4, 5, 6]\<lparr>cl_visit_info := map (map (\<lambda>info. if vi_total_num info = 0 then info
         else info\<lparr>vi_total_num := 9\<rparr>)) [[new_visit 7\<lparr>vi_total_num := 1\<rparr>]]\<rparr>) =
    af_visit_info_report (\<lambda>_ infos. rev infos) (\<lambda>_. []) 3 10 True True
      (new_client 0 False [1, 2, 3, 4, 5, 6]\<lparr>cl_visit_info := [[new_visit 7\<lparr>vi_total_num := 1\<rparr>]]\<rparr>)"
  using af_visit_info_report_ignores_counts [where h = "\<lambda>_. 9" and sort_by = "\<lambda>_ infos. rev infos"
    and fmt_ip = "\<lambda>_. []" and g_min = 3 and g_max = 10 and ok_out = True
    and node = "new_client 0 False [1, 2, 3, 4, 5, 6]\<lparr>cl_visit_info := [[new_visit 7\<lparr>vi_total_num := 1\<rparr>]]\<rparr>"]
  by simp

section \<open>Activity and traffic\<close>

lemma blocked_mac: "cl_mac node = cl_mac node' \<Longrightarrow>
    is_client_mac_filter_blocked g mf node = is_client_mac_filter_blocked g mf node'"
  by (simp add: is_client_mac_filter_blocked_def)

lemma blocked_update_rates [simp]:
  "is_client_mac_filter_blocked g mf (update_rates node) = is_client_mac_filter_blocked g mf node"
  by (rule blocked_mac) (simp add: update_rates_def Let_def)

lemma blocked_status [simp]:
  "is_client_mac_filter_blocked g mf (af_update_client_status g mf node) = is_client_mac_filter_blocked g mf node"
  by (rule blocked_mac) (simp add: status_client)

lemma pkt_rate_update_rates [simp]:
  "pkt_down_rate (cl_rate (update_rates node)) = half_rate (down_pkts (cl_flow node)) (down_pkts (cl_last_flow node))"
  "cl_active (update_rates node) = cl_active node" "cl_inactive_time (update_rates node) = cl_inactive_time node"
  "cl_flow (update_rates node) = cl_flow node" "cl_last_flow (update_rates node) = cl_flow node"
  by (simp_all add: update_rates_def Let_def)

lemma half_rate_same [simp]: "half_rate x x = 0"
  by (simp add: half_rate_def)

lemma status_flows [simp]:
  "cl_flow (af_update_client_status g mf node) = cl_flow node"
  "cl_last_flow (af_update_client_status g mf node) = cl_flow node"
  "cl_period_flow (af_update_client_status g mf node) = cl_period_flow (update_rates node)"
  by (simp_all add: af_update_client_status_def update_activity_def)

definition idle_node :: "bool \<Rightarrow> mac_filter \<Rightarrow> af_client \<Rightarrow> bool" where
  "idle_node g mf node \<longleftrightarrow> \<not> is_client_mac_filter_blocked g mf node \<and>
     half_rate (down_pkts (cl_flow node)) (down_pkts (cl_last_flow node)) \<le> 20"

lemma idle_status:
  assumes "idle_node g mf node"
  shows "idle_node g mf (af_update_client_status g mf node)"
    "cl_inactive_time (af_update_client_status g mf node) = cl_inactive_time node + 1"
    "cl_active (af_update_client_status g mf node) \<longleftrightarrow> cl_active node \<and> cl_inactive_time node < 30"
proof -
  have "\<not> 20 < half_rate (down_pkts (cl_flow node)) (down_pkts (cl_last_flow node))"
    using assms by (simp add: idle_node_def not_less)
  then show "cl_inactive_time (af_update_client_status g mf node) = cl_inactive_time node + 1"
    "cl_active (af_update_client_status g mf node) \<longleftrightarrow> cl_active node \<and> cl_inactive_time node < 30"
    using assms by (auto simp: af_update_client_status_def update_activity_def idle_node_def)
  show "idle_node g mf (af_update_client_status g mf node)" using assms by (simp add: idle_node_def)
qed

lemma idle_rounds:
  assumes "idle_node g mf node"
  shows "idle_node g mf ((af_update_client_status g mf ^^ n) node) \<and>
    cl_inactive_time ((af_update_client_status g mf ^^ n) node) = cl_inactive_time node + int n \<and>
    (cl_active ((af_update_client_status g mf ^^ n) node) \<longleftrightarrow>
      cl_active node \<and> (n = 0 \<or> cl_inactive_time node + int n \<le> 30))"
proof (induction n)
  case (Suc n)
  then show ?case using idle_status [of g mf "(af_update_client_status g mf ^^ n) node"] by auto
qed (simp add: assms)

text \<open>
  An idle client stays active for exactly thirty rounds of its timer. While it is not blocked
  and receives at most 20 packets a second, it is active after \<open>n\<close> updates exactly if \<open>n\<close> is at most
  30; a client that the MAC filter blocks is inactive after the next update.
\<close>

theorem idle_client_active:
  "(\<not> is_client_mac_filter_blocked g mf node \<and> cl_active node \<and> cl_inactive_time node = 0 \<and>
     half_rate (down_pkts (cl_flow node)) (down_pkts (cl_last_flow node)) \<le> 20 \<longrightarrow>
     (cl_active ((af_update_client_status g mf ^^ n) node) \<longleftrightarrow> n \<le> 30)) \<and>
   (is_client_mac_filter_blocked g mf node \<longrightarrow> \<not> cl_active (af_update_client_status g mf node))"
  using idle_rounds [of g mf node n]
  by (auto simp: af_update_client_status_def update_activity_def idle_node_def)

theorem idle_client_active_witness:
  "cl_active ((af_update_client_status False fwx_mac_filter_init ^^ 30) (new_client 0 False [1, 2, 3, 4, 5, 6]\<lparr>cl_active := True\<rparr>)) \<and>
   \<not> cl_active ((af_update_client_status False fwx_mac_filter_init ^^ 31) (new_client 0 False [1, 2, 3, 4, 5, 6]\<lparr>cl_active := True\<rparr>))"
  using idle_client_active [of False fwx_mac_filter_init "new_client 0 False [1, 2, 3, 4, 5, 6]\<lparr>cl_active := True\<rparr>" 30]
    idle_client_active [of False fwx_mac_filter_init "new_client 0 False [1, 2, 3, 4, 5, 6]\<lparr>cl_active := True\<rparr>" 31]
  by (simp add: is_client_mac_filter_blocked_def new_client_def flow_stat_zero_def)

text \<open>
  A run of a client between two reports: packets up and down and rounds of the timer. What the
  report of the period has to say is the sum of the lengths.
\<close>

datatype client_event = Up u64 packet | Down u64 packet | Round bool mac_filter

fun run_event :: "client_event \<Rightarrow> af_client \<Rightarrow> af_client" where
  "run_event (Up jiffies pkt) node = count_up jiffies pkt node"
| "run_event (Down jiffies pkt) node = count_down jiffies pkt node"
| "run_event (Round g mf) node = af_update_client_status g mf node"

fun event_up :: "client_event \<Rightarrow> nat" where
  "event_up (Up jiffies pkt) = unat (pk_len pkt)" | "event_up e = 0"

fun event_down :: "client_event \<Rightarrow> nat" where
  "event_down (Down jiffies pkt) = unat (pk_len pkt)" | "event_down e = 0"

definition counted :: "nat \<Rightarrow> u64 \<Rightarrow> u64 \<Rightarrow> u64 \<Rightarrow> u64 \<Rightarrow> u64 \<Rightarrow> bool" where
  "counted n start flow last_flow period period' \<longleftrightarrow> unat flow = unat start + n \<and>
     0 <s last_flow \<and> period' + (flow - last_flow) = period + of_nat n"

lemma pos_signed: "0 <s (w :: u64) \<longleftrightarrow> 0 < unat w \<and> unat w < 2 ^ 63"
proof -
  have u: "uint w = int (unat w)" "uint w < 2 ^ 64" using uint_lt2p [of w] by simp_all
  have "sint w = (uint w + 2 ^ 63) mod 2 ^ 64 - 2 ^ 63"
    by (simp add: sint_uint signed_take_bit_eq_take_bit_shift take_bit_eq_mod)
  also have "(uint w + 2 ^ 63) mod 2 ^ 64 = (if uint w < 2 ^ 63 then uint w + 2 ^ 63 else uint w - 2 ^ 63)"
  proof (cases "uint w < 2 ^ 63")
    case False
    have "(uint w + 2 ^ 63) mod 2 ^ 64 = ((uint w - 2 ^ 63) + 2 ^ 64) mod 2 ^ 64" by (simp add: add.commute)
    also have "\<dots> = uint w - 2 ^ 63" using False u(2) by (subst mod_add_self2) simp
    finally show ?thesis using False by simp
  qed (use u(2) in simp)
  finally have s: "sint w = (if uint w < 2 ^ 63 then uint w + 2 ^ 63 else uint w - 2 ^ 63) - 2 ^ 63" .
  have "0 < sint w \<longleftrightarrow> 0 < uint w \<and> uint w < 2 ^ 63" unfolding s using u(2) by simp
  then show ?thesis unfolding u(1) word_sless_alt by (simp only: signed_0 of_nat_0_less_iff of_nat_less_numeral_power_cancel_iff)
qed

lemma counted_packet:
  assumes "counted n start flow last_flow period period'" and "unat start + n + unat len < 2 ^ 63"
  shows "counted (n + unat len) start (flow + ucast (len :: u32)) last_flow period period'"
proof -
  have "unat (ucast len :: u64) = unat len"
    using unsigned_less [of len, where 'a = nat] by (simp add: unsigned_ucast_eq take_bit_nat_eq_self_iff)
  moreover have "unat (flow + ucast len) = (unat flow + unat (ucast len :: u64)) mod 2 ^ 64"
    using unat_word_ariths(1) [of flow "ucast len"] by simp
  ultimately have "unat (flow + ucast len) = unat start + (n + unat len)"
    using assms by (simp add: counted_def)
  moreover have "period' + (flow + ucast len - last_flow) = period + of_nat (n + unat len)"
  proof -
    have "period' + (flow + ucast len - last_flow) = (period' + (flow - last_flow)) + ucast len"
      by (simp only: add_diff_eq diff_add_eq ac_simps)
    also have "(period' + (flow - last_flow)) = period + of_nat n" using assms(1) by (simp only: counted_def)
    finally have "period' + (flow + ucast len - last_flow) = period + of_nat n + ucast len" .
    moreover have c: "(ucast len :: u64) = of_nat (unat len)" by simp
    ultimately show ?thesis unfolding c of_nat_add by (simp only: add.assoc)
  qed
  moreover have "0 <s last_flow" using assms(1) by (simp only: counted_def)
  ultimately show ?thesis unfolding counted_def by blast
qed

lemma counted_round:
  assumes "counted n start flow last_flow period period'" and "0 < unat start" "unat start + n < 2 ^ 63"
  shows "counted n start flow flow period (if 0 <s last_flow then period' + (flow - last_flow) else period')"
  using assms by (simp add: counted_def pos_signed)

lemma event_counted:
  assumes "counted u (up_bytes f0) (up_bytes (cl_flow node)) (up_bytes (cl_last_flow node)) up0
      (up_bytes (cl_period_flow node))"
    and "counted d (down_bytes f0) (down_bytes (cl_flow node)) (down_bytes (cl_last_flow node)) down0
      (down_bytes (cl_period_flow node))"
    and "0 < unat (up_bytes f0)" "0 < unat (down_bytes f0)"
    and "unat (up_bytes f0) + u + event_up e < 2 ^ 63" "unat (down_bytes f0) + d + event_down e < 2 ^ 63"
  shows "counted (u + event_up e) (up_bytes f0) (up_bytes (cl_flow (run_event e node)))
      (up_bytes (cl_last_flow (run_event e node))) up0 (up_bytes (cl_period_flow (run_event e node)))"
    and "counted (d + event_down e) (down_bytes f0) (down_bytes (cl_flow (run_event e node)))
      (down_bytes (cl_last_flow (run_event e node))) down0 (down_bytes (cl_period_flow (run_event e node)))"
proof (atomize (full), goal_cases)
  case 1
  show ?case
  proof (cases e)
    case (Up jiffies pkt)
    then show ?thesis using assms counted_packet by (simp add: count_up_def Let_def)
  next
    case (Down jiffies pkt)
    then show ?thesis using assms counted_packet by (simp add: count_down_def)
  next
    case (Round g mf)
    then show ?thesis using assms counted_round by (simp add: update_rates_def Let_def cong: if_cong)
  qed
qed

lemma events_counted:
  assumes "0 < unat (up_bytes f0)" "0 < unat (down_bytes f0)"
  shows "counted u (up_bytes f0) (up_bytes (cl_flow node)) (up_bytes (cl_last_flow node)) up0
      (up_bytes (cl_period_flow node)) \<Longrightarrow>
    counted d (down_bytes f0) (down_bytes (cl_flow node)) (down_bytes (cl_last_flow node)) down0
      (down_bytes (cl_period_flow node)) \<Longrightarrow>
    unat (up_bytes f0) + u + sum_list (map event_up es) < 2 ^ 63 \<Longrightarrow>
    unat (down_bytes f0) + d + sum_list (map event_down es) < 2 ^ 63 \<Longrightarrow>
    counted (u + sum_list (map event_up es)) (up_bytes f0) (up_bytes (cl_flow (fold run_event es node)))
      (up_bytes (cl_last_flow (fold run_event es node))) up0 (up_bytes (cl_period_flow (fold run_event es node))) \<and>
    counted (d + sum_list (map event_down es)) (down_bytes f0) (down_bytes (cl_flow (fold run_event es node)))
      (down_bytes (cl_last_flow (fold run_event es node))) down0
      (down_bytes (cl_period_flow (fold run_event es node)))"
proof (induction es arbitrary: node u d)
  case (Cons e es)
  note step = event_counted [OF Cons.prems(1,2) assms, of e]
  show ?case using Cons.IH [OF step] Cons.prems by (simp add: add.assoc)
qed simp

text \<open>
  Every byte is reported once. Once a client has sent and received something before the last
  round of its timer, the traffic of the period grows, from one round to any later one, by
  exactly the lengths of the packets counted between them, however packets and rounds are
  interleaved, as long as the totals stay below 2^63.
\<close>

theorem client_flow_accounting:
  assumes "cl_last_flow node = cl_flow node"
    and "0 < unat (up_bytes (cl_flow node))" "0 < unat (down_bytes (cl_flow node))"
    and "unat (up_bytes (cl_flow node)) + sum_list (map event_up es) < 2 ^ 63"
    and "unat (down_bytes (cl_flow node)) + sum_list (map event_down es) < 2 ^ 63"
  shows "up_bytes (cl_period_flow (af_update_client_status g mf (fold run_event es node))) =
      up_bytes (cl_period_flow node) + of_nat (sum_list (map event_up es)) \<and>
    down_bytes (cl_period_flow (af_update_client_status g mf (fold run_event es node))) =
      down_bytes (cl_period_flow node) + of_nat (sum_list (map event_down es))"
proof -
  let ?n = "fold run_event es node"
  have "counted 0 (up_bytes (cl_flow node)) (up_bytes (cl_flow node)) (up_bytes (cl_last_flow node))
      (up_bytes (cl_period_flow node)) (up_bytes (cl_period_flow node))"
    "counted 0 (down_bytes (cl_flow node)) (down_bytes (cl_flow node)) (down_bytes (cl_last_flow node))
      (down_bytes (cl_period_flow node)) (down_bytes (cl_period_flow node))"
    using assms by (simp_all add: counted_def pos_signed)
  from events_counted [OF assms(2,3) this, of es] assms(4,5)
  show ?thesis by (simp add: counted_def update_rates_def Let_def)
qed

theorem client_flow_accounting_witness:
  "up_bytes (cl_period_flow (af_update_client_status False fwx_mac_filter_init
      (fold run_event [Round False fwx_mac_filter_init] (new_client 0 False [1, 2, 3, 4, 5, 6]
        \<lparr>cl_flow := \<lparr>up_bytes = 9, down_bytes = 8, up_pkts = 1, down_pkts = 1\<rparr>,
         cl_last_flow := \<lparr>up_bytes = 9, down_bytes = 8, up_pkts = 1, down_pkts = 1\<rparr>\<rparr>)))) = 0"
  using client_flow_accounting [where g = False and mf = fwx_mac_filter_init and es = "[Round False fwx_mac_filter_init]"
    and node = "new_client 0 False [1, 2, 3, 4, 5, 6]
        \<lparr>cl_flow := \<lparr>up_bytes = 9, down_bytes = 8, up_pkts = 1, down_pkts = 1\<rparr>,
         cl_last_flow := \<lparr>up_bytes = 9, down_bytes = 8, up_pkts = 1, down_pkts = 1\<rparr>\<rparr>"]
  by (simp add: new_client_def flow_stat_zero_def)

end
