(* ===== verification/Fwx_App_Filter.thy ===== *)
theory Fwx_App_Filter
  imports Fwx_Json Fwx_Rules
begin

text \<open>
  The application rules (\<^verbatim>\<open>oaf/src/fwx_app_filter.c\<close>): at most 64 rules, each with a set of MAC
  addresses (empty for everybody) and a counted table of application ids, and a whitelist. The
  requests of the daemon change them; \<open>kz\<close> and \<open>kzm\<close> say for which ids and addresses there is
  memory. A negative id would index before its table in C; the match is for ids from 0 on, and the
  deletion, which a request can reach with a negative number, returns \<open>Inl\<close> there.
\<close>

definition MAX_APP_FILTER_RULE_NUM :: int where "MAX_APP_FILTER_RULE_NUM = 64"
definition MAX_APP_ID_PER_RULE :: int where "MAX_APP_ID_PER_RULE = 1024"
definition APPID_HASH_SIZE :: nat where "APPID_HASH_SIZE = 256"

record app_id_config =
  ai_table :: "int buckets"
  ai_count :: int

record app_filter_rule =
  ar_rule_id :: int
  ar_enable :: int
  ar_filter_quic :: bool
  ar_mac_list :: mac_config
  ar_app_id_list :: app_id_config

record app_filter =
  af_rules :: "app_filter_rule list"
  af_rule_count :: int
  af_whitelist :: mac_config
  af_update_jiffies :: u32

section \<open>The table of application ids\<close>

definition app_hash :: "int \<Rightarrow> nat" where
  "app_hash app_id = nat (app_id mod int APPID_HASH_SIZE)"

definition app_id_config_init :: app_id_config where
  "app_id_config_init = \<lparr>ai_table = bt_empty APPID_HASH_SIZE, ai_count = 0\<rparr>"

definition flush_app_id_list :: "app_id_config \<Rightarrow> app_id_config" where
  "flush_app_id_list config = config\<lparr>ai_table := map (\<lambda>_. []) (ai_table config), ai_count := 0\<rparr>"

definition find_app_id_node :: "int \<Rightarrow> app_id_config \<Rightarrow> int option" where
  "find_app_id_node app_id config = bt_find (app_hash app_id) (\<lambda>node. node = app_id) (ai_table config)"

text \<open>The truth value says whether the return value is 0.\<close>

definition add_app_id_node :: "(int \<Rightarrow> bool) \<Rightarrow> int \<Rightarrow> app_id_config \<Rightarrow> bool \<times> app_id_config" where
  "add_app_id_node kz app_id config =
     (if find_app_id_node app_id config \<noteq> None then (True, config)
      else if ai_count config \<ge> MAX_APP_ID_PER_RULE then (False, config)
      else if \<not> kz app_id then (False, config)
      else (True, config\<lparr>ai_table := bt_add (app_hash app_id) app_id (ai_table config),
                         ai_count := ai_count config + 1\<rparr>))"

text \<open>\<^verbatim>\<open>hlist_del\<close> of the node found, and the count.\<close>

definition del_app_id_node :: "int \<Rightarrow> app_id_config \<Rightarrow> bool \<times> app_id_config" where
  "del_app_id_node app_id config = (case find_app_id_node app_id config of
      None \<Rightarrow> (False, config)
    | Some node \<Rightarrow> (True, config\<lparr>ai_table := bt_del (app_hash app_id) (\<lambda>node. node = app_id) (ai_table config),
                                 ai_count := ai_count config - 1\<rparr>))"

text \<open>\<^verbatim>\<open>for (i = start_id; i <= end_id; i++)\<close>, left at the first id that cannot be added.\<close>

fun add_app_ids :: "(int \<Rightarrow> bool) \<Rightarrow> int list \<Rightarrow> app_id_config \<Rightarrow> bool \<times> app_id_config" where
  "add_app_ids kz [] config = (True, config)"
| "add_app_ids kz (i # is) config = (case add_app_id_node kz i config of
      (False, config') \<Rightarrow> (False, config')
    | (True, config') \<Rightarrow> add_app_ids kz is config')"

text \<open>What a token of a request stands for: a number, a range of numbers, or nothing.\<close>

definition app_id_token :: "json \<Rightarrow> int list option" where
  "app_id_token obj = (case obj of
      JNumber n \<Rightarrow> if n > 0 then Some [n] else None
    | JString token \<Rightarrow> (case sscanf_d_d token of
          Some (start_id, end_id) \<Rightarrow>
            if start_id \<le> 0 \<or> end_id < start_id then None else Some [start_id..end_id]
        | None \<Rightarrow> (case kstrtoint_10 token of
              Some n \<Rightarrow> if n > 0 then Some [n] else None
            | None \<Rightarrow> None))
    | _ \<Rightarrow> None)"

text \<open>
  The counter of the loop is an \<^verbatim>\<open>int\<close>: a range that ends at the largest one increases it past that
  when all its ids could be added.
\<close>

definition range_to_int_max :: "json \<Rightarrow> bool" where
  "range_to_int_max obj = (case obj of
      JString token \<Rightarrow> (case sscanf_d_d token of
          Some (start_id, end_id) \<Rightarrow> 0 < start_id \<and> start_id \<le> end_id \<and> end_id = INT_MAX
        | None \<Rightarrow> False)
    | _ \<Rightarrow> False)"

definition add_app_id_token_to_rule ::
  "(int \<Rightarrow> bool) \<Rightarrow> json \<Rightarrow> app_id_config \<Rightarrow> (bool \<times> app_id_config) ub_result" where
  "add_app_id_token_to_rule kz obj config = (case app_id_token obj of
      None \<Rightarrow> Inr (False, config)
    | Some ids \<Rightarrow>
        if fst (add_app_ids kz ids config) \<and> range_to_int_max obj then Inl SignedOverflow
        else Inr (add_app_ids kz ids config))"

section \<open>Rules\<close>

definition fwx_app_filter_init :: app_filter where
  "fwx_app_filter_init = \<lparr>af_rules = [], af_rule_count = 0, af_whitelist = fwx_mac_config_init,
     af_update_jiffies = 0\<rparr>"

definition fwx_find_app_filter_rule :: "int \<Rightarrow> app_filter \<Rightarrow> app_filter_rule option" where
  "fwx_find_app_filter_rule rule_id af = find (\<lambda>rule. ar_rule_id rule = rule_id) (af_rules af)"

definition fwx_update_appfilter_jiffies :: "u64 \<Rightarrow> app_filter \<Rightarrow> app_filter" where
  "fwx_update_appfilter_jiffies jiffies af = af\<lparr>af_update_jiffies := ucast jiffies\<rparr>"

definition fwx_add_app_filter_rule :: "bool \<Rightarrow> int \<Rightarrow> app_filter \<Rightarrow> bool \<times> app_filter" where
  "fwx_add_app_filter_rule ok rule_id af =
     (if af_rule_count af \<ge> MAX_APP_FILTER_RULE_NUM then (False, af)
      else if fwx_find_app_filter_rule rule_id af \<noteq> None then (False, af)
      else if \<not> ok then (False, af)
      else (True, af\<lparr>af_rules := \<lparr>ar_rule_id = rule_id, ar_enable = 1, ar_filter_quic = False,
          ar_mac_list = fwx_mac_config_init, ar_app_id_list = app_id_config_init\<rparr> # af_rules af,
          af_rule_count := af_rule_count af + 1\<rparr>))"

definition fwx_del_app_filter_rule :: "int \<Rightarrow> app_filter \<Rightarrow> bool \<times> app_filter" where
  "fwx_del_app_filter_rule rule_id af = (case fwx_find_app_filter_rule rule_id af of
      None \<Rightarrow> (False, af)
    | Some rule \<Rightarrow> (True, af\<lparr>af_rules := remove_first (\<lambda>rule. ar_rule_id rule = rule_id) (af_rules af),
                             af_rule_count := af_rule_count af - 1\<rparr>))"

text \<open>A write through the pointer to the rule of an id.\<close>

definition rule_write :: "int \<Rightarrow> (app_filter_rule \<Rightarrow> app_filter_rule) \<Rightarrow> app_filter \<Rightarrow> app_filter" where
  "rule_write rule_id f af =
     af\<lparr>af_rules := update_first (\<lambda>rule. ar_rule_id rule = rule_id) f (af_rules af)\<rparr>"

definition fwx_del_app_id_from_rule :: "int \<Rightarrow> int \<Rightarrow> app_filter \<Rightarrow> (bool \<times> app_filter) ub_result" where
  "fwx_del_app_id_from_rule rule_id app_id af = (case fwx_find_app_filter_rule rule_id af of
      None \<Rightarrow> Inr (False, af)
    | Some rule \<Rightarrow>
        if app_id < 0 \<and> app_id mod int APPID_HASH_SIZE \<noteq> 0 then Inl (BufferOverflow ''hash_table'')
        else Inr (fst (del_app_id_node app_id (ar_app_id_list rule)),
          rule_write rule_id (\<lambda>rule. rule\<lparr>ar_app_id_list :=
            snd (del_app_id_node app_id (ar_app_id_list rule))\<rparr>) af))"

fun del_app_ids :: "int \<Rightarrow> int list \<Rightarrow> app_filter \<Rightarrow> app_filter ub_result" where
  "del_app_ids rule_id [] af = Inr af"
| "del_app_ids rule_id (i # is) af =
     ub_bind (fwx_del_app_id_from_rule rule_id i af) (\<lambda>(_, af'). del_app_ids rule_id is af')"

definition del_app_id_token_from_rule :: "int \<Rightarrow> json \<Rightarrow> app_filter \<Rightarrow> (bool \<times> app_filter) ub_result" where
  "del_app_id_token_from_rule rule_id obj af = (case obj of
      JNumber n \<Rightarrow> fwx_del_app_id_from_rule rule_id n af
    | JString token \<Rightarrow> (case sscanf_d_d token of
          Some (start_id, end_id) \<Rightarrow>
            if start_id \<le> 0 \<or> end_id < start_id then Inr (False, af)
            else if end_id = INT_MAX then Inl SignedOverflow
            else ub_bind (del_app_ids rule_id [start_id..end_id] af) (\<lambda>af'. Inr (True, af'))
        | None \<Rightarrow> (case kstrtoint_10 token of
              Some n \<Rightarrow> if n > 0 then fwx_del_app_id_from_rule rule_id n af else Inr (False, af)
            | None \<Rightarrow> Inr (False, af)))
    | _ \<Rightarrow> Inr (False, af))"

section \<open>The match\<close>

definition app_rule_applies :: "int \<Rightarrow> mac \<Rightarrow> app_filter_rule \<Rightarrow> bool" where
  "app_rule_applies app_id mac rule =
     (if ar_enable rule = 0 then False
      else if fwx_find_mac_node mac (ar_mac_list rule) = None \<and> \<not> mac_list_is_empty (ar_mac_list rule)
      then False
      else if app_id = uint FWX_QUIC_PROTO then ar_filter_quic rule
      else find_app_id_node app_id (ar_app_id_list rule) \<noteq> None)"

definition fwx_match_app_filter_rule :: "int \<Rightarrow> mac \<Rightarrow> app_filter \<Rightarrow> app_filter_rule option" where
  "fwx_match_app_filter_rule app_id mac af = find (app_rule_applies app_id mac) (af_rules af)"

definition fwx_match_app_filter_whitelist :: "mac \<Rightarrow> app_filter \<Rightarrow> bool" where
  "fwx_match_app_filter_whitelist mac af \<longleftrightarrow> fwx_find_mac_node mac (af_whitelist af) \<noteq> None"

section \<open>Requests\<close>

definition fwx_api_add_app_filter_rule :: "bool \<Rightarrow> u64 \<Rightarrow> json \<Rightarrow> app_filter \<Rightarrow> bool \<times> app_filter" where
  "fwx_api_add_app_filter_rule ok jiffies data_obj af =
     (case cJSON_GetObjectItem data_obj (cstr ''rule_id'') of
        None \<Rightarrow> (False, af)
      | Some rule_id \<Rightarrow>
          fwx_add_app_filter_rule ok (valueint rule_id) (fwx_update_appfilter_jiffies jiffies af))"

fun add_tokens :: "(int \<Rightarrow> bool) \<Rightarrow> json list \<Rightarrow> app_id_config \<Rightarrow> app_id_config ub_result" where
  "add_tokens kz [] config = Inr config"
| "add_tokens kz (obj # objs) config =
     ub_bind (add_app_id_token_to_rule kz obj config) (\<lambda>(_, c). add_tokens kz objs c)"

definition mod_app_id_list :: "(int \<Rightarrow> bool) \<Rightarrow> json \<Rightarrow> app_id_config \<Rightarrow> app_id_config ub_result" where
  "mod_app_id_list kz data_obj config =
     (case cJSON_GetObjectItem data_obj (cstr ''app_action'') of
        None \<Rightarrow> Inr config
      | Some action \<Rightarrow>
          if valueint action = 1 \<or> valueint action = 2 then
            (case cJSON_GetObjectItem data_obj (cstr ''app_id_list'') of
               None \<Rightarrow> Inr config
             | Some ids \<Rightarrow> add_tokens kz (json_items ids)
                 (if valueint action = 1 then flush_app_id_list config else config))
          else if valueint action = 3 then
            (case cJSON_GetObjectItem data_obj (cstr ''app_id'') of
               None \<Rightarrow> Inr config
             | Some obj \<Rightarrow> ub_bind (add_app_id_token_to_rule kz obj config) (\<lambda>(_, c). Inr c))
          else Inr (flush_app_id_list config))"

definition mod_app_rule ::
  "(int \<Rightarrow> bool) \<Rightarrow> (mac \<Rightarrow> bool) \<Rightarrow> json \<Rightarrow> app_filter_rule \<Rightarrow> app_filter_rule ub_result" where
  "mod_app_rule kz kzm data_obj rule =
     ub_bind (mod_app_id_list kz data_obj (ar_app_id_list rule)) (\<lambda>ids. Inr
       (rule\<lparr>ar_mac_list := mod_mac_list kzm data_obj (ar_mac_list rule),
          ar_app_id_list := ids,
          ar_enable := (case cJSON_GetObjectItem data_obj (cstr ''enable'') of
             None \<Rightarrow> ar_enable rule | Some e \<Rightarrow> valueint e),
          ar_filter_quic := (case cJSON_GetObjectItem data_obj (cstr ''filter_quic'') of
             None \<Rightarrow> ar_filter_quic rule | Some q \<Rightarrow> valueint q = 1)\<rparr>))"

definition fwx_api_mod_app_filter_rule ::
  "(int \<Rightarrow> bool) \<Rightarrow> (mac \<Rightarrow> bool) \<Rightarrow> u64 \<Rightarrow> json \<Rightarrow> app_filter \<Rightarrow> (bool \<times> app_filter) ub_result" where
  "fwx_api_mod_app_filter_rule kz kzm jiffies data_obj af =
     (case cJSON_GetObjectItem data_obj (cstr ''rule_id'') of
        None \<Rightarrow> Inr (False, af)
      | Some rule_id \<Rightarrow> (case fwx_find_app_filter_rule (valueint rule_id) af of
            None \<Rightarrow> Inr (False, af)
          | Some rule \<Rightarrow> ub_bind (mod_app_rule kz kzm data_obj rule) (\<lambda>rule'.
              Inr (True, fwx_update_appfilter_jiffies jiffies
                (rule_write (valueint rule_id) (\<lambda>_. rule') af)))))"

definition fwx_api_del_app_filter_rule :: "u64 \<Rightarrow> json \<Rightarrow> app_filter \<Rightarrow> (bool \<times> app_filter) ub_result" where
  "fwx_api_del_app_filter_rule jiffies data_obj af =
     (case cJSON_GetObjectItem data_obj (cstr ''rule_id'') of
        None \<Rightarrow> Inr (False, af)
      | Some rule_id \<Rightarrow>
          let af = fwx_update_appfilter_jiffies jiffies af in
          (case cJSON_GetObjectItem data_obj (cstr ''app_id'') of
             Some app_id \<Rightarrow> del_app_id_token_from_rule (valueint rule_id) app_id af
           | None \<Rightarrow> Inr (fwx_del_app_filter_rule (valueint rule_id) af)))"

definition fwx_api_flush_app_filter_rule :: "u64 \<Rightarrow> app_filter \<Rightarrow> app_filter" where
  "fwx_api_flush_app_filter_rule jiffies af =
     fwx_update_appfilter_jiffies jiffies (af\<lparr>af_rules := [], af_rule_count := 0\<rparr>)"

definition fwx_api_add_app_filter_whitelist ::
  "(mac \<Rightarrow> bool) \<Rightarrow> u64 \<Rightarrow> json \<Rightarrow> app_filter \<Rightarrow> bool \<times> app_filter" where
  "fwx_api_add_app_filter_whitelist kzm jiffies data_obj af =
     (case cJSON_GetObjectItem data_obj (cstr ''mac_list'') of
        None \<Rightarrow> (False, af)
      | Some macs \<Rightarrow> (True, fwx_update_appfilter_jiffies jiffies
          (af\<lparr>af_whitelist := add_macs kzm (json_macs macs) (af_whitelist af)\<rparr>)))"

definition fwx_api_flush_app_filter_whitelist :: "u64 \<Rightarrow> app_filter \<Rightarrow> app_filter" where
  "fwx_api_flush_app_filter_whitelist jiffies af =
     fwx_update_appfilter_jiffies jiffies (af\<lparr>af_whitelist := fwx_flush_mac_list (af_whitelist af)\<rparr>)"

section \<open>The ids as a set\<close>

definition app_ids :: "app_id_config \<Rightarrow> int set" where
  "app_ids config = set (concat (ai_table config))"

definition app_table_inv :: "app_id_config \<Rightarrow> bool" where
  "app_table_inv config \<longleftrightarrow> bt_inv app_hash id APPID_HASH_SIZE (ai_table config)"

definition app_ids_inv :: "app_id_config \<Rightarrow> bool" where
  "app_ids_inv config \<longleftrightarrow> app_table_inv config \<and> bt_unique id (ai_table config) \<and>
     ai_count config = int (bt_size (ai_table config)) \<and> ai_count config \<le> MAX_APP_ID_PER_RULE \<and>
     (\<forall>i\<in>app_ids config. 0 < i)"

lemma app_hash_lt [simp]: "app_hash i < APPID_HASH_SIZE"
  by (simp add: app_hash_def APPID_HASH_SIZE_def nat_less_iff)

lemma app_table_inv_length [simp]: "app_table_inv c \<Longrightarrow> length (ai_table c) = APPID_HASH_SIZE"
  by (simp add: app_table_inv_def bt_inv_length)

definition link_app_id :: "int \<Rightarrow> app_id_config \<Rightarrow> app_id_config" where
  "link_app_id i c = c\<lparr>ai_table := bt_add (app_hash i) i (ai_table c), ai_count := ai_count c + 1\<rparr>"

interpretation app_id_table: keyed_table_del app_id_config_init link_app_id find_app_id_node
  "id :: int \<Rightarrow> int" app_table_inv "\<lambda>i c. snd (del_app_id_node i c)"
proof
  fix t :: app_id_config and e k k' :: int
  show "app_table_inv app_id_config_init"
    by (simp add: app_table_inv_def app_id_config_init_def bucket_intros)
  show "app_table_inv t \<Longrightarrow> app_table_inv (link_app_id e t)"
    by (simp add: app_table_inv_def link_app_id_def bucket_intros)
  show "app_table_inv t \<Longrightarrow> app_table_inv (snd (del_app_id_node k t))"
    by (simp add: app_table_inv_def del_app_id_node_def bucket_intros split: option.split)
  show "find_app_id_node k app_id_config_init = None"
    by (simp add: find_app_id_node_def app_id_config_init_def bucket_simps)
  show "app_table_inv t \<Longrightarrow> find_app_id_node k (link_app_id e t) =
      (if k = id e then Some e else find_app_id_node k t)"
    by (auto simp: find_app_id_node_def link_app_id_def bucket_simps)
  show "find_app_id_node k t = Some e \<Longrightarrow> id e = k"
    by (auto simp: find_app_id_node_def bt_find_def find_Some_iff)
  show "app_table_inv t \<Longrightarrow> k' \<noteq> k \<Longrightarrow> find_app_id_node k' (snd (del_app_id_node k t)) = find_app_id_node k' t"
    by (auto simp: find_app_id_node_def del_app_id_node_def intro!: bt_find_del_other split: option.split)
  show "app_table_inv t \<Longrightarrow> id e = k \<Longrightarrow> snd (del_app_id_node k (link_app_id e t)) = t"
    by (simp add: del_app_id_node_def find_app_id_node_def link_app_id_def bucket_simps)
qed

lemma find_app_id_iff: "app_table_inv c \<Longrightarrow> find_app_id_node i c \<noteq> None \<longleftrightarrow> i \<in> app_ids c"
  using bt_find_iff_entry [of app_hash id APPID_HASH_SIZE "ai_table c" i]
  by (simp add: app_table_inv_def find_app_id_node_def app_ids_def)

lemma app_ids_link: "app_table_inv c \<Longrightarrow> app_ids (link_app_id i c) = insert i (app_ids c)"
proof -
  assume t: "app_table_inv c"
  have "j \<in> app_ids (link_app_id i c) \<longleftrightarrow> j = i \<or> j \<in> app_ids c" for j
    unfolding find_app_id_iff [OF t, symmetric] find_app_id_iff [OF app_id_table.inv_add [OF t], symmetric]
    by (simp add: app_id_table.look_add [OF t])
  then show ?thesis by auto
qed

lemma app_ids_count:
  assumes "app_ids_inv c"
  shows "ai_count c = int (card (app_ids c))"
proof -
  have "distinct (concat (ai_table c))"
    using bt_distinct_keys [of app_hash id APPID_HASH_SIZE "ai_table c"] assms
    by (simp add: app_ids_inv_def app_table_inv_def)
  then have "length (concat (ai_table c)) = card (app_ids c)"
    unfolding app_ids_def by (rule distinct_card [symmetric])
  then show ?thesis using assms by (simp add: app_ids_inv_def bt_size_def)
qed

lemma app_ids_inv_init: "app_ids_inv app_id_config_init" "app_ids app_id_config_init = {}"
proof -
  show e: "app_ids app_id_config_init = {}"
    using find_app_id_iff [OF app_id_table.inv_empty] app_id_table.look_empty by blast
  show "app_ids_inv app_id_config_init"
    using app_id_table.inv_empty e
    by (simp add: app_ids_inv_def app_id_config_init_def bucket_intros bucket_simps MAX_APP_ID_PER_RULE_def)
qed

lemma flush_app_ids: "app_table_inv c \<Longrightarrow> flush_app_id_list c = app_id_config_init"
  by (simp add: flush_app_id_list_def app_id_config_init_def bt_empty_def map_replicate_const)

text \<open>Adding: the table grows by the id exactly when 0 is returned.\<close>

lemma add_app_id_node_ok:
  assumes "app_ids_inv c" and "0 < i" and "add_app_id_node kz i c = (ret, c')"
  shows "app_ids_inv c' \<and> app_ids c' = (if ret then insert i (app_ids c) else app_ids c) \<and>
     (ret \<longleftrightarrow> i \<in> app_ids c \<or> (card (app_ids c) < 1024 \<and> kz i))"
proof -
  have t: "app_table_inv c" using assms(1) by (simp add: app_ids_inv_def)
  have cnt: "ai_count c = int (card (app_ids c))" using app_ids_count [OF assms(1)] .
  consider "i \<in> app_ids c" | "i \<notin> app_ids c" "\<not> (card (app_ids c) < 1024 \<and> kz i)"
    | "i \<notin> app_ids c" "card (app_ids c) < 1024" "kz i" by blast
  then show ?thesis
  proof cases
    case 1
    then show ?thesis using assms find_app_id_iff [OF t, of i] by (auto simp: add_app_id_node_def)
  next
    case 2
    then show ?thesis using assms find_app_id_iff [OF t, of i] cnt
      by (auto simp: add_app_id_node_def MAX_APP_ID_PER_RULE_def split: if_splits)
  next
    case 3
    then have none: "find_app_id_node i c = None" using find_app_id_iff [OF t, of i] by blast
    then have r: "ret" "c' = link_app_id i c"
      using 3 assms(3) cnt by (auto simp: add_app_id_node_def MAX_APP_ID_PER_RULE_def link_app_id_def)
    have "bt_unique id (ai_table c')"
      using none assms(1) r by (simp add: link_app_id_def app_ids_inv_def find_app_id_node_def bt_unique_add)
    moreover have "ai_count c' = int (bt_size (ai_table c'))" "ai_count c' \<le> MAX_APP_ID_PER_RULE"
      using assms(1) t r cnt 3 by (auto simp: link_app_id_def app_ids_inv_def bucket_simps MAX_APP_ID_PER_RULE_def)
    ultimately show ?thesis
      using r 3 assms(1,2) app_ids_link [OF t] app_id_table.inv_add [OF t] by (simp add: app_ids_inv_def)
  qed
qed

definition room :: "int set \<Rightarrow> int set \<Rightarrow> (int \<Rightarrow> bool) \<Rightarrow> bool" where
  "room S A kz \<longleftrightarrow> finite S \<and> A \<subseteq> S \<and> card S \<le> 1024 \<and> (\<forall>i. kz i)"

lemma room_mono: "room S A kz \<Longrightarrow> B \<subseteq> A \<Longrightarrow> room S B kz"
  by (auto simp: room_def)

lemma add_app_ids_ok:
  "app_ids_inv c \<Longrightarrow> \<forall>i\<in>set is. 0 < i \<Longrightarrow> add_app_ids kz is c = (ret, c') \<Longrightarrow>
     app_ids_inv c' \<and> app_ids c \<subseteq> app_ids c' \<and> app_ids c' \<subseteq> app_ids c \<union> set is \<and>
     (room S (app_ids c \<union> set is) kz \<longrightarrow> app_ids c' = app_ids c \<union> set is)"
proof (induction "is" arbitrary: c)
  case (Cons i "is")
  obtain r c1 where a: "add_app_id_node kz i c = (r, c1)" by fastforce
  from add_app_id_node_ok [OF Cons.prems(1) _ this] Cons.prems(2) have
    1: "app_ids_inv c1" "app_ids c1 = (if r then insert i (app_ids c) else app_ids c)"
      "r \<longleftrightarrow> i \<in> app_ids c \<or> (card (app_ids c) < 1024 \<and> kz i)" by auto
  have full: "r" if room: "room S (app_ids c \<union> set (i # is)) kz"
  proof (cases "i \<in> app_ids c")
    case False
    then have "app_ids c \<subset> S" using room by (auto simp: room_def)
    then have "card (app_ids c) < card S" using room psubset_card_mono by (auto simp: room_def)
    then show ?thesis using 1(3) room by (simp add: room_def)
  qed (use 1(3) in simp)
  show ?case
  proof (cases r)
    case False
    then have "ret = False" "c' = c1" using a Cons.prems(3) by auto
    then show ?thesis using 1 False full by auto
  next
    case True
    then have "add_app_ids kz is c1 = (ret, c')" using a Cons.prems(3) by simp
    from Cons.IH [OF 1(1) _ this] Cons.prems(2)
    have IH: "app_ids_inv c' \<and> app_ids c1 \<subseteq> app_ids c' \<and> app_ids c' \<subseteq> app_ids c1 \<union> set is \<and>
      (room S (app_ids c1 \<union> set is) kz \<longrightarrow> app_ids c' = app_ids c1 \<union> set is)"
      by simp
    have eq: "app_ids c1 = insert i (app_ids c)" using 1(2) True by simp
    have un: "insert i (app_ids c) \<union> set is = app_ids c \<union> set (i # is)" by auto
    show ?thesis using IH unfolding eq un by blast
  qed
qed simp

definition token_ids :: "json \<Rightarrow> int set" where
  "token_ids obj = (case app_id_token obj of None \<Rightarrow> {} | Some ids \<Rightarrow> set ids)"

lemma token_ids_pos: "i \<in> token_ids obj \<Longrightarrow> 0 < i"
  by (auto simp: token_ids_def app_id_token_def split: json.splits option.splits if_splits)

lemma add_token_ok:
  assumes "app_ids_inv c" and "add_app_id_token_to_rule kz obj c = Inr (ret, c')"
  shows "app_ids_inv c' \<and> app_ids c \<subseteq> app_ids c' \<and> app_ids c' \<subseteq> app_ids c \<union> token_ids obj \<and>
     (room S (app_ids c \<union> token_ids obj) kz \<longrightarrow>
        app_ids c' = app_ids c \<union> token_ids obj)"
proof (cases "app_id_token obj")
  case None
  then show ?thesis using assms by (auto simp: add_app_id_token_to_rule_def token_ids_def)
next
  case (Some ids)
  then have "add_app_ids kz ids c = (ret, c')" "token_ids obj = set ids"
    using assms(2) by (simp_all add: add_app_id_token_to_rule_def token_ids_def split: if_splits)
  moreover from this(2) have "\<forall>i\<in>set ids. 0 < i" using token_ids_pos [of _ obj] by blast
  ultimately show ?thesis using add_app_ids_ok [OF assms(1), of ids kz ret c' S] by metis
qed

lemma add_tokens_ok:
  "app_ids_inv c \<Longrightarrow> add_tokens kz ts c = Inr c' \<Longrightarrow> app_ids_inv c' \<and>
     app_ids c' \<subseteq> app_ids c \<union> \<Union> (token_ids ` set ts) \<and>
     (room S (app_ids c \<union> \<Union> (token_ids ` set ts)) kz \<longrightarrow>
        app_ids c' = app_ids c \<union> \<Union> (token_ids ` set ts))"
proof (induction ts arbitrary: c)
  case (Cons t ts)
  obtain r c1 where a: "add_app_id_token_to_rule kz t c = Inr (r, c1)" and b: "add_tokens kz ts c1 = Inr c'"
    using Cons.prems(2) by (auto simp: ub_bind_Inr)
  have 1: "app_ids_inv c1" "app_ids c1 \<subseteq> app_ids c \<union> token_ids t"
    using add_token_ok [OF Cons.prems(1) a] by simp_all
  have 2: "app_ids c1 = app_ids c \<union> token_ids t"
    if r: "room S (app_ids c \<union> \<Union> (token_ids ` set (t # ts))) kz"
  proof -
    have "room S (app_ids c \<union> token_ids t) kz" by (rule room_mono [OF r]) auto
    then show ?thesis using add_token_ok [OF Cons.prems(1) a, of S] by blast
  qed
  note IH = Cons.IH [OF 1(1) b]
  have "app_ids c' = app_ids c \<union> \<Union> (token_ids ` set (t # ts))"
    if r: "room S (app_ids c \<union> \<Union> (token_ids ` set (t # ts))) kz"
  proof -
    have e: "app_ids c1 \<union> \<Union> (token_ids ` set ts) = app_ids c \<union> \<Union> (token_ids ` set (t # ts))"
      using 2 [OF r] by auto
    show ?thesis using IH r unfolding e by blast
  qed
  moreover have "app_ids c' \<subseteq> app_ids c \<union> \<Union> (token_ids ` set (t # ts))"
    using IH 1(2) by auto
  ultimately show ?case using IH by simp
qed simp

text \<open>A list of tokens none of which is a range to the largest \<^verbatim>\<open>int\<close> is added without overflow.\<close>

lemma add_tokens_defined:
  "\<forall>obj\<in>set ts. \<not> range_to_int_max obj \<Longrightarrow> \<exists>c'. add_tokens kz ts c = Inr c'"
  by (induction ts arbitrary: c)
     (auto simp: add_app_id_token_to_rule_def split: option.split prod.split)

lemma del_app_id_node_ok:
  assumes "app_ids_inv c"
  shows "app_ids_inv (snd (del_app_id_node i c)) \<and> app_ids (snd (del_app_id_node i c)) = app_ids c - {i}"
proof (cases "find_app_id_node i c")
  case None
  then have "i \<notin> app_ids c" using assms find_app_id_iff [of c i] by (auto simp: app_ids_inv_def)
  then show ?thesis using None assms by (simp add: del_app_id_node_def)
next
  case (Some node)
  let ?c = "snd (del_app_id_node i c)"
  have t: "app_table_inv c" and u: "bt_unique id (ai_table c)" using assms by (simp_all add: app_ids_inv_def)
  have t': "app_table_inv ?c" using app_id_table.inv_del [OF t] .
  have tab: "ai_table ?c = bt_del (app_hash i) (\<lambda>node. node = i) (ai_table c)" "ai_count ?c = ai_count c - 1"
    using Some by (simp_all add: del_app_id_node_def)
  have "find_app_id_node i ?c = None"
    using bt_find_del_same [OF u, of "app_hash i" i] t by (simp add: find_app_id_node_def tab)
  then have "j \<in> app_ids ?c \<longleftrightarrow> j \<in> app_ids c \<and> j \<noteq> i" for j
    unfolding find_app_id_iff [OF t, symmetric] find_app_id_iff [OF t', symmetric]
    using app_id_table.look_del_other [OF t, of j i] by (cases "j = i") auto
  then have ids: "app_ids ?c = app_ids c - {i}" by auto
  have "Suc (bt_size (ai_table ?c)) = bt_size (ai_table c)"
    using Some t unfolding tab find_app_id_node_def by (intro bt_size_del) simp_all
  then have "ai_count ?c = int (bt_size (ai_table ?c))" using assms tab by (simp add: app_ids_inv_def)
  then show ?thesis using t' u ids assms tab by (simp add: app_ids_inv_def bt_unique_del)
qed

section \<open>The rules as a store\<close>

definition new_app_rule :: "int \<Rightarrow> app_filter_rule" where
  "new_app_rule rule_id = \<lparr>ar_rule_id = rule_id, ar_enable = 1, ar_filter_quic = False,
     ar_mac_list = fwx_mac_config_init, ar_app_id_list = app_id_config_init\<rparr>"

definition app_rule_inv :: "app_filter_rule \<Rightarrow> bool" where
  "app_rule_inv rule \<longleftrightarrow> mac_inv (ar_mac_list rule) \<and> app_ids_inv (ar_app_id_list rule)"

interpretation app_rules: rule_store af_rules af_rule_count ar_rule_id MAX_APP_FILTER_RULE_NUM
  app_rule_inv fwx_find_app_filter_rule new_app_rule fwx_add_app_filter_rule
  fwx_del_app_filter_rule rule_write
  by unfold_locales (auto simp: fwx_find_app_filter_rule_def fwx_add_app_filter_rule_def
      fwx_del_app_filter_rule_def rule_write_def new_app_rule_def app_rule_inv_def
      app_ids_inv_init mac_inv_init)

definition app_filter_inv :: "app_filter \<Rightarrow> bool" where
  "app_filter_inv af \<longleftrightarrow> distinct (map ar_rule_id (af_rules af)) \<and>
     af_rule_count af = int (length (af_rules af)) \<and> af_rule_count af \<le> MAX_APP_FILTER_RULE_NUM \<and>
     list_all app_rule_inv (af_rules af) \<and> mac_inv (af_whitelist af)"

lemma app_filter_inv_store: "app_filter_inv af \<longleftrightarrow> app_rules.inv af \<and> mac_inv (af_whitelist af)"
  by (auto simp: app_filter_inv_def app_rules.inv_def)

lemma app_filter_inv_init: "app_filter_inv fwx_app_filter_init"
  by (simp add: app_filter_inv_def fwx_app_filter_init_def mac_inv_init MAX_APP_FILTER_RULE_NUM_def)

lemma app_filter_inv_update [simp]:
  "app_filter_inv (fwx_update_appfilter_jiffies jiffies af) = app_filter_inv af"
  by (simp add: app_filter_inv_def fwx_update_appfilter_jiffies_def)

lemma find_rule_update [simp]:
  "fwx_find_app_filter_rule i (fwx_update_appfilter_jiffies jiffies af) = fwx_find_app_filter_rule i af"
  by (simp add: fwx_find_app_filter_rule_def fwx_update_appfilter_jiffies_def)

lemma whitelist_app_ops [simp]:
  "af_whitelist (snd (fwx_add_app_filter_rule ok i af)) = af_whitelist af"
  "af_whitelist (snd (fwx_del_app_filter_rule i af)) = af_whitelist af"
  "af_whitelist (rule_write i f af) = af_whitelist af"
  by (simp_all add: fwx_add_app_filter_rule_def fwx_del_app_filter_rule_def rule_write_def split: option.split)

lemma app_filter_inv_add: "app_filter_inv af \<Longrightarrow> app_filter_inv (snd (fwx_add_app_filter_rule ok i af))"
  by (simp add: app_filter_inv_store app_rules.inv_add)

lemma app_filter_inv_del: "app_filter_inv af \<Longrightarrow> app_filter_inv (snd (fwx_del_app_filter_rule i af))"
  by (simp add: app_filter_inv_store app_rules.inv_del)

lemma app_filter_inv_set:
  "app_filter_inv af \<Longrightarrow> ar_rule_id rule' = i \<Longrightarrow> app_rule_inv rule' \<Longrightarrow>
     app_filter_inv (rule_write i (\<lambda>_. rule') af)"
  by (simp add: app_filter_inv_store app_rules.inv_change)

lemma find_rule_set:
  "fwx_find_app_filter_rule i af \<noteq> None \<Longrightarrow> ar_rule_id rule' = i \<Longrightarrow>
     fwx_find_app_filter_rule j (rule_write i (\<lambda>_. rule') af) =
       (if j = i then Some rule' else fwx_find_app_filter_rule j af)"
  by (auto simp: app_rules.search_change)

section \<open>Requests keep the invariant\<close>

lemma mod_app_id_list_inv:
  "app_ids_inv c \<Longrightarrow> mod_app_id_list kz data_obj c = Inr c' \<Longrightarrow> app_ids_inv c'"
  by (auto simp: mod_app_id_list_def flush_app_ids app_ids_inv_def [of c] app_ids_inv_init ub_bind_Inr
        dest!: add_tokens_ok [rotated] add_token_ok [rotated] split: option.splits if_splits)
     (auto simp: app_ids_inv_def)

lemma mod_app_rule_ok:
  assumes "app_rule_inv rule" and "mod_app_rule kz kzm data_obj rule = Inr rule'"
  shows "app_rule_inv rule' \<and> ar_rule_id rule' = ar_rule_id rule"
  using assms by (auto simp: mod_app_rule_def app_rule_inv_def ub_bind_Inr mod_mac_list_inv
      dest: mod_app_id_list_inv)

lemma app_filter_inv_mod:
  assumes "app_filter_inv af" and "fwx_api_mod_app_filter_rule kz kzm jiffies data_obj af = Inr (ret, af')"
  shows "app_filter_inv af'"
proof -
  have "app_filter_inv (rule_write i (\<lambda>_. rule') af)"
    if "fwx_find_app_filter_rule i af = Some rule" "mod_app_rule kz kzm data_obj rule = Inr rule'"
    for i rule rule'
  proof -
    have "app_rule_inv rule" "ar_rule_id rule = i"
      using app_rules.search_good that(1) assms(1) app_filter_inv_store app_rules.search_Some by blast+
    then show ?thesis using mod_app_rule_ok [OF _ that(2)] assms(1) by (simp add: app_filter_inv_set)
  qed
  then show ?thesis using assms
    by (auto simp: fwx_api_mod_app_filter_rule_def ub_bind_Inr split: option.splits)
qed

lemma app_filter_inv_del_id:
  assumes "app_filter_inv af" and "fwx_del_app_id_from_rule i app_id af = Inr (ret, af')"
  shows "app_filter_inv af'"
proof (cases "fwx_find_app_filter_rule i af")
  case (Some rule)
  then have "af' = rule_write i (\<lambda>r. r\<lparr>ar_app_id_list := snd (del_app_id_node app_id (ar_app_id_list r))\<rparr>) af"
    using assms(2) by (auto simp: fwx_del_app_id_from_rule_def split: if_splits)
  then show ?thesis using assms(1) del_app_id_node_ok
    by (auto simp: app_filter_inv_store app_rule_inv_def intro!: app_rules.inv_change)
qed (use assms in \<open>auto simp: fwx_del_app_id_from_rule_def\<close>)

lemma app_filter_inv_del_ids:
  "app_filter_inv af \<Longrightarrow> del_app_ids i ids af = Inr af' \<Longrightarrow> app_filter_inv af'"
  by (induction ids arbitrary: af) (auto simp: ub_bind_Inr dest: app_filter_inv_del_id)

lemma app_filter_inv_del_token:
  assumes "app_filter_inv af" and "del_app_id_token_from_rule i obj af = Inr (ret, af')"
  shows "app_filter_inv af'"
  using assms by (auto simp: del_app_id_token_from_rule_def ub_bind_Inr
      dest: app_filter_inv_del_id app_filter_inv_del_ids split: json.splits option.splits if_splits)

lemma app_filter_inv_api:
  assumes "app_filter_inv af"
  shows "app_filter_inv (snd (fwx_api_add_app_filter_rule ok jiffies data_obj af))"
    and "fwx_api_del_app_filter_rule jiffies data_obj af = Inr (ret, af') \<Longrightarrow> app_filter_inv af'"
    and "app_filter_inv (fwx_api_flush_app_filter_rule jiffies af)"
    and "app_filter_inv (snd (fwx_api_add_app_filter_whitelist kzm jiffies data_obj af))"
    and "app_filter_inv (fwx_api_flush_app_filter_whitelist jiffies af)"
proof -
  show "app_filter_inv (snd (fwx_api_add_app_filter_rule ok jiffies data_obj af))"
    using assms by (auto simp: fwx_api_add_app_filter_rule_def app_filter_inv_add split: option.split)
  show "app_filter_inv af'" if "fwx_api_del_app_filter_rule jiffies data_obj af = Inr (ret, af')"
    using that assms app_filter_inv_del [of "fwx_update_appfilter_jiffies jiffies af"]
    by (auto simp: fwx_api_del_app_filter_rule_def Let_def
        dest!: app_filter_inv_del_token [rotated] split: option.splits) (metis snd_conv)
  show "app_filter_inv (fwx_api_flush_app_filter_rule jiffies af)"
    using assms unfolding fwx_api_flush_app_filter_rule_def app_filter_inv_update
    by (simp add: app_filter_inv_def MAX_APP_FILTER_RULE_NUM_def)
  show "app_filter_inv (snd (fwx_api_add_app_filter_whitelist kzm jiffies data_obj af))"
    using assms mac_inv_add_macs
    by (simp add: fwx_api_add_app_filter_whitelist_def split: option.split) (simp add: app_filter_inv_def)
  show "app_filter_inv (fwx_api_flush_app_filter_whitelist jiffies af)"
    using assms unfolding fwx_api_flush_app_filter_whitelist_def app_filter_inv_update
    by (simp add: app_filter_inv_def mac_inv_flush)
qed

section \<open>What the match and a modification mean\<close>

definition concerns :: "int \<Rightarrow> mac \<Rightarrow> app_filter_rule \<Rightarrow> bool" where
  "concerns app_id mac rule \<longleftrightarrow> ar_enable rule \<noteq> 0 \<and>
     (mac_members (ar_mac_list rule) = {} \<or> mac \<in> mac_members (ar_mac_list rule)) \<and>
     (if app_id = uint FWX_QUIC_PROTO then ar_filter_quic rule
      else app_id \<in> app_ids (ar_app_id_list rule))"

lemma app_rule_applies_iff: "app_rule_inv rule \<Longrightarrow> app_rule_applies app_id mac rule \<longleftrightarrow> concerns app_id mac rule"
  by (auto simp: app_rule_applies_def concerns_def app_rule_inv_def app_ids_inv_def mac_list_is_empty_iff
      mac_members_def find_app_id_iff [symmetric])

text \<open>
  the filter's decision is the newest enabled rule whose address set is empty or has the
  sender and whose application set has the application (for QUIC: whose QUIC switch is on); every
  newer rule does not concern the packet.
\<close>

theorem fwx_match_app_filter_rule_first:
  assumes "app_filter_inv af"
  shows "fwx_match_app_filter_rule app_id mac af = Some rule \<longleftrightarrow>
    (\<exists>before after. af_rules af = before @ rule # after \<and> concerns app_id mac rule \<and>
       (\<forall>r\<in>set before. \<not> concerns app_id mac r))"
proof -
  have "\<forall>r\<in>set (af_rules af). app_rule_applies app_id mac r = concerns app_id mac r"
    using assms app_rule_applies_iff by (simp add: app_filter_inv_def list_all_iff)
  then have "find (app_rule_applies app_id mac) (af_rules af) = find (concerns app_id mac) (af_rules af)"
    by (intro find_cong) simp_all
  then show ?thesis by (simp add: fwx_match_app_filter_rule_def find_first_iff)
qed

definition mod_request :: json where
  "mod_request = JObject [(cstr ''rule_id'', JNumber 7), (cstr ''app_action'', JNumber 1),
     (cstr ''app_id_list'', JArray [JNumber 1001, JString (cstr ''2001-2003'')]),
     (cstr ''mac_action'', JNumber 1),
     (cstr ''mac_list'', JArray [JString (cstr ''00:11:22:33:44:55'')])]"

definition one_rule :: app_filter where
  "one_rule = snd (fwx_add_app_filter_rule True 7 (snd (fwx_add_app_filter_rule True 8 fwx_app_filter_init)))"

lemma one_rule_inv: "app_filter_inv one_rule"
  by (simp add: one_rule_def app_filter_inv_add app_filter_inv_init)

lemma find_one_rule: "fwx_find_app_filter_rule 7 one_rule = Some (new_app_rule 7)"
  by (simp add: one_rule_def fwx_find_app_filter_rule_def fwx_add_app_filter_rule_def fwx_app_filter_init_def
      MAX_APP_FILTER_RULE_NUM_def new_app_rule_def)

theorem fwx_match_app_filter_rule_first_witness:
  "fwx_match_app_filter_rule (uint FWX_QUIC_PROTO) [0, 1, 2, 3, 4, 5]
      (rule_write 8 (\<lambda>r. r\<lparr>ar_filter_quic := True\<rparr>) one_rule) =
    Some ((new_app_rule 8)\<lparr>ar_filter_quic := True\<rparr>)"
proof -
  have inv: "app_filter_inv (rule_write 8 (\<lambda>r. r\<lparr>ar_filter_quic := True\<rparr>) one_rule)"
    using one_rule_inv by (auto simp: app_filter_inv_store app_rule_inv_def intro!: app_rules.inv_change)
  show ?thesis
    unfolding fwx_match_app_filter_rule_first [OF inv]
    by (rule exI [of _ "[new_app_rule 7]"], rule exI [of _ "[]"])
       (simp add: one_rule_def rule_write_def fwx_add_app_filter_rule_def fwx_find_app_filter_rule_def
         fwx_app_filter_init_def MAX_APP_FILTER_RULE_NUM_def new_app_rule_def concerns_def)
qed

text \<open>
  a request that replaces the applications of a rule makes its set exactly the ids and
  ranges of the request's list, if these are at most 1024 and there is memory; the address set
  follows the request, the rest of the rule and every other rule stay.
\<close>

theorem fwx_api_mod_app_filter_rule_replaces:
  assumes "app_filter_inv af"
    and "cJSON_GetObjectItem data_obj (cstr ''rule_id'') = Some id_obj"
    and "fwx_find_app_filter_rule (valueint id_obj) af = Some rule"
    and "cJSON_GetObjectItem data_obj (cstr ''app_action'') = Some (JNumber 1)"
    and "cJSON_GetObjectItem data_obj (cstr ''app_id_list'') = Some tokens"
    and "cJSON_GetObjectItem data_obj (cstr ''enable'') = None"
    and "cJSON_GetObjectItem data_obj (cstr ''filter_quic'') = None"
    and "\<forall>obj\<in>set (json_children tokens). \<not> range_to_int_max obj"
    and "card (\<Union> (token_ids ` set (json_children tokens))) \<le> 1024" and "\<forall>i. kz i"
  shows "\<exists>ids af'. fwx_api_mod_app_filter_rule kz kzm jiffies data_obj af = Inr (True, af') \<and>
    app_ids ids = \<Union> (token_ids ` set (json_children tokens)) \<and> app_filter_inv af' \<and>
    (\<forall>i. fwx_find_app_filter_rule i af' =
      (if i = valueint id_obj
       then Some (rule\<lparr>ar_app_id_list := ids, ar_mac_list := mod_mac_list kzm data_obj (ar_mac_list rule)\<rparr>)
       else fwx_find_app_filter_rule i af))"
proof -
  let ?ts = "json_children tokens" and ?S = "\<Union> (token_ids ` set (json_children tokens))"
  have rule: "app_rule_inv rule" "ar_rule_id rule = valueint id_obj"
    using app_rules.search_good app_rules.search_Some assms(1,3) app_filter_inv_store by blast+
  then have flush: "flush_app_id_list (ar_app_id_list rule) = app_id_config_init"
    by (simp add: flush_app_ids app_rule_inv_def app_ids_inv_def)
  obtain ids where ids: "add_tokens kz ?ts app_id_config_init = Inr ids"
    using add_tokens_defined [OF assms(8)] by blast
  have "finite (token_ids obj)" for obj by (auto simp: token_ids_def split: option.split)
  then have room: "room ?S ({} \<union> ?S) kz" using assms(9,10) by (auto simp: room_def)
  have ids_set: "app_ids ids = ?S"
    using add_tokens_ok [OF app_ids_inv_init(1) ids, of ?S] room by (simp add: app_ids_inv_init)
  define rule' where
    "rule' = rule\<lparr>ar_app_id_list := ids, ar_mac_list := mod_mac_list kzm data_obj (ar_mac_list rule)\<rparr>"
  have "mod_app_rule kz kzm data_obj rule = Inr rule'"
    using assms(4-7) ids flush
    by (simp add: mod_app_rule_def mod_app_id_list_def json_items_children rule'_def valueint_def)
  then have r: "fwx_api_mod_app_filter_rule kz kzm jiffies data_obj af =
      Inr (True, fwx_update_appfilter_jiffies jiffies (rule_write (valueint id_obj) (\<lambda>_. rule') af))"
    using assms(2,3) by (simp add: fwx_api_mod_app_filter_rule_def)
  have "ar_rule_id rule' = valueint id_obj" using rule by (simp add: rule'_def)
  then have "fwx_find_app_filter_rule i (rule_write (valueint id_obj) (\<lambda>_. rule') af) =
      (if i = valueint id_obj then Some rule' else fwx_find_app_filter_rule i af)" for i
    using assms(3) by (simp add: find_rule_set)
  then show ?thesis
    using r ids_set app_filter_inv_mod [OF assms(1) r] unfolding rule'_def
    by (intro exI [of _ ids] exI conjI allI) (assumption | simp)+
qed

lemma mod_request_items:
  "cJSON_GetObjectItem mod_request (cstr ''rule_id'') = Some (JNumber 7)"
  "cJSON_GetObjectItem mod_request (cstr ''app_action'') = Some (JNumber 1)"
  "cJSON_GetObjectItem mod_request (cstr ''app_id_list'') =
     Some (JArray [JNumber 1001, JString (cstr ''2001-2003'')])"
  "cJSON_GetObjectItem mod_request (cstr ''enable'') = None"
  "cJSON_GetObjectItem mod_request (cstr ''filter_quic'') = None"
  by code_simp+

lemma mod_request_tokens:
  "token_ids (JNumber 1001) = {1001}" "token_ids (JString (cstr ''2001-2003'')) = {2001, 2002, 2003}"
  "\<not> range_to_int_max (JNumber 1001)" "\<not> range_to_int_max (JString (cstr ''2001-2003''))"
  by code_simp+

theorem fwx_api_mod_app_filter_rule_replaces_witness:
  "\<exists>ids af'. fwx_api_mod_app_filter_rule (\<lambda>_. True) (\<lambda>_. True) 0 mod_request one_rule = Inr (True, af') \<and>
    app_ids ids = {1001, 2001, 2002, 2003} \<and> app_filter_inv af' \<and>
    (\<forall>i. fwx_find_app_filter_rule i af' =
      (if i = 7
       then Some ((new_app_rule 7)\<lparr>ar_app_id_list := ids,
              ar_mac_list := mod_mac_list (\<lambda>_. True) mod_request (ar_mac_list (new_app_rule 7))\<rparr>)
       else fwx_find_app_filter_rule i one_rule))"
proof -
  let ?tokens = "JArray [JNumber 1001, JString (cstr ''2001-2003'')]"
  have v: "valueint (JNumber 7) = 7" by (simp add: valueint_def)
  have c: "json_children ?tokens = [JNumber 1001, JString (cstr ''2001-2003'')]" by (simp add: json_children_def)
  have s: "\<Union> (token_ids ` set (json_children ?tokens)) = {1001, 2001, 2002, 2003}"
    unfolding c by (auto simp del: cstr_simps simp add: mod_request_tokens)
  have f: "fwx_find_app_filter_rule (valueint (JNumber 7)) one_rule = Some (new_app_rule 7)"
    using find_one_rule by (simp add: v)
  have t: "\<forall>obj\<in>set (json_children ?tokens). \<not> range_to_int_max obj"
    unfolding c by (simp del: cstr_simps add: mod_request_tokens)
  have k: "card (\<Union> (token_ids ` set (json_children ?tokens))) \<le> 1024" unfolding s by simp
  show ?thesis
    using fwx_api_mod_app_filter_rule_replaces [OF one_rule_inv mod_request_items(1) f mod_request_items(2,3,4,5) t k,
        of "\<lambda>_. True" "\<lambda>_. True" 0]
    unfolding s v by blast
qed

end
