(* ===== verification/Fwx_Conntrack.thy ===== *)
theory Fwx_Conntrack
  imports Fwx_Table
begin

text \<open>
  The module's own connection table (\<^verbatim>\<open>oaf/src/fwx_conntrack.c\<close>), used in bypass mode, where the
  kernel's conntrack is not available: 256 buckets keyed by the five-tuple, entries created
  when first seen, and a sweep that looks at six buckets per call and remembers where it was.
  \<^verbatim>\<open>jhash_3words\<close> and the clock are parameters. The table interprets the lookup-or-create
  interface for every hash function.
\<close>

definition AF_CONN_TIMEOUT :: u64 where "AF_CONN_TIMEOUT = 30"
definition AF_CONN_HASH_SIZE :: nat where "AF_CONN_HASH_SIZE = 256"
definition MAX_AF_CONN_CHECK_COUNT :: nat where "MAX_AF_CONN_CHECK_COUNT = 5"

datatype af_conn_state = AF_CONN_NEW | AF_CONN_ESTABLISHED | AF_CONN_DPI_FINISHED

type_synonym conn_key = "u32 \<times> u32 \<times> u16 \<times> u16 \<times> u8"
type_synonym jhash = "u32 \<Rightarrow> u32 \<Rightarrow> u32 \<Rightarrow> u32 \<Rightarrow> u32"

record af_conn =
  conn_key :: conn_key
  conn_total_pkts :: u32
  conn_app_id :: u32
  conn_client_hello :: bool
  conn_drop :: bool
  conn_ignore :: u8
  conn_state :: af_conn_state
  conn_last_jiffies :: u64

type_synonym conn_table = "af_conn buckets"

text \<open>\<^verbatim>\<open>time_after(a, b)\<close>: the difference, as a signed number, is negative.\<close>

definition time_after :: "u64 \<Rightarrow> u64 \<Rightarrow> bool" where
  "time_after a b \<longleftrightarrow> sint (b - a) < 0"

section \<open>Lookup and insertion\<close>

definition af_conn_hash :: "jhash \<Rightarrow> conn_key \<Rightarrow> nat" where
  "af_conn_hash jhash k = (case k of (src_ip, dst_ip, src_port, dst_port, protocol) \<Rightarrow>
     unat (jhash src_ip dst_ip (push_bit 16 (ucast protocol) OR ucast src_port) (ucast dst_port))
       mod AF_CONN_HASH_SIZE)"

definition af_conn_init :: conn_table where
  "af_conn_init = bt_empty AF_CONN_HASH_SIZE"

definition af_conn_cleanup :: "conn_table \<Rightarrow> conn_table" where
  "af_conn_cleanup t = map (\<lambda>_. []) t"

text \<open>
  The node comes from \<^verbatim>\<open>kmalloc\<close> and every field is set but \<^verbatim>\<open>ignore\<close>: \<open>junk\<close> is what was there.
\<close>

definition new_conn :: "u8 \<Rightarrow> u64 \<Rightarrow> conn_key \<Rightarrow> af_conn" where
  "new_conn junk jiffies k = \<lparr>conn_key = k, conn_total_pkts = 0, conn_app_id = 0,
     conn_client_hello = False, conn_drop = False, conn_ignore = junk, conn_state = AF_CONN_NEW,
     conn_last_jiffies = jiffies\<rparr>"

definition af_conn_add ::
  "bool \<Rightarrow> jhash \<Rightarrow> u8 \<Rightarrow> u64 \<Rightarrow> conn_key \<Rightarrow> conn_table \<Rightarrow> af_conn option \<times> conn_table" where
  "af_conn_add ok jhash junk jiffies k t =
     (if \<not> ok then (None, t)
      else let conn = new_conn junk jiffies k in (Some conn, bt_add (af_conn_hash jhash k) conn t))"

definition af_conn_find :: "jhash \<Rightarrow> conn_key \<Rightarrow> conn_table \<Rightarrow> af_conn option" where
  "af_conn_find jhash k t = bt_find (af_conn_hash jhash k) (\<lambda>conn. conn_key conn = k) t"

definition af_conn_find_and_add ::
  "bool \<Rightarrow> jhash \<Rightarrow> u8 \<Rightarrow> u64 \<Rightarrow> conn_key \<Rightarrow> conn_table \<Rightarrow> af_conn option \<times> conn_table" where
  "af_conn_find_and_add ok jhash junk jiffies k t = (case af_conn_find jhash k t of
      Some conn \<Rightarrow> (Some conn, t)
    | None \<Rightarrow> af_conn_add ok jhash junk jiffies k t)"

text \<open>A write through the pointer to the entry of a key.\<close>

definition conn_write :: "jhash \<Rightarrow> conn_key \<Rightarrow> (af_conn \<Rightarrow> af_conn) \<Rightarrow> conn_table \<Rightarrow> conn_table" where
  "conn_write jhash k f t = bt_update (af_conn_hash jhash k) (\<lambda>conn. conn_key conn = k) f t"

definition af_conn_update :: "jhash \<Rightarrow> u64 \<Rightarrow> conn_key \<Rightarrow> u32 \<Rightarrow> bool \<Rightarrow> conn_table \<Rightarrow> conn_table" where
  "af_conn_update jhash jiffies k app_id drp t =
     conn_write jhash k (\<lambda>conn. conn\<lparr>conn_app_id := app_id, conn_drop := drp,
       conn_last_jiffies := jiffies\<rparr>) t"

text \<open>Each entry in the bucket of its key, and no key twice.\<close>

definition conn_inv :: "jhash \<Rightarrow> conn_table \<Rightarrow> bool" where
  "conn_inv jhash t \<longleftrightarrow> bt_inv (af_conn_hash jhash) conn_key AF_CONN_HASH_SIZE t"

lemma af_conn_hash_lt [simp]: "af_conn_hash jhash k < AF_CONN_HASH_SIZE"
  by (simp add: af_conn_hash_def AF_CONN_HASH_SIZE_def split: prod.split)

lemma conn_inv_length [simp]: "conn_inv jhash t \<Longrightarrow> length t = AF_CONN_HASH_SIZE"
  by (simp add: conn_inv_def bt_inv_length)

interpretation conn_table: lookup_or_create af_conn_init
    "\<lambda>e. bt_add (af_conn_hash jhash (conn_key e)) e" "af_conn_find jhash" conn_key
    "conn_inv jhash" "new_conn junk jiffies" "af_conn_find_and_add True jhash junk jiffies"
  for jhash :: jhash and junk :: u8 and jiffies :: u64
proof
  fix t :: conn_table and e :: af_conn and k :: conn_key
  show "conn_inv jhash af_conn_init"
    by (simp add: conn_inv_def af_conn_init_def bucket_intros)
  show "conn_inv jhash t \<Longrightarrow> conn_inv jhash (bt_add (af_conn_hash jhash (conn_key e)) e t)"
    by (simp add: conn_inv_def bucket_intros)
  show "af_conn_find jhash k af_conn_init = None"
    by (simp add: af_conn_find_def af_conn_init_def bucket_simps)
  show "conn_inv jhash t \<Longrightarrow> af_conn_find jhash k (bt_add (af_conn_hash jhash (conn_key e)) e t) =
      (if k = conn_key e then Some e else af_conn_find jhash k t)"
    by (auto simp: af_conn_find_def bucket_simps)
  show "af_conn_find jhash k t = Some e \<Longrightarrow> conn_key e = k"
    unfolding af_conn_find_def by (drule bt_find_Some [where key = conn_key]) simp
  show "conn_key (new_conn junk jiffies k) = k" by (simp add: new_conn_def)
  show "af_conn_find jhash k t = Some e \<Longrightarrow> af_conn_find_and_add True jhash junk jiffies k t = (Some e, t)"
    by (simp add: af_conn_find_and_add_def)
  show "af_conn_find jhash k t = None \<Longrightarrow> af_conn_find_and_add True jhash junk jiffies k t =
      (Some (new_conn junk jiffies k),
       bt_add (af_conn_hash jhash (conn_key (new_conn junk jiffies k))) (new_conn junk jiffies k) t)"
    by (simp add: af_conn_find_and_add_def af_conn_add_def new_conn_def Let_def)
qed

section \<open>The sweep\<close>

text \<open>The table with the static variable \<^verbatim>\<open>last_bucket\<close>.\<close>

record conn_sweep =
  cs_table :: conn_table
  cs_last_bucket :: nat

definition conn_expired :: "u64 \<Rightarrow> u64 \<Rightarrow> af_conn \<Rightarrow> bool" where
  "conn_expired hz jiffies conn \<longleftrightarrow> time_after jiffies (conn_last_jiffies conn + AF_CONN_TIMEOUT * hz)"

definition clean_bucket :: "u64 \<Rightarrow> u64 \<Rightarrow> af_conn list \<Rightarrow> af_conn list" where
  "clean_bucket hz jiffies b = filter (\<lambda>conn. \<not> conn_expired hz jiffies conn) b"

function clean_loop :: "u64 \<Rightarrow> u64 \<Rightarrow> nat \<Rightarrow> nat \<Rightarrow> conn_sweep \<Rightarrow> conn_sweep" where
  "clean_loop hz jiffies i count s =
     (if i < AF_CONN_HASH_SIZE then
        let s = s\<lparr>cs_table := (cs_table s)[i := clean_bucket hz jiffies (cs_table s ! i)],
                  cs_last_bucket := i\<rparr>;
            count = Suc count
        in if count > MAX_AF_CONN_CHECK_COUNT then s else clean_loop hz jiffies (Suc i) count s
      else s)"
  by auto
termination by (relation "measure (\<lambda>(hz, jiffies, i, count, s). AF_CONN_HASH_SIZE - i)") auto

declare clean_loop.simps [simp del]

definition af_conn_clean_timeout :: "u64 \<Rightarrow> u64 \<Rightarrow> conn_sweep \<Rightarrow> conn_sweep" where
  "af_conn_clean_timeout hz jiffies s =
     (let s = clean_loop hz jiffies (cs_last_bucket s) 0 s
      in if cs_last_bucket s = AF_CONN_HASH_SIZE - 1 then s\<lparr>cs_last_bucket := 0\<rparr> else s)"

definition clean_set :: "u64 \<Rightarrow> u64 \<Rightarrow> nat set \<Rightarrow> conn_table \<Rightarrow> conn_table" where
  "clean_set hz jiffies S t =
     map (\<lambda>(i, b). if i \<in> S then clean_bucket hz jiffies b else b) (enumerate 0 t)"

lemma length_clean_set [simp]: "length (clean_set hz j S t) = length t"
  by (simp add: clean_set_def)

lemma nth_clean_set [simp]:
  "i < length t \<Longrightarrow> clean_set hz j S t ! i = (if i \<in> S then clean_bucket hz j (t ! i) else t ! i)"
  by (simp add: clean_set_def nth_enumerate_eq)

lemma clean_set_step:
  "lo < length t \<Longrightarrow> lo < hi \<Longrightarrow>
     clean_set hz j {Suc lo..<hi} (t[lo := clean_bucket hz j (t ! lo)]) = clean_set hz j {lo..<hi} t"
  by (rule nth_equalityI) (auto simp: nth_list_update)

lemma clean_set_union: "clean_set hz j S (clean_set hz j T t) = clean_set hz j (T \<union> S) t"
  by (rule nth_equalityI) (auto simp: clean_bucket_def)

lemma clean_set_one:
  "i < length t \<Longrightarrow> hi = Suc i \<Longrightarrow> t[i := clean_bucket hz j (t ! i)] = clean_set hz j {i..<hi} t"
  by (rule nth_equalityI) (auto simp: nth_list_update)

lemma clean_loop_range:
  "length (cs_table s) = AF_CONN_HASH_SIZE \<Longrightarrow> i < AF_CONN_HASH_SIZE \<Longrightarrow> count \<le> 5 \<Longrightarrow>
     clean_loop hz j i count s =
     s\<lparr>cs_table := clean_set hz j {i..<min 256 (i + (6 - count))} (cs_table s),
       cs_last_bucket := min 255 (i + (5 - count))\<rparr>"
proof (induction "5 - count" arbitrary: i count s)
  case 0
  then show ?case using clean_set_one [of i "cs_table s" "min 256 (i + (6 - count))" hz j]
    by (subst clean_loop.simps) (simp add: MAX_AF_CONN_CHECK_COUNT_def AF_CONN_HASH_SIZE_def Let_def)
next
  case (Suc d)
  let ?s = "s\<lparr>cs_table := (cs_table s)[i := clean_bucket hz j (cs_table s ! i)], cs_last_bucket := i\<rparr>"
  have step: "clean_loop hz j i count s = clean_loop hz j (Suc i) (Suc count) ?s"
    using Suc.hyps(2) Suc.prems by (subst clean_loop.simps) (simp add: MAX_AF_CONN_CHECK_COUNT_def Let_def)
  show ?case
  proof (cases "Suc i < AF_CONN_HASH_SIZE")
    case True
    have c: "Suc i + (6 - Suc count) = i + (6 - count)" "Suc i + (5 - Suc count) = i + (5 - count)"
      "i < min 256 (i + (6 - count))" using Suc.hyps(2) True by (auto simp: AF_CONN_HASH_SIZE_def)
    have "clean_loop hz j (Suc i) (Suc count) ?s =
       ?s\<lparr>cs_table := clean_set hz j {Suc i..<min 256 (i + (6 - count))} (cs_table ?s),
         cs_last_bucket := min 255 (i + (5 - count))\<rparr>"
      using Suc.hyps(1) [of "Suc count" ?s "Suc i", unfolded c(1,2)] Suc.hyps(2) Suc.prems True by simp
    then show ?thesis
      using step clean_set_step [OF _ c(3), of "cs_table s" hz j] Suc.prems by simp
  next
    case False
    then have i: "i = 255" using Suc.prems(2) by (simp add: AF_CONN_HASH_SIZE_def)
    have "clean_loop hz j (Suc i) (Suc count) ?s = ?s"
      using False by (subst clean_loop.simps) simp
    moreover have "(cs_table s)[255 := clean_bucket hz j (cs_table s ! 255)] =
        clean_set hz j {255..<256} (cs_table s)"
      using Suc.prems(1) by (intro clean_set_one) (simp_all add: AF_CONN_HASH_SIZE_def)
    moreover have "min 256 (255 + (6 - count)) = (256 :: nat)" "min 255 (255 + (5 - count)) = (255 :: nat)"
      using Suc.hyps(2) by auto
    ultimately show ?thesis using step i by simp
  qed
qed

text \<open>One call; the cursor is a multiple of five below 255.\<close>

lemma clean_timeout_once:
  assumes "length (cs_table s) = AF_CONN_HASH_SIZE" and "cs_last_bucket s = 5 * k" and "k < 51"
  shows "af_conn_clean_timeout hz j s =
     s\<lparr>cs_table := clean_set hz j {5 * k..<5 * k + 6} (cs_table s),
       cs_last_bucket := 5 * (Suc k mod 51)\<rparr>"
proof -
  have "min 256 (5 * k + 6) = 5 * k + 6" "min 255 (5 * k + 5) = 5 * Suc k" using assms(3) by auto
  then have "clean_loop hz j (cs_last_bucket s) 0 s = s\<lparr>cs_table := clean_set hz j {5 * k..<5 * k + 6} (cs_table s),
      cs_last_bucket := 5 * Suc k\<rparr>"
    using clean_loop_range [of s "5 * k" 0 hz j] assms by (simp add: AF_CONN_HASH_SIZE_def)
  moreover have "5 * Suc k = 255 \<longleftrightarrow> Suc k = 51" by auto
  ultimately show ?thesis
    using assms(3) by (cases "Suc k = 51") (auto simp: af_conn_clean_timeout_def Let_def AF_CONN_HASH_SIZE_def)
qed

lemma clean_timeout_pow:
  assumes "length (cs_table s) = AF_CONN_HASH_SIZE" and "cs_last_bucket s = 5 * k" and "k < 51"
  shows "(af_conn_clean_timeout hz j ^^ n) s =
     s\<lparr>cs_table := clean_set hz j (\<Union>m<n. {5 * ((k + m) mod 51)..<5 * ((k + m) mod 51) + 6}) (cs_table s),
       cs_last_bucket := 5 * ((k + n) mod 51)\<rparr>"
proof (induction n)
  case 0
  have "clean_set hz j {} t = t" for t by (rule nth_equalityI) auto
  then show ?case using assms(2,3) by simp
next
  case (Suc n)
  let ?s = "(af_conn_clean_timeout hz j ^^ n) s"
  have "Suc ((k + n) mod 51) mod 51 = (k + Suc n) mod 51" by (simp add: mod_Suc_eq)
  then show ?case
    using clean_timeout_once [of ?s "(k + n) mod 51" hz j] Suc assms(1)
    by (simp add: clean_set_union lessThan_Suc Un_commute)
qed

lemma sweep_covers:
  fixes i k :: nat
  assumes "k < 51" and "i < 256"
  shows "i \<in> (\<Union>m<51. {5 * ((k + m) mod 51)..<5 * ((k + m) mod 51) + 6})"
proof -
  define b where "b = (if i = 255 then 50 else i div 5)"
  have b: "b < 51" "5 * b \<le> i" "i < 5 * b + 6" using assms(2) by (auto simp: b_def)
  have "(k + (b + 51 - k) mod 51) mod 51 = (k + (b + 51 - k)) mod 51" by (simp add: mod_simps)
  also have "\<dots> = b" using assms(1) b(1) by simp
  finally have "(k + (b + 51 - k) mod 51) mod 51 = b" .
  then show ?thesis using b by (intro UN_I [of "(b + 51 - k) mod 51"]) auto
qed

text \<open>
  C30. The sweep gets everywhere. From any position that the cursor can have, 51 calls while the
  clock stands look into all 256 buckets, the last one included: exactly the connections that
  have timed out are gone, all others are where they were, and the cursor is back.
\<close>

theorem clean_timeout_full_sweep:
  assumes "length (cs_table s) = AF_CONN_HASH_SIZE" and "cs_last_bucket s \<in> {5 * k |k. k < 51}"
  shows "(af_conn_clean_timeout hz j ^^ 51) s =
     s\<lparr>cs_table := map (filter (\<lambda>conn. \<not> conn_expired hz j conn)) (cs_table s)\<rparr>"
proof -
  obtain k where k: "cs_last_bucket s = 5 * k" "k < 51" using assms(2) by blast
  have "clean_set hz j (\<Union>m<51. {5 * ((k + m) mod 51)..<5 * ((k + m) mod 51) + 6}) (cs_table s) =
      map (filter (\<lambda>conn. \<not> conn_expired hz j conn)) (cs_table s)"
    using sweep_covers [OF k(2)] assms(1)
    by (intro nth_equalityI) (auto simp: AF_CONN_HASH_SIZE_def clean_bucket_def)
  then show ?thesis using clean_timeout_pow [where n = 51, OF assms(1) k, of hz j] k by simp
qed

section \<open>States of the table\<close>

text \<open>What the module does with the table, in any order: packets, updates, sweeps.\<close>

inductive conn_reach :: "jhash \<Rightarrow> conn_sweep \<Rightarrow> bool" for jhash where
  cr_init: "conn_reach jhash \<lparr>cs_table = af_conn_init, cs_last_bucket = 0\<rparr>"
| cr_packet: "conn_reach jhash s \<Longrightarrow>
     conn_reach jhash (s\<lparr>cs_table := snd (af_conn_find_and_add ok jhash junk j k (cs_table s))\<rparr>)"
| cr_write: "conn_reach jhash s \<Longrightarrow> (\<And>c. conn_key (f c) = conn_key c) \<Longrightarrow>
     conn_reach jhash (s\<lparr>cs_table := conn_write jhash k f (cs_table s)\<rparr>)"
| cr_sweep: "conn_reach jhash s \<Longrightarrow> conn_reach jhash (af_conn_clean_timeout hz j s)"

lemma conn_inv_filter:
  assumes "conn_inv jhash t" and "bt_unique conn_key t"
  shows "conn_inv jhash (clean_set hz j S t) \<and> bt_unique conn_key (clean_set hz j S t)"
proof -
  have "bt_unique conn_key (clean_set hz j S t)"
    using assms(2) by (auto simp: bt_unique_nth clean_bucket_def distinct_map_filter)
  then show ?thesis using assms(1) by (auto simp: conn_inv_def bt_inv_def clean_bucket_def)
qed

lemma find_and_add_inv:
  assumes "conn_inv jhash t" and "bt_unique conn_key t"
  shows "conn_inv jhash (snd (af_conn_find_and_add ok jhash junk j k t)) \<and>
     bt_unique conn_key (snd (af_conn_find_and_add ok jhash junk j k t))"
proof (cases "af_conn_find jhash k t")
  case None
  then have "bt_unique conn_key (bt_add (af_conn_hash jhash k) (new_conn junk j k) t)"
    using assms(2) by (intro bt_unique_add) (simp_all add: af_conn_find_def new_conn_def)
  then show ?thesis using None assms
    by (simp add: af_conn_find_and_add_def af_conn_add_def Let_def conn_inv_def bt_inv_add new_conn_def)
qed (use assms in \<open>simp add: af_conn_find_and_add_def\<close>)

lemma conn_reach_inv:
  "conn_reach jhash s \<Longrightarrow> conn_inv jhash (cs_table s) \<and> bt_unique conn_key (cs_table s) \<and>
     (\<exists>k<51. cs_last_bucket s = 5 * k)"
proof (induction rule: conn_reach.induct)
  case cr_init
  show ?case using conn_table.inv_empty by (simp add: af_conn_init_def bucket_intros)
next
  case (cr_packet s ok junk j k)
  then show ?case using find_and_add_inv by simp
next
  case (cr_write s f k)
  then show ?case by (simp add: conn_write_def conn_inv_def bucket_intros)
next
  case (cr_sweep s hz j)
  then obtain k where k: "k < 51" "cs_last_bucket s = 5 * k" by blast
  have "Suc k mod 51 < 51" by simp
  then show ?case
    using clean_timeout_once [OF _ k(2,1)] cr_sweep.IH conn_inv_filter by auto
qed

text \<open>
  One entry per connection. In every state that packets, updates through an entry and sweeps
  lead to, for every hash function, the table holds no five-tuple twice and the lookup finds
  exactly the five-tuples that are in the table; the cursor of the sweep is one from which the
  full sweep is guaranteed.
\<close>

theorem conn_reach_unique:
  assumes "conn_reach jhash s"
  shows "distinct (map conn_key (concat (cs_table s))) \<and>
     (\<forall>k. (af_conn_find jhash k (cs_table s) \<noteq> None) = (k \<in> conn_key ` set (concat (cs_table s)))) \<and>
     length (cs_table s) = AF_CONN_HASH_SIZE \<and> cs_last_bucket s \<in> {5 * k |k. k < 51}"
proof -
  note i = conn_reach_inv [OF assms]
  then have b: "bt_inv (af_conn_hash jhash) conn_key AF_CONN_HASH_SIZE (cs_table s)"
    by (simp add: conn_inv_def)
  have "(af_conn_find jhash k (cs_table s) \<noteq> None) = (k \<in> conn_key ` set (concat (cs_table s)))" for k
    unfolding af_conn_find_def by (rule bt_find_iff_entry [OF b]) simp
  moreover have "distinct (map conn_key (concat (cs_table s)))" using i bt_distinct_keys [OF b] by simp
  ultimately show ?thesis using i bt_inv_length [OF b] by blast
qed

text \<open>
  Looking a connection up twice gives the same entry: the second call finds what the first
  one made and leaves the table alone, and other connections are not touched.
\<close>

theorem conn_find_and_add_stable:
  assumes "conn_inv jhash t" and "af_conn_find_and_add True jhash junk j k t = (c, t')"
  shows "af_conn_find_and_add True jhash junk' j' k t' = (c, t') \<and>
     af_conn_find jhash k t' = c \<and> (\<forall>k'. k' \<noteq> k \<longrightarrow> af_conn_find jhash k' t' = af_conn_find jhash k' t)"
proof -
  have "af_conn_find jhash k t' = c"
    using conn_table.look_obtain [OF assms(1), where k = k and junk = junk and jiffies = j] assms(2) by simp
  moreover obtain x where "c = Some x"
    using conn_table.obtain_entry_key [where jhash = jhash and junk = junk and jiffies = j and k = k and t = t] assms(2) by auto
  ultimately have "af_conn_find_and_add True jhash junk' j' k t' = (c, t')"
    by (simp add: af_conn_find_and_add_def)
  then show ?thesis
    using \<open>af_conn_find jhash k t' = c\<close> assms(2)
      conn_table.look_obtain_other [OF assms(1), where junk = junk and jiffies = j and k = k] by auto
qed

definition zero_hash :: jhash where "zero_hash a b c d = a"

definition one_conn :: conn_sweep where
  "one_conn = \<lparr>cs_table = snd (af_conn_find_and_add True zero_hash 0 100 (7, 8, 9, 10, 6) af_conn_init),
     cs_last_bucket = 0\<rparr>"

lemma one_conn_reach: "conn_reach zero_hash one_conn"
  using cr_packet [OF cr_init, of zero_hash True 0 100 "(7, 8, 9, 10, 6)"] by (simp add: one_conn_def)

theorem conn_reach_unique_witness:
  "distinct (map conn_key (concat (cs_table one_conn)))"
  using conn_reach_unique [OF one_conn_reach] by blast

theorem clean_timeout_full_sweep_witness:
  "(af_conn_clean_timeout 100 5000 ^^ 51) one_conn =
     one_conn\<lparr>cs_table := map (filter (\<lambda>conn. \<not> conn_expired 100 5000 conn)) (cs_table one_conn)\<rparr>"
  using conn_reach_inv [OF one_conn_reach] by (intro clean_timeout_full_sweep) (auto simp: one_conn_def)

theorem conn_find_and_add_stable_witness:
  "\<exists>c t'. af_conn_find_and_add True zero_hash 0 100 (7, 8, 9, 10, 6) af_conn_init = (c, t') \<and>
     af_conn_find_and_add True zero_hash 3 200 (7, 8, 9, 10, 6) t' = (c, t')"
proof -
  obtain c t' where f: "af_conn_find_and_add True zero_hash 0 100 (7, 8, 9, 10, 6) af_conn_init = (c, t')"
    by (metis prod.collapse)
  then show ?thesis using conn_find_and_add_stable [OF conn_table.inv_empty f] by blast
qed

end
