(* ===== verification/Fwx_Hooks.thy ===== *)
theory Fwx_Hooks
  imports Fwx_Mark Fwx_Active Fwx_Client_Timer Fwx_App_Filter Fwx_Conntrack Fwx_Feature
begin

text \<open>
  The verdict on a packet (\<^verbatim>\<open>oaf/src/fwx_main.c\<close>): the state of the whole module, the two rule
  tests, and the handlers of gateway mode, which keeps its findings in the mark of the
  kernel's connection, and of bypass mode, which keeps them in the module's own table. A handler
  gives \<open>None\<close> when it never returns, \<open>Some (Inl _)\<close> when the regular-expression compiler leaves
  its buffer.
\<close>

definition MAX_DPI_PKT_NUM :: u64 where "MAX_DPI_PKT_NUM = 256"
definition MAX_AF_SUPPORT_DATA_LEN :: int where "MAX_AF_SUPPORT_DATA_LEN = 3000"

text \<open>The variables that \<^verbatim>\<open>oaf/src/fwx_log.c\<close> and the filters make settable.\<close>

record sysctl =
  g_appfilter_enable :: bool
  g_mac_filter_enable :: bool
  g_record_enable :: bool
  g_by_pass_accl :: bool
  g_tcp_rst :: bool
  g_work_mode :: work_mode
  g_lan_ifname :: bytes
  fwx_lan_ip :: u32
  fwx_lan_mask :: u32

record fwx =
  fx_sysctl :: sysctl
  fx_clients :: clients
  fx_conns :: conn_sweep
  fx_conn_locked :: bool
  fx_app :: app_filter
  fx_mac :: mac_filter
  fx_features :: feature_state
  fx_apps :: "active_app_node list"
  fx_hosts :: "active_host_node list"
  fx_timer_count :: nat

text \<open>
  What the kernel answers while a packet is handled: the clocks, the parsers of addresses, the hash
  function, what is in memory that nobody initialised, and whether each allocation succeeds.
\<close>

record kernel =
  k_jiffies :: u64
  k_hz :: u64
  k_now :: u32
  k_in4_pton :: "bytes \<Rightarrow> bool"
  k_in6_pton :: "bytes \<Rightarrow> bool"
  k_regex_junk :: "nat \<Rightarrow> int"
  k_heap :: mem
  k_jhash :: jhash
  k_conn_junk :: u8
  k_ok_skb :: bool
  k_ok_client :: bool
  k_ok_conn :: bool
  k_ok_visit :: bool
  k_ok_app :: bool
  k_ok_host :: bool

text \<open>
  A packet as the handlers see it: its device, its source address, its headers and payload,
  the pieces of the payload if it is not linear, and its connection in the kernel's conntrack.
\<close>

record hook_packet =
  hp_dev :: "bytes option"
  hp_smac :: mac
  hp_skb :: "sk_buff option"
  hp_nonlinear :: bool
  hp_frags :: "bytes list"
  hp_ct :: "nf_conn option"

datatype verdict = NF_ACCEPT | NF_DROP

text \<open>The state after \<^verbatim>\<open>fwx_init\<close>, for given settings.\<close>

definition fwx_init :: "sysctl \<Rightarrow> fwx" where
  "fwx_init sys = \<lparr>fx_sysctl = sys, fx_clients = nf_client_list_init,
     fx_conns = \<lparr>cs_table = af_conn_init, cs_last_bucket = 0\<rparr>, fx_conn_locked = False,
     fx_app = fwx_app_filter_init, fx_mac = fwx_mac_filter_init, fx_features = feature_init,
     fx_apps = [], fx_hosts = [], fx_timer_count = 0\<rparr>"

section \<open>The rules\<close>

definition match_app_filter_rule :: "int \<Rightarrow> mac \<Rightarrow> fwx \<Rightarrow> bool" where
  "match_app_filter_rule appid mac s =
     (if \<not> g_appfilter_enable (fx_sysctl s) then False
      else if fwx_match_app_filter_whitelist mac (fx_app s) then False
      else fwx_match_app_filter_rule appid mac (fx_app s) \<noteq> None)"

definition match_mac_filter_rule :: "mac \<Rightarrow> fwx \<Rightarrow> bool" where
  "match_mac_filter_rule mac s =
     (if \<not> g_mac_filter_enable (fx_sysctl s) then False
      else if fwx_match_mac_filter_whitelist mac (fx_mac s) then False
      else fwx_match_mac_filter_rule mac (fx_mac s) \<noteq> None)"

text \<open>The interval is a 32-bit difference.\<close>

definition check_app_action_changed :: "kernel \<Rightarrow> bool \<Rightarrow> u32 \<Rightarrow> mac \<Rightarrow> fwx \<Rightarrow> bool" where
  "check_app_action_changed k action app_id mac s =
     (let max_jiffies = 30 * ucast (k_hz k) :: u32;
          interval_jiffies = ucast (k_jiffies k - ucast (af_update_jiffies (fx_app s))) :: u32
      in if interval_jiffies < max_jiffies
         then if match_app_filter_rule (sint app_id) mac s then \<not> action else action
         else False)"

definition af_should_send_tcp_rst :: "sysctl \<Rightarrow> sk_buff \<Rightarrow> flow_info \<Rightarrow> bool" where
  "af_should_send_tcp_rst sys skb flow =
     (if \<not> g_tcp_rst sys \<or> fl_l4_protocol flow \<noteq> IPPROTO_TCP then False
      else if skb_protocol skb \<noteq> ETH_P_IP then False else True)"

section \<open>The payload\<close>

text \<open>
  \<^verbatim>\<open>skb_seq_read\<close> returns the pieces one by one, an empty one at the end and no more than was asked
  for. What is copied is followed by what lies in the heap.
\<close>

fun read_frags :: "nat \<Rightarrow> bytes \<Rightarrow> bytes list \<Rightarrow> bytes" where
  "read_frags len buf [] = buf"
| "read_frags len buf (ptr # frags) =
     (let avail = take (len - length buf) ptr in
      if avail = [] then buf
      else if length (buf @ avail) \<ge> len then buf @ avail
      else read_frags len (buf @ avail) frags)"

definition read_skb :: "bool \<Rightarrow> mem \<Rightarrow> int \<Rightarrow> bytes list \<Rightarrow> mem option" where
  "read_skb ok heap len frags =
     (if \<not> ok \<or> len < 0 then None
      else let buf = read_frags (nat len) [] frags
        in Some (\<lambda>i. if 0 \<le> i \<and> i < int (length buf) then buf ! nat i else heap i))"

text \<open>The payload that is inspected; \<open>None\<close> when there is no memory for a copy.\<close>

definition linear_payload :: "kernel \<Rightarrow> hook_packet \<Rightarrow> flow_info \<Rightarrow> flow_info option" where
  "linear_payload k pkt flow =
     (if hp_nonlinear pkt \<and> fl_l4_len flow < MAX_AF_SUPPORT_DATA_LEN then
        map_option (\<lambda>m. flow\<lparr>fl_l4_data := m\<rparr>)
          (read_skb (k_ok_skb k) (k_heap k) (fl_l4_len flow) (hp_frags pkt))
      else Some flow)"

section \<open>What both handlers do with a client\<close>

definition fx_client_write :: "mac \<Rightarrow> (af_client \<Rightarrow> af_client) \<Rightarrow> fwx \<Rightarrow> fwx" where
  "fx_client_write mac f s = s\<lparr>fx_clients := client_write mac f (fx_clients s)\<rparr>"

definition fx_update_url :: "kernel \<Rightarrow> mac \<Rightarrow> flow_info \<Rightarrow> fwx \<Rightarrow> fwx" where
  "fx_update_url k mac flow s = fx_client_write mac
     (\<lambda>node. snd (update_url_visiting_info (k_in4_pton k) (k_in6_pton k) (sint (k_now k)) flow node)) s"

definition fx_update_app_info :: "kernel \<Rightarrow> mac \<Rightarrow> u32 \<Rightarrow> bool \<Rightarrow> bool \<Rightarrow> bool \<Rightarrow> bool \<Rightarrow> fwx \<Rightarrow> fwx" where
  "fx_update_app_info k mac app_id drp from_conntrack is_http update_visiting s = fx_client_write mac
     (\<lambda>node. snd (af_update_client_app_info (k_ok_visit k) (k_now k) (sint app_id) drp from_conntrack is_http
        update_visiting node)) s"

definition fx_active_app :: "kernel \<Rightarrow> mac \<Rightarrow> flow_info \<Rightarrow> fwx \<Rightarrow> fwx" where
  "fx_active_app k mac flow s =
     s\<lparr>fx_apps := af_update_active_app_list (k_ok_app k) (k_now k) mac flow (fx_apps s)\<rparr>"

definition fx_active_host :: "kernel \<Rightarrow> mac \<Rightarrow> flow_info \<Rightarrow> fwx \<Rightarrow> fwx" where
  "fx_active_host k mac flow s = s\<lparr>fx_hosts := af_update_active_host_list (k_in4_pton k) (k_in6_pton k)
     (k_ok_host k) (k_now k) mac flow (fx_hosts s)\<rparr>"

definition fx_match_feature :: "kernel \<Rightarrow> flow_info \<Rightarrow> fwx \<Rightarrow> (bool \<times> flow_info) ub_result option" where
  "fx_match_feature k flow s = fwx_match_feature (k_in4_pton k) (k_in6_pton k) (k_regex_junk k)
     (fs_ac (fx_features s)) (fs_features (fx_features s)) flow"

definition is_web :: "flow_info \<Rightarrow> bool" where
  "is_web flow \<longleftrightarrow> http_match (fl_http flow) \<or> https_match (fl_https flow)"

section \<open>Gateway mode\<close>

text \<open>What the hook returns: the verdict, whether a TCP reset is sent, the connection, the state.\<close>

record outcome =
  o_verdict :: verdict
  o_rst :: bool
  o_ct :: "nf_conn option"
  o_state :: fwx

definition accept :: "nf_conn option \<Rightarrow> fwx \<Rightarrow> outcome" where
  "accept ct s = \<lparr>o_verdict = NF_ACCEPT, o_rst = False, o_ct = ct, o_state = s\<rparr>"

definition gateway_client :: "flow_info \<Rightarrow> fwx \<Rightarrow> af_client option" where
  "gateway_client flow s =
     (if fl_src flow \<noteq> 0 then find_af_client_by_ip (fl_src flow) (fx_clients s)
      else (case fl_src6 flow of
          Some src6 \<Rightarrow> find_af_client_by_ipv6 src6 (fx_clients s) | None \<Rightarrow> None))"

text \<open>
  The connection of a known application: the verdict, if one is reached, after the action was
  adjusted to rules that changed within the last thirty seconds.
\<close>

definition gateway_known ::
  "kernel \<Rightarrow> mac \<Rightarrow> bool \<Rightarrow> nf_conn \<Rightarrow> fwx \<Rightarrow> verdict option \<times> nf_conn \<times> fwx" where
  "gateway_known k mac is_record_whitelist ct s =
     (let app_id = fwx_ct_get_appid ct in
      if app_id \<noteq> 0 \<and> fwx_ct_is_valid_appid app_id then
        let action = fwx_ct_test_bit FWX_CT_DROP_BIT ct; ignore = fwx_ct_test_bit FWX_CT_IGNORE_BIT ct in
        if app_id > 0 \<and> app_id < 1000 \<and> g_appfilter_enable (fx_sysctl s) \<and> action then (Some NF_DROP, ct, s)
        else if app_id > 1000 \<and> app_id \<le> 32000 then
          let changed = check_app_action_changed k action app_id mac s;
              ct_action = (if changed then \<not> action else action);
              ct' = (if changed then fwx_ct_set_bit FWX_CT_DROP_BIT ct_action ct else ct);
              s' = (if g_record_enable (fx_sysctl s) \<and> \<not> ignore \<and> \<not> is_record_whitelist
                    then fx_update_app_info k mac app_id ct_action True False
                      (\<not> fwx_ct_test_bit FWX_CT_DNS_MATCH_BIT ct') s
                    else s)
          in if g_appfilter_enable (fx_sysctl s) \<and> ct_action then (Some NF_DROP, ct', s') else (None, ct', s')
        else (None, ct, s)
      else (None, ct, s))"

definition gateway_mark :: "flow_info \<Rightarrow> nf_conn \<Rightarrow> flow_info \<times> nf_conn" where
  "gateway_mark flow ct =
     (let ct = fwx_ct_set_bit FWX_CT_DNS_MATCH_BIT (fl_match_by_dns flow) (fwx_ct_set_appid (fl_app_id flow) ct) in
      if fl_app_id flow < 1000 then (flow\<lparr>fl_ignore := True\<rparr>, ct)
      else (case fl_feature flow of
          None \<Rightarrow> (flow, ct)
        | Some n \<Rightarrow> if fn_ignore n \<noteq> 0
                    then (flow\<lparr>fl_ignore := True\<rparr>, fwx_ct_set_bit FWX_CT_IGNORE_BIT True ct)
                    else (flow, ct)))"

definition gateway_record :: "kernel \<Rightarrow> mac \<Rightarrow> bool \<Rightarrow> flow_info \<Rightarrow> fwx \<Rightarrow> fwx" where
  "gateway_record k mac is_record_whitelist flow s =
     (if g_record_enable (fx_sysctl s) then
        let s1 = (if \<not> fl_ignore flow \<and> \<not> is_record_whitelist then
              let s0 = fx_update_app_info k mac (fl_app_id flow) (fl_drop flow) False (is_web flow)
                    (\<not> fl_match_by_dns flow) s
              in if fl_app_id flow > 0 then fx_active_app k mac flow s0 else s0
            else s)
        in if \<not> is_record_whitelist then fx_active_host k mac flow s1 else s1
      else s)"

definition gateway_verdict ::
  "kernel \<Rightarrow> mac \<Rightarrow> bool \<Rightarrow> sk_buff \<Rightarrow> bool \<Rightarrow> flow_info \<Rightarrow> nf_conn \<Rightarrow> fwx \<Rightarrow> outcome" where
  "gateway_verdict k mac is_record_whitelist skb hit flow0 ct0 s =
     (let (flow, ct) = (if hit then gateway_mark flow0 ct0 else (flow0, ct0));
          app_drop = (hit \<and> match_app_filter_rule (sint (fl_app_id flow)) mac s);
          drp = (app_drop \<or> match_mac_filter_rule mac s);
          flow = (if drp then flow\<lparr>fl_drop := True\<rparr> else flow);
          ct = (if drp then fwx_ct_set_bit FWX_CT_DROP_BIT True ct else ct)
      in \<lparr>o_verdict = (if drp then NF_DROP else NF_ACCEPT),
          o_rst = (drp \<and> af_should_send_tcp_rst (fx_sysctl s) skb flow),
          o_ct = Some ct, o_state = gateway_record k mac is_record_whitelist flow s\<rparr>)"

text \<open>The part that inspects the payload of a connection that is not known yet.\<close>

definition gateway_inspect ::
  "kernel \<Rightarrow> hook_packet \<Rightarrow> sk_buff \<Rightarrow> mac \<Rightarrow> bool \<Rightarrow> flow_info \<Rightarrow> nf_conn \<Rightarrow> fwx \<Rightarrow> outcome ub_result option" where
  "gateway_inspect k pkt skb mac is_record_whitelist flow0 ct s =
     (case ct_acct_packets ct of
        None \<Rightarrow> Some (Inr (accept (Some ct) s))
      | Some total_packets \<Rightarrow>
          if total_packets > MAX_DPI_PKT_NUM then Some (Inr (accept (Some ct) s))
          else (case linear_payload k pkt (if fwx_ct_test_bit FWX_CT_CLIENT_HELLO_BIT ct
                  then flow0\<lparr>fl_client_hello := True\<rparr> else flow0) of
              None \<Rightarrow> Some (Inr (accept (Some ct) s))
            | Some flow1 \<Rightarrow>
                let flow = dpi_main flow1;
                    s1 = (if \<not> is_record_whitelist then fx_update_url k mac flow s else s);
                    ct1 = fwx_ct_set_bit FWX_CT_CLIENT_HELLO_BIT (fl_client_hello flow) ct
                in map_option (\<lambda>r. ub_bind r (\<lambda>(hit, flow').
                     Inr (gateway_verdict k mac is_record_whitelist skb hit flow' ct1 s1)))
                   (fx_match_feature k flow s1)))"

text \<open>A packet of a client's connection, from the look at its mark on.\<close>

definition gateway_conn ::
  "kernel \<Rightarrow> hook_packet \<Rightarrow> sk_buff \<Rightarrow> mac \<Rightarrow> bool \<Rightarrow> flow_info \<Rightarrow> nf_conn \<Rightarrow> fwx \<Rightarrow> outcome ub_result option" where
  "gateway_conn k pkt skb mac is_record_whitelist flow ct s =
     (case gateway_known k mac is_record_whitelist ct s of
        (Some v, ct1, s1) \<Rightarrow> Some (Inr \<lparr>o_verdict = v, o_rst = False, o_ct = Some ct1, o_state = s1\<rparr>)
      | (None, ct1, s1) \<Rightarrow>
          if fwx_ct_test_bit FWX_CT_DROP_BIT ct1 \<and> fwx_ct_has_valid_drop_mark ct1
          then Some (Inr \<lparr>o_verdict = NF_DROP, o_rst = False, o_ct = Some ct1, o_state = s1\<rparr>)
          else if fwx_ct_get_appid ct1 \<noteq> 0 \<and> fwx_ct_is_valid_appid (fwx_ct_get_appid ct1)
          then Some (Inr (accept (Some ct1) s1))
          else gateway_inspect k pkt skb mac is_record_whitelist flow ct1 s1)"

text \<open>Whether the handler looks at a packet at all, and what it read in the headers.\<close>

definition gateway_admit :: "hook_packet \<Rightarrow> sysctl \<Rightarrow> (sk_buff \<times> flow_info \<times> nf_conn) option" where
  "gateway_admit pkt sys =
     (case (hp_dev pkt, hp_skb pkt) of
        (Some dev, Some skb) \<Rightarrow>
          if \<not> strstr dev (g_lan_ifname sys) then None
          else (case parse_flow_proto (Some skb) flow_zero of
              (False, flow) \<Rightarrow> None
            | (True, flow) \<Rightarrow>
                if af_match_private_lan_dst flow \<and> fl_dport flow \<noteq> 53 then None
                else (case hp_ct pkt of
                    None \<Rightarrow> None
                  | Some ct \<Rightarrow> if fl_l4_protocol flow = IPPROTO_TCP \<and> \<not> ct_confirmed ct then None
                              else Some (skb, flow, ct)))
      | _ \<Rightarrow> None)"

definition fwx_hook_gateway_handle :: "kernel \<Rightarrow> hook_packet \<Rightarrow> fwx \<Rightarrow> outcome ub_result option" where
  "fwx_hook_gateway_handle k pkt s =
     (case gateway_admit pkt (fx_sysctl s) of
        None \<Rightarrow> Some (Inr (accept (hp_ct pkt) s))
      | Some (skb, flow, ct) \<Rightarrow>
          (case gateway_client flow s of
             None \<Rightarrow> Some (Inr (accept (hp_ct pkt) s))
           | Some client \<Rightarrow>
               gateway_conn k pkt skb (cl_mac client) (cl_record_whitelist client) flow ct
                 (fx_client_write (cl_mac client) (\<lambda>node. node\<lparr>cl_update_jiffies := k_jiffies k\<rparr>) s)))"

section \<open>Bypass mode\<close>

definition fx_conn_write :: "jhash \<Rightarrow> conn_key \<Rightarrow> (af_conn \<Rightarrow> af_conn) \<Rightarrow> fwx \<Rightarrow> fwx" where
  "fx_conn_write jhash key f s =
     s\<lparr>fx_conns := (fx_conns s)\<lparr>cs_table := conn_write jhash key f (cs_table (fx_conns s))\<rparr>\<rparr>"

definition flow_key :: "flow_info \<Rightarrow> conn_key" where
  "flow_key flow = (fl_src flow, fl_dst flow, fl_sport flow, fl_dport flow, word_of_int (fl_l4_protocol flow))"

text \<open>Whether the handler looks at a packet at all, and what it read in the headers.\<close>

definition bypass_admit :: "hook_packet \<Rightarrow> sysctl \<Rightarrow> (sk_buff \<times> flow_info) option" where
  "bypass_admit pkt sys =
     (case (hp_skb pkt, hp_dev pkt) of
        (Some skb, Some dev) \<Rightarrow>
          if fwx_lan_ip sys = 0 \<or> fwx_lan_mask sys = 0 then None
          else if strstr dev (cstr ''docker'') then None
          else (case parse_flow_proto (Some skb) flow_zero of
              (False, flow) \<Rightarrow> None
            | (True, flow) \<Rightarrow>
                if af_match_private_lan_dst flow \<and> fl_dport flow \<noteq> 53 then None
                else if fl_src flow \<noteq> 0 \<or> fl_dst flow \<noteq> 0 then
                  if fwx_lan_ip sys = fl_src flow \<or> fwx_lan_ip sys = fl_dst flow then None
                  else if af_check_bcast_ip flow \<or> af_match_local_packet flow then None
                  else if fl_src flow AND fwx_lan_mask sys \<noteq> fwx_lan_ip sys AND fwx_lan_mask sys then None
                  else Some (skb, flow)
                else None)
      | _ \<Rightarrow> None)"

text \<open>What is done at the end, whether the application was known or has just been found.\<close>

definition bypass_finish ::
  "kernel \<Rightarrow> conn_key \<Rightarrow> sk_buff \<Rightarrow> mac \<Rightarrow> bool \<Rightarrow> bool \<Rightarrow> bool \<Rightarrow> flow_info \<Rightarrow> fwx \<Rightarrow> outcome" where
  "bypass_finish k key skb mac is_record_whitelist conn_ignored rst flow s =
     (let mac_drop = (\<not> fl_drop flow \<and> match_mac_filter_rule mac s);
          flow = (if mac_drop then flow\<lparr>fl_drop := True\<rparr> else flow);
          s1 = (if mac_drop then fx_conn_write (k_jhash k) key (\<lambda>conn. conn\<lparr>conn_drop := True\<rparr>) s else s);
          s2 = (if g_record_enable (fx_sysctl s) \<and> \<not> conn_ignored \<and> \<not> is_record_whitelist
                then fx_update_app_info k mac (fl_app_id flow) (fl_drop flow) False (is_web flow)
                  (\<not> fl_match_by_dns flow) s1
                else s1)
      in \<lparr>o_verdict = (if fl_drop flow then NF_DROP else NF_ACCEPT),
          o_rst = (rst \<or> mac_drop \<and> af_should_send_tcp_rst (fx_sysctl s) skb flow),
          o_ct = None, o_state = s2\<rparr>)"

definition conn_found :: "flow_info \<Rightarrow> af_conn \<Rightarrow> af_conn" where
  "conn_found flow conn = conn\<lparr>conn_app_id := fl_app_id flow, conn_drop := fl_drop flow,
     conn_ignore := (if fl_app_id flow < 1000 then 1
       else (case fl_feature flow of Some n \<Rightarrow> if fn_ignore n \<noteq> 0 then 1 else 0 | None \<Rightarrow> 0)),
     conn_state := AF_CONN_DPI_FINISHED\<rparr>"

text \<open>The application of a connection has just been found.\<close>

definition bypass_found ::
  "kernel \<Rightarrow> conn_key \<Rightarrow> sk_buff \<Rightarrow> mac \<Rightarrow> bool \<Rightarrow> af_conn \<Rightarrow> flow_info \<Rightarrow> fwx \<Rightarrow> outcome" where
  "bypass_found k key skb mac is_record_whitelist conn flow s =
     (let ign = conn_ignore (conn_found flow conn) \<noteq> 0;
          s1 = fx_conn_write (k_jhash k) key (conn_found flow) s;
          s2 = (if \<not> ign \<and> \<not> is_record_whitelist then fx_active_app k mac flow s1 else s1)
      in if match_app_filter_rule (sint (fl_app_id flow)) mac s2
         then bypass_finish k key skb mac is_record_whitelist ign
           (af_should_send_tcp_rst (fx_sysctl s) skb flow) (flow\<lparr>fl_drop := True\<rparr>)
           (fx_conn_write (k_jhash k) key (\<lambda>c. c\<lparr>conn_drop := True\<rparr>) s2)
         else bypass_finish k key skb mac is_record_whitelist ign False flow s2)"

text \<open>A packet of a connection whose application is not known yet.\<close>

definition bypass_inspect ::
  "kernel \<Rightarrow> hook_packet \<Rightarrow> sk_buff \<Rightarrow> mac \<Rightarrow> bool \<Rightarrow> conn_key \<Rightarrow> af_conn \<Rightarrow> flow_info \<Rightarrow> fwx \<Rightarrow>
     outcome ub_result option" where
  "bypass_inspect k pkt skb mac is_record_whitelist key conn flow0 s =
     (if g_by_pass_accl (fx_sysctl s) \<and> conn_total_pkts conn > 256 then Some (Inr (accept None s))
      else (case linear_payload k pkt flow0 of
          None \<Rightarrow> Some (Inr (accept None s))
        | Some flow1 \<Rightarrow>
            let flow = dpi_main (flow1\<lparr>fl_client_hello := conn_client_hello conn\<rparr>);
                s1 = fx_conn_write (k_jhash k) key (\<lambda>c. c\<lparr>conn_client_hello := fl_client_hello flow\<rparr>) s;
                s2 = (if \<not> is_record_whitelist then fx_active_host k mac flow (fx_update_url k mac flow s1) else s1)
            in map_option (\<lambda>r. ub_bind r (\<lambda>(hit, flow).
                 Inr (if hit then bypass_found k key skb mac is_record_whitelist conn flow s2
                      else bypass_finish k key skb mac is_record_whitelist (conn_ignore conn \<noteq> 0) False flow s2)))
               (fx_match_feature k flow s2)))"

text \<open>
  After the client is known. The lock of the connection table is taken to find or make the
  connection; when there is no memory for one, the function returns with the lock held.
\<close>

definition bypass_conn ::
  "kernel \<Rightarrow> hook_packet \<Rightarrow> sk_buff \<Rightarrow> mac \<Rightarrow> bool \<Rightarrow> flow_info \<Rightarrow> fwx \<Rightarrow> outcome ub_result option" where
  "bypass_conn k pkt skb mac is_record_whitelist flow s =
     (let key = flow_key flow in
      if fx_conn_locked s then None
      else (case af_conn_find_and_add (k_ok_conn k) (k_jhash k) (k_conn_junk k) (k_jiffies k) key
              (cs_table (fx_conns s)) of
          (None, t) \<Rightarrow> Some (Inr (accept None (s\<lparr>fx_conns := (fx_conns s)\<lparr>cs_table := t\<rparr>, fx_conn_locked := True\<rparr>)))
        | (Some conn0, t) \<Rightarrow>
            let seen = (\<lambda>c. c\<lparr>conn_last_jiffies := k_jiffies k, conn_total_pkts := conn_total_pkts c + 1\<rparr>);
                conn = seen conn0;
                s1 = fx_conn_write (k_jhash k) key seen (s\<lparr>fx_conns := (fx_conns s)\<lparr>cs_table := t\<rparr>\<rparr>)
            in if conn_app_id conn = 0 \<and> conn_drop conn
               then Some (Inr \<lparr>o_verdict = NF_DROP, o_rst = False, o_ct = None, o_state = s1\<rparr>)
               else if conn_app_id conn \<noteq> 0 then
                 let changed = (conn_app_id conn > 1000 \<and>
                       check_app_action_changed k (conn_drop conn) (conn_app_id conn) mac s1);
                     flow' = flow\<lparr>fl_app_id := conn_app_id conn,
                       fl_drop := (if changed then \<not> conn_drop conn else conn_drop conn)\<rparr>
                 in Some (Inr (bypass_finish k key skb mac is_record_whitelist (conn_ignore conn \<noteq> 0) False flow' s1))
               else bypass_inspect k pkt skb mac is_record_whitelist key conn flow s1))"

definition fwx_hook_bypass_handle :: "kernel \<Rightarrow> hook_packet \<Rightarrow> fwx \<Rightarrow> outcome ub_result option" where
  "fwx_hook_bypass_handle k pkt s =
     (case bypass_admit pkt (fx_sysctl s) of
        None \<Rightarrow> Some (Inr (accept None s))
      | Some (skb, flow) \<Rightarrow>
          (case find_and_add_af_client (k_ok_client k) (k_jiffies k) (hp_smac pkt) (fx_clients s) of
             (None, cs) \<Rightarrow> Some (Inr (accept None (s\<lparr>fx_clients := cs\<rparr>)))
           | (Some client, cs) \<Rightarrow>
               let mac = cl_mac client;
                   s1 = fx_client_write mac (\<lambda>node. node\<lparr>cl_update_jiffies := k_jiffies k,
                     cl_ip := (if fl_src flow \<noteq> 0 then fl_src flow else cl_ip node)\<rparr>) (s\<lparr>fx_clients := cs\<rparr>)
               in bypass_conn k pkt skb mac (cl_record_whitelist client) flow s1))"

section \<open>Hooks, timer and messages\<close>

definition fwx_pre_hook :: "kernel \<Rightarrow> hook_packet \<Rightarrow> fwx \<Rightarrow> outcome ub_result option" where
  "fwx_pre_hook k pkt s =
     (if g_work_mode (fx_sysctl s) = AF_MODE_BYPASS then Some (Inr (accept (hp_ct pkt) s))
      else fwx_hook_gateway_handle k pkt s)"

definition fwx_by_pass_hook :: "kernel \<Rightarrow> hook_packet \<Rightarrow> fwx \<Rightarrow> outcome ub_result option" where
  "fwx_by_pass_hook k pkt s =
     (if g_work_mode (fx_sysctl s) = AF_MODE_GATEWAY then Some (Inr (accept (hp_ct pkt) s))
      else fwx_hook_bypass_handle k pkt s)"

definition fwx_timer_func :: "kernel \<Rightarrow> fwx \<Rightarrow> fwx option" where
  "fwx_timer_func k s =
     (let s1 = (if fx_timer_count s mod 60 = 0
                then s\<lparr>fx_clients := check_client_expire (k_hz k) (k_jiffies k) (fx_clients s)\<rparr> else s);
          s2 = s1\<lparr>fx_timer_count := fx_timer_count s1 + 1\<rparr>
      in if fx_conn_locked s2 then None
         else Some (s2\<lparr>fx_conns := af_conn_clean_timeout (k_hz k) (k_jiffies k) (fx_conns s2)\<rparr>))"

text \<open>
  A netlink message: \<open>umsg\<close> is the memory at its data, where a header of eight bytes is followed by
  the action. The length in the header is not compared with the length of the message.
\<close>

datatype nl_action = FWX_NL_MSG_INIT | FWX_NL_MSG_ADD_FEATURE | FWX_NL_MSG_CLEAN_FEATURE |
  FWX_NL_MSG_FEATURE_LOAD_DONE | FWX_NL_MSG_OTHER

definition nl_action_of :: "u32 \<Rightarrow> nl_action" where
  "nl_action_of n = (if n = 0 then FWX_NL_MSG_INIT else if n = 1 then FWX_NL_MSG_ADD_FEATURE
     else if n = 2 then FWX_NL_MSG_CLEAN_FEATURE else if n = 3 then FWX_NL_MSG_FEATURE_LOAD_DONE
     else FWX_NL_MSG_OTHER)"

definition fwx_user_msg_handle :: "(nat \<Rightarrow> bool) \<Rightarrow> mem \<Rightarrow> int \<Rightarrow> fwx \<Rightarrow> fwx ub_result option" where
  "fwx_user_msg_handle kz data len s =
     (if word_of_int len < (4 :: u32) then Some (Inr s)
      else (case nl_action_of (load_le32 data 0) of
          FWX_NL_MSG_INIT \<Rightarrow> Some (Inr (s\<lparr>fx_clients := af_client_list_reset_report_num (fx_clients s)\<rparr>))
        | FWX_NL_MSG_ADD_FEATURE \<Rightarrow> Some (ub_bind
            (af_add_feature_msg_handle kz (slice data 4 (len - 4)) (len - 4) (fx_features s))
            (\<lambda>fs. Inr (s\<lparr>fx_features := fs\<rparr>)))
        | FWX_NL_MSG_CLEAN_FEATURE \<Rightarrow> Some (Inr (s\<lparr>fx_features := af_clean_feature_list (fx_features s)\<rparr>))
        | FWX_NL_MSG_FEATURE_LOAD_DONE \<Rightarrow>
            map_option (\<lambda>fs. Inr (s\<lparr>fx_features := fs\<rparr>)) (af_feature_load_done_msg_handle kz (fx_features s))
        | FWX_NL_MSG_OTHER \<Rightarrow> Some (Inr s)))"

definition MAX_FWX_NETLINK_MSG_LEN :: int where "MAX_FWX_NETLINK_MSG_LEN = 1024"

definition fwx_netlink_msg_rcv :: "(nat \<Rightarrow> bool) \<Rightarrow> nat \<Rightarrow> mem \<Rightarrow> fwx \<Rightarrow> fwx ub_result option" where
  "fwx_netlink_msg_rcv kz skb_len umsg s =
     (if skb_len \<ge> 16 then
        let magic = load_le32 umsg 0; len = sint (load_le32 umsg 4) in
        if magic \<noteq> 0xa0b0c0d0 then Some (Inr s)
        else if len \<le> 0 \<or> len \<ge> MAX_FWX_NETLINK_MSG_LEN then Some (Inr s)
        else fwx_user_msg_handle kz (\<lambda>i. umsg (8 + i)) len s
      else Some (Inr s))"

end
