(* ===== verification/Fwxd_Load_Correct.thy ===== *)
theory Fwxd_Load_Correct
  imports Fwxd_Load Fwxd_Custom_File Fwx_Hooks
begin

text \<open>
  The daemon and the kernel together: what the kernel's parser makes of the line of an application
  that the daemon accepted, what arrives of a load, and what the requests for custom features answer.
\<close>

section \<open>A feature in the kernel\<close>

definition port_ranges :: "bytes \<Rightarrow> port_info" where
  "port_ranges s =
     (if s = [] then []
      else case (parse_integer (takeWhile (\<lambda>c. c \<noteq> 0x2D) s) 1 65535) of
          None \<Rightarrow> []
        | Some a \<Rightarrow> (case parse_integer (tl (dropWhile (\<lambda>c. c \<noteq> 0x2D) s)) 1 65535 of
            None \<Rightarrow> [\<lparr>rv_not = False, rv_start = a, rv_end = a\<rparr>]
          | Some b \<Rightarrow> [\<lparr>rv_not = False, rv_start = a, rv_end = b\<rparr>]))"

lemma trim_id:
  assumes "s \<noteq> []" and "\<not> is_space (hd s)" and "\<not> is_space (last s)"
  shows "rev (dropWhile is_space (rev (dropWhile is_space s))) = s"
proof -
  have "dropWhile is_space s = s" using assms by (cases s) simp_all
  moreover have "dropWhile is_space (rev s) = rev s" using assms by (cases s rule: rev_cases) simp_all
  ultimately show ?thesis by simp
qed

lemma port_not_space: "is_digit c \<or> c = 0x2D \<Longrightarrow> \<not> is_space c"
  by (auto dest: digit_not_blank simp: is_space_def)

lemma scan_d_nat:
  assumes "0 \<le> a" and "a < 2 ^ 31" and "rest = [] \<or> \<not> is_digit (hd rest)"
  shows "scan_d (print_number a @ rest) = Some (a, rest)"
proof -
  obtain c cs where c: "nat_dec (nat a) = c # cs" "is_digit c" by (rule nat_dec_Cons)
  note tw = takeWhile_nat_dec [OF assms(3), of "nat a"] and k = k_atoi_nat_dec [of "nat a"]
  have "\<not> is_space c" "c \<noteq> 0x2D" using digit_not_blank [OF c(2)] by simp_all
  then show ?thesis
    using assms(1,2) tw k c to_int32_id [of a] by (simp add: scan_d_def print_number_def Let_def)
qed

lemma k_trim_port: "port_text s \<Longrightarrow> s \<noteq> [] \<Longrightarrow> k_trim s = s"
  unfolding k_trim_def using port_text_in [OF _ hd_in_set] port_text_in [OF _ last_in_set]
  by (intro trim_id port_not_space) blast+

lemma parse_port_text:
  assumes "port_text s"
  shows "parse_port_info s = Inr (port_ranges s)"
proof (cases "s = []")
  case True
  then show ?thesis by (simp add: parse_port_info_def k_trim_def port_ranges_def)
next
  case False
  have nobar: "0x7C \<notin> set s" and valid: "validate_range_value s" and nobang: "hd s \<noteq> 0x21"
    using port_text_in [OF assms] hd_in_set [OF False]
    by (force simp: validate_range_value_def is_digit_def)+
  have trim: "k_trim s = s" by (rule k_trim_port [OF assms False])
  have scan: "scan_fields 0x7C s = ([], s)"
    using scan_fields_join [of "[]" "0x7C" s] nobar False by simp
  obtain c cs where s: "s = c # cs" "c \<noteq> 0x21" using False nobang by (cases s) auto
  have t0: "tl s = cs" using s by simp
  have "parse_range_value s = Some (hd (port_ranges s)) \<and> length (port_ranges s) = 1"
  proof -
    consider a where "1 \<le> a" "a \<le> 65535" "s = print_number a"
      | a b where "1 \<le> a" "a \<le> b" "b \<le> 65535" "s = print_number a @ 0x2D # print_number b"
      using assms False unfolding port_text_def by blast
    then show ?thesis
    proof cases
      case (1 a)
      have nodash: "0x2D \<notin> set s" using no_dash [of a] 1 by simp
      have sc: "scan_d s = Some (a, [])" using scan_d_nat [of a "[]"] 1 by simp
      have tw: "takeWhile (\<lambda>c. c \<noteq> 0x2D) s = s" "tl (dropWhile (\<lambda>c. c \<noteq> 0x2D) s) = []"
        using nodash dropWhile_eq_Nil_conv [of "\<lambda>c. c \<noteq> 0x2D" s] takeWhile_eq_all_conv [of "\<lambda>c. c \<noteq> 0x2D" s]
        by (metis, metis list.sel(2))
      moreover have "parse_integer s 1 65535 = Some a" using parse_integer_print [of 1 a 65535] 1 by simp
      moreover have "parse_integer [] 1 65535 = None" by (simp add: parse_integer_def)
      ultimately have "port_ranges s = [\<lparr>rv_not = False, rv_start = a, rv_end = a\<rparr>]"
        using False unfolding port_ranges_def tw by simp
      then show ?thesis using valid trim sc nodash s by (simp add: parse_range_value_def Let_def)
    next
      case (2 a b)
      have sc: "scan_d s = Some (a, 0x2D # print_number b)"
        using scan_d_nat [of a "0x2D # print_number b"] 2 by (simp add: is_digit_def)
      have sc': "scan_d (print_number b) = Some (b, [])" using scan_d_nat [of b "[]"] 2 by simp
      have "port_ranges s = [\<lparr>rv_not = False, rv_start = a, rv_end = b\<rparr>]"
        using parse_integer_print [of 1 a 65535] parse_integer_print [of 1 b 65535] 2 no_dash [of a]
        by (simp add: port_ranges_def cut_at)
      moreover have "0x2D \<in> set s" using 2 by simp
      moreover have "sscanf_d_d s = Some (a, b)" using sc sc' by (simp add: sscanf_d_d_def)
      ultimately show ?thesis using valid trim s by (simp add: parse_range_value_def Let_def)
    qed
  qed
  then show ?thesis
    using trim scan False by (cases "port_ranges s") (simp_all add: parse_port_info_def MAX_PORT_RANGE_NUM_def)
qed

definition kernel_pos :: "custom_payload \<Rightarrow> pos_info" where
  "kernel_pos p = \<lparr>pi_pos = cp_position p, pi_value = word_of_int (cp_value p)\<rparr>"

lemma sscanf_payload:
  assumes "payload_ok p"
  shows "sscanf_d_x (payload_text p) old = (2, cp_position p, cp_value p)"
proof -
  let ?n = "cp_position p" and ?v = "nat (cp_value p)"
  have b: "- (2 ^ 31) \<le> ?n" "?n < 2 ^ 31" "0 \<le> cp_value p" "cp_value p < 256"
    using assms by (simp_all add: payload_ok_def)
  obtain c cs where c: "nat_dec (nat \<bar>?n\<bar>) = c # cs" "is_digit c" by (rule nat_dec_Cons)
  note cd = digit_not_blank [OF c(2)]
  let ?rest = "0x3A # print_02x (cp_value p)"
  have tw: "takeWhile is_digit (nat_dec (nat \<bar>?n\<bar>) @ ?rest) = nat_dec (nat \<bar>?n\<bar>)"
    "dropWhile is_digit (nat_dec (nat \<bar>?n\<bar>) @ ?rest) = ?rest"
    by (rule takeWhile_nat_dec; simp add: is_digit_def)+
  have k: "k_atoi_loop 0 (nat_dec (nat \<bar>?n\<bar>)) = \<bar>?n\<bar>" by (simp add: k_atoi_nat_dec)
  have d: "?v div 16 < 16" "?v mod 16 < 16" using b by simp_all
  have hexes: "is_hex_digit (xdigit d)" "hex_value (xdigit d) = int d" "xdigit d OR 0x20 \<noteq> 0x78" "\<not> is_space (xdigit d)" if "d < 16" for d
  proof -
    have "list_all (\<lambda>d. is_hex_digit (xdigit d) \<and> hex_value (xdigit d) = int d \<and> xdigit d OR 0x20 \<noteq> 0x78 \<and>
        \<not> is_space (xdigit d)) [0..<16]" by code_simp
    then show "is_hex_digit (xdigit d)" "hex_value (xdigit d) = int d" "xdigit d OR 0x20 \<noteq> 0x78" "\<not> is_space (xdigit d)"
      using that by (auto simp: list_all_iff)
  qed
  have "strtoul_16 (print_02x (cp_value p)) = cp_value p"
    using hexes [OF d(1)] hexes [OF d(2)] b to_int32_id [of "cp_value p"]
    by (simp add: print_02x_two strtoul_16_def Let_def zdiv_int zmod_int)
  moreover have "skip_spaces (print_02x (cp_value p)) = print_02x (cp_value p)"
    using hexes(4) [OF d(1)] b by (simp add: print_02x_two skip_spaces_def)
  moreover have "skip_spaces (c # u) = c # u" "skip_spaces (0x2D # u) = 0x2D # u" for u
    using cd by (auto simp: skip_spaces_def is_space_def)
  ultimately show ?thesis
    using tw k c cd b hexes(1) [OF d(1)] to_int32_id [of ?n] print_02x_two [OF b(3,4)]
    by (cases "?n < 0") (simp_all add: sscanf_d_x_def payload_text_def print_number_def Let_def)
qed

lemma length_payload: "payload_ok p \<Longrightarrow> length (payload_text p) < 64"
proof -
  assume p: "payload_ok p"
  have "nat \<bar>cp_position p\<bar> < 10 ^ 10" using p by (auto simp: payload_ok_def)
  then have "length (nat_dec (nat \<bar>cp_position p\<bar>)) \<le> 10" by (rule length_nat_dec) simp
  then show ?thesis
    using p print_02x_ok(3) [of "cp_value p"]
    by (cases "cp_position p < 0") (simp_all add: payload_text_def print_number_def payload_ok_def)
qed

lemma sep_join_fields: "ts \<noteq> [] \<Longrightarrow> sep_join d ts = join_fields d (butlast ts) (last ts)"
proof (induction ts)
  case (Cons t ts)
  then show ?case by (cases ts) simp_all
qed simp

lemma dict_loop_payload:
  assumes "\<forall>p\<in>set ps. payload_ok p" and "length acc + length ps < MAX_POS_INFO_PER_FEATURE - 1"
  shows "\<exists>old'. dict_loop (map payload_text ps) old acc = Inr (old', acc @ map kernel_pos ps)"
  using assms
proof (induction ps arbitrary: old acc)
  case (Cons p ps)
  have "copy_field ''pos'' 64 (payload_text p) = Inr (payload_text p)"
    using length_payload Cons.prems by (simp add: copy_field_def)
  then show ?case
    using Cons.IH [of "acc @ [kernel_pos p]" "(cp_position p, cp_value p)"] sscanf_payload [of p old] Cons.prems
    by (auto simp: kernel_pos_def Let_def)
qed auto

lemma parse_dict_payload:
  assumes "\<forall>p\<in>set ps. payload_ok p" and "length ps \<le> CUSTOM_MAX_PAYLOADS"
  shows "parse_dict (sep_join 0x7C (map payload_text ps)) = Inr (map kernel_pos ps)"
proof (cases "ps = []")
  case True
  then show ?thesis
    by (simp add: parse_dict_def scan_fields_def copy_field_def sscanf_d_x_def skip_spaces_def)
next
  case False
  let ?fs = "map payload_text (butlast ps)" and ?r = "payload_text (last ps)"
  have last: "payload_ok (last ps)" using assms(1) False by simp
  have ps: "ps = butlast ps @ [last ps]" using False by simp
  have "0 < length ps" using False by simp
  then have short: "length (butlast ps) < 15" using assms(2) by (simp add: custom_limits)
  have bl: "\<forall>p\<in>set (butlast ps). payload_ok p" using assms(1) by (meson in_set_butlastD)
  have nobar: "0x7C \<notin> set (payload_text p)" "payload_text p \<noteq> []" if "payload_ok p" for p
    using payload_text_no(1) [OF that] by (auto simp: payload_text_def)
  have join: "sep_join 0x7C (map payload_text ps) = join_fields 0x7C ?fs ?r"
    using sep_join_fields [of "map payload_text ps"] False by (simp add: map_butlast last_map)
  have "scan_fields 0x7C (join_fields 0x7C ?fs ?r) = (?fs, ?r)"
  proof (rule scan_fields_join)
    show "?fs = [] \<or> hd ?fs \<noteq> []" by (cases "butlast ps") (simp_all add: payload_text_def)
  qed (use nobar last assms(1) in \<open>auto dest: in_set_butlastD\<close>)
  moreover obtain old' where "dict_loop ?fs (0, 0) [] = Inr (old', map kernel_pos (butlast ps))"
    using dict_loop_payload [of "butlast ps" "[]" "(0, 0)"] bl short by (auto simp: MAX_POS_INFO_PER_FEATURE_def)
  moreover have "copy_field ''pos'' 64 ?r = Inr ?r" using length_payload [OF last] by (simp add: copy_field_def)
  moreover have "map kernel_pos (butlast ps) @ [kernel_pos (last ps)] = map kernel_pos ps"
    by (subst (3) ps) simp
  ultimately show ?thesis
    using sscanf_payload [OF last] by (simp add: parse_dict_def join kernel_pos_def)
qed

text \<open>The node that the kernel keeps for a feature of an application.\<close>

definition kernel_node :: "custom_app \<Rightarrow> custom_feature \<Rightarrow> feature_node" where
  "kernel_node app f = \<lparr>fn_app_id = word_of_int (ca_appid app), fn_app_name = take 63 (af_trim_space (ca_name app)),
     fn_feature = feature_text f, fn_proto = (if cf_protocol f = cstr ''tcp'' then 6 else 17), fn_sport = 0,
     fn_dport_info = port_ranges (cf_dest_port f), fn_host_url = cf_domain f, fn_request_url = cf_uri f,
     fn_search_str = [], fn_ignore = 0, fn_pos_info = map kernel_pos (cf_payload f)\<rparr>"

lemma add_app_feature_custom:
  assumes "feature_ok f" and "length (feature_text f) \<le> CUSTOM_MAX_FEATURE_TEXT"
  shows "add_app_feature (\<lambda>_. True) (ca_appid app) (take 127 (af_trim_space (ca_name app))) (feature_text f) st =
     Inr (link_feature (kernel_node app f) (st\<lparr>fs_allocs := Suc (fs_allocs st)\<rparr>))"
proof -
  let ?ps = "sep_join 0x7C (map payload_text (cf_payload f))"
  let ?fs = "[cf_protocol f, [], cf_dest_port f, cf_domain f, cf_uri f]"
  note ok = assms(1) [unfolded feature_ok_def]
  have p: "cf_protocol f = cstr ''tcp'' \<or> cf_protocol f = cstr ''udp''" "length (cf_protocol f) = 3" "cf_protocol f \<noteq> []"
    using ok by auto
  have no: "\<forall>s\<in>set ?fs. 0x3B \<notin> set s" "0x3B \<notin> set ?ps"
    using field_charD feature_fields [OF assms(1)] unfolding list.set by blast+
  have scan: "scan_fields 0x3B (feature_text f) = (?fs, ?ps)"
    unfolding feature_text_def by (rule scan_fields_join [OF no]) (use p in auto)
  have tot: "length (cf_protocol f) + length (cf_dest_port f) + length (cf_domain f) + length (cf_uri f) + length ?ps + 5 < 128"
    using assms(2) by (simp add: feature_text_def custom_limits)
  have min: "\<not> length (feature_text f) < MIN_FEATURE_STR_LEN"
    using p(2) by (simp add: feature_text_def MIN_FEATURE_STR_LEN_def)
  have len: "length (cf_domain f) < 32" "length (cf_dest_port f) < 16" "length ?ps < 128" "length (cf_uri f) < 128"
    using ok length_port_text tot by (auto simp: text_ok_def)
  have cf: "copy_field nm sz s = Inr s" if "length s < sz" for nm sz s
    using that by (simp add: copy_field_def)
  have f: "field nm sz ?fs k = Inr (?fs ! k)" if "k < 5" "length (?fs ! k) < sz" for nm sz k
    using that by (simp add: field_def cf)
  have g: "field nm sz ?fs k = Inr []" if "5 \<le> k" for nm sz k
    using that by (simp add: field_def)
  have fields: "field ''proto_str'' 16 ?fs 0 = Inr (cf_protocol f)" "field ''src_port_str'' 16 ?fs 1 = Inr []"
    "field ''dst_port_str'' 16 ?fs 2 = Inr (cf_dest_port f)" "field ''host_url'' 32 ?fs 3 = Inr (cf_domain f)"
    "field ''request_url'' 128 ?fs 4 = Inr (cf_uri f)" "field ''search_str'' 128 ?fs 6 = Inr []"
    using f [of 0 16] f [of 1 16] f [of 2 16] f [of 3 32] f [of 4 128] g [of 6] p(2) len by simp_all
  have dict: "(if length ?fs = 5 then copy_field ''dict'' 128 ?ps else field ''dict'' 128 ?fs 5) = Inr ?ps"
    using len by (simp add: cf)
  have tmp: "(if length ?fs = 7 then copy_field ''tmp_buf'' 128 ?ps else field ''tmp_buf'' 128 ?fs 7) = Inr []"
    using g [of 7] by simp
  have ports: "parse_port_info (cf_dest_port f) = Inr (port_ranges (cf_dest_port f))"
    using ok parse_port_text by blast
  have pos: "parse_dict ?ps = Inr (map kernel_pos (cf_payload f))" using ok parse_dict_payload by blast
  have sport: "(case scan_d [] of Some (n, _) \<Rightarrow> n | None \<Rightarrow> 0) = 0" by (simp add: scan_d_def)
  have node: "add_app_feature_node (\<lambda>_. True) (feature_text f) (ca_appid app) (take 127 (af_trim_space (ca_name app)))
      proto 0 (port_ranges (cf_dest_port f)) (cf_domain f) (cf_uri f) ?ps [] 0 st =
    Inr (link_feature ((kernel_node app f)\<lparr>fn_proto := word_of_int proto\<rparr>) (st\<lparr>fs_allocs := Suc (fs_allocs st)\<rparr>))" for proto
    using len tot assms(2) pos unfolding add_app_feature_node_def Let_def
    by (simp add: cf kernel_node_def MAX_HOST_URL_LEN_def MAX_REQUEST_URL_LEN_def MAX_SEARCH_STR_LEN_def
        MAX_FEATURE_STR_LEN_def MAX_APP_NAME_LEN_def custom_limits)
  have udp: "cstr ''udp'' \<noteq> cstr ''tcp''" by simp
  have same: "(kernel_node app f)\<lparr>fn_proto := (if cf_protocol f = cstr ''tcp'' then 6 else 17)\<rparr> = kernel_node app f"
    by (simp add: kernel_node_def)
  show ?thesis
    using p(1) min udp same unfolding add_app_feature_def scan prod.case fields ub_bind_simps Let_def dict tmp ports sport
    by (auto simp: node IPPROTO_TCP_def IPPROTO_UDP_def kernel_node_def simp del: cstr_simps)
qed

section \<open>A line in the kernel\<close>

lemma find_brackets_skip:
  "0x5B \<notin> set xs \<Longrightarrow> 0x5D \<notin> set xs \<Longrightarrow>
     find_brackets i (xs @ ys) pos len = find_brackets (i + length xs) ys pos len"
  by (induction xs arbitrary: i) (auto split: option.split)

lemma kstrtol_print:
  assumes "0 \<le> n" and "n < 2 ^ 31"
  shows "kstrtol_10 (print_number n) = Some n"
proof -
  obtain c cs where c: "nat_dec (nat n) = c # cs" "is_digit c" by (rule nat_dec_Cons)
  have "takeWhile is_digit cs = cs" "dropWhile is_digit cs = []"
    using nat_dec_digits [of "nat n"] c by (simp_all add: list_all_iff)
  then show ?thesis
    using assms c digit_not_blank [OF c(2)] k_atoi_nat_dec [of "nat n"]
    by (simp add: kstrtol_10_def print_number_def Let_def del: takeWhile_eq_all_conv dropWhile_eq_Nil_conv)
qed

lemma trim_print_kernel: "0 \<le> n \<Longrightarrow> af_trim_space (print_number n) = print_number n"
  unfolding af_trim_space_def
  using nat_dec_in [OF hd_in_set] nat_dec_in [OF last_in_set] digit_not_blank
  by (intro trim_id) (auto simp: print_number_def)

lemma kernel_header:
  assumes "app_ok classes app" and "af_trim_space (ca_name app) \<noteq> []"
  shows "af_parse_feature_app_header (app_text app) 128 = Some (ca_appid app, take 127 (af_trim_space (ca_name app)))"
proof -
  let ?id = "print_number (ca_appid app)"
  note ok = assms(1) [unfolded app_ok_def custom_limits]
  have id: "0 < ca_appid app" "ca_appid app < 100000" using ok by auto
  have digits: "is_digit c" if "c \<in> set ?id" for c using that id by (auto simp: print_number_def nat_dec_in)
  have no: "0x3A \<notin> set (?id @ 0x7E # ca_name app)" "0x7E \<notin> set ?id"
    using digits [of "0x3A"] digits [of "0x7E"] app_name_char [OF assms(1), of "0x3A"]
    by (auto simp: is_digit_def)
  have header: "takeWhile (\<lambda>c. c \<noteq> 0x3A) (app_text app) = ?id @ 0x7E # ca_name app"
    unfolding app_text_def using cut_at(1) [OF no(1)] by simp
  have colon: "0x3A \<in> set (app_text app)" by (simp add: app_text_def)
  have "length ?id \<le> 5" using length_nat_dec [of "nat (ca_appid app)" 5] id by (simp add: print_number_def)
  then have len: "length (?id @ 0x7E # ca_name app) < 128" using ok by simp
  have sp: "dropWhile (\<lambda>c. \<not> is_space c) ?id = []" using digits digit_not_blank by auto
  have n: "trim_space ?id = ?id" "af_trim_space ?id = ?id" "kstrtol_10 ?id = Some (ca_appid app)"
    "to_int32 (ca_appid app) = ca_appid app" "af_trim_space [] = []"
    using id trim_print_number trim_print_kernel kstrtol_print to_int32_id by (auto simp: af_trim_space_def)
  show ?thesis
    using n(3-5) len id(1) assms(2) colon
    unfolding af_parse_feature_app_header_def Let_def header cut_at [OF no(2)] n(2) sp by simp
qed

lemma body_char:
  assumes "app_ok classes app" and "c \<in> set (sep_join 0x2C (map feature_text (ca_features app)))"
  shows "c \<noteq> 0x5B \<and> c \<noteq> 0x5D"
proof -
  consider "c = 0x2C" | f where "f \<in> set (ca_features app)" "c \<in> set (feature_text f)"
    using sep_join_in [OF assms(2)] by auto
  then show ?thesis
  proof cases
    case (2 f)
    then have "feature_ok f" using assms(1) by (simp add: app_ok_def)
    then show ?thesis using feature_text_char 2(2) by blast
  qed simp
qed

lemma find_brackets_line:
  assumes "app_ok classes app"
  shows "find_brackets 1 (tl (app_text app)) None 0 =
    (Some (length (print_number (ca_appid app)) + length (ca_name app) + 3),
     length (sep_join 0x2C (map feature_text (ca_features app))))"
proof -
  let ?id = "print_number (ca_appid app)" and ?body = "sep_join 0x2C (map feature_text (ca_features app))"
  have id: "c \<noteq> 0x5B \<and> c \<noteq> 0x5D" if "c \<in> set ?id" for c
    using print_number_in [OF that] by (auto simp: is_digit_def)
  have name: "0x5B \<notin> set (ca_name app)" "0x5D \<notin> set (ca_name app)" using app_name_char [OF assms] by auto
  have body: "0x5B \<notin> set ?body" "0x5D \<notin> set ?body"
    using body_char [OF assms, of "0x5B"] body_char [OF assms, of "0x5D"] by auto
  obtain c cs where c: "?id = c # cs" by (cases ?id) auto
  have pre: "0x5B \<notin> set (cs @ 0x7E # ca_name app @ [0x3A])" "0x5D \<notin> set (cs @ 0x7E # ca_name app @ [0x3A])"
    using id c name by auto
  have "tl (app_text app) = (cs @ 0x7E # ca_name app @ [0x3A]) @ 0x5B # ?body @ [0x5D]"
    using c by (simp add: app_text_def)
  then show ?thesis
    using find_brackets_skip [OF pre] find_brackets_skip [OF body] c by simp
qed

lemma line_body:
  "drop (length (print_number (ca_appid app)) + length (ca_name app) + 3) (app_text app) =
     sep_join 0x2C (map feature_text (ca_features app)) @ [0x5D]"
proof -
  have "app_text app = (print_number (ca_appid app) @ 0x7E # ca_name app @ [0x3A, 0x5B]) @
      sep_join 0x2C (map feature_text (ca_features app)) @ [0x5D]" by (simp add: app_text_def)
  moreover have "length (print_number (ca_appid app) @ 0x7E # ca_name app @ [0x3A, 0x5B]) =
      length (print_number (ca_appid app)) + length (ca_name app) + 3" by simp
  ultimately show ?thesis by (metis append_eq_conv_conj)
qed

lemma add_features_custom:
  assumes "\<forall>f\<in>set fs. feature_ok f \<and> length (feature_text f) \<le> CUSTOM_MAX_FEATURE_TEXT"
  shows "add_features (\<lambda>_. True) (ca_appid app) (take 127 (af_trim_space (ca_name app))) (map feature_text fs) st =
    Inr (True, (fold link_feature (map (kernel_node app) fs) st)\<lparr>fs_allocs := fs_allocs st + length fs\<rparr>)"
  using assms
proof (induction fs arbitrary: st)
  case (Cons f fs)
  then show ?case
    using add_app_feature_custom [of f app st]
    by (simp add: MAX_FEATURE_STR_LEN_def custom_limits link_feature_upd fold_link_feature_upd)
qed simp

lemma allocs_link: "fs_allocs (link_feature n st) = fs_allocs st"
  by (simp add: link_feature_def)

lemma allocs_fold: "fs_allocs (fold link_feature ns st) = fs_allocs st" "fs_count (fold link_feature ns st) = fs_count st"
  by (induction ns arbitrary: st) (simp_all add: link_feature_def)

text \<open>
  The kernel's parser on a line that \<^verbatim>\<open>app_to_line\<close> wrote for an accepted application.
\<close>

lemma af_init_feature_custom:
  assumes "app_ok classes app" and "app_to_line app len = Some line" and "af_trim_space (ca_name app) \<noteq> []"
  shows "af_init_feature (\<lambda>_. True) line st =
    (if 0x23 \<in> set line then Inr (st\<lparr>fs_allocs := fs_allocs st + 1\<rparr>)
     else if length (feature_text (last (ca_features app))) = CUSTOM_MAX_FEATURE_TEXT then Inl (BufferOverflow ''feature'')
     else Inr ((fold link_feature (map (kernel_node app) (ca_features app)) st)
       \<lparr>fs_allocs := fs_allocs st + 1 + length (ca_features app), fs_count := fs_count st + 1\<rparr>))"
proof -
  let ?fs = "ca_features app" and ?name = "take 127 (af_trim_space (ca_name app))"
  note ok = assms(1) [unfolded app_ok_def]
  have line: "line = app_text app" using app_to_line_Some [OF assms(2)] by simp
  have texts: "\<forall>f\<in>set ?fs. feature_ok f \<and> length (feature_text f) \<le> CUSTOM_MAX_FEATURE_TEXT"
    using app_to_line_Some(3) [OF assms(2)] feature_to_text_Some ok by blast
  have ne: "?fs \<noteq> []" using ok by auto
  let ?init = "map feature_text (butlast ?fs)" and ?last = "last ?fs"
  have join: "sep_join 0x2C (map feature_text ?fs) = join_fields 0x2C ?init (feature_text ?last)"
    using sep_join_fields [of "map feature_text ?fs"] ne by (simp add: map_butlast last_map)
  have last: "feature_ok ?last" "length (feature_text ?last) \<le> CUSTOM_MAX_FEATURE_TEXT" using texts ne by simp_all
  have bl: "\<forall>f\<in>set (butlast ?fs). feature_ok f \<and> length (feature_text f) \<le> CUSTOM_MAX_FEATURE_TEXT"
    using texts by (meson in_set_butlastD)
  have scan: "scan_fields 0x2C (join_fields 0x2C ?init (feature_text ?last)) = (?init, feature_text ?last)"
  proof (rule scan_fields_join)
    show "?init = [] \<or> hd ?init \<noteq> []" by (cases "butlast ?fs") (simp_all add: feature_text_not_Nil)
    show "\<forall>f\<in>set ?init. 0x2C \<notin> set f" using bl feature_text_char by fastforce
    show "0x2C \<notin> set (feature_text ?last)" using last feature_text_char by blast
  qed (simp add: feature_text_not_Nil)
  let ?st = "st\<lparr>fs_allocs := Suc (fs_allocs st)\<rparr>"
  let ?st1 = "(fold link_feature (map (kernel_node app) (butlast ?fs)) ?st)\<lparr>fs_allocs := fs_allocs ?st + length (butlast ?fs)\<rparr>"
  have adds: "add_features (\<lambda>_. True) (ca_appid app) ?name ?init ?st = Inr (True, ?st1)"
    by (rule add_features_custom [OF bl])
  have final: "link_feature (kernel_node app ?last) (?st1\<lparr>fs_allocs := Suc (fs_allocs ?st1)\<rparr>) =
      (fold link_feature (map (kernel_node app) ?fs) st)\<lparr>fs_allocs := fs_allocs st + 1 + length ?fs\<rparr>"
  proof -
    have "fold link_feature (map (kernel_node app) ?fs) st =
        link_feature (kernel_node app ?last) (fold link_feature (map (kernel_node app) (butlast ?fs)) st)"
      using ne by (subst append_butlast_last_id [OF ne, symmetric]) (simp del: append_butlast_last_id)
    then show ?thesis using ne by (simp add: link_feature_upd fold_link_feature_upd allocs_fold)
  qed
  have add_last: "add_last_feature (\<lambda>_. True) (ca_appid app) ?name (feature_text ?last) ?st1 =
     (if length (feature_text ?last) = CUSTOM_MAX_FEATURE_TEXT then Inl (BufferOverflow ''feature'')
      else Inr (link_feature (kernel_node app ?last) (?st1\<lparr>fs_allocs := Suc (fs_allocs ?st1)\<rparr>)))"
    using add_app_feature_custom [OF last] last(2)
    by (auto simp: add_last_feature_def MAX_FEATURE_STR_LEN_def custom_limits)
  have counts: "fs_count ?st1 = fs_count st" by (simp add: allocs_fold)
  show ?thesis
    unfolding af_init_feature_def Let_def
    using kernel_header [OF assms(1,3)] find_brackets_line [OF assms(1)] line_body [of app] scan adds add_last final
    by (simp add: line join allocs_fold del: fold_map fold.simps)
qed

end
