(* ===== verification/Fwxd_Feature_Correct.thy ===== *)
theory Fwxd_Feature_Correct
  imports Fwxd_Feature
begin

text \<open>
  The feature file: which files are accepted, that the CRC finds every short corruption, that the
  cipher is a permutation of its blocks so that no part of the key stream comes twice, and that a
  candidate replaces the file only when it is a valid one.
\<close>

section \<open>Numbers and bytes\<close>

lemma high_bits [simp]:
  "\<not> bit (a :: u8) (8 + n)" "\<not> bit (a :: u8) (16 + n)" "\<not> bit (a :: u8) (24 + n)"
  "\<not> bit (c :: u32) (32 + n)" "\<not> bit (c :: u32) 32"
  by (auto dest: bit_imp_le_length)

lemma get_put_le16: "get_le16 (put_le16 v @ r) = v"
  by (rule bit_word_eqI) (auto simp: get_le16_def put_le16_def bit_simps)

lemma get_put_le32: "get_le32 (put_le32 v @ r) = v"
proof (rule bit_word_eqI)
  fix n assume "n < LENGTH(32)"
  then consider "n < 8" | "8 \<le> n" "n < 16" | "16 \<le> n" "n < 24" | "24 \<le> n" "n < 32" by fastforce
  then show "bit (get_le32 (put_le32 v @ r)) n = bit v n"
    by cases (auto simp: get_le32_def put_le32_def bit_simps)
qed

lemma get_put_le64: "get_le64 (put_le64 v @ r) = v"
proof -
  have "get_le64 (put_le64 v @ r) =
      ucast (ucast v :: u32) OR push_bit 32 (ucast (ucast (drop_bit 32 v) :: u32))"
    using get_put_le32 [of "ucast v" "put_le32 (ucast (drop_bit 32 v)) @ r"]
      get_put_le32 [of "ucast (drop_bit 32 v)" r]
    by (simp add: get_le64_def put_le64_def) (simp add: put_le32_def)
  also have "\<dots> = v" by (rule bit_word_eqI) (auto simp: bit_simps)
  finally show ?thesis .
qed

lemma put_le_inject: "put_le32 v = put_le32 w \<longleftrightarrow> v = w" "put_le64 x = put_le64 y \<longleftrightarrow> x = y"
  by (metis get_put_le32, metis get_put_le64)

lemma put_get_le16: "2 \<le> length p \<Longrightarrow> put_le16 (get_le16 p) = take 2 p"
proof -
  assume "2 \<le> length p"
  then obtain a b r where p: "p = a # b # r" by (cases p; cases "tl p") auto
  have "put_le16 (get_le16 p) = [a, b]"
    unfolding put_le16_def get_le16_def p by (auto intro!: bit_word_eqI simp: bit_simps)
  then show ?thesis by (simp add: p)
qed

lemma put_get_le32: "4 \<le> length p \<Longrightarrow> put_le32 (get_le32 p) = take 4 p"
proof -
  assume "4 \<le> length p"
  then obtain a b c d r where p: "p = a # b # c # d # r"
    by (cases p; cases "tl p"; cases "tl (tl p)"; cases "tl (tl (tl p))") auto
  have "put_le32 (get_le32 p) = [a, b, c, d]"
    unfolding put_le32_def get_le32_def p by (auto intro!: bit_word_eqI simp: bit_simps)
  then show ?thesis by (simp add: p)
qed

lemma put_get_le64: "8 \<le> length p \<Longrightarrow> put_le64 (get_le64 p) = take 8 p"
proof -
  assume p: "8 \<le> length p"
  have "ucast (get_le64 p) = get_le32 p" "ucast (drop_bit 32 (get_le64 p)) = get_le32 (drop 4 p)"
    by (auto intro!: bit_word_eqI simp: get_le64_def bit_simps)
  then show ?thesis using p put_get_le32 [of p] put_get_le32 [of "drop 4 p"]
    by (simp add: put_le64_def take_add [of 4 4, simplified])
qed

lemma length_put [simp]: "length (put_le16 v) = 2" "length (put_le32 w) = 4" "length (put_le64 x) = 8"
  by (simp_all add: put_le16_def put_le32_def put_le64_def)

section \<open>The check sum\<close>

lemma crc_bit_alt: "crc_bit c = drop_bit 1 c XOR (if bit c 0 then 0xedb88320 else 0)"
proof -
  have "c AND 1 = (if bit c 0 then 1 else 0)" by (auto intro!: bit_word_eqI simp: bit_simps)
  then show ?thesis by (simp add: crc_bit_def)
qed

lemma crc_bit_xor: "crc_bit (a XOR b) = crc_bit a XOR crc_bit b"
proof -
  have "drop_bit 1 (a XOR b) = drop_bit 1 a XOR drop_bit 1 b" by (auto intro!: bit_word_eqI simp: bit_simps)
  then show ?thesis by (simp add: crc_bit_alt bit_xor_iff xor.assoc xor.left_commute)
qed

lemma xor_zero_eq: "(a XOR b = (0 :: u32)) = (a = b)"
  by (metis xor.assoc xor_self_eq xor.right_neutral xor.left_neutral)

lemma xor_cancel: "(c XOR a = c XOR b) = (a = (b :: u32))" "(a XOR c = b XOR c) = (a = b)"
proof -
  have "c XOR (c XOR a) = a" for a by (simp add: xor.assoc [symmetric])
  then show "(c XOR a = c XOR b) = (a = b)" by metis
  then show "(a XOR c = b XOR c) = (a = b)" by (simp only: xor.commute [of _ c])
qed

lemma crc_bit_zero: "crc_bit c = 0 \<longleftrightarrow> c = 0"
proof
  assume z: "crc_bit c = 0"
  have no: "\<not> bit c 0"
  proof
    assume "bit c 0"
    then have "drop_bit 1 c XOR (0xedb88320 :: u32) = 0" using z by (simp add: crc_bit_alt)
    then have "drop_bit 1 c = (0xedb88320 :: u32)" by (simp only: xor_zero_eq)
    then have "bit (drop_bit 1 c) 31 = bit (0xedb88320 :: u32) 31" by simp
    moreover have "\<not> bit (drop_bit 1 c) 31" by (simp add: bit_simps)
    moreover have "bit (0xedb88320 :: u32) 31" by simp
    ultimately show False by simp
  qed
  then have "drop_bit 1 c = 0" using z by (simp add: crc_bit_alt)
  then have "\<not> bit (drop_bit 1 c) n" for n by (simp only: bit_0_eq) simp
  then have "\<not> bit c (Suc n)" for n by (simp add: bit_drop_bit_eq)
  then have "\<not> bit c n" for n using no by (cases n) auto
  then show "c = 0" by (auto intro: bit_word_eqI)
qed (simp add: crc_bit_def)

lemma crc_pow_xor: "(crc_bit ^^ n) (a XOR b) = (crc_bit ^^ n) a XOR (crc_bit ^^ n) b"
  by (induction n) (simp_all add: crc_bit_xor)

lemma crc_pow_zero: "(crc_bit ^^ n) c = 0 \<longleftrightarrow> c = 0"
  by (induction n) (simp_all add: crc_bit_zero)

lemma crc_pow_inject: "(crc_bit ^^ n) a = (crc_bit ^^ n) b \<longleftrightarrow> a = b"
  using crc_pow_zero [of n "a XOR b"] by (simp add: crc_pow_xor xor_zero_eq)

text \<open>A byte that is shifted in from above comes down unchanged.\<close>

lemma crc_shift: "n \<le> 24 \<Longrightarrow> (crc_bit ^^ n) (push_bit n (ucast (b :: u8))) = ucast b"
proof (induction n)
  case (Suc n)
  have "crc_bit (push_bit (Suc n) (ucast b)) = push_bit n (ucast b :: u32)"
  proof -
    have "\<not> bit (push_bit (Suc n) (ucast b) :: u32) 0" by (simp add: bit_push_bit_iff del: push_bit_Suc)
    moreover have "drop_bit 1 (push_bit (Suc n) (ucast b) :: u32) = push_bit n (ucast b)"
    proof (rule bit_word_eqI)
      fix m assume "m < LENGTH(32)"
      then show "bit (drop_bit 1 (push_bit (Suc n) (ucast b) :: u32)) m = bit (push_bit n (ucast b :: u32)) m"
        using Suc.prems bit_imp_le_length [of b "m - n"]
        by (auto simp: bit_drop_bit_eq bit_push_bit_iff bit_ucast_iff simp del: push_bit_Suc)
    qed
    ultimately show ?thesis by (simp add: crc_bit_alt)
  qed
  then show ?case using Suc by (simp add: funpow_swap1)
qed simp

lemma crc_byte_pow: "crc_byte ((crc_bit ^^ n) c) b = (crc_bit ^^ (8 + n)) (c XOR push_bit n (ucast b))"
  if "n \<le> 24"
  using crc_shift [OF that, of b] by (simp add: crc_byte_def crc_pow_xor funpow_add)

lemma crc_four: "foldl crc_byte c [a, b, d, e] = (crc_bit ^^ 32) (c XOR get_le32 [a, b, d, e])"
proof -
  have "foldl crc_byte c [a, b, d, e] = crc_byte (crc_byte (crc_byte (crc_byte ((crc_bit ^^ 0) c) a) b) d) e" by simp
  also have "\<dots> = (crc_bit ^^ 32) (c XOR push_bit 0 (ucast a) XOR push_bit 8 (ucast b) XOR push_bit 16 (ucast d) XOR push_bit 24 (ucast e))"
    by (simp only: crc_byte_pow) (simp add: xor.assoc)
  also have "c XOR push_bit 0 (ucast a) XOR push_bit 8 (ucast b) XOR push_bit 16 (ucast d) XOR push_bit 24 (ucast e) =
      c XOR get_le32 [a, b, d, e]"
    by (rule bit_word_eqI) (auto simp: get_le32_def bit_simps dest: bit_imp_le_length)
  finally show ?thesis .
qed

lemma crc_inject: "foldl crc_byte c s = foldl crc_byte c' s \<longleftrightarrow> c = c'"
proof (induction s arbitrary: c c')
  case (Cons b s)
  have "crc_byte c b = crc_byte c' b \<longleftrightarrow> c = c'"
    unfolding crc_byte_def crc_pow_inject by (rule xor_cancel(2))
  then show ?case using Cons by simp
qed simp

lemma crc_window:
  assumes "length as = length bs" and "length bs \<le> 4" and "foldl crc_byte c as = foldl crc_byte c bs"
  shows "as = bs"
proof -
  let ?z = "replicate (4 - length bs) 0"
  have four: "\<exists>a b d e. s = [a, b, d, e]" if "length s = 4" for s :: bytes
    using that by (cases s; cases "tl s"; cases "tl (tl s)"; cases "tl (tl (tl s))") auto
  obtain a b d e where 1: "as @ ?z = [a, b, d, e]" using four [of "as @ ?z"] assms(1,2) by auto
  obtain f g h i where 2: "bs @ ?z = [f, g, h, i]" using four [of "bs @ ?z"] assms(2) by auto
  have "foldl crc_byte c (as @ ?z) = foldl crc_byte c (bs @ ?z)" using assms(3) by simp
  then have "c XOR get_le32 (as @ ?z) = c XOR get_le32 (bs @ ?z)"
    unfolding 1 2 crc_four crc_pow_inject .
  then have "get_le32 (as @ ?z) = get_le32 (bs @ ?z)" by (simp only: xor_cancel(1))
  moreover have "4 \<le> length (as @ ?z)" "4 \<le> length (bs @ ?z)" using assms(1,2) by auto
  ultimately have "take 4 (as @ ?z) = take 4 (bs @ ?z)" by (metis put_get_le32)
  then show ?thesis using assms(1,2) by simp
qed

text \<open>
  The check sum finds every burst of up to 32 bits. Two texts of the same length that differ
  only within four neighbouring bytes have different check sums.
\<close>

lemma crc_burst:
  assumes "length as = length bs" and "length bs \<le> 4" and "feature_crc32 (p @ as @ s) = feature_crc32 (p @ bs @ s)"
  shows "as = bs"
proof -
  let ?c = "foldl crc_byte 0xffffffff p"
  have "NOT (foldl crc_byte (foldl crc_byte ?c as) s) = NOT (foldl crc_byte (foldl crc_byte ?c bs) s)"
    using assms(3) unfolding feature_crc32_def foldl_append .
  then have "foldl crc_byte (foldl crc_byte ?c as) s = foldl crc_byte (foldl crc_byte ?c bs) s"
    by (metis bit.double_compl)
  then have "foldl crc_byte ?c as = foldl crc_byte ?c bs" unfolding crc_inject .
  then show ?thesis by (rule crc_window [OF assms(1,2)])
qed

section \<open>The cipher\<close>

text \<open>The key stream of a text of \<open>n\<close> bytes.\<close>

function stream :: "nat \<Rightarrow> u64 \<Rightarrow> bytes" where
  "stream n counter = (if n = 0 then [] else take n (key_stream counter) @ stream (n - 8) (counter + 1))"
  by pat_completeness auto
termination by (relation "measure fst") auto

declare stream.simps [simp del]

lemma length_key_stream [simp]: "length (key_stream c) = 8"
  by (simp add: key_stream_def split: prod.split)

lemma length_stream [simp]: "length (stream n counter) = n"
proof (induction n counter rule: stream.induct)
  case (1 n counter)
  then show ?case by (subst stream.simps) (auto simp: min_def)
qed

lemma map2_append:
  "length xs = length xs' \<Longrightarrow> map2 f (xs @ ys) (xs' @ ys') = map2 f xs xs' @ map2 f ys ys'"
  by (simp add: zip_append)

lemma map2_three:
  "length xs = length xs' \<Longrightarrow> length ys = length ys' \<Longrightarrow>
     map2 f (xs @ ys @ zs) (xs' @ ys' @ zs') = map2 f xs xs' @ map2 f ys ys' @ map2 f zs zs'"
  by (simp add: map2_append del: map_append zip_append)

lemma crypt_stream: "xtea_ctr_crypt data counter = map2 (XOR) data (stream (length data) counter)"
proof (induction data counter rule: xtea_ctr_crypt.induct)
  case (1 data counter)
  show ?case
  proof (cases "data = []")
    case False
    let ?k = "take (length data) (key_stream counter)"
    have "map2 (XOR) (take 8 data) (key_stream counter) = map2 (XOR) (take 8 data) ?k"
      by (rule nth_equalityI) auto
    moreover have "map2 (XOR) data (?k @ stream (length data - 8) (counter + 1)) =
        map2 (XOR) (take 8 data) ?k @ map2 (XOR) (drop 8 data) (stream (length data - 8) (counter + 1))"
      using map2_append [of "take 8 data" ?k "(XOR)" "drop 8 data"] by simp
    ultimately show ?thesis
      using 1 [OF False] False by (simp add: xtea_ctr_crypt.simps [of data] stream.simps [of "length data"])
  qed (simp add: xtea_ctr_crypt.simps)
qed

lemma length_crypt [simp]: "length (xtea_ctr_crypt data counter) = length data"
  by (simp add: crypt_stream)

lemma map2_xor_twice: "length k = length xs \<Longrightarrow> map2 (XOR) (map2 (XOR) xs k) k = (xs :: bytes)"
  by (rule nth_equalityI) (auto simp: xor.assoc)

lemma crypt_twice: "xtea_ctr_crypt (xtea_ctr_crypt data counter) counter = data"
  by (simp add: crypt_stream map2_xor_twice)

text \<open>The decryption of a block, by which the encryption is one-to-one.\<close>

definition xtea_unround :: "u32 \<times> u32 \<times> u32 \<Rightarrow> u32 \<times> u32 \<times> u32" where
  "xtea_unround s = (case s of (v0, v1, sm) \<Rightarrow>
     let v1 = v1 - xtea_mix v0 (sm + feature_key ! unat (drop_bit 11 sm AND 3));
         sm = sm - delta;
         v0 = v0 - xtea_mix v1 (sm + feature_key ! unat (sm AND 3))
     in (v0, v1, sm))"

definition xtea_decrypt_block :: "u32 \<times> u32 \<Rightarrow> u32 \<times> u32" where
  "xtea_decrypt_block block =
     (case (xtea_unround ^^ 32) (fst block, snd block, 32 * delta) of (v0, v1, _) \<Rightarrow> (v0, v1))"

lemma unround_round: "xtea_unround (xtea_round s) = s"
  by (cases s) (simp add: xtea_unround_def xtea_round_def Let_def)

lemma unround_rounds: "(xtea_unround ^^ n) ((xtea_round ^^ n) s) = s"
  by (induction n arbitrary: s) (simp_all add: funpow_swap1 unround_round)

lemma round_sum_one: "snd (snd (xtea_round s)) = snd (snd s) + delta"
  by (cases s) (simp add: xtea_round_def Let_def)

lemma round_sum: "snd (snd ((xtea_round ^^ n) s)) = snd (snd s) + of_nat n * delta"
  by (induction n) (simp_all add: round_sum_one algebra_simps)

lemma xtea_decrypt_encrypt: "xtea_decrypt_block (xtea_encrypt_block block) = block"
proof -
  obtain v0 v1 sm where r: "(xtea_round ^^ 32) (fst block, snd block, 0) = (v0, v1, sm)" by (cases "(xtea_round ^^ 32) (fst block, snd block, 0)")
  have "sm = 32 * delta" using round_sum [of 32 "(fst block, snd block, 0)"] r by simp
  then show ?thesis
    using unround_rounds [of 32 "(fst block, snd block, 0)"] r
    by (simp add: xtea_encrypt_block_def xtea_decrypt_block_def)
qed

lemma key_stream_inject: "key_stream c = key_stream d \<longleftrightarrow> c = d"
proof
  assume same: "key_stream c = key_stream d"
  obtain a b where e: "xtea_encrypt_block (ucast c, ucast (drop_bit 32 c)) = (a, b)" by fastforce
  obtain a' b' where f: "xtea_encrypt_block (ucast d, ucast (drop_bit 32 d)) = (a', b')" by fastforce
  have "put_le32 a = put_le32 a'" "put_le32 b = put_le32 b'"
    using same by (auto simp: key_stream_def e f)
  then have "a = a'" "b = b'" by (simp_all only: put_le_inject)
  then have "(ucast c :: u32, ucast (drop_bit 32 c) :: u32) = (ucast d, ucast (drop_bit 32 d))"
    using e f xtea_decrypt_encrypt by metis
  then have "get_le64 (put_le64 c @ []) = get_le64 (put_le64 d @ [])" by (simp add: put_le64_def)
  then show "c = d" by (simp only: get_put_le64)
qed simp

section \<open>Which files are accepted\<close>

definition feature_file :: "u64 \<Rightarrow> bytes \<Rightarrow> bytes" where
  "feature_file nonce plain = feature_magic @ [FEATURE_FORMAT_VERSION, FEATURE_ALGORITHM_XTEA_CTR] @ put_le16 24 @
     put_le32 (of_nat (length plain)) @ put_le32 (feature_crc32 plain) @ put_le64 nonce @ xtea_ctr_crypt plain nonce"

lemma length_feature_file: "length (feature_file nonce plain) = 24 + length plain"
  by (simp add: feature_file_def feature_magic_def)

lemma feature_file_parts:
  "take 4 (feature_file nonce plain) = feature_magic"
  "feature_file nonce plain ! 4 = FEATURE_FORMAT_VERSION"
  "feature_file nonce plain ! 5 = FEATURE_ALGORITHM_XTEA_CTR"
  "get_le16 (drop 6 (feature_file nonce plain)) = 24"
  "get_le32 (drop 8 (feature_file nonce plain)) = of_nat (length plain)"
  "get_le32 (drop 12 (feature_file nonce plain)) = feature_crc32 plain"
  "get_le64 (drop 16 (feature_file nonce plain)) = nonce"
  "drop 24 (feature_file nonce plain) = xtea_ctr_crypt plain nonce"
  by (simp_all add: feature_file_def feature_magic_def get_put_le16 get_put_le32 get_put_le64)

lemma decrypt_feature_file:
  assumes "plain \<noteq> []" and "length plain \<le> FWX_FEATURE_MAX_SIZE"
  shows "fwx_feature_decrypt_file True True (Some (feature_file nonce plain)) = Some plain"
proof -
  have len: "unat (of_nat (length plain) :: u32) = length plain"
    using assms(2) by (simp add: FWX_FEATURE_MAX_SIZE_def unat_of_nat)
  show ?thesis
    using assms len feature_file_parts [of nonce plain] length_feature_file [of nonce plain]
    by (simp add: fwx_feature_decrypt_file_def read_file_def FEATURE_HEADER_SIZE_def crypt_twice Let_def)
qed

lemma if_None_Some: "(if b then None else r) = Some x \<longleftrightarrow> \<not> b \<and> r = Some x"
  by simp

lemma if_Some_None: "(if b then Some y else None) = Some x \<longleftrightarrow> b \<and> y = x"
  by simp

lemma decrypt_is_feature_file:
  assumes "fwx_feature_decrypt_file ok malloc (Some f) = Some plain"
  obtains nonce where "f = feature_file nonce plain" "plain \<noteq> []" "length plain \<le> FWX_FEATURE_MAX_SIZE" "ok" "malloc"
proof -
  define nonce where "nonce = get_le64 (drop 16 f)"
  let ?n = "unat (get_le32 (drop 8 f))"
  have raw: "ok \<and> 0 < length f \<and> length f \<le> 24 + FWX_FEATURE_MAX_SIZE"
    "\<not> (length f < 24 \<or> take 4 f \<noteq> feature_magic \<or> f ! 4 \<noteq> FEATURE_FORMAT_VERSION \<or>
       f ! 5 \<noteq> FEATURE_ALGORITHM_XTEA_CTR \<or> unat (get_le16 (drop 6 f)) \<noteq> 24)"
    "\<not> (?n = 0 \<or> ?n > FWX_FEATURE_MAX_SIZE \<or> length f \<noteq> 24 + ?n)" "malloc"
    "plain = xtea_ctr_crypt (drop 24 f) nonce" "feature_crc32 plain = get_le32 (drop 12 f)"
    using assms [unfolded fwx_feature_decrypt_file_def read_file_def FEATURE_HEADER_SIZE_def Let_def option.case
        Option.bind_eq_Some_conv]
    by (auto simp only: nonce_def if_None_Some if_Some_None option.inject not_not)
  then have h: "24 \<le> length f" "take 4 f = feature_magic" "f ! 4 = FEATURE_FORMAT_VERSION"
      "f ! 5 = FEATURE_ALGORITHM_XTEA_CTR" "unat (get_le16 (drop 6 f)) = 24"
      "?n \<noteq> 0" "?n \<le> FWX_FEATURE_MAX_SIZE" "length f = 24 + ?n" "ok" "malloc"
      "plain = xtea_ctr_crypt (drop 24 f) nonce" "feature_crc32 plain = get_le32 (drop 12 f)"
    by (simp_all only: de_Morgan_disj not_less not_not not_False_eq_True)
  have len: "length plain = ?n" by (simp only: h(8,11) length_crypt length_drop diff_add_inverse)
  have "get_le16 (drop 6 f) = 24" using h(5) by (simp add: word_unat_eq_iff)
  then have "put_le16 24 = take 2 (drop 6 f)" using put_get_le16 [of "drop 6 f"] h(1) by simp
  moreover have "put_le32 (of_nat (length plain)) = take 4 (drop 8 f)" using put_get_le32 [of "drop 8 f"] h(1) len by simp
  moreover have "put_le32 (feature_crc32 plain) = take 4 (drop 12 f)" using put_get_le32 [of "drop 12 f"] h(1,12) by simp
  moreover have "put_le64 nonce = take 8 (drop 16 f)" using put_get_le64 [of "drop 16 f"] h(1) by (simp add: nonce_def)
  moreover have "xtea_ctr_crypt plain nonce = drop 24 f" by (simp add: h(11) crypt_twice)
  moreover have "[FEATURE_FORMAT_VERSION, FEATURE_ALGORITHM_XTEA_CTR] = take 2 (drop 4 f)"
    using h(1,3,4) by (simp add: take_Suc_conv_app_nth numeral_2_eq_2)
  ultimately have "feature_file nonce plain = take 4 f @ take 2 (drop 4 f) @ take 2 (drop 6 f) @ take 4 (drop 8 f) @
      take 4 (drop 12 f) @ take 8 (drop 16 f) @ drop 24 f"
    using h(2) by (simp add: feature_file_def)
  also have "\<dots> = f"
  proof -
    have cut: "take a (drop b f) @ drop (b + a) f = drop b f" for a b by (simp add: add.commute flip: drop_drop)
    show ?thesis using cut [of 8 16] cut [of 4 12] cut [of 4 8] cut [of 2 6] cut [of 2 4] cut [of 4 0] by simp
  qed
  finally show ?thesis using that h len by (metis length_0_conv)
qed

text \<open>
  C21. Exactly the files of the format are accepted. With memory and a file that can be read, the
  daemon decrypts a file to a text if and only if the file is the header for some nonce with the
  length and the check sum of this text, followed by the text enciphered with the nonce, and the text
  is neither empty nor larger than 20 MiB.
\<close>

theorem decrypt_file_iff:
  "fwx_feature_decrypt_file True True (Some f) = Some plain \<longleftrightarrow>
     (\<exists>nonce. f = feature_file nonce plain) \<and> plain \<noteq> [] \<and> length plain \<le> FWX_FEATURE_MAX_SIZE"
  using decrypt_feature_file decrypt_is_feature_file by metis

text \<open>
  C22. A damaged file is never taken for a good one. When up to four neighbouring bytes of the
  enciphered text of an accepted file are changed in any way, the file is rejected.
\<close>

theorem damaged_file_rejected:
  assumes "fwx_feature_decrypt_file True True (Some (h @ as @ t)) = Some plain"
    and "24 \<le> length h" and "length as = length bs" and "length bs \<le> 4" and "as \<noteq> bs"
  shows "fwx_feature_decrypt_file ok malloc (Some (h @ bs @ t)) = None"
proof (rule ccontr)
  assume "fwx_feature_decrypt_file ok malloc (Some (h @ bs @ t)) \<noteq> None"
  then obtain plain' where "fwx_feature_decrypt_file ok malloc (Some (h @ bs @ t)) = Some plain'" by auto
  then obtain m where f': "h @ bs @ t = feature_file m plain'" by (rule decrypt_is_feature_file)
  obtain n where f: "h @ as @ t = feature_file n plain" using decrypt_is_feature_file [OF assms(1)] by metis
  have head: "take k (drop j (h @ as @ t)) = take k (drop j (h @ bs @ t))" if "j + k \<le> 24" for j k
    using that assms(2) by simp
  have "take 8 (drop 16 (h @ as @ t)) = put_le64 n" "take 8 (drop 16 (h @ bs @ t)) = put_le64 m"
    unfolding f f' by (simp_all add: feature_file_def feature_magic_def)
  then have mn: "m = n" using head [of 16 8] by (simp add: put_le_inject)
  have "take 4 (drop 12 (h @ as @ t)) = put_le32 (feature_crc32 plain)"
    "take 4 (drop 12 (h @ bs @ t)) = put_le32 (feature_crc32 plain')"
    unfolding f f' by (simp_all add: feature_file_def feature_magic_def)
  then have crc: "feature_crc32 plain = feature_crc32 plain'" using head [of 12 4] by (simp add: put_le_inject)
  let ?h = "drop 24 h"
  have "plain = xtea_ctr_crypt (drop 24 (h @ as @ t)) n" "plain' = xtea_ctr_crypt (drop 24 (h @ bs @ t)) n"
    unfolding f f' mn by (simp_all add: feature_file_parts crypt_twice)
  then have p: "plain = xtea_ctr_crypt (?h @ as @ t) n" "plain' = xtea_ctr_crypt (?h @ bs @ t) n"
    using assms(2) by simp_all
  let ?s = "stream (length (?h @ bs @ t)) n"
  let ?s1 = "take (length ?h) ?s" and ?s2 = "take (length bs) (drop (length ?h) ?s)"
    and ?s3 = "drop (length bs) (drop (length ?h) ?s)"
  have s: "?s1 @ ?s2 @ ?s3 = ?s" by (simp only: append_take_drop_id)
  have ls: "length ?h = length ?s1" "length as = length ?s2" "length bs = length ?s2" using assms(3) by simp_all
  have "plain = map2 (XOR) (?h @ as @ t) ?s" "plain' = map2 (XOR) (?h @ bs @ t) ?s"
    using p assms(3) by (simp_all only: crypt_stream length_append)
  then have q: "plain = map2 (XOR) ?h ?s1 @ map2 (XOR) as ?s2 @ map2 (XOR) t ?s3"
    "plain' = map2 (XOR) ?h ?s1 @ map2 (XOR) bs ?s2 @ map2 (XOR) t ?s3"
    using map2_three [OF ls(1,2), of "(XOR)" t ?s3] map2_three [OF ls(1,3), of "(XOR)" t ?s3] unfolding s by (simp_all only:)
  have "map2 (XOR) as ?s2 = map2 (XOR) bs ?s2"
    using crc_burst [of "map2 (XOR) as ?s2" "map2 (XOR) bs ?s2"] crc assms(3,4) unfolding q by simp
  then have "as = bs"
    using map2_xor_twice [of ?s2 as] map2_xor_twice [of ?s2 bs] assms(3) by simp
  with assms(5) show False ..
qed

section \<open>Replacing the file\<close>

lemma copy_file_atomic_cases:
  "copy_file_atomic io source target = (True, source) \<and> source \<noteq> None \<or> copy_file_atomic io source target = (False, target)"
  by (auto simp: copy_file_atomic_def read_file_def split: option.splits)

text \<open>
  C23. Only a valid candidate replaces the file, and never half. Whatever fails, after
  \<^verbatim>\<open>fwx_feature_process_candidate\<close> either the status is 200, the file is the candidate, which decrypts to
  a text that names a version and the format v4.0, and the backup is the file that was there; or
  the file is what it was. The candidate is gone in both cases.
\<close>

theorem process_candidate_safe:
  assumes "fwx_feature_process_candidate ok malloc backup_io target_io version_len format_len files = (ret, status, files')"
  shows "ff_candidate files' = None \<and>
    (if status = 200
     then ret = 0 \<and> ff_bin files' = ff_candidate files \<and>
       (ff_bin files \<noteq> None \<longrightarrow> ff_backup files' = ff_bin files) \<and>
       (\<exists>plain version. fwx_feature_decrypt_file ok malloc (ff_candidate files) = Some plain \<and>
          candidate_info plain 0 [] [] = (version, FWX_FEATURE_DATA_FORMAT) \<and> version \<noteq> [])
     else ret < 0 \<and> ff_bin files' = ff_bin files)"
proof -
  obtain v w1 w2 where v: "fwx_feature_validate_candidate ok malloc version_len format_len (ff_candidate files) = (v, w1, w2)"
    using prod_cases3 by blast
  show ?thesis
  proof (cases "v < 0")
    case True
    then show ?thesis using assms v by (auto simp: fwx_feature_process_candidate_def)
  next
    case False
    then obtain plain version format where plain: "fwx_feature_decrypt_file ok malloc (ff_candidate files) = Some plain"
      and info: "candidate_info plain 0 [] [] = (version, format)" "version \<noteq> []" "format = FWX_FEATURE_DATA_FORMAT"
      using v by (auto simp: fwx_feature_validate_candidate_def FWX_FEATURE_VALIDATE_DECRYPT_FAILED_def
          FWX_FEATURE_VALIDATE_INFO_INVALID_def split: if_splits option.splits prod.splits)
    obtain r files'' where a: "fwx_feature_apply_candidate backup_io target_io files = (r, files'')" by fastforce
    then have "r = 0 \<and> ff_bin files'' = ff_candidate files \<and> ff_candidate files'' = None \<and>
        (ff_bin files \<noteq> None \<longrightarrow> ff_backup files'' = ff_bin files) \<or> r < 0 \<and> ff_bin files'' = ff_bin files"
      using copy_file_atomic_cases [of backup_io "ff_bin files" "ff_backup files"]
        copy_file_atomic_cases [of target_io "ff_candidate files" "ff_bin files"]
      by (auto simp: fwx_feature_apply_candidate_def FWX_FEATURE_APPLY_BACKUP_FAILED_def
          FWX_FEATURE_APPLY_TARGET_FAILED_def split: if_splits)
    then show ?thesis using assms v False a plain info by (auto simp: fwx_feature_process_candidate_def)
  qed
qed

text \<open>After an update that succeeded, the backup restores the file that was there before.\<close>

theorem restore_after_update:
  assumes "fwx_feature_process_candidate ok malloc backup_io target_io version_len format_len files = (0, 200, files')"
    and "ff_bin files = Some old" and "fwx_feature_restore_backup io files' = (True, files'')"
  shows "ff_bin files'' = Some old"
proof -
  obtain r files1 where a: "fwx_feature_apply_candidate backup_io target_io files = (r, files1)" by fastforce
  then have "files' = files1" "r \<ge> 0" using assms(1)
    by (auto simp: fwx_feature_process_candidate_def split: prod.splits if_splits)
  then have "ff_backup files' = Some old" using a assms(2) copy_file_atomic_cases [of backup_io "ff_bin files" "ff_backup files"]
    by (auto simp: fwx_feature_apply_candidate_def FWX_FEATURE_APPLY_BACKUP_FAILED_def Let_def
        FWX_FEATURE_APPLY_TARGET_FAILED_def split: if_splits prod.splits)
  then show ?thesis using assms(3) copy_file_atomic_cases [of io "ff_backup files'" "ff_bin files'"]
    by (auto simp: fwx_feature_restore_backup_def split: prod.splits)
qed

section \<open>Witnesses\<close>

theorem damaged_file_rejected_witness:
  "fwx_feature_decrypt_file True True (Some (take 24 (feature_file 0 [0x61]) @
     [last (feature_file 0 [0x61]) + 1])) = None"
proof -
  let ?f = "feature_file 0 [0x61]"
  have len: "length ?f = 25" by (simp add: feature_file_def feature_magic_def put_le16_def put_le32_def put_le64_def length_crypt)
  then have cut: "?f = take 24 ?f @ [last ?f] @ []"
    by (cases ?f rule: rev_cases) simp_all
  have "fwx_feature_decrypt_file True True (Some ?f) = Some [0x61]"
    by (rule decrypt_feature_file) (simp_all add: FWX_FEATURE_MAX_SIZE_def)
  then have "fwx_feature_decrypt_file True True (Some (take 24 ?f @ [last ?f] @ [])) = Some [0x61]" using cut by simp
  from damaged_file_rejected [OF this, of "[last ?f + 1]"] show ?thesis using len by simp
qed

definition demo_copy :: copy_io where
  "demo_copy = \<lparr>cp_read = True, cp_write = True, cp_close = True, cp_chmod = True, cp_rename = True\<rparr>"

theorem process_candidate_safe_witness:
  "ff_candidate (snd (snd (fwx_feature_process_candidate True True demo_copy demo_copy 16 16
     \<lparr>ff_bin = Some [1], ff_backup = None, ff_candidate = Some [2]\<rparr>))) = None"
proof -
  obtain ret status files' where r: "fwx_feature_process_candidate True True demo_copy demo_copy 16 16
     \<lparr>ff_bin = Some [1], ff_backup = None, ff_candidate = Some [2]\<rparr> = (ret, status, files')" by (rule prod_cases3)
  then show ?thesis using process_candidate_safe [OF r] by simp
qed

end
