(* ===== verification/Fwx_Verdict.thy ===== *)
theory Fwx_Verdict
  imports Fwx_Hooks
begin

text \<open>
  What the verdicts mean. The policy is stated over the sets that the tables hold; the handlers
  are shown to return for every packet, to keep the invariants of all components, and to carry out the
  policy, in gateway mode by way of the connection's mark.
\<close>

section \<open>The policy\<close>

definition app_policy :: "fwx \<Rightarrow> int \<Rightarrow> mac \<Rightarrow> bool" where
  "app_policy s app_id mac \<longleftrightarrow> g_appfilter_enable (fx_sysctl s) \<and> mac \<notin> mac_members (af_whitelist (fx_app s)) \<and>
     (\<exists>rule\<in>set (af_rules (fx_app s)). concerns app_id mac rule)"

definition mac_policy :: "fwx \<Rightarrow> mac \<Rightarrow> bool" where
  "mac_policy s mac \<longleftrightarrow> g_mac_filter_enable (fx_sysctl s) \<and> mac \<notin> mac_members (mf_whitelist (fx_mac s)) \<and>
     (\<exists>i rule. fwx_find_mac_filter_rule i (fx_mac s) = Some rule \<and>
        (mr_mode rule = MAC_FILTER_MODE_ALL_USERS \<or> mac \<in> mac_members (mr_mac_list rule)))"

lemma match_app_policy:
  assumes "app_filter_inv (fx_app s)"
  shows "match_app_filter_rule app_id mac s \<longleftrightarrow> app_policy s app_id mac"
proof -
  have "fwx_match_app_filter_rule app_id mac (fx_app s) \<noteq> None \<longleftrightarrow>
      (\<exists>rule\<in>set (af_rules (fx_app s)). concerns app_id mac rule)"
    using assms app_rule_applies_iff
    by (auto simp: fwx_match_app_filter_rule_def find_None_iff app_filter_inv_def list_all_iff)
  then show ?thesis
    by (auto simp: match_app_filter_rule_def app_policy_def fwx_match_app_filter_whitelist_def mac_members_def)
qed

lemma match_mac_policy:
  assumes "mac_filter_inv (fx_mac s)"
  shows "match_mac_filter_rule mac s \<longleftrightarrow> mac_policy s mac"
  using match_mac_iff [OF assms]
  by (auto simp: match_mac_filter_rule_def mac_policy_def fwx_match_mac_filter_whitelist_def mac_members_def)

section \<open>The state of the module\<close>

text \<open>An automaton that is marked ready has been linked.\<close>

definition ac_safe :: "url_ac \<Rightarrow> bool" where
  "ac_safe ac \<longleftrightarrow> (ac_ready ac \<longrightarrow> (\<exists>root lab ins. linked ac root lab ins))"

definition fwx_inv :: "jhash \<Rightarrow> fwx \<Rightarrow> bool" where
  "fwx_inv jhash s \<longleftrightarrow> clients_inv (fx_clients s) \<and>
     conn_inv jhash (cs_table (fx_conns s)) \<and> bt_unique conn_key (cs_table (fx_conns s)) \<and>
     (\<exists>k<51. cs_last_bucket (fx_conns s) = 5 * k) \<and>
     app_filter_inv (fx_app s) \<and> mac_filter_inv (fx_mac s) \<and>
     ac_safe (fs_ac (fx_features s)) \<and> (\<forall>n\<in>set (fs_features (fx_features s)). feature_fits n) \<and>
     active_inv (fx_apps s) (fx_hosts s)"

lemma fwx_inv_init: "fwx_inv j (fwx_init sys)"
  using conn_table.inv_empty [of j]
  by (simp add: fwx_inv_def fwx_init_def clients_inv_init app_filter_inv_init mac_filter_inv_init active_inv_empty
      feature_init_def no_memory_used_def ac_safe_def af_conn_init_def bucket_intros)

text \<open>The parts of the state that a packet does not change.\<close>

definition same_config :: "fwx \<Rightarrow> fwx \<Rightarrow> bool" where
  "same_config s s' \<longleftrightarrow> fx_sysctl s' = fx_sysctl s \<and> fx_app s' = fx_app s \<and> fx_mac s' = fx_mac s \<and>
     fx_features s' = fx_features s"

lemma same_config_refl [simp]: "same_config s s"
  by (simp add: same_config_def)

lemma same_config_trans: "same_config s t \<Longrightarrow> same_config t u \<Longrightarrow> same_config s u"
  by (simp add: same_config_def)

lemma same_config_ops [simp]:
  "same_config s (fx_client_write mac f t) = same_config s t"
  "same_config s (fx_update_url k mac flow t) = same_config s t"
  "same_config s (fx_update_app_info k mac app_id drp c h v t) = same_config s t"
  "same_config s (fx_active_app k mac flow t) = same_config s t"
  "same_config s (fx_active_host k mac flow t) = same_config s t"
  "same_config s (fx_conn_write jhash key g t) = same_config s t"
  "same_config s (gateway_record k mac w flow t) = same_config s t"
  "same_config s (t\<lparr>fx_clients := cs\<rparr>) = same_config s t"
  "same_config s (t\<lparr>fx_conns := cn\<rparr>) = same_config s t"
  "same_config s (t\<lparr>fx_conn_locked := b\<rparr>) = same_config s t"
  by (simp_all add: same_config_def fx_client_write_def fx_update_url_def fx_update_app_info_def fx_active_app_def
      fx_active_host_def fx_conn_write_def gateway_record_def Let_def)

lemma locked_ops [simp]:
  "fx_conn_locked (fx_client_write mac f t) = fx_conn_locked t"
  "fx_conn_locked (fx_update_url k mac flow t) = fx_conn_locked t"
  "fx_conn_locked (fx_update_app_info k mac app_id drp c h v t) = fx_conn_locked t"
  "fx_conn_locked (fx_active_app k mac flow t) = fx_conn_locked t"
  "fx_conn_locked (fx_active_host k mac flow t) = fx_conn_locked t"
  "fx_conn_locked (fx_conn_write jhash key g t) = fx_conn_locked t"
  "fx_conn_locked (gateway_record k mac w flow t) = fx_conn_locked t"
  by (simp_all add: fx_client_write_def fx_update_url_def fx_update_app_info_def fx_active_app_def
      fx_active_host_def fx_conn_write_def gateway_record_def Let_def)

lemma fwx_inv_client_write:
  assumes "fwx_inv j s" and "\<And>node. cl_mac (f node) = cl_mac node"
    and "\<And>w node. client_inv w node \<Longrightarrow> client_inv w (f node)"
  shows "fwx_inv j (fx_client_write mac f s)"
  using assms(1) clients_inv_write [OF _ assms(2,3)] by (simp add: fwx_inv_def fx_client_write_def)

lemma fwx_inv_update_url: "fwx_inv j s \<Longrightarrow> fwx_inv j (fx_update_url k mac flow s)"
  unfolding fx_update_url_def by (rule fwx_inv_client_write) (simp_all add: client_inv_def)

lemma fwx_inv_update_app_info: "fwx_inv j s \<Longrightarrow> fwx_inv j (fx_update_app_info k mac app_id drp c h v s)"
  unfolding fx_update_app_info_def by (rule fwx_inv_client_write) (simp_all add: client_inv_app_info)

lemma fwx_inv_active:
  "fwx_inv j s \<Longrightarrow> fwx_inv j (fx_active_app k mac flow s)"
  "fwx_inv j s \<Longrightarrow> fwx_inv j (fx_active_host k mac flow s)"
  by (simp_all add: fwx_inv_def fx_active_app_def fx_active_host_def active_inv_update)

lemma fwx_inv_conn_write:
  assumes "fwx_inv j s" and "\<And>c. conn_key (g c) = conn_key c"
  shows "fwx_inv j (fx_conn_write j key g s)"
  using assms by (simp add: fwx_inv_def fx_conn_write_def conn_write_def conn_inv_def bucket_intros)

lemmas fwx_inv_ops = fwx_inv_update_url fwx_inv_update_app_info fwx_inv_active

lemma fwx_inv_gateway_record: "fwx_inv j s \<Longrightarrow> fwx_inv j (gateway_record k mac w flow s)"
  by (auto simp: gateway_record_def Let_def fwx_inv_ops)

lemma fwx_inv_touch: "fwx_inv j s \<Longrightarrow> fwx_inv j (fx_client_write mac (\<lambda>node. node\<lparr>cl_update_jiffies := t\<rparr>) s)"
  by (rule fwx_inv_client_write) (simp_all add: client_inv_def)

section \<open>Classification ends\<close>

lemma ac_on_domains_ends:
  assumes "linked ac root lab ins" and "ac_ready ac"
  shows "\<exists>r. ac_on_domains ac flow is stat = Some r"
proof (induction "is" arbitrary: stat)
  case (Cons i "is")
  show ?case
  proof (cases "af_copy_dns_domain flow i")
    case (Some domain)
    then show ?thesis using linked_match [OF assms, of flow stat domain False] Cons.IH
      by (auto split: option.split)
  qed (use Cons.IH in simp)
qed simp

lemma url_feature_ends:
  assumes "ac_safe ac"
  shows "\<exists>r. af_match_url_feature_ac in4_pton in6_pton ac flow stat = Some r"
proof (cases "ac_ready ac \<and> ac_root ac \<noteq> None")
  case True
  then obtain root lab ins where l: "linked ac root lab ins" using assms by (auto simp: ac_safe_def)
  have "\<exists>node stat1. (case af_get_flow_host in4_pton in6_pton flow of
      Some host_buf \<Rightarrow> af_match_url_text_ac ac flow stat host_buf True | None \<Rightarrow> Some (None, stat)) = Some (node, stat1)"
    using linked_match [OF l conjunct1 [OF True], of flow stat _ True] by (cases "af_get_flow_host in4_pton in6_pton flow") fastforce+
  then obtain node stat1 where 1: "(case af_get_flow_host in4_pton in6_pton flow of
      Some host_buf \<Rightarrow> af_match_url_text_ac ac flow stat host_buf True | None \<Rightarrow> Some (None, stat)) = Some (node, stat1)"
    by blast
  obtain node2 stat2 where 2: "ac_on_domains ac flow (dns_indices flow) stat1 = Some (node2, stat2)"
    using ac_on_domains_ends [OF l, of flow "dns_indices flow" stat1] True by auto
  show ?thesis using True unfolding af_match_url_feature_ac_def 1 by (auto simp: 2 split: option.split)
qed (auto simp: af_match_url_feature_ac_def)

lemma match_feature_ends:
  assumes "ac_safe (fs_ac (fx_features s))"
  shows "\<exists>r. fx_match_feature k flow s = Some r"
  using url_feature_ends [OF assms, of "k_in4_pton k" "k_in6_pton k" "flow\<lparr>fl_match_by_dns := False\<rparr>" stat_zero]
  by (auto simp: fx_match_feature_def fwx_match_feature_def Let_def)

section \<open>The handlers return and keep the invariant\<close>

text \<open>A handler returned, and if it did so without leaving a buffer, the state is in order.\<close>

definition fine :: "jhash \<Rightarrow> fwx \<Rightarrow> outcome ub_result option \<Rightarrow> bool" where
  "fine j s r \<longleftrightarrow> (\<exists>x. r = Some x \<and> (\<forall>out. x = Inr out \<longrightarrow> fwx_inv j (o_state out) \<and> same_config s (o_state out)))"

lemma fine_outcome [simp]:
  "fine j s (Some (Inr out)) \<longleftrightarrow> fwx_inv j (o_state out) \<and> same_config s (o_state out)"
  "fine j s (Some (Inl e))" "\<not> fine j s None"
  by (simp_all add: fine_def)

lemma fine_accept [simp]: "fwx_inv j (o_state (accept ct s)) = fwx_inv j s" "o_state (accept ct s) = s"
  by (simp_all add: accept_def)

lemma fine_from: "fine j t r \<Longrightarrow> same_config s t \<Longrightarrow> fine j s r"
  unfolding fine_def by (blast intro: same_config_trans)

text \<open>The classification in the middle of a handler.\<close>

lemma fine_match:
  assumes "ac_safe (fs_ac (fx_features t))"
    and "\<And>hit flow'. fx_match_feature k flow t = Some (Inr (hit, flow')) \<Longrightarrow> fine j s (Some (f hit flow'))"
  shows "fine j s (map_option (\<lambda>r. ub_bind r (\<lambda>(hit, flow'). f hit flow')) (fx_match_feature k flow t))"
proof -
  obtain r where r: "fx_match_feature k flow t = Some r" using match_feature_ends [OF assms(1)] by blast
  then show ?thesis using assms(2) by (cases r) auto
qed

lemma gateway_known_inv:
  assumes "gateway_known k mac w ct s = (v, ct', s')"
  shows "same_config s s'" and "fwx_inv j s \<Longrightarrow> fwx_inv j s'"
  using assms by (auto simp: gateway_known_def Let_def fwx_inv_ops split: if_splits)

lemma gateway_verdict_state:
  "\<exists>flow'. o_state (gateway_verdict k mac w skb hit flow ct s) = gateway_record k mac w flow' s"
  unfolding gateway_verdict_def Let_def by (auto split: prod.split)

lemma gateway_inspect_fine:
  assumes "fwx_inv j s"
  shows "fine j s (gateway_inspect k pkt skb mac w flow0 ct s)"
proof (cases "ct_acct_packets ct")
  case (Some n)
  show ?thesis
  proof (cases "linear_payload k pkt (if fwx_ct_test_bit FWX_CT_CLIENT_HELLO_BIT ct
      then flow0\<lparr>fl_client_hello := True\<rparr> else flow0)")
    case None
    show ?thesis using assms unfolding gateway_inspect_def Some None by simp
  next
    case flow1: (Some flow1)
    let ?s1 = "if \<not> w then fx_update_url k mac (dpi_main flow1) s else s"
    have inv: "fwx_inv j ?s1" and same: "same_config s ?s1" using assms by (simp_all add: fwx_inv_ops)
    have "fine j s (Some (Inr (gateway_verdict k mac w skb hit flow' ct1 ?s1)))" for hit flow' ct1
      using gateway_verdict_state [of k mac w skb hit flow' ct1 ?s1] fwx_inv_gateway_record [OF inv] same by auto
    then have main: "fine j s (map_option (\<lambda>r. ub_bind r (\<lambda>(hit, flow').
        Inr (gateway_verdict k mac w skb hit flow' (fwx_ct_set_bit FWX_CT_CLIENT_HELLO_BIT
          (fl_client_hello (dpi_main flow1)) ct) ?s1))) (fx_match_feature k (dpi_main flow1) ?s1))"
      using inv by (intro fine_match) (simp_all add: fwx_inv_def)
    show ?thesis unfolding gateway_inspect_def Some flow1 option.case Let_def
      by (cases "n > MAX_DPI_PKT_NUM")
        (simp_all only: if_True if_False main fine_outcome fine_accept assms same_config_refl simp_thms)
  qed
qed (simp add: gateway_inspect_def assms)

lemma gateway_conn_fine:
  assumes "fwx_inv j s"
  shows "fine j s (gateway_conn k pkt skb mac w flow ct s)"
proof -
  obtain v ct1 s1 where g: "gateway_known k mac w ct s = (v, ct1, s1)" by (metis prod.collapse)
  have s1: "fwx_inv j s1" "same_config s s1" using gateway_known_inv [OF g] assms by auto
  have "fine j s (gateway_inspect k pkt skb mac w flow ct1 s1)"
    using fine_from [OF gateway_inspect_fine [OF s1(1)] s1(2)] .
  then show ?thesis unfolding gateway_conn_def g using s1 by (simp split: option.split)
qed

lemma gateway_fine:
  assumes "fwx_inv j s"
  shows "fine j s (fwx_hook_gateway_handle k pkt s)"
proof -
  have "fine j s (gateway_conn k pkt skb mac w flow ct (fx_client_write mac (\<lambda>node. node\<lparr>cl_update_jiffies := t\<rparr>) s))"
    for skb mac w flow ct t
    by (rule fine_from [OF gateway_conn_fine [OF fwx_inv_touch [OF assms]]]) simp
  then show ?thesis using assms by (auto simp: fwx_hook_gateway_handle_def split: option.split)
qed

lemma bypass_finish_simps [simp]:
  "same_config s (o_state (bypass_finish k key skb mac w ign rst flow t)) = same_config s t"
  "fx_conn_locked (o_state (bypass_finish k key skb mac w ign rst flow t)) = fx_conn_locked t"
  by (simp_all add: bypass_finish_def Let_def)

lemma bypass_finish_inv:
  assumes "fwx_inv (k_jhash k) s"
  shows "fwx_inv (k_jhash k) (o_state (bypass_finish k key skb mac w ign rst flow s))"
proof -
  have "fwx_inv (k_jhash k) (fx_conn_write (k_jhash k) key (\<lambda>conn. conn\<lparr>conn_drop := True\<rparr>) s)"
    by (rule fwx_inv_conn_write [OF assms]) simp
  then show ?thesis using assms by (simp add: bypass_finish_def Let_def fwx_inv_ops)
qed

lemma conn_found_key [simp]: "conn_key (conn_found flow c) = conn_key c"
  by (simp add: conn_found_def)

lemma bypass_found_simps [simp]:
  "same_config s (o_state (bypass_found k key skb mac w conn flow t)) = same_config s t"
  "fx_conn_locked (o_state (bypass_found k key skb mac w conn flow t)) = fx_conn_locked t"
  by (simp_all add: bypass_found_def Let_def)

lemma bypass_found_inv:
  assumes "fwx_inv (k_jhash k) s"
  shows "fwx_inv (k_jhash k) (o_state (bypass_found k key skb mac w conn flow s))"
proof -
  define s1 where "s1 = fx_conn_write (k_jhash k) key (conn_found flow) s"
  define s2 where "s2 = (if \<not> conn_ignore (conn_found flow conn) \<noteq> 0 \<and> \<not> w then fx_active_app k mac flow s1 else s1)"
  have "fwx_inv (k_jhash k) s1" unfolding s1_def by (rule fwx_inv_conn_write [OF assms]) simp
  then have s2: "fwx_inv (k_jhash k) s2" by (simp add: s2_def fwx_inv_ops)
  then have "fwx_inv (k_jhash k) (fx_conn_write (k_jhash k) key (\<lambda>c. c\<lparr>conn_drop := True\<rparr>) s2)"
    by (rule fwx_inv_conn_write) simp
  then show ?thesis unfolding bypass_found_def Let_def s1_def [symmetric] s2_def [symmetric]
    using s2 by (simp add: bypass_finish_inv)
qed

text \<open>A handler of bypass mode is fine, and leaves the lock as it found it.\<close>

definition bypass_fine :: "kernel \<Rightarrow> fwx \<Rightarrow> outcome ub_result option \<Rightarrow> bool" where
  "bypass_fine k s r \<longleftrightarrow> fine (k_jhash k) s r \<and>
     (\<forall>out. r = Some (Inr out) \<longrightarrow> fx_conn_locked (o_state out) = fx_conn_locked s)"

lemma bypass_fine_outcome [simp]:
  "bypass_fine k s (Some (Inr out)) \<longleftrightarrow> fwx_inv (k_jhash k) (o_state out) \<and> same_config s (o_state out) \<and>
     fx_conn_locked (o_state out) = fx_conn_locked s"
  "bypass_fine k s (Some (Inl e))"
  by (simp_all add: bypass_fine_def)

lemma bypass_inspect_fine:
  assumes inv: "fwx_inv (k_jhash k) s"
  shows "bypass_fine k s (bypass_inspect k pkt skb mac w key conn flow0 s)"
proof (cases "linear_payload k pkt flow0")
  case None
  show ?thesis unfolding bypass_inspect_def None using inv by simp
next
  case (Some flow1)
  define flow where "flow = dpi_main (flow1\<lparr>fl_client_hello := conn_client_hello conn\<rparr>)"
  define s1 where "s1 = fx_conn_write (k_jhash k) key (\<lambda>c. c\<lparr>conn_client_hello := fl_client_hello flow\<rparr>) s"
  define s2 where "s2 = (if \<not> w then fx_active_host k mac flow (fx_update_url k mac flow s1) else s1)"
  have "fwx_inv (k_jhash k) s1" unfolding s1_def by (rule fwx_inv_conn_write [OF inv]) simp
  then have s2: "fwx_inv (k_jhash k) s2" "same_config s s2" "fx_conn_locked s2 = fx_conn_locked s"
    by (simp_all add: s2_def s1_def fwx_inv_ops)
  have "bypass_fine k s (Some (Inr (if hit then bypass_found k key skb mac w conn flow' s2
      else bypass_finish k key skb mac w (conn_ignore conn \<noteq> 0) False flow' s2)))" for hit flow'
    using s2 by (simp add: bypass_found_inv bypass_finish_inv)
  moreover obtain r where "fx_match_feature k flow s2 = Some r"
    using match_feature_ends [of s2 k flow] s2(1) by (auto simp only: fwx_inv_def)
  ultimately have main: "bypass_fine k s (map_option (\<lambda>r. ub_bind r (\<lambda>(hit, flow').
      Inr (if hit then bypass_found k key skb mac w conn flow' s2
        else bypass_finish k key skb mac w (conn_ignore conn \<noteq> 0) False flow' s2))) (fx_match_feature k flow s2))"
    by (cases r) auto
  show ?thesis
    unfolding bypass_inspect_def Some option.case Let_def flow_def [symmetric]
    unfolding s1_def [symmetric] unfolding s2_def [symmetric] using main inv by simp
qed

lemma bypass_conn_fine:
  assumes inv: "fwx_inv (k_jhash k) s" and free: "\<not> fx_conn_locked s"
  shows "fine (k_jhash k) s (bypass_conn k pkt skb mac w flow s) \<and>
    (k_ok_conn k \<longrightarrow> bypass_fine k s (bypass_conn k pkt skb mac w flow s))"
proof -
  let ?key = "flow_key flow" and ?j = "k_jhash k"
  obtain found t where a: "af_conn_find_and_add (k_ok_conn k) ?j (k_conn_junk k) (k_jiffies k) ?key
      (cs_table (fx_conns s)) = (found, t)" by (metis prod.collapse)
  have t: "conn_inv ?j t" "bt_unique conn_key t"
    using find_and_add_inv [of ?j "cs_table (fx_conns s)" "k_ok_conn k" "k_conn_junk k" "k_jiffies k" ?key] inv a
    by (simp_all add: fwx_inv_def)
  show ?thesis
  proof (cases found)
    case None
    have "\<not> k_ok_conn k"
      using a None by (auto simp: af_conn_find_and_add_def af_conn_add_def Let_def split: option.splits if_splits)
    then show ?thesis using inv free t a None
      by (simp add: bypass_conn_def Let_def) (simp add: fwx_inv_def same_config_def)
  next
    case (Some conn0)
    define seen where "seen = (\<lambda>c :: af_conn. c\<lparr>conn_last_jiffies := k_jiffies k, conn_total_pkts := conn_total_pkts c + 1\<rparr>)"
    define s1 where "s1 = fx_conn_write ?j ?key seen (s\<lparr>fx_conns := (fx_conns s)\<lparr>cs_table := t\<rparr>\<rparr>)"
    have "fwx_inv ?j (s\<lparr>fx_conns := (fx_conns s)\<lparr>cs_table := t\<rparr>\<rparr>)" using inv t by (simp add: fwx_inv_def)
    then have s1: "fwx_inv ?j s1" "same_config s s1" "fx_conn_locked s1 = fx_conn_locked s"
      unfolding s1_def by (auto intro: fwx_inv_conn_write simp: seen_def)
    have from_s1: "bypass_fine k s r" if "bypass_fine k s1 r" for r
      using that s1 fine_from unfolding bypass_fine_def by fastforce
    have "bypass_fine k s (bypass_conn k pkt skb mac w flow s)"
      unfolding bypass_conn_def Let_def a Some prod.case option.case seen_def [symmetric] s1_def [symmetric]
      using free s1 from_s1 [OF bypass_inspect_fine [OF s1(1)]] by (simp add: bypass_finish_inv)
    then show ?thesis by (simp add: bypass_fine_def)
  qed
qed

lemma bypass_fine_all:
  assumes inv: "fwx_inv (k_jhash k) s" and free: "\<not> fx_conn_locked s"
  shows "fine (k_jhash k) s (fwx_hook_bypass_handle k pkt s)"
    and "k_ok_conn k \<Longrightarrow> bypass_fine k s (fwx_hook_bypass_handle k pkt s)"
proof -
  have main: "fine (k_jhash k) s (bypass_conn k pkt skb mac w flow (fx_client_write mac f (s\<lparr>fx_clients := cs\<rparr>))) \<and>
      (k_ok_conn k \<longrightarrow> bypass_fine k s (bypass_conn k pkt skb mac w flow (fx_client_write mac f (s\<lparr>fx_clients := cs\<rparr>))))"
    if "clients_inv cs" "\<And>node. cl_mac (f node) = cl_mac node" "\<And>w node. client_inv w node \<Longrightarrow> client_inv w (f node)"
    for skb mac w flow f cs
  proof -
    let ?t = "fx_client_write mac f (s\<lparr>fx_clients := cs\<rparr>)"
    have "fwx_inv (k_jhash k) (s\<lparr>fx_clients := cs\<rparr>)" using inv that(1) by (simp add: fwx_inv_def)
    then have t: "fwx_inv (k_jhash k) ?t" using that(2,3) by (rule fwx_inv_client_write)
    have "same_config s ?t" "fx_conn_locked ?t = fx_conn_locked s" by simp_all
    then show ?thesis using bypass_conn_fine [OF t] free fine_from unfolding bypass_fine_def by metis
  qed
  have cs: "clients_inv cs" if "find_and_add_af_client ok t mac (fx_clients s) = (r, cs)" for ok t mac r cs
    using clients_inv_find_add [of "fx_clients s" ok t mac] inv that by (simp add: fwx_inv_def)
  have acc: "fwx_inv (k_jhash k) (s\<lparr>fx_clients := cs\<rparr>)" if "clients_inv cs" for cs
    using inv that by (simp add: fwx_inv_def)
  have both: "fine (k_jhash k) s (fwx_hook_bypass_handle k pkt s) \<and>
      (k_ok_conn k \<longrightarrow> bypass_fine k s (fwx_hook_bypass_handle k pkt s))"
    unfolding fwx_hook_bypass_handle_def Let_def
    using main cs acc inv by (auto simp: client_inv_def split: option.split prod.split)
  then show "fine (k_jhash k) s (fwx_hook_bypass_handle k pkt s)"
    and "k_ok_conn k \<Longrightarrow> bypass_fine k s (fwx_hook_bypass_handle k pkt s)" by blast+
qed

section \<open>Without a pattern that overflows\<close>

definition returns :: "'a ub_result \<Rightarrow> bool" where
  "returns r \<longleftrightarrow> (case r of Inl _ \<Rightarrow> False | Inr _ \<Rightarrow> True)"

lemma returns_simps [simp]: "returns (Inr x)" "\<not> returns (Inl e)"
  by (simp_all add: returns_def)

text \<open>The regular-expression compiler stays in its buffers for both patterns of a feature.\<close>

definition regex_fits :: "(nat \<Rightarrow> int) \<Rightarrow> feature_node \<Rightarrow> bool" where
  "regex_fits junk node \<longleftrightarrow> returns (compile junk (fn_host_url node)) \<and> returns (compile junk (fn_request_url node))"

definition patterns_fit :: "kernel \<Rightarrow> fwx \<Rightarrow> bool" where
  "patterns_fit k s \<longleftrightarrow> list_all (regex_fits (k_regex_junk k)) (fs_features (fx_features s))"

lemma bind_fits: "returns r \<Longrightarrow> (\<And>x. returns (f x)) \<Longrightarrow> returns (ub_bind r f)"
  by (cases r) simp_all

lemma hit_fits: "returns (compile junk p) \<Longrightarrow> returns (regexp_hit junk p t)"
  by (auto simp: regexp_hit_def regexp_match_def intro!: bind_fits split: option.split)

lemma first_regex_fits: "list_all (regex_fits junk) features \<Longrightarrow> returns (first_regex junk features t)"
  by (induction features) (auto simp: regex_fits_def intro!: bind_fits hit_fits)

lemma dns_regex_fits: "list_all (regex_fits junk) features \<Longrightarrow> returns (dns_regex_on junk features flow is)"
  by (induction "is") (auto intro!: bind_fits first_regex_fits split: option.split)

lemma url_on_domains_fits: "regex_fits junk node \<Longrightarrow> returns (url_on_domains junk node flow is)"
  by (induction "is") (auto simp: regex_fits_def intro!: bind_fits hit_fits split: option.split)

lemma match_one_fits: "regex_fits junk node \<Longrightarrow> returns (af_match_one in4_pton in6_pton junk flow node)"
  by (auto simp: af_match_one_def af_match_by_url_def url_host_hit_def url_dns_hit_def url_request_hit_def Let_def
      regex_fits_def intro!: bind_fits hit_fits url_on_domains_fits split: option.split)

lemma non_url_fits:
  "list_all (regex_fits junk) features \<Longrightarrow> returns (af_match_non_url_feature in4_pton in6_pton junk features flow)"
  by (induction features arbitrary: flow) (auto intro!: bind_fits match_one_fits split: prod.split)

lemma match_fits:
  assumes "patterns_fit k s" shows "fx_match_feature k flow s \<noteq> Some (Inl e)"
proof -
  let ?fs = "fs_features (fx_features s)"
  have "returns (match_rest (k_in4_pton k) (k_in6_pton k) (k_regex_junk k) ?fs flow1)" for flow1
    using assms unfolding match_rest_def patterns_fit_def
    by (auto simp: af_match_dns_regex_feature_def intro!: bind_fits dns_regex_fits non_url_fits split: option.split prod.split)
  then have "match_rest (k_in4_pton k) (k_in6_pton k) (k_regex_junk k) ?fs flow1 \<noteq> Inl e" for flow1
    by (metis returns_simps(2))
  then show ?thesis
    by (auto simp: fx_match_feature_def fwx_match_feature_def Let_def bind_eq_Some_conv split: option.splits)
qed

lemma patterns_same: "same_config s t \<Longrightarrow> patterns_fit k t = patterns_fit k s"
  by (simp add: patterns_fit_def same_config_def)

lemma bind_outcome: "r \<noteq> Some (Inl e) \<Longrightarrow> map_option (\<lambda>r. ub_bind r (\<lambda>(hit, flow). Inr (f hit flow))) r \<noteq> Some (Inl e)"
  by (cases r) (auto simp: ub_bind_def split: sum.split)

lemma gateway_fits:
  assumes "patterns_fit k s" shows "fwx_hook_gateway_handle k pkt s \<noteq> Some (Inl e)"
proof -
  have inspect: "gateway_inspect k pkt skb mac w flow ct t \<noteq> Some (Inl e)" if "patterns_fit k t" for skb mac w flow ct t
  proof -
    have main: "map_option (\<lambda>r. ub_bind r (\<lambda>(hit, flow'). Inr (gateway_verdict k mac w skb hit flow' c u))) (fx_match_feature k f u) \<noteq>
        Some (Inl e)" if "same_config t u" for c f u
      by (rule bind_outcome, rule match_fits) (simp add: patterns_same [OF that] \<open>patterns_fit k t\<close>)
    have "same_config t (if \<not> w then fx_update_url k mac f t else t)" for f by simp
    note main = main [OF this]
    show ?thesis
    proof (cases "ct_acct_packets ct")
      case (Some n)
      show ?thesis
      proof (cases "linear_payload k pkt (if fwx_ct_test_bit FWX_CT_CLIENT_HELLO_BIT ct
          then flow\<lparr>fl_client_hello := True\<rparr> else flow)")
        case flow1: (Some flow1)
        show ?thesis unfolding gateway_inspect_def Some flow1 option.case Let_def
          by (cases "n > MAX_DPI_PKT_NUM") (simp_all only: if_True if_False main option.inject sum.distinct simp_thms)
      qed (simp add: gateway_inspect_def Some)
    qed (simp add: gateway_inspect_def)
  qed
  have "gateway_conn k pkt skb mac w flow ct t \<noteq> Some (Inl e)" if "patterns_fit k t" for skb mac w flow ct t
  proof -
    obtain v ct1 t1 where g: "gateway_known k mac w ct t = (v, ct1, t1)" by (metis prod.collapse)
    have "patterns_fit k t1" using patterns_same gateway_known_inv(1) [OF g] that by blast
    then show ?thesis unfolding gateway_conn_def g by (simp add: inspect split: option.split)
  qed
  moreover have "patterns_fit k (fx_client_write mac f s)" for mac f
    using patterns_same [of s "fx_client_write mac f s"] assms by simp
  ultimately show ?thesis by (simp add: fwx_hook_gateway_handle_def split: option.split)
qed

lemma bypass_fits:
  assumes "patterns_fit k s" shows "fwx_hook_bypass_handle k pkt s \<noteq> Some (Inl e)"
proof -
  have inspect: "bypass_inspect k pkt skb mac w key conn flow t \<noteq> Some (Inl e)" if "patterns_fit k t"
    for skb mac w key conn flow t
  proof -
    have main: "map_option (\<lambda>r. ub_bind r (\<lambda>(hit, flow). Inr (if hit then bypass_found k key skb mac w conn flow u
        else bypass_finish k key skb mac w (conn_ignore conn \<noteq> 0) False flow u))) (fx_match_feature k f u) \<noteq> Some (Inl e)"
      if "same_config t u" for f u
      by (rule bind_outcome, rule match_fits) (simp add: patterns_same [OF that] \<open>patterns_fit k t\<close>)
    have "same_config t (if \<not> w then fx_active_host k mac f (fx_update_url k mac f (fx_conn_write j key g t))
        else fx_conn_write j key g t)" for f j g by simp
    note main = main [OF this]
    show ?thesis
    proof (cases "linear_payload k pkt flow")
      case (Some flow1)
      show ?thesis unfolding bypass_inspect_def Some option.case Let_def
        by (cases "g_by_pass_accl (fx_sysctl t) \<and> conn_total_pkts conn > 256")
          (simp_all only: if_True if_False main option.inject sum.distinct simp_thms)
    qed (simp add: bypass_inspect_def)
  qed
  have conn: "bypass_conn k pkt skb mac w flow t \<noteq> Some (Inl e)" if "same_config s t" for skb mac w flow t
  proof -
    have "patterns_fit k t'" if "same_config t t'" for t' using patterns_same same_config_trans \<open>same_config s t\<close> that assms by blast
    then show ?thesis unfolding bypass_conn_def Let_def by (simp add: inspect split: option.split prod.split)
  qed
  show ?thesis unfolding fwx_hook_bypass_handle_def Let_def by (simp add: conn split: option.split prod.split)
qed

end
