(* ===== verification/Fwx_Config.thy ===== *)
theory Fwx_Config
  imports Fwx_Verdict Fwx_Json_Correct
begin

text \<open>
  The configuration device (\<^verbatim>\<open>oaf/src/fwx_config.c\<close>): requests are written to a buffer of 256 KiB in
  pieces and carried out when the device is closed. A request is a JSON object with the name of a
  function and its data. Then everything that changes the state of the module, and the invariant
  that all of it keeps. A missing \<^verbatim>\<open>string\<close> of an array's item and a missing \<^verbatim>\<open>valuestring\<close> are NULL
  pointers that the code passes to \<^verbatim>\<open>strcasecmp\<close> and \<^verbatim>\<open>strcmp\<close>.
\<close>

section \<open>The file\<close>

definition FWX_BUF_SIZE :: nat where "FWX_BUF_SIZE = 262144"

text \<open>\<open>cf_written\<close> is the start of \<^verbatim>\<open>buf\<close> up to the last byte ever written; the rest is zero.\<close>

record cdev_file =
  cf_size :: nat
  cf_written :: bytes

definition cf_buf :: "cdev_file \<Rightarrow> bytes" where
  "cf_buf file = cf_written file @ replicate (FWX_BUF_SIZE - length (cf_written file)) 0"

definition fwx_cdev_open :: cdev_file where
  "fwx_cdev_open = \<lparr>cf_size = 0, cf_written = []\<rparr>"

text \<open>\<open>n\<close> is how many bytes \<^verbatim>\<open>copy_from_user\<close> could copy.\<close>

definition fwx_cdev_write :: "nat \<Rightarrow> bytes \<Rightarrow> cdev_file \<Rightarrow> int \<times> cdev_file" where
  "fwx_cdev_write n buffer file =
     (if cf_size file + length buffer > FWX_BUF_SIZE then (-22, file)
      else let data = take n buffer;
             w = take (cf_size file) (cf_written file) @ data @ drop (cf_size file + length data) (cf_written file)
           in if length data < length buffer then (-22, file\<lparr>cf_written := w\<rparr>)
              else (int (length buffer), file\<lparr>cf_size := cf_size file + length buffer, cf_written := w\<rparr>))"

section \<open>The requests\<close>

text \<open>What a request needs: whether there is memory for a rule, an application id and an address, and the clock.\<close>

record request_env =
  q_rule :: bool
  q_app :: "int \<Rightarrow> bool"
  q_mac :: "mac \<Rightarrow> bool"
  q_jiffies :: u64

text \<open>The children of an array have no name to compare with.\<close>

definition get_object_item :: "json \<Rightarrow> bytes \<Rightarrow> json option ub_result" where
  "get_object_item object name = (case object of
      JArray (_ # _) \<Rightarrow> Inl (NullDeref ''string'')
    | _ \<Rightarrow> Inr (cJSON_GetObjectItem object name))"

text \<open>A handler that begins with a look at a member of its data.\<close>

definition with_members :: "json \<Rightarrow> 'a ub_result \<Rightarrow> 'a ub_result" where
  "with_members data_obj r = ub_bind (get_object_item data_obj []) (\<lambda>_. r)"

type_synonym request_handler = "request_env \<Rightarrow> json \<Rightarrow> fwx \<Rightarrow> fwx ub_result"

definition on_mac :: "(request_env \<Rightarrow> json \<Rightarrow> mac_filter \<Rightarrow> bool \<times> mac_filter) \<Rightarrow> request_handler" where
  "on_mac f q data_obj s = with_members data_obj (Inr (s\<lparr>fx_mac := snd (f q data_obj (fx_mac s))\<rparr>))"

definition on_app :: "(request_env \<Rightarrow> json \<Rightarrow> app_filter \<Rightarrow> (bool \<times> app_filter) ub_result) \<Rightarrow> request_handler" where
  "on_app f q data_obj s =
     with_members data_obj (ub_bind (f q data_obj (fx_app s)) (\<lambda>(ret, af). Inr (s\<lparr>fx_app := af\<rparr>)))"

definition on_clients :: "(request_env \<Rightarrow> json \<Rightarrow> clients \<Rightarrow> bool \<times> clients) \<Rightarrow> request_handler" where
  "on_clients f q data_obj s =
     with_members data_obj (Inr (s\<lparr>fx_clients := snd (f q data_obj (fx_clients s))\<rparr>))"

text \<open>The two dumps only print.\<close>

definition dump_handler :: request_handler where
  "dump_handler q data_obj s = with_members data_obj (Inr s)"

definition k_request_api_list :: "(bytes \<times> request_handler) list" where
  "k_request_api_list = [
     (cstr ''add_mac_filter_rule'', on_mac (\<lambda>q. fwx_api_add_mac_filter_rule (q_rule q))),
     (cstr ''del_mac_filter_rule'', on_mac (\<lambda>q. fwx_api_del_mac_filter_rule)),
     (cstr ''mod_mac_filter_rule'', on_mac (\<lambda>q. fwx_api_mod_mac_filter_rule (q_mac q))),
     (cstr ''dump_mac_filter_rule'', dump_handler),
     (cstr ''flush_mac_filter_rule'', \<lambda>q data_obj s. Inr (s\<lparr>fx_mac := fwx_api_flush_mac_filter_rule (fx_mac s)\<rparr>)),
     (cstr ''add_app_filter_rule'', on_app (\<lambda>q data_obj af.
        Inr (fwx_api_add_app_filter_rule (q_rule q) (q_jiffies q) data_obj af))),
     (cstr ''del_app_filter_rule'', on_app (\<lambda>q. fwx_api_del_app_filter_rule (q_jiffies q))),
     (cstr ''mod_app_filter_rule'', on_app (\<lambda>q. fwx_api_mod_app_filter_rule (q_app q) (q_mac q) (q_jiffies q))),
     (cstr ''dump_app_filter_rule'', dump_handler),
     (cstr ''flush_app_filter_rule'', \<lambda>q data_obj s.
        Inr (s\<lparr>fx_app := fwx_api_flush_app_filter_rule (q_jiffies q) (fx_app s)\<rparr>)),
     (cstr ''add_mac_filter_whitelist'', on_mac (\<lambda>q. fwx_api_add_mac_filter_whitelist (q_mac q))),
     (cstr ''del_mac_filter_whitelist'', on_mac (\<lambda>q. fwx_api_del_mac_filter_whitelist)),
     (cstr ''flush_mac_filter_whitelist'', \<lambda>q data_obj s.
        Inr (s\<lparr>fx_mac := fwx_api_flush_mac_filter_whitelist (fx_mac s)\<rparr>)),
     (cstr ''add_app_filter_whitelist'', on_app (\<lambda>q data_obj af.
        Inr (fwx_api_add_app_filter_whitelist (q_mac q) (q_jiffies q) data_obj af))),
     (cstr ''flush_app_filter_whitelist'', \<lambda>q data_obj s.
        Inr (s\<lparr>fx_app := fwx_api_flush_app_filter_whitelist (q_jiffies q) (fx_app s)\<rparr>)),
     (cstr ''add_record_whitelist'', on_clients (\<lambda>q. fwx_api_add_record_whitelist (q_mac q))),
     (cstr ''del_record_whitelist'', on_clients (\<lambda>q. fwx_api_del_record_whitelist)),
     (cstr ''flush_record_whitelist'', \<lambda>q data_obj s.
        Inr (s\<lparr>fx_clients := fwx_api_flush_record_whitelist (fx_clients s)\<rparr>))]"

text \<open>The loop over the table: the first function of the name is called, its answer is not looked at.\<close>

definition run_request :: "request_env \<Rightarrow> bytes \<Rightarrow> json \<Rightarrow> fwx \<Rightarrow> fwx ub_result" where
  "run_request q api data_obj s = (case find (\<lambda>item. fst item = api) k_request_api_list of
      None \<Rightarrow> Inr s | Some item \<Rightarrow> snd item q data_obj s)"

definition handle_request :: "request_env \<Rightarrow> json \<Rightarrow> fwx \<Rightarrow> (int \<times> fwx) ub_result" where
  "handle_request q config_obj s =
     ub_bind (get_object_item config_obj (cstr ''api'')) (\<lambda>api_obj.
     ub_bind (get_object_item config_obj (cstr ''data'')) (\<lambda>data_obj.
       case api_obj of
         None \<Rightarrow> Inr (-1, s)
       | Some api_obj \<Rightarrow>
           let data_obj = (case data_obj of None \<Rightarrow> JObject [] | Some d \<Rightarrow> d) in
           (case valuestring api_obj of
              None \<Rightarrow> Inl (NullDeref ''valuestring'')
            | Some api \<Rightarrow> ub_bind (run_request q api data_obj s) (\<lambda>s'. Inr (0, s')))))"

text \<open>When the text cannot be parsed it is printed up to its NUL. \<open>None\<close> is the fuel of the parser.\<close>

definition fwx_config_handle ::
  "bool \<Rightarrow> (bytes \<Rightarrow> u32) \<Rightarrow> request_env \<Rightarrow> bytes \<Rightarrow> nat \<Rightarrow> fwx \<Rightarrow> (int \<times> fwx) ub_result option" where
  "fwx_config_handle sc hex q config len s =
     (if len = 0 then Some (Inr (-1, s))
      else (case cJSON_Parse sc hex config of
          PFuel \<Rightarrow> None
        | PUb e \<Rightarrow> Some (Inl e)
        | PNull \<Rightarrow> Some (if 0 \<in> set config then Inr (-1, s) else Inl (OverRead ''config''))
        | POk config_obj _ \<Rightarrow> Some (handle_request q config_obj s)))"

definition fwx_cdev_release ::
  "bool \<Rightarrow> (bytes \<Rightarrow> u32) \<Rightarrow> request_env \<Rightarrow> cdev_file \<Rightarrow> fwx \<Rightarrow> (int \<times> fwx) ub_result option" where
  "fwx_cdev_release sc hex q file s = fwx_config_handle sc hex q (cf_buf file) (cf_size file) s"

text \<open>The handler of the sysctl \<^verbatim>\<open>record_whitelist\<close>; \<open>str\<close> is what \<^verbatim>\<open>proc_dostring\<close> stored.\<close>

definition fwx_proc_record_whitelist_handler :: "(mac \<Rightarrow> bool) \<Rightarrow> bool \<Rightarrow> bytes \<Rightarrow> fwx \<Rightarrow> fwx ub_result" where
  "fwx_proc_record_whitelist_handler kzm write str s =
     (if \<not> write then Inr s
      else ub_bind (fwx_set_record_whitelist kzm str (fx_clients s)) (\<lambda>cs. Inr (s\<lparr>fx_clients := cs\<rparr>)))"

section \<open>From the device to the handler\<close>

lemma written_pieces:
  assumes "cf_size cf = length (cf_written cf)"
    and "cf_size cf + length (concat pieces) \<le> FWX_BUF_SIZE"
  shows "fold (\<lambda>p f. snd (fwx_cdev_write (length p) p f)) pieces cf =
    cf\<lparr>cf_size := cf_size cf + length (concat pieces), cf_written := cf_written cf @ concat pieces\<rparr>"
  using assms by (induction pieces arbitrary: cf) (simp_all add: fwx_cdev_write_def Let_def)

lemma renders_nonempty: "renders sc j t \<Longrightarrow> 0 < length t"
  using renders_head(1) by fastforce

lemma release_text:
  assumes "renders sc config_obj t" and "length t < FWX_BUF_SIZE"
  shows "fwx_cdev_release sc hex q \<lparr>cf_size = length t, cf_written = t\<rparr> s = Some (handle_request q config_obj s)"
proof -
  have "FWX_BUF_SIZE - length t = Suc (FWX_BUF_SIZE - length t - 1)" using assms(2) by simp
  then have "cf_buf \<lparr>cf_size = length t, cf_written = t\<rparr> = [] @ t @ 0 # replicate (FWX_BUF_SIZE - length t - 1) 0"
    by (metis append_Nil cdev_file.select_convs(2) cf_buf_def replicate_Suc)
  then show ?thesis
    using cJSON_Parse_renders [OF assms(1), of "[]" hex] renders_nonempty [OF assms(1)]
    by (simp add: fwx_cdev_release_def fwx_config_handle_def)
qed

text \<open>
  C27. A request reaches its handler. However its text is cut into writes, whatever white
  space it has, if it renders an object whose member \<^verbatim>\<open>api\<close> is a string and fits the buffer with a NUL,
  closing the device runs the function of that name (if there is one, otherwise nothing) on the
  member \<^verbatim>\<open>data\<close>, or on an empty object when there is none.
\<close>

theorem request_reaches_handler:
  assumes "renders sc (JObject kvs) (concat pieces)" and "length (concat pieces) < FWX_BUF_SIZE"
    and "cJSON_GetObjectItem (JObject kvs) (cstr ''api'') = Some (JString api)"
  shows "fwx_cdev_release sc hex q
      (fold (\<lambda>p f. snd (fwx_cdev_write (length p) p f)) pieces fwx_cdev_open) s =
    Some (ub_bind (run_request q api
      (case cJSON_GetObjectItem (JObject kvs) (cstr ''data'') of None \<Rightarrow> JObject [] | Some d \<Rightarrow> d) s)
      (\<lambda>s'. Inr (0, s')))"
proof -
  have "fold (\<lambda>p f. snd (fwx_cdev_write (length p) p f)) pieces fwx_cdev_open =
      \<lparr>cf_size = length (concat pieces), cf_written = concat pieces\<rparr>"
    using written_pieces [of fwx_cdev_open pieces] assms(2) by (simp add: fwx_cdev_open_def)
  then show ?thesis
    using release_text [OF assms(1,2)] assms(3)
    by (simp add: handle_request_def get_object_item_def valuestring_def del: cstr_simps)
qed

theorem request_reaches_handler_witness:
  "\<forall>q s. fwx_cdev_release True (\<lambda>_. 0) q
     (fold (\<lambda>p f. snd (fwx_cdev_write (length p) p f))
       [cstr ''{\"api\"'', cstr '': \"flush_mac_filter_rule\"}''] fwx_cdev_open) s =
     Some (Inr (0, s\<lparr>fx_mac := fwx_api_flush_mac_filter_rule (fx_mac s)\<rparr>))"
proof -
  let ?api = "cstr ''flush_mac_filter_rule''"
  have "renders_members True [(cstr ''api'', JString ?api)]
      (print_string_ptr True (cstr ''api'') @ [] @ 0x3A # cstr '' '' @ print_string_ptr True ?api @ [])"
    by (intro r_member r_string) (simp_all add: json_string_def json_char_def char_val_ascii)
  from r_object [OF _ this, of "[]"]
  have "renders True (JObject [(cstr ''api'', JString ?api)])
      (concat [cstr ''{\"api\"'', cstr '': \"flush_mac_filter_rule\"}''])"
    by (simp add: print_string_ptr_def escape_def char_val_ascii)
  from request_reaches_handler [OF this] show ?thesis
    by (simp add: FWX_BUF_SIZE_def cJSON_GetObjectItem_def tolower_ascii_def run_request_def k_request_api_list_def)
qed

section \<open>Requests that crash\<close>

definition crashing :: "json \<Rightarrow> bool" where
  "crashing config_obj \<longleftrightarrow> (case get_object_item config_obj (cstr ''api'') of
      Inl e \<Rightarrow> True
    | Inr None \<Rightarrow> False
    | Inr (Some api_obj) \<Rightarrow> (case valuestring api_obj of
        None \<Rightarrow> True
      | Some api \<Rightarrow> api \<in> fst ` set k_request_api_list \<and> \<not> prefix (cstr ''flush_'') api \<and>
          (case cJSON_GetObjectItem config_obj (cstr ''data'') of Some (JArray (_ # _)) \<Rightarrow> True | _ \<Rightarrow> False)))"

definition no_null :: "'a ub_result \<Rightarrow> bool" where
  "no_null r \<longleftrightarrow> (\<forall>p. r \<noteq> Inl (NullDeref p))"

lemma no_null_simps [simp]:
  "no_null (Inr x)" "\<not> no_null (Inl (NullDeref p))" "no_null (Inl SignedOverflow)" "no_null (Inl (BufferOverflow b))"
  by (simp_all add: no_null_def)

lemma no_null_bind: "no_null r \<Longrightarrow> (\<And>x. no_null (f x)) \<Longrightarrow> no_null (ub_bind r f)"
  by (cases r) (simp_all add: no_null_def)

lemma no_null_bind_Inr [simp]: "no_null (ub_bind r (\<lambda>x. Inr (f x))) = no_null r"
  by (cases r) (simp_all add: no_null_def)

lemma no_null_del_ids: "no_null (del_app_ids i ids af)"
  by (induction ids arbitrary: af)
    (auto intro!: no_null_bind simp: fwx_del_app_id_from_rule_def split: option.split)

lemma no_null_add_tokens: "no_null (add_tokens kz objs c)"
  by (induction objs arbitrary: c)
    (auto intro!: no_null_bind simp: add_app_id_token_to_rule_def split_def split: option.split)

lemma no_null_app_api:
  "no_null (fwx_api_mod_app_filter_rule kz kzm jiffies data_obj af)"
  "no_null (fwx_api_del_app_filter_rule jiffies data_obj af)"
proof -
  have "no_null (add_app_id_token_to_rule kz obj c)" for obj c
    by (auto simp: add_app_id_token_to_rule_def split: option.split)
  then have "no_null (mod_app_id_list kz data_obj c)" for c
    by (auto simp: mod_app_id_list_def no_null_add_tokens split_def split: option.split)
  then show "no_null (fwx_api_mod_app_filter_rule kz kzm jiffies data_obj af)"
    by (auto simp: fwx_api_mod_app_filter_rule_def mod_app_rule_def split: option.split)
  have "no_null (fwx_del_app_id_from_rule i n af)" for i n af
    by (auto simp: fwx_del_app_id_from_rule_def split: option.split)
  then show "no_null (fwx_api_del_app_filter_rule jiffies data_obj af)"
    by (auto simp: fwx_api_del_app_filter_rule_def del_app_id_token_from_rule_def no_null_del_ids Let_def
        split: option.split json.split)
qed

lemma members_null:
  "no_null (with_members data_obj r) \<longleftrightarrow> (case data_obj of JArray (_ # _) \<Rightarrow> False | _ \<Rightarrow> no_null r)"
  by (auto simp: with_members_def get_object_item_def split: json.split list.split)

lemma run_request_null:
  "no_null (run_request q api data_obj s) \<longleftrightarrow>
     \<not> (api \<in> fst ` set k_request_api_list \<and> \<not> prefix (cstr ''flush_'') api \<and>
       (case data_obj of JArray (_ # _) \<Rightarrow> True | _ \<Rightarrow> False))"
proof (cases "find (\<lambda>item. fst item = api) k_request_api_list")
  case None
  then have "api \<notin> fst ` set k_request_api_list" by (auto simp: find_None_iff)
  then show ?thesis by (simp add: run_request_def None)
next
  case (Some item)
  then have item: "item \<in> set k_request_api_list" "fst item = api"
    by (auto simp: find_Some_iff)
  have "list_all (\<lambda>item. no_null (snd item q data_obj s) \<longleftrightarrow>
      \<not> (\<not> prefix (cstr ''flush_'') (fst item) \<and> (case data_obj of JArray (_ # _) \<Rightarrow> True | _ \<Rightarrow> False)))
      k_request_api_list"
    by (simp add: k_request_api_list_def on_mac_def on_app_def on_clients_def dump_handler_def members_null
        no_null_app_api split_def split: json.split list.split)
  then have "no_null (snd item q data_obj s) \<longleftrightarrow>
      \<not> (\<not> prefix (cstr ''flush_'') (fst item) \<and> (case data_obj of JArray (_ # _) \<Rightarrow> True | _ \<Rightarrow> False))"
    using item(1) by (auto simp only: list_all_iff)
  moreover have "api \<in> fst ` set k_request_api_list" using item by blast
  ultimately show ?thesis using item(2) by (simp add: run_request_def Some)
qed

text \<open>
  Which requests crash the kernel. The request whose text was written makes the module
  dereference a NULL pointer when the device is closed if and only if it is an array with an item,
  or its member \<^verbatim>\<open>api\<close> is not a string, or it calls any function but the six that flush a table while
  its member \<^verbatim>\<open>data\<close> is an array with an item.
\<close>

theorem request_crashes:
  assumes "renders sc config_obj t" and "length t < FWX_BUF_SIZE"
  shows "(\<exists>p. fwx_cdev_release sc hex q \<lparr>cf_size = length t, cf_written = t\<rparr> s = Some (Inl (NullDeref p))) \<longleftrightarrow>
    crashing config_obj"
proof -
  have "no_null (handle_request q config_obj s) \<longleftrightarrow> \<not> crashing config_obj"
  proof (cases "get_object_item config_obj (cstr ''api'')")
    case (Inl e)
    then obtain p where "e = NullDeref p" by (auto simp: get_object_item_def split: json.splits list.splits)
    then show ?thesis using Inl by (simp add: handle_request_def crashing_def del: cstr_simps)
  next
    case (Inr api_obj)
    then have "get_object_item config_obj (cstr ''data'') = Inr (cJSON_GetObjectItem config_obj (cstr ''data''))"
      by (auto simp: get_object_item_def simp del: cstr_simps split: json.splits list.splits)
    then show ?thesis
      using Inr by (simp add: handle_request_def crashing_def run_request_null del: cstr_simps split: option.split)
  qed
  then show ?thesis by (auto simp: release_text [OF assms] no_null_def)
qed

theorem request_crashes_witness:
  "\<forall>q s. \<exists>p. fwx_cdev_release True (\<lambda>_. 0) q \<lparr>cf_size = 6, cf_written = cstr ''[null]''\<rparr> s = Some (Inl (NullDeref p))"
proof -
  have "renders_items True [JNull] (cstr ''null'')"
    using r_item [OF r_null, of "[]"] by simp
  from r_array [OF _ this, of "[]"] have "renders True (JArray [JNull]) (cstr ''[null]'')" by simp
  moreover have "length (cstr ''[null]'') = 6" by simp
  ultimately show ?thesis
    using request_crashes [of True "JArray [JNull]" "cstr ''[null]''"]
    by (simp only: FWX_BUF_SIZE_def crashing_def get_object_item_def) simp
qed

end
