(* ===== verification/Fwx_Policy.thy ===== *)
theory Fwx_Policy
  imports Fwx_Verdict
begin

text \<open>
  The verdicts against the policy: what a new connection gets, what a connection gets whose
  application is known, and where the code leaves the policy: rules that come too late, drop
  marks that outlive the rule or are taken back by an unrelated one, decisions that bypass mode does
  not remember, and the lock that is not released.
\<close>

section \<open>Gateway mode, connections that are known\<close>

text \<open>The rules for applications changed within the last thirty seconds.\<close>

definition recent :: "kernel \<Rightarrow> fwx \<Rightarrow> bool" where
  "recent k s \<longleftrightarrow>
     (ucast (k_jiffies k - ucast (af_update_jiffies (fx_app s))) :: u32) < 30 * ucast (k_hz k)"

lemma not_drop: "v \<noteq> NF_DROP \<longleftrightarrow> v = NF_ACCEPT"
  by (cases v) simp_all

lemma action_changed:
  assumes "app_filter_inv (fx_app s)"
  shows "check_app_action_changed k action app_id mac s \<longleftrightarrow>
    recent k s \<and> action \<noteq> app_policy s (sint app_id) mac"
  unfolding check_app_action_changed_def Let_def recent_def match_app_policy [OF assms] by auto

lemma gateway_marked:
  assumes inv: "fwx_inv j s"
    and mark: "fwx_ct_is_valid_appid (fwx_ct_get_appid ct) \<or>
      fwx_ct_get_appid ct = 0 \<and> fwx_ct_test_bit FWX_CT_DROP_BIT ct"
  shows "\<exists>out ct'. gateway_conn k pkt skb mac w flow ct s = Some (Inr out) \<and> o_ct out = Some ct' \<and>
    (o_verdict out = NF_DROP \<longleftrightarrow>
      (if fwx_ct_get_appid ct > 1000 \<and> recent k s then app_policy s (sint (fwx_ct_get_appid ct)) mac
       else fwx_ct_test_bit FWX_CT_DROP_BIT ct)) \<and>
    (fwx_ct_test_bit FWX_CT_DROP_BIT ct' \<longleftrightarrow> o_verdict out = NF_DROP) \<and>
    fwx_ct_get_appid ct' = fwx_ct_get_appid ct \<and> o_rst out = False"
proof (cases "fwx_ct_get_appid ct = 0")
  case True
  then have "gateway_known k mac w ct s = (None, ct, s)" by (simp add: gateway_known_def Let_def)
  then show ?thesis using mark True
    by (simp add: gateway_conn_def fwx_ct_has_valid_drop_mark_def fwx_ct_is_valid_appid_def Let_def)
next
  case False
  let ?app = "fwx_ct_get_appid ct" and ?d = "fwx_ct_test_bit FWX_CT_DROP_BIT ct"
  have valid: "fwx_ct_is_valid_appid ?app" using mark False by blast
  have app: "app_filter_inv (fx_app s)" using inv by (simp add: fwx_inv_def)
  show ?thesis
  proof (cases "?app > 1000")
    case small: False
    have "\<not> (1000 < ?app \<and> ?app \<le> 32000)" using small by blast
    then have "gateway_known k mac w ct s =
        (if ?app > 0 \<and> ?app < 1000 \<and> g_appfilter_enable (fx_sysctl s) \<and> ?d then (Some NF_DROP, ct, s) else (None, ct, s))"
      using valid False by (simp only: gateway_known_def Let_def) simp
    then show ?thesis using small valid False
      by (simp add: gateway_conn_def fwx_ct_has_valid_drop_mark_def accept_def Let_def)
  next
    case True
    define d where "d = (if recent k s then app_policy s (sint ?app) mac else ?d)"
    define ct' where "ct' = (if recent k s \<and> ?d \<noteq> app_policy s (sint ?app) mac
      then fwx_ct_set_bit FWX_CT_DROP_BIT d ct else ct)"
    have ct': "fwx_ct_test_bit FWX_CT_DROP_BIT ct' = d" "fwx_ct_get_appid ct' = ?app"
      by (auto simp: ct'_def d_def)
    have "\<exists>s'. gateway_known k mac w ct s =
        (if g_appfilter_enable (fx_sysctl s) \<and> d then (Some NF_DROP, ct', s') else (None, ct', s'))"
    proof -
      have "\<not> ?app < 1000" "?app \<le> 32000" using True valid by (auto simp: fwx_ct_is_valid_appid_def)
      then show ?thesis
        using True valid False unfolding gateway_known_def Let_def action_changed [OF app] ct'_def d_def by auto
    qed
    then obtain s' where g: "gateway_known k mac w ct s =
        (if g_appfilter_enable (fx_sysctl s) \<and> d then (Some NF_DROP, ct', s') else (None, ct', s'))" ..
    have "(if ?app > 1000 \<and> recent k s then app_policy s (sint ?app) mac else ?d) = d"
      using True by (simp add: d_def)
    then show ?thesis unfolding gateway_conn_def g using ct' valid False
      by (cases d) (simp_all add: fwx_ct_has_valid_drop_mark_def accept_def Let_def)
  qed
qed

text \<open>
  C16. The verdict on a known connection. While the rules are recent, a connection of an
  application above 1000 gets what the rules for applications say now; otherwise every known
  connection, and every one marked without an application, gets what its mark says. The verdict is
  in the mark afterwards, with the same application, and no reset is sent.
\<close>

theorem gateway_marked_verdict:
  assumes "fwx_inv j s"
    and "fwx_ct_is_valid_appid (fwx_ct_get_appid ct) \<or>
      fwx_ct_get_appid ct = 0 \<and> fwx_ct_test_bit FWX_CT_DROP_BIT ct"
  shows "\<exists>out ct'. gateway_conn k pkt skb mac w flow ct s = Some (Inr out) \<and> o_ct out = Some ct' \<and>
    (o_verdict out = NF_DROP \<longleftrightarrow>
      (if fwx_ct_get_appid ct > 1000 \<and> recent k s then app_policy s (sint (fwx_ct_get_appid ct)) mac
       else fwx_ct_test_bit FWX_CT_DROP_BIT ct)) \<and>
    (fwx_ct_test_bit FWX_CT_DROP_BIT ct' \<longleftrightarrow> o_verdict out = NF_DROP) \<and>
    fwx_ct_get_appid ct' = fwx_ct_get_appid ct \<and> o_rst out = False"
  using assms by (rule gateway_marked)

text \<open>
  Drop marks outlive the filters. With both filters switched off, a connection that is marked
  to be dropped is still dropped, if no application was found, if the application is not above 1000, or
  if the rules have not changed for thirty seconds: switching a filter off changes no mark.
\<close>

theorem gateway_drop_outlives_filters:
  assumes "fwx_inv j s" and "\<not> g_appfilter_enable (fx_sysctl s)" and "\<not> g_mac_filter_enable (fx_sysctl s)"
    and "fwx_ct_test_bit FWX_CT_DROP_BIT ct"
    and "fwx_ct_get_appid ct = 0 \<or> fwx_ct_is_valid_appid (fwx_ct_get_appid ct) \<and>
      (fwx_ct_get_appid ct \<le> 1000 \<or> \<not> recent k s)"
  shows "(\<exists>out. gateway_conn k pkt skb mac w flow ct s = Some (Inr out) \<and> o_verdict out = NF_DROP) \<and>
    (\<forall>app_id. \<not> app_policy s app_id mac) \<and> \<not> mac_policy s mac"
proof -
  have "fwx_ct_is_valid_appid (fwx_ct_get_appid ct) \<or>
      fwx_ct_get_appid ct = 0 \<and> fwx_ct_test_bit FWX_CT_DROP_BIT ct" using assms(4,5) by blast
  from gateway_marked [OF assms(1) this, of k pkt skb mac w flow] obtain out where
    "gateway_conn k pkt skb mac w flow ct s = Some (Inr out)"
    "o_verdict out = NF_DROP \<longleftrightarrow> (if fwx_ct_get_appid ct > 1000 \<and> recent k s
       then app_policy s (sint (fwx_ct_get_appid ct)) mac else fwx_ct_test_bit FWX_CT_DROP_BIT ct)"
    by blast
  moreover have "\<not> (fwx_ct_get_appid ct > 1000 \<and> recent k s)" using assms(5) by (auto simp: not_less)
  ultimately show ?thesis using assms(2-4) by (auto simp: app_policy_def mac_policy_def)
qed

text \<open>
  A change of the application rules takes MAC blocks back. A connection of an application above 1000 that
  was dropped because of its address is let through with the next packet that comes while the
  application rules are recent and do not forbid the application, although the MAC rules still
  block the address; the mark is cleared, so every later packet is let through as well.
\<close>

theorem gateway_mac_drop_released:
  assumes "fwx_inv j s" and "fwx_ct_is_valid_appid (fwx_ct_get_appid ct)" and "fwx_ct_get_appid ct > 1000"
    and "fwx_ct_test_bit FWX_CT_DROP_BIT ct" and "recent k s"
    and "\<not> app_policy s (sint (fwx_ct_get_appid ct)) mac" and "mac_policy s mac"
  shows "\<exists>out ct'. gateway_conn k pkt skb mac w flow ct s = Some (Inr out) \<and> o_verdict out = NF_ACCEPT \<and>
    o_ct out = Some ct' \<and>
    (\<forall>k' pkt' skb' flow' w'. \<exists>out'. gateway_conn k' pkt' skb' mac w' flow' ct' (o_state out) = Some (Inr out') \<and>
       o_verdict out' = NF_ACCEPT) \<and> mac_policy (o_state out) mac"
proof -
  obtain out ct' where 1: "gateway_conn k pkt skb mac w flow ct s = Some (Inr out)" "o_ct out = Some ct'"
    "\<not> o_verdict out = NF_DROP" "\<not> fwx_ct_test_bit FWX_CT_DROP_BIT ct'" "fwx_ct_get_appid ct' = fwx_ct_get_appid ct"
    using gateway_marked [OF assms(1) disjI1 [OF assms(2)], of k pkt skb mac w flow] assms(3-6) by auto
  have st: "fwx_inv j (o_state out)" "same_config s (o_state out)"
    using gateway_conn_fine [OF assms(1), of k pkt skb mac w flow ct] 1(1) by simp_all
  then have pol: "\<not> app_policy (o_state out) (sint (fwx_ct_get_appid ct)) mac" "mac_policy (o_state out) mac"
    using assms(6,7) by (auto simp: same_config_def app_policy_def mac_policy_def)
  have "\<exists>out'. gateway_conn k' pkt' skb' mac w' flow' ct' (o_state out) = Some (Inr out') \<and> o_verdict out' = NF_ACCEPT"
    for k' pkt' skb' flow' w'
  proof -
    have "fwx_ct_is_valid_appid (fwx_ct_get_appid ct')" using assms(2) 1(5) by simp
    from gateway_marked [OF st(1) disjI1 [OF this], of k' pkt' skb' mac w' flow'] obtain out' where
      o: "gateway_conn k' pkt' skb' mac w' flow' ct' (o_state out) = Some (Inr out')"
      "o_verdict out' = NF_DROP \<longleftrightarrow> (if fwx_ct_get_appid ct' > 1000 \<and> recent k' (o_state out)
         then app_policy (o_state out) (sint (fwx_ct_get_appid ct')) mac else fwx_ct_test_bit FWX_CT_DROP_BIT ct')"
      by blast
    then have "o_verdict out' \<noteq> NF_DROP" using 1(4,5) pol(1) by simp
    then show ?thesis using o(1) not_drop by blast
  qed
  then show ?thesis using 1(1,2) 1(3) [unfolded not_drop] pol(2) by blast
qed

section \<open>Gateway mode, new connections\<close>

lemma policy_same: "same_config s s' \<Longrightarrow> app_policy s' = app_policy s" "same_config s s' \<Longrightarrow> mac_policy s' = mac_policy s"
  by (auto simp: same_config_def app_policy_def mac_policy_def fun_eq_iff)

lemma gateway_mark_fields:
  assumes "gateway_mark flow ct = (flow', ct')"
  shows "fl_app_id flow' = fl_app_id flow" "fwx_ct_get_appid ct' = fl_app_id flow AND 0xFFFF"
    "fwx_ct_test_bit FWX_CT_DROP_BIT ct' = fwx_ct_test_bit FWX_CT_DROP_BIT ct" "fl_l4_protocol flow' = fl_l4_protocol flow"
proof -
  have "fl_app_id flow AND 0xFFFF = take_bit 16 (fl_app_id flow)" by (simp add: take_bit_eq_mask mask_eq_exp_minus_1)
  then show "fl_app_id flow' = fl_app_id flow" "fwx_ct_get_appid ct' = fl_app_id flow AND 0xFFFF"
    "fwx_ct_test_bit FWX_CT_DROP_BIT ct' = fwx_ct_test_bit FWX_CT_DROP_BIT ct" "fl_l4_protocol flow' = fl_l4_protocol flow"
    using assms by (auto simp: gateway_mark_def Let_def split: if_splits option.splits)
qed

lemma reset_sent: "af_should_send_tcp_rst sys skb flow \<longleftrightarrow> g_tcp_rst sys \<and> fl_l4_protocol flow = IPPROTO_TCP \<and> skb_protocol skb = ETH_P_IP"
  by (auto simp: af_should_send_tcp_rst_def)

lemma gateway_verdict_policy:
  assumes "app_filter_inv (fx_app s)" and "mac_filter_inv (fx_mac s)" and "\<not> fwx_ct_test_bit FWX_CT_DROP_BIT ct"
  shows "\<exists>ct'. o_ct (gateway_verdict k mac w skb hit flow ct s) = Some ct' \<and>
    (o_verdict (gateway_verdict k mac w skb hit flow ct s) = NF_DROP \<longleftrightarrow>
      hit \<and> app_policy s (sint (fl_app_id flow)) mac \<or> mac_policy s mac) \<and>
    fwx_ct_get_appid ct' = (if hit then fl_app_id flow AND 0xFFFF else fwx_ct_get_appid ct) \<and>
    (fwx_ct_test_bit FWX_CT_DROP_BIT ct' \<longleftrightarrow> o_verdict (gateway_verdict k mac w skb hit flow ct s) = NF_DROP) \<and>
    (o_rst (gateway_verdict k mac w skb hit flow ct s) \<longleftrightarrow> o_verdict (gateway_verdict k mac w skb hit flow ct s) = NF_DROP \<and>
      g_tcp_rst (fx_sysctl s) \<and> fl_l4_protocol flow = IPPROTO_TCP \<and> skb_protocol skb = ETH_P_IP)"
proof -
  obtain flow' ct' where m: "(if hit then gateway_mark flow ct else (flow, ct)) = (flow', ct')" by (metis prod.collapse)
  have f: "fl_app_id flow' = fl_app_id flow" "fwx_ct_get_appid ct' = (if hit then fl_app_id flow AND 0xFFFF else fwx_ct_get_appid ct)"
    "\<not> fwx_ct_test_bit FWX_CT_DROP_BIT ct'" "fl_l4_protocol flow' = fl_l4_protocol flow"
    using m gateway_mark_fields [of flow ct flow' ct'] assms(3) by (auto split: if_splits)
  show ?thesis unfolding gateway_verdict_def m Let_def prod.case match_app_policy [OF assms(1)] match_mac_policy [OF assms(2)]
    using f by (cases "hit \<and> app_policy s (sint (fl_app_id flow)) mac \<or> mac_policy s mac")
      (simp_all add: reset_sent)
qed

text \<open>
  C2. A new connection gets what the policy says. When the automaton is up to date, a packet of
  a connection that is not marked, whose payload is inspected and classified without an overflow, is
  dropped exactly if the reference classification finds an application that the rules for
  applications forbid the client, or the MAC rules forbid the client; the mark then holds the
  application and the verdict. A TCP reset is sent exactly if the packet is dropped, the setting asks for resets, and
  it is TCP over IPv4.
\<close>

theorem gateway_first_verdict:
  assumes inv: "fwx_inv j s" and ac: "ac_fresh (fx_features s)" "\<not> ac_dirty (fs_ac (fx_features s))"
    and ct: "fwx_ct_get_appid ct = 0" "\<not> fwx_ct_test_bit FWX_CT_DROP_BIT ct"
      "ct_acct_packets ct = Some n" "n \<le> MAX_DPI_PKT_NUM"
    and payload: "linear_payload k pkt (flow\<lparr>fl_client_hello := fwx_ct_test_bit FWX_CT_CLIENT_HELLO_BIT ct\<rparr>) = Some inspected"
    and hello: "\<not> fl_client_hello flow"
    and match: "ref_match_feature (k_in4_pton k) (k_in6_pton k) (k_regex_junk k) (fs_features (fx_features s))
      (dpi_main inspected) = Inr (hit, matched)"
  shows "\<exists>out ct'. gateway_conn k pkt skb mac w flow ct s = Some (Inr out) \<and> o_ct out = Some ct' \<and>
    (o_verdict out = NF_DROP \<longleftrightarrow> hit \<and> app_policy s (sint (fl_app_id matched)) mac \<or> mac_policy s mac) \<and>
    fwx_ct_get_appid ct' = (if hit then fl_app_id matched AND 0xFFFF else 0) \<and>
    (fwx_ct_test_bit FWX_CT_DROP_BIT ct' \<longleftrightarrow> o_verdict out = NF_DROP) \<and>
    (o_rst out \<longleftrightarrow> o_verdict out = NF_DROP \<and> g_tcp_rst (fx_sysctl s) \<and> fl_l4_protocol matched = IPPROTO_TCP \<and>
      skb_protocol skb = ETH_P_IP)"
proof -
  define s1 where "s1 = (if \<not> w then fx_update_url k mac (dpi_main inspected) s else s)"
  define ct1 where "ct1 = fwx_ct_set_bit FWX_CT_CLIENT_HELLO_BIT (fl_client_hello (dpi_main inspected)) ct"
  have s1: "same_config s s1" by (simp add: s1_def)
  obtain root lab where "ac_ready (fs_ac (fx_features s))"
    "linked (fs_ac (fx_features s)) root lab (filter ac_eligible (fs_features (fx_features s)))"
    using ac by (auto simp: ac_fresh_def)
  then have m: "fx_match_feature k (dpi_main inspected) s1 = Some (Inr (hit, matched))"
    using s1 match by (simp add: fx_match_feature_def match_feature_linked same_config_def)
  have p: "linear_payload k pkt (if fwx_ct_test_bit FWX_CT_CLIENT_HELLO_BIT ct
      then flow\<lparr>fl_client_hello := True\<rparr> else flow) = Some inspected"
  proof -
    have "flow\<lparr>fl_client_hello := False\<rparr> = flow" using hello by simp
    then show ?thesis using payload by (cases "fwx_ct_test_bit FWX_CT_CLIENT_HELLO_BIT ct") simp_all
  qed
  have "gateway_known k mac w ct s = (None, ct, s)" using ct(1) by (simp add: gateway_known_def Let_def)
  then have out: "gateway_conn k pkt skb mac w flow ct s = Some (Inr (gateway_verdict k mac w skb hit matched ct1 s1))"
    using ct m p unfolding gateway_conn_def gateway_inspect_def by (simp add: s1_def ct1_def Let_def not_less)
  have "app_filter_inv (fx_app s1)" "mac_filter_inv (fx_mac s1)"
    using inv s1 by (simp_all add: fwx_inv_def same_config_def)
  from gateway_verdict_policy [OF this, of ct1 k mac w skb hit matched] show ?thesis
    unfolding out policy_same [OF s1] using ct(1,2) s1 by (auto simp: ct1_def same_config_def)
qed

section \<open>Bypass mode\<close>

definition fx_find_conn :: "jhash \<Rightarrow> conn_key \<Rightarrow> fwx \<Rightarrow> af_conn option" where
  "fx_find_conn jhash key s = af_conn_find jhash key (cs_table (fx_conns s))"

lemma find_conn_write:
  assumes "conn_inv j (cs_table (fx_conns s))" and "\<And>c. conn_key (f c) = conn_key c"
  shows "fx_find_conn j key (fx_conn_write j key f s) = map_option f (fx_find_conn j key s)"
  using assms by (simp add: fx_find_conn_def fx_conn_write_def af_conn_find_def conn_write_def bt_find_update)

lemma find_conn_ops [simp]:
  "fx_find_conn j key (fx_update_app_info k mac app_id drp c h v s) = fx_find_conn j key s"
  "fx_find_conn j key (fx_client_write mac f s) = fx_find_conn j key s"
  by (simp_all add: fx_find_conn_def fx_update_app_info_def fx_client_write_def)

lemma conns_ops [simp]:
  "fx_conns (fx_update_app_info k mac app_id drp c h v s) = fx_conns s"
  by (simp_all add: fx_update_app_info_def fx_client_write_def)

text \<open>A connection of a known application: what is decided, and what is remembered.\<close>

lemma bypass_known:
  fixes mac :: mac
  assumes inv: "fwx_inv (k_jhash k) s" and free: "\<not> fx_conn_locked s"
    and conn: "fx_find_conn (k_jhash k) (flow_key flow) s = Some conn" "conn_app_id conn \<noteq> 0"
    and flow: "\<not> fl_drop flow"
  defines "d \<equiv> (if conn_app_id conn > 1000 \<and> recent k s then app_policy s (sint (conn_app_id conn)) mac else conn_drop conn)"
  shows "\<exists>out conn'. bypass_conn k pkt skb mac w flow s = Some (Inr out) \<and>
    (o_verdict out = NF_DROP \<longleftrightarrow> d \<or> mac_policy s mac) \<and>
    fx_find_conn (k_jhash k) (flow_key flow) (o_state out) = Some conn' \<and>
    conn_app_id conn' = conn_app_id conn \<and>
    conn_drop conn' = (conn_drop conn \<or> \<not> d \<and> mac_policy s mac)"
proof -
  let ?j = "k_jhash k" and ?key = "flow_key flow"
  define seen where "seen = (\<lambda>c :: af_conn. c\<lparr>conn_last_jiffies := k_jiffies k, conn_total_pkts := conn_total_pkts c + 1\<rparr>)"
  define s1 where "s1 = fx_conn_write ?j ?key seen s"
  have cinv: "conn_inv ?j (cs_table (fx_conns s))" using inv by (simp add: fwx_inv_def)
  have "fwx_inv ?j s1" unfolding s1_def by (rule fwx_inv_conn_write [OF inv]) (simp add: seen_def)
  then have inv1: "app_filter_inv (fx_app s1)" "mac_filter_inv (fx_mac s1)" "conn_inv ?j (cs_table (fx_conns s1))"
    by (simp_all add: fwx_inv_def)
  have same: "same_config s s1" by (simp add: s1_def)
  then have rec: "recent k s1 = recent k s" by (simp add: recent_def same_config_def)
  have f1: "fx_find_conn ?j ?key s1 = Some (seen conn)"
    unfolding s1_def by (simp add: find_conn_write [OF cinv] seen_def conn(1))
  have add: "af_conn_find_and_add (k_ok_conn k) ?j (k_conn_junk k) (k_jiffies k) ?key (cs_table (fx_conns s)) =
      (Some conn, cs_table (fx_conns s))"
    using conn(1) by (simp add: af_conn_find_and_add_def fx_find_conn_def)
  have changed: "(conn_app_id (seen conn) > 1000 \<and>
      check_app_action_changed k (conn_drop (seen conn)) (conn_app_id (seen conn)) mac s1) \<longleftrightarrow> d \<noteq> conn_drop conn"
    unfolding action_changed [OF inv1(1)] rec policy_same [OF same] d_def by (auto simp: seen_def)
  define flow' where "flow' = flow\<lparr>fl_app_id := conn_app_id conn, fl_drop := d\<rparr>"
  have run: "bypass_conn k pkt skb mac w flow s =
      Some (Inr (bypass_finish k ?key skb mac w (conn_ignore conn \<noteq> 0) False flow' s1))"
  proof -
    have "(if d \<noteq> conn_drop conn then \<not> conn_drop conn else conn_drop conn) = d" by auto
    then have "flow\<lparr>fl_app_id := conn_app_id (seen conn), fl_drop := (if conn_app_id (seen conn) > 1000 \<and>
        check_app_action_changed k (conn_drop (seen conn)) (conn_app_id (seen conn)) mac s1
        then \<not> conn_drop (seen conn) else conn_drop (seen conn))\<rparr> = flow'"
      unfolding changed by (simp add: flow'_def seen_def)
    moreover have "s\<lparr>fx_conns := (fx_conns s)\<lparr>cs_table := cs_table (fx_conns s)\<rparr>\<rparr> = s" by simp
    ultimately show ?thesis
      unfolding bypass_conn_def Let_def add prod.case option.case seen_def [symmetric]
      using free conn(2) by (simp add: s1_def [symmetric]) (simp add: seen_def)
  qed
  define md where "md = (\<not> d \<and> mac_policy s mac)"
  have "\<not> fl_drop flow' \<and> match_mac_filter_rule mac s1 \<longleftrightarrow> md"
    unfolding match_mac_policy [OF inv1(2)] policy_same [OF same] by (simp add: flow'_def md_def)
  then have fin: "o_verdict (bypass_finish k ?key skb mac w (conn_ignore conn \<noteq> 0) False flow' s1) =
        (if d \<or> md then NF_DROP else NF_ACCEPT)"
      "fx_find_conn ?j ?key (o_state (bypass_finish k ?key skb mac w (conn_ignore conn \<noteq> 0) False flow' s1)) =
        fx_find_conn ?j ?key (if md then fx_conn_write ?j ?key (\<lambda>conn. conn\<lparr>conn_drop := True\<rparr>) s1 else s1)"
    by (auto simp: bypass_finish_def Let_def flow'_def)
  have fc: "fx_find_conn ?j ?key (if md then fx_conn_write ?j ?key (\<lambda>conn. conn\<lparr>conn_drop := True\<rparr>) s1 else s1) =
      Some (if md then seen conn\<lparr>conn_drop := True\<rparr> else seen conn)"
    using find_conn_write [OF inv1(3), of "\<lambda>conn. conn\<lparr>conn_drop := True\<rparr>" ?key] f1 by simp
  let ?out = "bypass_finish k ?key skb mac w (conn_ignore conn \<noteq> 0) False flow' s1"
  define conn1 where "conn1 = (if md then seen conn\<lparr>conn_drop := True\<rparr> else seen conn)"
  have c: "conn_app_id conn1 = conn_app_id conn" "conn_drop conn1 = (conn_drop conn \<or> \<not> d \<and> mac_policy s mac)"
    by (auto simp: conn1_def seen_def md_def)
  have "fx_find_conn ?j ?key (o_state ?out) = Some conn1" unfolding fin(2) fc conn1_def ..
  moreover have "o_verdict ?out = NF_DROP \<longleftrightarrow> d \<or> mac_policy s mac" unfolding fin(1) md_def by auto
  ultimately show ?thesis unfolding run using c by blast
qed

text \<open>
  Bypass mode forgets a change of rules. A packet of a connection of an application above 1000
  that was marked to be dropped is let through while the rules are recent and allow it, but the new
  decision is not stored: when the rules are no longer recent the next packet of the same
  connection is dropped again, although no rule forbids it.
\<close>

theorem bypass_change_forgotten:
  assumes "fwx_inv (k_jhash k) s" and "\<not> fx_conn_locked s" and "k_ok_conn k"
    and "fx_find_conn (k_jhash k) (flow_key flow) s = Some conn" and "conn_app_id conn > 1000" and "conn_drop conn"
    and "\<not> fl_drop flow" and "recent k s"
    and "\<not> app_policy s (sint (conn_app_id conn)) mac" and "\<not> mac_policy s mac"
    and "k_jhash k' = k_jhash k" and "\<not> recent k' s"
  shows "\<exists>out out'. bypass_conn k pkt skb mac w flow s = Some (Inr out) \<and> o_verdict out = NF_ACCEPT \<and>
    bypass_conn k' pkt' skb mac w flow (o_state out) = Some (Inr out') \<and> o_verdict out' = NF_DROP \<and>
    \<not> app_policy (o_state out) (sint (conn_app_id conn)) mac \<and> \<not> mac_policy (o_state out) mac"
proof -
  have app: "conn_app_id conn \<noteq> 0" using assms(5) by auto
  obtain out conn' where 1: "bypass_conn k pkt skb mac w flow s = Some (Inr out)" "\<not> o_verdict out = NF_DROP"
    "fx_find_conn (k_jhash k) (flow_key flow) (o_state out) = Some conn'" "conn_app_id conn' = conn_app_id conn"
    "conn_drop conn'"
    using bypass_known [OF assms(1,2,4) app assms(7), where mac = mac and pkt = pkt and skb = skb and w = w] assms(5,6,8-10) by auto
  have "bypass_fine k s (bypass_conn k pkt skb mac w flow s)" using bypass_conn_fine [OF assms(1,2)] assms(3) by blast
  then have st: "fwx_inv (k_jhash k') (o_state out)" "same_config s (o_state out)" "\<not> fx_conn_locked (o_state out)"
    using 1(1) assms(2,11) by simp_all
  then have "\<not> recent k' (o_state out)" using assms(12) by (simp add: recent_def same_config_def)
  moreover have "fx_find_conn (k_jhash k') (flow_key flow) (o_state out) = Some conn'" "conn_app_id conn' \<noteq> 0"
    using 1(3,4) assms(11) app by simp_all
  ultimately obtain out' where "bypass_conn k' pkt' skb mac w flow (o_state out) = Some (Inr out')" "o_verdict out' = NF_DROP"
    using bypass_known [OF st(1,3) _ _ assms(7), where conn = conn' and mac = mac and pkt = pkt' and skb = skb and w = w] 1(5) by auto
  moreover have "o_verdict out = NF_ACCEPT" using 1(2) not_drop by blast
  moreover have "\<not> app_policy (o_state out) (sint (conn_app_id conn)) mac" "\<not> mac_policy (o_state out) mac"
    using policy_same [OF st(2)] assms(9,10) by simp_all
  ultimately show ?thesis using 1(1) by blast
qed

text \<open>
  C35. Out of memory once, locked for ever. When a packet finds no connection and there is no
  memory for one, the packet is accepted, but the lock stays taken: after that neither a packet that
  gets as far as the connection table nor the timer returns, whatever memory there is.
\<close>

theorem bypass_lock_leaked:
  assumes "\<not> fx_conn_locked s" and "fx_find_conn (k_jhash k) (flow_key flow) s = None" and "\<not> k_ok_conn k"
  shows "\<exists>out. bypass_conn k pkt skb mac w flow s = Some (Inr out) \<and> o_verdict out = NF_ACCEPT \<and>
    (\<forall>k' pkt' skb' mac' w' flow'. bypass_conn k' pkt' skb' mac' w' flow' (o_state out) = None) \<and>
    (\<forall>k'. fwx_timer_func k' (o_state out) = None)"
  using assms
  by (auto simp: bypass_conn_def Let_def af_conn_find_and_add_def af_conn_add_def fx_find_conn_def accept_def
      fwx_timer_func_def)

section \<open>Concrete states\<close>

text \<open>A module in bypass mode with one rule that blocks every address; a kernel with memory.\<close>

definition demo_sysctl :: sysctl where
  "demo_sysctl = \<lparr>g_appfilter_enable = False, g_mac_filter_enable = True, g_record_enable = False,
     g_by_pass_accl = True, g_tcp_rst = True, g_work_mode = AF_MODE_BYPASS, g_lan_ifname = cstr ''br-lan'',
     fwx_lan_ip = 0x0101A8C0, fwx_lan_mask = 0x00FFFFFF\<rparr>"

definition demo_block :: mac_filter where
  "demo_block = snd (fwx_add_mac_filter_rule True 3 MAC_FILTER_MODE_ALL_USERS fwx_mac_filter_init)"

definition demo_state :: fwx where
  "demo_state = (fwx_init demo_sysctl)\<lparr>fx_mac := demo_block\<rparr>"

definition demo_kernel :: "u64 \<Rightarrow> kernel" where
  "demo_kernel jiffies = \<lparr>k_jiffies = jiffies, k_hz = 100, k_now = 0, k_in4_pton = (\<lambda>_. False),
     k_in6_pton = (\<lambda>_. False), k_regex_junk = (\<lambda>_. 0), k_heap = (\<lambda>_. 0), k_jhash = zero_hash,
     k_conn_junk = 0, k_ok_skb = True, k_ok_client = True, k_ok_conn = True, k_ok_visit = True,
     k_ok_app = True, k_ok_host = True\<rparr>"

definition demo_packet :: hook_packet where
  "demo_packet = \<lparr>hp_dev = Some (cstr ''br-lan''), hp_smac = [1, 2, 3, 4, 5, 6],
     hp_skb = Some \<lparr>skb_protocol = ETH_P_IP, skb_nh = (\<lambda>_. 0)\<rparr>, hp_nonlinear = False, hp_frags = [], hp_ct = None\<rparr>"

definition demo_ct :: "u32 \<Rightarrow> nf_conn" where
  "demo_ct mark = \<lparr>ct_mark = mark, ct_confirmed = True, ct_acct_packets = Some 1\<rparr>"

lemma demo_inv: "fwx_inv j demo_state"
proof -
  have "mac_filter_inv demo_block" by (simp add: demo_block_def mac_filter_inv_add mac_filter_inv_init)
  then show ?thesis using fwx_inv_init [of j demo_sysctl] by (simp add: fwx_inv_def demo_state_def)
qed

lemma demo_recent: "recent (demo_kernel 0) demo_state" "\<not> recent (demo_kernel 5000) demo_state"
  by (simp_all add: recent_def demo_kernel_def demo_state_def fwx_init_def fwx_app_filter_init_def)

lemma demo_policy: "\<not> app_policy demo_state app_id mac" "mac_policy demo_state mac"
proof -
  show "\<not> app_policy demo_state app_id mac"
    by (simp add: app_policy_def demo_state_def demo_sysctl_def fwx_init_def)
  have "fwx_find_mac_filter_rule 3 demo_block \<noteq> None" "mr_mode (the (fwx_find_mac_filter_rule 3 demo_block)) = MAC_FILTER_MODE_ALL_USERS"
    by code_simp+
  then obtain rule where "fwx_find_mac_filter_rule 3 demo_block = Some rule" "mr_mode rule = MAC_FILTER_MODE_ALL_USERS"
    by auto
  moreover have "mf_whitelist demo_block = fwx_mac_config_init" by code_simp
  then have "mac \<notin> mac_members (mf_whitelist demo_block)"
    by (simp add: mac_members_def fwx_find_mac_node_def fwx_mac_config_init_def bucket_simps)
  ultimately show "mac_policy demo_state mac"
    by (auto simp: mac_policy_def demo_state_def demo_sysctl_def fwx_init_def)
qed

text \<open>The mark of application 2000 with the drop bit.\<close>

lemma demo_mark:
  "fwx_ct_get_appid (demo_ct 0x800007D0) = 2000" "fwx_ct_test_bit FWX_CT_DROP_BIT (demo_ct 0x800007D0)"
  "fwx_ct_is_valid_appid 2000" "fwx_ct_get_appid (demo_ct 0) = 0" "\<not> fwx_ct_test_bit f (demo_ct 0)"
  by (simp_all add: demo_ct_def fwx_ct_get_appid_def fwx_ct_test_bit_def fwx_ct_mark_get_def fwx_ct_is_valid_appid_def
      FWX_CT_APPID_MASK_def FWX_CT_DROP_BIT_def)

theorem gateway_marked_verdict_witness:
  "\<exists>out. gateway_conn (demo_kernel 0) demo_packet \<lparr>skb_protocol = ETH_P_IP, skb_nh = (\<lambda>_. 0)\<rparr> [1, 2, 3, 4, 5, 6] False
      flow_zero (demo_ct 0x800007D0) demo_state = Some (Inr out) \<and> o_verdict out = NF_ACCEPT"
proof -
  have "fwx_ct_is_valid_appid (fwx_ct_get_appid (demo_ct 0x800007D0)) \<or>
      fwx_ct_get_appid (demo_ct 0x800007D0) = 0 \<and> fwx_ct_test_bit FWX_CT_DROP_BIT (demo_ct 0x800007D0)"
    unfolding demo_mark by (simp add: demo_mark)
  from gateway_marked_verdict [OF demo_inv this, where k = "demo_kernel 0" and pkt = demo_packet
      and skb = "\<lparr>skb_protocol = ETH_P_IP, skb_nh = (\<lambda>_. 0)\<rparr>" and mac = "[1, 2, 3, 4, 5, 6]" and w = False and flow = flow_zero]
  show ?thesis unfolding demo_mark(1) using demo_recent(1) demo_policy(1) not_drop by auto
qed

theorem gateway_drop_outlives_filters_witness:
  "\<exists>out. gateway_conn (demo_kernel 5000) demo_packet \<lparr>skb_protocol = ETH_P_IP, skb_nh = (\<lambda>_. 0)\<rparr> [1, 2, 3, 4, 5, 6] False
      flow_zero (demo_ct 0x800007D0)
      (fwx_init (demo_sysctl\<lparr>g_mac_filter_enable := False\<rparr>)) = Some (Inr out) \<and>
    o_verdict out = NF_DROP"
proof -
  let ?s = "fwx_init (demo_sysctl\<lparr>g_mac_filter_enable := False\<rparr>)"
  have "\<not> g_appfilter_enable (fx_sysctl ?s)" "\<not> g_mac_filter_enable (fx_sysctl ?s)" by (simp_all add: demo_sysctl_def fwx_init_def)
  moreover have "fwx_ct_get_appid (demo_ct 0x800007D0) = 0 \<or> fwx_ct_is_valid_appid (fwx_ct_get_appid (demo_ct 0x800007D0)) \<and>
      (fwx_ct_get_appid (demo_ct 0x800007D0) \<le> 1000 \<or> \<not> recent (demo_kernel 5000) ?s)"
    unfolding demo_mark using demo_recent(2) by (simp add: demo_mark recent_def demo_state_def fwx_init_def)
  ultimately show ?thesis
    using gateway_drop_outlives_filters [OF fwx_inv_init [of zero_hash] _ _ demo_mark(2), where k = "demo_kernel 5000"]
    by blast
qed

theorem gateway_mac_drop_released_witness:
  "\<exists>out. gateway_conn (demo_kernel 0) demo_packet \<lparr>skb_protocol = ETH_P_IP, skb_nh = (\<lambda>_. 0)\<rparr> [1, 2, 3, 4, 5, 6] False
      flow_zero (demo_ct 0x800007D0) demo_state = Some (Inr out) \<and> o_verdict out = NF_ACCEPT \<and>
    mac_policy (o_state out) [1, 2, 3, 4, 5, 6]"
proof -
  have "fwx_ct_is_valid_appid (fwx_ct_get_appid (demo_ct 0x800007D0))" "fwx_ct_get_appid (demo_ct 0x800007D0) > 1000"
    unfolding demo_mark by (simp_all add: demo_mark)
  from gateway_mac_drop_released [OF demo_inv this demo_mark(2) demo_recent(1) demo_policy, where pkt = demo_packet
      and skb = "\<lparr>skb_protocol = ETH_P_IP, skb_nh = (\<lambda>_. 0)\<rparr>" and w = False and flow = flow_zero and mac = "[1, 2, 3, 4, 5, 6]"]
  show ?thesis by blast
qed

theorem bypass_lock_leaked_witness:
  "\<exists>out. bypass_conn ((demo_kernel 0)\<lparr>k_ok_conn := False\<rparr>) demo_packet \<lparr>skb_protocol = ETH_P_IP, skb_nh = (\<lambda>_. 0)\<rparr>
      [1, 2, 3, 4, 5, 6] False flow_zero demo_state = Some (Inr out) \<and> fwx_timer_func (demo_kernel 0) (o_state out) = None"
proof -
  have "\<not> fx_conn_locked demo_state" "\<not> k_ok_conn ((demo_kernel 0)\<lparr>k_ok_conn := False\<rparr>)"
    "fx_find_conn (k_jhash ((demo_kernel 0)\<lparr>k_ok_conn := False\<rparr>)) (flow_key flow_zero) demo_state = None"
    by (simp_all add: demo_state_def fwx_init_def demo_kernel_def fx_find_conn_def af_conn_find_def af_conn_init_def bucket_simps)
  from bypass_lock_leaked [OF this(1,3,2), where pkt = demo_packet and skb = "\<lparr>skb_protocol = ETH_P_IP, skb_nh = (\<lambda>_. 0)\<rparr>"
      and mac = "[1, 2, 3, 4, 5, 6]" and w = False]
  show ?thesis by blast
qed

text \<open>A connection of application 2000 that bypass mode decided to drop; nothing forbids it now.\<close>

definition demo_conn_state :: fwx where
  "demo_conn_state = fx_conn_write zero_hash (7, 8, 9, 10, 6) (\<lambda>c. c\<lparr>conn_app_id := 2000, conn_drop := True\<rparr>)
     ((fwx_init (demo_sysctl\<lparr>g_mac_filter_enable := False\<rparr>))\<lparr>fx_conns := one_conn\<rparr>)"

definition demo_flow :: flow_info where
  "demo_flow = flow_zero\<lparr>fl_src := 7, fl_dst := 8, fl_sport := 9, fl_dport := 10, fl_l4_protocol := 6\<rparr>"

lemma demo_conn:
  "fwx_inv zero_hash demo_conn_state"
  "\<exists>conn. fx_find_conn zero_hash (flow_key demo_flow) demo_conn_state = Some conn \<and> conn_app_id conn = 2000 \<and> conn_drop conn"
proof -
  let ?s = "(fwx_init (demo_sysctl\<lparr>g_mac_filter_enable := False\<rparr>))\<lparr>fx_conns := one_conn\<rparr>"
  have c: "conn_inv zero_hash (cs_table one_conn)" "bt_unique conn_key (cs_table one_conn)" "\<exists>k<51. cs_last_bucket one_conn = 5 * k"
    using conn_reach_inv [OF one_conn_reach] by blast+
  then have "fwx_inv zero_hash ?s"
    using fwx_inv_init [of zero_hash "demo_sysctl\<lparr>g_mac_filter_enable := False\<rparr>"] by (simp add: fwx_inv_def)
  then show "fwx_inv zero_hash demo_conn_state" unfolding demo_conn_state_def by (rule fwx_inv_conn_write) simp
  have "af_conn_find zero_hash (7, 8, 9, 10, 6) (cs_table one_conn) \<noteq> None" by code_simp
  moreover have "flow_key demo_flow = (7, 8, 9, 10, 6)" by (simp add: flow_key_def demo_flow_def)
  ultimately show "\<exists>conn. fx_find_conn zero_hash (flow_key demo_flow) demo_conn_state = Some conn \<and>
      conn_app_id conn = 2000 \<and> conn_drop conn"
    using find_conn_write [of zero_hash ?s "\<lambda>c. c\<lparr>conn_app_id := 2000, conn_drop := True\<rparr>" "(7, 8, 9, 10, 6)"] c(1)
    by (auto simp: demo_conn_state_def fx_find_conn_def)
qed

theorem bypass_change_forgotten_witness:
  "\<exists>out out'. bypass_conn (demo_kernel 0) demo_packet \<lparr>skb_protocol = ETH_P_IP, skb_nh = (\<lambda>_. 0)\<rparr> [1, 2, 3, 4, 5, 6]
      False demo_flow demo_conn_state = Some (Inr out) \<and> o_verdict out = NF_ACCEPT \<and>
    bypass_conn (demo_kernel 5000) demo_packet \<lparr>skb_protocol = ETH_P_IP, skb_nh = (\<lambda>_. 0)\<rparr> [1, 2, 3, 4, 5, 6]
      False demo_flow (o_state out) = Some (Inr out') \<and> o_verdict out' = NF_DROP"
proof -
  have j: "k_jhash (demo_kernel t) = zero_hash" "k_ok_conn (demo_kernel t)" for t by (simp_all add: demo_kernel_def)
  have cfg: "fx_sysctl demo_conn_state = demo_sysctl\<lparr>g_mac_filter_enable := False\<rparr>" "fx_app demo_conn_state = fwx_app_filter_init"
    "\<not> fx_conn_locked demo_conn_state"
    by (simp_all add: demo_conn_state_def fx_conn_write_def fwx_init_def)
  then have "\<not> app_policy demo_conn_state i mac" "\<not> mac_policy demo_conn_state mac" for i mac
    by (simp_all add: app_policy_def mac_policy_def demo_sysctl_def)
  moreover have "recent (demo_kernel 0) demo_conn_state" "\<not> recent (demo_kernel 5000) demo_conn_state"
    using cfg(2) by (simp_all add: recent_def demo_kernel_def fwx_app_filter_init_def)
  moreover obtain conn where "fx_find_conn zero_hash (flow_key demo_flow) demo_conn_state = Some conn"
    "conn_app_id conn > 1000" "conn_drop conn" using demo_conn(2) by auto
  moreover have "\<not> fl_drop demo_flow" by (simp add: demo_flow_def flow_zero_def)
  ultimately show ?thesis
    using bypass_change_forgotten [of "demo_kernel 0" demo_conn_state demo_flow conn "[1, 2, 3, 4, 5, 6]" "demo_kernel 5000"
      demo_packet "\<lparr>skb_protocol = ETH_P_IP, skb_nh = (\<lambda>_. 0)\<rparr>" False demo_packet] cfg(3) j demo_conn(1)
    by (simp, blast)
qed

text \<open>A loaded, empty feature list; every address is blocked.\<close>

lemma dpi_main_empty: "fl_l4_len flow = 0 \<Longrightarrow> dpi_main flow = flow"
  by (simp add: dpi_main_def dpi_http_proto_def dpi_https_proto_def dpi_dns_proto_def DNS_HEADER_LEN_def
      MIN_HTTP_DATA_LEN_def Let_def)

lemma ref_match_empty:
  "ref_match_feature in4_pton in6_pton junk [] flow_zero = Inr (False, flow_zero)"
  by (simp add: ref_match_feature_def is_quic_flow_def ref_by_host_def af_get_flow_host_def match_rest_def
      af_match_dns_regex_feature_def flow_zero_def http_zero_def https_zero_def dns_zero_def Let_def)

theorem gateway_first_verdict_witness:
  "\<exists>s out. gateway_conn (demo_kernel 0) demo_packet \<lparr>skb_protocol = ETH_P_IP, skb_nh = (\<lambda>_. 0)\<rparr> [1, 2, 3, 4, 5, 6] False
      flow_zero (demo_ct 0) s = Some (Inr out) \<and> fx_mac s = demo_block \<and> o_verdict out = NF_DROP"
proof -
  have init: "ac_fresh feature_init" "fs_features feature_init = []" by (simp_all add: feature_init_def ac_fresh_def)
  obtain fs where f: "fs_features fs = fs_features feature_init" "\<not> ac_dirty (fs_ac fs)"
    "ac_fresh feature_init \<longrightarrow> ac_fresh fs" using load_done_fresh [of feature_init] by blast
  have fs: "fs_features fs = []" "\<not> ac_dirty (fs_ac fs)" "ac_fresh fs" using f init by simp_all
  let ?s = "demo_state\<lparr>fx_features := fs\<rparr>"
  have "ac_safe (fs_ac fs)" using fs(2,3) by (auto simp: ac_safe_def ac_fresh_def)
  then have "fwx_inv zero_hash ?s" using demo_inv [of zero_hash] fs(1) by (simp add: fwx_inv_def)
  moreover have "mac_policy ?s mac" for mac using demo_policy(2) [of mac] by (simp add: mac_policy_def)
  moreover have "flow_zero\<lparr>fl_client_hello := False\<rparr> = flow_zero" by (simp add: flow_zero_def)
  ultimately have "\<exists>out. gateway_conn (demo_kernel 0) demo_packet \<lparr>skb_protocol = ETH_P_IP, skb_nh = (\<lambda>_. 0)\<rparr> [1, 2, 3, 4, 5, 6] False
      flow_zero (demo_ct 0) ?s = Some (Inr out) \<and> o_verdict out = NF_DROP"
    using gateway_first_verdict [where j = zero_hash and s = ?s and ct = "demo_ct 0" and n = 1 and k = "demo_kernel 0"
        and pkt = demo_packet and flow = flow_zero and inspected = flow_zero and hit = False and matched = flow_zero
        and skb = "\<lparr>skb_protocol = ETH_P_IP, skb_nh = (\<lambda>_. 0)\<rparr>" and mac = "[1, 2, 3, 4, 5, 6]" and w = False]
      fs dpi_main_empty [of flow_zero] ref_match_empty demo_mark
    by (simp add: demo_ct_def MAX_DPI_PKT_NUM_def linear_payload_def demo_packet_def flow_zero_def, blast)
  then show ?thesis by (intro exI [of _ ?s]) (auto simp: demo_state_def)
qed

end
