(* ===== verification/Fwx_System.thy ===== *)
theory Fwx_System
  imports Fwx_Config Fwx_Policy
begin

text \<open>
  The module as one state machine: packets through its four hooks, its timers, the messages of the
  loader, requests, the sysctls and the clearing of the lists, in any order. Every state that they
  lead to keeps the invariants of all components.
\<close>

section \<open>The steps\<close>

text \<open>\<^verbatim>\<open>jhash\<close> is the same function all the time; everything else that the kernel answers may differ.\<close>

inductive fwx_step :: "jhash \<Rightarrow> fwx \<Rightarrow> fwx \<Rightarrow> bool" for j where
  pre_hook: "k_jhash k = j \<Longrightarrow> fwx_pre_hook k pkt s = Some (Inr out) \<Longrightarrow> fwx_step j s (o_state out)"
| by_pass_hook: "k_jhash k = j \<Longrightarrow> fwx_by_pass_hook k pkt s = Some (Inr out) \<Longrightarrow> fwx_step j s (o_state out)"
| client_hook: "fwx_step j s (s\<lparr>fx_clients := af_client_hook ok jiffies (g_work_mode (fx_sysctl s))
    (g_lan_ifname (fx_sysctl s)) p (fx_clients s)\<rparr>)"
| client_hook2: "fwx_step j s
    (s\<lparr>fx_clients := af_client_hook2 jiffies (g_lan_ifname (fx_sysctl s)) p (fx_clients s)\<rparr>)"
| timer: "fwx_timer_func k s = Some s' \<Longrightarrow> fwx_step j s s'"
| client_timer: "find_af_client mac (fx_clients s) = Some node \<Longrightarrow>
    client_timer_handler sort_by fmt_ip g_min g_max ok_root ok_out now
      (g_mac_filter_enable (fx_sysctl s)) (fx_mac s) node = Inr (node', report) \<Longrightarrow>
    fwx_step j s (s\<lparr>fx_clients := client_write mac (\<lambda>_. node') (fx_clients s)\<rparr>)"
| message: "fwx_netlink_msg_rcv kz len umsg s = Some (Inr s') \<Longrightarrow> fwx_step j s s'"
| request: "fwx_cdev_release sc hex q cf s = Some (Inr (ret, s')) \<Longrightarrow> fwx_step j s s'"
| sysctl: "fwx_step j s (s\<lparr>fx_sysctl := sys\<rparr>)"
| whitelist: "fwx_proc_record_whitelist_handler kzm write str s = Inr s' \<Longrightarrow> fwx_step j s s'"
| clear_apps: "fwx_step j s (s\<lparr>fx_apps := af_clear_active_app_list (fx_apps s)\<rparr>)"
| clear_hosts: "fwx_step j s (s\<lparr>fx_hosts := af_clear_active_host_list (fx_hosts s)\<rparr>)"

inductive fwx_reach :: "jhash \<Rightarrow> fwx \<Rightarrow> bool" for j where
  init: "fwx_reach j (fwx_init sys)"
| step: "fwx_reach j s \<Longrightarrow> fwx_step j s s' \<Longrightarrow> fwx_reach j s'"

section \<open>Requests keep the invariant\<close>

lemma with_members_Inr: "with_members data_obj r = Inr x \<Longrightarrow> r = Inr x"
  by (simp add: with_members_def ub_bind_Inr)

lemma fwx_inv_parts:
  "fwx_inv j s \<Longrightarrow> mac_filter_inv mf \<Longrightarrow> fwx_inv j (s\<lparr>fx_mac := mf\<rparr>)"
  "fwx_inv j s \<Longrightarrow> app_filter_inv af \<Longrightarrow> fwx_inv j (s\<lparr>fx_app := af\<rparr>)"
  "fwx_inv j s \<Longrightarrow> clients_inv cs \<Longrightarrow> fwx_inv j (s\<lparr>fx_clients := cs\<rparr>)"
  "fwx_inv j s \<Longrightarrow> fwx_inv j (s\<lparr>fx_sysctl := sys\<rparr>)"
  by (simp_all add: fwx_inv_def)

lemma fwx_inv_D:
  "fwx_inv j s \<Longrightarrow> mac_filter_inv (fx_mac s)" "fwx_inv j s \<Longrightarrow> app_filter_inv (fx_app s)"
  "fwx_inv j s \<Longrightarrow> clients_inv (fx_clients s)"
  by (simp_all add: fwx_inv_def)

lemma on_mac_inv:
  assumes "on_mac f q data_obj s = Inr s'" and "fwx_inv j s"
    and "\<And>mf. mac_filter_inv mf \<Longrightarrow> mac_filter_inv (snd (f q data_obj mf))"
  shows "fwx_inv j s'"
  using assms fwx_inv_D(1) [OF assms(2)] unfolding on_mac_def
  by (auto dest!: with_members_Inr intro: fwx_inv_parts)

lemma on_clients_inv:
  assumes "on_clients f q data_obj s = Inr s'" and "fwx_inv j s"
    and "\<And>cs. clients_inv cs \<Longrightarrow> clients_inv (snd (f q data_obj cs))"
  shows "fwx_inv j s'"
  using assms fwx_inv_D(3) [OF assms(2)] unfolding on_clients_def
  by (auto dest!: with_members_Inr intro: fwx_inv_parts)

lemma on_app_inv:
  assumes "on_app f q data_obj s = Inr s'" and "fwx_inv j s"
    and "\<And>af ret af'. app_filter_inv af \<Longrightarrow> f q data_obj af = Inr (ret, af') \<Longrightarrow> app_filter_inv af'"
  shows "fwx_inv j s'"
proof -
  obtain ret af' where "f q data_obj (fx_app s) = Inr (ret, af')" "s' = s\<lparr>fx_app := af'\<rparr>"
    using assms(1) by (auto simp: on_app_def ub_bind_Inr dest!: with_members_Inr)
  then show ?thesis
    using assms(2,3) fwx_inv_D(2) [OF assms(2)] fwx_inv_parts(2) by blast
qed

lemma app_add_inv:
  "fwx_api_add_app_filter_rule ok jiffies data_obj af = (ret, af') \<Longrightarrow> app_filter_inv af \<Longrightarrow> app_filter_inv af'"
  "fwx_api_add_app_filter_whitelist kzm jiffies data_obj af = (ret, af') \<Longrightarrow> app_filter_inv af \<Longrightarrow> app_filter_inv af'"
  using app_filter_inv_api(1) [of af ok jiffies data_obj] app_filter_inv_api(4) [of af kzm jiffies data_obj] by auto

lemma api_inv:
  assumes "fwx_inv j s"
  shows "list_all (\<lambda>item. \<forall>s'. snd item q data_obj s = Inr s' \<longrightarrow> fwx_inv j s') k_request_api_list"
  using assms
  by (auto simp: k_request_api_list_def dump_handler_def app_filter_inv_api clients_inv_api mac_filter_inv_api
      dest!: with_members_Inr elim!: on_mac_inv on_app_inv on_clients_inv
      dest: app_add_inv app_filter_inv_mod app_filter_inv_api(2) fwx_inv_D intro!: fwx_inv_parts)

lemma handle_request_inv:
  assumes "handle_request q config_obj s = Inr (ret, s')" and "fwx_inv j s"
  shows "fwx_inv j s'"
proof -
  have "fwx_inv j s''" if run: "run_request q api data_obj s = Inr s''" for api data_obj s''
  proof (cases "find (\<lambda>item. fst item = api) k_request_api_list")
    case None
    then show ?thesis using run assms(2) by (simp add: run_request_def)
  next
    case (Some item)
    then have "item \<in> set k_request_api_list" by (auto simp: find_Some_iff)
    then show ?thesis using run api_inv [OF assms(2)] by (auto simp: run_request_def Some list_all_iff)
  qed
  moreover obtain api_obj data_obj where "get_object_item config_obj (cstr ''api'') = Inr api_obj"
      "get_object_item config_obj (cstr ''data'') = Inr data_obj"
    using assms(1) unfolding handle_request_def ub_bind_Inr by blast
  ultimately show ?thesis
    using assms by (cases api_obj; cases "valuestring (the api_obj)")
      (auto simp: handle_request_def ub_bind_Inr Let_def simp del: cstr_simps)
qed

lemma release_inv:
  "fwx_cdev_release sc hex q cf s = Some (Inr (ret, s')) \<Longrightarrow> fwx_inv j s \<Longrightarrow> fwx_inv j s'"
  by (auto simp: fwx_cdev_release_def fwx_config_handle_def dest: handle_request_inv
      split: if_splits presult.splits)

section \<open>Messages, timers and hooks keep the invariant\<close>

lemma ac_safe_dirty [simp]: "ac_safe (ac\<lparr>ac_dirty := d\<rparr>) = ac_safe ac"
  using linked_cong [of "ac\<lparr>ac_dirty := d\<rparr>" ac] by (simp add: ac_safe_def)

lemma ac_safe_loads:
  assumes "loads st st'" and "ac_safe (fs_ac st)"
  shows "ac_safe (fs_ac st')"
proof -
  have "ac_safe (fs_ac (fold link_feature ns st))" for ns
    using assms(2) by (induction ns arbitrary: st) (simp_all add: link_feature_def)
  then show ?thesis using assms(1) by (auto simp: loads_def)
qed

lemma message_inv:
  assumes "fwx_netlink_msg_rcv kz len umsg s = Some (Inr s')" and "fwx_inv j s"
  shows "fwx_inv j s'"
proof -
  have features: "fwx_inv j (s\<lparr>fx_features := fs\<rparr>)"
    if "ac_safe (fs_ac fs)" "\<forall>n\<in>set (fs_features fs). feature_fits n" for fs
    using assms(2) that by (simp add: fwx_inv_def)
  have safe: "ac_safe (fs_ac (fx_features s))" "\<forall>n\<in>set (fs_features (fx_features s)). feature_fits n"
    using assms(2) by (simp_all add: fwx_inv_def)
  have "fwx_inv j s''" if "fwx_user_msg_handle kz data n s = Some (Inr s'')" for data n s''
  proof -
    have "fwx_inv j (s\<lparr>fx_features := fs\<rparr>)" if "af_add_feature_msg_handle kz d m (fx_features s) = Inr fs" for d m fs
      using features ac_safe_loads [OF add_msg_loads [OF that] safe(1)] feature_fits_loads [OF add_msg_loads [OF that] safe(2)]
      by blast
    moreover have "fwx_inv j (s\<lparr>fx_features := fs\<rparr>)"
      if "af_feature_load_done_msg_handle kz (fx_features s) = Some fs" for fs
    proof -
      obtain ok ac' where "af_rebuild_url_ac_locked kz (fs_features (fx_features s)) (fs_ac (fx_features s)) = Some (ok, ac')"
        and "if ok then \<exists>root lab ins. linked ac' root lab ins else \<not> ac_ready ac'"
        using rebuild_linked [of kz "fs_features (fx_features s)" "fs_ac (fx_features s)"] by (metis (full_types))
      moreover from this have "ac_safe ac'" by (auto simp: ac_safe_def split: if_splits)
      ultimately have "ac_safe (fs_ac fs) \<and> fs_features fs = fs_features (fx_features s)"
        using that safe(1) by (auto simp: af_feature_load_done_msg_handle_def split: if_splits)
      then show ?thesis using features safe(2) by simp
    qed
    moreover have "fwx_inv j (s\<lparr>fx_features := af_clean_feature_list (fx_features s)\<rparr>)"
      by (rule features) (simp_all add: af_clean_feature_list_def af_ac_reset_locked_def ac_safe_def)
    moreover have "fwx_inv j (s\<lparr>fx_clients := af_client_list_reset_report_num (fx_clients s)\<rparr>)"
      using assms(2) by (intro fwx_inv_parts) (simp_all add: clients_inv_reset fwx_inv_D)
    ultimately show ?thesis
      using that assms(2) by (auto simp: fwx_user_msg_handle_def ub_bind_Inr split: if_splits nl_action.splits)
  qed
  then show ?thesis
    using assms by (auto simp: fwx_netlink_msg_rcv_def Let_def split: if_splits)
qed

lemma timer_inv:
  assumes "fwx_timer_func k s = Some s'" and "fwx_inv j s"
  shows "fwx_inv j s'"
proof -
  obtain n where n: "n < 51" "cs_last_bucket (fx_conns s) = 5 * n"
    and c: "conn_inv j (cs_table (fx_conns s))" "bt_unique conn_key (cs_table (fx_conns s))"
    using assms(2) by (auto simp: fwx_inv_def)
  have "length (cs_table (fx_conns s)) = AF_CONN_HASH_SIZE"
    using c(1) bt_inv_length by (auto simp: conn_inv_def)
  from clean_timeout_once [OF this n(2,1)]
  have "conn_inv j (cs_table (af_conn_clean_timeout hz t (fx_conns s))) \<and>
      bt_unique conn_key (cs_table (af_conn_clean_timeout hz t (fx_conns s))) \<and>
      (\<exists>n<51. cs_last_bucket (af_conn_clean_timeout hz t (fx_conns s)) = 5 * n)" for hz t
    using conn_inv_filter [OF c] by (auto intro: exI [of _ "Suc n mod 51"])
  then show ?thesis
    using assms clients_inv_expire
    by (auto simp: fwx_timer_func_def Let_def fwx_inv_def split: if_splits)
qed

lemma bypass_locked:
  assumes "fwx_by_pass_hook k pkt s = Some (Inr out)" and "fwx_inv (k_jhash k) s" and "fx_conn_locked s"
  shows "fwx_inv (k_jhash k) (o_state out)"
proof -
  have no_conn: "bypass_conn k pkt skb mac w flow t = None" if "fx_conn_locked t" for skb mac w flow t
    using that by (simp add: bypass_conn_def)
  have "clients_inv cs" if "find_and_add_af_client ok t mac (fx_clients s) = (r, cs)" for ok t mac r cs
    using clients_inv_find_add [of "fx_clients s" ok t mac] assms(2) that by (simp add: fwx_inv_def)
  then show ?thesis
    using assms no_conn
    by (auto simp: fwx_by_pass_hook_def fwx_hook_bypass_handle_def Let_def fwx_inv_parts
        split: if_splits option.splits prod.splits)
qed

lemma hook_inv:
  assumes "fwx_inv (k_jhash k) s"
  shows "fwx_pre_hook k pkt s = Some (Inr out) \<Longrightarrow> fwx_inv (k_jhash k) (o_state out)"
    and "fwx_by_pass_hook k pkt s = Some (Inr out) \<Longrightarrow> fwx_inv (k_jhash k) (o_state out)"
proof -
  show "fwx_inv (k_jhash k) (o_state out)" if "fwx_pre_hook k pkt s = Some (Inr out)"
    using that gateway_fine [OF assms, of k pkt] assms by (auto simp: fwx_pre_hook_def split: if_splits)
  show "fwx_inv (k_jhash k) (o_state out)" if "fwx_by_pass_hook k pkt s = Some (Inr out)"
  proof (cases "fx_conn_locked s")
    case True
    show ?thesis by (rule bypass_locked [OF that assms True])
  next
    case False
    then show ?thesis
      using that bypass_fine_all(1) [OF assms False, of pkt] assms
      by (auto simp: fwx_by_pass_hook_def split: if_splits)
  qed
qed

lemma client_timer_inv:
  assumes "fwx_inv j s" and "find_af_client mac (fx_clients s) = Some node"
    and "client_timer_handler sort_by fmt_ip g_min g_max ok_root ok_out now en mf node = Inr (node', report)"
  shows "fwx_inv j (s\<lparr>fx_clients := client_write mac (\<lambda>_. node') (fx_clients s)\<rparr>)"
  using clients_inv_timer [OF fwx_inv_D(3) [OF assms(1)] assms(2,3)] assms(1) by (rule fwx_inv_parts(3) [rotated])

lemma fwx_step_inv:
  assumes "fwx_step j s s'" and "fwx_inv j s"
  shows "fwx_inv j s'"
  using assms
proof (cases rule: fwx_step.cases)
  case (whitelist kzm wr str)
  then show ?thesis
    using assms(2) fwx_inv_D(3) [OF assms(2)]
    by (auto simp: fwx_proc_record_whitelist_handler_def ub_bind_Inr clients_inv_set fwx_inv_parts split: if_splits)
next
  case (clear_apps)
  then show ?thesis using assms(2) by (simp add: fwx_inv_def active_inv_def af_clear_active_app_list_def)
next
  case (clear_hosts)
  then show ?thesis using assms(2) by (simp add: fwx_inv_def active_inv_def af_clear_active_host_list_def)
qed (use assms(2) fwx_inv_D(3) [OF assms(2)] in
    \<open>auto simp: hook_inv timer_inv message_inv release_inv client_timer_inv fwx_inv_parts clients_inv_hooks\<close>)

lemma fwx_reach_inv: "fwx_reach j s \<Longrightarrow> fwx_inv j s"
  by (induction rule: fwx_reach.induct) (auto simp: fwx_inv_init fwx_step_inv)

section \<open>What holds in every state\<close>

text \<open>
  C3. The tables are in order in every state that the module can reach, whatever packets, timers,
  messages, requests and sysctls do in whatever order, and whichever allocations fail: each address has one
  client and the lookup finds it, each five-tuple has one connection and the sweep's cursor is
  one that covers the table, the rule lists keep their counters and bounds, an automaton that is marked
  ready is linked, every feature fits its arrays, and the active lists have ten entries at most.
\<close>

theorem fwx_reach_in_order: "fwx_reach j s \<Longrightarrow> fwx_inv j s"
  by (rule fwx_reach_inv)

text \<open>
  C4. Every packet gets a verdict, or overflows the compiler of regular expressions. In every reachable state in which the lock of the
  connection table is free, in every mode and whichever allocations fail, neither hook waits for ever. When both patterns of every
  loaded feature fit the compiler's buffers, both hooks return a verdict and a state that keeps the invariant of
  every component and has the same rules, features and settings. A hook that ends in an overflow has met a pattern that does not fit.
\<close>

theorem hooks_return:
  assumes "fwx_reach (k_jhash k) s" and "\<not> fx_conn_locked s" and "r = fwx_pre_hook k pkt s \<or> r = fwx_by_pass_hook k pkt s"
  shows "(\<exists>out. r = Some (Inr out) \<and> fwx_inv (k_jhash k) (o_state out) \<and> same_config s (o_state out)) \<or>
    (\<exists>e. r = Some (Inl e)) \<and> \<not> patterns_fit k s"
proof -
  have "fine (k_jhash k) s r"
    using fwx_reach_inv [OF assms(1)] assms(2,3) gateway_fine bypass_fine_all(1)
    by (auto simp: fwx_pre_hook_def fwx_by_pass_hook_def)
  moreover have "r \<noteq> Some (Inl e)" if "patterns_fit k s" for e
  proof -
    have "fwx_pre_hook k pkt s \<noteq> Some (Inl e)" "fwx_by_pass_hook k pkt s \<noteq> Some (Inl e)"
      using gateway_fits [OF that, of pkt e] bypass_fits [OF that, of pkt e]
      by (simp_all add: fwx_pre_hook_def fwx_by_pass_hook_def)
    then show ?thesis using assms(3) by auto
  qed
  ultimately show ?thesis unfolding fine_def by (metis sum.exhaust)
qed

section \<open>Witnesses\<close>

theorem fwx_reach_in_order_witness:
  "fwx_inv zero_hash ((fwx_init demo_sysctl)\<lparr>fx_sysctl := demo_sysctl\<lparr>g_tcp_rst := True\<rparr>\<rparr>)"
  by (rule fwx_reach_in_order) (rule fwx_reach.step [OF fwx_reach.init fwx_step.sysctl])

text \<open>A segment from 192.168.1.2 to port 443 of 8.8.8.8, which the handler of bypass mode admits and inspects.\<close>

definition demo_segment :: hook_packet where
  "demo_segment = demo_packet\<lparr>hp_skb := Some \<lparr>skb_protocol = ETH_P_IP, skb_nh = (\<lambda>i.
     if 0 \<le> i \<and> i < 48 then [0x45, 0, 0, 48, 0, 0, 0, 0, 64, 6, 0, 0, 192, 168, 1, 2, 8, 8, 8, 8,
       0xC0, 0, 1, 0xBB, 0, 0, 0, 0, 0, 0, 0, 0, 0x50, 0x10, 0, 0, 0, 0, 0, 0, 0x47, 0x45, 0x54, 0x20, 0x2F, 0, 0, 0] ! nat i else 0)\<rparr>\<rparr>"

theorem hooks_return_witness:
  "\<exists>out. fwx_by_pass_hook (demo_kernel 0) demo_segment (fwx_init demo_sysctl) = Some (Inr out) \<and>
    fwx_inv zero_hash (o_state out) \<and> same_config (fwx_init demo_sysctl) (o_state out) \<and>
    map_option (fl_dport \<circ> snd) (bypass_admit demo_segment demo_sysctl) = Some 443"
proof -
  have k: "k_jhash (demo_kernel 0) = zero_hash" "\<not> fx_conn_locked (fwx_init demo_sysctl)"
    "patterns_fit (demo_kernel 0) (fwx_init demo_sysctl)"
    by (simp_all add: demo_kernel_def fwx_init_def patterns_fit_def feature_init_def)
  have "map_option (fl_dport \<circ> snd) (bypass_admit demo_segment demo_sysctl) = Some 443" by code_simp
  moreover have "fwx_reach (k_jhash (demo_kernel 0)) (fwx_init demo_sysctl)" by (rule fwx_reach.init)
  ultimately show ?thesis
    using hooks_return [of "demo_kernel 0" "fwx_init demo_sysctl" "fwx_by_pass_hook (demo_kernel 0) demo_segment (fwx_init demo_sysctl)"
      demo_segment] k by auto
qed

end
