(* ===== verification/Fwxd_System.thy ===== *)
theory Fwxd_System
  imports Fwxd_Load_Correct Fwxd_Feature_Correct Fwx_System
begin

text \<open>
  The composition of daemon and kernel module: a load of all features as messages that the kernel
  receives, and the requests for custom features with the file between them.
\<close>

section \<open>Messages on their way\<close>

text \<open>A message in the kernel's memory; what follows it is not initialised.\<close>

definition packet :: "mem \<Rightarrow> bytes \<Rightarrow> mem" where
  "packet junk msg = (\<lambda>i. if 0 \<le> i \<and> i < int (length msg) then msg ! nat i else junk i)"

text \<open>\<^verbatim>\<open>NLMSG_SPACE(1024)\<close> is the length of every message.\<close>

fun kernel_gets :: "mem \<Rightarrow> (nat \<Rightarrow> bool) \<Rightarrow> bytes list \<Rightarrow> fwx \<Rightarrow> fwx ub_result option" where
  "kernel_gets junk kz [] s = Some (Inr s)"
| "kernel_gets junk kz (msg # msgs) s = (case fwx_netlink_msg_rcv kz 1040 (packet junk msg) s of
     Some (Inr s') \<Rightarrow> kernel_gets junk kz msgs s' | r \<Rightarrow> r)"

lemma load_packet:
  assumes "k + 4 \<le> length msg"
  shows "load_le32 (packet junk msg) (int k) = get_le32 (drop k msg)"
proof -
  have i: "packet junk msg (int k + j) = drop k msg ! nat j" if "0 \<le> j" "j < 4" for j
    using that assms by (auto simp: packet_def nat_add_distrib)
  show ?thesis using i [of 0] i [of 1] i [of 2] i [of 3]
    by (simp add: load_le32_def get_le32_def or.assoc)
qed

lemma slice_packet:
  assumes "k + n \<le> length msg" and that: "k = a + b"
  shows "slice (\<lambda>i. packet junk msg (int b + i)) (int a) (int n) = take n (drop (a + b) msg)"
proof (rule nth_equalityI)
  show "length (slice (\<lambda>i. packet junk msg (int b + i)) (int a) (int n)) = length (take n (drop (a + b) msg))"
    using assms that by simp
next
  fix i assume "i < length (slice (\<lambda>i. packet junk msg (int b + i)) (int a) (int n))"
  then show "slice (\<lambda>i. packet junk msg (int b + i)) (int a) (int n) ! i = take n (drop (a + b) msg) ! i"
    using assms that by (simp add: packet_def nat_add_distrib ac_simps)
qed

lemma sint_small: "n < 2 ^ 31 \<Longrightarrow> sint (of_nat n :: u32) = int n"
  by (simp add: signed_of_nat signed_take_bit_int_eq_self)

definition nl_message :: "u32 \<Rightarrow> bytes \<Rightarrow> bytes" where
  "nl_message action data = put_le32 0xa0b0c0d0 @ put_le32 (of_nat (4 + length data)) @ put_le32 action @ data"

lemma message_received:
  assumes "length data < 1000"
  shows "fwx_netlink_msg_rcv kz 1040 (packet junk (nl_message action data)) s =
    (case nl_action_of action of
        FWX_NL_MSG_INIT \<Rightarrow> Some (Inr (s\<lparr>fx_clients := af_client_list_reset_report_num (fx_clients s)\<rparr>))
      | FWX_NL_MSG_ADD_FEATURE \<Rightarrow> Some (ub_bind
          (af_add_feature_msg_handle kz data (int (length data)) (fx_features s)) (\<lambda>fs. Inr (s\<lparr>fx_features := fs\<rparr>)))
      | FWX_NL_MSG_CLEAN_FEATURE \<Rightarrow> Some (Inr (s\<lparr>fx_features := af_clean_feature_list (fx_features s)\<rparr>))
      | FWX_NL_MSG_FEATURE_LOAD_DONE \<Rightarrow>
          map_option (\<lambda>fs. Inr (s\<lparr>fx_features := fs\<rparr>)) (af_feature_load_done_msg_handle kz (fx_features s))
      | FWX_NL_MSG_OTHER \<Rightarrow> Some (Inr s))"
proof -
  let ?msg = "nl_message action data" and ?n = "4 + length data"
  have len: "length ?msg = 8 + ?n" by (simp add: nl_message_def)
  have magic: "load_le32 (packet junk ?msg) 0 = 0xa0b0c0d0"
    using load_packet [of 0 ?msg] len get_put_le32 by (simp add: nl_message_def)
  have l: "load_le32 (packet junk ?msg) 4 = of_nat ?n"
    using load_packet [of 4 ?msg] len get_put_le32 by (simp add: nl_message_def)
  have small: "sint (of_nat ?n :: u32) = int ?n" using sint_small [of ?n] assms by simp
  have act: "load_le32 (\<lambda>i. packet junk ?msg (8 + i)) 0 = action"
  proof -
    have "load_le32 (\<lambda>i. packet junk ?msg (8 + i)) 0 = load_le32 (packet junk ?msg) 8" by (simp add: load_le32_def)
    then show ?thesis using load_packet [of 8 ?msg] len get_put_le32 by (simp add: nl_message_def)
  qed
  have sl: "slice (\<lambda>i. packet junk ?msg (8 + i)) 4 (int ?n - 4) = data"
  proof -
    have "12 + length data \<le> length ?msg" "(12 :: nat) = 4 + 8" "int ?n - 4 = int (length data)" using len by simp_all
    from slice_packet [OF this(1,2)] this(3) have "slice (\<lambda>i. packet junk ?msg (8 + i)) 4 (int ?n - 4) = take (length data) (drop 12 ?msg)"
      by (simp only:) simp
    moreover have "drop 12 ?msg = data" by (simp add: nl_message_def put_le32_def)
    ultimately show ?thesis by simp
  qed
  have four: "\<not> word_of_int (int ?n) < (4 :: u32)"
    using assms by (simp add: word_less_nat_alt unat_of_nat flip: of_nat_add)
  have rcv: "fwx_netlink_msg_rcv kz 1040 (packet junk ?msg) s =
      fwx_user_msg_handle kz (\<lambda>i. packet junk ?msg (8 + i)) (int ?n) s"
  proof -
    have guards: "(16 :: nat) \<le> 1040" "\<not> int ?n \<le> 0" "\<not> int ?n \<ge> 1024"
      using assms by simp_all
    show ?thesis
      by (simp only: fwx_netlink_msg_rcv_def Let_def magic l small MAX_FWX_NETLINK_MSG_LEN_def guards if_False if_True simp_thms)
  qed
  have n: "int ?n - 4 = int (length data)" by simp
  show ?thesis
    by (simp only: rcv fwx_user_msg_handle_def act sl [unfolded n] four n if_False Let_def)
qed

text \<open>What a message with a line does.\<close>

lemma line_received:
  assumes "no_nul line" and "length line \<le> 799" and "line \<noteq> []"
  shows "fwx_netlink_msg_rcv kz 1040 (packet junk (nl_message 1 (line @ [0]))) s =
    Some (if length line = 799 then Inr s
      else ub_bind (af_init_feature kz line (fx_features s)) (\<lambda>fs. Inr (s\<lparr>fx_features := fs\<rparr>)))"
proof -
  have c: "c_string (line @ [0]) = line"
    unfolding c_string_def by (subst takeWhile_append2) (use assms(1) in \<open>auto simp: no_nul_def\<close>)
  have "nl_action_of 1 = FWX_NL_MSG_ADD_FEATURE" by (simp add: nl_action_of_def)
  then show ?thesis
    using message_received [of "line @ [0]" kz junk 1 s] assms(2) c
    by (auto simp: af_add_feature_msg_handle_def MAX_FEATURE_LINE_LEN_def)
qed

text \<open>
  C12. From the daemon to the kernel. What the message with the line of an accepted application does in
  the kernel, in every case: a line of 799 bytes, the longest that the daemon accepts, is dropped; a line
  with a sharp sign is ignored; a last feature of 127 bytes is written past its array; every
  other line adds exactly the features of the application, with their ports, domain, path and positions.
\<close>

theorem custom_line_in_kernel:
  assumes "app_ok classes app" and "app_to_line app len = Some line" and "af_trim_space (ca_name app) \<noteq> []"
  shows "fwx_netlink_msg_rcv (\<lambda>_. True) 1040 (packet junk (nl_message 1 (line @ [0]))) s =
    Some (if length line = 799 then Inr s
      else if 0x23 \<in> set line then Inr (s\<lparr>fx_features := (fx_features s)\<lparr>fs_allocs := fs_allocs (fx_features s) + 1\<rparr>\<rparr>)
      else if length (feature_text (last (ca_features app))) = 127 then Inl (BufferOverflow ''feature'')
      else Inr (s\<lparr>fx_features := (fold link_feature (map (kernel_node app) (ca_features app)) (fx_features s))
         \<lparr>fs_allocs := fs_allocs (fx_features s) + 1 + length (ca_features app),
          fs_count := fs_count (fx_features s) + 1\<rparr>\<rparr>))"
proof -
  have line: "line = app_text app" "length line \<le> 799" using app_to_line_Some [OF assms(2)] by (simp_all add: custom_limits)
  have "no_nul line" unfolding line(1) no_nul_def using app_text_char [OF assms(1)] by blast
  moreover have "line \<noteq> []" by (simp add: line(1) app_text_def)
  ultimately show ?thesis
    using line_received [OF _ line(2)] af_init_feature_custom [OF assms] by (simp add: custom_limits)
qed

section \<open>A load\<close>

definition line_message :: "bytes \<Rightarrow> bytes" where
  "line_message line = nl_message 1 (line @ [0])"

text \<open>All messages of a load, in their order.\<close>

definition load_messages :: "bytes \<Rightarrow> custom_app list \<Rightarrow> bytes list" where
  "load_messages data apps =
     nl_message 2 [] # map line_message (feature_lines data 0 @ map app_text apps) @ [nl_message 3 []]"

text \<open>The messages that get through, counted from the number \<open>n\<close> on.\<close>

definition got_through :: "(nat \<Rightarrow> int) \<Rightarrow> nat \<Rightarrow> bytes list \<Rightarrow> bytes list" where
  "got_through sendto n msgs = map snd (filter (\<lambda>(i, _). sendto i > 0) (enumerate n msgs))"

lemma got_through_simps [simp]:
  "got_through sendto n [] = []"
  "got_through sendto n (m # ms) = (if sendto n > 0 then [m] else []) @ got_through sendto (Suc n) ms"
  by (simp_all add: got_through_def)

lemma got_through_append:
  "got_through sendto n (a @ b) = got_through sendto n a @ got_through sendto (n + length a) b"
  by (simp add: got_through_def enumerate_append_eq)

lemma got_through_all: "\<forall>n. sendto n > 0 \<Longrightarrow> got_through sendto n msgs = msgs"
  by (induction msgs arbitrary: n) simp_all

lemma got_through_none: "\<forall>n. sendto n < 0 \<Longrightarrow> got_through sendto n msgs = []"
  by (induction msgs arbitrary: n) (simp_all add: not_less less_imp_le)

lemma send_msg:
  "sendto (nl_tried link) \<noteq> 0 \<Longrightarrow> fwx_nl_send_msg_to_kernel sendto (put_le32 a @ data) link =
     (0, link\<lparr>nl_tried := nl_tried link + 1, nl_sent := nl_sent link @ got_through sendto (nl_tried link) [nl_message a data]\<rparr>)"
  by (simp add: fwx_nl_send_msg_to_kernel_def nl_message_def Let_def put_le32_def)

lemma link_upd [simp]: "link\<lparr>nl_tried := nl_tried link + 0, nl_sent := nl_sent link @ []\<rparr> = link"
  by simp

lemma send_lines_all:
  assumes "\<forall>n. sendto n \<noteq> 0" and "nl_open link"
  shows "send_lines sendto lines link = (True, link\<lparr>nl_tried := nl_tried link + length lines,
    nl_sent := nl_sent link @ got_through sendto (nl_tried link) (map line_message lines)\<rparr>)"
  using assms(2)
  by (induction lines arbitrary: link)
    (simp_all add: fwx_nl_add_feature_def send_msg assms(1) line_message_def)

lemma send_custom_all:
  assumes "\<forall>n. sendto n \<noteq> 0" and "nl_open link" and "\<forall>app\<in>set apps. app_to_line app (CUSTOM_MAX_APP_LINE + 2) \<noteq> None"
  shows "fwx_custom_feature_send_to_kernel sendto apps link = (True, link\<lparr>nl_tried := nl_tried link + length apps,
    nl_sent := nl_sent link @ got_through sendto (nl_tried link) (map line_message (map app_text apps))\<rparr>)"
  using assms(2,3)
proof (induction apps arbitrary: link)
  case (Cons app apps)
  obtain line where line: "app_to_line app (CUSTOM_MAX_APP_LINE + 2) = Some line" using Cons.prems(2) by auto
  then show ?case
    using Cons app_to_line_Some(1) [OF line] by (simp add: fwx_nl_add_feature_def send_msg assms(1) line_message_def)
qed simp

lemma load_sends:
  assumes "fd_feature_data d = Some data" and "data \<noteq> []" and "nl_open (fd_link d)"
    and "config_ok classes base (fd_custom d)" and "\<forall>n. sendto n \<noteq> 0"
  shows "\<exists>d'. fwx_load_feature_to_kernel sendto d = (0, d') \<and> nl_sent (fd_link d') = nl_sent (fd_link d) @
    got_through sendto (nl_tried (fd_link d)) (load_messages data (cc_apps (fd_custom d)))"
proof -
  have apps: "\<forall>app\<in>set (cc_apps (fd_custom d)). app_to_line app (CUSTOM_MAX_APP_LINE + 2) \<noteq> None"
    using assms(4) by (auto simp: config_ok_def)
  have empty: "fwx_nl_send_msg_to_kernel sendto (put_le32 a) link =
     (0, link\<lparr>nl_tried := nl_tried link + 1, nl_sent := nl_sent link @ got_through sendto (nl_tried link) [nl_message a []]\<rparr>)"
    for a link using send_msg [of sendto link a "[]"] assms(5) by simp
  show ?thesis
    using assms(1-3,5) apps
    by (simp add: fwx_load_feature_to_kernel_def Let_def fwx_nl_clean_feature_def fwx_nl_feature_load_done_def
        empty send_lines_all send_custom_all load_messages_def got_through_append del: got_through_simps(2))
      (simp add: got_through_append ac_simps)
qed

text \<open>
  A message that is lost is not noticed. As long as no \<^verbatim>\<open>sendto\<close> returns 0, the load reports success, and
  what has been sent afterwards are the messages of the load in their order less those whose
  \<^verbatim>\<open>sendto\<close> failed, which may be all of them.
\<close>

theorem load_loses_messages:
  assumes "fd_feature_data d = Some data" and "data \<noteq> []" and "nl_open (fd_link d)"
    and "config_ok classes base (fd_custom d)" and "\<forall>n. sendto n \<noteq> 0"
  shows "\<exists>d'. fwx_load_feature_to_kernel sendto d = (0, d') \<and> nl_sent (fd_link d') = nl_sent (fd_link d) @
    got_through sendto (nl_tried (fd_link d)) (load_messages data (cc_apps (fd_custom d)))"
  by (rule load_sends [OF assms])

text \<open>What the kernel makes of the lines of the feature text, one after another.\<close>

fun init_lines :: "bytes list \<Rightarrow> feature_state \<Rightarrow> feature_state ub_result" where
  "init_lines [] st = Inr st"
| "init_lines (line # lines) st = ub_bind (af_init_feature (\<lambda>_. True) line st) (init_lines lines)"

lemma kernel_gets_append:
  "kernel_gets junk kz (a @ b) s = (case kernel_gets junk kz a s of Some (Inr s') \<Rightarrow> kernel_gets junk kz b s' | r \<Rightarrow> r)"
  by (induction a arbitrary: s) (auto split: option.splits sum.splits)

lemma feature_lines_ok: "line \<in> set (feature_lines data offset) \<Longrightarrow> no_nul line \<and> length line < 799 \<and> line \<noteq> []"
proof (induction "length data - offset" arbitrary: offset rule: less_induct)
  case less
  obtain ret offset' l where r: "fwx_feature_next_line data offset FWXD_MAX_FEATURE_LINE_LEN = (ret, offset', l)"
    by (cases "fwx_feature_next_line data offset FWXD_MAX_FEATURE_LINE_LEN")
  let ?line = "trim_space (c_string l)"
  have inside: "\<not> offset \<ge> length data" using less.prems by (auto simp: feature_lines.simps [of data offset])
  then have lines: "feature_lines data offset = (if ret < 0 then feature_lines data offset'
     else if ret = 0 then [] else if length ?line < 8 \<or> 0x23 \<in> set ?line \<or> length ?line \<ge> 799
     then feature_lines data offset' else ?line # feature_lines data offset')"
    by (subst feature_lines.simps) (simp add: r Let_def, simp add: FWXD_MAX_FEATURE_LINE_LEN_def)
  have "length data - offset' < length data - offset" if "ret \<noteq> 0"
    using r that inside by (auto simp: fwx_feature_next_line_def Let_def split: if_splits)
  then have IH: "line \<in> set (feature_lines data offset') \<Longrightarrow> ret \<noteq> 0 \<Longrightarrow> ?case" using less.hyps by blast
  have "no_nul ?line"
    using set_trim_space [of "c_string l"] c_string_no_nul [of l] by (auto simp: no_nul_def)
  then have "line = ?line \<Longrightarrow> length ?line \<ge> 8 \<Longrightarrow> length ?line < 799 \<Longrightarrow> ?case" by auto
  then show ?case using IH less.prems unfolding lines by (auto simp only: not_less not_le list.set split: if_splits)
qed

lemma base_lines_received:
  assumes "\<forall>line\<in>set lines. no_nul line \<and> length line < 799 \<and> line \<noteq> []"
    and "init_lines lines (fx_features s) = Inr st"
  shows "kernel_gets junk (\<lambda>_. True) (map line_message lines) s = Some (Inr (s\<lparr>fx_features := st\<rparr>))"
  using assms
  by (induction lines arbitrary: s) (auto simp: line_received line_message_def ub_bind_Inr)

text \<open>An application whose line the kernel takes in full.\<close>

definition deliverable :: "custom_app \<Rightarrow> bool" where
  "deliverable app \<longleftrightarrow> af_trim_space (ca_name app) \<noteq> [] \<and> length (app_text app) < 799 \<and>
     0x23 \<notin> set (app_text app) \<and> length (feature_text (last (ca_features app))) < 127"

definition kernel_nodes :: "custom_app list \<Rightarrow> feature_node list" where
  "kernel_nodes apps = concat (map (\<lambda>app. map (kernel_node app) (ca_features app)) apps)"

lemma fs_features_fold: "fs_features (fold link_feature ns st) = rev ns @ fs_features st"
  by (induction ns arbitrary: st) (simp_all add: link_feature_def)

lemma custom_received:
  assumes "\<forall>app\<in>set apps. app_ok classes app \<and> app_to_line app (CUSTOM_MAX_APP_LINE + 2) \<noteq> None \<and> deliverable app"
  shows "\<exists>st. kernel_gets junk (\<lambda>_. True) (map line_message (map app_text apps)) s = Some (Inr (s\<lparr>fx_features := st\<rparr>)) \<and>
    fs_features st = rev (kernel_nodes apps) @ fs_features (fx_features s)"
  using assms
proof (induction apps arbitrary: s)
  case (Cons app apps)
  obtain line where line: "app_to_line app (CUSTOM_MAX_APP_LINE + 2) = Some line" using Cons.prems by auto
  have app: "app_ok classes app" "deliverable app" using Cons.prems by auto
  have l: "line = app_text app" using app_to_line_Some(1) [OF line] .
  have "no_nul line" unfolding l no_nul_def using app_text_char [OF app(1)] by blast
  moreover have "line \<noteq> []" by (simp add: l app_text_def)
  moreover have "length line < 799" "0x23 \<notin> set line" "af_trim_space (ca_name app) \<noteq> []"
    "length (feature_text (last (ca_features app))) \<noteq> 127"
    using app(2) l by (auto simp: deliverable_def)
  moreover note af_init_feature_custom [OF app(1) line this(3), of "fx_features s"]
  ultimately obtain st where step: "fwx_netlink_msg_rcv (\<lambda>_. True) 1040 (packet junk (line_message line)) s =
      Some (Inr (s\<lparr>fx_features := st\<rparr>))"
    and st: "fs_features st = rev (map (kernel_node app) (ca_features app)) @ fs_features (fx_features s)"
    by (simp add: line_message_def line_received custom_limits fs_features_fold)
  obtain st' where "kernel_gets junk (\<lambda>_. True) (map line_message (map app_text apps)) (s\<lparr>fx_features := st\<rparr>) =
      Some (Inr (s\<lparr>fx_features := st'\<rparr>))" "fs_features st' = rev (kernel_nodes apps) @ fs_features st"
    using Cons.IH [of "s\<lparr>fx_features := st\<rparr>"] Cons.prems by auto
  then show ?case using step st by (intro exI [of _ st']) (simp add: l kernel_nodes_def)
next
  case Nil
  show ?case by (rule exI [of _ "fx_features s"]) (simp add: kernel_nodes_def)
qed

text \<open>
  C11. After a load the kernel has the features of the text and of the custom applications. When every
  message gets through and each application can be delivered, the kernel's list consists of
  the features that the text gives on an empty list and, in front of them, those of the
  applications; its automaton is up to date, and nothing else of the module has changed.
\<close>

theorem load_in_kernel:
  assumes "fd_feature_data d = Some data" and "data \<noteq> []" and "nl_open (fd_link d)"
    and "config_ok classes base (fd_custom d)" and "\<forall>n. sendto n > 0"
    and "\<forall>app\<in>set (cc_apps (fd_custom d)). deliverable app"
    and "init_lines (feature_lines data 0) (af_clean_feature_list (fx_features s)) = Inr st"
  shows "\<exists>d' msgs st'. fwx_load_feature_to_kernel sendto d = (0, d') \<and> nl_sent (fd_link d') = nl_sent (fd_link d) @ msgs \<and>
    kernel_gets junk (\<lambda>_. True) msgs s = Some (Inr (s\<lparr>fx_features := st'\<rparr>)) \<and>
    fs_features st' = rev (kernel_nodes (cc_apps (fd_custom d))) @ fs_features st \<and> \<not> ac_dirty (fs_ac st')"
proof -
  let ?apps = "cc_apps (fd_custom d)" and ?msgs = "load_messages data (cc_apps (fd_custom d))"
  have nz: "\<forall>n. sendto n \<noteq> 0" using assms(5) by (metis less_irrefl)
  obtain d' where d': "fwx_load_feature_to_kernel sendto d = (0, d')" "nl_sent (fd_link d') = nl_sent (fd_link d) @ ?msgs"
    using load_sends [OF assms(1-4) nz] by (auto simp: got_through_all [OF assms(5)])
  have clean: "fwx_netlink_msg_rcv (\<lambda>_. True) 1040 (packet junk (nl_message 2 [])) s =
      Some (Inr (s\<lparr>fx_features := af_clean_feature_list (fx_features s)\<rparr>))"
    by (subst message_received) (simp_all add: nl_action_of_def)
  have base: "kernel_gets junk (\<lambda>_. True) (map line_message (feature_lines data 0))
      (s\<lparr>fx_features := af_clean_feature_list (fx_features s)\<rparr>) = Some (Inr (s\<lparr>fx_features := st\<rparr>))"
    by (subst base_lines_received [where st = st]) (use feature_lines_ok assms(7) in auto)
  obtain st1 where custom: "kernel_gets junk (\<lambda>_. True) (map line_message (map app_text ?apps)) (s\<lparr>fx_features := st\<rparr>) =
      Some (Inr (s\<lparr>fx_features := st1\<rparr>))" "fs_features st1 = rev (kernel_nodes ?apps) @ fs_features st"
    using custom_received [of ?apps classes junk "s\<lparr>fx_features := st\<rparr>"] assms(4,6) by (auto simp: config_ok_def)
  obtain st' where fin: "af_feature_load_done_msg_handle (\<lambda>_. True) st1 = Some st'" "fs_features st' = fs_features st1"
    "\<not> ac_dirty (fs_ac st')" using load_done_fresh [of st1] by blast
  have "fwx_netlink_msg_rcv (\<lambda>_. True) 1040 (packet junk (nl_message 3 [])) (s\<lparr>fx_features := st1\<rparr>) =
      Some (Inr (s\<lparr>fx_features := st'\<rparr>))"
    by (subst message_received) (simp_all add: nl_action_of_def fin)
  then have "kernel_gets junk (\<lambda>_. True) ?msgs s = Some (Inr (s\<lparr>fx_features := st'\<rparr>))"
    using clean base custom(1) by (simp add: load_messages_def kernel_gets_append)
  then show ?thesis using d' fin custom(2) by (intro exI [of _ d'] exI [of _ ?msgs] exI [of _ st']) simp
qed

section \<open>Requests and the file\<close>

lemma success_not_error: "fwx_gen_api_response_data API_CODE_SUCCESS o1 \<noteq> error_response e saved"
  by (simp add: fwx_gen_api_response_data_def error_response_def API_CODE_SUCCESS_def API_CODE_ERROR_def del: cstr_simps)

text \<open>A reload reads the file and nothing else for the custom features.\<close>

lemma add_app_names_only: "\<exists>r names. fwx_custom_feature_add_app_names d = (r, d\<lparr>fd_app_names := names\<rparr>)"
proof (cases "fd_base_count d + length (cc_apps (fd_custom d)) > MAX_SUPPORT_APP_NUM")
  case True
  then show ?thesis
    by (intro exI [of _ "-1"] exI [of _ "fd_app_names d"]) (simp add: fwx_custom_feature_add_app_names_def)
qed (auto simp: fwx_custom_feature_add_app_names_def split: prod.splits)

lemma load_tables_custom:
  assumes "load_tables env d = (ret, d')" and "\<not> ret < 0"
  shows "fd_file d' = fd_file d \<and> fd_classes d' = fd_classes (init_app_class_name_table (init_app_name_table d)) \<and>
    config_read_file (ev_realloc env) (fd_classes d') (fd_base_count d') (fd_file d) config_free = Inr (fd_custom d')"
proof -
  have keeps: "fd_file (init_app_class_name_table (init_app_name_table d)) = fd_file d"
    by (auto simp: init_app_class_name_table_def init_app_name_table_def Let_def split: option.splits prod.splits)
  have load: "fd_file (snd (fwx_load_feature_to_kernel st x)) = fd_file x \<and>
      fd_classes (snd (fwx_load_feature_to_kernel st x)) = fd_classes x \<and>
      fd_base_count (snd (fwx_load_feature_to_kernel st x)) = fd_base_count x \<and>
      fd_custom (snd (fwx_load_feature_to_kernel st x)) = fd_custom x" for st x
    by (simp add: fwx_load_feature_to_kernel_def Let_def split: option.splits prod.splits)
  let ?d = "init_app_class_name_table (init_app_name_table d)"
  obtain loaded where loaded: "config_read_file (ev_realloc env) (fd_classes ?d) (fd_base_count ?d) (fd_file d) config_free = Inr loaded"
    using assms keeps by (auto simp: load_tables_def fwx_custom_feature_reload_def split: sum.splits)
  let ?e = "?d\<lparr>fd_custom := loaded\<rparr>"
  have reload: "fwx_custom_feature_reload (ev_realloc env) ?d = (0, ?e)"
    using loaded keeps by (simp add: fwx_custom_feature_reload_def)
  obtain r1 names where names: "fwx_custom_feature_add_app_names ?e = (r1, ?e\<lparr>fd_app_names := names\<rparr>)"
    using add_app_names_only [of ?e] by blast
  have "d' = snd (fwx_load_feature_to_kernel (ev_sendto env) (?e\<lparr>fd_app_names := names\<rparr>))"
    using assms reload names by (auto simp: load_tables_def split: prod.splits if_splits)
  then show ?thesis using load [of "ev_sendto env" "?e\<lparr>fd_app_names := names\<rparr>"] loaded keeps by simp
qed

lemma load_tables_no_file:
  assumes "\<And>classes base. \<exists>e. config_read_file (ev_realloc env) classes base (fd_file d) config_free = Inl e"
  shows "fst (load_tables env d) = -1 \<and> fd_link (snd (load_tables env d)) = fd_link d"
proof -
  let ?d = "init_app_class_name_table (init_app_name_table d)"
  have keeps: "fd_file ?d = fd_file d" "fd_link ?d = fd_link d"
    by (auto simp: init_app_class_name_table_def init_app_name_table_def Let_def split: option.splits prod.splits)
  obtain e where "config_read_file (ev_realloc env) (fd_classes ?d) (fd_base_count ?d) (fd_file ?d) config_free = Inl e"
    using assms keeps(1) by auto
  then show ?thesis using keeps by (simp add: load_tables_def fwx_custom_feature_reload_def)
qed

lemma reload_no_file:
  assumes "\<And>classes base. \<exists>e. config_read_file (ev_realloc env) classes base (fd_file d) config_free = Inl e"
  shows "fst (reload_feature env d) = -1 \<and> fd_link (snd (reload_feature env d)) = fd_link d"
  unfolding reload_feature_def Let_def
  using load_tables_no_file [of env "d\<lparr>fd_files := y, fd_feature_data := x\<rparr>" for x y]
    load_tables_no_file [of env "d\<lparr>fd_feature_data := x\<rparr>" for x] assms
  by (auto split: option.splits prod.splits)

lemma reload_custom:
  assumes "reload_feature env d = (ret, d')" and "\<not> ret < 0"
  shows "fd_file d' = fd_file d \<and>
    config_read_file (ev_realloc env) (fd_classes d') (fd_base_count d') (fd_file d) config_free = Inr (fd_custom d')"
  using assms unfolding reload_feature_def Let_def
  by (auto split: option.splits prod.splits if_splits dest!: load_tables_custom)

text \<open>
  C13. What was set is what is read. When setting the custom features succeeds, no name has a line feed
  and the reload has found the same classes and as many applications in the feature file as before,
  the daemon has taken over the applications of the request, and a request to get them
  answers the same.
\<close>

theorem set_then_get:
  assumes "config_from_json (ev_realloc env) jc (fd_classes d) (fd_base_count d) req_obj = Inr submitted"
    and "ev_realloc env = (\<lambda>_. True)" and "\<forall>app\<in>set (cc_apps submitted). 0x0A \<notin> set (ca_name app)"
    and "fwx_api_set_custom_feature env jc req_obj d = (fwx_gen_api_response_data API_CODE_SUCCESS answer, d')"
    and "fd_classes d' = fd_classes d" and "fd_base_count d' = fd_base_count d"
  shows "cc_apps (fd_custom d') = cc_apps submitted \<and>
    fwx_api_get_custom_feature env d' = fwx_gen_api_response_data API_CODE_SUCCESS answer"
proof -
  have ok: "config_ok (fd_classes d) (fd_base_count d) submitted" by (rule accepted_config_ok [OF assms(1)])
  obtain file_out ret where w: "config_write_file (ev_save env) submitted (fd_file d) = (Inr (), file_out)"
    and r: "reload_feature env (d\<lparr>fd_file := file_out\<rparr>) = (ret, d')" "\<not> ret < 0"
    and answer: "fwx_gen_api_response_data API_CODE_SUCCESS answer =
      fwx_gen_api_response_data API_CODE_SUCCESS (Some (config_to_data (ev_icon env) submitted))"
    using assms(1,4) success_not_error
    by (auto simp: fwx_api_set_custom_feature_def Let_def split: sum.splits prod.splits if_splits) metis+
  have read_back: "config_read_file (\<lambda>_. True) (fd_classes d) (fd_base_count d) file_out config_free = Inr (fd_custom d')"
    "fd_file d' = file_out"
    using reload_custom [OF r] assms(2,5,6) by simp_all
  moreover have apps: "cc_apps (fd_custom d') = cc_apps submitted"
    using saved_config_read_back [OF ok w assms(3)] read_back(1) by simp
  moreover have "config_to_data (ev_icon env) (fd_custom d') = config_to_data (ev_icon env) submitted"
    by (simp add: config_to_data_def apps)
  ultimately show ?thesis using answer assms(2,5,6) by (simp add: fwx_api_get_custom_feature_def)
qed

text \<open>
  C14. A line feed in a name locks the daemon. The checks of a request allow it inside a name. When such a
  request is saved, the answer is that the reload failed, and from then on no reload
  succeeds or sends anything to the kernel, whatever the feature file is and also after a restart,
  until the file is removed.
\<close>

theorem newline_locks_daemon:
  assumes "config_from_json (ev_realloc env) jc (fd_classes d) (fd_base_count d) req_obj = Inr submitted"
    and "\<exists>app\<in>set (cc_apps submitted). 0x0A \<in> set (ca_name app)"
    and "config_write_file (ev_save env) submitted (fd_file d) = (Inr (), file_out)" and "fd_file later = file_out"
  shows "fst (fwx_api_set_custom_feature env jc req_obj d) =
      error_response (cstr ''custom feature file was saved but reload failed'') True \<and>
    fst (reload_feature env' later) = -1 \<and> fd_link (snd (reload_feature env' later)) = fd_link later"
proof -
  have ok: "config_ok (fd_classes d) (fd_base_count d) submitted" by (rule accepted_config_ok [OF assms(1)])
  have bad: "\<exists>e. config_read_file ra classes base file_out config_free = Inl e" for ra classes base
    by (rule newline_unreadable [OF ok assms(3,2)])
  have "fst (reload_feature env (d\<lparr>fd_file := file_out\<rparr>)) = -1" using reload_no_file bad by simp
  moreover have "fst (reload_feature env' later) = -1 \<and> fd_link (snd (reload_feature env' later)) = fd_link later"
    by (rule reload_no_file) (use bad assms(4) in simp)
  ultimately show ?thesis
    using assms(1,3) by (auto simp: fwx_api_set_custom_feature_def split: prod.splits)
qed

section \<open>Witnesses\<close>

definition demo_text :: bytes where
  "demo_text = cstr ''8001~ab:[tcp;;;a.b;;]'' @ [0x0A]"

definition demo_files :: feature_files where
  "demo_files = \<lparr>ff_bin = Some (feature_file 0 demo_text), ff_backup = None, ff_candidate = None\<rparr>"

definition demo_daemon :: "feature_files \<Rightarrow> fwxd" where
  "demo_daemon files = \<lparr>fd_feature_data = Some demo_text, fd_classes = replicate 16 [], fd_cur_class_num = 0,
     fd_app_names = [(8001, cstr ''ab'')], fd_base_count = 1, fd_custom = demo_config (cstr ''demo''), fd_file = NoFile,
     fd_files = files, fd_link = \<lparr>nl_open = True, nl_sent = [], nl_tried = 0\<rparr>\<rparr>"

definition demo_env :: fwxd_env where
  "demo_env = \<lparr>ev_realloc = (\<lambda>_. True), ev_decrypt = (\<lambda>_. (True, True)), ev_restore = demo_copy,
     ev_sendto = (\<lambda>_. 1), ev_save = demo_io, ev_icon = (\<lambda>_. False)\<rparr>"

lemma demo_daemon_simps:
  "fd_feature_data (demo_daemon files) = Some demo_text" "demo_text \<noteq> []" "nl_open (fd_link (demo_daemon files))"
  "nl_sent (fd_link (demo_daemon files)) = []" "config_ok (replicate 16 []) 1 (fd_custom (demo_daemon files))"
  "cc_apps (fd_custom (demo_daemon files)) = [demo_app (cstr ''demo'')]"
  "fd_classes (demo_daemon files) = replicate 16 []" "fd_base_count (demo_daemon files) = 1"
  using demo_ok by (simp_all add: demo_daemon_def demo_text_def demo_config_def)

lemma demo_deliverable: "deliverable (demo_app (cstr ''demo''))"
  by code_simp

lemma demo_lines: "feature_lines demo_text 0 = [cstr ''8001~ab:[tcp;;;a.b;;]'']"
  by code_simp

lemma demo_line: "app_to_line (demo_app (cstr ''demo'')) 801 = Some (cstr ''1900~demo:[tcp;;443;a.b;;]'')"
  by code_simp
lemma demo_name: "af_trim_space (ca_name (demo_app (cstr ''demo''))) \<noteq> []"
  by code_simp

lemma demo_app_ok: "app_ok (replicate 16 []) (demo_app (cstr ''demo''))"
  using demo_ok by (simp add: config_ok_def demo_config_def)

theorem custom_line_in_kernel_witness:
  "\<exists>s'. fwx_netlink_msg_rcv (\<lambda>_. True) 1040
     (packet (\<lambda>_. 0) (nl_message 1 (cstr ''1900~demo:[tcp;;443;a.b;;]'' @ [0]))) (fwx_init demo_sysctl) = Some (Inr s') \<and>
     length (fs_features (fx_features s')) = 1"
proof -
  have c: "length (cstr ''1900~demo:[tcp;;443;a.b;;]'') = 26" "0x23 \<notin> set (cstr ''1900~demo:[tcp;;443;a.b;;]'')"
    "length (feature_text (last (ca_features (demo_app (cstr ''demo''))))) = 14"
    "map (kernel_node (demo_app (cstr ''demo''))) (ca_features (demo_app (cstr ''demo''))) =
      [kernel_node (demo_app (cstr ''demo'')) (hd (ca_features (demo_app (cstr ''demo''))))]"
    by code_simp+
  show ?thesis
    by (subst custom_line_in_kernel [OF demo_app_ok demo_line demo_name])
      (simp add: c link_feature_def fwx_init_def feature_init_def del: cstr_simps)
qed

theorem load_loses_messages_witness:
  "\<exists>d'. fwx_load_feature_to_kernel (\<lambda>_. -1) (demo_daemon demo_files) = (0, d') \<and> nl_sent (fd_link d') = []"
  using load_loses_messages [OF demo_daemon_simps(1-3,5), of "\<lambda>_. -1"]
  by (simp add: got_through_none demo_daemon_simps)

lemma demo_base:
  "\<exists>st. init_lines (feature_lines demo_text 0) (af_clean_feature_list feature_init) = Inr st \<and> length (fs_features st) = 1"
proof -
  have "(case init_lines [cstr ''8001~ab:[tcp;;;a.b;;]''] (af_clean_feature_list feature_init) of
      Inr st \<Rightarrow> length (fs_features st) = 1 | _ \<Rightarrow> False)"
    by code_simp
  then show ?thesis by (auto simp: demo_lines simp del: cstr_simps split: sum.splits)
qed

theorem load_in_kernel_witness:
  "\<exists>d' msgs st'. fwx_load_feature_to_kernel (\<lambda>_. 1) (demo_daemon demo_files) = (0, d') \<and> nl_sent (fd_link d') = msgs \<and>
     kernel_gets (\<lambda>_. 0) (\<lambda>_. True) msgs (fwx_init demo_sysctl) = Some (Inr ((fwx_init demo_sysctl)\<lparr>fx_features := st'\<rparr>)) \<and>
     length (fs_features st') = 2"
proof -
  obtain st where st: "init_lines (feature_lines demo_text 0) (af_clean_feature_list (fx_features (fwx_init demo_sysctl))) = Inr st"
    "length (fs_features st) = 1" using demo_base by (auto simp: fwx_init_def)
  have d: "\<forall>app\<in>set (cc_apps (fd_custom (demo_daemon demo_files))). deliverable app"
    using demo_deliverable by (simp add: demo_daemon_simps)
  have n: "length (kernel_nodes [demo_app (cstr ''demo'')]) = 1" by (simp add: kernel_nodes_def demo_app_def)
  have one: "\<forall>n::nat. (\<lambda>_. 1 :: int) n > 0" by simp
  show ?thesis
    using load_in_kernel [OF demo_daemon_simps(1-3,5) one d st(1), of "\<lambda>_. 0"] st(2) n
    by (elim exE conjE, intro exI conjI) (assumption | simp add: demo_daemon_simps del: cstr_simps)+
qed


definition demo_saved :: custom_file where
  "demo_saved = Content (cstr ''1900~demo:[tcp;;443;a.b;;]'' @ [0x0A]) False"

lemma demo_load:
  "case load_tables demo_env (demo_daemon files\<lparr>fd_file := demo_saved\<rparr>) of (ret, d') \<Rightarrow>
     ret = 0 \<and> fd_classes d' = replicate 16 [] \<and> fd_base_count d' = 1"
  by code_simp

lemma demo_reload:
  obtains d' where "reload_feature demo_env (demo_daemon demo_files\<lparr>fd_file := demo_saved\<rparr>) = (0, d')"
    "fd_classes d' = replicate 16 []" "fd_base_count d' = 1"
proof -
  have "fwx_feature_decrypt_file True True (Some (feature_file 0 demo_text)) = Some demo_text"
    by (rule decrypt_feature_file) (simp_all add: FWX_FEATURE_MAX_SIZE_def demo_text_def)
  moreover have "demo_daemon demo_files\<lparr>fd_file := demo_saved, fd_feature_data := Some demo_text\<rparr> =
      demo_daemon demo_files\<lparr>fd_file := demo_saved\<rparr>" by (simp add: demo_daemon_def)
  ultimately have "reload_feature demo_env (demo_daemon demo_files\<lparr>fd_file := demo_saved\<rparr>) =
      load_tables demo_env (demo_daemon demo_files\<lparr>fd_file := demo_saved\<rparr>)"
    by (simp add: reload_feature_def demo_env_def demo_daemon_def demo_files_def)
  then show ?thesis using that demo_load [of demo_files] by (auto split: prod.splits)
qed

theorem set_then_get_witness:
  "\<exists>d' answer. fwx_api_set_custom_feature demo_env json_tree (demo_request (cstr ''demo'')) (demo_daemon demo_files) =
       (fwx_gen_api_response_data API_CODE_SUCCESS answer, d') \<and>
     fwx_api_get_custom_feature demo_env d' = fwx_gen_api_response_data API_CODE_SUCCESS answer"
proof -
  have a: "config_from_json (ev_realloc demo_env) json_tree (fd_classes (demo_daemon demo_files))
      (fd_base_count (demo_daemon demo_files)) (demo_request (cstr ''demo'')) = Inr (demo_config (cstr ''demo''))"
    using demo_accepted by (simp add: demo_env_def demo_daemon_simps)
  have w: "config_write_file (ev_save demo_env) (demo_config (cstr ''demo'')) (fd_file (demo_daemon files)) = (Inr (), demo_saved)" for files
    using demo_written by (simp add: demo_env_def demo_daemon_def demo_saved_def)
  have ra: "ev_realloc demo_env = (\<lambda>_. True)" by (simp add: demo_env_def)
  obtain d' where r: "reload_feature demo_env (demo_daemon demo_files\<lparr>fd_file := demo_saved\<rparr>) = (0, d')"
    "fd_classes d' = fd_classes (demo_daemon demo_files)" "fd_base_count d' = fd_base_count (demo_daemon demo_files)"
    using demo_reload by (metis demo_daemon_simps(7,8))
  have "fwx_api_set_custom_feature demo_env json_tree (demo_request (cstr ''demo'')) (demo_daemon demo_files) =
      (fwx_gen_api_response_data API_CODE_SUCCESS (Some (config_to_data (ev_icon demo_env) (demo_config (cstr ''demo'')))), d')"
    by (simp only: fwx_api_set_custom_feature_def a w r(1) sum.case case_prod_conv Let_def) simp
  from set_then_get [OF a ra demo_no_newline this r(2,3)] this show ?thesis by blast
qed

theorem newline_locks_daemon_witness:
  "fst (fwx_api_set_custom_feature demo_env json_tree (demo_request [0x61, 0x0A, 0x62]) (demo_daemon demo_files)) =
     error_response (cstr ''custom feature file was saved but reload failed'') True"
proof -
  let ?d = "demo_daemon demo_files"
  have a: "config_from_json (ev_realloc demo_env) json_tree (fd_classes ?d) (fd_base_count ?d)
      (demo_request [0x61, 0x0A, 0x62]) = Inr (demo_config [0x61, 0x0A, 0x62])"
  proof -
    have "config_from_json (\<lambda>_. True) json_tree (replicate 16 []) 1 (demo_request [0x61, 0x0A, 0x62]) =
      Inr (demo_config [0x61, 0x0A, 0x62])" by code_simp
    then show ?thesis by (simp add: demo_env_def demo_daemon_simps)
  qed
  have n: "\<exists>app\<in>set (cc_apps (demo_config [0x61, 0x0A, 0x62])). 0x0A \<in> set (ca_name app)"
    by (simp add: demo_config_def demo_app_def)
  obtain file_out where w: "config_write_file (ev_save demo_env) (demo_config [0x61, 0x0A, 0x62]) (fd_file ?d) = (Inr (), file_out)"
  proof -
    have "fst (config_write_file demo_io (demo_config [0x61, 0x0A, 0x62]) NoFile) = Inr ()" by code_simp
    then show ?thesis using that by (cases "config_write_file demo_io (demo_config [0x61, 0x0A, 0x62]) NoFile")
      (simp add: demo_env_def demo_daemon_def)
  qed
  show ?thesis using newline_locks_daemon [OF a n w, of "?d\<lparr>fd_file := file_out\<rparr>"] by simp
qed

end
