(* ===== verification/Fwxd_User.thy ===== *)
theory Fwxd_User
  imports Fwxd_Custom_Feature
begin

text \<open>
  The clients that the daemon knows (\<^verbatim>\<open>open-app-filter/src/fwx_user.c\<close>): the list of clients with their
  sessions, visits and statistics of the day, the records of their coming and going, the
  statistics by kind of application, the database of visits, the files it writes, and the steps of the timer
  that keep them.
\<close>

section \<open>Time\<close>

record tm =
  tm_sec :: int
  tm_min :: int
  tm_hour :: int
  tm_mday :: int
  tm_mon :: int
  tm_year :: int
  tm_wday :: int
  tm_isdst :: int

text \<open>
  What surrounds the daemon and stands still during an operation: the clock; the calendar of the time
  zone that the router is set to (\<^verbatim>\<open>localtime\<close>, \<open>None\<close> for \<^verbatim>\<open>NULL\<close>, and \<^verbatim>\<open>mktime\<close>); whether there is memory for
  one more structure of a kind, given how many there are; whether the database takes a change, given
  how many rows it has; whether a file can be opened for writing, a directory be read, and a file be deleted; the two
  directories for data; the names and icons of applications; and the bytes of the integer 1 before its first zero byte, which
  differ with the byte order.
\<close>

datatype kind = Client_node | User_record | Visit_stat | Visit_info | Type_record

record env =
  en_now :: int
  en_localtime :: "int \<Rightarrow> tm option"
  en_mktime :: "tm \<Rightarrow> int"
  en_calloc :: "kind \<Rightarrow> nat \<Rightarrow> bool"
  en_db :: "nat \<Rightarrow> bool"
  en_fopen :: "bytes \<Rightarrow> bool"
  en_opendir :: "bytes \<Rightarrow> bool"
  en_unlink :: "bytes \<Rightarrow> bool"
  en_client_data_root :: bytes
  en_history_data_root :: bytes
  en_app_name :: "int \<Rightarrow> bytes option"
  en_app_icon :: "int \<Rightarrow> bool"
  en_one_text :: bytes

definition SECONDS_PER_DAY :: u32 where "SECONDS_PER_DAY = 86400"
definition HOURS_PER_DAY :: nat where "HOURS_PER_DAY = 24"
definition TOP_APP_PER_HOUR :: nat where "TOP_APP_PER_HOUR = 3"
definition MAX_TOP_APPS_PER_DAY :: nat where "MAX_TOP_APPS_PER_DAY = 10"
definition MAX_APP_STAT_NUM :: nat where "MAX_APP_STAT_NUM = 8"
definition MAX_RECENT_APPS :: nat where "MAX_RECENT_APPS = 5"
definition MAX_USER_RECORDS :: nat where "MAX_USER_RECORDS = 4096"
definition MAX_MAC_LEN :: nat where "MAX_MAC_LEN = 32"
definition MAX_IP_LEN :: nat where "MAX_IP_LEN = 32"
definition MAX_NAME_SIZE :: nat where "MAX_NAME_SIZE = 64"

definition get_timestamp :: "env \<Rightarrow> int" where
  "get_timestamp ev = to_int32 (en_now ev)"

definition get_hour_from_timestamp :: "env \<Rightarrow> u32 \<Rightarrow> int" where
  "get_hour_from_timestamp ev timestamp = (case en_localtime ev (uint timestamp) of None \<Rightarrow> -1 | Some t \<Rightarrow> tm_hour t)"

definition get_next_hour_timestamp :: "env \<Rightarrow> u32 \<Rightarrow> u32" where
  "get_next_hour_timestamp ev timestamp = (case en_localtime ev (uint timestamp) of
      None \<Rightarrow> timestamp + 3600
    | Some t \<Rightarrow>
        let next_ts = en_mktime ev (t\<lparr>tm_min := 0, tm_sec := 0, tm_hour := tm_hour t + 1\<rparr>)
        in if next_ts \<le> uint timestamp then timestamp + 3600 else word_of_int next_ts)"

definition is_same_day :: "env \<Rightarrow> u32 \<Rightarrow> u32 \<Rightarrow> bool" where
  "is_same_day ev timestamp1 timestamp2 =
     (case (en_localtime ev (uint timestamp1), en_localtime ev (uint timestamp2)) of
        (Some a, Some b) \<Rightarrow> tm_year a = tm_year b \<and> tm_mon a = tm_mon b \<and> tm_mday a = tm_mday b
      | _ \<Rightarrow> False)"

definition get_today_start_timestamp :: "env \<Rightarrow> u32" where
  "get_today_start_timestamp ev = (case en_localtime ev (en_now ev) of
      None \<Rightarrow> 0
    | Some t \<Rightarrow> word_of_int (en_mktime ev (t\<lparr>tm_hour := 0, tm_min := 0, tm_sec := 0\<rparr>)))"

definition get_today_start_timestamp_from_ts :: "env \<Rightarrow> u32 \<Rightarrow> u32" where
  "get_today_start_timestamp_from_ts ev timestamp = (case en_localtime ev (uint timestamp) of
      None \<Rightarrow> 0
    | Some t \<Rightarrow> word_of_int (en_mktime ev (t\<lparr>tm_hour := 0, tm_min := 0, tm_sec := 0\<rparr>)))"

section \<open>Data\<close>

record user_visit =
  uv_appid :: int
  uv_first_time :: u32
  uv_latest_time :: u32
  uv_action :: int
  uv_expire :: bool

record online_offline_record =
  oo_type :: int
  oo_timestamp :: u32
  oo_duration :: u64

text \<open>The array of applications with its counter is a list.\<close>

record online_session =
  on_up_bytes :: u64
  on_down_bytes :: u64
  on_online_duration :: u64
  on_active_duration :: u64
  on_recent_apps :: "int list"
  on_start_time :: u32

record user_record =
  ur_action :: int
  ur_timestamp :: u32
  ur_mac :: bytes
  ur_nickname :: bytes
  ur_hostname :: bytes
  ur_up_bytes :: u64
  ur_down_bytes :: u64
  ur_online_duration :: u64
  ur_active_duration :: u64
  ur_recent_apps :: "int list"

record type_record =
  gt_app_type :: int
  gt_time_delta :: u64
  gt_timestamp :: u32

text \<open>Traffic is a pair of the bytes up and down; the arrays have an element for each hour.\<close>

record hourly_stat =
  dh_date :: u32
  dh_is_today :: int
  dh_top_apps :: "int list list"
  dh_traffic :: "(u64 \<times> u64) list"
  dh_online_time :: "u64 list"
  dh_active_time :: "u64 list"

record top_apps_stat =
  dt_date :: u32
  dt_is_today :: int
  dt_count :: int
  dt_apps :: "(int \<times> u64) list"

record client_node =
  cn_mac :: bytes
  cn_ip :: bytes
  cn_ipv6 :: bytes
  cn_up_rate :: u32
  cn_down_rate :: u32
  cn_rssi :: int
  cn_rx_rate :: u32
  cn_tx_rate :: u32
  cn_band :: bytes
  cn_wifi_ifname :: bytes
  cn_is_wireless :: int
  cn_wireless_online :: bool
  cn_hostname :: bytes
  cn_nickname :: bytes
  cn_online :: bool
  cn_expire :: int
  cn_offline_time :: u32
  cn_online_time :: u32
  cn_online_visit :: "user_visit list"
  cn_visit :: "user_visit list"
  cn_stat_list :: "(int \<times> u64) list"
  cn_records :: "online_offline_record list"
  cn_mf_user_loaded :: int
  cn_visiting_url :: bytes
  cn_visiting_app :: int
  cn_active :: int
  cn_last_online_state :: bool
  cn_session_online_recorded :: bool
  cn_session :: online_session
  cn_daily :: hourly_stat
  cn_top :: top_apps_stat

text \<open>A row of the table \<^verbatim>\<open>app_visit_record\<close>.\<close>

record visit_row =
  vr_mac :: bytes
  vr_record_date :: u32
  vr_appid :: int
  vr_start_time :: u32
  vr_end_time :: u32
  vr_duration :: int
  vr_action :: int

text \<open>The global variables, the database, and the files that were written, the newest last.\<close>

record users =
  us_clients :: "client_node list"
  us_records :: "user_record list"
  us_cur_user_num :: int
  us_count :: int
  us_last_mday :: int
  us_app_valid_time :: int
  us_type_stats :: "u64 list"
  us_stat_date :: u32
  us_type_records :: "type_record list"
  us_traffic :: "(u64 \<times> u64) list"
  us_traffic_date :: u32
  us_db :: "visit_row list"
  us_files :: "(bytes \<times> json) list"

definition no_traffic :: "(u64 \<times> u64) list" where "no_traffic = replicate HOURS_PER_DAY (0, 0)"
definition no_hours :: "u64 list" where "no_hours = replicate HOURS_PER_DAY 0"
definition no_top_apps :: "int list list" where
  "no_top_apps = replicate HOURS_PER_DAY (replicate TOP_APP_PER_HOUR (-1))"

definition init_daily_stats_default :: "hourly_stat \<Rightarrow> hourly_stat" where
  "init_daily_stats_default stat = stat\<lparr>dh_traffic := no_traffic, dh_online_time := no_hours,
     dh_active_time := no_hours, dh_top_apps := no_top_apps\<rparr>"

definition init_daily_top_apps_default :: "top_apps_stat \<Rightarrow> top_apps_stat" where
  "init_daily_top_apps_default stat = stat\<lparr>dt_count := 0, dt_apps := replicate MAX_TOP_APPS_PER_DAY (-1, 0)\<rparr>"

definition reset_client_runtime_fields :: "client_node \<Rightarrow> client_node" where
  "reset_client_runtime_fields client = client\<lparr>cn_up_rate := 0, cn_down_rate := 0, cn_rssi := 0, cn_rx_rate := 0,
     cn_tx_rate := 0, cn_band := [], cn_wifi_ifname := [], cn_wireless_online := False, cn_online := False,
     cn_visiting_url := [], cn_visiting_app := 0, cn_active := 0, cn_last_online_state := False,
     cn_session_online_recorded := False\<rparr>"

section \<open>Sessions\<close>

text \<open>The application moves or comes to the front; the last of five is lost.\<close>

definition session_push_recent_app :: "int \<Rightarrow> online_session \<Rightarrow> online_session" where
  "session_push_recent_app appid session =
     (if appid \<le> 0 then session
      else if appid \<in> set (on_recent_apps session)
        then session\<lparr>on_recent_apps := appid # remove1 appid (on_recent_apps session)\<rparr>
      else session\<lparr>on_recent_apps := appid #
        (if length (on_recent_apps session) < MAX_RECENT_APPS then on_recent_apps session
         else take (MAX_RECENT_APPS - 1) (on_recent_apps session))\<rparr>)"

definition no_session :: online_session where
  "no_session = \<lparr>on_up_bytes = 0, on_down_bytes = 0, on_online_duration = 0, on_active_duration = 0,
     on_recent_apps = [], on_start_time = 0\<rparr>"

definition reset_online_session_stat :: "u32 \<Rightarrow> client_node \<Rightarrow> client_node" where
  "reset_online_session_stat start_time client = client\<lparr>cn_session := no_session\<lparr>on_start_time := start_time\<rparr>\<rparr>"

definition update_online_session_flow :: "u64 \<Rightarrow> u64 \<Rightarrow> client_node \<Rightarrow> client_node" where
  "update_online_session_flow up down client =
     (if \<not> cn_online client then client
      else client\<lparr>cn_session := (cn_session client)\<lparr>on_up_bytes := on_up_bytes (cn_session client) + up,
        on_down_bytes := on_down_bytes (cn_session client) + down\<rparr>\<rparr>)"

definition update_online_session_activity :: "int \<Rightarrow> int \<Rightarrow> client_node \<Rightarrow> client_node" where
  "update_online_session_activity online_seconds active_seconds client =
     (if \<not> cn_online client then client
      else client\<lparr>cn_session := (cn_session client)\<lparr>
        on_online_duration := on_online_duration (cn_session client) +
          (if online_seconds > 0 then word_of_int online_seconds else 0),
        on_active_duration := on_active_duration (cn_session client) +
          (if active_seconds > 0 then word_of_int active_seconds else 0)\<rparr>\<rparr>)"

definition update_online_session_recent_app :: "int \<Rightarrow> client_node \<Rightarrow> client_node" where
  "update_online_session_recent_app appid client =
     (if \<not> cn_online client then client
      else client\<lparr>cn_session := session_push_recent_app appid (cn_session client)\<rparr>)"

section \<open>Records of coming (0) and going (1)\<close>

text \<open>
  The list begins with the newest record; what exceeds the limit is dropped from its end. The names are copied up to one byte
  less than their arrays have, which are zeroed.
\<close>

definition add_user_record :: "env \<Rightarrow> client_node \<Rightarrow> int \<Rightarrow> u32 \<Rightarrow> users \<Rightarrow> users" where
  "add_user_record ev client action timestamp us =
     (if \<not> en_calloc ev User_record (length (us_records us)) then us
      else
        let session = (if action = 1 then cn_session client else no_session);
            record_new = \<lparr>ur_action = action, ur_timestamp = timestamp, ur_mac = cn_mac client,
              ur_nickname = take (MAX_NAME_SIZE - 1) (cn_nickname client), ur_hostname = take (MAX_NAME_SIZE - 1) (cn_hostname client),
              ur_up_bytes = on_up_bytes session, ur_down_bytes = on_down_bytes session,
              ur_online_duration = on_online_duration session, ur_active_duration = on_active_duration session,
              ur_recent_apps = on_recent_apps session\<rparr>
        in us\<lparr>us_records := take MAX_USER_RECORDS (record_new # us_records us)\<rparr>)"

section \<open>The list of clients\<close>

text \<open>Pointers into the list are positions.\<close>

fun find_at :: "('a \<Rightarrow> bool) \<Rightarrow> 'a list \<Rightarrow> nat option" where
  "find_at P [] = None"
| "find_at P (x # xs) = (if P x then Some 0 else map_option Suc (find_at P xs))"

definition at_client :: "nat \<Rightarrow> (client_node \<Rightarrow> client_node) \<Rightarrow> users \<Rightarrow> users" where
  "at_client i f us = us\<lparr>us_clients := (us_clients us)[i := f (us_clients us ! i)]\<rparr>"

definition each_client :: "(client_node \<Rightarrow> client_node) \<Rightarrow> users \<Rightarrow> users" where
  "each_client f us = us\<lparr>us_clients := map f (us_clients us)\<rparr>"

text \<open>A step for every client that is in the list when the loop begins; it may change the other variables too.\<close>

definition for_clients :: "(nat \<Rightarrow> users \<Rightarrow> users) \<Rightarrow> users \<Rightarrow> users" where
  "for_clients step us = fold step [0..<length (us_clients us)] us"

definition normalize_mac_lower :: "bytes \<Rightarrow> bytes" where
  "normalize_mac_lower src = take (MAX_MAC_LEN - 1) (map tolower_ascii src)"

definition strcasecmp_eq :: "bytes \<Rightarrow> bytes \<Rightarrow> bool" where
  "strcasecmp_eq a b \<longleftrightarrow> map tolower_ascii a = map tolower_ascii b"

definition find_client_node :: "bytes \<Rightarrow> users \<Rightarrow> nat option \<times> users" where
  "find_client_node mac us =
     (if mac = [] then (None, us)
      else case find_at (\<lambda>p. strcasecmp_eq (cn_mac p) (normalize_mac_lower mac)) (us_clients us) of
        None \<Rightarrow> (None, us)
      | Some i \<Rightarrow> (Some i,
          if cn_mac (us_clients us ! i) \<noteq> normalize_mac_lower mac
          then at_client i (\<lambda>p. p\<lparr>cn_mac := normalize_mac_lower mac\<rparr>) us else us))"

definition new_client_node :: "env \<Rightarrow> bytes \<Rightarrow> client_node" where
  "new_client_node ev mac = \<lparr>cn_mac = mac, cn_ip = [], cn_ipv6 = [], cn_up_rate = 0, cn_down_rate = 0, cn_rssi = 0,
     cn_rx_rate = 0, cn_tx_rate = 0, cn_band = [], cn_wifi_ifname = [], cn_is_wireless = 0,
     cn_wireless_online = False, cn_hostname = [], cn_nickname = [], cn_online = False, cn_expire = 0,
     cn_offline_time = word_of_int (get_timestamp ev), cn_online_time = word_of_int (get_timestamp ev),
     cn_online_visit = [], cn_visit = [], cn_stat_list = [], cn_records = [], cn_mf_user_loaded = 0,
     cn_visiting_url = [], cn_visiting_app = 0, cn_active = 0, cn_last_online_state = False,
     cn_session_online_recorded = False,
     cn_session = no_session\<lparr>on_start_time := word_of_int (get_timestamp ev)\<rparr>,
     cn_daily = \<lparr>dh_date = get_today_start_timestamp ev, dh_is_today = 1, dh_top_apps = no_top_apps,
       dh_traffic = no_traffic, dh_online_time = no_hours, dh_active_time = no_hours\<rparr>,
     cn_top = \<lparr>dt_date = get_today_start_timestamp ev, dt_is_today = 1, dt_count = 0,
       dt_apps = replicate MAX_TOP_APPS_PER_DAY (-1, 0)\<rparr>\<rparr>"

definition add_client_node :: "env \<Rightarrow> bytes \<Rightarrow> users \<Rightarrow> nat option \<times> users" where
  "add_client_node ev mac us =
     (if mac = [] then (None, us)
      else case find_client_node (normalize_mac_lower mac) us of
        (Some i, us') \<Rightarrow> (Some i, us')
      | (None, us') \<Rightarrow>
          if \<not> en_calloc ev Client_node (length (us_clients us')) then (None, us')
          else (Some 0, us'\<lparr>us_clients := new_client_node ev (normalize_mac_lower mac) # us_clients us',
            us_cur_user_num := us_cur_user_num us' + 1\<rparr>))"

text \<open>The two calls that most callers make.\<close>

definition find_or_add_client :: "env \<Rightarrow> bytes \<Rightarrow> users \<Rightarrow> nat option \<times> users" where
  "find_or_add_client ev mac us = (case find_client_node mac us of
      (Some i, us') \<Rightarrow> (Some i, us')
    | (None, us') \<Rightarrow> add_client_node ev mac us')"

definition init_client_list :: "users \<Rightarrow> users" where
  "init_client_list us = us\<lparr>us_clients := []\<rparr>"

section \<open>Online and offline\<close>

definition clean_client_online_status :: "env \<Rightarrow> users \<Rightarrow> users" where
  "clean_client_online_status ev = each_client (\<lambda>node.
     let node' = node\<lparr>cn_last_online_state := cn_online node, cn_active := 0\<rparr>
     in if cn_online node then node'\<lparr>cn_offline_time := word_of_int (get_timestamp ev), cn_online := False\<rparr> else node')"

definition wireless_decides :: "client_node \<Rightarrow> client_node" where
  "wireless_decides node =
     (if cn_is_wireless node = 0 then node
      else if cn_wireless_online node then node\<lparr>cn_online := True\<rparr>
      else node\<lparr>cn_online := False, cn_active := 0\<rparr>)"

text \<open>A client is gone for good after three days.\<close>

definition CLIENT_OFFLINE_TIME :: int where "CLIENT_OFFLINE_TIME = 3 * 86400"

definition client_gone :: "env \<Rightarrow> client_node \<Rightarrow> bool" where
  "client_gone ev node \<longleftrightarrow> \<not> cn_online node \<and>
     to_int32 (get_timestamp ev - uint (cn_offline_time node)) > CLIENT_OFFLINE_TIME"

definition check_client_expire_user :: "env \<Rightarrow> users \<Rightarrow> nat \<times> users" where
  "check_client_expire_user ev us =
     (length (filter (client_gone ev) (us_clients us)),
      each_client (\<lambda>node. if client_gone ev node
        then node\<lparr>cn_expire := 1, cn_visit := map (\<lambda>v. v\<lparr>uv_expire := True\<rparr>) (cn_visit node)\<rparr> else node) us)"

definition flush_expire_client_node :: "users \<Rightarrow> users" where
  "flush_expire_client_node us =
     (let kept = filter (\<lambda>node. cn_expire node = 0) (us_clients us)
      in us\<lparr>us_clients := kept,
        us_cur_user_num := us_cur_user_num us - int (length (us_clients us) - length kept)\<rparr>)"

section \<open>Visits\<close>

text \<open>The duration is an \<^verbatim>\<open>int\<close>.\<close>

definition visit_time :: "user_visit \<Rightarrow> int" where
  "visit_time v = sint (uv_latest_time v - uv_first_time v)"

definition ONLINE_VISIT_TIMEOUT_SEC :: int where "ONLINE_VISIT_TIMEOUT_SEC = 300"

definition add_visit_info_node :: "user_visit \<Rightarrow> user_visit list \<Rightarrow> user_visit list" where
  "add_visit_info_node node visit_list = node # visit_list"

text \<open>The row of a visit; the last argument is the date that it is filed under.\<close>

definition visit_row_of :: "bytes \<Rightarrow> user_visit \<Rightarrow> u32 \<Rightarrow> visit_row" where
  "visit_row_of mac v date = \<lparr>vr_mac = mac, vr_record_date = date, vr_appid = uv_appid v,
     vr_start_time = uv_first_time v, vr_end_time = uv_latest_time v,
     vr_duration = (if visit_time v = 0 then 1 else visit_time v), vr_action = uv_action v\<rparr>"

definition save_visit_record_to_db :: "env \<Rightarrow> bytes \<Rightarrow> user_visit \<Rightarrow> users \<Rightarrow> users" where
  "save_visit_record_to_db ev mac visit us =
     (if \<not> en_db ev (length (us_db us)) then us
      else us\<lparr>us_db := us_db us @ [visit_row_of mac visit (get_today_start_timestamp_from_ts ev (uv_first_time visit))]\<rparr>)"

text \<open>A visit that is over: kept and saved when it was long enough, dropped otherwise.\<close>

definition finish_visit :: "env \<Rightarrow> nat \<Rightarrow> user_visit \<Rightarrow> users \<Rightarrow> users" where
  "finish_visit ev i v us =
     (if visit_time v < us_app_valid_time us then us
      else let v' = v\<lparr>uv_expire := False\<rparr>;
          us' = at_client i (\<lambda>node. node\<lparr>cn_visit := add_visit_info_node v' (cn_visit node)\<rparr>) us
        in save_visit_record_to_db ev (cn_mac (us_clients us ! i)) v' us')"

definition visit_over :: "env \<Rightarrow> user_visit \<Rightarrow> bool" where
  "visit_over ev v \<longleftrightarrow> to_int32 (get_timestamp ev - sint (uv_latest_time v)) > ONLINE_VISIT_TIMEOUT_SEC"

definition move_expired_visits :: "env \<Rightarrow> nat \<Rightarrow> users \<Rightarrow> users" where
  "move_expired_visits ev i us =
     (let visits = cn_online_visit (us_clients us ! i)
      in fold (finish_visit ev i) (filter (visit_over ev) visits)
           (at_client i (\<lambda>node. node\<lparr>cn_online_visit := filter (\<lambda>v. \<not> visit_over ev v) visits\<rparr>) us))"

definition move_expired_online_visit_to_offline :: "env \<Rightarrow> users \<Rightarrow> users" where
  "move_expired_online_visit_to_offline ev = for_clients (move_expired_visits ev)"

definition MAX_RECORD_TIME :: int where "MAX_RECORD_TIME = 3 * 86400"
definition RECORD_REMAIN_TIME :: int where "RECORD_REMAIN_TIME = 86400"
definition INVALID_RECORD_TIME :: int where "INVALID_RECORD_TIME = 300"

definition check_visit_expire :: "env \<Rightarrow> user_visit \<Rightarrow> user_visit" where
  "check_visit_expire ev v =
     (let interval_time = to_int32 (get_timestamp ev - uint (uv_first_time v))
      in if interval_time > MAX_RECORD_TIME \<or> interval_time < 0 then v\<lparr>uv_expire := True\<rparr>
         else if interval_time > RECORD_REMAIN_TIME \<and> visit_time v < INVALID_RECORD_TIME then v\<lparr>uv_expire := True\<rparr>
         else v)"

definition check_client_visit_info_expire :: "env \<Rightarrow> users \<Rightarrow> users" where
  "check_client_visit_info_expire ev = each_client (\<lambda>node. node\<lparr>cn_visit := map (check_visit_expire ev) (cn_visit node)\<rparr>)"

definition flush_expire_visit_info :: "users \<Rightarrow> users" where
  "flush_expire_visit_info = each_client (\<lambda>node. node\<lparr>cn_visit := filter (\<lambda>v. \<not> uv_expire v) (cn_visit node)\<rparr>)"

section \<open>Kinds of applications\<close>

definition update_global_app_type_stats :: "env \<Rightarrow> int \<Rightarrow> u64 \<Rightarrow> users \<Rightarrow> users" where
  "update_global_app_type_stats ev appid time_delta us =
     (let app_type = appid div 1000 in
      if appid \<le> 0 \<or> time_delta = 0 \<or> app_type \<le> 0 \<or> app_type > MAX_APP_TYPE then us
      else
        let i = nat (app_type - 1); today = get_today_start_timestamp ev;
            us1 = (if us_stat_date us \<noteq> today
              then us\<lparr>us_type_stats := replicate (nat MAX_APP_TYPE) 0, us_stat_date := today\<rparr> else us);
            us2 = us1\<lparr>us_type_stats := (us_type_stats us1)[i := us_type_stats us1 ! i + time_delta]\<rparr>
        in if \<not> en_calloc ev Type_record (length (us_type_records us)) then us2
           else us2\<lparr>us_type_records := us_type_records us2 @ [\<lparr>gt_app_type = app_type, gt_time_delta = time_delta,
             gt_timestamp = word_of_int (get_timestamp ev)\<rparr>]\<rparr>)"

definition expire_time :: "env \<Rightarrow> u32" where
  "expire_time ev = word_of_int (get_timestamp ev) - 3600"

definition cleanup_expired_hourly_stats :: "env \<Rightarrow> users \<Rightarrow> users" where
  "cleanup_expired_hourly_stats ev us = us\<lparr>us_type_records :=
     dropWhile (\<lambda>r. gt_timestamp r < expire_time ev) (us_type_records us)\<rparr>"

definition get_global_daily_app_type_stats :: "env \<Rightarrow> users \<Rightarrow> u64 list \<times> users" where
  "get_global_daily_app_type_stats ev us =
     (let us' = (if us_stat_date us \<noteq> get_today_start_timestamp ev
        then us\<lparr>us_type_stats := replicate (nat MAX_APP_TYPE) 0, us_stat_date := get_today_start_timestamp ev\<rparr> else us)
      in (us_type_stats us', us'))"

definition add_type_record :: "env \<Rightarrow> type_record \<Rightarrow> u64 list \<Rightarrow> u64 list" where
  "add_type_record ev r sums =
     (let i = gt_app_type r - 1 in
      if gt_timestamp r \<ge> expire_time ev \<and> 0 \<le> i \<and> i < MAX_APP_TYPE
      then sums[nat i := sums ! nat i + gt_time_delta r] else sums)"

definition get_global_hourly_app_type_stats :: "env \<Rightarrow> users \<Rightarrow> u64 list \<times> users" where
  "get_global_hourly_app_type_stats ev us =
     (let us' = cleanup_expired_hourly_stats ev us
      in (fold (add_type_record ev) (us_type_records us') (replicate (nat MAX_APP_TYPE) 0), us'))"

definition reset_global_traffic :: "env \<Rightarrow> users \<Rightarrow> users" where
  "reset_global_traffic ev us = (if us_traffic_date us \<noteq> get_today_start_timestamp ev
     then us\<lparr>us_traffic := no_traffic, us_traffic_date := get_today_start_timestamp ev\<rparr> else us)"

definition get_global_traffic_stats :: "env \<Rightarrow> users \<Rightarrow> (u64 \<times> u64) list \<times> users" where
  "get_global_traffic_stats ev us = (us_traffic (reset_global_traffic ev us), reset_global_traffic ev us)"

end
