(* ===== verification/Fwxd_User_Stat.thy ===== *)
theory Fwxd_User_Stat
  imports Fwxd_User
begin

text \<open>
  Statistics of the daemon's clients (\<^verbatim>\<open>fwx_user.c\<close>): how long an application was used in each hour of the
  day, the applications used most in an hour and on a day, the files that keep the statistics of a
  day, and the change of the day.
\<close>

section \<open>Files\<close>

definition two_digits :: "int \<Rightarrow> bytes" where
  "two_digits n = (if n < 10 then 0x30 # print_number n else print_number n)"

text \<open>\<^verbatim>\<open>strftime\<close> with \<^verbatim>\<open>%Y-%m-%d\<close>.\<close>

definition get_date_string :: "env \<Rightarrow> u32 \<Rightarrow> bytes" where
  "get_date_string ev timestamp = (case en_localtime ev (uint timestamp) of
      None \<Rightarrow> []
    | Some t \<Rightarrow> print_number (tm_year t + 1900) @ cstr ''-'' @ two_digits (tm_mon t + 1) @ cstr ''-'' @ two_digits (tm_mday t))"

definition mac_to_dirname :: "bytes \<Rightarrow> bytes" where
  "mac_to_dirname mac = map (\<lambda>c. if c = 0x3A then 0x5F else c) (take 63 mac)"

definition snprintf_path :: "nat \<Rightarrow> bytes \<Rightarrow> bytes" where
  "snprintf_path len s = take (len - 1) s"

definition get_client_data_base_dir :: "env \<Rightarrow> bytes" where
  "get_client_data_base_dir ev = snprintf_path 256 (en_client_data_root ev @ cstr ''/client_data'')"

definition stats_dir :: "env \<Rightarrow> bytes \<Rightarrow> bytes" where
  "stats_dir ev mac = snprintf_path 512
     (get_client_data_base_dir ev @ cstr ''/'' @ mac_to_dirname mac @ cstr ''/stats'')"

definition json_u64 :: "u64 \<Rightarrow> json" where
  "json_u64 n = JNumber (sint n)"

definition json_u32 :: "u32 \<Rightarrow> json" where
  "json_u32 n = JNumber (uint n)"

definition save_json :: "env \<Rightarrow> bytes \<Rightarrow> json \<Rightarrow> users \<Rightarrow> users" where
  "save_json ev path content us = (if en_fopen ev path then us\<lparr>us_files := us_files us @ [(path, content)]\<rparr> else us)"

text \<open>An application with its icon, where it has none, what follows, and its name.\<close>

definition app_json :: "env \<Rightarrow> int \<Rightarrow> (bytes \<times> json) list \<Rightarrow> json" where
  "app_json ev appid members = JObject ([(cstr ''appid'', JNumber appid)] @
     (if en_app_icon ev appid then [] else [(cstr ''icon'', JNumber 0)]) @ members @
     (case en_app_name ev appid of None \<Rightarrow> [] | Some name \<Rightarrow> [(cstr ''name'', JString name)]))"

definition traffic_json :: "u64 \<times> u64 \<Rightarrow> json" where
  "traffic_json t = JObject [(cstr ''up_bytes'', json_u64 (fst t)), (cstr ''down_bytes'', json_u64 (snd t))]"

definition hour_json :: "env \<Rightarrow> hourly_stat \<Rightarrow> nat \<Rightarrow> json" where
  "hour_json ev stat hour = JObject [(cstr ''hour'', JNumber (int hour)),
     (cstr ''apps'', JArray (map (\<lambda>appid. app_json ev appid []) (filter (\<lambda>appid. appid > 0) (dh_top_apps stat ! hour)))),
     (cstr ''traffic'', traffic_json (dh_traffic stat ! hour)),
     (cstr ''online_time'', json_u64 (dh_online_time stat ! hour)),
     (cstr ''active_time'', json_u64 (dh_active_time stat ! hour))]"

definition save_daily_stats_to_file :: "env \<Rightarrow> client_node \<Rightarrow> u32 \<Rightarrow> users \<Rightarrow> users" where
  "save_daily_stats_to_file ev client date us =
     (if dh_date (cn_daily client) \<noteq> date then us
      else save_json ev
        (snprintf_path 512 (stats_dir ev (cn_mac client) @ cstr ''/hourly_'' @ get_date_string ev date @ cstr ''.json''))
        (JObject [(cstr ''date'', json_u32 date), (cstr ''mac'', JString (cn_mac client)),
          (cstr ''hourly_stats'', JArray (map (hour_json ev (cn_daily client)) [0..<HOURS_PER_DAY]))]) us)"

definition save_daily_top_apps_stats_to_file :: "env \<Rightarrow> client_node \<Rightarrow> u32 \<Rightarrow> users \<Rightarrow> users" where
  "save_daily_top_apps_stats_to_file ev client date us =
     (if dt_date (cn_top client) \<noteq> date then us
      else save_json ev
        (snprintf_path 512 (stats_dir ev (cn_mac client) @ cstr ''/top_apps_'' @ get_date_string ev date @ cstr ''.json''))
        (JObject [(cstr ''date'', json_u32 date), (cstr ''mac'', JString (cn_mac client)),
          (cstr ''count'', JNumber (dt_count (cn_top client))),
          (cstr ''apps'', JArray (map (\<lambda>app. app_json ev (fst app) [(cstr ''total_time'', json_u64 (snd app))])
            (take (nat (dt_count (cn_top client))) (dt_apps (cn_top client)))))]) us)"

definition save_global_traffic_stats_to_file :: "env \<Rightarrow> u32 \<Rightarrow> users \<Rightarrow> users" where
  "save_global_traffic_stats_to_file ev date us =
     save_json ev
       (snprintf_path 512 (snprintf_path 512 (en_history_data_root ev @ cstr ''/global/stats'') @
         cstr ''/traffic_'' @ get_date_string ev date @ cstr ''.json''))
       (JObject [(cstr ''date'', json_u32 date),
         (cstr ''hourly_traffic'', JArray (map (\<lambda>hour. JObject [(cstr ''hour'', JNumber (int hour)),
           (cstr ''traffic'', traffic_json (us_traffic us ! hour))]) [0..<HOURS_PER_DAY]))]) us"

text \<open>
  The visits of a day: in one transaction the rows of the client and the date are deleted, then
  the visits are inserted; a failure undoes it.
\<close>

definition on_date :: "u32 \<Rightarrow> user_visit \<Rightarrow> bool" where
  "on_date date v \<longleftrightarrow> date \<le> uv_first_time v \<and> uv_first_time v \<le> date + SECONDS_PER_DAY - 1"

definition save_client_visit_data_to_file :: "env \<Rightarrow> client_node \<Rightarrow> u32 \<Rightarrow> users \<Rightarrow> users" where
  "save_client_visit_data_to_file ev client date us =
     (let visits = filter (on_date date) (cn_visit client) in
      if visits = [] \<or> \<not> en_db ev (length (us_db us)) then us
      else us\<lparr>us_db := filter (\<lambda>r. \<not> (vr_mac r = cn_mac client \<and> vr_record_date r = date)) (us_db us) @
        map (\<lambda>v. visit_row_of (cn_mac client) v date) visits\<rparr>)"

section \<open>The statistics of today\<close>

definition get_today_stat :: "env \<Rightarrow> nat \<Rightarrow> users \<Rightarrow> users" where
  "get_today_stat ev i us =
     (let client = us_clients us ! i; stat = cn_daily client; today = get_today_start_timestamp ev in
      if dh_date stat = today \<and> dh_is_today stat = 1 then us
      else at_client i (\<lambda>c. c\<lparr>cn_daily := init_daily_stats_default (stat\<lparr>dh_date := today, dh_is_today := 1\<rparr>)\<rparr>)
        (if dh_date stat \<noteq> 0 \<and> dh_date stat \<noteq> today then save_daily_stats_to_file ev client (dh_date stat) us else us))"

definition get_today_top_apps_stat :: "env \<Rightarrow> nat \<Rightarrow> users \<Rightarrow> users" where
  "get_today_top_apps_stat ev i us =
     (let client = us_clients us ! i; stat = cn_top client; today = get_today_start_timestamp ev in
      if dt_date stat = today \<and> dt_is_today stat = 1 then us
      else at_client i (\<lambda>c. c\<lparr>cn_top := init_daily_top_apps_default (stat\<lparr>dt_date := today, dt_is_today := 1\<rparr>)\<rparr>)
        (if dt_date stat \<noteq> 0 \<and> dt_date stat \<noteq> today then save_daily_top_apps_stats_to_file ev client (dt_date stat) us else us))"

section \<open>The hours of a visit\<close>

text \<open>
  The loop that two functions share: the hour and the seconds of each piece of a visit.
  Nothing in the code bounds it, so it may not return.
\<close>

partial_function (option) segments :: "env \<Rightarrow> u32 \<Rightarrow> u32 \<Rightarrow> (int \<times> u64) list option" where
  "segments ev end_in cursor =
     (if \<not> cursor < end_in then Some []
      else
        let hour = get_hour_from_timestamp ev cursor;
            next_hour = get_next_hour_timestamp ev cursor;
            segment_end = (if end_in < next_hour then end_in else next_hour);
            segment_duration = ucast (segment_end - cursor) :: u64
        in Option.bind (segments ev end_in segment_end)
             (\<lambda>rest. Some ((hour, if segment_duration = 0 then 1 else segment_duration) # rest)))"

definition visit_segments :: "env \<Rightarrow> user_visit \<Rightarrow> (int \<times> u64) list option" where
  "visit_segments ev visit =
     (if uv_latest_time visit \<le> uv_first_time visit
      then Some [(get_hour_from_timestamp ev (uv_first_time visit), 1)]
      else segments ev (uv_latest_time visit) (uv_first_time visit))"

definition get_visit_duration_in_hour :: "env \<Rightarrow> user_visit \<Rightarrow> int \<Rightarrow> u64 option" where
  "get_visit_duration_in_hour ev visit target_hour =
     (if target_hour < 0 \<or> target_hour \<ge> int HOURS_PER_DAY then Some 0
      else map_option (\<lambda>ss. sum_list (map snd (filter (\<lambda>s. fst s = target_hour) ss))) (visit_segments ev visit))"

section \<open>The applications used most\<close>

type_synonym app_table = "(int \<times> u64) list"

text \<open>The position of the first of the smallest times.\<close>

definition min_idx :: "app_table \<Rightarrow> nat" where
  "min_idx t = foldl (\<lambda>m i. if snd (t ! i) < snd (t ! m) then i else m) 0 [1..<MAX_APP_STAT_NUM]"

text \<open>
  A table of eight: the time is added, or a new entry made, or the entry with the least time
  is replaced if it is less. \<open>cap\<close> bounds the time of an hour.
\<close>

definition table_add :: "(u64 \<Rightarrow> u64) \<Rightarrow> int \<Rightarrow> u64 \<Rightarrow> app_table \<Rightarrow> app_table" where
  "table_add cap appid duration t = (case find_at (\<lambda>e. fst e = appid) t of
      Some i \<Rightarrow> t[i := (appid, cap (snd (t ! i) + duration))]
    | None \<Rightarrow>
        if length t < MAX_APP_STAT_NUM then t @ [(appid, cap duration)]
        else if duration > snd (t ! min_idx t) then t[min_idx t := (appid, cap duration)]
        else t)"

definition cap_hour :: "u64 \<Rightarrow> u64" where
  "cap_hour n = (if n > 3600 then 3600 else n)"

definition add_app_duration_to_hour_stats :: "int \<Rightarrow> int \<Rightarrow> u64 \<Rightarrow> app_table list \<Rightarrow> app_table list" where
  "add_app_duration_to_hour_stats hour appid duration hour_stats =
     (if hour < 0 \<or> hour \<ge> int HOURS_PER_DAY \<or> appid \<le> 0 \<or> duration = 0 then hour_stats
      else hour_stats[nat hour := table_add cap_hour appid duration (hour_stats ! nat hour)])"

definition accumulate_visit_to_hour_stats :: "env \<Rightarrow> user_visit \<Rightarrow> app_table list \<Rightarrow> app_table list option" where
  "accumulate_visit_to_hour_stats ev visit hour_stats =
     (if uv_appid visit \<le> 0 then Some hour_stats
      else map_option (\<lambda>ss. fold (\<lambda>(hour, duration). add_app_duration_to_hour_stats hour (uv_appid visit) duration) ss hour_stats)
        (visit_segments ev visit))"

fun accumulate_visits :: "env \<Rightarrow> user_visit list \<Rightarrow> app_table list \<Rightarrow> app_table list option" where
  "accumulate_visits ev [] hour_stats = Some hour_stats"
| "accumulate_visits ev (v # vs) hour_stats =
     Option.bind (accumulate_visit_to_hour_stats ev v hour_stats) (accumulate_visits ev vs)"

definition compare_app_stat :: "int \<times> u64 \<Rightarrow> int \<times> u64 \<Rightarrow> int" where
  "compare_app_stat a b = (if snd a > snd b then -1 else if snd a < snd b then 1 else 0)"

text \<open>\<^verbatim>\<open>qsort\<close> of the C library is a parameter; \<^verbatim>\<open>compare_app_time_stat\<close> is the same comparison.\<close>

type_synonym qsort_fun = "(int \<times> u64 \<Rightarrow> int \<times> u64 \<Rightarrow> int) \<Rightarrow> app_table \<Rightarrow> app_table"

definition hour_top :: "qsort_fun \<Rightarrow> app_table \<Rightarrow> int list" where
  "hour_top qsort t =
     (let top = take TOP_APP_PER_HOUR (if t = [] then [] else qsort compare_app_stat t)
      in map (\<lambda>e. if fst e > 0 \<and> snd e > 0 then fst e else -1) top @ replicate (TOP_APP_PER_HOUR - length top) (-1))"

definition visits_today :: "env \<Rightarrow> user_visit list \<Rightarrow> user_visit list" where
  "visits_today ev vs = filter (\<lambda>v. is_same_day ev (uv_first_time v) (word_of_int (get_timestamp ev))) vs"

definition update_hourly_top_apps :: "qsort_fun \<Rightarrow> env \<Rightarrow> nat \<Rightarrow> users \<Rightarrow> users option" where
  "update_hourly_top_apps qsort ev i us =
     (let us' = get_today_stat ev i us; client = us_clients us' ! i
      in map_option (\<lambda>tables. at_client i
             (\<lambda>c. c\<lparr>cn_daily := (cn_daily c)\<lparr>dh_top_apps := map (hour_top qsort) tables\<rparr>\<rparr>) us')
           (accumulate_visits ev (visits_today ev (cn_online_visit client) @ visits_today ev (cn_visit client))
             (replicate HOURS_PER_DAY [])))"

text \<open>The first \<open>max_count\<close> of the three of an hour; \<open>None\<close> when the array is left as it was.\<close>

definition get_hourly_top_apps :: "env \<Rightarrow> nat \<Rightarrow> int \<Rightarrow> int \<Rightarrow> users \<Rightarrow> int list option \<times> users" where
  "get_hourly_top_apps ev i hour max_count us =
     (if hour < 0 \<or> hour \<ge> int HOURS_PER_DAY \<or> max_count \<le> 0 then (None, us)
      else let us' = get_today_stat ev i us; n = min (nat max_count) TOP_APP_PER_HOUR
        in (Some (take n (dh_top_apps (cn_daily (us_clients us' ! i)) ! nat hour) @ replicate (nat max_count - n) (-1)), us'))"

definition day_table :: "user_visit list \<Rightarrow> app_table" where
  "day_table visits = fold (\<lambda>v. let duration = ucast (uv_latest_time v - uv_first_time v) :: u64
     in table_add (\<lambda>n. n) (uv_appid v) (if duration = 0 then 1 else duration)) visits []"

definition update_daily_top_apps :: "qsort_fun \<Rightarrow> env \<Rightarrow> nat \<Rightarrow> users \<Rightarrow> users" where
  "update_daily_top_apps qsort ev i us =
     (let us' = get_today_top_apps_stat ev i us;
          t = day_table (visits_today ev (cn_visit (us_clients us' ! i)));
          top = (if t = [] then []
            else filter (\<lambda>e. fst e > 0 \<and> snd e > 0) (take MAX_TOP_APPS_PER_DAY (qsort compare_app_stat t)))
      in at_client i (\<lambda>c. c\<lparr>cn_top := (cn_top c)\<lparr>dt_count := int (length top),
           dt_apps := top @ replicate (MAX_TOP_APPS_PER_DAY - length top) (-1, 0)\<rparr>\<rparr>) us')"

section \<open>The change of the day\<close>

text \<open>The visits that still go on are finished, each at the front of the list of visits.\<close>

definition archive_visits :: "env \<Rightarrow> nat \<Rightarrow> users \<Rightarrow> users" where
  "archive_visits ev i us = fold (finish_visit ev i) (cn_online_visit (us_clients us ! i))
     (at_client i (\<lambda>c. c\<lparr>cn_online_visit := []\<rparr>) us)"

definition archive_client :: "env \<Rightarrow> u32 \<Rightarrow> u32 \<Rightarrow> nat \<Rightarrow> users \<Rightarrow> users" where
  "archive_client ev today yesterday i us =
     (let us1 = archive_visits ev i us; node = us_clients us1 ! i;
          us2 = save_client_visit_data_to_file ev node yesterday us1;
          us3 = (if dh_date (cn_daily node) = yesterday then save_daily_stats_to_file ev node yesterday us2 else us2);
          us4 = (if dt_date (cn_top node) = yesterday then save_daily_top_apps_stats_to_file ev node yesterday us3 else us3)
      in at_client i (\<lambda>c. c\<lparr>cn_visit := filter (\<lambda>v. \<not> on_date yesterday v) (cn_visit c), cn_stat_list := [],
           cn_daily := init_daily_stats_default ((cn_daily c)\<lparr>dh_date := today, dh_is_today := 1\<rparr>),
           cn_top := init_daily_top_apps_default ((cn_top c)\<lparr>dt_date := today, dt_is_today := 1\<rparr>)\<rparr>) us4)"

definition archive_globals :: "env \<Rightarrow> users \<Rightarrow> users" where
  "archive_globals ev us =
     (let today = get_today_start_timestamp ev;
          us1 = (if us_stat_date us \<noteq> today
            then us\<lparr>us_type_stats := replicate (nat MAX_APP_TYPE) 0, us_stat_date := today\<rparr> else us);
          us2 = (if us_traffic_date us1 \<noteq> 0 \<and> us_traffic_date us1 \<noteq> today
            then save_global_traffic_stats_to_file ev (us_traffic_date us1) us1 else us1)
      in (reset_global_traffic ev us2)\<lparr>us_type_records := []\<rparr>)"

end
