(* ===== verification/Fwxd_User_Proc.thy ===== *)
theory Fwxd_User_Proc
  imports Fwxd_User_Stat
begin

text \<open>
  What the daemon reads about its clients every ten seconds (\<^verbatim>\<open>fwx_user.c\<close>): the leases of the
  DHCP server, the names that the user gave, the two listings of the kernel module, the stations of the wireless
  interfaces; and what follows from it, who has come and who has gone.
\<close>

section \<open>The C library\<close>

text \<open>\<^verbatim>\<open>fgets\<close> with a buffer of \<open>n + 1\<close> bytes, until the end of the file.\<close>

definition fgets_len :: "nat \<Rightarrow> bytes \<Rightarrow> nat" where
  "fgets_len n s = min n (if 0x0A \<in> set s then Suc (length (takeWhile (\<lambda>c. c \<noteq> 0x0A) s)) else length s)"

function fgets_lines :: "nat \<Rightarrow> bytes \<Rightarrow> bytes list" where
  "fgets_lines n s = (if s = [] \<or> n = 0 then []
     else c_string (take (fgets_len n s) s) # fgets_lines n (drop (fgets_len n s) s))"
  by pat_completeness auto

termination
  by (relation "measure (\<lambda>(n, s). length s)") (auto simp: fgets_len_def)

declare fgets_lines.simps [simp del]

text \<open>
  The conversions of \<^verbatim>\<open>sscanf\<close> in the code: a number, a number that is not stored, a word, a word of bounded
  length, and a word that is not stored. The result is what was stored. A number whose digits exceed 64 bits is the largest.
\<close>

datatype conversion = Conv_number | Skip_number | Conv_word | Conv_max nat | Skip_word

datatype scanned = Scanned_number int | Scanned_word bytes

definition scan_number :: "bytes \<Rightarrow> (int \<times> bytes) option" where
  "scan_number s =
     (let neg = (s \<noteq> [] \<and> hd s = 0x2D); ds = (if s \<noteq> [] \<and> (hd s = 0x2D \<or> hd s = 0x2B) then tl s else s);
          n = k_atoi_loop 0 (takeWhile is_digit ds)
      in if takeWhile is_digit ds = [] then None
         else Some (if n > 2 ^ 64 - 1 then 2 ^ 64 - 1 else if neg then - n else n, dropWhile is_digit ds))"

definition word_len :: "bytes \<Rightarrow> nat" where
  "word_len s = length (takeWhile (\<lambda>c. \<not> isspace_c c) s)"

fun sscanf :: "conversion list \<Rightarrow> bytes \<Rightarrow> scanned list" where
  "sscanf [] s = []"
| "sscanf (c # cs) s = (let t = dropWhile isspace_c s in
     if t = [] then [] else case c of
       Conv_number \<Rightarrow> (case scan_number t of None \<Rightarrow> [] | Some (n, rest) \<Rightarrow> Scanned_number n # sscanf cs rest)
     | Skip_number \<Rightarrow> (case scan_number t of None \<Rightarrow> [] | Some (n, rest) \<Rightarrow> sscanf cs rest)
     | Conv_word \<Rightarrow> Scanned_word (take (word_len t) t) # sscanf cs (drop (word_len t) t)
     | Conv_max n \<Rightarrow> Scanned_word (take (min n (word_len t)) t) # sscanf cs (drop (min n (word_len t)) t)
     | Skip_word \<Rightarrow> sscanf cs (drop (word_len t) t))"

declare sscanf.simps(2) [simp del]

definition scanned_word :: "scanned list \<Rightarrow> nat \<Rightarrow> bytes" where
  "scanned_word vs i = (case vs ! i of Scanned_word w \<Rightarrow> w | Scanned_number _ \<Rightarrow> [])"

definition scanned_u32 :: "scanned list \<Rightarrow> nat \<Rightarrow> u32" where
  "scanned_u32 vs i = (case vs ! i of Scanned_number n \<Rightarrow> word_of_int n | Scanned_word _ \<Rightarrow> 0)"

definition atoi :: "bytes \<Rightarrow> int" where
  "atoi s = to_int32 (fst (strtol_10 s))"

section \<open>Leases\<close>

text \<open>
  The three arrays keep what the last line left in them. The words are stored without a bound in
  arrays of 32, 32 and 128 bytes. The name is then copied with \<^verbatim>\<open>strncpy\<close> and the size of its array: one of 64 bytes or more is
  cut, and fills the array without a NUL.
\<close>

record lease_bufs =
  lb_mac :: bytes
  lb_ip :: bytes
  lb_hostname :: bytes

definition scan_lease :: "bytes \<Rightarrow> lease_bufs \<Rightarrow> lease_bufs ub_result" where
  "scan_lease line b =
     (let vs = sscanf [Skip_word, Conv_word, Conv_word, Conv_word] line;
          got = (\<lambda>i old. if i < length vs then scanned_word vs i else old)
      in ub_bind (copy_field ''mac_buf'' 32 (got 0 (lb_mac b))) (\<lambda>mac.
         ub_bind (copy_field ''ip_buf'' 32 (got 1 (lb_ip b))) (\<lambda>ip.
         ub_bind (copy_field ''hostname_buf'' 128 (got 2 (lb_hostname b))) (\<lambda>hostname.
           Inr \<lparr>lb_mac = mac, lb_ip = ip, lb_hostname = hostname\<rparr>))))"

definition lease_client :: "env \<Rightarrow> lease_bufs \<Rightarrow> users \<Rightarrow> (nat \<times> users) ub_result" where
  "lease_client ev b us = (case find_client_node (lb_mac b) us of
      (Some i, us1) \<Rightarrow> Inr (i, us1)
    | (None, us1) \<Rightarrow> (case add_client_node ev (lb_mac b) us1 of
        (None, us2) \<Rightarrow> Inl (NullDeref ''node'')
      | (Some i, us2) \<Rightarrow> Inr (i, at_client i (\<lambda>node. node\<lparr>cn_ip := lb_ip b, cn_online := False,
          cn_offline_time := word_of_int (get_timestamp ev)\<rparr>) us2)))"

definition read_lease :: "env \<Rightarrow> bytes \<Rightarrow> lease_bufs \<times> users \<Rightarrow> (lease_bufs \<times> users) ub_result" where
  "read_lease ev line s = (case s of (b, us) \<Rightarrow>
     if length line \<le> 16 then Inr (b, us)
     else ub_bind (scan_lease line b) (\<lambda>b'. ub_bind (lease_client ev b' us) (\<lambda>(i, us1).
       if lb_hostname b' = [] \<or> hd (lb_hostname b') = 0x2A then Inr (b', us1)
       else Inr (b', at_client i (\<lambda>node. node\<lparr>cn_hostname := take MAX_NAME_SIZE (lb_hostname b')\<rparr>) us1))))"

fun ub_fold :: "('a \<Rightarrow> 's \<Rightarrow> 's ub_result) \<Rightarrow> 'a list \<Rightarrow> 's \<Rightarrow> 's ub_result" where
  "ub_fold f [] s = Inr s"
| "ub_fold f (x # xs) s = ub_bind (f x s) (ub_fold f xs)"

definition update_client_hostname :: "env \<Rightarrow> bytes option \<Rightarrow> users \<Rightarrow> users ub_result" where
  "update_client_hostname ev leases us = (case leases of
      None \<Rightarrow> Inr us
    | Some content \<Rightarrow> ub_bind (ub_fold (read_lease ev) (fgets_lines 255 content)
        (\<lparr>lb_mac = [], lb_ip = [], lb_hostname = []\<rparr>, us)) (\<lambda>(b, us'). Inr us'))"

section \<open>Names\<close>

text \<open>
  The sections of \<^verbatim>\<open>user_info\<close> with the options \<^verbatim>\<open>mac\<close> and \<^verbatim>\<open>nickname\<close>; an option that is missing leaves the
  array of 128 bytes as it was. The name is copied like the one of a lease, with or without a NUL.
\<close>

definition read_nickname :: "bytes option \<times> bytes option \<Rightarrow> (bytes \<times> bytes) \<times> users \<Rightarrow> (bytes \<times> bytes) \<times> users" where
  "read_nickname info s = (case s of ((mac_str, nickname_buf), us) \<Rightarrow>
     let mac = (case fst info of Some m \<Rightarrow> take 127 m | None \<Rightarrow> mac_str) in
     case find_client_node mac us of
       (None, us1) \<Rightarrow> ((mac, nickname_buf), us1)
     | (Some i, us1) \<Rightarrow>
         let nickname = (case snd info of Some n \<Rightarrow> take 127 n | None \<Rightarrow> nickname_buf)
         in ((mac, nickname), at_client i (\<lambda>node. node\<lparr>cn_nickname := take MAX_NAME_SIZE nickname\<rparr>) us1))"

definition update_client_nickname :: "(bytes option \<times> bytes option) list \<Rightarrow> users \<Rightarrow> users" where
  "update_client_nickname user_info us =
     snd (fold read_nickname user_info (([], []), each_client (\<lambda>node. node\<lparr>cn_nickname := []\<rparr>) us))"

section \<open>The listings of the kernel module\<close>

record client_line =
  ln_mac :: bytes
  ln_ip :: bytes
  ln_ipv6 :: bytes
  ln_status :: "u32 option"
  ln_up_rate :: u32
  ln_down_rate :: u32

text \<open>Three formats are tried; \<open>base\<close> words and numbers have been stored before the rates.\<close>

definition client_line_of :: "scanned list \<Rightarrow> nat \<Rightarrow> u32 option \<Rightarrow> client_line option" where
  "client_line_of vs base status =
     (if length vs < 3 then None
      else Some \<lparr>ln_mac = scanned_word vs 1, ln_ip = scanned_word vs 2,
        ln_ipv6 = (if length vs \<ge> 4 then scanned_word vs 3 else []), ln_status = status,
        ln_up_rate = (if length vs \<ge> 5 then scanned_u32 vs base else 0),
        ln_down_rate = (if length vs \<ge> 6 then scanned_u32 vs (base + 1) else 0)\<rparr>)"

definition parse_client_line :: "bytes \<Rightarrow> client_line option" where
  "parse_client_line line =
     (let words = [Conv_number, Conv_max 31, Conv_max 31, Conv_max 127];
          v1 = sscanf (words @ [Skip_number, Conv_number, Conv_number, Conv_number]) line;
          v2 = sscanf (words @ [Skip_number, Conv_number, Conv_number]) line;
          v3 = sscanf (words @ [Conv_number, Conv_number]) line
      in if length v1 = 7 then client_line_of v1 5 (Some (scanned_u32 v1 4))
         else if length v2 = 6 then client_line_of v2 4 None
         else client_line_of v3 4 None)"

definition set_from_line :: "client_line \<Rightarrow> client_node \<Rightarrow> client_node" where
  "set_from_line l node = node\<lparr>cn_ip := ln_ip l, cn_ipv6 := ln_ipv6 l, cn_up_rate := ln_up_rate l,
     cn_down_rate := ln_down_rate l, cn_online := True,
     cn_active := (case ln_status l of None \<Rightarrow> cn_active node | Some status \<Rightarrow> if status \<ge> 2 then 1 else 0)\<rparr>"

definition read_client_line :: "env \<Rightarrow> bytes \<Rightarrow> users \<Rightarrow> users" where
  "read_client_line ev line us = (case parse_client_line line of
      None \<Rightarrow> us
    | Some l \<Rightarrow>
        if length (ln_mac l) < 17 then us
        else case find_or_add_client ev (ln_mac l) us of
          (None, us1) \<Rightarrow> us1
        | (Some i, us1) \<Rightarrow> at_client i (set_from_line l) us1)"

text \<open>The first line is the title.\<close>

definition update_client_from_kernel :: "env \<Rightarrow> bytes option \<Rightarrow> users \<Rightarrow> users" where
  "update_client_from_kernel ev af_client us = (case af_client of
      None \<Rightarrow> us
    | Some content \<Rightarrow> fold (read_client_line ev) (tl (fgets_lines 255 content)) us)"

definition is_invalid_visit_url :: "bytes \<Rightarrow> bool" where
  "is_invalid_visit_url url \<longleftrightarrow> url = [] \<or> strcasecmp_eq url (cstr ''none'') \<or>
     strcasecmp_eq url (cstr ''undefined'') \<or> strcasecmp_eq url (cstr ''null'')"

definition read_visit_line :: "bytes \<Rightarrow> users \<Rightarrow> users" where
  "read_visit_line line us =
     (let vs = sscanf [Conv_max 31, Conv_max 31, Conv_max 63] line in
      if length vs \<noteq> 3 then us
      else case find_client_node (scanned_word vs 0) us of
        (None, us1) \<Rightarrow> us1
      | (Some i, us1) \<Rightarrow> at_client i (\<lambda>node. node\<lparr>
          cn_visiting_url := (if is_invalid_visit_url (scanned_word vs 2) then [] else take 63 (scanned_word vs 2)),
          cn_visiting_app := atoi (scanned_word vs 1)\<rparr>) us1)"

definition update_client_visiting_info :: "bytes option \<Rightarrow> users \<Rightarrow> users" where
  "update_client_visiting_info af_visit us = (case af_visit of
      None \<Rightarrow> us
    | Some content \<Rightarrow> fold read_visit_line (tl (fgets_lines 255 content)) us)"

section \<open>Wireless stations\<close>

text \<open>
  \<open>sh\<close> is \<^verbatim>\<open>get_command_json\<close>: what a command prints, parsed by json-c, \<open>None\<close> for \<^verbatim>\<open>NULL\<close>. The members of an
  object are enumerated by json-c.
\<close>

record 'j json_obj = "'j json_c" +
  json_object_foreach :: "'j \<Rightarrow> (bytes \<times> 'j) list"

text \<open>The member \<open>key\<close>, where it is there and not null.\<close>

definition present :: "('j, 'a) json_c_scheme \<Rightarrow> 'j \<Rightarrow> string \<Rightarrow> 'j option" where
  "present jc object key = (case json_object_object_get jc object (cstr key) of
      None \<Rightarrow> None
    | Some v \<Rightarrow> if json_object_get_type jc v = Json_null then None else Some v)"

definition items_of :: "('j, 'a) json_c_scheme \<Rightarrow> 'j option \<Rightarrow> 'j list" where
  "items_of jc vo = (case vo of
      None \<Rightarrow> []
    | Some v \<Rightarrow> if json_object_get_type jc v \<noteq> Json_array then []
        else map (json_object_array_get_idx jc v) [0..<json_object_array_length jc v])"

definition clear_client_wireless_status :: "users \<Rightarrow> users" where
  "clear_client_wireless_status = each_client (\<lambda>node. node\<lparr>cn_rssi := 0, cn_rx_rate := 0, cn_tx_rate := 0,
     cn_band := [], cn_wifi_ifname := [], cn_wireless_online := False\<rparr>)"

definition find_client_node_nocase :: "bytes \<Rightarrow> users \<Rightarrow> nat option" where
  "find_client_node_nocase mac us =
     (if mac = [] then None else find_at (\<lambda>node. strcasecmp_eq (cn_mac node) mac) (us_clients us))"

definition get_wireless_rate_value :: "('j, 'a) json_c_scheme \<Rightarrow> 'j \<Rightarrow> u32" where
  "get_wireless_rate_value jc rate_obj =
     (if json_object_get_type jc rate_obj \<noteq> Json_object then 0
      else case present jc rate_obj ''rate'' of
        None \<Rightarrow> 0
      | Some v \<Rightarrow>
          if json_object_get_int64 jc v \<le> 0 then 0
          else if json_object_get_int64 jc v > 2 ^ 32 - 1 then 2 ^ 32 - 1
          else word_of_int (json_object_get_int64 jc v))"

definition MAX_WIRELESS_IFACE_NUM :: nat where "MAX_WIRELESS_IFACE_NUM = 32"

definition append_wireless_ifname :: "bytes \<Rightarrow> bytes \<Rightarrow> (bytes \<times> bytes) list \<Rightarrow> (bytes \<times> bytes) list" where
  "append_wireless_ifname ifname band ifs =
     (if ifname = [] then ifs
      else case find_at (\<lambda>p. fst p = ifname) ifs of
        Some i \<Rightarrow> if snd (ifs ! i) = [] \<and> band \<noteq> [] then ifs[i := (fst (ifs ! i), take 15 band)] else ifs
      | None \<Rightarrow> if length ifs \<ge> MAX_WIRELESS_IFACE_NUM then ifs else ifs @ [(take 63 ifname, take 15 band)])"

definition append_ifname_of ::
  "('j, 'a) json_c_scheme \<Rightarrow> bytes \<Rightarrow> 'j \<Rightarrow> (bytes \<times> bytes) list \<Rightarrow> (bytes \<times> bytes) list" where
  "append_ifname_of jc band object ifs = (case present jc object ''ifname'' of
      None \<Rightarrow> ifs
    | Some v \<Rightarrow> append_wireless_ifname (c_string (json_object_get_string jc v)) band ifs)"

definition radio_band :: "('j, 'a) json_c_scheme \<Rightarrow> 'j \<Rightarrow> bytes" where
  "radio_band jc radio =
     (let text_of = (\<lambda>v. take 15 (c_string (json_object_get_string jc v)));
          own = (case present jc radio ''band'' of None \<Rightarrow> [] | Some v \<Rightarrow> text_of v)
      in case present jc radio ''config'' of
        None \<Rightarrow> own
      | Some config \<Rightarrow>
          if json_object_get_type jc config \<noteq> Json_object then own
          else case present jc config ''band'' of None \<Rightarrow> own | Some v \<Rightarrow> text_of v)"

definition collect_iface ::
  "('j, 'a) json_c_scheme \<Rightarrow> bytes \<Rightarrow> 'j \<Rightarrow> (bytes \<times> bytes) list \<Rightarrow> (bytes \<times> bytes) list" where
  "collect_iface jc band iface ifs =
     (if json_object_get_type jc iface \<noteq> Json_object then ifs
      else fold (append_ifname_of jc band)
        (filter (\<lambda>vlan. json_object_get_type jc vlan = Json_object) (items_of jc (present jc iface ''vlans'')))
        (append_ifname_of jc band iface ifs))"

definition collect_wireless_ifnames :: "'j json_obj \<Rightarrow> (bytes \<Rightarrow> 'j option) \<Rightarrow> (bytes \<times> bytes) list" where
  "collect_wireless_ifnames jc sh = (case sh (cstr ''ubus call network.wireless status 2>/dev/null'') of
      None \<Rightarrow> []
    | Some status \<Rightarrow> fold (\<lambda>radio ifs. fold (collect_iface jc (radio_band jc radio)) (items_of jc (present jc radio ''interfaces'')) ifs)
        (filter (\<lambda>radio. json_object_get_type jc radio = Json_object) (map snd (json_object_foreach jc status))) [])"

definition station_client :: "('j, 'a) json_c_scheme \<Rightarrow> bytes \<Rightarrow> bytes \<Rightarrow> 'j \<Rightarrow> client_node \<Rightarrow> client_node" where
  "station_client jc ifname band station node =
     (let rate = (\<lambda>key old. case present jc station key of None \<Rightarrow> old | Some v \<Rightarrow> get_wireless_rate_value jc v)
      in node\<lparr>cn_rssi := (case present jc station ''signal'' of
            Some v \<Rightarrow> json_object_get_int jc v
          | None \<Rightarrow> (case present jc station ''signal_avg'' of Some v \<Rightarrow> json_object_get_int jc v | None \<Rightarrow> 0)),
        cn_rx_rate := rate ''rx'' (cn_rx_rate node), cn_tx_rate := rate ''tx'' (cn_tx_rate node),
        cn_band := (if band = [] then cn_band node else take 15 band),
        cn_wifi_ifname := take 63 ifname, cn_is_wireless := 1, cn_wireless_online := True\<rparr>)"

definition read_station :: "('j, 'a) json_c_scheme \<Rightarrow> env \<Rightarrow> bytes \<Rightarrow> bytes \<Rightarrow> 'j \<Rightarrow> users \<Rightarrow> users" where
  "read_station jc ev ifname band station us =
     (if json_object_get_type jc station \<noteq> Json_object then us
      else case present jc station ''mac'' of
        None \<Rightarrow> us
      | Some v \<Rightarrow>
          let mac = c_string (json_object_get_string jc v) in
          if mac = [] then us
          else case find_client_node_nocase mac us of
            Some i \<Rightarrow> at_client i (station_client jc ifname band station) us
          | None \<Rightarrow> (case add_client_node ev (take (MAX_MAC_LEN - 1) mac) us of
              (None, us1) \<Rightarrow> us1
            | (Some i, us1) \<Rightarrow> at_client i (station_client jc ifname band station) us1))"

definition assoclist_command :: "bytes \<Rightarrow> bytes" where
  "assoclist_command ifname = take 255 (cstr ''ubus call iwinfo assoclist '' @ [0x27] @ cstr ''{'' @ [0x22] @ cstr ''device'' @
     [0x22] @ cstr '':'' @ [0x22] @ ifname @ [0x22] @ cstr ''}'' @ [0x27] @ cstr '' 2>/dev/null'')"

definition update_client_wireless_status_by_ifname ::
  "('j, 'a) json_c_scheme \<Rightarrow> (bytes \<Rightarrow> 'j option) \<Rightarrow> env \<Rightarrow> bytes \<times> bytes \<Rightarrow> users \<Rightarrow> users" where
  "update_client_wireless_status_by_ifname jc sh ev iface us =
     (if fst iface = [] then us
      else case sh (assoclist_command (fst iface)) of
        None \<Rightarrow> us
      | Some assoc \<Rightarrow>
          let results = (case present jc assoc ''results'' of
                Some r \<Rightarrow> Some r
              | None \<Rightarrow> if json_object_get_type jc assoc = Json_array then Some assoc else None)
          in fold (read_station jc ev (fst iface) (snd iface)) (items_of jc results) us)"

definition refresh_client_wireless_status :: "'j json_obj \<Rightarrow> (bytes \<Rightarrow> 'j option) \<Rightarrow> bool \<Rightarrow> env \<Rightarrow> users \<Rightarrow> users" where
  "refresh_client_wireless_status jc sh wireless_support ev us =
     (let us' = clear_client_wireless_status us
      in if \<not> wireless_support then us'
         else fold (update_client_wireless_status_by_ifname jc sh ev) (collect_wireless_ifnames jc sh) us')"

end
