(* ===== verification/Fwxd_User_Backup.thy ===== *)
theory Fwxd_User_Backup
  imports Fwxd_User_Proc
begin

text \<open>
  The files that keep the clients over a restart of the daemon (\<^verbatim>\<open>fwx_user.c\<close>): what is
  written for a client, and how the files are loaded when the daemon starts.
\<close>

section \<open>What is written\<close>

definition get_client_backup_dir :: "env \<Rightarrow> bytes" where
  "get_client_backup_dir ev = snprintf_path 512 (en_client_data_root ev @ cstr ''/client_backup'')"

definition build_client_backup_mac_dir :: "env \<Rightarrow> bytes \<Rightarrow> bytes" where
  "build_client_backup_mac_dir ev mac = snprintf_path 512 (get_client_backup_dir ev @ cstr ''/'' @ mac_to_dirname mac)"

definition build_client_backup_base_info_dir :: "env \<Rightarrow> bytes \<Rightarrow> bytes" where
  "build_client_backup_base_info_dir ev mac = snprintf_path 512 (build_client_backup_mac_dir ev mac @ cstr ''/base_info'')"

definition build_client_backup_file_path :: "env \<Rightarrow> bytes \<Rightarrow> bytes" where
  "build_client_backup_file_path ev mac = snprintf_path 512 (build_client_backup_base_info_dir ev mac @ cstr ''/client.json'')"

definition serialize_online_session_stat :: "online_session \<Rightarrow> json" where
  "serialize_online_session_stat session = JObject [
     (cstr ''up_bytes'', json_u64 (on_up_bytes session)), (cstr ''down_bytes'', json_u64 (on_down_bytes session)),
     (cstr ''online_duration'', json_u64 (on_online_duration session)),
     (cstr ''active_duration'', json_u64 (on_active_duration session)),
     (cstr ''recent_app_count'', JNumber (int (length (on_recent_apps session)))),
     (cstr ''start_time'', json_u32 (on_start_time session)),
     (cstr ''recent_apps'', JArray (map JNumber (take MAX_RECENT_APPS (on_recent_apps session))))]"

definition serialize_daily_stats :: "hourly_stat \<Rightarrow> json" where
  "serialize_daily_stats stat = JObject [
     (cstr ''date'', json_u32 (dh_date stat)), (cstr ''is_today'', JNumber (dh_is_today stat)),
     (cstr ''hourly_top_apps'', JArray (map (\<lambda>i. JArray (map (\<lambda>j. JNumber (dh_top_apps stat ! i ! j)) [0..<TOP_APP_PER_HOUR]))
        [0..<HOURS_PER_DAY])),
     (cstr ''hourly_traffic'', JArray (map (\<lambda>i. traffic_json (dh_traffic stat ! i)) [0..<HOURS_PER_DAY])),
     (cstr ''hourly_online_time'', JArray (map (\<lambda>i. json_u64 (dh_online_time stat ! i)) [0..<HOURS_PER_DAY])),
     (cstr ''hourly_active_time'', JArray (map (\<lambda>i. json_u64 (dh_active_time stat ! i)) [0..<HOURS_PER_DAY]))]"

definition serialize_daily_top_apps_stats :: "env \<Rightarrow> top_apps_stat \<Rightarrow> json" where
  "serialize_daily_top_apps_stats ev stat = JObject [
     (cstr ''date'', json_u32 (dt_date stat)), (cstr ''is_today'', JNumber (dt_is_today stat)),
     (cstr ''count'', JNumber (dt_count stat)),
     (cstr ''apps'', JArray (map (\<lambda>i. case dt_apps stat ! i of (appid, total_time) \<Rightarrow>
        JObject ([(cstr ''appid'', JNumber appid)] @ (if en_app_icon ev appid then [] else [(cstr ''icon'', JNumber 0)]) @
          [(cstr ''total_time'', json_u64 total_time)])) [0..<MAX_TOP_APPS_PER_DAY]))]"

text \<open>
  \<^verbatim>\<open>json_object_new_string\<close> reads to the first NUL. A text that fills its array goes on with the field behind it in
  \<^verbatim>\<open>client_node_t\<close>: the IPv6 address behind the address, the nickname behind the name, the integer \<^verbatim>\<open>online\<close> behind the nickname.
\<close>

definition ip_text :: "client_node \<Rightarrow> bytes" where
  "ip_text client = cn_ip client @ (if length (cn_ip client) < MAX_IP_LEN then [] else cn_ipv6 client)"

definition nickname_text :: "env \<Rightarrow> client_node \<Rightarrow> bytes" where
  "nickname_text ev client = cn_nickname client @
     (if length (cn_nickname client) < MAX_NAME_SIZE \<or> \<not> cn_online client then [] else en_one_text ev)"

definition hostname_text :: "env \<Rightarrow> client_node \<Rightarrow> bytes" where
  "hostname_text ev client = cn_hostname client @
     (if length (cn_hostname client) < MAX_NAME_SIZE then [] else nickname_text ev client)"

definition client_backup_json :: "env \<Rightarrow> client_node \<Rightarrow> json" where
  "client_backup_json ev client = JObject [
     (cstr ''mac'', JString (cn_mac client)), (cstr ''ip'', JString (ip_text client)),
     (cstr ''ipv6'', JString (cn_ipv6 client)), (cstr ''hostname'', JString (hostname_text ev client)),
     (cstr ''nickname'', JString (nickname_text ev client)), (cstr ''expire'', JNumber (cn_expire client)),
     (cstr ''offline_time'', json_u32 (cn_offline_time client)),
     (cstr ''online_time'', json_u32 (cn_online_time client)),
     (cstr ''mf_user_loaded'', JNumber (cn_mf_user_loaded client)),
     (cstr ''is_wireless'', JNumber (cn_is_wireless client)),
     (cstr ''online_session'', serialize_online_session_stat (cn_session client)),
     (cstr ''daily_stats'', serialize_daily_stats (cn_daily client)),
     (cstr ''daily_top_apps_stats'', serialize_daily_top_apps_stats ev (cn_top client))]"

definition save_client_backup_to_file :: "env \<Rightarrow> client_node \<Rightarrow> users \<Rightarrow> users" where
  "save_client_backup_to_file ev client =
     save_json ev (build_client_backup_file_path ev (cn_mac client)) (client_backup_json ev client)"

definition save_all_client_backup_to_files :: "env \<Rightarrow> users \<Rightarrow> users" where
  "save_all_client_backup_to_files ev us = fold (save_client_backup_to_file ev) (us_clients us) us"

section \<open>What is loaded\<close>

text \<open>
  Members are looked up with \<^verbatim>\<open>json_object_object_get_ex\<close>, which finds a member that is null too; its number
  is 0 then. Numbers are cut to the width of their field.
\<close>

definition ex_int :: "('j, 'a) json_c_scheme \<Rightarrow> 'j \<Rightarrow> string \<Rightarrow> int \<Rightarrow> int" where
  "ex_int jc object key old = (case json_object_object_get jc object (cstr key) of
      None \<Rightarrow> old
    | Some v \<Rightarrow> if json_object_get_type jc v = Json_null then 0 else json_object_get_int jc v)"

definition ex_int64 :: "('j, 'a) json_c_scheme \<Rightarrow> 'j \<Rightarrow> string \<Rightarrow> int option" where
  "ex_int64 jc object key = map_option
     (\<lambda>v. if json_object_get_type jc v = Json_null then 0 else json_object_get_int64 jc v)
     (json_object_object_get jc object (cstr key))"

definition ex_u64 :: "('j, 'a) json_c_scheme \<Rightarrow> 'j \<Rightarrow> string \<Rightarrow> u64 \<Rightarrow> u64" where
  "ex_u64 jc object key old = (case ex_int64 jc object key of None \<Rightarrow> old | Some n \<Rightarrow> word_of_int n)"

definition ex_u32 :: "('j, 'a) json_c_scheme \<Rightarrow> 'j \<Rightarrow> string \<Rightarrow> u32 \<Rightarrow> u32" where
  "ex_u32 jc object key old = (case ex_int64 jc object key of None \<Rightarrow> old | Some n \<Rightarrow> word_of_int n)"

text \<open>\<^verbatim>\<open>strncpy\<close> of the text of a member; null has no text. The last byte of the array is zeroed in any case.\<close>

definition ex_string :: "('j, 'a) json_c_scheme \<Rightarrow> 'j \<Rightarrow> string \<Rightarrow> nat \<Rightarrow> bytes \<Rightarrow> bytes ub_result" where
  "ex_string jc object key sz old = (case json_object_object_get jc object (cstr key) of
      None \<Rightarrow> Inr (take (sz - 1) old)
    | Some v \<Rightarrow> if json_object_get_type jc v = Json_null then Inl (NullDeref key)
        else Inr (take (sz - 1) (c_string (json_object_get_string jc v))))"

text \<open>The elements of a member that is an array.\<close>

definition ex_items :: "('j, 'a) json_c_scheme \<Rightarrow> 'j \<Rightarrow> string \<Rightarrow> 'j list" where
  "ex_items jc object key = items_of jc (json_object_object_get jc object (cstr key))"

text \<open>The first elements of an array are written over.\<close>

definition overwrite :: "('j \<Rightarrow> 'a \<Rightarrow> 'a) \<Rightarrow> 'j list \<Rightarrow> 'a list \<Rightarrow> 'a list" where
  "overwrite f vs xs = map2 f (take (length xs) vs) xs @ drop (length vs) xs"

definition elem_int :: "('j, 'a) json_c_scheme \<Rightarrow> 'j \<Rightarrow> int" where
  "elem_int jc v = (if json_object_get_type jc v = Json_null then 0 else json_object_get_int jc v)"

definition elem_u64 :: "('j, 'a) json_c_scheme \<Rightarrow> 'j \<Rightarrow> u64" where
  "elem_u64 jc v = (if json_object_get_type jc v = Json_null then 0 else word_of_int (json_object_get_int64 jc v))"

text \<open>
  The array has five elements, zeros at first, of which \<^verbatim>\<open>recent_app_count\<close> are valid.
\<close>

definition load_online_session_stat_from_json :: "('j, 'a) json_c_scheme \<Rightarrow> 'j \<Rightarrow> online_session" where
  "load_online_session_stat_from_json jc object =
     (let count = nat (max 0 (min (int MAX_RECENT_APPS) (ex_int jc object ''recent_app_count'' 0)));
          apps = overwrite (\<lambda>v _. elem_int jc v) (take count (ex_items jc object ''recent_apps'')) (replicate MAX_RECENT_APPS 0)
      in if json_object_get_type jc object = Json_null then no_session
         else \<lparr>on_up_bytes = ex_u64 jc object ''up_bytes'' 0, on_down_bytes = ex_u64 jc object ''down_bytes'' 0,
           on_online_duration = ex_u64 jc object ''online_duration'' 0,
           on_active_duration = ex_u64 jc object ''active_duration'' 0,
           on_recent_apps = take count apps, on_start_time = ex_u32 jc object ''start_time'' 0\<rparr>)"

definition zero_stat :: hourly_stat where
  "zero_stat = \<lparr>dh_date = 0, dh_is_today = 0, dh_top_apps = no_top_apps, dh_traffic = no_traffic,
     dh_online_time = no_hours, dh_active_time = no_hours\<rparr>"

definition load_top_hour :: "('j, 'a) json_c_scheme \<Rightarrow> 'j \<Rightarrow> int list \<Rightarrow> int list" where
  "load_top_hour jc v apps = overwrite (\<lambda>v _. elem_int jc v) (items_of jc (Some v)) apps"

definition load_traffic :: "('j, 'a) json_c_scheme \<Rightarrow> 'j \<Rightarrow> u64 \<times> u64 \<Rightarrow> u64 \<times> u64" where
  "load_traffic jc v t = (if json_object_get_type jc v = Json_null then t
     else (ex_u64 jc v ''up_bytes'' (fst t), ex_u64 jc v ''down_bytes'' (snd t)))"

definition load_daily_stats_from_json :: "('j, 'a) json_c_scheme \<Rightarrow> 'j \<Rightarrow> hourly_stat" where
  "load_daily_stats_from_json jc object =
     (if json_object_get_type jc object = Json_null then zero_stat
      else \<lparr>dh_date = ex_u32 jc object ''date'' 0, dh_is_today = ex_int jc object ''is_today'' 0,
        dh_top_apps = overwrite (load_top_hour jc) (ex_items jc object ''hourly_top_apps'') no_top_apps,
        dh_traffic = overwrite (load_traffic jc) (ex_items jc object ''hourly_traffic'') no_traffic,
        dh_online_time = overwrite (\<lambda>v _. elem_u64 jc v) (ex_items jc object ''hourly_online_time'') no_hours,
        dh_active_time = overwrite (\<lambda>v _. elem_u64 jc v) (ex_items jc object ''hourly_active_time'') no_hours\<rparr>)"

definition no_apps :: "(int \<times> u64) list" where
  "no_apps = replicate MAX_TOP_APPS_PER_DAY (-1, 0)"

definition load_app :: "('j, 'a) json_c_scheme \<Rightarrow> 'j \<Rightarrow> int \<times> u64 \<Rightarrow> int \<times> u64" where
  "load_app jc v app = (if json_object_get_type jc v = Json_null then app
     else (ex_int jc v ''appid'' (fst app), ex_u64 jc v ''total_time'' (snd app)))"

definition load_daily_top_apps_from_json :: "('j, 'a) json_c_scheme \<Rightarrow> 'j \<Rightarrow> top_apps_stat" where
  "load_daily_top_apps_from_json jc object =
     (if json_object_get_type jc object = Json_null
      then \<lparr>dt_date = 0, dt_is_today = 0, dt_count = 0, dt_apps = no_apps\<rparr>
      else \<lparr>dt_date = ex_u32 jc object ''date'' 0, dt_is_today = ex_int jc object ''is_today'' 0,
        dt_count = max 0 (min (int MAX_TOP_APPS_PER_DAY) (ex_int jc object ''count'' 0)),
        dt_apps = overwrite (load_app jc) (ex_items jc object ''apps'') no_apps\<rparr>)"

definition load_client_fields :: "('j, 'a) json_c_scheme \<Rightarrow> 'j \<Rightarrow> client_node \<Rightarrow> client_node ub_result" where
  "load_client_fields jc object client =
     ub_bind (ex_string jc object ''ip'' MAX_IP_LEN (cn_ip client)) (\<lambda>ip.
     ub_bind (ex_string jc object ''ipv6'' 128 (cn_ipv6 client)) (\<lambda>ipv6.
     ub_bind (ex_string jc object ''hostname'' MAX_NAME_SIZE (cn_hostname client)) (\<lambda>hostname.
     ub_bind (ex_string jc object ''nickname'' MAX_NAME_SIZE (cn_nickname client)) (\<lambda>nickname.
       Inr (client\<lparr>cn_ip := ip, cn_ipv6 := ipv6, cn_hostname := hostname, cn_nickname := nickname,
         cn_expire := ex_int jc object ''expire'' (cn_expire client),
         cn_offline_time := ex_u32 jc object ''offline_time'' (cn_offline_time client),
         cn_online_time := ex_u32 jc object ''online_time'' (cn_online_time client),
         cn_mf_user_loaded := ex_int jc object ''mf_user_loaded'' (cn_mf_user_loaded client),
         cn_is_wireless := ex_int jc object ''is_wireless'' (cn_is_wireless client),
         cn_session := (case json_object_object_get jc object (cstr ''online_session'') of
             None \<Rightarrow> cn_session client | Some v \<Rightarrow> load_online_session_stat_from_json jc v),
         cn_daily := (case json_object_object_get jc object (cstr ''daily_stats'') of
             None \<Rightarrow> cn_daily client | Some v \<Rightarrow> load_daily_stats_from_json jc v),
         cn_top := (case json_object_object_get jc object (cstr ''daily_top_apps_stats'') of
             None \<Rightarrow> cn_top client | Some v \<Rightarrow> load_daily_top_apps_from_json jc v)\<rparr>)))))"

text \<open>A file: \<open>None\<close> when it cannot be read or parsed. What the function returns is not used.\<close>

definition load_client_backup_from_file ::
  "('j, 'a) json_c_scheme \<Rightarrow> env \<Rightarrow> 'j option \<Rightarrow> users \<Rightarrow> users ub_result" where
  "load_client_backup_from_file jc ev file_in us = (case file_in of
      None \<Rightarrow> Inr us
    | Some object \<Rightarrow> (case present jc object ''mac'' of
        None \<Rightarrow> Inr us
      | Some v \<Rightarrow>
          let mac = c_string (json_object_get_string jc v) in
          if mac = [] then Inr us
          else case find_or_add_client ev mac us of
            (None, us1) \<Rightarrow> Inr us1
          | (Some i, us1) \<Rightarrow> ub_bind (load_client_fields jc object (reset_client_runtime_fields (us_clients us1 ! i)))
              (\<lambda>client. Inr (at_client i (\<lambda>_. client) us1))))"

text \<open>
  The directory: each entry is a directory of a client, with its file if it has one, or something else.
  A file of the older layout lies in the directory itself and ends in \<^verbatim>\<open>.json\<close>.
\<close>

datatype 'j dir_entry = Client_dir bytes "'j option option" | Other_entry bytes "'j option"

definition load_dir_entry :: "('j, 'a) json_c_scheme \<Rightarrow> env \<Rightarrow> 'j dir_entry \<Rightarrow> users \<Rightarrow> users ub_result" where
  "load_dir_entry jc ev entry us = (case entry of
      Client_dir name file_in \<Rightarrow>
        if take 1 name = cstr ''.'' then Inr us
        else (case file_in of None \<Rightarrow> Inr us | Some content \<Rightarrow> load_client_backup_from_file jc ev content us)
    | Other_entry name content \<Rightarrow>
        if take 1 name = cstr ''.'' \<or> length name < 6 \<or> drop (length name - 5) name \<noteq> cstr ''.json'' then Inr us
        else load_client_backup_from_file jc ev content us)"

definition load_client_backup_from_files ::
  "('j, 'a) json_c_scheme \<Rightarrow> env \<Rightarrow> 'j dir_entry list option \<Rightarrow> users \<Rightarrow> users ub_result" where
  "load_client_backup_from_files jc ev dir us = (case dir of
      None \<Rightarrow> Inr us
    | Some entries \<Rightarrow> ub_fold (load_dir_entry jc ev) entries us)"

end
