(* ===== verification/Fwxd_History.thy ===== *)
theory Fwxd_History
  imports Fwxd_User_Proc
begin

text \<open>
  The deletion of old data (\<^verbatim>\<open>fwx_user.c\<close>): the files and rows of days that are more than thirty days ago, those that a
  request names, and the oldest rows when the database grows too large.
\<close>

section \<open>Dates in names\<close>

definition literal :: "u8 \<Rightarrow> bytes \<Rightarrow> bytes option" where
  "literal c s = (case s of [] \<Rightarrow> None | x # xs \<Rightarrow> if x = c then Some xs else None)"

text \<open>\<^verbatim>\<open>sscanf\<close> with \<^verbatim>\<open>%d-%d-%d\<close>, all three numbers or nothing.\<close>

definition scan_int :: "bytes \<Rightarrow> (int \<times> bytes) option" where
  "scan_int s = map_option (\<lambda>(n, rest). (to_int32 n, rest)) (scan_number (dropWhile isspace_c s))"

definition scan_date :: "bytes \<Rightarrow> (int \<times> int \<times> int) option" where
  "scan_date s =
     Option.bind (scan_int s) (\<lambda>(year, s1). Option.bind (literal 0x2D s1) (\<lambda>s2.
     Option.bind (scan_int s2) (\<lambda>(mon, s3). Option.bind (literal 0x2D s3) (\<lambda>s4.
       map_option (\<lambda>(mday, s5). (year, mon, mday)) (scan_int s4)))))"

text \<open>0 when it is no date. The flag for daylight saving is 0.\<close>

definition parse_date_string :: "env \<Rightarrow> bytes \<Rightarrow> u32" where
  "parse_date_string ev date_str = (case scan_date date_str of
      None \<Rightarrow> 0
    | Some (year, mon, mday) \<Rightarrow> word_of_int (en_mktime ev \<lparr>tm_sec = 0, tm_min = 0, tm_hour = 0, tm_mday = mday,
        tm_mon = to_int32 (mon - 1), tm_year = to_int32 (year - 1900), tm_wday = 0, tm_isdst = 0\<rparr>))"

text \<open>\<^verbatim>\<open>printf\<close> with zeros in front, to a width that counts the sign.\<close>

definition padded :: "nat \<Rightarrow> int \<Rightarrow> bytes" where
  "padded w n = (if n < 0 then 0x2D # replicate (w - 1 - length (nat_dec (nat (- n)))) 0x30 @ nat_dec (nat (- n))
     else replicate (w - length (nat_dec (nat n))) 0x30 @ nat_dec (nat n))"

fun strip_prefix :: "bytes list \<Rightarrow> bytes \<Rightarrow> bytes" where
  "strip_prefix [] filename = filename"
| "strip_prefix (p # ps) filename =
     (if take (length p) filename = p then drop (length p) filename else strip_prefix ps filename)"

definition extract_date_from_filename :: "bytes \<Rightarrow> bytes option" where
  "extract_date_from_filename filename =
     map_option (\<lambda>(year, mon, mday). take 31 (padded 4 year @ cstr ''-'' @ padded 2 mon @ cstr ''-'' @ padded 2 mday))
       (scan_date (strip_prefix [cstr ''hourly_'', cstr ''top_apps_'', cstr ''traffic_''] filename))"

text \<open>The day of a file, 0 when its name has none; hidden files are passed over.\<close>

definition file_day :: "env \<Rightarrow> bytes \<Rightarrow> u32" where
  "file_day ev name = (if take 1 name = cstr ''.'' then 0
     else case extract_date_from_filename name of None \<Rightarrow> 0 | Some d \<Rightarrow> parse_date_string ev d)"

section \<open>Files\<close>

text \<open>
  The directories are walked as the files lie in them: a file of a client is \<open>base/client/kind/name\<close>, one of all clients
  \<open>root/global/stats/name\<close>.
\<close>

definition below :: "bytes \<Rightarrow> bytes \<Rightarrow> bytes option" where
  "below dir path = (if take (length dir + 1) path = dir @ cstr ''/'' then Some (drop (length dir + 1) path) else None)"

definition first_part :: "bytes \<Rightarrow> bytes" where
  "first_part = takeWhile (\<lambda>c. c \<noteq> 0x2F)"

definition rest_parts :: "bytes \<Rightarrow> bytes" where
  "rest_parts path = drop (Suc (length (first_part path))) path"

definition is_name :: "bytes \<Rightarrow> bool" where
  "is_name name \<longleftrightarrow> name \<noteq> [] \<and> 0x2F \<notin> set name"

definition client_file :: "env \<Rightarrow> bytes \<Rightarrow> (bytes \<times> bytes \<times> bytes) option" where
  "client_file ev path = (case below (get_client_data_base_dir ev) path of
      None \<Rightarrow> None
    | Some r \<Rightarrow> if is_name (rest_parts (rest_parts r))
        then Some (first_part r, first_part (rest_parts r), rest_parts (rest_parts r)) else None)"

definition global_stats_dir :: "env \<Rightarrow> bytes" where
  "global_stats_dir ev = snprintf_path 512 (en_history_data_root ev @ cstr ''/global/stats'')"

definition global_file :: "env \<Rightarrow> bytes \<Rightarrow> bytes option" where
  "global_file ev path = (case below (global_stats_dir ev) path of
      None \<Rightarrow> None
    | Some name \<Rightarrow> if is_name name then Some name else None)"

text \<open>\<open>wanted\<close> is asked for the directory of the client and its kind, and for the day.\<close>

definition client_file_due :: "env \<Rightarrow> (bytes \<Rightarrow> bytes \<Rightarrow> u32 \<Rightarrow> bool) \<Rightarrow> bytes \<Rightarrow> bool" where
  "client_file_due ev wanted path \<longleftrightarrow> en_opendir ev (get_client_data_base_dir ev) \<and>
     (case client_file ev path of
        None \<Rightarrow> False
      | Some (dirname, kind, name) \<Rightarrow>
          take 1 dirname \<noteq> cstr ''.'' \<and> (kind = cstr ''visits'' \<or> kind = cstr ''stats'') \<and>
          en_opendir ev (take (length path - Suc (length name)) path) \<and>
          file_day ev name > 0 \<and> wanted dirname kind (file_day ev name))"

definition global_file_due :: "env \<Rightarrow> (u32 \<Rightarrow> bool) \<Rightarrow> bytes \<Rightarrow> bool" where
  "global_file_due ev wanted path \<longleftrightarrow> en_opendir ev (global_stats_dir ev) \<and>
     (case global_file ev path of
        None \<Rightarrow> False
      | Some name \<Rightarrow> file_day ev name > 0 \<and> wanted (file_day ev name))"

text \<open>A path that does not fit its buffer names no file.\<close>

definition unlink_files :: "env \<Rightarrow> (bytes \<Rightarrow> bool) \<Rightarrow> users \<Rightarrow> users" where
  "unlink_files ev due us =
     us\<lparr>us_files := filter (\<lambda>f. \<not> (due (fst f) \<and> length (fst f) < 512 \<and> en_unlink ev (fst f))) (us_files us)\<rparr>"

section \<open>Rows\<close>

definition delete_rows :: "env \<Rightarrow> (visit_row \<Rightarrow> bool) \<Rightarrow> users \<Rightarrow> users" where
  "delete_rows ev due us =
     (if en_db ev (length (us_db us)) then us\<lparr>us_db := filter (\<lambda>r. \<not> due r) (us_db us)\<rparr> else us)"

definition delete_expired_visit_records :: "env \<Rightarrow> u32 \<Rightarrow> users \<Rightarrow> users" where
  "delete_expired_visit_records ev expire_timestamp = delete_rows ev (\<lambda>r. vr_record_date r < expire_timestamp)"

definition delete_visit_records_in_range :: "env \<Rightarrow> bytes option \<Rightarrow> u32 \<Rightarrow> u32 \<Rightarrow> users \<Rightarrow> users" where
  "delete_visit_records_in_range ev mac start_timestamp end_timestamp =
     delete_rows ev (\<lambda>r. (case mac of None \<Rightarrow> True | Some m \<Rightarrow> vr_mac r = m) \<and>
       start_timestamp \<le> vr_record_date r \<and> vr_record_date r \<le> end_timestamp)"

text \<open>The rows lie in the order of their \<^verbatim>\<open>rowid\<close>; the sort keeps it among the rows of a day.\<close>

definition oldest_rows :: "nat \<Rightarrow> visit_row list \<Rightarrow> nat list" where
  "oldest_rows n rows = take n (sort_key (\<lambda>i. vr_record_date (rows ! i)) [0..<length rows])"

definition delete_oldest_visit_records_batch :: "env \<Rightarrow> int \<Rightarrow> users \<Rightarrow> users" where
  "delete_oldest_visit_records_batch ev batch_count us =
     (if batch_count \<le> 0 \<or> \<not> en_db ev (length (us_db us)) then us
      else us\<lparr>us_db := map ((!) (us_db us))
        (filter (\<lambda>i. i \<notin> set (oldest_rows (nat batch_count) (us_db us))) [0..<length (us_db us)])\<rparr>)"

definition get_visit_record_count :: "env \<Rightarrow> users \<Rightarrow> int" where
  "get_visit_record_count ev us = (if en_db ev (length (us_db us)) then to_int32 (int (length (us_db us))) else -1)"

section \<open>The operations\<close>

definition MAX_RECORD_DAY :: u32 where "MAX_RECORD_DAY = 30"

definition record_limit :: "env \<Rightarrow> u32" where
  "record_limit ev = word_of_int (en_now ev) - MAX_RECORD_DAY * SECONDS_PER_DAY"

definition cleanup_old_record_files :: "env \<Rightarrow> users \<Rightarrow> users" where
  "cleanup_old_record_files ev us =
     (if en_localtime ev (en_now ev) = None then us
      else let us1 = delete_expired_visit_records ev (record_limit ev) us in
        if \<not> en_opendir ev (get_client_data_base_dir ev) then us1
        else unlink_files ev (global_file_due ev (\<lambda>day. day < record_limit ev))
          (unlink_files ev (client_file_due ev (\<lambda>_ _ day. day < record_limit ev)) us1))"

definition range_start :: "env \<Rightarrow> bytes option \<Rightarrow> u32" where
  "range_start ev start_date = (case start_date of
      None \<Rightarrow> 0
    | Some s \<Rightarrow> if s = [] then 0 else if 0x2D \<in> set s then parse_date_string ev s else word_of_int (atoi s))"

definition range_end :: "env \<Rightarrow> bytes option \<Rightarrow> u32" where
  "range_end ev end_date = (case end_date of
      None \<Rightarrow> - 1
    | Some s \<Rightarrow> if s = [] then - 1
        else if 0x2D \<in> set s then parse_date_string ev s + SECONDS_PER_DAY - 1 else word_of_int (atoi s))"

text \<open>The directory of the base data is opened before the rows are deleted; it does not matter for them.\<close>

definition delete_client_record_files ::
  "env \<Rightarrow> bytes option \<Rightarrow> bytes option \<Rightarrow> bytes option \<Rightarrow> bytes option \<Rightarrow> users \<Rightarrow> users" where
  "delete_client_record_files ev mac start_date end_date delete_type us =
     (let lo = range_start ev start_date; hi = range_end ev end_date;
          delete_visits = (delete_type \<noteq> Some (cstr ''stats'')); delete_stats = (delete_type \<noteq> Some (cstr ''visits''));
          specific = (case mac of None \<Rightarrow> None | Some m \<Rightarrow> if m = [] then None else Some m);
          us1 = (if delete_visits then delete_visit_records_in_range ev specific lo hi us else us);
          us2 = unlink_files ev (client_file_due ev (\<lambda>dirname kind day.
              (case specific of None \<Rightarrow> True | Some m \<Rightarrow> dirname = mac_to_dirname m) \<and>
              (if kind = cstr ''visits'' then delete_visits else delete_stats) \<and> lo \<le> day \<and> day \<le> hi)) us1
      in if delete_stats \<and> specific = None then unlink_files ev (global_file_due ev (\<lambda>day. lo \<le> day \<and> day \<le> hi)) us2
         else us2)"

definition fwx_api_delete_record_files :: "('j, 'a) json_c_scheme \<Rightarrow> env \<Rightarrow> 'j \<Rightarrow> users \<Rightarrow> users" where
  "fwx_api_delete_record_files jc ev req_obj =
     (let text_of = (\<lambda>key. map_option (\<lambda>v. c_string (json_object_get_string jc v)) (present jc req_obj key))
      in delete_client_record_files ev (text_of ''mac'') (text_of ''start_date'') (text_of ''end_date'') (text_of ''type''))"

text \<open>
  \<open>history_data_size\<close> is the option of the configuration in megabytes, \<open>db_size\<close> the size of the file of the database. After the
  deletion the file is compacted, which changes no row.
\<close>

definition check_and_cleanup_history_data_by_size :: "env \<Rightarrow> bytes option \<Rightarrow> u64 option \<Rightarrow> users \<Rightarrow> users" where
  "check_and_cleanup_history_data_by_size ev history_data_size db_size us =
     (case (history_data_size, db_size) of
        (Some s, Some old_size) \<Rightarrow>
          (case strtol_10 (take 63 s) of (max_size_mb, rest, _) \<Rightarrow>
             if s = [] \<or> rest \<noteq> [] \<or> max_size_mb \<le> 0 then us
             else if old_size \<le> word_of_int max_size_mb * 1024 * 1024 then us
             else let n = get_visit_record_count ev us
               in if n \<le> 0 then us
                  else delete_oldest_visit_records_batch ev (if n div 4 \<le> 0 then 1 else n div 4) us)
      | _ \<Rightarrow> us)"

end
