(* ===== verification/Fwxd_User_Step.thy ===== *)
theory Fwxd_User_Step
  imports Fwxd_User_Backup Fwxd_History Fwxd_Feature
begin

text \<open>
  The steps of the daemon that change its clients: the reading of all sources every ten seconds and the report of a
  client that the kernel module sends (\<^verbatim>\<open>fwx_user.c\<close>, \<^verbatim>\<open>fwx_netlink.c\<close>), and the timer (\<^verbatim>\<open>main.c\<close>).
\<close>

section \<open>Who has come and who has gone\<close>

definition online_change :: "env \<Rightarrow> bool \<Rightarrow> nat \<Rightarrow> users \<Rightarrow> users" where
  "online_change ev is_bypass_mode i us =
     (let node = us_clients us ! i; now = word_of_int (get_timestamp ev);
          is_online = cn_online node; was_online = cn_last_online_state node;
          us' = (if \<not> was_online \<and> is_online then
              at_client i (\<lambda>node. (reset_online_session_stat now (node\<lparr>cn_online_time := now\<rparr>))
                \<lparr>cn_session_online_recorded := False\<rparr>) us
            else if was_online \<and> \<not> is_online then
              let us1 = at_client i (\<lambda>node. node\<lparr>cn_offline_time := now\<rparr>) us;
                  us2 = (if cn_session_online_recorded node then add_user_record ev (us_clients us1 ! i) 1 now us1
                    else us1);
                  us3 = at_client i (\<lambda>node. node\<lparr>cn_session_online_recorded := False\<rparr>) us2
              in save_client_backup_to_file ev (us_clients us3 ! i) us3
            else if is_online \<and> \<not> cn_session_online_recorded node \<and> (is_bypass_mode \<or> cn_active node \<noteq> 0) then
              at_client i (\<lambda>node. node\<lparr>cn_session_online_recorded := True\<rparr>) (add_user_record ev node 0 now us)
            else us)
      in at_client i (\<lambda>node. node\<lparr>cn_last_online_state := is_online\<rparr>) us')"

text \<open>
  What the daemon finds in files, in its configuration, and with commands; \<open>in_work_mode\<close> is the
  number that \<^verbatim>\<open>uci\<close> gives for the work mode, \<open>in_history_size\<close> the option for the size of the database, and \<open>in_db_size\<close> its
  size.
\<close>

record 'j inputs =
  in_leases :: "bytes option"
  in_user_info :: "(bytes option \<times> bytes option) list"
  in_af_client :: "bytes option"
  in_af_visit :: "bytes option"
  in_work_mode :: int
  in_wireless_support :: bool
  in_command :: "bytes \<Rightarrow> 'j option"
  in_history_size :: "bytes option"
  in_db_size :: "u64 option"

definition update_client_online_status :: "'j json_obj \<Rightarrow> env \<Rightarrow> 'j inputs \<Rightarrow> users \<Rightarrow> users" where
  "update_client_online_status jc ev inp us =
     (let us1 = update_client_from_kernel ev (in_af_client inp) us;
          us2 = refresh_client_wireless_status jc (in_command inp) (in_wireless_support inp) ev us1
      in for_clients (online_change ev (in_work_mode inp = 1)) (each_client wireless_decides us2))"

definition update_client_list :: "'j json_obj \<Rightarrow> env \<Rightarrow> 'j inputs \<Rightarrow> users \<Rightarrow> users ub_result" where
  "update_client_list jc ev inp us =
     ub_bind (update_client_hostname ev (in_leases inp) (clean_client_online_status ev us)) (\<lambda>us1.
       Inr (update_client_visiting_info (in_af_visit inp)
         (update_client_online_status jc ev inp (update_client_nickname (in_user_info inp) us1))))"

section \<open>The report of a client\<close>

definition REPORT_INTERVAL_SECS :: u64 where "REPORT_INTERVAL_SECS = 60"

definition member_int :: "('j, 'a) json_c_scheme \<Rightarrow> 'j \<Rightarrow> string \<Rightarrow> int" where
  "member_int jc object key = (case present jc object key of None \<Rightarrow> 0 | Some v \<Rightarrow> json_object_get_int jc v)"

definition member_flow :: "('j, 'a) json_c_scheme \<Rightarrow> 'j \<Rightarrow> string \<Rightarrow> u64" where
  "member_flow jc object key = (case present jc object key of None \<Rightarrow> 0
     | Some v \<Rightarrow> word_of_int (json_object_get_int64 jc v) * 1024)"

text \<open>An address of 32 bytes or more is cut, and fills its array without a NUL.\<close>

definition report_fields :: "('j, 'a) json_c_scheme \<Rightarrow> 'j \<Rightarrow> client_node \<Rightarrow> client_node" where
  "report_fields jc root node =
     node\<lparr>cn_ip := (case present jc root ''ip'' of None \<Rightarrow> cn_ip node
         | Some v \<Rightarrow> take MAX_IP_LEN (c_string (json_object_get_string jc v))),
       cn_ipv6 := (case present jc root ''ipv6'' of None \<Rightarrow> [] | Some v \<Rightarrow> take 127 (c_string (json_object_get_string jc v))),
       cn_active := (case present jc root ''active'' of None \<Rightarrow> cn_active node | Some v \<Rightarrow> json_object_get_int jc v)\<rparr>"

definition add_at :: "nat \<Rightarrow> 'a :: plus \<Rightarrow> 'a list \<Rightarrow> 'a list" where
  "add_at i d xs = xs[i := xs ! i + d]"

definition add_traffic_at :: "nat \<Rightarrow> u64 \<Rightarrow> u64 \<Rightarrow> (u64 \<times> u64) list \<Rightarrow> (u64 \<times> u64) list" where
  "add_traffic_at i up down xs = xs[i := (fst (xs ! i) + up, snd (xs ! i) + down)]"

definition report_hour :: "env \<Rightarrow> int" where
  "report_hour ev = (case en_localtime ev (en_now ev) of None \<Rightarrow> -1 | Some t \<Rightarrow> tm_hour t)"

text \<open>The times of the hour and of the session, then the traffic of the hour, of all clients, and of the session.\<close>

definition report_activity :: "env \<Rightarrow> nat \<Rightarrow> users \<Rightarrow> users" where
  "report_activity ev i us =
     (let h = nat (report_hour ev) in
      at_client i (\<lambda>node.
        let stat = cn_daily node;
            stat1 = (if cn_online node then stat\<lparr>dh_online_time := add_at h REPORT_INTERVAL_SECS (dh_online_time stat)\<rparr> else stat);
            stat2 = (if cn_active node = 1 then stat1\<lparr>dh_active_time := add_at h REPORT_INTERVAL_SECS (dh_active_time stat1)\<rparr> else stat1)
        in update_online_session_activity 60 (if cn_active node = 1 then 60 else 0) (node\<lparr>cn_daily := stat2\<rparr>))
      (get_today_stat ev i us))"

definition report_traffic :: "env \<Rightarrow> nat \<Rightarrow> u64 \<Rightarrow> u64 \<Rightarrow> users \<Rightarrow> users" where
  "report_traffic ev i up down us =
     (let h = nat (report_hour ev);
          us1 = at_client i (\<lambda>node. node\<lparr>cn_daily := (cn_daily node)\<lparr>dh_traffic :=
            add_traffic_at h up down (dh_traffic (cn_daily node))\<rparr>\<rparr>) us;
          us2 = reset_global_traffic ev us1
      in us2\<lparr>us_traffic := add_traffic_at h up down (us_traffic us2)\<rparr>)"

definition report_times :: "env \<Rightarrow> nat \<Rightarrow> u64 \<Rightarrow> u64 \<Rightarrow> users \<Rightarrow> users" where
  "report_times ev i up down us =
     (let hour_ok = (0 \<le> report_hour ev \<and> report_hour ev < int HOURS_PER_DAY);
          us1 = (if hour_ok then report_activity ev i us else us);
          us2 = (if hour_ok \<and> (up > 0 \<or> down > 0) then report_traffic ev i up down us1 else us1)
      in at_client i (update_online_session_flow up down) us2)"

text \<open>The time of the application, and its visit.\<close>

definition stat_visit :: "env \<Rightarrow> int \<Rightarrow> client_node \<Rightarrow> client_node" where
  "stat_visit ev appid node =
     (if \<exists>e\<in>set (cn_stat_list node). fst e = appid
      then node\<lparr>cn_stat_list := update_first (\<lambda>e. fst e = appid) (\<lambda>e. (fst e, snd e + REPORT_INTERVAL_SECS)) (cn_stat_list node)\<rparr>
      else if en_calloc ev Visit_stat (length (cn_stat_list node))
      then node\<lparr>cn_stat_list := (appid, REPORT_INTERVAL_SECS) # cn_stat_list node\<rparr>
      else node)"

definition same_visit :: "int \<Rightarrow> int \<Rightarrow> user_visit \<Rightarrow> bool" where
  "same_visit appid action v \<longleftrightarrow> uv_appid v = appid \<and> uv_action v = action"

definition touch_visit :: "env \<Rightarrow> int \<Rightarrow> int \<Rightarrow> client_node \<Rightarrow> client_node" where
  "touch_visit ev appid action node =
     (let now = word_of_int (en_now ev) in
      if \<exists>v\<in>set (cn_online_visit node). same_visit appid action v
      then node\<lparr>cn_online_visit := update_first (same_visit appid action) (\<lambda>v. v\<lparr>uv_latest_time := now\<rparr>) (cn_online_visit node)\<rparr>
      else if en_calloc ev Visit_info (length (cn_online_visit node))
      then node\<lparr>cn_online_visit := add_visit_info_node \<lparr>uv_appid = appid, uv_first_time = now, uv_latest_time = now,
        uv_action = action, uv_expire = False\<rparr> (cn_online_visit node)\<rparr>
      else node)"

definition report_app :: "env \<Rightarrow> nat \<Rightarrow> int \<times> int \<Rightarrow> users \<Rightarrow> users" where
  "report_app ev i visit us = (case visit of (appid, action) \<Rightarrow>
     if appid mod 1000 \<le> 0 \<or> appid div 1000 \<le> 0 then us
     else at_client i (touch_visit ev appid action)
       (update_global_app_type_stats ev appid REPORT_INTERVAL_SECS
         (at_client i (\<lambda>node. stat_visit ev appid (update_online_session_recent_app appid node)) us)))"

definition report_visits :: "('j, 'a) json_c_scheme \<Rightarrow> 'j \<Rightarrow> (int \<times> int) list" where
  "report_visits jc root = (case present jc root ''visit_info'' of None \<Rightarrow> []
     | Some v \<Rightarrow> map (\<lambda>i. let visit_obj = json_object_array_get_idx jc v i
         in (member_int jc visit_obj ''appid'', member_int jc visit_obj ''latest_action'')) [0..<json_object_array_length jc v])"

text \<open>For two minutes after the start of the day only the fields are taken over.\<close>

definition day_begins :: "env \<Rightarrow> bool" where
  "day_begins ev \<longleftrightarrow> (let now = word_of_int (en_now ev); today_start = get_today_start_timestamp ev
     in now \<ge> today_start \<and> now - today_start < 120)"

definition handle_report :: "('j, 'a) json_c_scheme \<Rightarrow> env \<Rightarrow> 'j \<Rightarrow> users \<Rightarrow> users" where
  "handle_report jc ev root us = (case present jc root ''mac'' of
      None \<Rightarrow> us
    | Some v \<Rightarrow> (case find_or_add_client ev (c_string (json_object_get_string jc v)) us of
        (None, us1) \<Rightarrow> us1
      | (Some i, us1) \<Rightarrow>
          let us2 = at_client i (report_fields jc root) us1 in
          if day_begins ev then us2
          else fold (report_app ev i) (report_visits jc root)
            (report_times ev i (member_flow jc root ''up_flow'') (member_flow jc root ''down_flow'') us2)))"

text \<open>
  \<open>ret\<close> is the result of \<^verbatim>\<open>recvmsg\<close>, \<open>buf\<close> the buffer of 4096 bytes, and \<open>tok\<close> is \<^verbatim>\<open>json_tokener_parse\<close>, which gets
  what is behind the two headers, up to a NUL.
\<close>

definition fwx_netlink_handler ::
  "('j, 'a) json_c_scheme \<Rightarrow> (bytes \<Rightarrow> 'j option) \<Rightarrow> env \<Rightarrow> int \<Rightarrow> bytes \<Rightarrow> users \<Rightarrow> users ub_result" where
  "fwx_netlink_handler jc tok ev ret buf us =
     (let len = sint (get_le32 (drop 20 buf)) in
      if ret \<le> 0 then Inr us
      else if get_le32 (drop 16 buf) \<noteq> 0xa0b0c0d0 then Inr us
      else if len \<le> 0 \<or> len \<ge> 1024 then Inr us
      else case tok (c_string (drop 24 buf)) of
        None \<Rightarrow> Inr us
      | Some root \<Rightarrow> Inr (handle_report jc ev root us))"

section \<open>The timer\<close>

definition archive_all :: "env \<Rightarrow> users \<Rightarrow> users" where
  "archive_all ev us =
     (let today = get_today_start_timestamp ev
      in archive_globals ev (for_clients (archive_client ev today (today - SECONDS_PER_DAY)) us))"

definition check_and_archive_all_clients :: "env \<Rightarrow> users \<Rightarrow> users" where
  "check_and_archive_all_clients ev us =
     (if en_localtime ev (en_now ev) = None then us
      else cleanup_old_record_files ev (save_all_client_backup_to_files ev (archive_all ev us)))"

definition daily_archive_handle :: "env \<Rightarrow> users \<Rightarrow> users" where
  "daily_archive_handle ev us = (case en_localtime ev (en_now ev) of
      None \<Rightarrow> us
    | Some t \<Rightarrow> (if us_last_mday us \<noteq> -1 \<and> us_last_mday us \<noteq> tm_mday t then check_and_archive_all_clients ev us else us)
        \<lparr>us_last_mday := tm_mday t\<rparr>)"

definition CLIENT_BACKUP_SYNC_INTERVAL_SEC :: int where "CLIENT_BACKUP_SYNC_INTERVAL_SEC = 600"

definition expire_clients :: "env \<Rightarrow> users \<Rightarrow> users" where
  "expire_clients ev us = (case check_client_expire_user ev us of
     (n, us1) \<Rightarrow> if n \<noteq> 0 then flush_expire_client_node us1 else us1)"

text \<open>
  The list of clients in \<^verbatim>\<open>/tmp/dev_list\<close>, those that are online first. Name and address go through arrays of the size of
  their fields by \<^verbatim>\<open>strcpy\<close>, which overflows them when a field has no NUL.
\<close>

definition MAX_SUPPORT_DEV_NUM :: nat where "MAX_SUPPORT_DEV_NUM = 64"

definition left_aligned :: "nat \<Rightarrow> bytes \<Rightarrow> bytes" where
  "left_aligned n s = s @ replicate (n - length s) 0x20"

definition dev_row :: "bytes list \<Rightarrow> bytes" where
  "dev_row columns = concat (map2 (\<lambda>n s. left_aligned n s @ [0x20]) [4, 20, 20, 32, 8, 12] columns) @ left_aligned 12 (last columns) @ [0x0A]"

definition dev_title :: bytes where
  "dev_title = dev_row [cstr ''Id'', cstr ''Mac Addr'', cstr ''Ip Addr'', cstr ''Hostname'', cstr ''Online'', cstr ''OnlineTime'', cstr ''OfflineTime'']"

fun dev_rows :: "env \<Rightarrow> int \<Rightarrow> client_node list \<Rightarrow> bytes list ub_result" where
  "dev_rows ev count [] = Inr []"
| "dev_rows ev count (node # nodes) =
     ub_bind (copy_field ''hostname_buf'' MAX_NAME_SIZE (if cn_hostname node = [] then cstr ''*'' else hostname_text ev node)) (\<lambda>hostname.
     ub_bind (copy_field ''ip_buf'' MAX_IP_LEN (if cn_ip node = [] then cstr ''*'' else ip_text node)) (\<lambda>ip.
     ub_bind (dev_rows ev (count + 1) nodes) (\<lambda>rows.
       Inr (dev_row [print_number (count + 1), cn_mac node, ip, hostname, print_number (of_bool (cn_online node)),
         print_number (uint (cn_online_time node)), print_number (uint (cn_offline_time node))] # rows))))"

definition listed_clients :: "users \<Rightarrow> client_node list" where
  "listed_clients us = take MAX_SUPPORT_DEV_NUM (filter cn_online (us_clients us) @ filter (\<lambda>node. \<not> cn_online node) (us_clients us))"

definition dump_client_list :: "env \<Rightarrow> users \<Rightarrow> bytes option ub_result" where
  "dump_client_list ev us =
     (if \<not> en_fopen ev (cstr ''/tmp/dev_list'') then Inr None
      else ub_bind (dev_rows ev 0 (listed_clients us)) (\<lambda>rows. Inr (Some (dev_title @ concat rows))))"

text \<open>What \<^verbatim>\<open>fwx_timeout_handler\<close> does to the clients; it runs every second.\<close>

definition every_20_seconds :: "env \<Rightarrow> 'j inputs \<Rightarrow> users \<Rightarrow> users ub_result" where
  "every_20_seconds ev inp us =
     (let us1 = expire_clients ev (daily_archive_handle ev us) in
      ub_bind (dump_client_list ev us1) (\<lambda>dev_list.
        Inr (check_and_cleanup_history_data_by_size ev (in_history_size inp) (in_db_size inp) (cleanup_expired_hourly_stats ev us1))))"

definition fwx_timeout_handler :: "'j json_obj \<Rightarrow> env \<Rightarrow> 'j inputs \<Rightarrow> users \<Rightarrow> users ub_result" where
  "fwx_timeout_handler jc ev inp us =
     (let count = us_count us + 1; us0 = us\<lparr>us_count := count\<rparr> in
      ub_bind (if count mod 10 = 0
        then ub_bind (update_client_list jc ev inp us0) (\<lambda>us1. Inr (move_expired_online_visit_to_offline ev us1))
        else Inr us0) (\<lambda>us1.
      ub_bind (if count mod 20 = 0 then every_20_seconds ev inp us1 else Inr us1) (\<lambda>us2.
        Inr (if count mod CLIENT_BACKUP_SYNC_INTERVAL_SEC = 0 then save_all_client_backup_to_files ev us2 else us2))))"

end
