(* ===== verification/Fwxd_User_Correct.thy ===== *)
theory Fwxd_User_Correct
  imports Fwxd_User_Step
begin

text \<open>
  The state of the daemon's clients: its invariant, kept by every step, and that comings and goings alternate.
\<close>

section \<open>Addresses\<close>

definition mac_ok :: "bytes \<Rightarrow> bool" where
  "mac_ok m \<longleftrightarrow> m \<noteq> [] \<and> length m \<le> 31 \<and> map tolower_ascii m = m"

lemma tolower_idem: "tolower_ascii (tolower_ascii c) = tolower_ascii c"
proof (cases "0x41 \<le> c \<and> c \<le> 0x5A")
  case True
  then have "unat (c + 0x20) = unat c + 0x20" by (simp add: word_le_nat_alt unat_word_ariths)
  then show ?thesis using True by (simp add: tolower_ascii_def word_le_nat_alt)
qed (auto simp: tolower_ascii_def)

lemma normalize_lower: "map tolower_ascii (normalize_mac_lower m) = normalize_mac_lower m"
  by (simp add: normalize_mac_lower_def tolower_idem take_map o_def)

lemma normalize_ok: "m \<noteq> [] \<Longrightarrow> mac_ok (normalize_mac_lower m)"
  using normalize_lower [of m] by (auto simp: mac_ok_def normalize_mac_lower_def MAX_MAC_LEN_def)

lemma normalize_id: "mac_ok m \<Longrightarrow> normalize_mac_lower m = m"
  by (simp add: mac_ok_def normalize_mac_lower_def MAX_MAC_LEN_def)

lemma strcasecmp_normal: "mac_ok a \<Longrightarrow> strcasecmp_eq a (normalize_mac_lower m) \<longleftrightarrow> a = normalize_mac_lower m"
  by (simp add: strcasecmp_eq_def mac_ok_def normalize_lower)

section \<open>Lists with positions\<close>

lemma find_at_Some: "find_at P xs = Some i \<Longrightarrow> i < length xs \<and> P (xs ! i)"
  by (induction xs arbitrary: i) (auto split: if_splits)

lemma find_at_None: "find_at P xs = None \<longleftrightarrow> (\<forall>x\<in>set xs. \<not> P x)"
  by (induction xs) auto

lemma find_at_first: "find_at P xs = Some i \<Longrightarrow> j < i \<Longrightarrow> \<not> P (xs ! j)"
proof (induction xs arbitrary: i j)
  case (Cons x xs)
  then show ?case by (cases j) (auto split: if_splits)
qed simp

lemma map_list_update_id: "g (f (xs ! i)) = g (xs ! i) \<Longrightarrow> map g (xs[i := f (xs ! i)]) = map g xs"
  by (cases "i < length xs") (simp_all add: map_update list_update_same_conv list_update_beyond)

lemma update_first_map: "(\<And>x. P x \<Longrightarrow> g (f x) = g x) \<Longrightarrow> map g (update_first P f xs) = map g xs"
  by (induction xs) auto

lemma fold_keeps: "P s \<Longrightarrow> (\<And>x s. x \<in> set xs \<Longrightarrow> P s \<Longrightarrow> P (f x s)) \<Longrightarrow> P (fold f xs s)"
  by (induction xs arbitrary: s) auto

lemma ub_fold_keeps:
  "ub_fold f xs s = Inr s' \<Longrightarrow> P s \<Longrightarrow> (\<And>x s s'. x \<in> set xs \<Longrightarrow> P s \<Longrightarrow> f x s = Inr s' \<Longrightarrow> P s') \<Longrightarrow> P s'"
proof (induction xs arbitrary: s)
  case (Cons x xs)
  then obtain s1 where "f x s = Inr s1" "ub_fold f xs s1 = Inr s'" by (auto simp: ub_bind_Inr)
  then show ?case using Cons.IH Cons.prems(2,3) by (meson list.set_intros)
qed simp

section \<open>The invariant\<close>

definition session_ok :: "online_session \<Rightarrow> bool" where
  "session_ok s \<longleftrightarrow> length (on_recent_apps s) \<le> MAX_RECENT_APPS"

definition daily_ok :: "hourly_stat \<Rightarrow> bool" where
  "daily_ok s \<longleftrightarrow> length (dh_top_apps s) = 24 \<and> list_all (\<lambda>a. length a = 3) (dh_top_apps s) \<and>
     length (dh_traffic s) = 24 \<and> length (dh_online_time s) = 24 \<and> length (dh_active_time s) = 24"

definition top_ok :: "top_apps_stat \<Rightarrow> bool" where
  "top_ok s \<longleftrightarrow> 0 \<le> dt_count s \<and> dt_count s \<le> 10 \<and> length (dt_apps s) = 10"

text \<open>
  Every text stays in its array; the address and the two names may fill theirs. A visit is known by its application and
  action.
\<close>

definition client_ok :: "client_node \<Rightarrow> bool" where
  "client_ok c \<longleftrightarrow> mac_ok (cn_mac c) \<and> length (cn_ip c) \<le> 32 \<and> length (cn_ipv6 c) < 128 \<and>
     length (cn_hostname c) \<le> 64 \<and> length (cn_nickname c) \<le> 64 \<and> length (cn_band c) < 16 \<and>
     length (cn_wifi_ifname c) < 64 \<and> length (cn_visiting_url c) < 64 \<and>
     distinct (map (\<lambda>v. (uv_appid v, uv_action v)) (cn_online_visit c)) \<and> distinct (map fst (cn_stat_list c)) \<and>
     session_ok (cn_session c) \<and> daily_ok (cn_daily c) \<and> top_ok (cn_top c)"

definition users_ok :: "users \<Rightarrow> bool" where
  "users_ok us \<longleftrightarrow> (\<forall>c\<in>set (us_clients us). client_ok c) \<and> distinct (map cn_mac (us_clients us)) \<and>
     us_cur_user_num us = int (length (us_clients us)) \<and> length (us_records us) \<le> MAX_USER_RECORDS \<and>
     length (us_type_stats us) = 16 \<and> length (us_traffic us) = 24"

lemmas user_limits = MAX_RECENT_APPS_def MAX_USER_RECORDS_def HOURS_PER_DAY_def TOP_APP_PER_HOUR_def
  MAX_TOP_APPS_PER_DAY_def MAX_APP_STAT_NUM_def MAX_MAC_LEN_def MAX_IP_LEN_def MAX_NAME_SIZE_def MAX_APP_TYPE_def

lemma users_okD: "users_ok us \<Longrightarrow> i < length (us_clients us) \<Longrightarrow> client_ok (us_clients us ! i)"
  by (simp add: users_ok_def)

text \<open>Everything but the clients.\<close>

lemma users_ok_rest:
  "users_ok us \<Longrightarrow> us_clients us' = us_clients us \<Longrightarrow> us_cur_user_num us' = us_cur_user_num us \<Longrightarrow>
    length (us_records us') \<le> MAX_USER_RECORDS \<Longrightarrow> length (us_type_stats us') = 16 \<Longrightarrow> length (us_traffic us') = 24 \<Longrightarrow>
    users_ok us'"
  by (simp add: users_ok_def)

lemma at_client_ok:
  assumes "users_ok us" and "\<And>c. client_ok c \<Longrightarrow> client_ok (f c)" and "\<And>c. cn_mac (f c) = cn_mac c"
  shows "users_ok (at_client i f us)"
proof (cases "i < length (us_clients us)")
  case True
  have "client_ok c" if "c \<in> set ((us_clients us)[i := f (us_clients us ! i)])" for c
    using set_update_subset_insert [of "us_clients us" i "f (us_clients us ! i)"] that assms(1,2) users_okD [OF assms(1) True]
    by (auto simp: users_ok_def)
  then show ?thesis
    using assms(1) by (simp add: users_ok_def at_client_def map_list_update_id assms(3))
next
  case False
  then show ?thesis using assms(1) by (simp add: at_client_def users_ok_def list_update_beyond)
qed

lemma each_client_ok:
  assumes "users_ok us" and "\<And>c. client_ok c \<Longrightarrow> client_ok (f c)" and "\<And>c. cn_mac (f c) = cn_mac c"
  shows "users_ok (each_client f us)"
  using assms by (simp add: users_ok_def each_client_def o_def)

lemma for_clients_ok:
  "users_ok us \<Longrightarrow> (\<And>i us. users_ok us \<Longrightarrow> users_ok (step i us)) \<Longrightarrow> users_ok (for_clients step us)"
  unfolding for_clients_def by (rule fold_keeps)

text \<open>A client that is found has the address, in the form in which all addresses are kept.\<close>

lemma find_client_node_ok:
  assumes "users_ok us" and "find_client_node mac us = (r, us')"
  shows "us' = us \<and> (case r of
      None \<Rightarrow> mac = [] \<or> normalize_mac_lower mac \<notin> cn_mac ` set (us_clients us)
    | Some i \<Rightarrow> mac \<noteq> [] \<and> i < length (us_clients us) \<and> cn_mac (us_clients us ! i) = normalize_mac_lower mac)"
proof (cases "mac = []")
  case False
  let ?P = "\<lambda>p. strcasecmp_eq (cn_mac p) (normalize_mac_lower mac)"
  have P: "?P p \<longleftrightarrow> cn_mac p = normalize_mac_lower mac" if "p \<in> set (us_clients us)" for p
    using assms(1) that by (simp add: users_ok_def client_ok_def strcasecmp_normal)
  show ?thesis
  proof (cases "find_at ?P (us_clients us)")
    case None
    then show ?thesis
      using assms(2) False P unfolding find_at_None by (auto simp: find_client_node_def None)
  next
    case (Some i)
    have i: "i < length (us_clients us)" "cn_mac (us_clients us ! i) = normalize_mac_lower mac"
      using P [of "us_clients us ! i"] find_at_Some [OF Some] by auto
    then have "find_client_node mac us = (Some i, us)" using False by (simp add: find_client_node_def Some)
    then show ?thesis using assms(2) False i by simp
  qed
qed (use assms(2) in \<open>auto simp: find_client_node_def\<close>)

lemma new_client_ok: "mac_ok mac \<Longrightarrow> client_ok (new_client_node ev mac)"
  by (simp add: client_ok_def new_client_node_def session_ok_def daily_ok_def top_ok_def no_session_def no_top_apps_def
      no_traffic_def no_hours_def user_limits list_all_iff)

text \<open>The list after a client was looked up and, if necessary, added.\<close>

definition added_client :: "env \<Rightarrow> bytes \<Rightarrow> users \<Rightarrow> users" where
  "added_client ev mac us = us\<lparr>us_clients := new_client_node ev (normalize_mac_lower mac) # us_clients us,
     us_cur_user_num := us_cur_user_num us + 1\<rparr>"

lemma added_client_ok:
  assumes "users_ok us" and "mac \<noteq> []" and "normalize_mac_lower mac \<notin> cn_mac ` set (us_clients us)"
  shows "users_ok (added_client ev mac us)"
proof -
  have "cn_mac (new_client_node ev m) = m" for m by (simp add: new_client_node_def)
  then show ?thesis
    using assms new_client_ok [OF normalize_ok [OF assms(2)]] by (auto simp: users_ok_def added_client_def)
qed

lemma add_client_node_ok:
  assumes "users_ok us" and "add_client_node ev mac us = (r, us')" and "mac \<noteq> []"
  obtains (old) i where "us' = us" "r = Some i" "i < length (us_clients us)" "cn_mac (us_clients us ! i) = normalize_mac_lower mac"
    | (none) "us' = us" "r = None" "\<not> en_calloc ev Client_node (length (us_clients us))"
    | (new) "us' = added_client ev mac us" "r = Some 0" "normalize_mac_lower mac \<notin> cn_mac ` set (us_clients us)"
        "en_calloc ev Client_node (length (us_clients us))"
proof -
  have n: "normalize_mac_lower (normalize_mac_lower mac) = normalize_mac_lower mac" "normalize_mac_lower mac \<noteq> []"
    using normalize_ok [OF assms(3)] normalize_id by (auto simp: mac_ok_def)
  obtain r1 us1 where f: "find_client_node (normalize_mac_lower mac) us = (r1, us1)" by fastforce
  note found = find_client_node_ok [OF assms(1) f] 
  show thesis
  proof (cases r1)
    case None
    then show thesis
      using found n assms(2,3) f new none by (auto simp: add_client_node_def added_client_def split: if_splits)
  next
    case (Some i)
    then show thesis using found n assms(2,3) f old by (auto simp: add_client_node_def)
  qed
qed

lemma find_or_add_ok:
  assumes "users_ok us" and "find_or_add_client ev mac us = (r, us')"
  obtains (none) "us' = us" "r = None" "mac = [] \<or> \<not> en_calloc ev Client_node (length (us_clients us))"
    | (old) i where "us' = us" "r = Some i" "i < length (us_clients us)" "cn_mac (us_clients us ! i) = normalize_mac_lower mac"
    | (new) "us' = added_client ev mac us" "r = Some 0" "mac \<noteq> []" "normalize_mac_lower mac \<notin> cn_mac ` set (us_clients us)"
proof -
  obtain r1 us1 where f: "find_client_node mac us = (r1, us1)" by fastforce
  note found = find_client_node_ok [OF assms(1) f] 
  show thesis
  proof (cases r1)
    case None
    then have r: "add_client_node ev mac us = (r, us')" using assms(2) f found by (simp add: find_or_add_client_def)
    show thesis
    proof (cases "mac = []")
      case True
      then show thesis using r none by (simp add: add_client_node_def)
    next
      case False
      show thesis by (rule add_client_node_ok [OF assms(1) r False]) (use none old new False in blast)+
    qed
  next
    case (Some i)
    then show thesis using found assms(2) f old by (auto simp: find_or_add_client_def)
  qed
qed

lemma added_client_clients [simp]:
  "us_clients (added_client ev mac us) = new_client_node ev (normalize_mac_lower mac) # us_clients us"
  by (simp add: added_client_def)

lemma find_or_add_users_ok:
  assumes "users_ok us" and "find_or_add_client ev mac us = (r, us')"
  shows "users_ok us' \<and> (\<forall>i. r = Some i \<longrightarrow> i < length (us_clients us'))"
  by (rule find_or_add_ok [OF assms]) (use assms(1) in \<open>simp_all add: added_client_ok\<close>)

lemma add_client_users_ok:
  assumes "users_ok us" and "add_client_node ev mac us = (r, us')"
  shows "users_ok us' \<and> (\<forall>i. r = Some i \<longrightarrow> i < length (us_clients us'))"
proof (cases "mac = []")
  case False
  show ?thesis
    by (rule add_client_node_ok [OF assms False]) (use assms(1) False in \<open>simp_all add: added_client_ok\<close>)
qed (use assms in \<open>auto simp: add_client_node_def\<close>)

section \<open>What the steps keep\<close>

lemma save_json_clients [simp]: "us_clients (save_json ev path content us) = us_clients us"
  by (simp add: save_json_def)

lemma save_daily_clients [simp]: "us_clients (save_daily_stats_to_file ev c date us) = us_clients us"
  by (simp add: save_daily_stats_to_file_def)

lemma save_top_clients [simp]: "us_clients (save_daily_top_apps_stats_to_file ev c date us) = us_clients us"
  by (simp add: save_daily_top_apps_stats_to_file_def)

text \<open>
  A law \<open>Q\<close> about the records and about what \<open>g\<close> sees of each client, that a new client does
  not break. The steps that do not decide who is online keep it; those between the two loops of the list keep
  it when \<open>g\<close> does not see who is online.
\<close>

locale presence =
  fixes g :: "bool \<Rightarrow> bool \<Rightarrow> bool \<Rightarrow> int \<Rightarrow> 'p" and Q :: "user_record list \<Rightarrow> (bytes \<times> 'p) list \<Rightarrow> bool"
  assumes new: "Q rs ps \<Longrightarrow> m \<notin> fst ` set ps \<Longrightarrow> Q rs ((m, g False False False 0) # ps)"
begin

definition seen :: "client_node \<Rightarrow> bytes \<times> 'p" where
  "seen c = (cn_mac c, g (cn_session_online_recorded c) (cn_online c) (cn_last_online_state c) (cn_expire c))"

definition kept :: "users \<Rightarrow> bool" where
  "kept us \<longleftrightarrow> users_ok us \<and> Q (us_records us) (map seen (us_clients us))"

definition keeps :: "(client_node \<Rightarrow> client_node) \<Rightarrow> bool" where
  "keeps f \<longleftrightarrow> (\<forall>c. (client_ok c \<longrightarrow> client_ok (f c)) \<and> cn_mac (f c) = cn_mac c \<and> seen (f c) = seen c)"

lemma kept_users_ok: "kept us \<Longrightarrow> users_ok us"
  by (simp add: kept_def)

lemma keeps_comp: "keeps f \<Longrightarrow> keeps h \<Longrightarrow> keeps (\<lambda>c. f (h c))"
  by (simp add: keeps_def)

lemma keeps_if: "keeps f \<Longrightarrow> keeps h \<Longrightarrow> keeps (\<lambda>c. if P c then f c else h c)"
  by (simp add: keeps_def)

lemma at_client_kept: "kept us \<Longrightarrow> keeps f \<Longrightarrow> kept (at_client i f us)"
  unfolding kept_def keeps_def by (rule conjI, rule at_client_ok) (simp_all add: at_client_def map_list_update_id)

lemma at_client_kept_at:
  assumes "kept us" and "client_ok (us_clients us ! i) \<Longrightarrow> client_ok (f (us_clients us ! i))"
    and "cn_mac (f (us_clients us ! i)) = cn_mac (us_clients us ! i)" and "seen (f (us_clients us ! i)) = seen (us_clients us ! i)"
  shows "kept (at_client i f us)"
proof -
  let ?f = "\<lambda>c. if c = us_clients us ! i then f c else c"
  have "at_client i f us = at_client i ?f us" by (simp add: at_client_def)
  moreover have "kept (at_client i ?f us)" by (rule at_client_kept [OF assms(1)]) (use assms(2-) in \<open>auto simp: keeps_def\<close>)
  ultimately show ?thesis by simp
qed

lemma each_client_kept: "kept us \<Longrightarrow> keeps f \<Longrightarrow> kept (each_client f us)"
  unfolding kept_def keeps_def by (rule conjI, rule each_client_ok) (simp_all add: each_client_def o_def)

lemma rest_kept:
  "kept us \<Longrightarrow> us_clients us' = us_clients us \<Longrightarrow> us_cur_user_num us' = us_cur_user_num us \<Longrightarrow>
    us_records us' = us_records us \<Longrightarrow> length (us_type_stats us') = length (us_type_stats us) \<Longrightarrow>
    length (us_traffic us') = length (us_traffic us) \<Longrightarrow> kept us'"
  by (simp add: kept_def users_ok_def)

lemma for_clients_kept: "kept us \<Longrightarrow> (\<And>i us. kept us \<Longrightarrow> kept (step i us)) \<Longrightarrow> kept (for_clients step us)"
  unfolding for_clients_def by (rule fold_keeps)

lemma added_kept:
  assumes "kept us" and "mac \<noteq> []" and "normalize_mac_lower mac \<notin> cn_mac ` set (us_clients us)"
  shows "kept (added_client ev mac us)"
proof -
  have "seen (new_client_node ev m) = (m, g False False False 0)" for m by (simp add: seen_def new_client_node_def)
  moreover have "normalize_mac_lower mac \<notin> fst ` set (map seen (us_clients us))"
    using assms(3) by (auto simp: seen_def)
  moreover have "us_records (added_client ev mac us) = us_records us" by (simp add: added_client_def)
  ultimately show ?thesis using assms new added_client_ok by (simp add: kept_def)
qed

lemma find_kept: "kept us \<Longrightarrow> find_client_node mac us = (r, us') \<Longrightarrow> kept us'"
  using find_client_node_ok kept_users_ok by blast

lemma find_or_add_kept:
  assumes "kept us" and "find_or_add_client ev mac us = (r, us')" shows "kept us'"
  by (rule find_or_add_ok [OF kept_users_ok [OF assms(1)] assms(2)]) (use assms(1) in \<open>simp_all add: added_kept\<close>)

lemma add_kept: assumes "kept us" and "add_client_node ev mac us = (r, us')" shows "kept us'"
proof (cases "mac = []")
  case False
  show ?thesis
    by (rule add_client_node_ok [OF kept_users_ok [OF assms(1)] assms(2) False]) (use assms(1) False in \<open>simp_all add: added_kept\<close>)
qed (use assms in \<open>simp add: add_client_node_def\<close>)

lemma save_json_kept: "kept us \<Longrightarrow> kept (save_json ev path content us)"
  by (simp add: save_json_def rest_kept)

lemma save_daily_kept: "kept us \<Longrightarrow> kept (save_daily_stats_to_file ev c date us)"
  by (simp add: save_daily_stats_to_file_def save_json_kept)

lemma save_top_kept: "kept us \<Longrightarrow> kept (save_daily_top_apps_stats_to_file ev c date us)"
  by (simp add: save_daily_top_apps_stats_to_file_def save_json_kept)

lemma get_today_stat_kept: "kept us \<Longrightarrow> kept (get_today_stat ev i us)"
  by (auto simp: get_today_stat_def Let_def init_daily_stats_default_def seen_def client_ok_def daily_ok_def no_top_apps_def
      no_traffic_def no_hours_def user_limits list_all_iff intro!: at_client_kept_at save_daily_kept)

lemma get_today_top_kept: "kept us \<Longrightarrow> kept (get_today_top_apps_stat ev i us)"
  by (auto simp: get_today_top_apps_stat_def Let_def init_daily_top_apps_default_def seen_def client_ok_def top_ok_def
      user_limits intro!: at_client_kept_at save_top_kept)

text \<open>Reports.\<close>

lemma keeps_fields: "keeps (report_fields jc root)"
  by (auto simp: keeps_def report_fields_def client_ok_def seen_def user_limits split: option.split)

lemma keeps_flow: "keeps (update_online_session_flow up down)"
  by (simp add: keeps_def update_online_session_flow_def client_ok_def session_ok_def seen_def)

lemma keeps_recent: "keeps (update_online_session_recent_app appid)"
  by (auto simp: keeps_def update_online_session_recent_app_def session_push_recent_app_def client_ok_def session_ok_def
      seen_def user_limits length_remove1 min_def)

lemma keeps_stat: "keeps (stat_visit ev appid)"
  by (auto simp: keeps_def stat_visit_def client_ok_def seen_def update_first_map [where g = fst])

lemma keeps_touch: "keeps (touch_visit ev appid action)"
proof -
  let ?k = "\<lambda>v. (uv_appid v, uv_action v)"
  have m: "map ?k (update_first P (\<lambda>v. v\<lparr>uv_latest_time := t\<rparr>) vs) = map ?k vs" for P t and vs :: "user_visit list"
    by (rule update_first_map) simp
  show ?thesis
    by (auto simp: keeps_def touch_visit_def client_ok_def seen_def add_visit_info_node_def same_visit_def Let_def m)
qed

lemma report_activity_kept: "kept us \<Longrightarrow> kept (report_activity ev i us)"
  unfolding report_activity_def Let_def
  by (rule at_client_kept, erule get_today_stat_kept)
    (simp add: keeps_def client_ok_def session_ok_def seen_def daily_ok_def add_at_def update_online_session_activity_def)

lemma reset_traffic_kept: "kept us \<Longrightarrow> kept (reset_global_traffic ev us)"
  by (simp add: reset_global_traffic_def kept_def users_ok_def no_traffic_def user_limits)

lemma report_traffic_kept:
  assumes "kept us" shows "kept (report_traffic ev i up down us)"
proof -
  let ?f = "\<lambda>node. node\<lparr>cn_daily := (cn_daily node)\<lparr>dh_traffic :=
            add_traffic_at (nat (report_hour ev)) up down (dh_traffic (cn_daily node))\<rparr>\<rparr>"
  have "keeps ?f" by (simp add: keeps_def client_ok_def seen_def daily_ok_def add_traffic_at_def)
  then have "kept (reset_global_traffic ev (at_client i ?f us))" by (intro reset_traffic_kept at_client_kept assms)
  then show ?thesis unfolding report_traffic_def Let_def by (rule rest_kept) (simp_all add: add_traffic_at_def)
qed

lemma report_times_kept: "kept us \<Longrightarrow> kept (report_times ev i up down us)"
  unfolding report_times_def Let_def
  by (intro at_client_kept keeps_flow) (simp add: report_activity_kept report_traffic_kept)

lemma type_stats_kept: "kept us \<Longrightarrow> kept (update_global_app_type_stats ev appid secs us)"
  by (auto simp: update_global_app_type_stats_def Let_def kept_def users_ok_def user_limits)

lemma report_app_kept: "kept us \<Longrightarrow> kept (report_app ev i visit us)"
  unfolding report_app_def
  by (auto intro!: at_client_kept type_stats_kept keeps_touch keeps_comp [OF keeps_stat keeps_recent] split: prod.split)

lemma report_apps_kept: "kept us \<Longrightarrow> kept (fold (report_app ev i) vs us)"
  by (rule fold_keeps) (simp_all add: report_app_kept)

lemma handle_report_kept: "kept us \<Longrightarrow> kept (handle_report jc ev root us)"
  using find_or_add_kept [of us]
  by (auto simp: handle_report_def Let_def report_apps_kept report_times_kept at_client_kept keeps_fields
      split: option.split prod.split)

lemma netlink_kept: "kept us \<Longrightarrow> fwx_netlink_handler jc tok ev ret buf us = Inr us' \<Longrightarrow> kept us'"
  by (auto simp: fwx_netlink_handler_def Let_def handle_report_kept split: if_splits option.splits)

text \<open>Visits that are over, and the change of the day.\<close>

lemma save_visit_kept: "kept us \<Longrightarrow> kept (save_visit_record_to_db ev mac v us)"
  by (simp add: save_visit_record_to_db_def rest_kept)

lemma keeps_visit: "keeps (\<lambda>node. node\<lparr>cn_visit := w node\<rparr>)"
  by (simp add: keeps_def client_ok_def seen_def)

lemma finish_visit_kept: "kept us \<Longrightarrow> kept (finish_visit ev i v us)"
  by (simp add: finish_visit_def Let_def save_visit_kept at_client_kept keeps_visit)

lemma fold_finish_kept: "kept us \<Longrightarrow> kept (fold (finish_visit ev i) vs us)"
  by (rule fold_keeps) (simp_all add: finish_visit_kept)

lemma move_expired_kept: "kept us \<Longrightarrow> kept (move_expired_online_visit_to_offline ev us)"
  unfolding move_expired_online_visit_to_offline_def move_expired_visits_def Let_def
  by (rule for_clients_kept, assumption, rule fold_finish_kept, rule at_client_kept_at)
    (simp_all add: client_ok_def seen_def distinct_map_filter)

lemma save_visits_kept: "kept us \<Longrightarrow> kept (save_client_visit_data_to_file ev c date us)"
  by (simp add: save_client_visit_data_to_file_def Let_def rest_kept)

lemma archive_client_kept: "kept us \<Longrightarrow> kept (archive_client ev today yesterday i us)"
  unfolding archive_client_def Let_def
  by (rule at_client_kept)
    (auto simp: keeps_def client_ok_def seen_def init_daily_stats_default_def init_daily_top_apps_default_def
      daily_ok_def top_ok_def no_top_apps_def no_traffic_def no_hours_def user_limits list_all_iff archive_visits_def
      intro!: save_top_kept save_daily_kept save_visits_kept fold_finish_kept at_client_kept)

lemma stat_date_kept: "kept us \<Longrightarrow> kept (us\<lparr>us_type_stats := replicate (nat MAX_APP_TYPE) 0, us_stat_date := today\<rparr>)"
  by (simp add: kept_def users_ok_def MAX_APP_TYPE_def)

lemma save_traffic_kept: "kept us \<Longrightarrow> kept (save_global_traffic_stats_to_file ev date us)"
  by (simp add: save_global_traffic_stats_to_file_def save_json_kept)

lemma archive_globals_kept: "kept us \<Longrightarrow> kept (archive_globals ev us)"
proof -
  have "kept (us\<lparr>us_type_records := []\<rparr>)" if "kept us" for us by (rule rest_kept [OF that]) simp_all
  moreover assume "kept us"
  ultimately show ?thesis
    unfolding archive_globals_def Let_def
    using stat_date_kept save_traffic_kept reset_traffic_kept by (simp split: if_split)
qed

lemma unlink_kept: "kept us \<Longrightarrow> kept (unlink_files ev due us)"
  by (simp add: unlink_files_def rest_kept)

lemma delete_rows_kept: "kept us \<Longrightarrow> kept (delete_rows ev due us)"
  by (simp add: delete_rows_def rest_kept)

lemma history_kept:
  assumes "kept us"
  shows "kept (cleanup_old_record_files ev us)" "kept (delete_client_record_files ev mac s e ty us)"
    "kept (check_and_cleanup_history_data_by_size ev sz db us)"
proof -
  have batch: "kept (delete_oldest_visit_records_batch ev n us)" for n
    using assms by (simp add: delete_oldest_visit_records_batch_def rest_kept)
  show "kept (cleanup_old_record_files ev us)" "kept (delete_client_record_files ev mac s e ty us)"
    using assms by (simp_all add: cleanup_old_record_files_def delete_client_record_files_def delete_expired_visit_records_def
      delete_visit_records_in_range_def Let_def unlink_kept delete_rows_kept)
  show "kept (check_and_cleanup_history_data_by_size ev sz db us)"
    using assms batch by (auto simp: check_and_cleanup_history_data_by_size_def Let_def split: option.split prod.split)
qed

lemma archive_kept:
  assumes "kept us" shows "kept (check_and_archive_all_clients ev us)"
proof -
  have "kept (for_clients (archive_client ev today yesterday) us)" for today yesterday
    by (rule for_clients_kept [OF assms]) (rule archive_client_kept)
  then have "kept (archive_all ev us)" unfolding archive_all_def Let_def by (rule archive_globals_kept)
  then have "kept (fold (save_client_backup_to_file ev) cs (archive_all ev us))" for cs
    by (rule fold_keeps) (simp add: save_client_backup_to_file_def save_json_kept)
  then show ?thesis using assms by (simp add: check_and_archive_all_clients_def save_all_client_backup_to_files_def history_kept)
qed

lemma mday_kept: "kept us \<Longrightarrow> kept (us\<lparr>us_last_mday := m\<rparr>)"
  by (simp add: kept_def users_ok_def)

lemma daily_archive_kept: "kept us \<Longrightarrow> kept (daily_archive_handle ev us)"
  by (simp add: daily_archive_handle_def archive_kept mday_kept split: option.split)

text \<open>What a client visits.\<close>

lemma visit_line_kept: "kept us \<Longrightarrow> kept (read_visit_line line us)"
proof -
  assume us: "kept us"
  have k: "keeps (\<lambda>node. node\<lparr>cn_visiting_url := u, cn_visiting_app := a\<rparr>)" if "length u < 64" for u a
    using that by (simp add: keeps_def client_ok_def seen_def)
  have "length (if b then [] else take 63 u) < 64" for b and u :: bytes by (simp add: min_less_iff_disj)
  note url = k [OF this]
  obtain r us1 where f: "find_client_node (scanned_word (sscanf [Conv_max 31, Conv_max 31, Conv_max 63] line) 0) us = (r, us1)"
    by fastforce
  show ?thesis
    by (cases r) (simp_all add: read_visit_line_def Let_def f us find_kept [OF us f] at_client_kept url)
qed

lemma visiting_kept: "kept us \<Longrightarrow> kept (update_client_visiting_info af_visit us)"
  by (auto simp: update_client_visiting_info_def visit_line_kept intro: fold_keeps split: option.split)

text \<open>The tables of applications.\<close>

lemma add_duration_length: "length (add_app_duration_to_hour_stats hour appid d ts) = length ts"
  by (simp add: add_app_duration_to_hour_stats_def)

lemma fold_duration_length:
  "length (fold (\<lambda>(hour, d). add_app_duration_to_hour_stats hour appid d) ss ts) = length ts"
  by (induction ss arbitrary: ts) (auto simp: add_duration_length)

lemma accumulate_visits_length: "accumulate_visits ev vs ts = Some ts' \<Longrightarrow> length ts' = length ts"
  by (induction vs arbitrary: ts)
    (auto simp: Option.bind_eq_Some_conv accumulate_visit_to_hour_stats_def fold_duration_length split: if_splits)

lemma hour_top_length: "length (hour_top qsort t) = 3"
  by (simp add: hour_top_def Let_def TOP_APP_PER_HOUR_def)

lemma hourly_top_kept: "kept us \<Longrightarrow> update_hourly_top_apps qsort ev i us = Some us' \<Longrightarrow> kept us'"
  by (auto simp: update_hourly_top_apps_def Let_def keeps_def client_ok_def seen_def daily_ok_def list_all_iff
      hour_top_length HOURS_PER_DAY_def dest!: accumulate_visits_length intro!: at_client_kept get_today_stat_kept)

lemma daily_top_kept: "kept us \<Longrightarrow> kept (update_daily_top_apps qsort ev i us)"
proof -
  have len: "length (filter P (take MAX_TOP_APPS_PER_DAY t)) \<le> 10" for P and t :: app_table
    by (rule order_trans [OF length_filter_le]) (simp add: MAX_TOP_APPS_PER_DAY_def)
  then have "length (if b then [] else filter P (take MAX_TOP_APPS_PER_DAY t)) \<le> 10" for b P and t :: app_table
    by simp
  then show "kept us \<Longrightarrow> kept (update_daily_top_apps qsort ev i us)"
    unfolding update_daily_top_apps_def Let_def
    by (intro at_client_kept get_today_top_kept)
      (auto simp: keeps_def client_ok_def seen_def top_ok_def MAX_TOP_APPS_PER_DAY_def)
qed

end

section \<open>Texts of bounded length\<close>

fun stored :: "conversion list \<Rightarrow> conversion list" where
  "stored [] = []"
| "stored (c # cs) = (case c of Skip_number \<Rightarrow> stored cs | Skip_word \<Rightarrow> stored cs | _ \<Rightarrow> c # stored cs)"

lemma sscanf_blank: "dropWhile isspace_c s = [] \<Longrightarrow> sscanf cs s = []"
  by (cases cs) (simp_all only: sscanf.simps Let_def if_True simp_thms)

lemma sscanf_Cons:
  assumes "dropWhile isspace_c s = t" and "t \<noteq> []"
  shows "sscanf (c # cs) s = (case c of
       Conv_number \<Rightarrow> (case scan_number t of None \<Rightarrow> [] | Some (n, rest) \<Rightarrow> Scanned_number n # sscanf cs rest)
     | Skip_number \<Rightarrow> (case scan_number t of None \<Rightarrow> [] | Some (n, rest) \<Rightarrow> sscanf cs rest)
     | Conv_word \<Rightarrow> Scanned_word (take (word_len t) t) # sscanf cs (drop (word_len t) t)
     | Conv_max n \<Rightarrow> Scanned_word (take (min n (word_len t)) t) # sscanf cs (drop (min n (word_len t)) t)
     | Skip_word \<Rightarrow> sscanf cs (drop (word_len t) t))"
  using assms(2) unfolding sscanf.simps(2) assms(1) Let_def by simp

lemma sscanf_stored:
  "i < length (sscanf cs s) \<Longrightarrow> i < length (stored cs) \<and>
     (\<forall>n. stored cs ! i = Conv_max n \<longrightarrow> (\<exists>w. sscanf cs s ! i = Scanned_word w \<and> length w \<le> n))"
proof (induction cs arbitrary: s i)
  case (Cons c cs)
  obtain t where t: "dropWhile isspace_c s = t" by simp
  then have "t \<noteq> []" using Cons.prems sscanf_blank by fastforce
  note eq = sscanf_Cons [OF t this]
  show ?case
  proof (cases c)
    case Conv_number
    then obtain n rest where "scan_number t = Some (n, rest)"
      using Cons.prems by (cases "scan_number t") (auto simp: eq)
    then show ?thesis using Cons Conv_number by (cases i) (auto simp: eq)
  next
    case Skip_number
    then obtain n rest where "scan_number t = Some (n, rest)"
      using Cons.prems by (cases "scan_number t") (auto simp: eq)
    then show ?thesis using Cons Skip_number by (auto simp: eq)
  next
    case Conv_word
    then show ?thesis using Cons by (cases i) (auto simp: eq)
  next
    case (Conv_max n)
    then show ?thesis using Cons by (cases i) (auto simp: eq)
  next
    case Skip_word
    then show ?thesis using Cons by (auto simp: eq)
  qed
qed simp

lemma parse_client_line_lengths:
  assumes "parse_client_line line = Some l" shows "length (ln_ip l) < 32 \<and> length (ln_ipv6 l) < 128"
proof -
  let ?w = "[Conv_number, Conv_max 31, Conv_max 31, Conv_max 127]"
  have w: "length (scanned_word (sscanf (?w @ cs) line) 2) < 32"
    "length (scanned_word (sscanf (?w @ cs) line) 3) < 128" if "length (sscanf (?w @ cs) line) \<ge> 4" for cs
    using sscanf_stored [of 2 "?w @ cs" line] sscanf_stored [of 3 "?w @ cs" line] that
    by (auto simp: scanned_word_def eval_nat_numeral)
  have w3: "length (scanned_word (sscanf (?w @ cs) line) 2) < 32" if "length (sscanf (?w @ cs) line) \<ge> 3" for cs
    using sscanf_stored [of 2 "?w @ cs" line] that by (auto simp: scanned_word_def eval_nat_numeral)
  show ?thesis
    using assms w w3 unfolding parse_client_line_def Let_def
    by (auto simp: client_line_of_def split: if_splits)
qed

section \<open>Between the two loops\<close>

locale last_presence = presence +
  assumes online_free: "g r on l e = g r on' l e"
begin

lemma keeps_line: "parse_client_line line = Some l \<Longrightarrow> keeps (set_from_line l)"
  using parse_client_line_lengths online_free
  by (fastforce simp: keeps_def client_ok_def set_from_line_def seen_def)

lemma keeps_offline: "length ip < 32 \<Longrightarrow> keeps (\<lambda>node. node\<lparr>cn_ip := ip, cn_online := False, cn_offline_time := t\<rparr>)"
  using online_free by (auto simp: keeps_def client_ok_def seen_def)

lemma keeps_wireless: "keeps wireless_decides"
  using online_free by (auto simp: keeps_def client_ok_def seen_def wireless_decides_def)

lemma keeps_station: "keeps (station_client jc ifname band station)"
  by (auto simp: keeps_def client_ok_def seen_def station_client_def Let_def)

lemma client_line_kept: "kept us \<Longrightarrow> kept (read_client_line ev line us)"
  using find_or_add_kept [of us ev]
  by (auto simp: read_client_line_def at_client_kept keeps_line split: option.split prod.split)

lemma from_kernel_kept: "kept us \<Longrightarrow> kept (update_client_from_kernel ev af_client us)"
  by (auto simp: update_client_from_kernel_def client_line_kept intro: fold_keeps split: option.split)

lemma lease_client_kept:
  assumes "kept us" and "length (lb_ip b) < 32" and "lease_client ev b us = Inr (i, us')" shows "kept us'"
  using assms find_kept [OF assms(1)] add_kept
  by (fastforce simp: lease_client_def at_client_kept keeps_offline split: option.splits prod.splits)

lemma keeps_hostname: "length h \<le> 64 \<Longrightarrow> keeps (\<lambda>node. node\<lparr>cn_hostname := h\<rparr>)"
  by (simp add: keeps_def client_ok_def seen_def)

lemma read_lease_kept:
  assumes "kept us" and "read_lease ev line (b, us) = Inr (c, us')" shows "kept us'"
proof (cases "length line \<le> 16")
  case False
  obtain b' i us1 where b': "scan_lease line b = Inr b'" and us1: "lease_client ev b' us = Inr (i, us1)"
    and r: "us' = us1 \<or> us' = at_client i (\<lambda>node. node\<lparr>cn_hostname := take 64 (lb_hostname b')\<rparr>) us1"
    using assms(2) False by (auto simp: read_lease_def ub_bind_Inr MAX_NAME_SIZE_def split: if_splits)
  have "length (lb_ip b') < 32"
    using b' by (auto simp: scan_lease_def Let_def ub_bind_Inr copy_field_Inr)
  then have "kept us1" by (rule lease_client_kept [OF assms(1) _ us1])
  then show ?thesis using r at_client_kept keeps_hostname by auto
qed (use assms in \<open>simp add: read_lease_def\<close>)

lemma hostname_kept:
  assumes "kept us" and "update_client_hostname ev leases us = Inr us'" shows "kept us'"
proof (cases leases)
  case (Some content)
  then obtain b where f: "ub_fold (read_lease ev) (fgets_lines 255 content)
      (\<lparr>lb_mac = [], lb_ip = [], lb_hostname = []\<rparr>, us) = Inr (b, us')"
    using assms(2) by (auto simp: update_client_hostname_def ub_bind_Inr)
  have "kept (snd (b, us'))"
    by (rule ub_fold_keeps [OF f, where P = "\<lambda>s. kept (snd s)"]) (use assms(1) read_lease_kept in auto)
  then show ?thesis by simp
qed (use assms in \<open>simp add: update_client_hostname_def\<close>)

lemma keeps_nickname: "length n \<le> 64 \<Longrightarrow> keeps (\<lambda>node. node\<lparr>cn_nickname := n\<rparr>)"
  by (simp add: keeps_def client_ok_def seen_def)

lemma read_nickname_kept:
  assumes "kept us" shows "kept (snd (read_nickname info (b, us)))"
  using find_kept [OF assms]
  by (cases b) (auto simp: read_nickname_def Let_def MAX_NAME_SIZE_def at_client_kept keeps_nickname split: prod.split option.split)

lemma nickname_kept:
  assumes "kept us" shows "kept (update_client_nickname user_info us)"
  unfolding update_client_nickname_def
proof (rule fold_keeps [where P = "\<lambda>s. kept (snd s)"])
  show "kept (snd (([], []), each_client (\<lambda>node. node\<lparr>cn_nickname := []\<rparr>) us))"
    by (simp add: each_client_kept assms keeps_nickname)
qed (use read_nickname_kept in auto)

lemma station_kept: "kept us \<Longrightarrow> kept (read_station jc ev ifname band station us)"
  using add_kept [of us ev]
  by (auto simp: read_station_def Let_def at_client_kept keeps_station split: option.split prod.split)

lemma wireless_kept:
  assumes "kept us" shows "kept (refresh_client_wireless_status jc sh support ev us)"
proof -
  have "keeps (\<lambda>node. node\<lparr>cn_rssi := 0, cn_rx_rate := 0, cn_tx_rate := 0, cn_band := [], cn_wifi_ifname := [], cn_wireless_online := False\<rparr>)"
    by (simp add: keeps_def client_ok_def seen_def)
  then have "kept (clear_client_wireless_status us)" unfolding clear_client_wireless_status_def by (rule each_client_kept [OF assms])
  moreover have "kept (update_client_wireless_status_by_ifname jc sh ev iface us)" if "kept us" for iface us
  proof -
    have "kept (fold (read_station jc ev ifname band) vs us)" for ifname band vs
      by (rule fold_keeps [where P = kept, OF that]) (rule station_kept)
    then show ?thesis using that by (simp add: update_client_wireless_status_by_ifname_def Let_def split: option.split)
  qed
  ultimately show ?thesis by (auto simp: refresh_client_wireless_status_def Let_def intro: fold_keeps)
qed

text \<open>From the first loop to the second.\<close>

lemma between_loops_kept:
  assumes "kept us" and "update_client_hostname ev leases us = Inr us1"
  shows "kept (each_client wireless_decides (refresh_client_wireless_status jc sh support ev
    (update_client_from_kernel ev af (update_client_nickname names us1))))"
  by (intro each_client_kept keeps_wireless wireless_kept from_kernel_kept nickname_kept hostname_kept [OF assms])

end

end
