(* ===== verification/Fwxd_User_Demo.thy ===== *)
theory Fwxd_User_Demo
  imports Fwxd_User
begin

text \<open>Surroundings of the daemon for the witnesses: a calendar whose months are as long as they need to be, and memory, files and database that never refuse.\<close>

definition demo_time :: "int \<Rightarrow> tm" where
  "demo_time t = \<lparr>tm_sec = t mod 60, tm_min = t div 60 mod 60, tm_hour = t div 3600 mod 24, tm_mday = t div 86400, tm_mon = 0,
     tm_year = 70, tm_wday = 0, tm_isdst = 0\<rparr>"

definition demo_world :: "int \<Rightarrow> env" where
  "demo_world now = \<lparr>en_now = now, en_localtime = (\<lambda>t. Some (demo_time t)),
     en_mktime = (\<lambda>t. tm_mday t * 86400 + tm_hour t * 3600 + tm_min t * 60 + tm_sec t),
     en_calloc = (\<lambda>_ _. True), en_db = (\<lambda>_. True), en_fopen = (\<lambda>_. True), en_opendir = (\<lambda>_. True), en_unlink = (\<lambda>_. True),
     en_client_data_root = cstr ''/tmp/fwx'', en_history_data_root = cstr ''/tmp/fwx'',
     en_app_name = (\<lambda>_. None), en_app_icon = (\<lambda>_. True), en_one_text = [1]\<rparr>"

text \<open>In summer clocks are an hour ahead, and a time without the flag for it is an hour later.\<close>

definition demo_summer :: "int \<Rightarrow> env" where
  "demo_summer now = (demo_world now)\<lparr>en_localtime := (\<lambda>t. Some ((demo_time t)\<lparr>tm_isdst := 1\<rparr>)),
     en_mktime := (\<lambda>t. tm_mday t * 86400 + tm_hour t * 3600 + tm_min t * 60 + tm_sec t + 3600 * (1 - tm_isdst t))\<rparr>"

definition demo_mac :: bytes where
  "demo_mac = cstr ''02:00:00:00:00:01''"

definition demo_row :: "u32 \<Rightarrow> visit_row" where
  "demo_row date = \<lparr>vr_mac = demo_mac, vr_record_date = date, vr_appid = 3001, vr_start_time = date + 10, vr_end_time = date + 20,
     vr_duration = 10, vr_action = 0\<rparr>"

text \<open>A daemon that has just started.\<close>

definition start_users :: "int \<Rightarrow> users" where
  "start_users app_valid_time = \<lparr>us_clients = [], us_records = [], us_cur_user_num = 0, us_count = 0, us_last_mday = -1,
     us_app_valid_time = app_valid_time, us_type_stats = replicate (nat MAX_APP_TYPE) 0, us_stat_date = 0,
     us_type_records = [], us_traffic = no_traffic, us_traffic_date = 0, us_db = [], us_files = []\<rparr>"

end
