(* ===== verification/Fwxd_User_Reach.thy ===== *)
theory Fwxd_User_Reach
  imports Fwxd_User_Correct Fwxd_User_Demo Fwxd_Custom_File
begin

text \<open>
  Every state that the daemon's clients can reach, and the records of their comings and goings.
\<close>

section \<open>Records that alternate\<close>

fun alternating :: "int list \<Rightarrow> bool" where
  "alternating [] = True"
| "alternating [a] \<longleftrightarrow> a = 0 \<or> a = 1"
| "alternating (a # b # as) \<longleftrightarrow> (a = 0 \<and> b = 1 \<or> a = 1 \<and> b = 0) \<and> alternating (b # as)"

lemma alternating_take: "alternating as \<Longrightarrow> alternating (take n as)"
proof (induction as arbitrary: n rule: alternating.induct)
  case (3 a b as)
  then show ?case by (cases n; cases "n - 1") (auto, (metis take_Suc_Cons)+)
qed (simp_all add: take_Cons')

lemma alternating_Cons:
  "alternating (a # as) \<longleftrightarrow> (a = 0 \<or> a = 1) \<and> (as \<noteq> [] \<longrightarrow> hd as = 1 - a) \<and> alternating as"
  by (cases as) auto

text \<open>The actions of one client, the newest first.\<close>

definition actions :: "bytes \<Rightarrow> user_record list \<Rightarrow> int list" where
  "actions m rs = map ur_action (filter (\<lambda>r. ur_mac r = m) rs)"

lemma actions_take: "\<exists>k. actions m (take n rs) = take k (actions m rs)"
proof -
  have "take n rs @ drop n rs = rs" by simp
  then have "actions m rs = actions m (take n rs) @ actions m (drop n rs)"
    unfolding actions_def by (metis filter_append map_append)
  then show ?thesis by (intro exI [of _ "length (actions m (take n rs))"]) simp
qed

text \<open>
  A recorded client is or was online at the last look, no client is marked as expired, and the newest record of
  a client is its coming exactly when it is a recorded client.
\<close>

type_synonym presence_info = "bytes \<times> bool \<times> bool \<times> int"

definition is_recorded :: "bytes \<Rightarrow> presence_info list \<Rightarrow> bool" where
  "is_recorded m ps \<longleftrightarrow> (\<exists>p\<in>set ps. fst p = m \<and> fst (snd p))"

definition presence_ok :: "presence_info \<Rightarrow> bool" where
  "presence_ok p \<longleftrightarrow> (fst (snd p) \<longrightarrow> fst (snd (snd p))) \<and> snd (snd (snd p)) = 0"

definition newest_ok :: "int list \<Rightarrow> bool \<Rightarrow> bool" where
  "newest_ok as r \<longleftrightarrow> alternating as \<and> (as \<noteq> [] \<longrightarrow> (hd as = 0) = r)"

definition comings :: "user_record list \<Rightarrow> presence_info list \<Rightarrow> bool" where
  "comings rs ps \<longleftrightarrow> (\<forall>m. newest_ok (actions m rs) (is_recorded m ps)) \<and> (\<forall>p\<in>set ps. presence_ok p)"

lemma newest_take: "newest_ok as r \<Longrightarrow> newest_ok (take k as) r"
  by (auto simp: newest_ok_def alternating_take hd_take)

lemma comings_take: "comings rs ps \<Longrightarrow> comings (take n rs) ps"
  unfolding comings_def using actions_take newest_take by metis

lemma comings_new: "comings rs ps \<Longrightarrow> comings rs ((m, False, False, 0) # ps)"
  by (simp add: comings_def is_recorded_def presence_ok_def)

lemma is_recorded_nth: "is_recorded m ps \<longleftrightarrow> (\<exists>j<length ps. fst (ps ! j) = m \<and> fst (snd (ps ! j)))"
  unfolding is_recorded_def by (metis in_set_conv_nth)

lemma is_recorded_update:
  assumes "distinct (map fst ps)" and "i < length ps" and "fst (ps ! i) = m"
  shows "is_recorded m' (ps[i := (m, r, x)]) = (if m' = m then r else is_recorded m' ps)"
proof (cases "m' = m")
  case True
  have j: "j = i" if "j < length ps" "fst (ps ! j) = m" for j
    using that assms nth_eq_iff_index_eq [OF assms(1), of j i] by simp
  show ?thesis
  proof
    show "is_recorded m' (ps[i := (m, r, x)]) \<Longrightarrow> if m' = m then r else is_recorded m' ps"
      using j True assms(2) by (auto simp: is_recorded_nth nth_list_update split: if_splits)
    show "if m' = m then r else is_recorded m' ps \<Longrightarrow> is_recorded m' (ps[i := (m, r, x)])"
      using True assms(2) by (auto simp: is_recorded_nth intro!: exI [of _ i])
  qed
next
  case False
  have "(fst (ps[i := (m, r, x)] ! j) = m' \<and> fst (snd (ps[i := (m, r, x)] ! j))) =
      (fst (ps ! j) = m' \<and> fst (snd (ps ! j)))" if "j < length ps" for j
    using False assms(3) that by (cases "j = i") simp_all
  then show ?thesis unfolding is_recorded_nth using False by (simp cong: conj_cong)
qed

lemma is_recorded_at:
  assumes "distinct (map fst ps)" and "i < length ps" and "ps ! i = (m, r, x)"
  shows "is_recorded m ps = r"
proof -
  have "ps[i := (m, r, x)] = ps" using assms(3) by (metis list_update_id)
  then show ?thesis using is_recorded_update [OF assms(1,2), of m m r x] assms(3) by simp
qed

lemma presence_update: "\<forall>p\<in>set ps. presence_ok p \<Longrightarrow> presence_ok q \<Longrightarrow> \<forall>p\<in>set (ps[i := q]). presence_ok p"
  using set_update_subset_insert by fastforce

text \<open>The client \<open>i\<close> is not recorded, and stays so; it comes; it goes.\<close>

lemma comings_same:
  assumes "comings rs ps" and "distinct (map fst ps)" and "i < length ps" and "ps ! i = (m, r, b, e)" and "r \<longrightarrow> b'"
  shows "comings rs (ps[i := (m, r, b', e)])"
proof -
  have "is_recorded m ps = r" by (rule is_recorded_at [OF assms(2-4)])
  then have "newest_ok (actions m rs) r" using assms(1) by (auto simp: comings_def)
  moreover have "presence_ok (m, r, b, e)" using assms(1,3,4) by (metis comings_def nth_mem)
  ultimately show ?thesis
    using assms presence_update [of ps "(m, r, b', e)" i] by (simp add: comings_def is_recorded_update presence_ok_def)
qed

lemma comings_record:
  assumes "comings rs ps" and "distinct (map fst ps)" and "i < length ps" and "ps ! i = (m, r, b, e)"
    and "ur_mac rec = m" and "ur_action rec = (if r then 1 else 0)" and "\<not> r \<longrightarrow> b'"
  shows "comings (take n (rec # rs)) (ps[i := (m, \<not> r, b', e)])"
proof (rule comings_take)
  have p: "presence_ok (m, r, b, e)" using assms(1,3,4) by (metis comings_def nth_mem)
  have "is_recorded m ps = r" by (rule is_recorded_at [OF assms(2-4)])
  then have "newest_ok (actions m rs) r" using assms(1) by (auto simp: comings_def)
  then have "newest_ok (actions m (rec # rs)) (\<not> r)"
    using assms(5,6) by (cases "actions m rs") (auto simp: newest_ok_def actions_def alternating_Cons)
  moreover have "actions m' (rec # rs) = actions m' rs" if "m' \<noteq> m" for m'
    using assms(5) that by (simp add: actions_def)
  ultimately show "comings (rec # rs) (ps[i := (m, \<not> r, b', e)])"
    using assms p presence_update [of ps "(m, \<not> r, b', e)" i]
    by (auto simp: comings_def is_recorded_update presence_ok_def)
qed

section \<open>What is kept\<close>

interpretation every: last_presence "\<lambda>_ _ _ _. ()" "\<lambda>_ _. True"
  by unfold_locales simp_all

interpretation awake: presence "\<lambda>r on l e. (r, on, e)" comings
  by unfold_locales (rule comings_new)

interpretation before: last_presence "\<lambda>r on l e. (r, l, e)" comings
  by unfold_locales (simp_all add: comings_new)

lemma every_kept: "every.kept us \<longleftrightarrow> users_ok us"
  by (simp add: every.kept_def)

lemma clean_client_ok: "users_ok us \<Longrightarrow> users_ok (clean_client_online_status ev us)"
  unfolding clean_client_online_status_def by (rule each_client_ok) (simp_all add: client_ok_def Let_def)

lemma clean_kept: "awake.kept us \<Longrightarrow> before.kept (clean_client_online_status ev us)"
proof -
  assume k: "awake.kept us"
  have "before.seen (let node' = node\<lparr>cn_last_online_state := cn_online node, cn_active := 0\<rparr>
      in if cn_online node then node'\<lparr>cn_offline_time := t, cn_online := False\<rparr> else node') = awake.seen node" for node t
    by (simp add: before.seen_def awake.seen_def Let_def)
  then show ?thesis
    using k clean_client_ok by (simp add: awake.kept_def before.kept_def clean_client_online_status_def each_client_def o_def)
qed

section \<open>Who has come and who has gone\<close>

lemma at_client_at_client: "i < length (us_clients us) \<Longrightarrow> at_client i f (at_client i h us) = at_client i (\<lambda>c. f (h c)) us"
  by (simp add: at_client_def)

lemma add_user_record_clients [simp]: "us_clients (add_user_record ev c a t us) = us_clients us"
  by (simp add: add_user_record_def Let_def)

lemma save_backup_clients [simp]:
  "us_clients (save_client_backup_to_file ev c us) = us_clients us"
  "us_records (save_client_backup_to_file ev c us) = us_records us"
  by (simp_all add: save_client_backup_to_file_def save_json_def)

lemma at_client_clients [simp]:
  "us_clients (at_client i f us) = (us_clients us)[i := f (us_clients us ! i)]"
  "us_records (at_client i f us) = us_records us"
  by (simp_all add: at_client_def)

lemma add_user_record_ok: "users_ok us \<Longrightarrow> users_ok (add_user_record ev c a t us)"
  by (simp add: users_ok_def add_user_record_def Let_def)

lemma save_backup_ok: "users_ok us \<Longrightarrow> users_ok (save_client_backup_to_file ev c us)"
  using every.save_json_kept every_kept by (simp add: save_client_backup_to_file_def)

lemma online_change_ok: "users_ok us \<Longrightarrow> users_ok (online_change ev byp i us)"
  unfolding online_change_def Let_def
  by (rule at_client_ok)
    (auto simp: client_ok_def reset_online_session_stat_def session_ok_def no_session_def user_limits
      intro!: at_client_ok save_backup_ok add_user_record_ok)

text \<open>One step of the loop, where there is memory for a record.\<close>

lemma online_change_client:
  assumes "i < length (us_clients us)" and "en_calloc ev User_record (length (us_records us))"
    and "cn_session_online_recorded (us_clients us ! i) \<longrightarrow> cn_last_online_state (us_clients us ! i)"
  obtains node r where "us_clients (online_change ev byp i us) = (us_clients us)[i := node]"
    "cn_mac node = cn_mac (us_clients us ! i)" "cn_last_online_state node = cn_online node"
    "cn_expire node = cn_expire (us_clients us ! i)"
    "cn_session_online_recorded node = cn_session_online_recorded (us_clients us ! i) \<and>
        us_records (online_change ev byp i us) = us_records us \<and> (cn_session_online_recorded node \<longrightarrow> cn_online node) \<or>
      cn_session_online_recorded node = (\<not> cn_session_online_recorded (us_clients us ! i)) \<and>
        us_records (online_change ev byp i us) = take MAX_USER_RECORDS (r # us_records us) \<and>
        ur_mac r = cn_mac node \<and> ur_action r = (if cn_session_online_recorded (us_clients us ! i) then 1 else 0) \<and>
        (cn_session_online_recorded node \<longrightarrow> cn_online node)"
proof -
  let ?us = "online_change ev byp i us" and ?c = "us_clients us ! i"
  let ?R = "\<lambda>r. cn_session_online_recorded (us_clients ?us ! i) = cn_session_online_recorded ?c \<and>
        us_records ?us = us_records us \<and> (cn_session_online_recorded (us_clients ?us ! i) \<longrightarrow> cn_online (us_clients ?us ! i)) \<or>
      cn_session_online_recorded (us_clients ?us ! i) = (\<not> cn_session_online_recorded ?c) \<and>
        us_records ?us = take MAX_USER_RECORDS (r # us_records us) \<and>
        ur_mac r = cn_mac (us_clients ?us ! i) \<and> ur_action r = (if cn_session_online_recorded ?c then 1 else 0) \<and>
        (cn_session_online_recorded (us_clients ?us ! i) \<longrightarrow> cn_online (us_clients ?us ! i))"
  have "us_clients ?us = (us_clients us)[i := us_clients ?us ! i]"
    using assms(1) by (simp add: online_change_def Let_def)
  moreover have "\<exists>r. ?R r"
    using assms by (auto simp: online_change_def Let_def reset_online_session_stat_def add_user_record_def)
  moreover have "cn_mac (us_clients ?us ! i) = cn_mac ?c" "cn_last_online_state (us_clients ?us ! i) = cn_online (us_clients ?us ! i)"
    "cn_expire (us_clients ?us ! i) = cn_expire ?c"
    using assms(1) by (simp_all add: online_change_def Let_def reset_online_session_stat_def)
  ultimately show thesis using that by blast
qed

definition record_memory :: "env \<Rightarrow> bool" where
  "record_memory ev \<longleftrightarrow> (\<forall>n. en_calloc ev User_record n)"

lemma online_change_before:
  assumes "before.kept us" and "i < length (us_clients us)" and "record_memory ev"
  shows "before.kept (online_change ev byp i us)"
    and "\<exists>node. us_clients (online_change ev byp i us) = (us_clients us)[i := node] \<and> cn_last_online_state node = cn_online node"
proof -
  let ?us = "online_change ev byp i us" and ?c = "us_clients us ! i" and ?ps = "map before.seen (us_clients us)"
  have mem: "en_calloc ev User_record (length (us_records us))" using assms(3) by (simp add: record_memory_def)
  have ok: "users_ok us" and q: "comings (us_records us) ?ps" using assms(1) by (simp_all add: before.kept_def)
  have dist: "distinct (map fst ?ps)" using ok by (simp add: users_ok_def before.seen_def o_def)
  have i: "i < length ?ps" and ci: "?ps ! i = (cn_mac ?c, cn_session_online_recorded ?c, cn_last_online_state ?c, cn_expire ?c)"
    using assms(2) by (simp_all add: before.seen_def)
  have p: "cn_session_online_recorded ?c \<longrightarrow> cn_last_online_state ?c"
  proof -
    have "presence_ok (?ps ! i)" using q i by (metis comings_def nth_mem)
    then show ?thesis by (simp add: ci presence_ok_def)
  qed
  obtain node r where cl: "us_clients ?us = (us_clients us)[i := node]"
    and n: "cn_mac node = cn_mac ?c" "cn_last_online_state node = cn_online node" "cn_expire node = cn_expire ?c"
    and r: "cn_session_online_recorded node = cn_session_online_recorded ?c \<and>
        us_records ?us = us_records us \<and> (cn_session_online_recorded node \<longrightarrow> cn_online node) \<or>
      cn_session_online_recorded node = (\<not> cn_session_online_recorded ?c) \<and>
        us_records ?us = take MAX_USER_RECORDS (r # us_records us) \<and>
        ur_mac r = cn_mac node \<and> ur_action r = (if cn_session_online_recorded ?c then 1 else 0) \<and>
        (cn_session_online_recorded node \<longrightarrow> cn_online node)"
    by (rule online_change_client [OF assms(2) mem p, of byp])
  have ps: "map before.seen (us_clients ?us) =
      ?ps[i := (cn_mac ?c, cn_session_online_recorded node, cn_online node, cn_expire ?c)]"
    using n by (simp add: cl map_update before.seen_def)
  have "comings (us_records ?us) (map before.seen (us_clients ?us))"
    unfolding ps using r comings_same [OF q dist i ci] comings_record [OF q dist i ci] n(1) by (elim disjE) auto
  then show "before.kept ?us" using online_change_ok [OF ok] by (simp add: before.kept_def)
  show "\<exists>node. us_clients ?us = (us_clients us)[i := node] \<and> cn_last_online_state node = cn_online node"
    using cl n by blast
qed

lemma online_loop:
  assumes "before.kept us" and "record_memory ev" and "n \<le> length (us_clients us)"
  shows "before.kept (fold (online_change ev byp) [0..<n] us) \<and>
    length (us_clients (fold (online_change ev byp) [0..<n] us)) = length (us_clients us) \<and>
    (\<forall>j<n. cn_last_online_state (us_clients (fold (online_change ev byp) [0..<n] us) ! j) =
      cn_online (us_clients (fold (online_change ev byp) [0..<n] us) ! j))"
  using assms(3)
proof (induction n)
  case (Suc n)
  let ?us = "fold (online_change ev byp) [0..<n] us"
  have k: "before.kept ?us" and n: "n < length (us_clients ?us)" using Suc by simp_all
  then show ?case
    using Suc online_change_before [OF k n assms(2), of byp] by (auto simp: nth_list_update less_Suc_eq)
qed (use assms(1) in simp)

lemma online_loop_awake:
  assumes "before.kept us" and "record_memory ev"
  shows "awake.kept (for_clients (online_change ev byp) us)"
proof -
  let ?us = "for_clients (online_change ev byp) us"
  have l: "before.kept ?us" "\<forall>j<length (us_clients ?us). cn_last_online_state (us_clients ?us ! j) = cn_online (us_clients ?us ! j)"
    using online_loop [OF assms order_refl] by (simp_all add: for_clients_def)
  then have "before.seen c = awake.seen c" if "c \<in> set (us_clients ?us)" for c
    using that by (auto simp: before.seen_def awake.seen_def in_set_conv_nth)
  then have m: "map before.seen (us_clients ?us) = map awake.seen (us_clients ?us)" by simp
  show ?thesis using l(1) unfolding before.kept_def awake.kept_def m .
qed

lemma update_list_Inr:
  assumes "update_client_list jc ev inp us = Inr us'"
  obtains us1 where "update_client_hostname ev (in_leases inp) (clean_client_online_status ev us) = Inr us1"
    "us' = update_client_visiting_info (in_af_visit inp) (for_clients (online_change ev (in_work_mode inp = 1))
       (each_client wireless_decides (refresh_client_wireless_status jc (in_command inp) (in_wireless_support inp) ev
         (update_client_from_kernel ev (in_af_client inp) (update_client_nickname (in_user_info inp) us1)))))"
  using assms that by (auto simp: update_client_list_def update_client_online_status_def ub_bind_Inr Let_def)

lemma visiting_awake: "awake.kept us \<Longrightarrow> awake.kept (update_client_visiting_info af_visit us)"
  by (rule awake.visiting_kept)

lemma update_list_ok:
  assumes "users_ok us" and "update_client_list jc ev inp us = Inr us'" shows "users_ok us'"
proof (rule update_list_Inr [OF assms(2)])
  fix us1
  assume h: "update_client_hostname ev (in_leases inp) (clean_client_online_status ev us) = Inr us1"
    and us': "us' = update_client_visiting_info (in_af_visit inp) (for_clients (online_change ev (in_work_mode inp = 1))
       (each_client wireless_decides (refresh_client_wireless_status jc (in_command inp) (in_wireless_support inp) ev
         (update_client_from_kernel ev (in_af_client inp) (update_client_nickname (in_user_info inp) us1)))))"
  show ?thesis
    unfolding us'
    by (intro every.visiting_kept [unfolded every_kept] for_clients_ok online_change_ok
        every.between_loops_kept [unfolded every_kept, OF clean_client_ok [OF assms(1)] h])
qed

lemma update_list_awake:
  assumes "awake.kept us" and "update_client_list jc ev inp us = Inr us'" and "record_memory ev" shows "awake.kept us'"
proof (rule update_list_Inr [OF assms(2)])
  fix us1
  assume h: "update_client_hostname ev (in_leases inp) (clean_client_online_status ev us) = Inr us1"
    and us': "us' = update_client_visiting_info (in_af_visit inp) (for_clients (online_change ev (in_work_mode inp = 1))
       (each_client wireless_decides (refresh_client_wireless_status jc (in_command inp) (in_wireless_support inp) ev
         (update_client_from_kernel ev (in_af_client inp) (update_client_nickname (in_user_info inp) us1)))))"
  show ?thesis
    unfolding us' by (intro visiting_awake online_loop_awake assms(3) before.between_loops_kept [OF clean_kept [OF assms(1)] h])
qed

section \<open>Clients that are dropped\<close>

lemma check_expire_ok: "users_ok us \<Longrightarrow> users_ok (snd (check_client_expire_user ev us))"
  unfolding check_client_expire_user_def snd_conv by (rule each_client_ok) (auto simp: client_ok_def)

lemma flush_expire_ok:
  assumes "users_ok us" shows "users_ok (flush_expire_client_node us)"
proof -
  have "length (filter P (us_clients us)) \<le> length (us_clients us)" for P by (rule length_filter_le)
  then show ?thesis
    using assms by (simp add: users_ok_def flush_expire_client_node_def Let_def distinct_map_filter of_nat_diff)
qed

lemma expire_clients_ok: "users_ok us \<Longrightarrow> users_ok (expire_clients ev us)"
  using check_expire_ok [of us ev] by (cases "check_client_expire_user ev us") (simp add: expire_clients_def flush_expire_ok)

lemma comings_subset:
  assumes "comings rs ps" and "set ps' \<subseteq> set ps" and "\<forall>p\<in>set ps - set ps'. \<not> fst (snd p)"
  shows "comings rs ps'"
proof -
  have "is_recorded m ps' = is_recorded m ps" for m
    using assms(2,3) by (auto simp: is_recorded_def)
  then show ?thesis using assms(1,2) by (auto simp: comings_def)
qed

lemma expired_filtered:
  assumes "\<forall>c\<in>set cs. cn_expire c = 0"
  shows "filter (\<lambda>c. cn_expire c = 0) (map (\<lambda>c. if client_gone ev c then c\<lparr>cn_expire := 1, cn_visit := w c\<rparr> else c) cs) =
    filter (\<lambda>c. \<not> client_gone ev c) cs"
  using assms
proof (induction cs)
  case (Cons c cs)
  have c: "cn_expire c = 0" and cs: "\<forall>c\<in>set cs. cn_expire c = 0" using Cons.prems by simp_all
  note IH = Cons.IH [OF cs]
  show ?case
  proof (cases "client_gone ev c")
    case True
    then have "(if client_gone ev c then c\<lparr>cn_expire := 1, cn_visit := w c\<rparr> else c) = c\<lparr>cn_expire := 1, cn_visit := w c\<rparr>" by (rule if_P)
    then show ?thesis unfolding list.map(2) filter.simps(2) IH using True by simp
  next
    case False
    then have "(if client_gone ev c then c\<lparr>cn_expire := 1, cn_visit := w c\<rparr> else c) = c" by (rule if_not_P)
    then show ?thesis unfolding list.map(2) filter.simps(2) IH using False c by simp
  qed
qed simp

lemma expire_clients_awake:
  assumes "awake.kept us" shows "awake.kept (expire_clients ev us)"
proof -
  let ?K = "filter (\<lambda>c. \<not> client_gone ev c) (us_clients us)"
  have q: "comings (us_records us) (map awake.seen (us_clients us))" and ok: "users_ok us"
    using assms by (simp_all add: awake.kept_def)
  have p: "presence_ok (awake.seen c)" if "c \<in> set (us_clients us)" for c using q that by (simp add: comings_def)
  then have e: "cn_expire c = 0" if "c \<in> set (us_clients us)" for c
    using p [OF that] by (simp add: presence_ok_def awake.seen_def)
  have "us_clients (expire_clients ev us) = ?K"
  proof -
    show ?thesis
    proof (cases "filter (client_gone ev) (us_clients us) = []")
      case True
      then have n: "\<forall>c\<in>set (us_clients us). \<not> client_gone ev c" by (simp add: filter_empty_conv)
      then have "map (\<lambda>c. if client_gone ev c then c\<lparr>cn_expire := 1, cn_visit := w c\<rparr> else c) (us_clients us) = us_clients us" for w
        by (intro map_idI) simp
      moreover have "?K = us_clients us" using n by (simp add: filter_id_conv)
      ultimately show ?thesis using True by (simp add: expire_clients_def check_client_expire_user_def each_client_def)
    next
      case False
      have "\<forall>c\<in>set (us_clients us). cn_expire c = 0" using e by blast
      from expired_filtered [OF this] show ?thesis
        using False by (simp add: expire_clients_def check_client_expire_user_def each_client_def flush_expire_client_node_def Let_def)
    qed
  qed
  moreover have "comings (us_records us) (map awake.seen ?K)"
  proof (rule comings_subset [OF q])
    show "\<forall>p\<in>set (map awake.seen (us_clients us)) - set (map awake.seen ?K). \<not> fst (snd p)"
    proof
      fix x assume "x \<in> set (map awake.seen (us_clients us)) - set (map awake.seen ?K)"
      then obtain c where c: "c \<in> set (us_clients us)" "x = awake.seen c" "client_gone ev c" by auto
      then show "\<not> fst (snd x)" using p [OF c(1)] by (simp add: presence_ok_def awake.seen_def client_gone_def)
    qed
  qed auto
  moreover have "us_records (expire_clients ev us) = us_records us"
    by (simp add: expire_clients_def check_client_expire_user_def flush_expire_client_node_def each_client_def Let_def)
  ultimately show ?thesis using expire_clients_ok [OF ok] by (simp add: awake.kept_def)
qed

section \<open>The timer\<close>

lemma timeout_keeps:
  assumes "fwx_timeout_handler jc ev inp us = Inr us'" and "P us"
    and "\<And>us n. P us \<Longrightarrow> P (us\<lparr>us_count := n\<rparr>)"
    and "\<And>us us'. P us \<Longrightarrow> update_client_list jc ev inp us = Inr us' \<Longrightarrow> P us'"
    and "\<And>us. P us \<Longrightarrow> P (move_expired_online_visit_to_offline ev us)" and "\<And>us. P us \<Longrightarrow> P (daily_archive_handle ev us)"
    and "\<And>us. P us \<Longrightarrow> P (expire_clients ev us)" and "\<And>us. P us \<Longrightarrow> P (cleanup_expired_hourly_stats ev us)"
    and "\<And>us. P us \<Longrightarrow> P (save_all_client_backup_to_files ev us)"
    and "\<And>us sz db. P us \<Longrightarrow> P (check_and_cleanup_history_data_by_size ev sz db us)"
  shows "P us'"
proof -
  let ?n = "us_count us + 1"
  obtain us1 us2 where us1: "(if ?n mod 10 = 0
        then ub_bind (update_client_list jc ev inp (us\<lparr>us_count := ?n\<rparr>)) (\<lambda>us1. Inr (move_expired_online_visit_to_offline ev us1))
        else Inr (us\<lparr>us_count := ?n\<rparr>)) = Inr us1"
    and us2: "(if ?n mod 20 = 0 then every_20_seconds ev inp us1 else Inr us1) = Inr us2"
    and us': "us' = (if ?n mod CLIENT_BACKUP_SYNC_INTERVAL_SEC = 0 then save_all_client_backup_to_files ev us2 else us2)"
    using assms(1) unfolding fwx_timeout_handler_def Let_def ub_bind_Inr by blast
  have "P us1"
  proof (cases "?n mod 10 = 0")
    case True
    then obtain x where "update_client_list jc ev inp (us\<lparr>us_count := ?n\<rparr>) = Inr x" "us1 = move_expired_online_visit_to_offline ev x"
      using us1 by (auto simp: ub_bind_Inr)
    then show ?thesis using assms(5) [OF assms(4) [OF assms(3) [OF assms(2)]]] by simp
  qed (use us1 assms(3) [OF assms(2), of ?n] in simp)
  then have "P us2" using us2 assms(6-8,10) by (auto simp: every_20_seconds_def Let_def ub_bind_Inr split: if_splits)
  then show ?thesis unfolding us' using assms(9) by simp
qed

section \<open>The start\<close>

lemma overwrite_length [simp]: "length (overwrite f vs xs) = length xs"
  by (simp add: overwrite_def)

lemma in_overwrite: "x \<in> set (overwrite f vs xs) \<Longrightarrow> x \<in> set xs \<or> (\<exists>v\<in>set vs. \<exists>y\<in>set xs. x = f v y)"
  unfolding overwrite_def by (auto dest: in_set_takeD in_set_dropD set_zip_leftD set_zip_rightD)

lemma load_daily_ok: "daily_ok (load_daily_stats_from_json jc v)"
proof -
  have "length a = 3" if "a \<in> set (overwrite (load_top_hour jc) vs no_top_apps)" for a vs
    using in_overwrite [OF that] by (auto simp: load_top_hour_def no_top_apps_def user_limits)
  then show ?thesis
    by (auto simp: load_daily_stats_from_json_def daily_ok_def zero_stat_def no_top_apps_def no_traffic_def no_hours_def
        list_all_iff user_limits)
qed

lemma load_session_ok: "session_ok (load_online_session_stat_from_json jc v)"
  by (auto simp: load_online_session_stat_from_json_def session_ok_def no_session_def Let_def user_limits)

lemma load_top_ok: "top_ok (load_daily_top_apps_from_json jc v)"
  by (auto simp: load_daily_top_apps_from_json_def top_ok_def no_apps_def user_limits)

lemma ex_string_length: "ex_string jc v key sz old = Inr s \<Longrightarrow> length s \<le> sz - 1"
  by (auto simp: ex_string_def split: option.splits if_splits)

lemma load_fields_ok:
  assumes "load_client_fields jc v c = Inr c'" and "client_ok c"
  shows "client_ok c' \<and> cn_mac c' = cn_mac c \<and> cn_session_online_recorded c' = cn_session_online_recorded c"
proof -
  let ?part = "\<lambda>key load old. case json_object_object_get jc v (cstr key) of None \<Rightarrow> old | Some v \<Rightarrow> load v"
  have parts: "session_ok (?part ''online_session'' (load_online_session_stat_from_json jc) (cn_session c))"
    "daily_ok (?part ''daily_stats'' (load_daily_stats_from_json jc) (cn_daily c))"
    "top_ok (?part ''daily_top_apps_stats'' (load_daily_top_apps_from_json jc) (cn_top c))"
    using assms(2) by (simp_all add: client_ok_def load_session_ok load_daily_ok load_top_ok del: cstr_simps split: option.split)
  obtain ip ipv6 hostname nickname where s: "ex_string jc v ''ip'' MAX_IP_LEN (cn_ip c) = Inr ip"
    "ex_string jc v ''ipv6'' 128 (cn_ipv6 c) = Inr ipv6" "ex_string jc v ''hostname'' MAX_NAME_SIZE (cn_hostname c) = Inr hostname"
    "ex_string jc v ''nickname'' MAX_NAME_SIZE (cn_nickname c) = Inr nickname"
    and c': "c' = c\<lparr>cn_ip := ip, cn_ipv6 := ipv6, cn_hostname := hostname, cn_nickname := nickname,
         cn_expire := ex_int jc v ''expire'' (cn_expire c),
         cn_offline_time := ex_u32 jc v ''offline_time'' (cn_offline_time c),
         cn_online_time := ex_u32 jc v ''online_time'' (cn_online_time c),
         cn_mf_user_loaded := ex_int jc v ''mf_user_loaded'' (cn_mf_user_loaded c),
         cn_is_wireless := ex_int jc v ''is_wireless'' (cn_is_wireless c),
         cn_session := ?part ''online_session'' (load_online_session_stat_from_json jc) (cn_session c),
         cn_daily := ?part ''daily_stats'' (load_daily_stats_from_json jc) (cn_daily c),
         cn_top := ?part ''daily_top_apps_stats'' (load_daily_top_apps_from_json jc) (cn_top c)\<rparr>"
    using assms(1) unfolding load_client_fields_def ub_bind_Inr by blast
  have "length ip \<le> 31" "length ipv6 \<le> 127" "length hostname \<le> 63" "length nickname \<le> 63"
    using ex_string_length [OF s(1)] ex_string_length [OF s(2)] ex_string_length [OF s(3)] ex_string_length [OF s(4)]
    by (simp_all add: user_limits)
  then show ?thesis using assms(2) parts unfolding c' by (simp add: client_ok_def del: cstr_simps)
qed

definition loaded :: "users \<Rightarrow> bool" where
  "loaded us \<longleftrightarrow> users_ok us \<and> us_records us = [] \<and> (\<forall>c\<in>set (us_clients us). \<not> cn_session_online_recorded c)"

lemma reset_ok: "client_ok c \<Longrightarrow> client_ok (reset_client_runtime_fields c) \<and>
    cn_mac (reset_client_runtime_fields c) = cn_mac c \<and> \<not> cn_session_online_recorded (reset_client_runtime_fields c)"
  by (simp add: reset_client_runtime_fields_def client_ok_def)

lemma load_file_loaded:
  assumes "loaded us" and "load_client_backup_from_file jc ev file_in us = Inr us'" shows "loaded us'"
proof -
  consider "us' = us" | m where "find_or_add_client ev m us = (None, us')"
    | m i us1 v c where "find_or_add_client ev m us = (Some i, us1)"
      "load_client_fields jc v (reset_client_runtime_fields (us_clients us1 ! i)) = Inr c" "us' = at_client i (\<lambda>_. c) us1"
    using assms(2) by (auto simp: load_client_backup_from_file_def Let_def ub_bind_Inr split: option.splits if_splits prod.splits)
  then show ?thesis
  proof cases
    case 2
    then have "us' = us" using assms(1) by (auto simp: loaded_def elim: find_or_add_ok)
    then show ?thesis using assms(1) by simp
  next
    case 3
    have ok: "users_ok us1" "i < length (us_clients us1)"
      using find_or_add_users_ok [OF _ 3(1)] assms(1) by (auto simp: loaded_def)
    have new: "\<not> cn_session_online_recorded (new_client_node ev m)" for m by (simp add: new_client_node_def)
    have l: "loaded us1"
      by (rule find_or_add_ok [OF _ 3(1)]) (use assms(1) ok(1) new in \<open>auto simp: loaded_def added_client_def\<close>)
    let ?f = "\<lambda>c'. if c' = us_clients us1 ! i then c else c'"
    have c: "client_ok c" "cn_mac c = cn_mac (us_clients us1 ! i)" "\<not> cn_session_online_recorded c"
      using load_fields_ok [OF 3(2)] reset_ok [OF users_okD [OF ok]] by simp_all
    have eq: "us' = at_client i ?f us1" using 3(3) by (simp add: at_client_def)
    have "users_ok (at_client i ?f us1)" by (rule at_client_ok [OF ok(1)]) (use c in auto)
    then show ?thesis
      using l c set_update_subset_insert [of "us_clients us1" i c] unfolding 3(3) eq [unfolded 3(3), symmetric]
      by (auto simp: loaded_def)
  qed (use assms(1) in simp)
qed

lemma load_files_loaded:
  assumes "load_client_backup_from_files jc ev dir (start_users t) = Inr us" shows "loaded us"
proof -
  have s: "loaded (start_users t)"
    by (simp add: loaded_def users_ok_def start_users_def no_traffic_def user_limits)
  show ?thesis
  proof (cases dir)
    case (Some entries)
    have e: "loaded us'" if "loaded us" "load_dir_entry jc ev e us = Inr us'" for e us us'
      using that load_file_loaded by (auto simp: load_dir_entry_def split: dir_entry.splits if_splits option.splits)
    show ?thesis
      by (rule ub_fold_keeps [of "load_dir_entry jc ev" entries "start_users t" us loaded])
        (use assms Some s e in \<open>auto simp: load_client_backup_from_files_def\<close>)
  qed (use assms s in \<open>simp add: load_client_backup_from_files_def\<close>)
qed

section \<open>Reachable states\<close>

text \<open>
  From a state after the start, in an environment of the class \<open>P\<close>: a second passes, a message comes from the
  kernel module, somebody asks for a statistic.
\<close>

inductive users_reach :: "'j json_obj \<Rightarrow> (bytes \<Rightarrow> 'j option) \<Rightarrow> (env \<Rightarrow> bool) \<Rightarrow> users \<Rightarrow> users \<Rightarrow> bool"
  for jc :: "'j json_obj" and tok :: "bytes \<Rightarrow> 'j option" and P :: "env \<Rightarrow> bool" and us0 :: users
where
  start: "users_reach jc tok P us0 us0"
| second: "users_reach jc tok P us0 us \<Longrightarrow> P ev \<Longrightarrow> fwx_timeout_handler jc ev inp us = Inr us' \<Longrightarrow> users_reach jc tok P us0 us'"
| message: "users_reach jc tok P us0 us \<Longrightarrow> P ev \<Longrightarrow> fwx_netlink_handler jc tok ev ret buf us = Inr us' \<Longrightarrow>
    users_reach jc tok P us0 us'"
| hours: "users_reach jc tok P us0 us \<Longrightarrow> update_hourly_top_apps qsort ev i us = Some us' \<Longrightarrow> users_reach jc tok P us0 us'"
| hour: "users_reach jc tok P us0 us \<Longrightarrow> users_reach jc tok P us0 (snd (get_hourly_top_apps ev i h n us))"
| day: "users_reach jc tok P us0 us \<Longrightarrow> users_reach jc tok P us0 (update_daily_top_apps qsort ev i us)"
| types: "users_reach jc tok P us0 us \<Longrightarrow> users_reach jc tok P us0 (snd (get_global_daily_app_type_stats ev us))"
| types_hour: "users_reach jc tok P us0 us \<Longrightarrow> users_reach jc tok P us0 (snd (get_global_hourly_app_type_stats ev us))"
| deleted: "users_reach jc tok P us0 us \<Longrightarrow> users_reach jc tok P us0 (fwx_api_delete_record_files jc ev req us)"
| traffic: "users_reach jc tok P us0 us \<Longrightarrow> users_reach jc tok P us0 (snd (get_global_traffic_stats ev us))"

context presence begin

lemma asked_kept:
  assumes "kept us"
  shows "kept (snd (get_hourly_top_apps ev i h n us))" "kept (snd (get_global_daily_app_type_stats ev us))"
    "kept (snd (get_global_hourly_app_type_stats ev us))" "kept (snd (get_global_traffic_stats ev us))"
proof -
  show "kept (snd (get_hourly_top_apps ev i h n us))"
    using assms by (simp add: get_hourly_top_apps_def Let_def get_today_stat_kept)
  show "kept (snd (get_global_daily_app_type_stats ev us))"
    using assms by (simp add: get_global_daily_app_type_stats_def Let_def stat_date_kept)
  show "kept (snd (get_global_hourly_app_type_stats ev us))"
    using assms by (simp add: get_global_hourly_app_type_stats_def cleanup_expired_hourly_stats_def Let_def kept_def users_ok_def)
  show "kept (snd (get_global_traffic_stats ev us))"
    using assms by (simp add: get_global_traffic_stats_def reset_traffic_kept)
qed

lemma save_all_kept: "kept us \<Longrightarrow> kept (save_all_client_backup_to_files ev us)"
  unfolding save_all_client_backup_to_files_def
  by (rule fold_keeps) (simp_all add: save_client_backup_to_file_def save_json_kept)

lemma cleanup_kept: "kept us \<Longrightarrow> kept (cleanup_expired_hourly_stats ev us)"
  by (simp add: cleanup_expired_hourly_stats_def kept_def users_ok_def)

lemma count_kept: "kept us \<Longrightarrow> kept (us\<lparr>us_count := n\<rparr>)"
  by (simp add: kept_def users_ok_def)

lemma reach_kept:
  assumes "users_reach jc tok P us0 us" and "kept us0"
    and list: "\<And>ev inp us us'. P ev \<Longrightarrow> kept us \<Longrightarrow> update_client_list jc ev inp us = Inr us' \<Longrightarrow> kept us'"
    and gone: "\<And>ev us. kept us \<Longrightarrow> kept (expire_clients ev us)"
  shows "kept us"
  using assms(1)
proof induction
  case (second us ev inp us')
  show ?case
    by (rule timeout_keeps [OF second(3), where P = kept])
      (use second in \<open>simp_all add: count_kept list [OF second(2)] move_expired_kept daily_archive_kept gone cleanup_kept save_all_kept history_kept\<close>)
next
  case (message us ev ret buf us')
  then show ?case by (blast intro: netlink_kept)
next
  case (hours us qsort ev i us')
  then show ?case by (blast intro: hourly_top_kept)
qed (simp_all add: assms(2) asked_kept daily_top_kept history_kept fwx_api_delete_record_files_def Let_def)

end

lemma users_reach_ok: "users_reach jc tok P us0 us \<Longrightarrow> users_ok us0 \<Longrightarrow> users_ok us"
  by (rule every.reach_kept [unfolded every_kept, where P = P]) (assumption | erule update_list_ok expire_clients_ok)+

lemma comings_awake:
  assumes "loaded us" and "\<forall>c\<in>set (us_clients us). cn_expire c = 0" shows "awake.kept us"
  using assms by (auto simp: awake.kept_def loaded_def comings_def newest_ok_def actions_def presence_ok_def awake.seen_def)

lemma users_reach_awake:
  assumes "users_reach jc tok record_memory us0 us" and "awake.kept us0" shows "awake.kept us"
  by (rule awake.reach_kept [OF assms]) (simp_all add: update_list_awake expire_clients_awake)

section \<open>Runs that go on\<close>

text \<open>
  The leases that the reader has room for: a line of more than 16 bytes has at least two words, and the second to the fourth are
  shorter than their arrays.
\<close>

definition lease_words_fit :: "scanned list \<Rightarrow> bool" where
  "lease_words_fit vs \<longleftrightarrow> vs \<noteq> [] \<and> length (scanned_word vs 0) < 32 \<and> (1 < length vs \<longrightarrow> length (scanned_word vs 1) < 32) \<and>
     (2 < length vs \<longrightarrow> length (scanned_word vs 2) < 128)"

definition leases_fit :: "bytes option \<Rightarrow> bool" where
  "leases_fit leases = (case leases of None \<Rightarrow> True
     | Some content \<Rightarrow> list_all (\<lambda>line. length line \<le> 16 \<or>
         lease_words_fit (sscanf [Skip_word, Conv_word, Conv_word, Conv_word] line)) (fgets_lines 255 content))"

definition bufs_fit :: "lease_bufs \<Rightarrow> bool" where
  "bufs_fit b \<longleftrightarrow> length (lb_mac b) < 32 \<and> length (lb_ip b) < 32 \<and> length (lb_hostname b) < 128"

lemma word_found: "t \<noteq> [] \<Longrightarrow> \<not> isspace_c (hd t) \<Longrightarrow> take (word_len t) t \<noteq> []"
  by (cases t) (simp_all add: word_len_def)

lemma first_word:
  assumes "sscanf (Skip_word # Conv_word # cs) s \<noteq> []" shows "scanned_word (sscanf (Skip_word # Conv_word # cs) s) 0 \<noteq> []"
proof -
  define u where "u = dropWhile isspace_c s"
  define t where "t = dropWhile isspace_c (drop (word_len u) u)"
  have r: "sscanf (Skip_word # Conv_word # cs) s = (if u = [] then [] else if t = [] then []
      else Scanned_word (take (word_len t) t) # sscanf cs (drop (word_len t) t))"
    unfolding u_def t_def by (simp only: sscanf.simps(2) Let_def conversion.case)
  have "t \<noteq> []" using assms r by (auto split: if_splits)
  moreover from this have "\<not> isspace_c (hd t)" unfolding t_def by (rule hd_dropWhile)
  ultimately have "take (word_len t) t \<noteq> []" by (rule word_found)
  moreover have "u \<noteq> []" using assms r by (auto split: if_splits)
  ultimately show ?thesis unfolding r using \<open>t \<noteq> []\<close> by (simp add: scanned_word_def)
qed

lemma scan_lease_goes_on:
  assumes "lease_words_fit (sscanf [Skip_word, Conv_word, Conv_word, Conv_word] line)" and "bufs_fit b"
  shows "\<exists>b'. scan_lease line b = Inr b' \<and> bufs_fit b' \<and> lb_mac b' \<noteq> []"
proof -
  define vs where "vs = sscanf [Skip_word, Conv_word, Conv_word, Conv_word] line"
  have "0 < length vs" "scanned_word vs 0 \<noteq> []"
    using assms(1) first_word [of "[Conv_word, Conv_word]" line] by (simp_all add: lease_words_fit_def vs_def)
  then show ?thesis
    using assms unfolding scan_lease_def Let_def vs_def [symmetric] lease_words_fit_def bufs_fit_def
    by (simp add: copy_field_def)
qed

lemma lease_client_goes_on:
  assumes "\<forall>n. en_calloc ev Client_node n" and "lb_mac b \<noteq> []"
  shows "\<exists>i us'. lease_client ev b us = Inr (i, us')"
  using assms by (auto simp: lease_client_def add_client_node_def split: option.split prod.split)

lemma read_lease_goes_on:
  assumes "\<forall>n. en_calloc ev Client_node n" and "bufs_fit b"
    and "length line \<le> 16 \<or> lease_words_fit (sscanf [Skip_word, Conv_word, Conv_word, Conv_word] line)"
  shows "\<exists>b' us'. read_lease ev line (b, us) = Inr (b', us') \<and> bufs_fit b'"
proof (cases "length line \<le> 16")
  case False
  then obtain b' where b': "scan_lease line b = Inr b'" "bufs_fit b'" "lb_mac b' \<noteq> []"
    using scan_lease_goes_on assms(2,3) by blast
  then obtain i us1 where "lease_client ev b' us = Inr (i, us1)" using lease_client_goes_on [OF assms(1)] by blast
  then show ?thesis using b' False by (simp add: read_lease_def)
qed (use assms(2) in \<open>simp add: read_lease_def\<close>)

lemma leases_go_on:
  assumes "\<forall>n. en_calloc ev Client_node n" and "leases_fit leases"
  shows "\<exists>us'. update_client_hostname ev leases us = Inr us'"
proof (cases leases)
  case (Some content)
  have "\<exists>b' us'. ub_fold (read_lease ev) ls (b, us) = Inr (b', us')"
    if "list_all (\<lambda>line. length line \<le> 16 \<or> lease_words_fit (sscanf [Skip_word, Conv_word, Conv_word, Conv_word] line)) ls"
      and "bufs_fit b" for ls b us
    using that
  proof (induction ls arbitrary: b us)
    case (Cons line ls)
    obtain b' us' where "read_lease ev line (b, us) = Inr (b', us')" "bufs_fit b'"
      using read_lease_goes_on [OF assms(1) Cons.prems(2), of line us] Cons.prems(1) by auto
    then show ?case using Cons.IH [of b' us'] Cons.prems(1) by simp
  qed simp
  then obtain b' us' where "ub_fold (read_lease ev) (fgets_lines 255 content) (\<lparr>lb_mac = [], lb_ip = [], lb_hostname = []\<rparr>, us) = Inr (b', us')"
    using assms(2) Some by (fastforce simp: leases_fit_def bufs_fit_def)
  then show ?thesis using Some by (simp add: update_client_hostname_def)
qed (simp add: update_client_hostname_def)

text \<open>The list that is written every twenty seconds overflows for a client whose name or address fills its array.\<close>

lemma dev_rows_overflow:
  "dev_rows ev n nodes = Inl e \<Longrightarrow> (e = BufferOverflow ''hostname_buf'' \<or> e = BufferOverflow ''ip_buf'') \<and>
    (\<exists>node\<in>set nodes. 64 \<le> length (cn_hostname node) \<or> 32 \<le> length (cn_ip node))"
proof (induction nodes arbitrary: n)
  case (Cons node nodes)
  then show ?case
    by (auto simp: ub_bind_def copy_field_def hostname_text_def ip_text_def user_limits split: sum.splits if_splits)
qed simp

lemma dump_overflow:
  assumes "dump_client_list ev us = Inl e"
  shows "(e = BufferOverflow ''hostname_buf'' \<or> e = BufferOverflow ''ip_buf'') \<and>
    (\<exists>node\<in>set (us_clients us). 64 \<le> length (cn_hostname node) \<or> 32 \<le> length (cn_ip node))"
proof -
  have "dev_rows ev 0 (listed_clients us) = Inl e"
    using assms by (auto simp: dump_client_list_def ub_bind_def split: if_splits sum.splits)
  moreover have "set (listed_clients us) \<subseteq> set (us_clients us)"
    by (auto simp: listed_clients_def dest!: in_set_takeD)
  ultimately show ?thesis using dev_rows_overflow by blast
qed

lemma timeout_goes_on:
  assumes "\<forall>n. en_calloc ev Client_node n" and "leases_fit (in_leases inp)" and "fwx_timeout_handler jc ev inp us = Inl e"
  shows "(us_count us + 1) mod 20 = 0 \<and> (e = BufferOverflow ''hostname_buf'' \<or> e = BufferOverflow ''ip_buf'')"
proof -
  obtain us1 where "update_client_hostname ev (in_leases inp) (clean_client_online_status ev (us\<lparr>us_count := us_count us + 1\<rparr>)) = Inr us1"
    using leases_go_on [OF assms(1,2)] by blast
  then have "(us_count us + 1) mod 20 = 0" "\<exists>us1. every_20_seconds ev inp us1 = Inl e"
    using assms(3) by (auto simp: fwx_timeout_handler_def Let_def update_client_list_def ub_bind_def split: if_splits sum.splits)
  then show ?thesis using dump_overflow by (fastforce simp: every_20_seconds_def Let_def ub_bind_def split: sum.splits)
qed

lemma netlink_goes_on: "\<exists>us'. fwx_netlink_handler jc tok ev ret buf us = Inr us'"
  by (simp add: fwx_netlink_handler_def Let_def split: option.split)

section \<open>Properties\<close>

text \<open>
  C5. The state of the daemon's clients stays well-formed. Whatever files it has loaded, whatever the kernel module, the other
  sources and the clock have said, and whatever memory, files and database have refused: addresses are distinct and in one form,
  the counter is right, texts stay in their arrays (the address and the two names may fill theirs, without a NUL), visits and
  times are known by distinct keys, the arrays have their sizes, and at most 4096 records are kept. This holds as long as the
  reader of the leases has not written past one of its arrays or followed the pointer of a client that could not be added, where
  the run ends, and no list of the clients has been written while one of them had a name or an address that fills its array. When
  clients can be added and the second to fourth words of the leases are shorter than their arrays, nothing but that list, every
  twenty seconds, ends the run; a message of the kernel module never does.
\<close>

theorem users_stay_ok:
  assumes "load_client_backup_from_files jc ev dir (start_users valid_time) = Inr us0" and "users_reach jc tok P us0 us"
  shows "users_ok us \<and>
    (\<forall>ev inp e. (\<forall>n. en_calloc ev Client_node n) \<and> leases_fit (in_leases inp) \<and> fwx_timeout_handler jc ev inp us = Inl e \<longrightarrow>
      (us_count us + 1) mod 20 = 0 \<and> (e = BufferOverflow ''hostname_buf'' \<or> e = BufferOverflow ''ip_buf'')) \<and>
    (\<forall>ev ret buf. \<exists>us'. fwx_netlink_handler jc tok ev ret buf us = Inr us')"
proof -
  have "users_ok us0" using load_files_loaded [OF assms(1)] by (simp add: loaded_def)
  then show ?thesis using users_reach_ok [OF assms(2)] timeout_goes_on netlink_goes_on by blast
qed

text \<open>
  C6. Comings and goings alternate. Where memory for records does not run out and no file marks a client as expired, the records of
  a client are, from the newest, a coming and a going in turn; the newest is a coming exactly when the client
  is in the list with a session that was recorded, and such a client is online.
\<close>

theorem comings_alternate:
  assumes "load_client_backup_from_files jc ev dir (start_users valid_time) = Inr us0"
    and "\<forall>c\<in>set (us_clients us0). cn_expire c = 0" and "users_reach jc tok record_memory us0 us"
  shows "alternating (actions m (us_records us)) \<and>
    (actions m (us_records us) \<noteq> [] \<longrightarrow>
      (hd (actions m (us_records us)) = 0) = (\<exists>c\<in>set (us_clients us). cn_mac c = m \<and> cn_session_online_recorded c)) \<and>
    (\<forall>c\<in>set (us_clients us). cn_session_online_recorded c \<longrightarrow> cn_online c)"
proof -
  have "awake.kept us0" by (rule comings_awake [OF load_files_loaded [OF assms(1)] assms(2)])
  then have "comings (us_records us) (map awake.seen (us_clients us))"
    using users_reach_awake [OF assms(3)] by (simp add: awake.kept_def)
  then show ?thesis
    by (auto simp: comings_def newest_ok_def is_recorded_def presence_ok_def awake.seen_def)
qed

section \<open>Witnesses\<close>

text \<open>json-c on trees.\<close>

definition tree_obj :: "json json_obj" where
  "tree_obj = json_c.extend json_tree \<lparr>json_object_foreach = (\<lambda>v. case v of JObject ms \<Rightarrow> ms | _ \<Rightarrow> [])\<rparr>"

definition demo_report :: json where
  "demo_report = JObject [(cstr ''mac'', JString demo_mac), (cstr ''ip'', JString (cstr ''10.0.0.2'')),
     (cstr ''active'', JNumber 1), (cstr ''up_flow'', JNumber 3), (cstr ''down_flow'', JNumber 5),
     (cstr ''visit_info'', JArray [JObject [(cstr ''appid'', JNumber 3001), (cstr ''latest_action'', JNumber 1)]])]"

text \<open>The listing of the kernel module with the client, active or gone.\<close>

definition demo_line :: "bytes \<Rightarrow> bytes" where
  "demo_line status = cstr ''Id Mac'' @ [0x0A] @ cstr ''1 '' @ demo_mac @ cstr '' 10.0.0.2 :: 0 '' @ status @ cstr '' 7 8'' @ [0x0A]"

definition demo_inputs :: "bytes \<Rightarrow> json inputs" where
  "demo_inputs listing = \<lparr>in_leases = None, in_user_info = [], in_af_client = Some listing, in_af_visit = None,
     in_work_mode = 0, in_wireless_support = False, in_command = (\<lambda>_. None),
     in_history_size = None, in_db_size = None\<rparr>"

definition demo_message :: bytes where
  "demo_message = replicate 16 0 @ put_le32 0xa0b0c0d0 @ put_le32 2 @ cstr ''{}'' @ [0]"

text \<open>Nine seconds without a reading, and a tenth in which the kernel module lists what it lists.\<close>

definition demo_round :: "int \<Rightarrow> bytes \<Rightarrow> users \<Rightarrow> users" where
  "demo_round now listing us = (case fwx_timeout_handler tree_obj (demo_world now) (demo_inputs listing) (us\<lparr>us_count := us_count us + 9\<rparr>) of
     Inr us' \<Rightarrow> us' | Inl _ \<Rightarrow> us)"

text \<open>The client is active for twenty seconds and gone after thirty.\<close>

definition demo_users :: users where
  "demo_users = demo_round 30 [] (demo_round 20 (demo_line (cstr ''2'')) (demo_round 10 (demo_line (cstr ''2'')) (start_users 300)))"

lemma quiet_second:
  assumes "(us_count us + 1) mod 10 \<noteq> 0" shows "fwx_timeout_handler jc ev inp us = Inr (us\<lparr>us_count := us_count us + 1\<rparr>)"
proof -
  have "(us_count us + 1) mod 20 \<noteq> 0" "(us_count us + 1) mod 600 \<noteq> 0"
    using assms by (auto simp: mod_eq_0_iff_dvd intro: dvd_trans [where b = 20] dvd_trans [where b = 600])
  then show ?thesis using assms by (simp only: fwx_timeout_handler_def Let_def CLIENT_BACKUP_SYNC_INTERVAL_SEC_def ub_bind_simps if_False)
qed

lemma quiet_seconds:
  assumes r: "users_reach jc tok P us0 us" and P: "P ev" and m: "us_count us mod 10 = 0"
  shows "n < 10 \<Longrightarrow> users_reach jc tok P us0 (us\<lparr>us_count := us_count us + int n\<rparr>)"
proof (induction n)
  case 0
  show ?case using r by simp
next
  case (Suc n)
  let ?us = "us\<lparr>us_count := us_count us + int n\<rparr>"
  have "(us_count us + int n + 1) mod 10 \<noteq> 0" using m Suc.prems by presburger
  then have s: "fwx_timeout_handler jc ev inp ?us = Inr (?us\<lparr>us_count := us_count ?us + 1\<rparr>)" for inp
    by (intro quiet_second) simp
  have "?us\<lparr>us_count := us_count ?us + 1\<rparr> = us\<lparr>us_count := us_count us + int (Suc n)\<rparr>" by (simp add: add.commute)
  moreover have "users_reach jc tok P us0 (?us\<lparr>us_count := us_count ?us + 1\<rparr>)"
    by (rule users_reach.second) (use Suc in simp, rule P, rule s)
  ultimately show ?case by (simp only:)
qed

lemma demo_round_reach:
  assumes r: "users_reach tree_obj tok P us0 us" and P: "P (demo_world now)" and m: "us_count us mod 10 = 0"
  shows "users_reach tree_obj tok P us0 (demo_round now listing us)"
proof (cases "fwx_timeout_handler tree_obj (demo_world now) (demo_inputs listing) (us\<lparr>us_count := us_count us + 9\<rparr>)")
  case (Inl u)
  then show ?thesis using r by (simp add: demo_round_def)
next
  case (Inr us')
  have q: "users_reach tree_obj tok P us0 (us\<lparr>us_count := us_count us + 9\<rparr>)"
    using quiet_seconds [where n = 9, OF r P m] by simp
  show ?thesis using users_reach.second [OF q P Inr] by (simp add: demo_round_def Inr)
qed

lemma demo_users_reach:
  assumes P: "\<And>now. P (demo_world now)" shows "users_reach tree_obj tok P (start_users 300) demo_users"
  unfolding demo_users_def
proof (intro demo_round_reach P users_reach.start)
qed code_simp+

lemma demo_no_files: "load_client_backup_from_files tree_obj (demo_world 90000) None (start_users 300) = Inr (start_users 300)"
  by (simp add: load_client_backup_from_files_def)

text \<open>A lease with a name of seventy characters, which fills its array.\<close>

definition demo_lease :: bytes where
  "demo_lease = cstr ''90100 '' @ demo_mac @ cstr '' 10.0.0.2 '' @ replicate 70 0x61 @ cstr '' *'' @ [0x0A]"

definition demo_named :: users where
  "demo_named = (case fwx_timeout_handler tree_obj (demo_world 10) ((demo_inputs [])\<lparr>in_leases := Some demo_lease\<rparr>)
     ((start_users 300)\<lparr>us_count := 9\<rparr>) of Inr us' \<Rightarrow> us' | Inl _ \<Rightarrow> start_users 300)"

lemma demo_named_reach: "users_reach tree_obj (\<lambda>_. None) (\<lambda>_. True) (start_users 300) demo_named"
proof -
  have "users_reach tree_obj (\<lambda>_. None) (\<lambda>_. True) (start_users 300) ((start_users 300)\<lparr>us_count := us_count (start_users 300) + int 9\<rparr>)"
    by (rule quiet_seconds [OF users_reach.start]) (simp_all add: start_users_def)
  moreover have "(start_users 300)\<lparr>us_count := us_count (start_users 300) + int 9\<rparr> = (start_users 300)\<lparr>us_count := 9\<rparr>"
    by (simp add: start_users_def)
  ultimately have q: "users_reach tree_obj (\<lambda>_. None) (\<lambda>_. True) (start_users 300) ((start_users 300)\<lparr>us_count := 9\<rparr>)" by (simp only:)
  show ?thesis
    unfolding demo_named_def using users_reach.second [OF q] users_reach.start by (auto split: sum.split)
qed

lemma users_stay_ok_witness:
  "users_ok demo_named \<and> map cn_hostname (us_clients demo_named) = [replicate 64 0x61] \<and>
    (\<exists>us'. fwx_timeout_handler tree_obj (demo_world 20) ((demo_inputs [])\<lparr>in_leases := Some demo_lease\<rparr>) demo_named = Inr us')"
proof -
  let ?inp = "(demo_inputs [])\<lparr>in_leases := Some demo_lease\<rparr>"
  note ok = users_stay_ok [OF demo_no_files demo_named_reach]
  have fit: "leases_fit (Some demo_lease)" "\<forall>n. en_calloc (demo_world 20) Client_node n"
    by (code_simp, simp add: demo_world_def)
  have "(us_count demo_named + 1) mod 20 \<noteq> 0" "map cn_hostname (us_clients demo_named) = [replicate 64 0x61]" by code_simp+
  moreover from this have "fwx_timeout_handler tree_obj (demo_world 20) ?inp demo_named \<noteq> Inl e" for e
    using ok [THEN conjunct2, THEN conjunct1, rule_format, of "demo_world 20" ?inp e] fit by auto
  then have "\<exists>us'. fwx_timeout_handler tree_obj (demo_world 20) ?inp demo_named = Inr us'"
    by (cases "fwx_timeout_handler tree_obj (demo_world 20) ?inp demo_named") auto
  ultimately show ?thesis using ok by blast
qed

text \<open>The list that is written next overflows.\<close>

lemma demo_name_overflows:
  "fwx_timeout_handler tree_obj (demo_world 20) (demo_inputs []) (demo_named\<lparr>us_count := 19\<rparr>) = Inl (BufferOverflow ''hostname_buf'')"
  by code_simp

lemma comings_alternate_witness: "alternating (actions demo_mac (us_records demo_users)) \<and> actions demo_mac (us_records demo_users) = [1, 0]"
proof
  have "record_memory (demo_world now)" for now by (simp add: record_memory_def demo_world_def)
  then have r: "users_reach tree_obj (\<lambda>_. None) record_memory (start_users 300) demo_users" by (rule demo_users_reach)
  show "alternating (actions demo_mac (us_records demo_users))"
    using comings_alternate [OF demo_no_files _ r] by (simp add: start_users_def)
  show "actions demo_mac (us_records demo_users) = [1, 0]" by code_simp
qed

end
