(* ===== verification/Fwxd_History_Correct.thy ===== *)
theory Fwxd_History_Correct
  imports Fwxd_History Fwxd_User_Demo Fwxd_Custom_Text "HOL-Library.Sublist"
begin

text \<open>
  What the deletion of old data keeps and deletes: the dates in names are read back, files and rows of the last
  thirty days stay, and a database that is too large loses its oldest quarter.
\<close>

section \<open>Dates read back\<close>

lemma scan_digits:
  assumes "list_all is_digit ds" "ds \<noteq> []" and "rest = [] \<or> \<not> is_digit (hd rest)" and "k_atoi_loop 0 ds = n" and "0 \<le> n" "n < 2 ^ 31"
  shows "scan_int (ds @ rest) = Some (n, rest)"
proof -
  obtain c cs where ds: "ds = c # cs" using assms(2) by (cases ds) auto
  then have c: "is_digit c" using assms(1) by simp
  have tw: "takeWhile is_digit (ds @ rest) = ds" "dropWhile is_digit (ds @ rest) = rest"
    using assms(1,3) by (cases rest; auto simp: list_all_iff takeWhile_append dropWhile_append)+
  have "scan_number (ds @ rest) = Some (n, rest)"
    using assms(2,4-6) tw digit_not_blank [OF c] by (simp add: scan_number_def Let_def ds)
  then show ?thesis
    using assms(5,6) digit_not_blank [OF c] by (simp add: scan_int_def ds to_int32_id)
qed

lemma digits_zeros: "k_atoi_loop 0 (replicate k 0x30 @ ds) = k_atoi_loop 0 ds"
  by (induction k) (simp_all add: is_digit_def)

lemma padded_digits:
  assumes "0 \<le> n"
  shows "list_all is_digit (padded w n)" "padded w n \<noteq> []" "k_atoi_loop 0 (padded w n) = n"
  using assms nat_dec_digits [of "nat n"]
  by (auto simp: padded_def digits_zeros k_atoi_nat_dec list_all_iff is_digit_def)

lemma scan_padded:
  assumes "0 \<le> n" "n < 2 ^ 31" and "rest = [] \<or> \<not> is_digit (hd rest)"
  shows "scan_int (padded w n @ rest) = Some (n, rest)"
  using scan_digits [OF padded_digits(1,2) [OF assms(1)] assms(3) padded_digits(3) [OF assms(1)] assms(1,2)] .

lemma length_nat_dec_eq:
  "n < 10 \<Longrightarrow> length (nat_dec n) = 1" "10 \<le> n \<Longrightarrow> length (nat_dec n) = Suc (length (nat_dec (n div 10)))"
  by (simp_all add: nat_dec.simps [of n])

lemma two_digits_padded: "0 \<le> n \<Longrightarrow> n < 100 \<Longrightarrow> two_digits n = padded 2 n"
  by (auto simp: two_digits_def padded_def print_number_def length_nat_dec_eq)

lemma year_padded:
  assumes "1000 \<le> n" "n < 10000" shows "print_number n = padded 4 n" "length (padded 4 n) = 4"
proof -
  have "length (nat_dec (nat n)) = 4"
    using assms by (simp add: length_nat_dec_eq nat_le_eq_zle le_nat_iff)
  then show "print_number n = padded 4 n" "length (padded 4 n) = 4" using assms by (simp_all add: padded_def print_number_def)
qed

text \<open>A day that a calendar of four-digit years gives.\<close>

definition calendar_day :: "tm \<Rightarrow> bool" where
  "calendar_day t \<longleftrightarrow> 1000 \<le> tm_year t + 1900 \<and> tm_year t + 1900 < 10000 \<and> 0 \<le> tm_mon t \<and> tm_mon t < 12 \<and> 1 \<le> tm_mday t \<and> tm_mday t \<le> 31"

definition date_text :: "tm \<Rightarrow> bytes" where
  "date_text t = padded 4 (tm_year t + 1900) @ cstr ''-'' @ padded 2 (tm_mon t + 1) @ cstr ''-'' @ padded 2 (tm_mday t)"

definition midnight :: "tm \<Rightarrow> tm" where
  "midnight t = \<lparr>tm_sec = 0, tm_min = 0, tm_hour = 0, tm_mday = tm_mday t, tm_mon = tm_mon t, tm_year = tm_year t,
     tm_wday = 0, tm_isdst = 0\<rparr>"

lemma date_string:
  assumes "en_localtime ev (uint date) = Some t" and "calendar_day t"
  shows "get_date_string ev date = date_text t"
  using assms by (simp add: get_date_string_def date_text_def calendar_day_def year_padded two_digits_padded)

lemma length_padded_2: "0 \<le> n \<Longrightarrow> n < 100 \<Longrightarrow> length (padded 2 n) = 2"
  by (cases "n < 10") (auto simp: padded_def length_nat_dec_eq nat_le_eq_zle le_nat_iff)

lemma length_date_text: "calendar_day t \<Longrightarrow> length (date_text t) = 10"
  by (simp add: date_text_def calendar_day_def year_padded length_padded_2)

lemma scan_date_text:
  assumes "calendar_day t" and "rest = [] \<or> \<not> is_digit (hd rest)"
  shows "scan_date (date_text t @ rest) = Some (tm_year t + 1900, tm_mon t + 1, tm_mday t)"
proof -
  have d: "\<not> is_digit 0x2D" by (simp add: is_digit_def)
  have "scan_int (padded 4 (tm_year t + 1900) @ 0x2D # r) = Some (tm_year t + 1900, 0x2D # r)"
    "scan_int (padded 2 (tm_mon t + 1) @ 0x2D # r) = Some (tm_mon t + 1, 0x2D # r)"
    "scan_int (padded 2 (tm_mday t) @ rest) = Some (tm_mday t, rest)" for r
    using assms d by (simp_all add: scan_padded calendar_day_def)
  then show ?thesis by (simp add: scan_date_def date_text_def literal_def)
qed

lemma parse_date_text: "calendar_day t \<Longrightarrow> parse_date_string ev (date_text t) = word_of_int (en_mktime ev (midnight t))"
  using scan_date_text [of t "[]"]
  by (simp add: parse_date_string_def midnight_def calendar_day_def to_int32_id)

definition data_prefixes :: "bytes list" where
  "data_prefixes = [cstr ''hourly_'', cstr ''top_apps_'', cstr ''traffic_'']"

lemma extract_date_text:
  assumes "calendar_day t" and "pre \<in> set data_prefixes"
  shows "extract_date_from_filename (pre @ date_text t @ cstr ''.json'') = Some (date_text t)"
proof -
  have strip: "strip_prefix [cstr ''hourly_'', cstr ''top_apps_'', cstr ''traffic_''] (pre @ r) = r" for r
    using assms(2) by (auto simp: data_prefixes_def)
  have scan: "scan_date (date_text t @ cstr ''.json'') = Some (tm_year t + 1900, tm_mon t + 1, tm_mday t)"
    by (rule scan_date_text [OF assms(1)]) (simp add: is_digit_def)
  have "take 31 (date_text t) = date_text t" using length_date_text [OF assms(1)] by simp
  then show ?thesis unfolding extract_date_from_filename_def strip scan by (simp add: date_text_def)
qed

lemma file_day_text:
  assumes "calendar_day t" and "pre \<in> set data_prefixes"
  shows "file_day ev (pre @ date_text t @ cstr ''.json'') = word_of_int (en_mktime ev (midnight t))"
proof -
  have "take 1 (pre @ r) \<noteq> cstr ''.''" for r using assms(2) by (auto simp: data_prefixes_def)
  then show ?thesis unfolding file_day_def extract_date_text [OF assms] option.case parse_date_text [OF assms(1)] by (simp only: if_False)
qed

section \<open>Which files are deleted\<close>

definition last_part :: "bytes \<Rightarrow> bytes" where
  "last_part path = rev (takeWhile (\<lambda>c. c \<noteq> 0x2F) (rev path))"

lemma last_part_append: "0x2F \<notin> set name \<Longrightarrow> last_part (dir @ 0x2F # name) = name"
  by (simp add: last_part_def takeWhile_append takeWhile_eq_all_conv [THEN iffD2])

lemma belowD: "below dir path = Some r \<Longrightarrow> path = dir @ 0x2F # r"
proof -
  assume "below dir path = Some r"
  then have "take (length dir + 1) path = dir @ [0x2F]" "r = drop (length dir + 1) path" by (auto simp: below_def split: if_splits)
  then show ?thesis by (metis append.assoc append_Cons append_Nil append_take_drop_id)
qed

lemma below_append [simp]: "below dir (dir @ 0x2F # r) = Some r"
  by (simp add: below_def)

lemma global_file_last: "global_file ev path = Some name \<Longrightarrow> name = last_part path"
  using last_part_append [of name]
  by (auto simp: global_file_def is_name_def split: option.splits if_splits dest!: belowD)

lemma split_first: "0x2F \<in> set r \<Longrightarrow> r = first_part r @ 0x2F # rest_parts r"
proof (induction r)
  case (Cons c r)
  then show ?case by (cases "c = 0x2F") (auto simp: first_part_def rest_parts_def)
qed simp

lemma client_file_Some:
  "client_file ev path = Some (c, k, name) \<longleftrightarrow> is_name name \<and> 0x2F \<notin> set c \<and> 0x2F \<notin> set k \<and>
    path = get_client_data_base_dir ev @ 0x2F # c @ 0x2F # k @ 0x2F # name"
proof
  assume "client_file ev path = Some (c, k, name)"
  then obtain r where r: "below (get_client_data_base_dir ev) path = Some r" and
    parts: "is_name name" "name = rest_parts (rest_parts r)" "c = first_part r" "k = first_part (rest_parts r)"
    by (auto simp: client_file_def split: option.splits if_splits)
  have slash: "0x2F \<in> set s" if "rest_parts s \<noteq> []" for s
  proof (rule ccontr)
    assume "0x2F \<notin> set s"
    then have "first_part s = s" by (auto simp: first_part_def takeWhile_eq_all_conv)
    then show False using that by (simp add: rest_parts_def)
  qed
  have n: "rest_parts (rest_parts r) \<noteq> []" using parts by (simp add: is_name_def)
  have "rest_parts r \<noteq> []" using n by (auto simp: rest_parts_def [of "[]"])
  from split_first [OF slash [OF this]] split_first [OF slash [OF n]]
  have "r = c @ 0x2F # k @ 0x2F # name" using parts by simp
  moreover have "0x2F \<notin> set (first_part s)" for s by (auto simp: first_part_def dest: set_takeWhileD)
  ultimately show "is_name name \<and> 0x2F \<notin> set c \<and> 0x2F \<notin> set k \<and> path = get_client_data_base_dir ev @ 0x2F # c @ 0x2F # k @ 0x2F # name"
    using parts belowD [OF r] by simp
next
  assume "is_name name \<and> 0x2F \<notin> set c \<and> 0x2F \<notin> set k \<and> path = get_client_data_base_dir ev @ 0x2F # c @ 0x2F # k @ 0x2F # name"
  moreover from this have "first_part (c @ 0x2F # s) = c" "first_part (k @ 0x2F # s) = k" for s
    by (simp_all add: first_part_def takeWhile_append takeWhile_eq_all_conv [THEN iffD2])
  ultimately show "client_file ev path = Some (c, k, name)"
    by (simp add: client_file_def rest_parts_def)
qed

lemma client_file_last: "client_file ev path = Some (c, k, name) \<Longrightarrow> name = last_part path"
proof -
  assume "client_file ev path = Some (c, k, name)"
  then have "path = (get_client_data_base_dir ev @ 0x2F # c @ 0x2F # k) @ 0x2F # name" "0x2F \<notin> set name"
    by (simp_all add: client_file_Some is_name_def)
  then show ?thesis using last_part_append [of name] by metis
qed

lemma unlinked:
  assumes "length p < 512" and "en_unlink ev p"
  shows "filter (\<lambda>f. fst f = p) (us_files (unlink_files ev due us)) = (if due p then [] else filter (\<lambda>f. fst f = p) (us_files us))"
  using assms by (auto simp: unlink_files_def filter_empty_conv intro!: filter_cong)

lemma due_day:
  "client_file_due ev (\<lambda>_ _ day. day < limit) p \<Longrightarrow> 0 < file_day ev (last_part p) \<and> file_day ev (last_part p) < limit"
  "global_file_due ev (\<lambda>day. day < limit) p \<Longrightarrow> 0 < file_day ev (last_part p) \<and> file_day ev (last_part p) < limit"
  by (auto simp: client_file_due_def global_file_due_def split: option.splits dest!: client_file_last global_file_last)

lemma cleaned_path:
  assumes "length p < 512" and "en_unlink ev p" and "en_localtime ev (en_now ev) \<noteq> None" "en_opendir ev (get_client_data_base_dir ev)"
    and "client_file_due ev (\<lambda>_ _ day. day < limit) p \<or> global_file_due ev (\<lambda>day. day < limit) p \<longleftrightarrow>
      0 < file_day ev (last_part p) \<and> file_day ev (last_part p) < limit" and "limit = record_limit ev"
  shows "filter (\<lambda>f. fst f = p) (us_files (cleanup_old_record_files ev us)) =
    (if 0 < file_day ev (last_part p) \<and> file_day ev (last_part p) < limit then [] else filter (\<lambda>f. fst f = p) (us_files us))"
proof -
  have "us_files (delete_expired_visit_records ev n us) = us_files us" for n
    by (simp add: delete_expired_visit_records_def delete_rows_def)
  then show ?thesis
    using assms due_day [of ev limit p] by (auto simp: cleanup_old_record_files_def unlinked Let_def)
qed

text \<open>The paths that the daemon writes to.\<close>

definition client_stats_path :: "env \<Rightarrow> bytes \<Rightarrow> bytes \<Rightarrow> u32 \<Rightarrow> bytes" where
  "client_stats_path ev mac pre date =
     snprintf_path 512 (stats_dir ev mac @ cstr ''/'' @ pre @ get_date_string ev date @ cstr ''.json'')"

definition global_stats_path :: "env \<Rightarrow> u32 \<Rightarrow> bytes" where
  "global_stats_path ev date =
     snprintf_path 512 (global_stats_dir ev @ cstr ''/traffic_'' @ get_date_string ev date @ cstr ''.json'')"

lemma written_paths:
  "map fst (us_files (save_daily_stats_to_file ev c date us)) = map fst (us_files us) @
    (if dh_date (cn_daily c) = date \<and> en_fopen ev (client_stats_path ev (cn_mac c) (cstr ''hourly_'') date)
     then [client_stats_path ev (cn_mac c) (cstr ''hourly_'') date] else [])"
  "map fst (us_files (save_daily_top_apps_stats_to_file ev c date us)) = map fst (us_files us) @
    (if dt_date (cn_top c) = date \<and> en_fopen ev (client_stats_path ev (cn_mac c) (cstr ''top_apps_'') date)
     then [client_stats_path ev (cn_mac c) (cstr ''top_apps_'') date] else [])"
  "map fst (us_files (save_global_traffic_stats_to_file ev date us)) = map fst (us_files us) @
    (if en_fopen ev (global_stats_path ev date) then [global_stats_path ev date] else [])"
  by (simp_all add: save_daily_stats_to_file_def save_daily_top_apps_stats_to_file_def save_global_traffic_stats_to_file_def
      save_json_def client_stats_path_def global_stats_path_def global_stats_dir_def)

definition plain_paths :: "env \<Rightarrow> bool" where
  "plain_paths ev \<longleftrightarrow> length (en_client_data_root ev) \<le> 200 \<and> length (en_history_data_root ev) \<le> 200"

definition files_work :: "env \<Rightarrow> bool" where
  "files_work ev \<longleftrightarrow> en_localtime ev (en_now ev) \<noteq> None \<and> (\<forall>d. en_opendir ev d) \<and> (\<forall>p. en_unlink ev p)"

lemma client_path:
  assumes "plain_paths ev" and "en_localtime ev (uint date) = Some t" "calendar_day t" and "length pre \<le> 9"
  shows "client_stats_path ev mac pre date = get_client_data_base_dir ev @ 0x2F # mac_to_dirname mac @ 0x2F #
    cstr ''stats'' @ 0x2F # pre @ date_text t @ cstr ''.json''" and "length (client_stats_path ev mac pre date) < 512"
proof -
  have b: "length (get_client_data_base_dir ev) \<le> 212" using assms(1) by (auto simp: get_client_data_base_dir_def snprintf_path_def plain_paths_def min_def)
  have m: "length (mac_to_dirname mac) \<le> 63" by (simp add: mac_to_dirname_def)
  show p: "client_stats_path ev mac pre date = get_client_data_base_dir ev @ 0x2F # mac_to_dirname mac @ 0x2F #
    cstr ''stats'' @ 0x2F # pre @ date_text t @ cstr ''.json''"
    using b m assms(4) length_date_text [OF assms(3)]
    by (simp add: client_stats_path_def stats_dir_def snprintf_path_def date_string [OF assms(2,3)])
  show "length (client_stats_path ev mac pre date) < 512"
    unfolding p using b m assms(4) length_date_text [OF assms(3)] by simp
qed

lemma global_path:
  assumes "plain_paths ev" and "en_localtime ev (uint date) = Some t" "calendar_day t"
  shows "global_stats_path ev date = global_stats_dir ev @ 0x2F # cstr ''traffic_'' @ date_text t @ cstr ''.json''"
    and "length (global_stats_path ev date) < 512"
proof -
  have b: "length (global_stats_dir ev) \<le> 213" using assms(1) by (auto simp: global_stats_dir_def snprintf_path_def plain_paths_def min_def)
  show p: "global_stats_path ev date = global_stats_dir ev @ 0x2F # cstr ''traffic_'' @ date_text t @ cstr ''.json''"
    using b length_date_text [OF assms(3)] by (simp add: global_stats_path_def snprintf_path_def date_string [OF assms(2,3)])
  show "length (global_stats_path ev date) < 512"
    unfolding p using b length_date_text [OF assms(3)] by simp
qed

lemma date_text_name: "calendar_day t \<Longrightarrow> pre \<in> set data_prefixes \<Longrightarrow> is_name (pre @ date_text t @ cstr ''.json'')"
proof -
  assume t: "calendar_day t" and pre: "pre \<in> set data_prefixes"
  have "0x2F \<notin> set (padded w n)" if "0 \<le> n" for w n
    using padded_digits(1) [OF that, of w] by (auto simp: list_all_iff is_digit_def)
  then have "0x2F \<notin> set (date_text t)" using t by (simp add: date_text_def calendar_day_def)
  then show ?thesis using pre by (auto simp: is_name_def data_prefixes_def)
qed

section \<open>Which rows are deleted\<close>

lemma map_insort_key: "map h (insort_key (\<lambda>x. f (h x)) x xs) = insort_key f (h x) (map h xs)"
  by (induction xs) simp_all

lemma map_sort_key: "map h (sort_key (\<lambda>x. f (h x)) xs) = sort_key f (map h xs)"
  by (induction xs) (simp_all add: map_insort_key)

lemma filter_taken: "distinct xs \<Longrightarrow> filter (\<lambda>x. x \<notin> set (take k xs)) xs = drop k xs"
proof -
  assume d: "distinct xs"
  then have "set (take k xs) \<inter> set (drop k xs) = {}" by (rule set_take_disj_set_drop_if_distinct) simp
  then have "filter (\<lambda>x. x \<notin> set (take k xs)) (take k xs @ drop k xs) = drop k xs"
    by (auto simp: filter_empty_conv filter_id_conv simp del: append_take_drop_id)
  then show ?thesis by simp
qed

lemma oldest_deleted:
  assumes "rows' = map ((!) rows) (filter (\<lambda>i. i \<notin> set (oldest_rows k rows)) [0..<length rows])"
  shows "sort_key vr_record_date rows' = drop k (sort_key vr_record_date rows) \<and> subseq rows' rows"
proof -
  let ?f = "\<lambda>i. vr_record_date (rows ! i)" and ?I = "[0..<length rows]"
  let ?P = "\<lambda>i. i \<notin> set (take k (sort_key ?f ?I))"
  have "sort_key vr_record_date rows' = map ((!) rows) (sort_key ?f (filter ?P ?I))"
    unfolding assms oldest_rows_def by (rule map_sort_key [symmetric])
  also have "\<dots> = map ((!) rows) (drop k (sort_key ?f ?I))"
    by (simp add: filter_sort [symmetric] filter_taken)
  also have "\<dots> = drop k (sort_key vr_record_date rows)"
    using map_sort_key [of "(!) rows" vr_record_date ?I] by (simp add: drop_map [symmetric] map_nth)
  moreover have "subseq rows' (map ((!) rows) ?I)" unfolding assms by (intro subseq_map subseq_filter_left)
  ultimately show ?thesis by (simp add: map_nth)
qed

lemma expired_files:
  assumes "plain_paths ev" "files_work ev" and "en_localtime ev (uint date) = Some t" "calendar_day t"
    and "mac \<noteq> []" "hd mac \<noteq> 0x2E" "0x2F \<notin> set mac"
    and "path = client_stats_path ev mac (cstr ''hourly_'') date \<or> path = client_stats_path ev mac (cstr ''top_apps_'') date \<or>
      path = global_stats_path ev date"
  shows "filter (\<lambda>f. fst f = path) (us_files (cleanup_old_record_files ev us)) =
      (if 0 < (word_of_int (en_mktime ev (midnight t)) :: u32) \<and> word_of_int (en_mktime ev (midnight t)) < record_limit ev
       then [] else filter (\<lambda>f. fst f = path) (us_files us))"
proof -
  let ?day = "word_of_int (en_mktime ev (midnight t)) :: u32" and ?due = "\<lambda>day. day < record_limit ev"
  have w: "en_localtime ev (en_now ev) \<noteq> None" "en_opendir ev d" "en_unlink ev p" for d p
    using assms(2) by (simp_all add: files_work_def)
  have client: "length p < 512 \<and> file_day ev (last_part p) = ?day \<and> (client_file_due ev (\<lambda>_ _. ?due) p \<longleftrightarrow> 0 < ?day \<and> ?due ?day)"
    if pre: "pre \<in> set data_prefixes" "length pre \<le> 9" and p: "p = client_stats_path ev mac pre date" for p pre
  proof -
    have m: "0x2F \<notin> set (mac_to_dirname mac)" "take 1 (mac_to_dirname mac) \<noteq> cstr ''.''"
      using assms(5-7) by (cases mac; auto simp: mac_to_dirname_def dest: in_set_takeD)+
    have f: "client_file ev p = Some (mac_to_dirname mac, cstr ''stats'', pre @ date_text t @ cstr ''.json'')"
      unfolding client_file_Some p client_path(1) [OF assms(1,3,4) pre(2)] using m date_text_name [OF assms(4) pre(1)] by simp
    then show ?thesis
      using client_path(2) [OF assms(1,3,4) pre(2)] m(2) w(2) file_day_text [OF assms(4) pre(1)] client_file_last [OF f]
      by (simp add: client_file_due_def p)
  qed
  have global: "length p < 512 \<and> file_day ev (last_part p) = ?day \<and> (global_file_due ev ?due p \<longleftrightarrow> 0 < ?day \<and> ?due ?day)"
    if p: "p = global_stats_path ev date" for p
  proof -
    have pre: "cstr ''traffic_'' \<in> set data_prefixes" by (simp add: data_prefixes_def)
    have f: "global_file ev p = Some (cstr ''traffic_'' @ date_text t @ cstr ''.json'')"
      using date_text_name [OF assms(4) pre] by (simp add: global_file_def p global_path(1) [OF assms(1,3,4)])
    then show ?thesis
      using global_path(2) [OF assms(1,3,4)] w(2) file_day_text [OF assms(4) pre] global_file_last [OF f]
      by (simp add: global_file_due_def p)
  qed
  have "length path < 512 \<and> file_day ev (last_part path) = ?day \<and>
      (client_file_due ev (\<lambda>_ _. ?due) path \<or> global_file_due ev ?due path \<longleftrightarrow> 0 < ?day \<and> ?due ?day)"
    using assms(8) client [of "cstr ''hourly_''"] client [of "cstr ''top_apps_''"] global due_day [of ev "record_limit ev" path]
    by (auto simp: data_prefixes_def)
  then show "filter (\<lambda>f. fst f = path) (us_files (cleanup_old_record_files ev us)) =
      (if 0 < ?day \<and> ?due ?day then [] else filter (\<lambda>f. fst f = path) (us_files us))"
    using cleaned_path [of path ev "record_limit ev" us] w by simp
qed

lemma expired_rows:
  assumes "files_work ev"
  shows "en_db ev (length (us_db us)) \<longrightarrow>
    us_db (cleanup_old_record_files ev us) = filter (\<lambda>r. record_limit ev \<le> vr_record_date r) (us_db us)"
proof -
  have "en_localtime ev (en_now ev) \<noteq> None" using assms by (simp add: files_work_def)
  then show ?thesis
    by (auto simp: cleanup_old_record_files_def delete_expired_visit_records_def delete_rows_def unlink_files_def Let_def not_less)
qed

section \<open>Properties\<close>

text \<open>The limit, where the clock has passed the first thirty days of 1970; before, it wraps around.\<close>

lemma record_limit_days:
  assumes "2592000 \<le> en_now ev" "en_now ev < 2 ^ 32" shows "day < record_limit ev \<longleftrightarrow> uint day + 2592000 < en_now ev"
proof -
  have "uint (word_of_int (en_now ev) :: u32) = en_now ev"
    using assms by (simp add: unsigned_of_int take_bit_int_eq_self)
  then have "uint (record_limit ev) = en_now ev - 2592000"
    using assms by (simp add: record_limit_def MAX_RECORD_DAY_def SECONDS_PER_DAY_def uint_word_ariths take_bit_eq_mod)
  then show ?thesis by (auto simp: word_less_def)
qed

text \<open>
  C10. What the nightly deletion takes. When the calendar gives years of four digits and the directories can
  be read, a file of statistics that the daemon wrote for a day, by client or for all, is deleted if and only if midnight of its date, as
  \<^verbatim>\<open>mktime\<close> gives it without daylight saving and in 32 bits, is positive and before the limit, which is now less thirty days in 32 bits; the rows that are
  deleted are those whose day is before the limit. Where the day begins at that midnight and the clock is past the first thirty days of 1970, this means
  that a file goes exactly when its day began more than thirty days ago, and a row likewise. Where daylight saving shifts that midnight, a file
  stays up to an hour longer than the rows of its day.
\<close>

theorem old_data_expires:
  assumes "plain_paths ev" "files_work ev" and "en_localtime ev (uint date) = Some t" "calendar_day t"
    and "mac \<noteq> []" "hd mac \<noteq> 0x2E" "0x2F \<notin> set mac"
    and "path = client_stats_path ev mac (cstr ''hourly_'') date \<or> path = client_stats_path ev mac (cstr ''top_apps_'') date \<or>
      path = global_stats_path ev date"
    and "day = (word_of_int (en_mktime ev (midnight t)) :: u32)" and "cleaned = cleanup_old_record_files ev us"
  shows "filter (\<lambda>f. fst f = path) (us_files cleaned) =
      (if 0 < day \<and> day < record_limit ev then [] else filter (\<lambda>f. fst f = path) (us_files us)) \<and>
    (en_db ev (length (us_db us)) \<longrightarrow> us_db cleaned = filter (\<lambda>r. record_limit ev \<le> vr_record_date r) (us_db us)) \<and>
    (2592000 \<le> en_now ev \<and> en_now ev < 2 ^ 32 \<longrightarrow>
      (day = date \<and> 0 < date \<longrightarrow> filter (\<lambda>f. fst f = path) (us_files cleaned) =
        (if uint date + 2592000 < en_now ev then [] else filter (\<lambda>f. fst f = path) (us_files us))) \<and>
      (en_db ev (length (us_db us)) \<longrightarrow> us_db cleaned = filter (\<lambda>r. \<not> uint (vr_record_date r) + 2592000 < en_now ev) (us_db us)))"
proof -
  have files: "filter (\<lambda>f. fst f = path) (us_files cleaned) =
      (if 0 < day \<and> day < record_limit ev then [] else filter (\<lambda>f. fst f = path) (us_files us))"
    unfolding assms(9,10) by (rule expired_files [OF assms(1-8)])
  have "en_db ev (length (us_db us)) \<longrightarrow> us_db cleaned = filter (\<lambda>r. record_limit ev \<le> vr_record_date r) (us_db us)"
    unfolding assms(10) by (rule expired_rows [OF assms(2)])
  then show ?thesis using files record_limit_days [of ev] by (simp flip: not_less)
qed

text \<open>
  C26. A database that is too large loses its oldest quarter. When the configured size is a positive number and the file is
  larger, a quarter of the rows, at least one, is deleted: the first by date and, on a day, by insertion. The others stay in their order.
\<close>

theorem oldest_quarter_deleted:
  assumes "strtol_10 (take 63 s) = (max_size_mb, [], overflow)" "s \<noteq> []" "0 < max_size_mb"
    and "word_of_int max_size_mb * 1024 * 1024 < db_size"
    and "en_db ev (length (us_db us))" "us_db us \<noteq> []" "length (us_db us) < 2 ^ 31"
  shows "sort_key vr_record_date (us_db (check_and_cleanup_history_data_by_size ev (Some s) (Some db_size) us)) =
      drop (max 1 (length (us_db us) div 4)) (sort_key vr_record_date (us_db us)) \<and>
    subseq (us_db (check_and_cleanup_history_data_by_size ev (Some s) (Some db_size) us)) (us_db us)"
proof (rule oldest_deleted)
  let ?n = "length (us_db us)"
  have n: "get_visit_record_count ev us = int ?n" "0 < ?n"
    using assms(5-7) by (simp_all add: get_visit_record_count_def to_int32_id)
  have k: "nat (if int ?n div 4 \<le> 0 then 1 else int ?n div 4) = max 1 (?n div 4)" by (auto simp: max_def)
  have "(if int ?n div 4 \<le> 0 then 1 else int ?n div 4) > 0" by auto
  then show "us_db (check_and_cleanup_history_data_by_size ev (Some s) (Some db_size) us) =
      map ((!) (us_db us)) (filter (\<lambda>i. i \<notin> set (oldest_rows (max 1 (?n div 4)) (us_db us))) [0..<?n])"
    using assms n by (simp add: check_and_cleanup_history_data_by_size_def delete_oldest_visit_records_batch_def Let_def not_le k)
qed

text \<open>
  C38. A request to delete a day deletes the next one in summer. Where midnight without the flag for daylight saving is an hour after
  the day began, a request for the day leaves the rows of the day, and deletes those of the day that follows.
\<close>

theorem summer_day_survives:
  assumes "en_localtime ev (uint day) = Some t" "calendar_day t" and "en_mktime ev (midnight t) = uint day + 3600"
    and "uint day + 86400 + 3600 < 2 ^ 32" and "en_db ev (length (us_db us))" and "type \<noteq> Some (cstr ''stats'')"
  shows "filter (\<lambda>r. vr_record_date r = day) (us_db (delete_client_record_files ev None (Some (get_date_string ev day))
        (Some (get_date_string ev day)) type us)) = filter (\<lambda>r. vr_record_date r = day) (us_db us) \<and>
    filter (\<lambda>r. vr_record_date r = day + 86400) (us_db (delete_client_record_files ev None (Some (get_date_string ev day))
        (Some (get_date_string ev day)) type us)) = []"
proof -
  have "0x2D \<in> set (date_text t)" by (simp add: date_text_def)
  moreover have p: "parse_date_string ev (date_text t) = day + 3600"
    using assms(3) by (simp add: parse_date_text [OF assms(2)])
  ultimately have r: "range_start ev (Some (get_date_string ev day)) = day + 3600"
    "range_end ev (Some (get_date_string ev day)) = day + 3600 + SECONDS_PER_DAY - 1"
    by (auto simp: range_start_def range_end_def date_string [OF assms(1,2)])
  have db: "us_db (delete_client_record_files ev None (Some (get_date_string ev day)) (Some (get_date_string ev day)) type us) =
      filter (\<lambda>r. \<not> (day + 3600 \<le> vr_record_date r \<and> vr_record_date r \<le> day + 3600 + 86400 - 1)) (us_db us)"
    using assms(5,6) by (simp add: delete_client_record_files_def Let_def r unlink_files_def delete_visit_records_in_range_def delete_rows_def
        SECONDS_PER_DAY_def)
  have "day < day + 3600" "day + 3600 \<le> day + 86400" "day + 86400 \<le> day + 3600 + 86400 - 1"
    using assms(4) by (simp_all add: word_less_def word_le_def uint_word_ariths)
  then show ?thesis unfolding db by (auto simp: filter_empty_conv not_less intro!: filter_cong)
qed

section \<open>Witnesses\<close>

definition demo_old_path :: bytes where
  "demo_old_path = client_stats_path (demo_world 3500000) demo_mac (cstr ''hourly_'') 86400"

definition demo_old_users :: users where
  "demo_old_users = (start_users 300)\<lparr>us_files := [(demo_old_path, JNull)], us_db := map demo_row [86400, 86400, 172800, 2592000]\<rparr>"

lemma old_data_expires_witness:
  "filter (\<lambda>f. fst f = demo_old_path) (us_files (cleanup_old_record_files (demo_world 3500000) demo_old_users)) = [] \<and>
    us_files demo_old_users \<noteq> []"
proof
  let ?ev = "demo_world 3500000" and ?t = "demo_time 86400"
  have env: "plain_paths ?ev" "files_work ?ev" by (simp_all add: plain_paths_def files_work_def demo_world_def)
  have t: "en_localtime ?ev (uint (86400 :: u32)) = Some ?t" "calendar_day ?t"
    by (simp_all add: demo_world_def demo_time_def calendar_day_def)
  have mac: "demo_mac \<noteq> []" "hd demo_mac \<noteq> 0x2E" "0x2F \<notin> set demo_mac" by (simp_all add: demo_mac_def)
  have day: "(word_of_int (en_mktime ?ev (midnight ?t)) :: u32) = 86400" "86400 < record_limit ?ev" by code_simp+
  show "filter (\<lambda>f. fst f = demo_old_path) (us_files (cleanup_old_record_files ?ev demo_old_users)) = []"
    using old_data_expires [OF env t mac disjI1 [OF demo_old_path_def] refl refl, of demo_old_users] day by simp
  show "us_files demo_old_users \<noteq> []" by (simp add: demo_old_users_def)
qed

lemma oldest_quarter_deleted_witness:
  "sort_key vr_record_date (us_db (check_and_cleanup_history_data_by_size (demo_world 90000) (Some (cstr ''1'')) (Some 2000000) demo_old_users)) =
    map demo_row [86400, 172800, 2592000]"
proof -
  have "strtol_10 (take 63 (cstr ''1'')) = (1, [], False)" by code_simp
  note oldest_quarter_deleted [OF this, of 2000000 "demo_world 90000" demo_old_users]
  moreover have "drop (max 1 (length (us_db demo_old_users) div 4)) (sort_key vr_record_date (us_db demo_old_users)) =
      map demo_row [86400, 172800, 2592000]"
    by (simp add: demo_old_users_def demo_row_def)
  ultimately show ?thesis by (simp add: demo_world_def demo_old_users_def)
qed

lemma summer_day_survives_witness:
  "map vr_record_date (filter (\<lambda>r. vr_record_date r = 86400) (us_db (delete_client_record_files (demo_summer 3500000) None
      (Some (get_date_string (demo_summer 3500000) 86400)) (Some (get_date_string (demo_summer 3500000) 86400)) None demo_old_users))) =
    [86400, 86400]"
proof -
  let ?ev = "demo_summer 3500000" and ?t = "(demo_time 86400)\<lparr>tm_isdst := 1\<rparr>"
  have "en_localtime ?ev (uint (86400 :: u32)) = Some ?t" "calendar_day ?t" "en_mktime ?ev (midnight ?t) = uint (86400 :: u32) + 3600"
    by (simp_all add: demo_summer_def demo_time_def calendar_day_def midnight_def)
  note summer_day_survives [OF this, of demo_old_users None]
  then show ?thesis by (simp add: demo_summer_def demo_world_def demo_old_users_def demo_row_def)
qed

end
