(* ===== verification/Fwxd_Archive.thy ===== *)
theory Fwxd_Archive
  imports Fwxd_User_Stat Fwxd_User_Demo "HOL-Library.Multiset"
begin

text \<open>
  What the change of the day does to the visits and the statistics of a client: each visit gets one row of the
  database while the daemon runs, rows of an earlier run are lost, and so are statistics when the day was not 24 hours long.
\<close>

section \<open>Visits that are over\<close>

definition finished :: "users \<Rightarrow> user_visit list \<Rightarrow> user_visit list" where
  "finished us vs = map (\<lambda>v. v\<lparr>uv_expire := False\<rparr>) (filter (\<lambda>v. us_app_valid_time us \<le> visit_time v) vs)"

definition row_of :: "env \<Rightarrow> bytes \<Rightarrow> user_visit \<Rightarrow> visit_row" where
  "row_of ev mac v = visit_row_of mac v (get_today_start_timestamp_from_ts ev (uv_first_time v))"

lemma row_of_mac [simp]: "vr_mac (visit_row_of mac v d) = mac" "vr_record_date (visit_row_of mac v d) = d"
  by (simp_all add: visit_row_of_def)

lemma finish_fold:
  assumes "\<forall>n. en_db ev n" and "i < length (us_clients us)"
  shows "fold (finish_visit ev i) vs us = us\<lparr>
    us_clients := (us_clients us)[i := (us_clients us ! i)\<lparr>cn_visit := rev (finished us vs) @ cn_visit (us_clients us ! i)\<rparr>],
    us_db := us_db us @ map (row_of ev (cn_mac (us_clients us ! i))) (finished us vs)\<rparr>"
  using assms(2)
proof (induction vs arbitrary: us)
  case Nil
  then show ?case by (simp add: finished_def)
next
  case (Cons v vs)
  then show ?case
    using assms(1)
    by (simp add: finish_visit_def finished_def at_client_def add_visit_info_node_def save_visit_record_to_db_def row_of_def Let_def)
qed

lemma archive_visits_eq:
  assumes "\<forall>n. en_db ev n" and "i < length (us_clients us)"
  shows "archive_visits ev i us = us\<lparr>
    us_clients := (us_clients us)[i := (us_clients us ! i)\<lparr>cn_online_visit := [],
      cn_visit := rev (finished us (cn_online_visit (us_clients us ! i))) @ cn_visit (us_clients us ! i)\<rparr>],
    us_db := us_db us @ map (row_of ev (cn_mac (us_clients us ! i))) (finished us (cn_online_visit (us_clients us ! i)))\<rparr>"
proof -
  have "finished (at_client i f us) vs = finished us vs" for f vs by (simp add: finished_def at_client_def)
  then show ?thesis
    using finish_fold [of ev i "at_client i (\<lambda>c. c\<lparr>cn_online_visit := []\<rparr>) us"] assms
    by (simp add: archive_visits_def at_client_def)
qed

text \<open>The visits of a client that are kept in memory after those that go on have been finished.\<close>

definition all_visits :: "users \<Rightarrow> nat \<Rightarrow> user_visit list" where
  "all_visits us i = rev (finished us (cn_online_visit (us_clients us ! i))) @ cn_visit (us_clients us ! i)"

definition rows_on :: "bytes \<Rightarrow> u32 \<Rightarrow> visit_row list \<Rightarrow> visit_row list" where
  "rows_on mac date = filter (\<lambda>r. vr_mac r = mac \<and> vr_record_date r = date)"

lemma archive_db:
  assumes "\<forall>n. en_db ev n" and "i < length (us_clients us)" and "mac = cn_mac (us_clients us ! i)"
  shows "us_db (archive_client ev today yesterday i us) =
    (let db = us_db us @ map (row_of ev mac) (finished us (cn_online_visit (us_clients us ! i)));
         vs = filter (on_date yesterday) (all_visits us i)
     in if vs = [] then db
        else filter (\<lambda>r. \<not> (vr_mac r = mac \<and> vr_record_date r = yesterday)) db @ map (\<lambda>v. visit_row_of mac v yesterday) vs)"
proof -
  have files: "us_db (save_daily_stats_to_file ev c d us) = us_db us" "us_db (save_daily_top_apps_stats_to_file ev c d us) = us_db us" for c d us
    by (simp_all add: save_daily_stats_to_file_def save_daily_top_apps_stats_to_file_def save_json_def)
  show ?thesis
    using assms
    by (simp add: archive_client_def Let_def archive_visits_eq save_client_visit_data_to_file_def files all_visits_def at_client_def
        del: filter_append)
qed

section \<open>Properties\<close>

text \<open>
  C8. What the change of the day leaves in the database for a client. Where days are what their dates say, each visit that still goes on and has
  reached the valid time gets one row, and shorter ones get none; the rows of other clients and other days stay. The rows that the client
  had for yesterday are replaced by one for each finished visit of yesterday that memory has, unless no visit of yesterday, finished or
  going on, is in memory. So while memory holds exactly the visits that the database has for the client and the day, what was saved
  before stays and no visit is there twice; after a restart it does not hold them, and rows are lost.
\<close>

theorem visits_saved_once:
  assumes "\<forall>n. en_db ev n" and "i < length (us_clients us)" and "c = us_clients us ! i"
    and "\<forall>v\<in>set (cn_online_visit c) \<union> set (cn_visit c).
      on_date yesterday v \<longleftrightarrow> get_today_start_timestamp_from_ts ev (uv_first_time v) = yesterday"
    and "own = (\<lambda>r. vr_mac r = cn_mac c \<and> vr_record_date r = yesterday)"
    and "memory = map (row_of ev (cn_mac c)) (filter (on_date yesterday) (cn_visit c))"
    and "added = map (row_of ev (cn_mac c)) (finished us (cn_online_visit c))"
  shows "mset (us_db (archive_client ev today yesterday i us)) = mset (filter (\<lambda>r. \<not> own r) (us_db us)) + mset added +
      mset (if filter (on_date yesterday) (all_visits us i) = [] then filter own (us_db us) else memory) \<and>
    (mset (filter own (us_db us)) = mset memory \<longrightarrow>
      mset (us_db (archive_client ev today yesterday i us)) = mset (us_db us) + mset added)"
proof -
  let ?mac = "cn_mac c" and ?D = "us_db us" and ?F = "finished us (cn_online_visit c)" and ?y = "on_date yesterday"
  have y: "?y v \<longleftrightarrow> vr_record_date (row_of ev ?mac v) = yesterday" if "v \<in> set ?F \<union> set (cn_visit c)" for v
  proof -
    have "\<exists>w\<in>set (cn_online_visit c) \<union> set (cn_visit c). uv_first_time v = uv_first_time w"
      using that by (force simp: finished_def)
    then obtain w where "w \<in> set (cn_online_visit c) \<union> set (cn_visit c)" "uv_first_time v = uv_first_time w" ..
    then show ?thesis using assms(4) by (auto simp: row_of_def on_date_def)
  qed
  have row: "map (\<lambda>v. visit_row_of ?mac v yesterday) (filter ?y vs) = map (row_of ev ?mac) (filter ?y vs)"
    if "set vs \<subseteq> set ?F \<union> set (cn_visit c)" for vs
    using that y by (auto simp: row_of_def subset_iff)
  have own: "filter own added = map (row_of ev ?mac) (filter ?y ?F)"
  proof -
    have "\<And>v. v \<in> set ?F \<Longrightarrow> own (row_of ev ?mac v) \<longleftrightarrow> ?y v" using y by (simp add: row_of_def assms(5))
    then show ?thesis by (simp add: assms(7) filter_map o_def cong: filter_cong)
  qed
  have split: "mset xs = mset (filter own xs) + mset (filter (\<lambda>r. \<not> own r) xs)" for xs
    by (simp flip: mset_append add: multiset_partition)
  define vs where "vs = filter ?y (all_visits us i)"
  have all: "vs = filter ?y (rev ?F) @ filter ?y (cn_visit c)" by (simp add: vs_def all_visits_def assms(3))
  have db: "us_db (archive_client ev today yesterday i us) = (let db = ?D @ added
     in if vs = [] then db else filter (\<lambda>r. \<not> own r) db @ map (\<lambda>v. visit_row_of ?mac v yesterday) vs)"
    using archive_db [OF assms(1,2) refl, of today yesterday] by (simp only: assms(3,5,7) vs_def Let_def)
  have main: "mset (us_db (archive_client ev today yesterday i us)) = mset (filter (\<lambda>r. \<not> own r) ?D) + mset added +
      mset (if vs = [] then filter own ?D else memory)"
  proof (cases "vs = []")
    case False
    have r: "image_mset (\<lambda>v. visit_row_of ?mac v yesterday) (filter_mset ?y (mset ws)) = image_mset (row_of ev ?mac) (filter_mset ?y (mset ws))"
      if "set ws \<subseteq> set ?F \<union> set (cn_visit c)" for ws
      using arg_cong [OF row [OF that], of mset] by simp
    have "mset (map (\<lambda>v. visit_row_of ?mac v yesterday) vs) = mset memory + mset (filter own added)"
      unfolding own all using r [of ?F] r [of "cn_visit c"] by (simp add: assms(6))
    then have "mset (us_db (archive_client ev today yesterday i us)) =
        (mset (filter (\<lambda>r. \<not> own r) ?D) + mset (filter (\<lambda>r. \<not> own r) added)) + (mset memory + mset (filter own added))"
      using False by (simp only: db Let_def if_False mset_append filter_append)
    then show ?thesis using split [of added] False by (simp only: if_False ac_simps)
  next
    case True
    then have "us_db (archive_client ev today yesterday i us) = ?D @ added" using db by simp
    then show ?thesis using split [of ?D] True by (simp add: ac_simps)
  qed
  moreover have "mset (us_db (archive_client ev today yesterday i us)) = mset ?D + mset added"
    if "mset (filter own ?D) = mset memory"
  proof -
    have "mset (if vs = [] then filter own ?D else memory) = mset (filter own ?D)" using that by simp
    then show ?thesis using main split [of ?D] by (simp only: ac_simps)
  qed
  ultimately show ?thesis unfolding vs_def by blast
qed

text \<open>
  C36. Rows of an earlier run are lost. As soon as memory has a visit of yesterday at midnight, the rows of the client for that
  day are those of memory alone: what the daemon had saved before it was restarted is deleted.
\<close>

theorem restart_loses_rows:
  assumes "\<forall>n. en_db ev n" and "i < length (us_clients us)" and "mac = cn_mac (us_clients us ! i)"
    and "filter (on_date yesterday) (all_visits us i) \<noteq> []"
  shows "rows_on mac yesterday (us_db (archive_client ev today yesterday i us)) =
    map (\<lambda>v. visit_row_of mac v yesterday) (filter (on_date yesterday) (all_visits us i))"
proof -
  have "rows_on mac yesterday (map (\<lambda>v. visit_row_of mac v yesterday) vs) = map (\<lambda>v. visit_row_of mac v yesterday) vs" for vs
    by (simp add: rows_on_def filter_id_conv)
  moreover have "rows_on mac yesterday (filter (\<lambda>r. \<not> (vr_mac r = mac \<and> vr_record_date r = yesterday)) db) = []" for db
    by (simp add: rows_on_def filter_empty_conv)
  ultimately show ?thesis
    using assms(4) by (simp add: archive_db [OF assms(1-3)] rows_on_def Let_def del: filter_filter)
qed

text \<open>
  C37. The statistics of a day of 23 or 25 hours are lost. The archive takes the day before to be 86400 seconds long; when it was not, no
  file is written for the client, and the times, the traffic and the applications of the day are erased.
\<close>

theorem clock_change_loses_statistics:
  assumes "i < length (us_clients us)" and "c = us_clients us ! i" and "dh_date (cn_daily c) = dt_date (cn_top c)"
    and "dh_date (cn_daily c) = today - 90000 \<or> dh_date (cn_daily c) = today - 82800"
    and "c' = us_clients (archive_client ev today (today - SECONDS_PER_DAY) i us) ! i"
  shows "us_files (archive_client ev today (today - SECONDS_PER_DAY) i us) = us_files us \<and>
    dh_traffic (cn_daily c') = no_traffic \<and> dh_online_time (cn_daily c') = no_hours \<and> dh_top_apps (cn_daily c') = no_top_apps \<and>
    dt_count (cn_top c') = 0"
proof -
  have d: "dh_date (cn_daily c) \<noteq> today - SECONDS_PER_DAY"
    using assms(4) by (auto simp: SECONDS_PER_DAY_def diff_eq_eq)
  have keep: "length (us_clients (fold (finish_visit ev i) vs us)) = length (us_clients us) \<and>
      us_files (fold (finish_visit ev i) vs us) = us_files us \<and>
      cn_daily (us_clients (fold (finish_visit ev i) vs us) ! i) = cn_daily (us_clients us ! i) \<and>
      cn_top (us_clients (fold (finish_visit ev i) vs us) ! i) = cn_top (us_clients us ! i)" if "i < length (us_clients us)" for vs us
    using that
    by (induction vs arbitrary: us) (simp_all add: finish_visit_def at_client_def save_visit_record_to_db_def Let_def)
  have n: "us_files (archive_visits ev i us) = us_files us" "i < length (us_clients (archive_visits ev i us))"
    "cn_daily (us_clients (archive_visits ev i us) ! i) = cn_daily c" "cn_top (us_clients (archive_visits ev i us) ! i) = cn_top c"
    using keep [of "at_client i (\<lambda>c. c\<lparr>cn_online_visit := []\<rparr>) us"] assms(1,2)
    by (simp_all add: archive_visits_def at_client_def)
  have f: "us_files (save_client_visit_data_to_file ev c d us) = us_files us" "us_clients (save_client_visit_data_to_file ev c d us) = us_clients us"
    for c d us by (simp_all add: save_client_visit_data_to_file_def Let_def)
  show ?thesis
    using d n assms(3)
    by (simp add: assms(5) archive_client_def Let_def at_client_def f init_daily_stats_default_def init_daily_top_apps_default_def)
qed

section \<open>Witnesses\<close>

text \<open>
  A client with a visit of the day 1 that is over and one that goes on; the database has the first, and a visit of an
  earlier run of the daemon if it was restarted.
\<close>

definition demo_visit :: "u32 \<Rightarrow> user_visit" where
  "demo_visit start = \<lparr>uv_appid = 3001, uv_first_time = start, uv_latest_time = start + 1000, uv_action = 0, uv_expire = False\<rparr>"

definition demo_client :: client_node where
  "demo_client = (new_client_node (demo_world 90000) demo_mac)\<lparr>cn_visit := [demo_visit 90000], cn_online_visit := [demo_visit 100000]\<rparr>"

definition demo_archive :: "visit_row list \<Rightarrow> users" where
  "demo_archive earlier = (start_users 300)\<lparr>us_clients := [demo_client],
     us_db := earlier @ [visit_row_of demo_mac (demo_visit 90000) 86400]\<rparr>"

lemma demo_archive_values:
  "\<forall>n. en_db (demo_world now) n" "0 < length (us_clients (demo_archive e))" "us_clients (demo_archive e) ! 0 = demo_client"
  "cn_mac demo_client = demo_mac" "cn_online_visit demo_client = [demo_visit 100000]" "cn_visit demo_client = [demo_visit 90000]"
  "finished (demo_archive e) [demo_visit 100000] = [demo_visit 100000]"
  by (simp_all add: demo_archive_def demo_world_def demo_client_def new_client_node_def finished_def start_users_def visit_time_def demo_visit_def)

lemma demo_dates:
  "on_date 86400 (demo_visit 90000)" "on_date 86400 (demo_visit 100000)"
  "get_today_start_timestamp_from_ts (demo_world now) (uv_first_time (demo_visit 90000)) = 86400"
  "get_today_start_timestamp_from_ts (demo_world now) (uv_first_time (demo_visit 100000)) = 86400"
  by (simp_all add: on_date_def demo_visit_def SECONDS_PER_DAY_def get_today_start_timestamp_from_ts_def demo_world_def demo_time_def)

lemma visits_saved_once_witness:
  "mset (us_db (archive_client (demo_world 172810) 172800 86400 0 (demo_archive []))) =
    {#visit_row_of demo_mac (demo_visit 90000) 86400, visit_row_of demo_mac (demo_visit 100000) 86400#}"
proof -
  let ?ev = "demo_world 172810" and ?us = "demo_archive []"
  note v = demo_archive_values(1) [of 172810] demo_archive_values(2-)
  have law: "\<forall>v\<in>set (cn_online_visit demo_client) \<union> set (cn_visit demo_client).
      on_date 86400 v \<longleftrightarrow> get_today_start_timestamp_from_ts ?ev (uv_first_time v) = 86400"
    by (simp add: v demo_dates)
  have db: "us_db ?us = [visit_row_of demo_mac (demo_visit 90000) 86400]" by (simp add: demo_archive_def)
  have memory: "mset (filter (\<lambda>r. vr_mac r = cn_mac demo_client \<and> vr_record_date r = 86400) (us_db ?us)) =
      mset (map (row_of ?ev (cn_mac demo_client)) (filter (on_date 86400) (cn_visit demo_client)))"
    by (simp add: v demo_dates row_of_def demo_archive_def)
  show ?thesis
    using visits_saved_once [OF v(1,2) v(3) [symmetric] law refl refl refl, of 172800] memory db by (simp add: v demo_dates row_of_def)
qed

lemma restart_loses_rows_witness:
  "rows_on demo_mac 86400 (us_db (archive_client (demo_world 172810) 172800 86400 0
      (demo_archive [visit_row_of demo_mac (demo_visit 87000) 86400]))) =
    [visit_row_of demo_mac (demo_visit 100000) 86400, visit_row_of demo_mac (demo_visit 90000) 86400]"
proof -
  let ?us = "demo_archive [visit_row_of demo_mac (demo_visit 87000) 86400]"
  note v = demo_archive_values(1) [of 172810] demo_archive_values(2-)
  have "filter (on_date 86400) (all_visits ?us 0) = [demo_visit 100000, demo_visit 90000]"
    by (simp add: all_visits_def v demo_dates)
  then show ?thesis using restart_loses_rows [OF v(1) v(2) [of "[visit_row_of demo_mac (demo_visit 87000) 86400]"], where mac = demo_mac and yesterday = 86400 and today = 172800] by (simp add: v)
qed

lemma clock_change_loses_statistics_witness:
  "us_files (archive_client (demo_world 176410) 176400 (176400 - SECONDS_PER_DAY) 0 (demo_archive [])) = []"
proof -
  let ?us = "demo_archive []"
  have d: "dh_date (cn_daily demo_client) = 86400" "dt_date (cn_top demo_client) = 86400"
    by (simp_all add: demo_client_def new_client_node_def get_today_start_timestamp_def demo_world_def demo_time_def)
  have "us_files (archive_client (demo_world 176410) 176400 (176400 - SECONDS_PER_DAY) 0 ?us) = us_files ?us"
    by (rule clock_change_loses_statistics [OF demo_archive_values(2) demo_archive_values(3) [symmetric] _ _ refl, THEN conjunct1])
      (simp_all add: d)
  then show ?thesis by (simp add: demo_archive_def start_users_def)
qed

end
