(* ===== verification/Fwxd_Hours.thy ===== *)
theory Fwxd_Hours
  imports Fwxd_User_Stat Fwxd_User_Demo "HOL-Library.Multiset"
begin

text \<open>
  The hours of a visit add up to the visit, and the table of the applications of a day holds their times, as long as no more
  than eight are used.
\<close>

section \<open>Hours\<close>

text \<open>\<^verbatim>\<open>localtime\<close> gives an hour of the day for every time from \<open>lo\<close> to \<open>hi\<close>, and the hour after it is a time of 32 bits.\<close>

definition clock_ok :: "env \<Rightarrow> u32 \<Rightarrow> u32 \<Rightarrow> bool" where
  "clock_ok ev lo hi \<longleftrightarrow> uint hi + 3600 < 2 ^ 32 \<and> (\<forall>t. lo \<le> t \<and> t < hi \<longrightarrow> (\<exists>tm. en_localtime ev (uint t) = Some tm \<and>
     0 \<le> tm_hour tm \<and> tm_hour tm < 24 \<and> en_mktime ev (tm\<lparr>tm_min := 0, tm_sec := 0, tm_hour := tm_hour tm + 1\<rparr>) < 2 ^ 32))"

lemma clock_steps:
  assumes "clock_ok ev lo hi" and "lo \<le> t" "t < hi"
  shows "t < get_next_hour_timestamp ev t" "0 \<le> get_hour_from_timestamp ev t" "get_hour_from_timestamp ev t < 24"
proof -
  obtain tm where tm: "en_localtime ev (uint t) = Some tm" "0 \<le> tm_hour tm" "tm_hour tm < 24"
    and n: "en_mktime ev (tm\<lparr>tm_min := 0, tm_sec := 0, tm_hour := tm_hour tm + 1\<rparr>) < 2 ^ 32" (is "?n < _")
    using assms by (auto simp: clock_ok_def)
  have "uint t + 3600 < 2 ^ 32" using assms by (simp add: clock_ok_def word_less_def)
  then have a: "t < t + 3600" by (simp add: word_less_def uint_word_ariths)
  have "t < word_of_int ?n" if "\<not> ?n \<le> uint t"
  proof -
    have "0 \<le> ?n" using that uint_ge_0 [of t] by linarith
    then have "uint (word_of_int ?n :: u32) = ?n" using n by (simp add: uint_word_of_int mod_pos_pos_trivial)
    then show ?thesis using that by (simp add: word_less_def)
  qed
  then show "t < get_next_hour_timestamp ev t" using a tm(1) by (simp add: get_next_hour_timestamp_def Let_def)
  show "0 \<le> get_hour_from_timestamp ev t" "get_hour_from_timestamp ev t < 24"
    using tm by (simp_all add: get_hour_from_timestamp_def)
qed

lemma ucast_sub:
  fixes a b :: u32 assumes "b \<le> a" shows "ucast (a - b) = (ucast a - ucast b :: u64)"
proof -
  have "uint (ucast (a - b) :: u64) = uint (ucast a - ucast b :: u64)"
    using assms uint_lt2p [of a] uint_lt2p [of b] by (simp add: uint_sub_if' word_le_def uint_up_ucast is_up)
  then show ?thesis by (simp add: word_uint_eq_iff)
qed

lemma segments_end:
  assumes "clock_ok ev lo hi" and "lo \<le> cursor" "cursor \<le> hi"
  shows "\<exists>ss. segments ev hi cursor = Some ss \<and> (\<forall>s\<in>set ss. 0 \<le> fst s \<and> fst s < 24) \<and>
    sum_list (map snd ss) = ucast hi - ucast cursor"
  using assms(2,3)
proof (induction "unat hi - unat cursor" arbitrary: cursor rule: less_induct)
  case less
  show ?case
  proof (cases "cursor < hi")
    case False
    then have "hi = cursor" using less.prems by simp
    then show ?thesis by (subst segments.simps) simp
  next
    case True
    define n where "n = (if hi < get_next_hour_timestamp ev cursor then hi else get_next_hour_timestamp ev cursor)"
    have n: "cursor < n" "n \<le> hi"
      using clock_steps(1) [OF assms(1) less.prems(1) True] True by (auto simp: n_def)
    have u: "unat cursor < unat n" "unat n \<le> unat hi" using n by (simp_all add: word_less_nat_alt word_le_nat_alt)
    have "unat hi - unat n < unat hi - unat cursor" "lo \<le> n" using u n(1) less.prems(1) by (simp_all add: less_imp_le order.trans)
    from less.hyps [OF this n(2)] obtain ss where ss: "segments ev hi n = Some ss" "\<forall>s\<in>set ss. 0 \<le> fst s \<and> fst s < 24"
      "sum_list (map snd ss) = ucast hi - ucast n" by blast
    have d: "ucast (n - cursor) = (ucast n - ucast cursor :: u64)" by (rule ucast_sub) (use n(1) in simp)
    have d0: "(ucast (n - cursor) :: u64) \<noteq> 0"
    proof
      assume "(ucast (n - cursor) :: u64) = 0"
      then have "ucast (ucast (n - cursor) :: u64) = (0 :: u32)" by simp
      then show False using n(1) by (simp add: ucast_up_ucast_id is_up)
    qed
    have "segments ev hi cursor = Some ((get_hour_from_timestamp ev cursor, ucast (n - cursor)) # ss)"
      using True ss(1) d0 by (subst segments.simps) (simp add: Let_def n_def [symmetric])
    then show ?thesis
      using ss clock_steps(2,3) [OF assms(1) less.prems(1) True] by (simp add: d)
  qed
qed

lemma sum_by_class:
  assumes "\<forall>s\<in>set ss. fst s \<in> set hs" and "distinct hs"
  shows "sum_list (map (\<lambda>h. sum_list (map snd (filter (\<lambda>s. fst s = h) ss))) hs) = (sum_list (map snd ss) :: u64)"
  using assms(1)
proof (induction ss)
  case (Cons s ss)
  have one: "sum_list (map (\<lambda>h. if fst s = h then f h + g h else g h) hs) =
      (if fst s \<in> set hs then f (fst s) else 0) + sum_list (map g hs)" for f g :: "'a \<Rightarrow> u64"
    using assms(2) by (induction hs) auto
  have "(\<lambda>h. sum_list (map snd (filter (\<lambda>s. fst s = h) (s # ss)))) =
      (\<lambda>h. if fst s = h then snd s + sum_list (map snd (filter (\<lambda>s. fst s = h) ss)) else sum_list (map snd (filter (\<lambda>s. fst s = h) ss)))"
    by auto
  then show ?case using Cons one [of "\<lambda>_. snd s"] by simp
qed simp

text \<open>
  C24. The hours of a visit add up. Where the clock gives hours of the day, the loop over a visit ends, and what it
  counts for the 24 hours is in sum the length of the visit.
\<close>

theorem hours_add_up:
  assumes "uv_first_time v < uv_latest_time v" and "clock_ok ev (uv_first_time v) (uv_latest_time v)"
  shows "\<exists>ds. map (get_visit_duration_in_hour ev v) [0..23] = map Some ds \<and>
    sum_list ds = ucast (uv_latest_time v - uv_first_time v)"
proof -
  obtain ss where ss: "segments ev (uv_latest_time v) (uv_first_time v) = Some ss" "\<forall>s\<in>set ss. 0 \<le> fst s \<and> fst s < 24"
    "sum_list (map snd ss) = ucast (uv_latest_time v) - ucast (uv_first_time v)"
    using segments_end [OF assms(2) order.refl less_imp_le [OF assms(1)]] by blast
  let ?ds = "map (\<lambda>h. sum_list (map snd (filter (\<lambda>s. fst s = h) ss))) [0..23]"
  have "map (get_visit_duration_in_hour ev v) [0..23] = map Some ?ds"
    using assms(1) ss(1) by (simp add: get_visit_duration_in_hour_def visit_segments_def HOURS_PER_DAY_def)
  moreover have "sum_list ?ds = sum_list (map snd ss)" by (rule sum_by_class) (use ss(2) in auto)
  moreover have "ucast (uv_latest_time v - uv_first_time v) = (ucast (uv_latest_time v) - ucast (uv_first_time v) :: u64)"
    by (rule ucast_sub) (use assms(1) in simp)
  ultimately show ?thesis using ss(3) by metis
qed

section \<open>The applications of a day\<close>

definition visit_length :: "user_visit \<Rightarrow> u64" where
  "visit_length v = (let n = ucast (uv_latest_time v - uv_first_time v) in if n = 0 then 1 else n)"

definition app_time :: "int \<Rightarrow> user_visit list \<Rightarrow> u64" where
  "app_time a vs = sum_list (map visit_length (filter (\<lambda>v. uv_appid v = a) vs))"

lemma find_at_entry:
  "find_at (\<lambda>e. fst e = a) t = Some i \<Longrightarrow> i < length t \<and> fst (t ! i) = a"
  "find_at (\<lambda>e. fst e = a) t = None \<longleftrightarrow> a \<notin> fst ` set t"
  by (induction t arbitrary: i) (auto split: if_splits)

text \<open>A table with one entry for each application, which has its time.\<close>

definition table_of :: "user_visit list \<Rightarrow> app_table \<Rightarrow> bool" where
  "table_of vs t \<longleftrightarrow> distinct (map fst t) \<and> fst ` set t = uv_appid ` set vs \<and> (\<forall>e\<in>set t. snd e = app_time (fst e) vs)"

lemma table_step:
  assumes "table_of vs t" and "card (uv_appid ` set (vs @ [v])) \<le> 8"
  shows "table_of (vs @ [v]) (table_add (\<lambda>n. n) (uv_appid v) (visit_length v) t)"
proof (cases "find_at (\<lambda>e. fst e = uv_appid v) t")
  case None
  then have new: "uv_appid v \<notin> fst ` set t" by (simp add: find_at_entry)
  have d: "distinct (map fst t)" and f: "fst ` set t = uv_appid ` set vs" using assms(1) by (simp_all add: table_of_def)
  have "Suc (length t) = card (insert (uv_appid v) (fst ` set t))"
    using new distinct_card [OF d] by simp
  then have "length t < MAX_APP_STAT_NUM" using assms(2) f by (simp add: MAX_APP_STAT_NUM_def)
  moreover have "filter (\<lambda>w. uv_appid w = uv_appid v) vs = []"
    unfolding filter_empty_conv by (metis f imageI new)
  ultimately show ?thesis
    using None new assms(1) by (auto simp: table_add_def table_of_def app_time_def)
next
  case (Some i)
  note i = find_at_entry(1) [OF Some]
  define t' where "t' = t[i := (uv_appid v, snd (t ! i) + visit_length v)]"
  have d: "distinct (map fst t)" and f: "fst ` set t = uv_appid ` set vs"
    and old: "\<And>k. k < length t \<Longrightarrow> snd (t ! k) = app_time (fst (t ! k)) vs" using assms(1) by (simp_all add: table_of_def)
  have m: "map fst t' = map fst t"
    unfolding t'_def map_update fst_conv using i by (metis length_map list_update_id nth_map)
  have fs: "fst ` set t' = fst ` set t" using arg_cong [OF m, of set] by simp
  have new: "snd e = app_time (fst e) (vs @ [v])" if e: "e \<in> set t'" for e
  proof -
    obtain j where j: "j < length t" "e = t' ! j" using e by (auto simp: in_set_conv_nth t'_def)
    show ?thesis
    proof (cases "j = i")
      case True
      then show ?thesis using i j old [of i] by (simp add: app_time_def t'_def)
    next
      case False
      then have "fst (t ! j) \<noteq> fst (t ! i)" using d i j(1) nth_eq_iff_index_eq [OF d, of j i] by simp
      then show ?thesis using False i j old [of j] by (auto simp: app_time_def t'_def)
    qed
  qed
  have "fst (t ! i) \<in> fst ` set t" using i by (blast intro: imageI nth_mem)
  then have "uv_appid v \<in> uv_appid ` set vs" using i f by simp
  then have "uv_appid ` set (vs @ [v]) = fst ` set t'" using f fs by (auto simp: insert_absorb)
  moreover have "table_add (\<lambda>n. n) (uv_appid v) (visit_length v) t = t'" by (simp add: table_add_def Some t'_def)
  ultimately show ?thesis using d m new by (simp add: table_of_def)
qed

lemma day_table_of: "card (uv_appid ` set vs) \<le> 8 \<Longrightarrow> table_of vs (day_table vs)"
proof (induction vs rule: rev_induct)
  case Nil
  show ?case by (simp add: table_of_def day_table_def)
next
  case (snoc v vs)
  have "card (uv_appid ` set vs) \<le> card (uv_appid ` set (vs @ [v]))" by (rule card_mono) auto
  then have "table_of vs (day_table vs)" using snoc by simp
  from table_step [OF this snoc.prems] show ?case by (simp add: day_table_def visit_length_def Let_def)
qed

text \<open>The law of \<^verbatim>\<open>qsort\<close>: the same elements, in the order of the comparison.\<close>

definition qsort_ok :: "qsort_fun \<Rightarrow> bool" where
  "qsort_ok qsort \<longleftrightarrow> (\<forall>t. mset (qsort compare_app_stat t) = mset t \<and>
     sorted_wrt (\<lambda>a b. compare_app_stat a b \<le> 0) (qsort compare_app_stat t))"

lemma top_today:
  assumes "i < length (us_clients us)"
  shows "i < length (us_clients (get_today_top_apps_stat ev i us)) \<and>
    cn_visit (us_clients (get_today_top_apps_stat ev i us) ! i) = cn_visit (us_clients us ! i)"
  using assms by (simp add: get_today_top_apps_stat_def Let_def at_client_def save_daily_top_apps_stats_to_file_def save_json_def)

text \<open>
  C25. The most used applications of a day are what they are. When no more than eight applications were used today, the list has each with
  an id and a time, with the sum of its visits as its time, and the longest times come first.
\<close>

theorem top_apps_of_the_day:
  assumes "i < length (us_clients us)" and "vs = visits_today ev (cn_visit (us_clients us ! i))"
    and "card (uv_appid ` set vs) \<le> 8" and "qsort_ok qsort"
    and "stat = cn_top (us_clients (update_daily_top_apps qsort ev i us) ! i)"
  shows "set (take (nat (dt_count stat)) (dt_apps stat)) =
      {(a, app_time a vs) | a. a \<in> uv_appid ` set vs \<and> 0 < a \<and> 0 < app_time a vs} \<and>
    distinct (map fst (take (nat (dt_count stat)) (dt_apps stat))) \<and>
    sorted_wrt (\<lambda>e e'. snd e' \<le> snd e) (take (nat (dt_count stat)) (dt_apps stat))"
proof -
  let ?t = "day_table vs"
  define s where "s = qsort compare_app_stat ?t"
  have T: "table_of vs ?t" by (rule day_table_of [OF assms(3)])
  have q: "mset s = mset ?t" "sorted_wrt (\<lambda>a b. compare_app_stat a b \<le> 0) s"
    using assms(4) by (simp_all add: qsort_ok_def s_def)
  have set: "set s = set ?t" using q(1) by (rule mset_eq_setD)
  have d: "distinct (map fst s)" using T mset_eq_imp_distinct_iff [of "map fst s" "map fst ?t"] q(1) by (simp add: table_of_def)
  have "length s = card (fst ` set s)" using distinct_card [OF d] by simp
  then have "length s \<le> 10" using T assms(3) set by (simp add: table_of_def)
  then have take: "take MAX_TOP_APPS_PER_DAY s = s" by (simp add: MAX_TOP_APPS_PER_DAY_def)
  let ?f = "filter (\<lambda>e. fst e > 0 \<and> snd e > 0) s"
  have "s = []" if "?t = []" using q(1) that by simp
  then have f: "(if ?t = [] then [] else filter (\<lambda>e. fst e > 0 \<and> snd e > 0) (take MAX_TOP_APPS_PER_DAY (qsort compare_app_stat ?t))) = ?f"
    using take by (simp add: s_def)
  define us' where "us' = get_today_top_apps_stat ev i us"
  have i: "i < length (us_clients us')" and v: "visits_today ev (cn_visit (us_clients us' ! i)) = vs"
    using top_today [OF assms(1), of ev] by (simp_all add: us'_def assms(2))
  have "cn_top (us_clients (update_daily_top_apps qsort ev i us) ! i) =
      (cn_top (us_clients us' ! i))\<lparr>dt_count := int (length ?f), dt_apps := ?f @ replicate (MAX_TOP_APPS_PER_DAY - length ?f) (-1, 0)\<rparr>"
    unfolding update_daily_top_apps_def Let_def us'_def [symmetric] v f using i by (simp add: at_client_def)
  then have top: "take (nat (dt_count stat)) (dt_apps stat) = ?f" by (simp add: assms(5))
  have "sorted_wrt (\<lambda>e e'. snd e' \<le> snd e) s"
    by (rule sorted_wrt_mono_rel [OF _ q(2)]) (auto simp: compare_app_stat_def split: if_splits)
  moreover have "distinct (map fst ?f)" using d by (rule distinct_map_filter)
  moreover have "set ?f = {(a, app_time a vs) | a. a \<in> uv_appid ` set vs \<and> 0 < a \<and> 0 < app_time a vs}"
  proof -
    have fs: "fst ` set s = uv_appid ` set vs" and sn: "\<And>e. e \<in> set s \<Longrightarrow> snd e = app_time (fst e) vs"
      using T by (simp_all add: set table_of_def)
    have "e \<in> set s \<longleftrightarrow> fst e \<in> uv_appid ` set vs \<and> snd e = app_time (fst e) vs" for e
    proof
      assume "fst e \<in> uv_appid ` set vs \<and> snd e = app_time (fst e) vs"
      then obtain e' where "e' \<in> set s" "fst e' = fst e" "snd e = app_time (fst e) vs" using fs by (metis imageE)
      then show "e \<in> set s" using sn by (metis prod_eqI)
    qed (use fs sn in auto)
    then show ?thesis by auto
  qed
  ultimately show ?thesis unfolding top by (simp add: sorted_wrt_filter)
qed

section \<open>What the table forgets\<close>

text \<open>
  A ninth application is counted only when one of its visits is longer than the least time in the table: short visits are
  never added up.
\<close>

lemma min_idx_in: "length t = 8 \<Longrightarrow> min_idx t < length t"
proof -
  assume t: "length t = 8"
  have "foldl (\<lambda>m i. if snd (t ! i) < snd (t ! m) then i else m) m is < 8" if "m < 8" "\<forall>i\<in>set is. i < 8" for m "is"
    using that by (induction "is" arbitrary: m) auto
  then show ?thesis using t by (simp add: min_idx_def MAX_APP_STAT_NUM_def)
qed

lemma ninth_app_lost:
  assumes "length (day_table vs) = 8" and "\<forall>v\<in>set ws. uv_appid v \<notin> fst ` set (day_table vs)"
    and "\<forall>v\<in>set ws. \<forall>e\<in>set (day_table vs). visit_length v \<le> snd e"
  shows "day_table (vs @ ws) = day_table vs"
proof -
  have "day_table (vs @ ws) = fold (\<lambda>v. table_add (\<lambda>n. n) (uv_appid v) (visit_length v)) ws (day_table vs)"
    by (simp add: day_table_def visit_length_def Let_def)
  also have "\<dots> = day_table vs"
    using assms(2,3)
  proof (induction ws)
    case (Cons v ws)
    have "find_at (\<lambda>e. fst e = uv_appid v) (day_table vs) = None" using Cons.prems(1) by (simp add: find_at_entry)
    moreover have "visit_length v \<le> snd (day_table vs ! min_idx (day_table vs))"
      using Cons.prems(2) min_idx_in [OF assms(1)] by simp
    ultimately have "table_add (\<lambda>n. n) (uv_appid v) (visit_length v) (day_table vs) = day_table vs"
      using assms(1) by (simp add: table_add_def MAX_APP_STAT_NUM_def leD)
    then show ?case using Cons by simp
  qed simp
  finally show ?thesis .
qed

section \<open>Witnesses\<close>

definition demo_use :: "int \<Rightarrow> u32 \<Rightarrow> u32 \<Rightarrow> user_visit" where
  "demo_use a start n = \<lparr>uv_appid = a, uv_first_time = start, uv_latest_time = start + n, uv_action = 0, uv_expire = False\<rparr>"

definition demo_qsort :: qsort_fun where
  "demo_qsort cmp t = rev (sort_key snd t)"

lemma clock_demo:
  assumes h: "uint hi + 3600 < 2 ^ 32" shows "clock_ok (demo_world now) lo hi"
proof -
  have "\<exists>tm. en_localtime (demo_world now) (uint t) = Some tm \<and> 0 \<le> tm_hour tm \<and> tm_hour tm < 24 \<and>
      en_mktime (demo_world now) (tm\<lparr>tm_min := 0, tm_sec := 0, tm_hour := tm_hour tm + 1\<rparr>) < 2 ^ 32" if "t < hi" for t
  proof (intro exI [of _ "demo_time (uint t)"] conjI)
    let ?h = "uint t div 3600"
    have arith: "d * 86400 + (m + 1) * 3600 < (2 :: int) ^ 32"
      if "d * 24 + m = k" "k * 3600 \<le> a" "a < b" "b + 3600 < 2 ^ 32" for d m k a b using that by simp
    have "uint t div 86400 = ?h div 24" using zdiv_zmult2_eq [of 24 "uint t" 3600] by simp
    moreover have "?h div 24 * 24 + ?h mod 24 = ?h" by simp
    moreover have "?h * 3600 \<le> uint t" by simp
    moreover have "uint t < uint hi" using that by (simp add: word_less_def)
    ultimately have "uint t div 86400 * 86400 + (?h mod 24 + 1) * 3600 < 2 ^ 32" using h arith by metis
    then show "en_mktime (demo_world now) ((demo_time (uint t))\<lparr>tm_min := 0, tm_sec := 0, tm_hour := tm_hour (demo_time (uint t)) + 1\<rparr>) < 2 ^ 32"
      by (simp add: demo_world_def demo_time_def)
  qed (simp_all add: demo_world_def demo_time_def)
  then show ?thesis using h by (simp add: clock_ok_def)
qed

lemma hours_add_up_witness:
  "\<exists>ds. map (get_visit_duration_in_hour (demo_world 100000) (demo_use 3001 90000 4000)) [0..23] = map Some ds \<and> sum_list ds = 4000"
  using hours_add_up [OF _ clock_demo, of "demo_use 3001 90000 4000" 100000] by (simp add: demo_use_def)

lemma demo_qsort_ok: "qsort_ok demo_qsort"
proof -
  have "sorted_wrt (\<lambda>a b. snd a \<le> snd b) (sort_key snd t)" for t :: app_table
    using sorted_sort_key [of snd t] by (simp add: sorted_map)
  then have "sorted_wrt (\<lambda>a b. compare_app_stat a b \<le> 0) (rev (sort_key snd t))" for t :: app_table
    unfolding sorted_wrt_rev by (rule sorted_wrt_mono_rel [rotated]) (auto simp: compare_app_stat_def)
  then show ?thesis by (simp add: qsort_ok_def demo_qsort_def)
qed

definition demo_day :: users where
  "demo_day = (start_users 300)\<lparr>us_clients := [(new_client_node (demo_world 100000) demo_mac)\<lparr>cn_visit :=
     [demo_use 3001 90000 500, demo_use 3002 91000 600, demo_use 3001 92000 200]\<rparr>]\<rparr>"

lemma top_apps_of_the_day_witness:
  "set (take (nat (dt_count (cn_top (us_clients (update_daily_top_apps demo_qsort (demo_world 100000) 0 demo_day) ! 0))))
      (dt_apps (cn_top (us_clients (update_daily_top_apps demo_qsort (demo_world 100000) 0 demo_day) ! 0)))) = {(3001, 700), (3002, 600)}"
proof -
  let ?ev = "demo_world 100000" and ?vs = "[demo_use 3001 90000 500, demo_use 3002 91000 600, demo_use 3001 92000 200]"
  have i: "0 < length (us_clients demo_day)" by (simp add: demo_day_def)
  have vs: "?vs = visits_today ?ev (cn_visit (us_clients demo_day ! 0))" by code_simp
  have c: "card (uv_appid ` set ?vs) \<le> 8" by (simp add: demo_use_def card_insert_if)
  have t: "app_time 3001 ?vs = 700" "app_time 3002 ?vs = 600" by code_simp+
  have "{(a, app_time a ?vs) | a. a \<in> uv_appid ` set ?vs \<and> 0 < a \<and> 0 < app_time a ?vs} = {(3001, 700), (3002, 600)}"
    using t by (auto simp: demo_use_def)
  then show ?thesis using top_apps_of_the_day [OF i vs c demo_qsort_ok refl] by simp
qed

end
