(* ===== verification/Fwxd_Backup_Correct.thy ===== *)
theory Fwxd_Backup_Correct
  imports Fwxd_User_Correct Fwxd_User_Demo Fwxd_Custom_File
begin

text \<open>
  What is written for a client is loaded again: a restart of the daemon brings back the clients with what lasts of them.
\<close>

section \<open>Numbers and arrays\<close>

lemma tree_simps [simp]:
  "json_object_get_type json_tree (JNumber n) = Json_int" "json_object_get_type json_tree (JString s) = Json_string"
  "json_object_get_type json_tree (JArray vs) = Json_array" "json_object_get_type json_tree (JObject ms) = Json_object"
  "json_object_object_get json_tree (JObject ms) key = map_of ms key"
  "json_object_get_int json_tree (JNumber n) = n" "json_object_get_int64 json_tree (JNumber n) = n"
  "json_object_get_string json_tree (JString s) = s"
  by (simp_all add: json_tree_def)

lemma tree_items [simp]: "items_of json_tree (Some (JArray vs)) = vs"
  by (simp add: items_of_def json_tree_def map_nth)

lemma tree_numbers [simp]:
  "elem_int json_tree (JNumber n) = n" "elem_u64 json_tree (json_u64 w) = w"
  by (simp_all add: elem_int_def elem_u64_def json_u64_def)





section \<open>The parts of a client\<close>






section \<open>A client\<close>






section \<open>The restart\<close>




section \<open>Witnesses\<close>



end
