(* ===== verification/Fwxd_Lease.thy ===== *)
theory Fwxd_Lease
  imports Fwxd_User_Proc Fwxd_User_Demo
begin

text \<open>A line of the file of leases that overflows the array for the address.\<close>

lemma fgets_first:
  assumes "0x0A \<notin> set line" "0 \<notin> set line" and "length line < n"
  shows "\<exists>ls. fgets_lines n (line @ 0x0A # rest) = (line @ [0x0A]) # ls"
proof -
  have tw: "takeWhile (\<lambda>c. c \<noteq> 0x0A) (line @ 0x0A # rest) = line" using assms(1) by (simp add: takeWhile_append takeWhile_eq_all_conv [THEN iffD2])
  then have len: "fgets_len n (line @ 0x0A # rest) = Suc (length line)" using assms(3) by (simp add: fgets_len_def)
  have "c_string (line @ [0x0A]) = line @ [0x0A]"
    using assms(2) by (auto simp: c_string_def takeWhile_eq_all_conv)
  then show ?thesis using assms(3) by (subst fgets_lines.simps) (simp add: len)
qed

text \<open>
  C39. A long identifier in the file of leases overflows an array. \<^verbatim>\<open>dnsmasq\<close> writes a line with \<^verbatim>\<open>duid\<close> and the
  server's identifier; one of 32 characters or more, as identifiers with a time are, is copied into an array of 32 bytes.
\<close>

theorem long_duid_overflows:
  assumes "\<not> (\<exists>c\<in>set w. isspace_c c)" "0 \<notin> set w" and "32 \<le> length w" "length w \<le> 200"
  shows "update_client_hostname ev (Some (cstr ''duid '' @ w @ 0x0A # rest)) us = Inl (BufferOverflow ''mac_buf'')"
proof -
  let ?line = "cstr ''duid '' @ w"
  have nl: "isspace_c 0x0A" "isspace_c 0x20" by (simp_all add: isspace_c_def)
  then have "0x0A \<notin> set ?line" "0 \<notin> set ?line" using assms(1,2) by auto
  then obtain ls where ls: "fgets_lines 255 (?line @ 0x0A # rest) = (?line @ [0x0A]) # ls"
    using fgets_first [of ?line 255 rest] assms(4) by auto
  obtain c cs where w: "w = c # cs" using assms(3) by (cases w) auto
  have d: "\<not> isspace_c x" if "x \<in> set (cstr ''duid'')" for x using that by (auto simp: isspace_c_def)
  have skip: "dropWhile isspace_c ?line = ?line" using d by (simp add: isspace_c_def)
  have word: "word_len (cstr ''duid'' @ 0x20 # w @ [0x0A]) = 4" using d nl by (simp add: word_len_def)
  have wl: "word_len (w @ [0x0A]) = length w" "dropWhile isspace_c (w @ [0x0A]) = w @ [0x0A]"
    using assms(1) nl w by (auto simp: word_len_def takeWhile_append takeWhile_eq_all_conv [THEN iffD2])
  have "\<exists>vs. sscanf [Skip_word, Conv_word, Conv_word, Conv_word] (?line @ [0x0A]) = Scanned_word w # vs"
    using skip word wl w nl d by (simp add: sscanf.simps(2) Let_def)
  then obtain vs where vs: "sscanf [Skip_word, Conv_word, Conv_word, Conv_word] (?line @ [0x0A]) = Scanned_word w # vs" by blast
  have "read_lease ev (?line @ [0x0A]) (b, us) = Inl (BufferOverflow ''mac_buf'')" for b
    using assms(3) vs by (simp add: read_lease_def scan_lease_def Let_def scanned_word_def copy_field_def)
  then show ?thesis using ls by (simp add: update_client_hostname_def)
qed

lemma long_duid_overflows_witness:
  "update_client_hostname (demo_world 90000) (Some (cstr ''duid '' @ cstr ''00:01:00:01:2c:9a:1b:33:02:00:00:00:00:01'' @ 0x0A # []))
    (start_users 300) = Inl (BufferOverflow ''mac_buf'')"
  by (rule long_duid_overflows) (simp_all add: isspace_c_def)

end
