(* ===== verification/Fwxd_Report.thy ===== *)
theory Fwxd_Report
  imports Fwxd_Backup_Correct Fwx_Client_Timer
begin

text \<open>
  The kernel module and the daemon together: what the daemon makes of the report that the kernel module sends for a client.
\<close>

section \<open>Addresses\<close>





section \<open>The visits of a report\<close>

















section \<open>Times and traffic\<close>


lemma save_daily_rest [simp]:
  "us_traffic (save_daily_stats_to_file ev c date us) = us_traffic us"
  "us_traffic_date (save_daily_stats_to_file ev c date us) = us_traffic_date us"
  by (simp_all add: save_daily_stats_to_file_def save_json_def)






section \<open>The report\<close>






section \<open>Witnesses\<close>





end
