(* ===== verification/Spec2Isabelle.thy ===== *)
theory Spec2Isabelle
  imports Fwxd_System Fwxd_User_Reach Fwxd_History_Correct Fwxd_Archive Fwxd_Hours Fwxd_Backup_Correct Fwxd_Lease Fwxd_Report
begin

text \<open>
  OpenAppFilter (\<^verbatim>\<open>src/luci-app-oaf\<close>) recognises applications in the traffic of a router and drops
  what its rules forbid. The kernel module (\<^verbatim>\<open>oaf/src\<close>) looks at the packets of the LAN's clients;
  the daemon (\<^verbatim>\<open>open-app-filter/src\<close>) loads the features of the applications into it, sends it the
  rules and collects what it reports. This library models the kernel module and, of the daemon, what
  produces and loads the features and what keeps the clients and their statistics.

  \<^bold>\<open>The parts and how they interact.\<close> A packet comes through one of two hooks, for gateway and
  for bypass mode. The hook reads the headers and the payload (packet inspection), finds the
  client, classifies the flow with the features (a literal pattern automaton, regular expressions,
  positions, ports), asks the application rules and the MAC rules, records the visit, and gives a
  verdict that it remembers in the mark of the kernel's connection (gateway) or in the module's
  own connection table (bypass). Features come as netlink messages, rules as JSON requests through a
  character device, settings as sysctls. A timer expires clients and connections, another one
  reports the visits of each client as JSON. The daemon merges these reports with the leases, the listings of the kernel
  module and the stations of wireless interfaces into its own list of clients, records who comes and goes, adds up
  times and traffic by hour and day, and writes what it has to files and a database when the day changes.

  \<^bold>\<open>The theories.\<close>
  \<^item> \<^theory_text>\<open>Fwx_Prelude\<close>: bytes, C strings, payloads as memory, undefined behaviour as the left part
    of a sum, first-match updates of lists. \<^theory_text>\<open>Fwx_Table\<close>: hash tables with lists as buckets and the
    locales \<open>keyed_table\<close>, \<open>keyed_table_del\<close> and \<open>lookup_or_create\<close> with their contracts, interpreted on every table of the module.
    \<^theory_text>\<open>Fwx_Rules\<close>: the locale of a list of rules with a counter, interpreted on both rule lists.
  \<^item> \<^theory_text>\<open>Fwx_Flow\<close>: flows, features and their constants (\<^verbatim>\<open>fwx.h\<close>). \<^theory_text>\<open>Fwx_Port\<close>: port lists and text
    helpers. \<^theory_text>\<open>Fwx_Dpi\<close>, \<^theory_text>\<open>Fwx_Dns\<close>: headers, TLS, HTTP, QUIC and DNS inspection. The functions read
    a memory that goes on behind the payload, so that reads past its end show.
  \<^item> \<^theory_text>\<open>Fwx_Url_AC\<close>, \<^theory_text>\<open>Fwx_Url_AC_Correct\<close>, \<^theory_text>\<open>Fwx_Url_AC_Search\<close>, \<^theory_text>\<open>Fwx_Url_AC_Match\<close>: the
    Aho-Corasick automaton: the trie and its labels, the fail links by breadth-first search, the walk
    against a naive search. \<^theory_text>\<open>Fwx_Regexp\<close>: \<^verbatim>\<open>regexp.c\<close>, compiler and matcher against a denotation.
    \<^theory_text>\<open>Fwx_Match\<close>: \<^verbatim>\<open>fwx_match_feature\<close> against a reference without automaton. \<^theory_text>\<open>Fwx_Feature\<close>: the feature
    parser and the three messages of the loader.
  \<^item> \<^theory_text>\<open>Fwx_Mac\<close>, \<^theory_text>\<open>Fwx_Mac_Filter\<close>, \<^theory_text>\<open>Fwx_App_Filter\<close>: sets of addresses and the two kinds of
    rules. \<^theory_text>\<open>Fwx_Conntrack\<close>: the connection table and its sweep. \<^theory_text>\<open>Fwx_Client\<close>,
    \<^theory_text>\<open>Fwx_Client_Timer\<close>: clients, visits, whitelist, accounting and reports. \<^theory_text>\<open>Fwx_Active\<close>: the lists
    of the last ten applications and hosts, with the locale \<open>lru\<close> interpreted on both.
  \<^item> \<^theory_text>\<open>Fwx_Mark\<close>, \<^theory_text>\<open>Fwx_Hooks\<close>: the connection mark, both packet handlers, hooks, timer and netlink
    receiver over the record \<open>fwx\<close>, which has one field for each group of the module's global
    variables. \<^theory_text>\<open>Fwx_Verdict\<close>: the policy as sets, the invariant \<open>fwx_inv\<close> of the whole state and its
    preservation by the handlers. \<^theory_text>\<open>Fwx_Policy\<close>: the verdicts against the policy.
  \<^item> \<^theory_text>\<open>Fwx_Json\<close>, \<^theory_text>\<open>Fwx_Json_Text\<close>, \<^theory_text>\<open>Fwx_Json_Correct\<close>: \<^verbatim>\<open>k_json.c\<close>: tree and readers, parser,
    printer and minifier, and the grammar \<open>renders\<close> that connects them. \<^theory_text>\<open>Fwx_Config\<close>: the device and
    the dispatch of requests. \<^theory_text>\<open>Fwx_System\<close>: all steps of the module and what holds in every
    state they lead to.
  \<^item> The daemon: \<^theory_text>\<open>Fwxd_Text\<close>, results and the parts of the C library that its parsers use.
    \<^theory_text>\<open>Fwxd_Custom_Feature\<close>, \<^theory_text>\<open>Fwxd_Custom_Text\<close>, \<^theory_text>\<open>Fwxd_Custom_Ids\<close>, \<^theory_text>\<open>Fwxd_Custom_File\<close>: \<^verbatim>\<open>fwx_custom_feature.c\<close>,
    the applications that the user defines, their checks and texts, ids and file. \<^theory_text>\<open>Fwxd_Feature\<close>,
    \<^theory_text>\<open>Fwxd_Feature_Correct\<close>: \<^verbatim>\<open>fwx_feature.c\<close>, the encrypted file of features and its replacement.
    \<^theory_text>\<open>Fwxd_Load\<close>: the tables of names (\<^verbatim>\<open>fwx_config.c\<close>), the messages to the kernel (\<^verbatim>\<open>main.c\<close>, \<^verbatim>\<open>fwx_netlink.c\<close>),
    \<^verbatim>\<open>reload_feature\<close> and the requests. \<^theory_text>\<open>Fwxd_Load_Correct\<close>, \<^theory_text>\<open>Fwxd_System\<close>: the daemon and the kernel
    together, from a request to the kernel's list of features.
  \<^item> The daemon's clients (\<^verbatim>\<open>fwx_user.c\<close>): \<^theory_text>\<open>Fwxd_User\<close>, the list of clients with sessions and visits, the
    records, expiry, statistics by kind. \<^theory_text>\<open>Fwxd_User_Stat\<close>: hours of visits, the tables of
    applications, the files and database of a day, the archive. \<^theory_text>\<open>Fwxd_User_Proc\<close>: what is read every ten seconds, with
    \<^verbatim>\<open>sscanf\<close>. \<^theory_text>\<open>Fwxd_User_Backup\<close>: the files over a restart. \<^theory_text>\<open>Fwxd_User_Step\<close>: the report of the
    kernel module (\<^verbatim>\<open>fwx_netlink.c\<close>), the list \<^verbatim>\<open>/tmp/dev_list\<close> and the timer (\<^verbatim>\<open>main.c\<close>). \<^theory_text>\<open>Fwxd_User_Correct\<close>: the invariant \<open>users_ok\<close>
    and the locale \<open>presence\<close>, what every operation keeps of it and of a relation between the records and
    what is seen of each client. \<^theory_text>\<open>Fwxd_User_Reach\<close>: three interpretations of the locale, and all reachable states.
  \<^item> The daemon's data: \<^theory_text>\<open>Fwxd_History\<close>, \<^theory_text>\<open>Fwxd_History_Correct\<close>: the deletion of files and rows by age, by
    request (\<^verbatim>\<open>fwx_api_delete_record_files\<close>) and by the size of the database. \<^theory_text>\<open>Fwxd_Archive\<close>: the change of the day against the
    database. \<^theory_text>\<open>Fwxd_Hours\<close>: the hours of a visit and the most used applications of a day.
    \<^theory_text>\<open>Fwxd_Backup_Correct\<close>: the backup and its way back. \<^theory_text>\<open>Fwxd_Lease\<close>: the file of leases. \<^theory_text>\<open>Fwxd_Report\<close>: the report from the
    kernel module's client to the daemon's. \<^theory_text>\<open>Fwxd_User_Demo\<close>: a calendar and surroundings for the witnesses.

  \<^bold>\<open>What the lemmas show.\<close> Each component has an invariant that all its operations keep
  (\<open>mac_inv\<close>, \<open>app_filter_inv\<close>, \<open>mac_filter_inv\<close>, \<open>conn_inv\<close>, \<open>clients_inv\<close>, \<open>active_inv\<close>,
  \<open>feature_fits\<close>, \<open>linked\<close>); \<open>fwx_inv\<close> is their conjunction. The optimised search agrees with a naive one, in
  isolation and inside the classification; the verdicts follow the policy; encodings are
  inverted by their parsers (DNS, addresses, feature texts, JSON); loops end; reads stay inside
  the payload or at most four bytes behind it. Where the code deviates, the deviation is proved as it
  is: malformed expressions that match everything, buffers that overflow, a lock that is not
  released, drops that are taken back, a name that makes the file of custom features unreadable.
  For the daemon \<open>config_ok\<close> is the type of what it accepts; its texts are read back by itself and by the
  kernel, a damaged file is noticed, and a load brings the kernel exactly what was loaded. Of the daemon's
  clients \<open>users_ok\<close> holds in every state it can reach before an array overflows (texts that \<^verbatim>\<open>strncpy\<close> leaves without a NUL
  fill their arrays, and are read on into the next field), and comings and goings alternate; what the kernel module reports
  arrives, the rows after the change of the day are exact, a restart brings the clients back, hours add up, and data expires. Here too the deviations are
  proved: rows that a restart loses, days with a change of the clock, an identifier and a name that overflow an array.

  \<^bold>\<open>Fuel and bounds.\<close> The walk of the automaton, the fail links and the classification return an
  option, \<open>None\<close> for a missing link or a queue that is left; theorems show \<open>Some\<close>. The JSON parser gets
  twice the length of its buffer as fuel, and \<open>parse_enough_fuel\<close> shows that it is never used up.
  The loop over the hours of a visit is a \<^verbatim>\<open>partial_function\<close>, \<open>None\<close> when it does not end.
  Bypass mode answers \<open>None\<close> when it would wait for a lock that nobody will release. Integers are words of
  their width, except where the code's \<^verbatim>\<open>int\<close> cannot leave its range.

  \<^bold>\<open>Parameters.\<close> The kernel's functions are arguments: the hash of a connection, the parsers of
  numeric addresses, the sort, the clocks, what is in memory that was never written, and for every
  allocation whether it succeeds. No law is assumed of them, except that the hash function stays the
  same while the module runs. In the daemon the accessors of json-c, the results of calls on files and sockets
  and of \<^verbatim>\<open>realloc\<close>, the calendar, \<^verbatim>\<open>qsort\<close>, uci and the output of commands are arguments, again without laws.

  \<^bold>\<open>Not modelled.\<close> Operations are sequential: locks appear only where one is not released, and two
  processors are never in the module at once. Output (log, procfs listings, the bytes sent to the daemon, TCP
  resets) and the registration of hooks, timers and devices are left out. Of the daemon the ubus interface
  (but for the request to delete records), time rules, the pushing of rules, the state of interfaces and the online update of features are
  not modelled: they are sequences of library calls and shell commands. Neither are the functions of \<^verbatim>\<open>fwx_user.c\<close> that nothing calls.
\<close>

end
